(* ===== verification/Prelude.thy ===== *)
theory Prelude
  imports Main "HOL-Library.Word"
begin

unbundle bit_operations_syntax

text \<open>
  Shared vocabulary of the development: fact collections, the part of the Go string library that
  the sources use (a Go string is a sequence of bytes, here a list of 8-bit characters), decimal
  printing and parsing, and the interfaces (locales) that several components provide.
\<close>

named_theorems go_str \<open>unfolding rules of the Go string library\<close>
named_theorems wire_simps \<open>lengths and layout of encoded packets\<close>

type_synonym byte = "8 word"

section \<open>Lists\<close>

lemma take_eq_iff_append: "take (length p) s = p \<longleftrightarrow> (\<exists>r. s = p @ r)"
  by (metis append_eq_conv_conj append_take_drop_id)

section \<open>Byte order\<close>

text \<open>\<open>binary.BigEndian\<close>: most significant byte first.\<close>

definition be16 :: "16 word \<Rightarrow> byte list" where
  "be16 w = [ucast (drop_bit 8 w), ucast w]"

definition be32 :: "32 word \<Rightarrow> byte list" where
  "be32 w = [ucast (drop_bit 24 w), ucast (drop_bit 16 w), ucast (drop_bit 8 w), ucast w]"

fun rd16 :: "byte list \<Rightarrow> 16 word" where
  "rd16 (a # b # _) = push_bit 8 (ucast a) OR ucast b"
| "rd16 _ = 0"

fun rd32 :: "byte list \<Rightarrow> 32 word" where
  "rd32 (a # b # c # d # _) =
     push_bit 24 (ucast a) OR push_bit 16 (ucast b) OR push_bit 8 (ucast c) OR ucast d"
| "rd32 _ = 0"

lemma length_be16 [simp, wire_simps]: "length (be16 w) = 2"
  by (simp add: be16_def)

lemma length_be32 [simp, wire_simps]: "length (be32 w) = 4"
  by (simp add: be32_def)

lemma rd16_be16 [simp]: "rd16 (be16 w @ r) = w"
  unfolding be16_def
  by (auto intro!: bit_word_eqI simp: bit_simps not_less)

lemma rd32_be32 [simp]: "rd32 (be32 w @ r) = w"
proof -
  have "bit (rd32 (be32 w @ r)) n = bit w n" if "n < 32" for n
  proof -
    consider "n < 8" | "8 \<le> n" "n < 16" | "16 \<le> n" "n < 24" | "24 \<le> n"
      by linarith
    then show ?thesis
      using that unfolding be32_def by cases (auto simp: bit_simps)
  qed
  then show ?thesis
    by (intro bit_word_eqI) simp
qed

lemma be16_inj [simp]: "be16 a = be16 b \<longleftrightarrow> a = b"
  by (metis append_Nil2 rd16_be16)

lemma be32_inj [simp]: "be32 a = be32 b \<longleftrightarrow> a = b"
  by (metis append_Nil2 rd32_be32)

section \<open>Bytes of a string\<close>

abbreviation bval :: "char \<Rightarrow> nat" where
  "bval c \<equiv> of_char c"

definition has_prefix :: "string \<Rightarrow> string \<Rightarrow> bool" where
  "has_prefix p s \<longleftrightarrow> take (length p) s = p"

definition has_suffix :: "string \<Rightarrow> string \<Rightarrow> bool" where
  "has_suffix p s \<longleftrightarrow> length p \<le> length s \<and> drop (length s - length p) s = p"

lemma has_prefix_iff: "has_prefix p s \<longleftrightarrow> (\<exists>r. s = p @ r)"
  by (simp add: has_prefix_def take_eq_iff_append)

lemma has_suffix_iff: "has_suffix p s \<longleftrightarrow> (\<exists>r. s = r @ p)"
proof
  assume "has_suffix p s"
  then show "\<exists>r. s = r @ p"
    unfolding has_suffix_def by (metis append_take_drop_id)
qed (auto simp: has_suffix_def)

lemma has_prefix_append [simp]: "has_prefix p (p @ r)"
  by (simp add: has_prefix_def)

text \<open>\<open>strings.Index\<close>: the position of the first occurrence.\<close>

fun str_index :: "string \<Rightarrow> string \<Rightarrow> nat option" where
  "str_index sub [] = (if sub = [] then Some 0 else None)"
| "str_index sub (c # s) =
     (if has_prefix sub (c # s) then Some 0 else map_option Suc (str_index sub s))"

definition contains :: "string \<Rightarrow> string \<Rightarrow> bool" where
  "contains sub s \<longleftrightarrow> str_index sub s \<noteq> None"

lemma str_index_Some:
  "str_index sub s = Some n \<Longrightarrow> n + length sub \<le> length s \<and> take (length sub) (drop n s) = sub"
proof (induction s arbitrary: n)
  case Nil
  then show ?case by (auto split: if_splits)
next
  case (Cons c s)
  show ?case
  proof (cases "has_prefix sub (c # s)")
    case True
    with Cons.prems show ?thesis
      by (auto simp: has_prefix_def) (metis length_Cons length_take min.cobounded1)
  next
    case False
    with Cons show ?thesis by auto
  qed
qed

lemma contains_iff: "contains sub s \<longleftrightarrow> (\<exists>a b. s = a @ sub @ b)"
proof
  assume "contains sub s"
  then obtain n where "str_index sub s = Some n"
    by (auto simp: contains_def)
  then have "take (length sub) (drop n s) = sub"
    by (blast dest: str_index_Some)
  then have "s = take n s @ sub @ drop (length sub) (drop n s)"
    by (metis append_take_drop_id)
  then show "\<exists>a b. s = a @ sub @ b" by blast
next
  assume "\<exists>a b. s = a @ sub @ b"
  then obtain a b where "s = a @ sub @ b" by blast
  then show "contains sub s"
  proof (induction a arbitrary: s)
    case Nil
    then have "has_prefix sub s" by simp
    then show ?case
      by (cases s) (auto simp: contains_def has_prefix_def)
  next
    case (Cons x a)
    then show ?case
      by (auto simp: contains_def)
  qed
qed

lemma contains_append1 [intro]: "contains sub s \<Longrightarrow> contains sub (s @ t)"
  by (metis append_assoc contains_iff)

lemma contains_append2 [intro]: "contains sub t \<Longrightarrow> contains sub (s @ t)"
  by (metis append_assoc contains_iff)

lemma contains_self [simp, intro]: "contains sub (sub @ t)"
  by (metis append_Nil contains_iff)

text \<open>The slice \<open>s[n:]\<close>, which panics (\<open>None\<close>) behind the end of the text.\<close>

definition slice_from :: "nat \<Rightarrow> string \<Rightarrow> string option" where
  "slice_from n s = (if n \<le> length s then Some (drop n s) else None)"

definition contains_any :: "string list \<Rightarrow> string \<Rightarrow> bool" where
  "contains_any subs s \<longleftrightarrow> list_ex (\<lambda>x. contains x s) subs"

definition trim_prefix :: "string \<Rightarrow> string \<Rightarrow> string" where
  "trim_prefix p s = (if has_prefix p s then drop (length p) s else s)"

definition trim_suffix :: "string \<Rightarrow> string \<Rightarrow> string" where
  "trim_suffix p s = (if has_suffix p s then take (length s - length p) s else s)"

lemma trim_prefix_append [simp]: "trim_prefix p (p @ s) = s"
  by (simp add: trim_prefix_def)

text \<open>\<open>strings.Trim\<close> with a cutset of ASCII characters.\<close>

definition trim_set :: "string \<Rightarrow> string \<Rightarrow> string" where
  "trim_set cs s = rev (dropWhile (\<lambda>c. c \<in> set cs) (rev (dropWhile (\<lambda>c. c \<in> set cs) s)))"

lemma set_trim_set: "set (trim_set cs s) \<subseteq> set s"
  unfolding trim_set_def by (auto dest!: set_dropWhileD)

section \<open>Splitting and joining\<close>

fun split_by :: "('a \<Rightarrow> bool) \<Rightarrow> 'a list \<Rightarrow> 'a list list" where
  "split_by p [] = [[]]"
| "split_by p (x # xs) =
     (if p x then [] # split_by p xs
      else (case split_by p xs of [] \<Rightarrow> [[x]] | y # ys \<Rightarrow> (x # y) # ys))"

definition split_on :: "char \<Rightarrow> string \<Rightarrow> string list" where
  "split_on c = split_by (\<lambda>x. x = c)"

text \<open>\<open>strings.SplitN(s, c, 2)\<close>: \<open>None\<close> when the separator does not occur (one part).\<close>

definition split2 :: "char \<Rightarrow> string \<Rightarrow> (string \<times> string) option" where
  "split2 c s = (if c \<in> set s
     then Some (takeWhile (\<lambda>x. x \<noteq> c) s, tl (dropWhile (\<lambda>x. x \<noteq> c) s)) else None)"

definition before :: "char \<Rightarrow> string \<Rightarrow> string" where
  "before c s = takeWhile (\<lambda>x. x \<noteq> c) s"

definition fields_func :: "(char \<Rightarrow> bool) \<Rightarrow> string \<Rightarrow> string list" where
  "fields_func p s = filter (\<lambda>t. t \<noteq> []) (split_by p s)"

fun join :: "string \<Rightarrow> string list \<Rightarrow> string" where
  "join sep [] = []"
| "join sep [x] = x"
| "join sep (x # y # ys) = x @ sep @ join sep (y # ys)"

lemma split_by_nonempty [simp]: "split_by p xs \<noteq> []"
  by (induction xs) (auto split: list.splits)

lemma split_by_no_sep: "t \<in> set (split_by p s) \<Longrightarrow> x \<in> set t \<Longrightarrow> \<not> p x"
  by (induction s arbitrary: t) (fastforce split: if_splits list.splits)+

lemma split_by_elems: "t \<in> set (split_by p s) \<Longrightarrow> set t \<subseteq> set s"
  by (induction s arbitrary: t) (fastforce split: if_splits list.splits)+

lemma split_by_none: "\<forall>x \<in> set s. \<not> p x \<Longrightarrow> split_by p s = [s]"
  by (induction s) auto

lemma split_by_append:
  "\<forall>x \<in> set a. \<not> p x \<Longrightarrow> p c \<Longrightarrow> split_by p (a @ c # b) = a # split_by p b"
  by (induction a) auto

lemma split_by_append2: "p c \<Longrightarrow> split_by p (a @ c # b) = split_by p a @ split_by p b"
  by (induction a) (auto split: list.splits)

lemma join_split_on: "join [c] (split_on c s) = s"
proof (induction s)
  case Nil
  then show ?case by (simp add: split_on_def)
next
  case (Cons x s)
  obtain y ys where "split_by (\<lambda>z. z = c) s = y # ys"
    by (cases "split_by (\<lambda>z. z = c) s") auto
  with Cons show ?case
    by (cases ys) (auto simp: split_on_def)
qed

lemma split_on_join:
  assumes "xs \<noteq> []" and "\<forall>x \<in> set xs. c \<notin> set x"
  shows "split_on c (join [c] xs) = xs"
  using assms
proof (induction "[c]" xs rule: join.induct)
  case (2 x)
  then have "\<forall>z \<in> set x. \<not> z = c" by auto
  then show ?case
    by (simp add: split_on_def split_by_none)
next
  case (3 x y ys)
  moreover from "3.prems" have "\<forall>z \<in> set x. \<not> z = c" by auto
  ultimately show ?case
    by (simp add: split_on_def split_by_append)
qed simp

section \<open>White space and case\<close>

text \<open>
  \<open>strings.TrimSpace\<close> and \<open>strings.Fields\<close> use \<open>unicode.IsSpace\<close>: these are the UTF-8 encodings
  of its 25 runes.
\<close>

definition is_space_rune :: "string \<Rightarrow> bool" where
  "is_space_rune r = (case map bval r of
      [a] \<Rightarrow> a = 32 \<or> (9 \<le> a \<and> a \<le> 13)
    | [a, b] \<Rightarrow> a = 0xC2 \<and> (b = 0x85 \<or> b = 0xA0)
    | [a, b, c] \<Rightarrow>
        (a = 0xE1 \<and> b = 0x9A \<and> c = 0x80) \<or>
        (a = 0xE2 \<and> b = 0x80 \<and> ((0x80 \<le> c \<and> c \<le> 0x8A) \<or> c = 0xA8 \<or> c = 0xA9 \<or> c = 0xAF)) \<or>
        (a = 0xE2 \<and> b = 0x81 \<and> c = 0x9F) \<or>
        (a = 0xE3 \<and> b = 0x80 \<and> c = 0x80)
    | _ \<Rightarrow> False)"

definition space_len :: "string \<Rightarrow> nat" where
  "space_len s = (if is_space_rune (take 1 s) then 1
     else if 2 \<le> length s \<and> is_space_rune (take 2 s) then 2
     else if 3 \<le> length s \<and> is_space_rune (take 3 s) then 3 else 0)"

definition space_len_end :: "string \<Rightarrow> nat" where
  "space_len_end s = (if is_space_rune (drop (length s - 1) s) then 1
     else if 2 \<le> length s \<and> is_space_rune (drop (length s - 2) s) then 2
     else if 3 \<le> length s \<and> is_space_rune (drop (length s - 3) s) then 3 else 0)"

lemma is_space_rune_Nil [simp]: "\<not> is_space_rune []"
  by (simp add: is_space_rune_def)

lemma space_len_Nil [simp]: "space_len [] = 0"
  by (simp add: space_len_def)

lemma space_len_end_Nil [simp]: "space_len_end [] = 0"
  by (simp add: space_len_end_def)

function trim_left :: "string \<Rightarrow> string" where
  "trim_left s = (if space_len s = 0 then s else trim_left (drop (space_len s) s))"
  by pat_completeness auto
termination
proof (relation "measure length")
  fix s :: string
  assume "space_len s \<noteq> 0"
  moreover from this have "s \<noteq> []" by auto
  ultimately show "(drop (space_len s) s, s) \<in> measure length"
    by (simp add: length_greater_0_conv)
qed simp

function trim_right :: "string \<Rightarrow> string" where
  "trim_right s =
     (if space_len_end s = 0 then s else trim_right (take (length s - space_len_end s) s))"
  by pat_completeness auto
termination
proof (relation "measure length")
  fix s :: string
  assume "space_len_end s \<noteq> 0"
  moreover from this have "s \<noteq> []" by auto
  ultimately show "(take (length s - space_len_end s) s, s) \<in> measure length"
    by simp
qed simp

declare trim_left.simps [simp del] trim_right.simps [simp del]

definition trim_space :: "string \<Rightarrow> string" where
  "trim_space s = trim_right (trim_left s)"

lemma trim_left_space_len: "space_len (trim_left s) = 0"
proof (induction s rule: trim_left.induct)
  case (1 s)
  then show ?case by (cases "space_len s = 0") (auto simp: trim_left.simps [of s])
qed

lemma trim_right_space_len_end: "space_len_end (trim_right s) = 0"
proof (induction s rule: trim_right.induct)
  case (1 s)
  then show ?case by (cases "space_len_end s = 0") (auto simp: trim_right.simps [of s])
qed

lemma trim_right_prefix: "\<exists>n. trim_right s = take n s"
proof (induction s rule: trim_right.induct)
  case (1 s)
  show ?case
  proof (cases "space_len_end s = 0")
    case True
    then show ?thesis
      by (auto simp: trim_right.simps [of s] intro: exI [of _ "length s"])
  next
    case False
    with 1 obtain n where "trim_right (take (length s - space_len_end s) s) =
        take n (take (length s - space_len_end s) s)"
      by blast
    with False show ?thesis
      by (auto simp: trim_right.simps [of s])
  qed
qed

lemma trim_left_suffix: "\<exists>n. trim_left s = drop n s"
proof (induction s rule: trim_left.induct)
  case (1 s)
  show ?case
  proof (cases "space_len s = 0")
    case True
    then show ?thesis
      by (auto simp: trim_left.simps [of s] intro: exI [of _ 0])
  next
    case False
    with 1 show ?thesis
      by (auto simp: trim_left.simps [of s])
  qed
qed

lemma space_len_take: "space_len s = 0 \<Longrightarrow> space_len (take n s) = 0"
  by (cases "n = 0"; cases "n = 1"; cases "n = 2")
    (auto simp: space_len_def min_def take_all_iff split: if_splits)

lemma trim_space_ends:
  "space_len (trim_space s) = 0" "space_len_end (trim_space s) = 0"
proof -
  obtain n where "trim_right (trim_left s) = take n (trim_left s)"
    using trim_right_prefix by blast
  then show "space_len (trim_space s) = 0"
    by (simp add: trim_space_def space_len_take trim_left_space_len)
qed (simp add: trim_space_def trim_right_space_len_end)

lemma trim_space_id: "space_len s = 0 \<Longrightarrow> space_len_end s = 0 \<Longrightarrow> trim_space s = s"
  by (simp add: trim_space_def trim_left.simps [of s] trim_right.simps [of s])

lemma trim_space_idem [simp]: "trim_space (trim_space s) = trim_space s"
  by (simp add: trim_space_id trim_space_ends)

lemma set_trim_space: "set (trim_space s) \<subseteq> set s"
  by (metis set_drop_subset set_take_subset subset_trans trim_left_suffix trim_right_prefix
      trim_space_def)

lemma trim_space_Nil [simp]: "trim_space [] = []"
  by (simp add: trim_space_id)

function mark_spaces :: "string \<Rightarrow> char option list" where
  "mark_spaces s = (case s of [] \<Rightarrow> [] | c # cs \<Rightarrow>
     if space_len s = 0 then Some c # mark_spaces cs
     else None # mark_spaces (drop (space_len s) s))"
  by pat_completeness auto
termination
  by (relation "measure length") (auto simp: space_len_def)

declare mark_spaces.simps [simp del]

text \<open>\<open>strings.Fields\<close>.\<close>

definition fields :: "string \<Rightarrow> string list" where
  "fields s = map (map the) (filter (\<lambda>t. t \<noteq> []) (split_by (\<lambda>x. x = None) (mark_spaces s)))"

definition ascii_lower :: "char \<Rightarrow> char" where
  "ascii_lower c =
     (if 65 \<le> bval c \<and> bval c \<le> 90 then char_of (bval c + 32) else c)"

text \<open>
  The length of the UTF-8 sequence a text starts with; 0 for an invalid byte, which a loop over the
  runes of a Go string steps over one byte at a time.
\<close>

definition cont_byte :: "nat \<Rightarrow> bool" where
  "cont_byte n \<longleftrightarrow> 0x80 \<le> n \<and> n \<le> 0xBF"

fun utf8_len :: "nat list \<Rightarrow> nat" where
  "utf8_len [] = 0"
| "utf8_len (a # s) =
     (if a < 0x80 then 1
      else case s of
        [] \<Rightarrow> 0
      | b # s2 \<Rightarrow>
         if 0xC2 \<le> a \<and> a \<le> 0xDF then (if cont_byte b then 2 else 0)
         else (case s2 of
             [] \<Rightarrow> 0
           | c # s3 \<Rightarrow>
              if 0xE0 \<le> a \<and> a \<le> 0xEF
              then (if cont_byte b \<and> cont_byte c \<and> (a = 0xE0 \<longrightarrow> 0xA0 \<le> b) \<and> (a = 0xED \<longrightarrow> b \<le> 0x9F)
                    then 3 else 0)
              else (case s3 of
                  [] \<Rightarrow> 0
                | d # _ \<Rightarrow>
                   if 0xF0 \<le> a \<and> a \<le> 0xF4 \<and> cont_byte b \<and> cont_byte c \<and> cont_byte d \<and>
                      (a = 0xF0 \<longrightarrow> 0x90 \<le> b) \<and> (a = 0xF4 \<longrightarrow> b \<le> 0x8F)
                   then 4 else 0)))"

text \<open>
  \<open>unicode.ToLower\<close> on one rune: ASCII, the basic Cyrillic block, and all the runes whose lower case
  has another length (U+023A and U+023E grow, the others shrink; U+0130 and the Kelvin sign
  become ASCII). The remaining runes map to non-ASCII, non-Cyrillic runes of the same length; they
  are left as they are, which neither a comparison with an ASCII or Cyrillic literal nor a
  position can see.
\<close>

definition lower_table :: "(nat list \<times> nat list) list" where
  "lower_table =
    [([0xC8, 0xBA], [0xE2, 0xB1, 0xA5]), ([0xC8, 0xBE], [0xE2, 0xB1, 0xA6]), ([0xC4, 0xB0], [0x69]),
     ([0xE1, 0xBA, 0x9E], [0xC3, 0x9F]), ([0xE2, 0x84, 0xA6], [0xCF, 0x89]),
     ([0xE2, 0x84, 0xAA], [0x6B]), ([0xE2, 0x84, 0xAB], [0xC3, 0xA5]),
     ([0xE2, 0xB1, 0xA2], [0xC9, 0xAB]), ([0xE2, 0xB1, 0xA4], [0xC9, 0xBD]),
     ([0xE2, 0xB1, 0xAD], [0xC9, 0x91]), ([0xE2, 0xB1, 0xAE], [0xC9, 0xB1]),
     ([0xE2, 0xB1, 0xAF], [0xC9, 0x90]), ([0xE2, 0xB1, 0xB0], [0xC9, 0x92]),
     ([0xE2, 0xB1, 0xBE], [0xC8, 0xBF]), ([0xE2, 0xB1, 0xBF], [0xC9, 0x80]),
     ([0xEA, 0x9E, 0x8D], [0xC9, 0xA5]), ([0xEA, 0x9E, 0xAA], [0xC9, 0xA6]),
     ([0xEA, 0x9E, 0xAB], [0xC9, 0x9C]), ([0xEA, 0x9E, 0xAC], [0xC9, 0xA1]),
     ([0xEA, 0x9E, 0xAD], [0xC9, 0xAC]), ([0xEA, 0x9E, 0xAE], [0xC9, 0xAA]),
     ([0xEA, 0x9E, 0xB0], [0xCA, 0x9E]), ([0xEA, 0x9E, 0xB1], [0xCA, 0x87]),
     ([0xEA, 0x9E, 0xB2], [0xCA, 0x9D]), ([0xEA, 0x9F, 0x85], [0xCA, 0x82])]"

definition lower_rune :: "nat list \<Rightarrow> nat list" where
  "lower_rune r =
     (case r of
        [a] \<Rightarrow> [if 65 \<le> a \<and> a \<le> 90 then a + 32 else a]
      | [a, b] \<Rightarrow>
          if a = 0xD0 \<and> b \<le> 0x8F then [0xD1, b + 16]
          else if a = 0xD0 \<and> b \<le> 0x9F then [a, b + 32]
          else if a = 0xD0 \<and> b \<le> 0xAF then [0xD1, b - 32]
          else (case map_of lower_table r of Some l \<Rightarrow> l | None \<Rightarrow> r)
      | _ \<Rightarrow> (case map_of lower_table r of Some l \<Rightarrow> l | None \<Rightarrow> r))"

text \<open>
  \<open>strings.ToLower\<close>: the runes mapped one by one; an invalid byte becomes the three bytes of U+FFFD.
\<close>

function lower_bytes :: "nat list \<Rightarrow> nat list" where
  "lower_bytes s =
     (case s of
        [] \<Rightarrow> []
      | a # t \<Rightarrow>
          if utf8_len s = 0 then [0xEF, 0xBF, 0xBD] @ lower_bytes t
          else lower_rune (take (utf8_len s) s) @ lower_bytes (drop (utf8_len s) s))"
  by pat_completeness auto
termination
  by (relation "measure length") auto

declare lower_bytes.simps [simp del]

text \<open>Texts that are not ASCII are written as their UTF-8 bytes.\<close>

definition utf8 :: "nat list \<Rightarrow> string" where
  "utf8 = map char_of"

definition to_lower :: "string \<Rightarrow> string" where
  "to_lower s = utf8 (lower_bytes (map bval s))"

text \<open>
  \<open>strings.EqualFold\<close> against an ASCII literal: the only non-ASCII runes that fold to an ASCII
  letter are the Kelvin sign (k) and the long s U+017F (s).
\<close>

fun fold_ascii :: "string \<Rightarrow> string" where
  "fold_ascii [] = []"
| "fold_ascii (a # s) = (case s of
      [] \<Rightarrow> [ascii_lower a]
    | b # s2 \<Rightarrow>
       (if bval a = 0xC5 \<and> bval b = 0xBF then CHR ''s'' # fold_ascii s2
        else (case s2 of
            [] \<Rightarrow> ascii_lower a # fold_ascii s
          | c # s3 \<Rightarrow>
             if bval a = 0xE2 \<and> bval b = 0x84 \<and> bval c = 0xAA then CHR ''k'' # fold_ascii s3
             else ascii_lower a # fold_ascii s)))"

definition equal_fold :: "string \<Rightarrow> string \<Rightarrow> bool" where
  "equal_fold lit s \<longleftrightarrow> fold_ascii s = map ascii_lower lit"

section \<open>Decimal numbers\<close>

definition digit_char :: "nat \<Rightarrow> char" where
  "digit_char d = char_of (48 + d)"

definition is_digit :: "char \<Rightarrow> bool" where
  "is_digit c \<longleftrightarrow> 48 \<le> bval c \<and> bval c \<le> 57"

fun digits_nat :: "nat \<Rightarrow> string" where
  "digits_nat n = (if n < 10 then [digit_char n] else digits_nat (n div 10) @ [digit_char (n mod 10)])"

declare digits_nat.simps [simp del]

definition fmt_int :: "int \<Rightarrow> string" where
  "fmt_int i = (if i < 0 then CHR ''-'' # digits_nat (nat (- i)) else digits_nat (nat i))"

definition digits_value :: "string \<Rightarrow> nat" where
  "digits_value s = foldl (\<lambda>n c. 10 * n + (bval c - 48)) 0 s"

definition int64_ok :: "int \<Rightarrow> bool" where
  "int64_ok i \<longleftrightarrow> - (2 ^ 63) \<le> i \<and> i < 2 ^ 63"

text \<open>Arithmetic on \<open>int64\<close> wraps around.\<close>

definition wrap64 :: "int \<Rightarrow> int" where
  "wrap64 i = (i + 2 ^ 63) mod 2 ^ 64 - 2 ^ 63"

lemma wrap64_id: "- (2 ^ 63) \<le> i \<Longrightarrow> i < 2 ^ 63 \<Longrightarrow> wrap64 i = i"
  by (simp add: wrap64_def)

text \<open>\<open>strconv.Atoi\<close> on a 64-bit platform: an optional sign, one or more digits, in range.\<close>

definition parse_unsigned :: "string \<Rightarrow> nat option" where
  "parse_unsigned s = (if s \<noteq> [] \<and> list_all is_digit s then Some (digits_value s) else None)"

definition atoi :: "string \<Rightarrow> int option" where
  "atoi s = (case (case s of
        [] \<Rightarrow> None
      | c # r \<Rightarrow> if c = CHR ''-'' then map_option (\<lambda>n. - int n) (parse_unsigned r)
          else if c = CHR ''+'' then map_option int (parse_unsigned r)
          else map_option int (parse_unsigned s)) of
      None \<Rightarrow> None
    | Some i \<Rightarrow> if int64_ok i then Some i else None)"

lemma bval_digit_char [simp]: "d < 10 \<Longrightarrow> bval (digit_char d) = 48 + d"
  by (simp add: digit_char_def of_char_of)

lemma digits_nat_digits: "list_all is_digit (digits_nat n)"
proof (induction n rule: digits_nat.induct)
  case (1 n)
  then show ?case
    by (cases "n < 10") (auto simp: digits_nat.simps [of n] is_digit_def)
qed

lemma digits_nat_nonempty [simp]: "digits_nat n \<noteq> []"
  by (subst digits_nat.simps) simp

lemma digits_value_digits_nat [simp]: "digits_value (digits_nat n) = n"
proof (induction n rule: digits_nat.induct)
  case (1 n)
  show ?case
  proof (cases "n < 10")
    case True
    then show ?thesis by (simp add: digits_nat.simps [of n] digits_value_def)
  next
    case False
    with 1 have "digits_value (digits_nat (n div 10)) = n div 10" by simp
    with False show ?thesis
      by (simp add: digits_nat.simps [of n] digits_value_def)
  qed
qed

lemma parse_unsigned_digits_nat [simp]: "parse_unsigned (digits_nat n) = Some n"
  by (simp add: parse_unsigned_def digits_nat_digits)

lemma atoi_fmt_int: "int64_ok i \<Longrightarrow> atoi (fmt_int i) = Some i"
proof -
  assume ok: "int64_ok i"
  obtain c r where c: "digits_nat (nat i) = c # r"
    by (cases "digits_nat (nat i)") auto
  then have "is_digit c"
    using digits_nat_digits [of "nat i"] by simp
  then have "c \<noteq> CHR ''-''" "c \<noteq> CHR ''+''"
    by (auto simp: is_digit_def)
  with c ok show ?thesis
    using parse_unsigned_digits_nat [of "nat i"]
    by (auto simp: atoi_def fmt_int_def)
qed

section \<open>Printable ASCII texts\<close>

definition is_graph :: "char \<Rightarrow> bool" where
  "is_graph c \<longleftrightarrow> 33 \<le> bval c \<and> bval c < 127"

lemma bval_ascii_lower:
  "bval (ascii_lower c) = (if 65 \<le> bval c \<and> bval c \<le> 90 then bval c + 32 else bval c)"
  by (simp add: ascii_lower_def)

lemma bval_eqD: "bval c = bval d \<Longrightarrow> c = d"
  by (metis char_of_char)

lemma to_lower_Nil [simp]: "to_lower [] = []"
  by (simp add: to_lower_def utf8_def lower_bytes.simps)

lemma to_lower_ascii [simp]: "bval a < 128 \<Longrightarrow> to_lower (a # s) = ascii_lower a # to_lower s"
  by (simp add: to_lower_def utf8_def lower_bytes.simps [of "bval a # s" for s] lower_rune_def ascii_lower_def)

lemma to_lower_ascii_append: "\<forall>c \<in> set p. bval c < 128 \<Longrightarrow> to_lower (p @ s) = map ascii_lower p @ to_lower s"
  by (induction p) simp_all

lemma space_len_graph: "is_graph a \<Longrightarrow> space_len (a # s) = 0"
  by (cases s; cases "tl s") (auto simp: space_len_def is_graph_def is_space_rune_def)

lemma space_len_end_graph: "is_graph a \<Longrightarrow> space_len_end (s @ [a]) = 0"
proof -
  assume g: "is_graph a"
  have one: "drop (length (s @ [a]) - 1) (s @ [a]) = [a]"
    by simp
  have "\<not> is_space_rune (x @ [a])" for x
    using g by (auto simp: is_graph_def is_space_rune_def split: list.splits)
  moreover have "\<exists>x. drop n (s @ [a]) = x @ [a]" if "n \<le> length s" for n
    using that by simp
  ultimately have "\<not> is_space_rune (drop n (s @ [a]))" if "n \<le> length s" for n
    using that by metis
  then show ?thesis
    by (simp add: space_len_end_def del: drop_append)
qed

lemma trim_space_graph:
  assumes "s = [] \<or> is_graph (hd s) \<and> is_graph (last s)"
  shows "trim_space s = s"
proof (cases "s = []")
  case False
  then obtain a r b l where "s = a # r" "s = l @ [b]" "is_graph a" "is_graph b"
    using assms by (metis append_butlast_last_id list.collapse)
  then show ?thesis
    using space_len_graph space_len_end_graph by (metis trim_space_id)
qed simp

lemma trim_set_id:
  assumes "s = [] \<or> hd s \<notin> set cs \<and> last s \<notin> set cs"
  shows "trim_set cs s = s"
proof (cases "s = []")
  case False
  then have "dropWhile (\<lambda>c. c \<in> set cs) s = s"
    using assms by (cases s) auto
  moreover have "dropWhile (\<lambda>c. c \<in> set cs) (rev s) = rev s"
    using assms False by (cases s rule: rev_cases) auto
  ultimately show ?thesis
    by (simp add: trim_set_def)
qed (simp add: trim_set_def)

lemma trim_set_graph_space:
  assumes "\<forall>c \<in> set s. is_graph c" and "set s \<inter> set cs = {}"
  shows "trim_space s = s" and "trim_set cs s = s"
proof -
  show "trim_space s = s"
    using assms by (intro trim_space_graph) (cases "s = []", auto)
  show "trim_set cs s = s"
    using assms hd_in_set [of s] last_in_set [of s] by (intro trim_set_id) blast
qed

text \<open>Splitting a list of separator-free parts that was joined with one of the separators.\<close>

lemma split_by_join:
  assumes "p c" and "\<forall>x \<in> set xs. \<forall>d \<in> set x. \<not> p d" and "xs \<noteq> []"
  shows "split_by p (join [c] xs) = xs"
  using assms(2,3)
proof (induction xs rule: induct_list012)
  case (3 x y ys)
  have "split_by p (x @ c # s) = x # split_by p s" if "\<forall>d \<in> set x. \<not> p d" for s
    using that assms(1) by (induction x) auto
  then show ?case
    using 3 by simp
qed (simp_all add: split_by_none)

section \<open>Evaluation\<close>

text \<open>
  Equations over the bits of a character, with which the functions on texts are evaluated: plain ASCII
  needs no arithmetic then.
\<close>

lemma bval_digit7: "bval c < 128 \<longleftrightarrow> \<not> digit7 c"
  by (cases c) (auto simp: of_char_def)

lemma ascii_lower_code [code]:
  "ascii_lower (Char b0 b1 b2 b3 b4 b5 b6 b7) =
     (if \<not> b7 \<and> b6 \<and> \<not> b5 \<and> (b0 \<or> b1 \<or> b2 \<or> b3 \<or> b4) \<and> \<not> (b4 \<and> b3 \<and> (b2 \<or> (b1 \<and> b0)))
      then Char b0 b1 b2 b3 b4 True b6 b7 else Char b0 b1 b2 b3 b4 b5 b6 b7)"
  by (cases b0; cases b1; cases b2; cases b3; cases b4; cases b5; cases b6; cases b7)
     (simp_all add: ascii_lower_def char_of_def bit_0)

lemma is_digit_code [code]:
  "is_digit (Char b0 b1 b2 b3 b4 b5 b6 b7) \<longleftrightarrow> \<not> b7 \<and> \<not> b6 \<and> b5 \<and> b4 \<and> \<not> (b3 \<and> (b2 \<or> b1))"
  by (cases b0; cases b1; cases b2; cases b3; cases b4; cases b5; cases b6; cases b7)
     (simp_all add: is_digit_def)

lemma fold_ascii_code [code]:
  "fold_ascii [] = []"
  "fold_ascii (a # s) =
     (if \<not> digit7 a then ascii_lower a # fold_ascii s
      else (case s of
          [] \<Rightarrow> [ascii_lower a]
        | b # s2 \<Rightarrow>
           (if a = CHR 0xC5 \<and> b = CHR 0xBF then CHR ''s'' # fold_ascii s2
            else (case s2 of
                [] \<Rightarrow> ascii_lower a # fold_ascii s
              | c # s3 \<Rightarrow>
                 if a = CHR 0xE2 \<and> b = CHR 0x84 \<and> c = CHR 0xAA then CHR ''k'' # fold_ascii s3
                 else ascii_lower a # fold_ascii s))))"
proof -
  have e: "(bval a = 0xC5) = (a = CHR 0xC5)" "(bval a = 0xBF) = (a = CHR 0xBF)" "(bval a = 0xE2) = (a = CHR 0xE2)"
    "(bval a = 0x84) = (a = CHR 0x84)" "(bval a = 0xAA) = (a = CHR 0xAA)" for a
    using of_char_eq_iff [of a "CHR 0xC5", where 'a = nat] of_char_eq_iff [of a "CHR 0xBF", where 'a = nat]
      of_char_eq_iff [of a "CHR 0xE2", where 'a = nat] of_char_eq_iff [of a "CHR 0x84", where 'a = nat]
      of_char_eq_iff [of a "CHR 0xAA", where 'a = nat] by simp_all
  have d: "\<not> digit7 a \<Longrightarrow> a \<noteq> CHR 0xC5 \<and> a \<noteq> CHR 0xE2" by auto
  show "fold_ascii [] = []" by simp
  show "fold_ascii (a # s) =
     (if \<not> digit7 a then ascii_lower a # fold_ascii s
      else (case s of
          [] \<Rightarrow> [ascii_lower a]
        | b # s2 \<Rightarrow>
           (if a = CHR 0xC5 \<and> b = CHR 0xBF then CHR ''s'' # fold_ascii s2
            else (case s2 of
                [] \<Rightarrow> ascii_lower a # fold_ascii s
              | c # s3 \<Rightarrow>
                 if a = CHR 0xE2 \<and> b = CHR 0x84 \<and> c = CHR 0xAA then CHR ''k'' # fold_ascii s3
                 else ascii_lower a # fold_ascii s))))"
  proof (cases s)
    case Nil
    then show ?thesis by simp
  next
    case (Cons b s2)
    show ?thesis
    proof (cases s2)
      case Nil
      then show ?thesis using Cons d by (simp add: e)
    next
      case (Cons c s3)
      then show ?thesis using \<open>s = b # s2\<close> d by (simp add: e)
    qed
  qed
qed

lemma to_lower_code [code]:
  "to_lower s = (if list_all (\<lambda>c. \<not> digit7 c) s then map ascii_lower s else utf8 (lower_bytes (map bval s)))"
  using to_lower_ascii_append [of s "[]"]
  by (simp add: list_all_iff bval_digit7) (simp add: to_lower_def)

definition ascii_space :: "char \<Rightarrow> bool" where
  "ascii_space c \<longleftrightarrow> c \<in> {CHR 32, CHR 9, CHR 10, CHR 11, CHR 12, CHR 13}"

lemma ascii_space_code [code]:
  "ascii_space c \<longleftrightarrow> c = CHR 32 \<or> c = CHR 9 \<or> c = CHR 10 \<or> c = CHR 11 \<or> c = CHR 12 \<or> c = CHR 13"
  by (simp add: ascii_space_def)

lemma ascii_space_rune: "\<not> digit7 a \<Longrightarrow> is_space_rune (a # r) \<longleftrightarrow> r = [] \<and> ascii_space a"
proof -
  assume d: "\<not> digit7 a"
  have "bval a = 32 \<or> (9 \<le> bval a \<and> bval a \<le> 13) \<longleftrightarrow> ascii_space a"
    by (cases a rule: char.exhaust) 
       (auto simp: ascii_space_def)
  then show ?thesis
    using d bval_digit7 [of a] by (auto simp: is_space_rune_def split: list.split)
qed
lemma space_len_code [code]:
  "space_len s =
     (case s of
        [] \<Rightarrow> 0
      | a # t \<Rightarrow>
          if \<not> digit7 a then (if ascii_space a then 1 else 0)
          else if is_space_rune [a] then 1
          else if 2 \<le> length s \<and> is_space_rune (take 2 s) then 2
          else if 3 \<le> length s \<and> is_space_rune (take 3 s) then 3 else 0)"
proof (cases s)
  case (Cons a t)
  then show ?thesis
    by (cases t; cases "tl t") (auto simp: space_len_def ascii_space_rune numeral_2_eq_2 numeral_3_eq_3)
qed simp

end
