(* ===== verification/Chan.thy ===== *)
theory Chan
  imports Prelude
begin

text \<open>
  Buffered Go channels as the client uses them: a FIFO buffer with a capacity, the non-blocking
  \<open>select { case ch <- v: default: }\<close> and the receive. The packet queues of the workers
  (\<open>core/session.go\<close>), the return queue of the dispatcher, the one-element configuration channel
  and the event channel (\<open>core/main.go\<close>) are channels of this kind. The locale states what their
  users rely on; the lemmas about runs of sends are proved once in it.
\<close>

section \<open>Channels\<close>

record 'a chan =
  cbuf :: "'a list"
  ccap :: nat

definition make_chan :: "nat \<Rightarrow> 'a chan" where
  "make_chan n = \<lparr>cbuf = [], ccap = n\<rparr>"

definition try_send :: "'a chan \<Rightarrow> 'a \<Rightarrow> 'a chan option" where
  "try_send c v = (if length (cbuf c) < ccap c then Some (c\<lparr>cbuf := cbuf c @ [v]\<rparr>) else None)"

definition try_recv :: "'a chan \<Rightarrow> ('a \<times> 'a chan) option" where
  "try_recv c = (case cbuf c of [] \<Rightarrow> None | v # vs \<Rightarrow> Some (v, c\<lparr>cbuf := vs\<rparr>))"

section \<open>The interface\<close>

locale fifo_channel =
  fixes send :: "'q \<Rightarrow> 'a \<Rightarrow> 'q option"
    and recv :: "'q \<Rightarrow> ('a \<times> 'q) option"
    and content :: "'q \<Rightarrow> 'a list"
    and cap :: "'q \<Rightarrow> nat"
  assumes send_some: "send q v = Some q' \<Longrightarrow> content q' = content q @ [v] \<and> cap q' = cap q"
    and send_none: "send q v = None \<longleftrightarrow> cap q \<le> length (content q)"
    and recv_some: "recv q = Some (v, q') \<Longrightarrow> content q = v # content q' \<and> cap q' = cap q"
    and recv_none: "recv q = None \<longleftrightarrow> content q = []"
begin

text \<open>A run of non-blocking sends: a value that does not fit is dropped.\<close>

definition send_or_drop :: "'q \<Rightarrow> 'a \<Rightarrow> 'q" where
  "send_or_drop q v = (case send q v of Some q' \<Rightarrow> q' | None \<Rightarrow> q)"

lemma send_room: "length (content q) < cap q \<Longrightarrow> \<exists>q'. send q v = Some q'"
  using send_none [of q v] by (cases "send q v") auto

lemma send_or_drop_cap [simp]: "cap (send_or_drop q v) = cap q"
  using send_some by (auto simp: send_or_drop_def split: option.splits)

lemma send_or_drop_bound: "length (content q) \<le> cap q \<Longrightarrow>
    length (content (send_or_drop q v)) \<le> cap q"
  using send_some [of q v] send_none [of q v]
  by (fastforce simp: send_or_drop_def split: option.splits)

lemma sends_cap [simp]: "cap (foldl send_or_drop q vs) = cap q"
  by (induction vs arbitrary: q) auto

lemma sends_bound: "length (content q) \<le> cap q \<Longrightarrow>
    length (content (foldl send_or_drop q vs)) \<le> cap q"
proof (induction vs arbitrary: q)
  case (Cons v vs)
  then show ?case
    using send_or_drop_bound [OF Cons.prems, of v] Cons.IH [of "send_or_drop q v"] by simp
qed simp

text \<open>What a run of sends leaves is what was there and then the first values, in order.\<close>

lemma sends_content: "length (content q) \<le> cap q \<Longrightarrow>
    content (foldl send_or_drop q vs) = content q @ take (cap q - length (content q)) vs"
proof (induction vs arbitrary: q)
  case (Cons v vs)
  show ?case
  proof (cases "send q v")
    case None
    then have "cap q \<le> length (content q)"
      using send_none by blast
    then show ?thesis
      using Cons.IH [OF Cons.prems] None by (simp add: send_or_drop_def)
  next
    case (Some q')
    then have c: "content q' = content q @ [v]" "cap q' = cap q"
      using send_some by blast+
    moreover have lt: "length (content q) < cap q"
      using Some send_none [of q v] by force
    ultimately have "length (content q') \<le> cap q'"
      by simp
    from Cons.IH [OF this] show ?thesis
      using c lt by (simp add: send_or_drop_def Some take_Cons' Suc_diff_Suc [symmetric])
  qed
qed simp

end

interpretation go_chan: fifo_channel try_send try_recv cbuf ccap
  by unfold_locales (auto simp: try_send_def try_recv_def split: if_splits list.splits)

lemmas chan_facts = go_chan.send_some go_chan.send_none go_chan.recv_some go_chan.recv_none

lemma cbuf_make_chan [simp]: "cbuf (make_chan n) = []" "ccap (make_chan n) = n"
  by (simp_all add: make_chan_def)

lemma try_send_room [simp]:
  "length (cbuf c) < ccap c \<Longrightarrow> try_send c v = Some (c\<lparr>cbuf := cbuf c @ [v]\<rparr>)"
  by (simp add: try_send_def)

lemma try_send_full [simp]: "ccap c \<le> length (cbuf c) \<Longrightarrow> try_send c v = None"
  by (simp add: try_send_def)

text \<open>The single-element channel that carries the configuration keeps its first value only.\<close>

lemma first_send_wins:
  "cbuf (foldl go_chan.send_or_drop (make_chan 1) (v # vs)) = [v]"
  using go_chan.sends_content [of "make_chan 1" "v # vs"] by simp

end
