(* ===== verification/Net.thy ===== *)
theory Net
  imports Prelude
begin

text \<open>
  Host and port strings: \<open>net.SplitHostPort\<close> and \<open>net.JoinHostPort\<close> of the standard library, which
  the session, the worker group, the DNS helper and the WireGuard code apply to addresses that come
  from VK and from the user's profile.
\<close>

datatype addr_error = MissingPort | TooManyColons | MissingBracket | UnexpectedOpen | UnexpectedClose

fun addr_error_text :: "string \<Rightarrow> addr_error \<Rightarrow> string" where
  "addr_error_text a MissingPort = ''address '' @ a @ '': missing port in address''"
| "addr_error_text a TooManyColons = ''address '' @ a @ '': too many colons in address''"
| "addr_error_text a MissingBracket = ''address '' @ a @ '': missing ']' in address''"
| "addr_error_text a UnexpectedOpen = ''address '' @ a @ '': unexpected '[' in address''"
| "addr_error_text a UnexpectedClose = ''address '' @ a @ '': unexpected ']' in address''"

text \<open>Everything before and after the last occurrence of a character.\<close>

definition split_last :: "char \<Rightarrow> string \<Rightarrow> (string \<times> string) option" where
  "split_last c s =
     (if c \<in> set s then
        Some (rev (tl (dropWhile (\<lambda>x. x \<noteq> c) (rev s))), rev (takeWhile (\<lambda>x. x \<noteq> c) (rev s)))
      else None)"

lemma split_last_append [simp]: "c \<notin> set q \<Longrightarrow> split_last c (p @ c # q) = Some (p, q)"
proof -
  assume "c \<notin> set q"
  then have q: "\<And>x. x \<in> set (rev q) \<Longrightarrow> x \<noteq> c"
    by auto
  have "takeWhile (\<lambda>x. x \<noteq> c) (rev q @ c # rev p) = rev q"
    "dropWhile (\<lambda>x. x \<noteq> c) (rev q @ c # rev p) = c # rev p"
    using takeWhile_append2 [of "rev q" "\<lambda>x. x \<noteq> c" "c # rev p", OF q]
      dropWhile_append2 [of "rev q" "\<lambda>x. x \<noteq> c" "c # rev p", OF q] by simp_all
  then show ?thesis
    by (simp add: split_last_def)
qed

definition SplitHostPort :: "string \<Rightarrow> addr_error + string \<times> string" where
  "SplitHostPort s =
     (case split_last CHR '':'' s of
        None \<Rightarrow> Inl MissingPort
      | Some (pre, port) \<Rightarrow>
          if has_prefix ''['' s then
            (if CHR '']'' \<notin> set s then Inl MissingBracket
             else let e = length (takeWhile (\<lambda>c. c \<noteq> CHR '']'') s) in
               if e + 1 = length s then Inl MissingPort
               else if e + 1 = length pre then
                 (if CHR ''['' \<in> set (drop 1 s) then Inl UnexpectedOpen
                  else if CHR '']'' \<in> set (drop (e + 1) s) then Inl UnexpectedClose
                  else Inr (drop 1 (take e s), port))
               else if s ! (e + 1) = CHR '':'' then Inl TooManyColons
               else Inl MissingPort)
          else if CHR '':'' \<in> set pre then Inl TooManyColons
          else if CHR ''['' \<in> set s then Inl UnexpectedOpen
          else if CHR '']'' \<in> set s then Inl UnexpectedClose
          else Inr (pre, port))"

definition JoinHostPort :: "string \<Rightarrow> string \<Rightarrow> string" where
  "JoinHostPort host port =
     (if CHR '':'' \<in> set host then ''['' @ host @ '']:'' @ port else host @ '':'' @ port)"

definition plain_host :: "string \<Rightarrow> bool" where
  "plain_host h \<longleftrightarrow> CHR ''['' \<notin> set h \<and> CHR '']'' \<notin> set h"

definition plain_port :: "string \<Rightarrow> bool" where
  "plain_port p \<longleftrightarrow> CHR '':'' \<notin> set p \<and> CHR ''['' \<notin> set p \<and> CHR '']'' \<notin> set p"

lemma SplitHostPort_bracket:
  assumes "plain_host h" and "plain_port p"
  shows "SplitHostPort (''['' @ h @ '']:'' @ p) = Inr (h, p)"
proof -
  define s where "s = ''['' @ h @ '']:'' @ p"
  have e: "takeWhile (\<lambda>c. c \<noteq> CHR '']'') s = CHR ''['' # h"
    using assms(1) by (auto simp: s_def plain_host_def takeWhile_append)
  have "s = (CHR ''['' # h @ '']'') @ CHR '':'' # p"
    by (simp add: s_def)
  then have l: "split_last CHR '':'' s = Some (CHR ''['' # h @ '']'', p)"
    using assms(2) by (metis split_last_append plain_port_def)
  have "SplitHostPort s = Inr (h, p)"
    unfolding SplitHostPort_def l option.case prod.case e
    using assms by (simp add: s_def plain_host_def plain_port_def has_prefix_def Let_def)
  then show ?thesis
    by (simp add: s_def)
qed

lemma SplitHostPort_plain:
  assumes "plain_host h" and "plain_port p" and "CHR '':'' \<notin> set h"
  shows "SplitHostPort (h @ '':'' @ p) = Inr (h, p)"
proof -
  have "\<not> has_prefix ''['' (h @ '':'' @ p)"
    using assms(1) by (cases h) (auto simp: has_prefix_def plain_host_def)
  then show ?thesis
    using assms by (simp add: SplitHostPort_def plain_host_def plain_port_def)
qed

text \<open>Splitting what was joined gives the parts back.\<close>

lemma SplitHostPort_JoinHostPort:
  "plain_host h \<Longrightarrow> plain_port p \<Longrightarrow> SplitHostPort (JoinHostPort h p) = Inr (h, p)"
  using SplitHostPort_bracket SplitHostPort_plain by (simp add: JoinHostPort_def)

end
