(* ===== verification/Dedup.thy ===== *)
theory Dedup
  imports Prelude
begin

text \<open>
  Filters that keep the first occurrence of every normalised value: the loops with a \<open>seen\<close> set that
  the client uses for call hashes (\<open>ParseHashes\<close>, \<open>uniqueVKHashes\<close>, \<open>normalizeVKHashList\<close>) and for
  the TURN addresses of the exclude routes. The locale states how such a loop grows with its input;
  what its users need (no duplicates, nothing lost, nothing invented, order) is proved once.
\<close>

locale first_seen =
  fixes norm :: "'a \<Rightarrow> 'b option"
    and filt :: "'a list \<Rightarrow> 'b list"
  assumes filt_Nil: "filt [] = []"
    and filt_snoc: "filt (xs @ [x]) =
      (case norm x of None \<Rightarrow> filt xs
       | Some y \<Rightarrow> if y \<in> set (filt xs) then filt xs else filt xs @ [y])"
begin

lemma distinct_filt: "distinct (filt xs)"
  by (induction xs rule: rev_induct) (auto simp: filt_Nil filt_snoc split: option.splits)

lemma set_filt: "set (filt xs) = {y. \<exists>x \<in> set xs. norm x = Some y}"
  by (induction xs rule: rev_induct) (auto simp: filt_Nil filt_snoc split: option.splits)

lemma length_filt: "length (filt xs) \<le> length xs"
  by (induction xs rule: rev_induct) (auto simp: filt_Nil filt_snoc split: option.splits)

lemma filt_prefix: "\<exists>zs. filt (xs @ ys) = filt xs @ zs"
proof (induction ys rule: rev_induct)
  case (snoc y ys)
  then show ?case
    unfolding append_assoc [symmetric] filt_snoc by (auto split: option.splits)
qed simp

lemma filt_seen: "\<forall>y \<in> set ys. \<forall>z. norm y = Some z \<longrightarrow> z \<in> set (filt xs) \<Longrightarrow> filt (xs @ ys) = filt xs"
proof (induction ys rule: rev_induct)
  case (snoc y ys)
  then show ?case
    unfolding append_assoc [symmetric] filt_snoc by (auto split: option.splits)
qed simp

lemma filt_twice: "filt (xs @ xs) = filt xs"
  by (rule filt_seen) (auto simp: set_filt)

end

text \<open>The plain loop, with \<open>seen\<close> as the accumulator.\<close>

fun unique_loop :: "('a \<Rightarrow> 'b option) \<Rightarrow> 'b list \<Rightarrow> 'b list \<Rightarrow> 'a list \<Rightarrow> 'b list" where
  "unique_loop norm seen res [] = res"
| "unique_loop norm seen res (x # xs) =
     (case norm x of
        None \<Rightarrow> unique_loop norm seen res xs
      | Some y \<Rightarrow>
          if y \<in> set seen then unique_loop norm seen res xs
          else unique_loop norm (y # seen) (res @ [y]) xs)"

lemma unique_loop_snoc:
  "set seen = set res \<Longrightarrow> unique_loop norm seen res (xs @ [x]) =
     (let r = unique_loop norm seen res xs in
      case norm x of None \<Rightarrow> r | Some y \<Rightarrow> if y \<in> set r then r else r @ [y])"
proof (induction xs arbitrary: seen res)
  case (Cons a xs)
  then show ?case
    by (auto split: option.splits)
qed (auto split: option.splits)

lemma first_seen_unique_loop: "first_seen norm (unique_loop norm [] [])"
  by unfold_locales (simp_all add: unique_loop_snoc Let_def)

end
