(* ===== verification/Obfs.thy ===== *)
theory Obfs
  imports Prelude
begin

text \<open>
  The WRAP codec: \<open>core/obfs.go\<close> and \<open>core/wrap.go\<close>. A packet is a 12-byte RTP header, the
  ChaCha20-Poly1305 ciphertext of the payload with the header as associated data, random padding
  and one byte that holds the padding length. The AEAD and HKDF of \<open>golang.org/x/crypto\<close> are not
  part of the sources: an AEAD is a record of its two operations, and \<open>aead_ok\<close> states its
  documented contract. Random bytes come from a supply \<open>rs\<close>.
\<close>

section \<open>Keys and ciphers\<close>

datatype obfs_error =
    KeyLen nat | EmptyPayload | CipherInit | TooShort | NotRtpV2 | InvalidPadding nat
  | NoPayload | DstTooSmall | AuthFailed

record aead =
  Seal :: "byte list \<Rightarrow> byte list \<Rightarrow> byte list \<Rightarrow> byte list"
  Open :: "byte list \<Rightarrow> byte list \<Rightarrow> byte list \<Rightarrow> byte list option"

type_synonym aead_cache = "byte list \<rightharpoonup> aead"

definition wrapKeyLen :: nat where
  "wrapKeyLen = 32"

definition overhead :: nat where
  "overhead = 16"

text \<open>\<open>Seal\<close> appends a 16-byte tag; \<open>Open\<close> inverts it for the same nonce and associated data.\<close>

definition aead_ok :: "aead \<Rightarrow> bool" where
  "aead_ok a \<longleftrightarrow>
     (\<forall>n p ad. length (Seal a n p ad) = length p + overhead) \<and>
     (\<forall>n p ad. Open a n (Seal a n p ad) ad = Some p)"

definition getAEAD ::
  "(byte list \<rightharpoonup> aead) \<Rightarrow> aead_cache \<Rightarrow> byte list \<Rightarrow> (obfs_error + aead) \<times> aead_cache" where
  "getAEAD new cache key =
     (if length key \<noteq> wrapKeyLen then (Inl (KeyLen (length key)), cache)
      else case cache key of
        Some a \<Rightarrow> (Inr a, cache)
      | None \<Rightarrow> (case new key of
          None \<Rightarrow> (Inl CipherInit, cache)
        | Some a \<Rightarrow> (Inr a, cache(key \<mapsto> a))))"

definition cache_ok :: "(byte list \<rightharpoonup> aead) \<Rightarrow> aead_cache \<Rightarrow> bool" where
  "cache_ok new cache \<longleftrightarrow> (\<forall>k a. cache k = Some a \<longrightarrow> new k = Some a)"

definition deriveWrapKey ::
  "(string \<Rightarrow> string \<Rightarrow> string \<Rightarrow> nat \<Rightarrow> byte list option) \<Rightarrow> string \<Rightarrow> string + byte list" where
  "deriveWrapKey hkdf password =
     (if password = [] then Inl ''empty password''
      else case hkdf password ''WDTT-WRAP-v1'' ''rtp-obfs/chacha20poly1305'' wrapKeyLen of
        None \<Rightarrow> Inl ''derive wrap key''
      | Some key \<Rightarrow> Inr key)"

section \<open>Configuration and sequence state\<close>

record obfs_config =
  SSRC :: "32 word"
  PayloadType :: "8 word"
  PaddingMax :: int

record obfs_state =
  initSeq :: "16 word"
  initTs :: "32 word"
  pktCount :: "64 word"

definition NewObfsConfig :: "(nat \<Rightarrow> byte) \<Rightarrow> string \<Rightarrow> obfs_config" where
  "NewObfsConfig rs mode =
     \<lparr>SSRC = rd32 (map rs [0..<4]),
      PayloadType = (if mode = ''video'' then 96 else 111),
      PaddingMax = (if mode = ''video'' then 60 else 24)\<rparr>"

definition NewObfsState :: "(nat \<Rightarrow> byte) \<Rightarrow> obfs_state" where
  "NewObfsState rs =
     \<lparr>initSeq = rd16 (map rs [0..<2]), initTs = rd32 (map rs [2..<6]), pktCount = 0\<rparr>"

definition obfsBuildNonce :: "32 word \<Rightarrow> 16 word \<Rightarrow> 32 word \<Rightarrow> byte list" where
  "obfsBuildNonce ssrc seq ts = be32 ssrc @ be16 seq @ [0, 0] @ be32 ts"

text \<open>The sequence number and timestamp of the packet with counter value \<open>c\<close> (lines 95 and 96).\<close>

definition pkt_seq :: "obfs_state \<Rightarrow> 64 word \<Rightarrow> 16 word" where
  "pkt_seq st c = initSeq st + ucast c"

definition pkt_ts :: "obfs_state \<Rightarrow> 64 word \<Rightarrow> 32 word" where
  "pkt_ts st c = initTs st + ucast c * 960 + ucast (drop_bit 16 c)"

definition obfs_header :: "obfs_config \<Rightarrow> 16 word \<Rightarrow> 32 word \<Rightarrow> byte list" where
  "obfs_header cfg seq ts =
     [0x80 OR 0x20, PayloadType cfg AND 0x7F] @ be16 seq @ be32 ts @ be32 (SSRC cfg)"

definition pad_rand :: "obfs_config \<Rightarrow> byte \<Rightarrow> nat" where
  "pad_rand cfg r = (if 0 < PaddingMax cfg then nat (uint r mod PaddingMax cfg) else 0)"

section \<open>Wrapping and unwrapping\<close>

definition obfsWrapPacket ::
  "(byte list \<rightharpoonup> aead) \<Rightarrow> aead_cache \<Rightarrow> byte list \<Rightarrow> byte list \<Rightarrow> obfs_config \<Rightarrow> obfs_state \<Rightarrow>
   (nat \<Rightarrow> byte) \<Rightarrow> (obfs_error + byte list) \<times> obfs_state \<times> aead_cache" where
  "obfsWrapPacket new cache key payload cfg st rs =
     (if length key \<noteq> wrapKeyLen then (Inl (KeyLen (length key)), st, cache)
      else if payload = [] then (Inl EmptyPayload, st, cache)
      else
        let c = pktCount st;
            st' = st\<lparr>pktCount := c + 1\<rparr>;
            seq = pkt_seq st c;
            ts = pkt_ts st c;
            nonce = obfsBuildNonce (SSRC cfg) seq ts;
            padRand = pad_rand cfg (rs 0);
            padTotal = padRand + 1;
            hdr = obfs_header cfg seq ts;
            (r, cache') = getAEAD new cache key
        in case r of
             Inl e \<Rightarrow> (Inl CipherInit, st', cache')
           | Inr a \<Rightarrow>
               (Inr (hdr @ Seal a nonce payload hdr @ map rs [1..<1 + padRand]
                     @ [word_of_nat padTotal]), st', cache'))"

definition obfsUnwrapPacket ::
  "(byte list \<rightharpoonup> aead) \<Rightarrow> aead_cache \<Rightarrow> byte list \<Rightarrow> byte list \<Rightarrow> nat \<Rightarrow>
   (obfs_error + byte list) \<times> aead_cache" where
  "obfsUnwrapPacket new cache key wire dstLen =
     (if length key \<noteq> wrapKeyLen then (Inl (KeyLen (length key)), cache)
      else if length wire < 13 then (Inl TooShort, cache)
      else if drop_bit 6 (wire ! 0) \<noteq> 2 then (Inl NotRtpV2, cache)
      else
        let seq = rd16 (drop 2 wire);
            ts = rd32 (drop 4 wire);
            ssrc = rd32 (drop 8 wire);
            padded = (wire ! 0) AND 0x20 \<noteq> 0;
            padLen = (if padded then unat (last wire) else 0)
        in if padded \<and> (padLen = 0 \<or> padLen > length wire - 12)
           then (Inl (InvalidPadding padLen), cache)
           else
             let payloadEnd = length wire - padLen;
                 ciphertextLen = payloadEnd - 12
             in if ciphertextLen \<le> overhead then (Inl NoPayload, cache)
                else if ciphertextLen - overhead > dstLen then (Inl DstTooSmall, cache)
                else
                  let nonce = obfsBuildNonce ssrc seq ts;
                      (r, cache') = getAEAD new cache key
                  in case r of
                       Inl e \<Rightarrow> (Inl CipherInit, cache')
                     | Inr a \<Rightarrow>
                         (case Open a nonce (drop 12 (take payloadEnd wire)) (take 12 wire) of
                            None \<Rightarrow> (Inl AuthFailed, cache')
                          | Some plain \<Rightarrow> (Inr plain, cache')))"

definition obfsIsRTPPacket :: "byte list \<Rightarrow> bool" where
  "obfsIsRTPPacket wire =
     (if length wire < 13 then False
      else if drop_bit 6 (wire ! 0) \<noteq> 2 then False
      else let pt = (wire ! 1) AND 0x7F in pt = 111 \<or> pt = 96)"

section \<open>The cipher cache\<close>

lemma getAEAD_cached:
  assumes "cache_ok new cache" and "length key = wrapKeyLen"
  shows "fst (getAEAD new cache key) = (case new key of None \<Rightarrow> Inl CipherInit | Some a \<Rightarrow> Inr a)"
  using assms by (auto simp: getAEAD_def cache_ok_def split: option.splits)

lemma getAEAD_cache_ok: "cache_ok new cache \<Longrightarrow> cache_ok new (snd (getAEAD new cache key))"
  by (auto simp: getAEAD_def cache_ok_def split: option.splits)

lemma getAEAD_Inr:
  assumes "cache_ok new cache" and "length key = wrapKeyLen" and "new key = Some a"
  obtains cache' where "getAEAD new cache key = (Inr a, cache')" and "cache_ok new cache'"
proof -
  obtain cache' where "getAEAD new cache key = (Inr a, cache')"
    using getAEAD_cached [OF assms(1,2)] assms(3)
    by (cases "getAEAD new cache key") simp
  with getAEAD_cache_ok [OF assms(1), of key] show ?thesis
    using that by simp
qed

section \<open>Header layout\<close>

lemma length_obfs_header [simp, wire_simps]: "length (obfs_header cfg seq ts) = 12"
  by (simp add: obfs_header_def)

lemma length_nonce [simp, wire_simps]: "length (obfsBuildNonce ssrc seq ts) = 12"
  by (simp add: obfsBuildNonce_def)

lemma nonce_inj:
  "obfsBuildNonce a s t = obfsBuildNonce a' s' t' \<longleftrightarrow> a = a' \<and> s = s' \<and> t = t'"
  by (auto simp: obfsBuildNonce_def append_eq_append_conv)

lemma header_fields:
  fixes rest :: "byte list" and cfg :: obfs_config and seq :: "16 word" and ts :: "32 word"
  defines "w \<equiv> obfs_header cfg seq ts @ rest"
  shows "w ! 0 = 0xA0" "w ! 1 = PayloadType cfg AND 0x7F"
    "rd16 (drop 2 w) = seq" "rd32 (drop 4 w) = ts" "rd32 (drop 8 w) = SSRC cfg"
    "take 12 w = obfs_header cfg seq ts" "drop 12 w = rest"
  using rd16_be16 [of seq "be32 ts @ be32 (SSRC cfg) @ rest"]
    rd32_be32 [of ts "be32 (SSRC cfg) @ rest"] rd32_be32 [of "SSRC cfg" rest]
  by (simp_all add: w_def obfs_header_def be16_def be32_def)

lemma pad_rand_bound: "pad_rand cfg r \<le> 255" "0 < PaddingMax cfg \<Longrightarrow> int (pad_rand cfg r) < PaddingMax cfg"
proof -
  have "uint r mod PaddingMax cfg \<le> uint r" if "0 < PaddingMax cfg"
    using that by (simp add: zmod_le_nonneg_dividend)
  moreover have "uint r < 256"
    using uint_bounded [of r] by simp
  ultimately show "pad_rand cfg r \<le> 255"
    by (auto simp: pad_rand_def)
  show "0 < PaddingMax cfg \<Longrightarrow> int (pad_rand cfg r) < PaddingMax cfg"
    by (simp add: pad_rand_def)
qed

section \<open>Nonces\<close>

lemma uint_low16: "uint (ucast (c :: 64 word) :: 16 word) = uint c mod 2 ^ 16"
  by (simp add: unsigned_ucast_eq take_bit_eq_mod)

lemma uint_ts_offset:
  "uint (ucast (c :: 64 word) * 960 + ucast (drop_bit 16 c) :: 32 word) =
     (uint c * 960 + uint c div 2 ^ 16) mod 2 ^ 32"
proof -
  have a: "uint (ucast c :: 32 word) = uint c mod 2 ^ 32"
    by (simp add: unsigned_ucast_eq take_bit_eq_mod)
  have "uint (drop_bit 16 c) = uint c div 2 ^ 16"
    by (simp add: drop_bit_eq_div uint_div)
  then have b: "uint (ucast (drop_bit 16 c) :: 32 word) = (uint c div 2 ^ 16) mod 2 ^ 32"
    by (simp only: unsigned_ucast_eq take_bit_eq_mod) simp
  show ?thesis
    unfolding uint_word_ariths a b by (simp add: mod_simps)
qed

lemma pkt_seq_eq_iff: "pkt_seq st c = pkt_seq st d \<longleftrightarrow> uint c mod 2 ^ 16 = uint d mod 2 ^ 16"
  unfolding pkt_seq_def add_left_cancel
  unfolding word_uint_eq_iff uint_low16 ..

lemma pkt_ts_eq_iff:
  "pkt_ts st c = pkt_ts st d \<longleftrightarrow>
     (uint c * 960 + uint c div 2 ^ 16) mod 2 ^ 32 = (uint d * 960 + uint d div 2 ^ 16) mod 2 ^ 32"
  unfolding pkt_ts_def add.assoc add_left_cancel
  unfolding word_uint_eq_iff uint_ts_offset ..

text \<open>
  The timestamp adds the high half of the counter, and \<open>65536 * 960 + 1\<close> is odd: packets whose
  sequence numbers collide have different timestamps until the counter has moved by \<open>2 ^ 48\<close>.
\<close>

lemma counter_period:
  fixes a b :: int
  assumes "a mod 2 ^ 16 = b mod 2 ^ 16"
    and "(a * 960 + a div 2 ^ 16) mod 2 ^ 32 = (b * 960 + b div 2 ^ 16) mod 2 ^ 32"
  shows "a mod 2 ^ 48 = b mod 2 ^ 48"
proof -
  define q r where "q = a div 2 ^ 16 - b div 2 ^ 16" and "r = a mod 2 ^ 16"
  have ab: "a - b = 2 ^ 16 * q"
    using assms(1) by (simp add: q_def minus_div_mult_eq_mod [symmetric] algebra_simps)
  have "(a * 960 + a div 2 ^ 16) - (b * 960 + b div 2 ^ 16) = 62914561 * q"
    using ab by (simp add: q_def algebra_simps)
  with assms(2) have "2 ^ 32 dvd 62914561 * q"
    by (metis mod_eq_dvd_iff)
  moreover have "coprime (2 ^ 32 :: int) 62914561"
    unfolding coprime_power_left_iff by simp
  ultimately have "2 ^ 32 dvd q"
    using coprime_dvd_mult_right_iff by blast
  then have "2 ^ 16 * 2 ^ 32 dvd a - b"
    unfolding ab by (rule mult_dvd_mono [OF dvd_refl])
  then show ?thesis
    by (simp add: mod_eq_dvd_iff)
qed

lemma counter_period_conv:
  fixes a b :: int
  assumes "a mod 2 ^ 48 = b mod 2 ^ 48"
  shows "a mod 2 ^ 16 = b mod 2 ^ 16"
    and "(a * 960 + a div 2 ^ 16) mod 2 ^ 32 = (b * 960 + b div 2 ^ 16) mod 2 ^ 32"
proof -
  from assms have "2 ^ 48 dvd a - b"
    by (simp add: mod_eq_dvd_iff)
  then obtain k where k: "a = b + 2 ^ 48 * k"
    by (metis add.commute diff_eq_eq dvdE)
  have "(b + 2 ^ 16 * (2 ^ 32 * k)) div 2 ^ 16 = 2 ^ 32 * k + b div 2 ^ 16"
    by simp
  then have d: "a div 2 ^ 16 = 2 ^ 32 * k + b div 2 ^ 16"
    by (simp add: k)
  have "2 ^ 16 dvd a - b"
    by (simp add: k)
  then show "a mod 2 ^ 16 = b mod 2 ^ 16"
    by (simp add: mod_eq_dvd_iff)
  have "(a * 960 + a div 2 ^ 16) - (b * 960 + b div 2 ^ 16) = 2 ^ 32 * (2 ^ 16 * 960 * k + k)"
    by (simp add: d k algebra_simps)
  then show "(a * 960 + a div 2 ^ 16) mod 2 ^ 32 = (b * 960 + b div 2 ^ 16) mod 2 ^ 32"
    by (metis dvd_triv_left mod_eq_dvd_iff)
qed

lemma nonce_eq_iff:
  "obfsBuildNonce ssrc (pkt_seq st c) (pkt_ts st c) = obfsBuildNonce ssrc (pkt_seq st d) (pkt_ts st d)
     \<longleftrightarrow> uint c mod 2 ^ 48 = uint d mod 2 ^ 48"
  unfolding nonce_inj pkt_seq_eq_iff pkt_ts_eq_iff
  using counter_period counter_period_conv by blast

section \<open>Wrapping a packet\<close>

lemma obfsWrapPacket_ok:
  assumes "cache_ok new cache" and "length key = wrapKeyLen" and "new key = Some a"
    and "payload \<noteq> []"
  shows "\<exists>cache'. cache_ok new cache' \<and>
    obfsWrapPacket new cache key payload cfg st rs =
      (let c = pktCount st; hdr = obfs_header cfg (pkt_seq st c) (pkt_ts st c) in
       (Inr (hdr @ Seal a (obfsBuildNonce (SSRC cfg) (pkt_seq st c) (pkt_ts st c)) payload hdr
             @ map rs [1..<1 + pad_rand cfg (rs 0)] @ [word_of_nat (pad_rand cfg (rs 0) + 1)]),
        st\<lparr>pktCount := c + 1\<rparr>, cache'))"
proof -
  obtain cache' where "getAEAD new cache key = (Inr a, cache')" "cache_ok new cache'"
    using getAEAD_Inr [OF assms(1-3)] .
  with assms show ?thesis
    by (auto simp: obfsWrapPacket_def Let_def)
qed

lemma obfsWrapPacket_state:
  "fst (snd (obfsWrapPacket new cache key payload cfg st rs)) =
     (if length key \<noteq> wrapKeyLen \<or> payload = [] then st else st\<lparr>pktCount := pktCount st + 1\<rparr>)"
  by (auto simp: obfsWrapPacket_def Let_def split: prod.splits sum.splits)

text \<open>What a wrapped packet looks like on the wire.\<close>

lemma unat_word_of_nat: "n < 256 \<Longrightarrow> unat (word_of_nat n :: byte) = n"
  by (simp add: unat_of_nat)

lemma wrapped_last:
  fixes hdr ct :: "byte list"
  shows "last (hdr @ ct @ map rs [1..<1 + k] @ [x]) = x"
  by simp

lemma unwrap_wrapped:
  fixes cfg :: obfs_config and seq :: "16 word" and ts :: "32 word"
  assumes ok: "aead_ok a" and c: "cache_ok new cache" and key: "length key = wrapKeyLen"
    and new: "new key = Some a" and p: "payload \<noteq> []" and dst: "length payload \<le> dstLen"
    and k: "k \<le> 254"
  defines "hdr \<equiv> obfs_header cfg seq ts"
  shows "fst (obfsUnwrapPacket new cache key
     (hdr @ Seal a (obfsBuildNonce (SSRC cfg) seq ts) payload hdr @ map rs [1..<1 + k]
      @ [word_of_nat (k + 1)]) dstLen) = Inr payload"
proof -
  define ct where "ct = Seal a (obfsBuildNonce (SSRC cfg) seq ts) payload hdr"
  define w where "w = hdr @ ct @ map rs [1..<1 + k] @ [word_of_nat (k + 1) :: byte]"
  have len_ct: "length ct = length payload + overhead"
    using ok by (simp add: ct_def aead_ok_def)
  have len: "length w = 12 + length ct + k + 1"
    by (simp add: w_def hdr_def)
  have last: "unat (last w) = k + 1"
  proof -
    have "last w = word_of_nat (k + 1)"
      unfolding w_def using wrapped_last by blast
    moreover have "unat (word_of_nat (k + 1) :: byte) = k + 1"
      by (rule unat_word_of_nat) (use k in simp)
    ultimately show ?thesis by simp
  qed
  have parts: "w ! 0 = 0xA0" "rd16 (drop 2 w) = seq" "rd32 (drop 4 w) = ts"
      "rd32 (drop 8 w) = SSRC cfg" "take 12 w = hdr"
    unfolding w_def hdr_def by (rule header_fields)+
  have cut: "drop 12 (take (length w - (k + 1)) w) = ct"
    by (simp add: len w_def hdr_def)
  obtain cache' where get: "getAEAD new cache key = (Inr a, cache')"
    using getAEAD_Inr [OF c key new] .
  have op: "Open a (obfsBuildNonce (SSRC cfg) seq ts) ct hdr = Some payload"
    using ok by (simp add: ct_def aead_ok_def)
  have "fst (obfsUnwrapPacket new cache key w dstLen) = Inr payload"
    unfolding obfsUnwrapPacket_def
    using key p dst len len_ct last parts cut get op
    by (simp add: Let_def overhead_def)
  then show ?thesis
    by (simp add: w_def ct_def)
qed

text \<open>The nonce the receiver computes from a packet.\<close>

definition wire_nonce :: "byte list \<Rightarrow> byte list" where
  "wire_nonce w = obfsBuildNonce (rd32 (drop 8 w)) (rd16 (drop 2 w)) (rd32 (drop 4 w))"

lemma unwrap_cache_ok: "cache_ok new cache \<Longrightarrow> cache_ok new (snd (obfsUnwrapPacket new cache key w n))"
  using getAEAD_cache_ok [of new cache key]
  by (auto simp: obfsUnwrapPacket_def Let_def split: prod.splits sum.splits option.splits)

text \<open>Everything a sender and a receiver rely on, for the configurations \<open>NewObfsConfig\<close> builds.\<close>

definition obfs_config_ok :: "obfs_config \<Rightarrow> bool" where
  "obfs_config_ok cfg \<longleftrightarrow> 0 < PaddingMax cfg \<and> PaddingMax cfg \<le> 60 \<and>
     (PayloadType cfg = 96 \<or> PayloadType cfg = 111)"

lemma NewObfsConfig_ok: "obfs_config_ok (NewObfsConfig rs mode)"
  by (simp add: obfs_config_ok_def NewObfsConfig_def)

lemma wrapped_packet:
  assumes ok: "aead_ok a" and new: "new key = Some a" and key: "length key = wrapKeyLen"
    and p: "payload \<noteq> []" and c: "cache_ok new cache" and cfg: "obfs_config_ok cfg"
  obtains wire c' where
    "obfsWrapPacket new cache key payload cfg st rs = (Inr wire, st\<lparr>pktCount := pktCount st + 1\<rparr>, c')"
    "cache_ok new c'" "obfsIsRTPPacket wire" "length wire \<le> length payload + 88"
    "wire_nonce wire = obfsBuildNonce (SSRC cfg) (pkt_seq st (pktCount st)) (pkt_ts st (pktCount st))"
    "\<forall>cache' n. cache_ok new cache' \<longrightarrow> length payload \<le> n \<longrightarrow>
      fst (obfsUnwrapPacket new cache' key wire n) = Inr payload"
proof -
  define k where "k = pad_rand cfg (rs 0)"
  define seq ts where "seq = pkt_seq st (pktCount st)" and "ts = pkt_ts st (pktCount st)"
  define hdr where "hdr = obfs_header cfg seq ts"
  define ct where "ct = Seal a (obfsBuildNonce (SSRC cfg) seq ts) payload hdr"
  define wire where "wire = hdr @ ct @ map rs [1..<1 + k] @ [word_of_nat (k + 1) :: byte]"
  have k: "k < 60"
    using pad_rand_bound(2) [of cfg "rs 0"] cfg by (simp add: k_def obfs_config_ok_def)
  have ct: "length ct = length payload + 16"
    using ok by (simp add: ct_def aead_ok_def overhead_def)
  have len: "length wire = 12 + length ct + k + 1"
    by (simp add: wire_def hdr_def)
  have head: "wire ! 0 = 0xA0" "wire ! 1 = PayloadType cfg AND 0x7F" "rd16 (drop 2 wire) = seq"
    "rd32 (drop 4 wire) = ts" "rd32 (drop 8 wire) = SSRC cfg"
    unfolding wire_def hdr_def by (rule header_fields)+
  obtain c' where w: "obfsWrapPacket new cache key payload cfg st rs =
      (Inr wire, st\<lparr>pktCount := pktCount st + 1\<rparr>, c')" "cache_ok new c'"
    using obfsWrapPacket_ok [OF c key new p, of cfg st rs]
    by (auto simp: Let_def wire_def ct_def hdr_def k_def seq_def ts_def)
  have "PayloadType cfg AND 0x7F = 96 \<or> PayloadType cfg AND 0x7F = 111"
    using cfg by (auto simp: obfs_config_ok_def)
  then have "obfsIsRTPPacket wire"
    using len ct head(1,2) by (auto simp: obfsIsRTPPacket_def)
  moreover have "wire_nonce wire = obfsBuildNonce (SSRC cfg) seq ts"
    by (simp add: wire_nonce_def head(3-5))
  moreover have "fst (obfsUnwrapPacket new cache' key wire n) = Inr payload"
    if "cache_ok new cache'" "length payload \<le> n" for cache' n
    unfolding wire_def ct_def hdr_def using k
    by (intro unwrap_wrapped [OF ok that(1) key new p that(2)]) simp
  ultimately show thesis
    using that w len ct k by (simp add: seq_def ts_def)
qed

section \<open>Properties of the codec\<close>

text \<open>Property C1 (round trip). With an AEAD that keeps its documented contract, whatever
  \<open>obfsWrapPacket\<close> sends for a non-empty payload, \<open>obfsUnwrapPacket\<close> gives back exactly that payload:
  for every counter value, every random padding and every cipher cache state on both sides, when
  the padding limit is at most 255 and the destination buffer holds the payload.\<close>

theorem wrap_unwrap_roundtrip:
  assumes "aead_ok a" and "new key = Some a" and "length key = wrapKeyLen" and "payload \<noteq> []"
    and "cache_ok new cache" and "cache_ok new cache'" and "PaddingMax cfg \<le> 255"
    and "length payload \<le> dstLen"
  shows "\<exists>wire st' c'. obfsWrapPacket new cache key payload cfg st rs = (Inr wire, st', c') \<and>
    fst (obfsUnwrapPacket new cache' key wire dstLen) = Inr payload"
proof -
  have "pad_rand cfg (rs 0) \<le> 254"
  proof (cases "0 < PaddingMax cfg")
    case True
    then show ?thesis
      using pad_rand_bound(2) [of cfg "rs 0"] assms(7) by linarith
  qed (simp add: pad_rand_def)
  from unwrap_wrapped [OF assms(1,6,3,2,4,8) this] show ?thesis
    using obfsWrapPacket_ok [OF assms(5,3,2,4), of cfg st rs] by (auto simp: Let_def)
qed

definition toy_aead :: aead where
  "toy_aead = \<lparr>Seal = (\<lambda>n p ad. p @ replicate 16 0),
     Open = (\<lambda>n c ad. Some (take (length c - 16) c))\<rparr>"

theorem wrap_unwrap_roundtrip_witness:
  "\<exists>wire st' c'. obfsWrapPacket (\<lambda>_. Some toy_aead) Map.empty (replicate 32 7) [1, 2, 3]
      (NewObfsConfig (\<lambda>_. 9) ''video'') (NewObfsState (\<lambda>_. 5)) (\<lambda>_. 200) = (Inr wire, st', c') \<and>
    fst (obfsUnwrapPacket (\<lambda>_. Some toy_aead) Map.empty (replicate 32 7) wire 1600) = Inr [1, 2, 3]"
  by (rule wrap_unwrap_roundtrip [where a = toy_aead])
    (auto simp: aead_ok_def toy_aead_def overhead_def wrapKeyLen_def cache_ok_def NewObfsConfig_def)

text \<open>Property C30 (bounds). With the two configurations the client uses, a wrapped packet is
  recognised as an RTP packet by the receiving side and is longer than its payload by 29 to 52
  bytes in audio mode and by 29 to 88 bytes in video mode; the counter advances by one.\<close>

theorem wrap_recognised_and_bounded:
  assumes "aead_ok a" and "new key = Some a" and "length key = wrapKeyLen" and "payload \<noteq> []"
    and "cache_ok new cache"
  shows "\<exists>wire c'. obfsWrapPacket new cache key payload (NewObfsConfig rc mode) st rs =
      (Inr wire, st\<lparr>pktCount := pktCount st + 1\<rparr>, c') \<and> obfsIsRTPPacket wire \<and>
      length payload + 29 \<le> length wire \<and>
      length wire \<le> length payload + (if mode = ''video'' then 88 else 52)"
proof -
  define cfg where "cfg = NewObfsConfig rc mode"
  define hdr where "hdr = obfs_header cfg (pkt_seq st (pktCount st)) (pkt_ts st (pktCount st))"
  define ct where "ct = Seal a (obfsBuildNonce (SSRC cfg) (pkt_seq st (pktCount st))
      (pkt_ts st (pktCount st))) payload hdr"
  define k where "k = pad_rand cfg (rs 0)"
  define wire where "wire = hdr @ ct @ map rs [1..<1 + k] @ [word_of_nat (k + 1) :: byte]"
  have ct: "length ct = length payload + 16"
    using assms(1) by (simp add: ct_def aead_ok_def overhead_def)
  have pm: "PaddingMax cfg = (if mode = ''video'' then 60 else 24)"
    by (simp add: cfg_def NewObfsConfig_def)
  then have k: "k < (if mode = ''video'' then 60 else 24)"
    using pad_rand_bound(2) [of cfg "rs 0"] by (cases "mode = ''video''") (simp_all add: k_def)
  have len: "length wire = 12 + length ct + k + 1"
    by (simp add: wire_def hdr_def)
  have pt: "PayloadType cfg AND 0x7F = (if mode = ''video'' then 96 else 111)"
    by (simp add: cfg_def NewObfsConfig_def)
  have "wire ! 0 = 0xA0" and "wire ! 1 = PayloadType cfg AND 0x7F"
    unfolding wire_def hdr_def by (rule header_fields)+
  then have "obfsIsRTPPacket wire"
    using len ct pt by (simp add: obfsIsRTPPacket_def)
  moreover have "\<exists>c'. obfsWrapPacket new cache key payload cfg st rs =
      (Inr wire, st\<lparr>pktCount := pktCount st + 1\<rparr>, c')"
    using obfsWrapPacket_ok [OF assms(5,3,2,4), of cfg st rs]
    by (auto simp: Let_def wire_def ct_def hdr_def k_def)
  ultimately show ?thesis
    using len ct k by (auto simp: cfg_def)
qed

theorem wrap_recognised_and_bounded_witness:
  "\<exists>wire c'. obfsWrapPacket (\<lambda>_. Some toy_aead) Map.empty (replicate 32 7) [1, 2, 3]
      (NewObfsConfig (\<lambda>_. 9) ''audio'') (NewObfsState (\<lambda>_. 5)) (\<lambda>_. 200) =
      (Inr wire, (NewObfsState (\<lambda>_. 5))\<lparr>pktCount := pktCount (NewObfsState (\<lambda>_. 5)) + 1\<rparr>, c') \<and>
      obfsIsRTPPacket wire \<and> length [1 :: byte, 2, 3] + 29 \<le> length wire \<and>
      length wire \<le> length [1 :: byte, 2, 3] + (if ''audio'' = ''video'' then 88 else 52)"
  by (rule wrap_recognised_and_bounded [where a = toy_aead])
    (auto simp: aead_ok_def toy_aead_def overhead_def wrapKeyLen_def cache_ok_def)

text \<open>\<open>obfsUnwrapPacket\<close> only ever returns a plaintext that the cipher of the
  given key authenticated with the packet's own header as associated data: a header change, a wrong
  version or a bad padding length never yields data, and the result fits the destination buffer
  when the cipher adds a 16-byte tag.\<close>

theorem unwrap_only_authenticated:
  assumes "fst (obfsUnwrapPacket new cache key wire dstLen) = Inr plain" and "cache_ok new cache"
  shows "\<exists>a padLen. new key = Some a \<and> length key = wrapKeyLen \<and> 13 \<le> length wire \<and>
    drop_bit 6 (wire ! 0) = 2 \<and> padLen \<le> length wire - 12 \<and>
    (padLen = 0 \<longleftrightarrow> (wire ! 0) AND 0x20 = 0) \<and>
    length wire - padLen - 12 - overhead \<le> dstLen \<and>
    Open a (obfsBuildNonce (rd32 (drop 8 wire)) (rd16 (drop 2 wire)) (rd32 (drop 4 wire)))
      (drop 12 (take (length wire - padLen) wire)) (take 12 wire) = Some plain"
proof -
  define padLen where "padLen = (if (wire ! 0) AND 0x20 \<noteq> 0 then unat (last wire) else 0)"
  obtain r c' where get: "getAEAD new cache key = (r, c')"
    by (cases "getAEAD new cache key") auto
  from assms get have "length key = wrapKeyLen" "13 \<le> length wire" "drop_bit 6 (wire ! 0) = 2"
    and pad: "\<not> ((wire ! 0) AND 0x20 \<noteq> 0 \<and> (padLen = 0 \<or> padLen > length wire - 12))"
    and "\<not> length wire - padLen - 12 - overhead > dstLen"
    and "\<exists>a. r = Inr a \<and>
      Open a (obfsBuildNonce (rd32 (drop 8 wire)) (rd16 (drop 2 wire)) (rd32 (drop 4 wire)))
        (drop 12 (take (length wire - padLen) wire)) (take 12 wire) = Some plain"
    by (auto simp: obfsUnwrapPacket_def padLen_def Let_def
        split: if_splits sum.splits option.splits)
  moreover from this get have "\<And>a. r = Inr a \<Longrightarrow> new key = Some a"
    using getAEAD_cached [OF assms(2), of key] by (auto split: option.splits)
  moreover from pad have "padLen \<le> length wire - 12" "padLen = 0 \<longleftrightarrow> (wire ! 0) AND 0x20 = 0"
    by (auto simp: padLen_def)
  ultimately show ?thesis by (intro exI [of _ "projr r"] exI [of _ padLen]) auto
qed

definition sample_wire :: "byte list" where
  "sample_wire = 0xA0 # replicate 28 0 @ [1]"

theorem unwrap_only_authenticated_witness:
  "\<exists>a padLen. Some toy_aead = Some a \<and> length (replicate 32 (7 :: byte)) = wrapKeyLen \<and>
    13 \<le> length sample_wire \<and> drop_bit 6 (sample_wire ! 0) = 2 \<and>
    padLen \<le> length sample_wire - 12 \<and>
    (padLen = 0 \<longleftrightarrow> (sample_wire ! 0) AND 0x20 = 0) \<and>
    length sample_wire - padLen - 12 - overhead \<le> 1600 \<and>
    Open a (obfsBuildNonce (rd32 (drop 8 sample_wire)) (rd16 (drop 2 sample_wire))
        (rd32 (drop 4 sample_wire)))
      (drop 12 (take (length sample_wire - padLen) sample_wire)) (take 12 sample_wire) = Some [0]"
proof (rule unwrap_only_authenticated [where new = "\<lambda>_. Some toy_aead" and cache = Map.empty])
  show "fst (obfsUnwrapPacket (\<lambda>_. Some toy_aead) Map.empty (replicate 32 7) sample_wire 1600)
      = Inr [0]"
    by code_simp
qed (simp add: cache_ok_def)

end
