(* ===== verification/Dispatcher.thy ===== *)
theory Dispatcher
  imports Chan
begin

text \<open>
  The packet dispatcher, \<open>core/dispatcher.go\<close>: the packet buffer pool, the registry of worker
  slots, one iteration of \<open>readLoop\<close> (local socket to worker queues, in chunks of twelve) and one of
  \<open>writeLoop\<close> (return queue to the local peer). Worker slots are pointers in the code and are
  compared as pointers; here a pointer is a natural number and \<open>slots\<close> is the store it points into,
  so a packet sent to a slot is seen by the session that reads its queue.
\<close>

section \<open>Packet buffers\<close>

text \<open>The pool holds capacities; \<open>getPktBuf\<close> takes one (or allocates) and re-slices it.\<close>

definition getPktBuf :: "nat list \<Rightarrow> nat \<Rightarrow> nat \<times> nat list" where
  "getPktBuf pool sz =
     (let (c, pool') = (case pool of [] \<Rightarrow> (2048, []) | c # cs \<Rightarrow> (c, cs))
      in (if c < sz then sz else c, pool'))"

definition putPktBuf :: "nat list \<Rightarrow> nat \<Rightarrow> nat list" where
  "putPktBuf pool c = (if c < 2048 then pool else c # pool)"

lemma getPktBuf_fits: "sz \<le> fst (getPktBuf pool sz)"
  by (simp add: getPktBuf_def split: list.splits)

lemma pool_inv:
  assumes "\<forall>c \<in> set pool. 2048 \<le> c"
  shows "\<forall>c \<in> set (snd (getPktBuf pool sz)). 2048 \<le> c"
    and "\<forall>c \<in> set (putPktBuf pool n). 2048 \<le> c"
  using assms by (auto simp: getPktBuf_def putPktBuf_def split: list.splits)

section \<open>State\<close>

definition returnChBuf :: nat where
  "returnChBuf = 512"

definition chunkSize :: int where
  "chunkSize = 12"

definition workerSendBuf :: nat where
  "workerSendBuf = 128"

record worker_slot =
  slot_ID :: int
  SendCh :: "byte list chan"

type_synonym slot_ptr = nat

record dispatcher =
  clientAddr :: "string option"
  workers :: "slot_ptr list"
  slots :: "slot_ptr \<Rightarrow> worker_slot"
  rrIndex :: int
  rrCount :: int
  ReturnCh :: "byte list chan"
  cancelled :: bool
  totalUp :: int
  totalDown :: int

definition int32 :: "int \<Rightarrow> int" where
  "int32 n = signed_take_bit 31 n"

text \<open>Go's remainder truncates towards zero.\<close>

definition go_rem :: "int \<Rightarrow> int \<Rightarrow> int" where
  "go_rem a b = sgn a * (\<bar>a\<bar> mod \<bar>b\<bar>)"

definition NewDispatcher :: "(slot_ptr \<Rightarrow> worker_slot) \<Rightarrow> dispatcher" where
  "NewDispatcher store =
     \<lparr>clientAddr = None, workers = [], slots = store, rrIndex = 0, rrCount = 0,
      ReturnCh = make_chan returnChBuf, cancelled = False, totalUp = 0, totalDown = 0\<rparr>"

definition Shutdown :: "dispatcher \<Rightarrow> dispatcher" where
  "Shutdown d = d\<lparr>cancelled := True\<rparr>"

text \<open>\<open>RunSession\<close> allocates a fresh slot and registers the pointer.\<close>

definition new_slot :: "int \<Rightarrow> worker_slot" where
  "new_slot sessionID = \<lparr>slot_ID = sessionID, SendCh = make_chan workerSendBuf\<rparr>"

definition Register :: "dispatcher \<Rightarrow> slot_ptr \<Rightarrow> worker_slot \<Rightarrow> dispatcher" where
  "Register d p w = d\<lparr>workers := workers d @ [p], slots := (slots d)(p := w)\<rparr>"

fun without_slot :: "slot_ptr list \<Rightarrow> slot_ptr \<Rightarrow> slot_ptr list" where
  "without_slot [] slot = []"
| "without_slot (w # ws) slot = (if w \<noteq> slot then w # without_slot ws slot else without_slot ws slot)"

definition Unregister :: "dispatcher \<Rightarrow> slot_ptr \<Rightarrow> dispatcher" where
  "Unregister d slot = d\<lparr>workers := without_slot (workers d) slot\<rparr>"

definition queue :: "dispatcher \<Rightarrow> slot_ptr \<Rightarrow> byte list list" where
  "queue d p = cbuf (SendCh (slots d p))"

section \<open>One packet\<close>

text \<open>The \<open>select\<close> with a single send case on one slot (lines 143 to 145 and 155 to 157).\<close>

definition offer :: "dispatcher \<Rightarrow> slot_ptr \<Rightarrow> byte list \<Rightarrow> dispatcher option" where
  "offer d p pkt =
     (case try_send (SendCh (slots d p)) pkt of
        None \<Rightarrow> None
      | Some c \<Rightarrow> Some (d\<lparr>slots := (slots d)(p := (slots d p)\<lparr>SendCh := c\<rparr>)\<rparr>))"

text \<open>The loop over the other workers, from \<open>i\<close> on (lines 153 to 165).\<close>

function try_alts ::
  "dispatcher \<Rightarrow> slot_ptr list \<Rightarrow> nat \<Rightarrow> nat \<Rightarrow> byte list \<Rightarrow> (dispatcher \<times> nat) option" where
  "try_alts d ws idx i pkt =
     (if i < length ws then
        (let altIdx = (idx + i) mod length ws in
         case offer d (ws ! altIdx) pkt of
           Some d' \<Rightarrow> Some (d'\<lparr>rrIndex := int32 (int altIdx), rrCount := 1\<rparr>, altIdx)
         | None \<Rightarrow> try_alts d ws idx (i + 1) pkt)
      else None)"
  by pat_completeness auto
termination by (relation "measure (\<lambda>(d, ws, idx, i, pkt). length ws - i)") auto

declare try_alts.simps [simp del]

datatype outcome = SentTo nat | Dropped | IndexPanic

text \<open>Lines 127 to 173 for the packet \<open>pkt\<close> from \<open>addr\<close>, with the registry loaded at line 130 as \<open>ws\<close>.\<close>

definition dispatch :: "dispatcher \<Rightarrow> slot_ptr list \<Rightarrow> string \<Rightarrow> byte list \<Rightarrow> dispatcher \<times> outcome" where
  "dispatch d ws addr pkt =
     (let d = d\<lparr>clientAddr := Some addr, totalUp := totalUp d + int (length pkt)\<rparr>;
          nw = length ws
      in if nw = 0 then (d, Dropped)
         else
           let i = go_rem (rrIndex d) (int nw); idx = nat i
           in if i < 0 then (d, IndexPanic)
              else case offer d (ws ! idx) pkt of
                Some d' \<Rightarrow>
                  (let count = int32 (rrCount d' + 1); d' = d'\<lparr>rrCount := count\<rparr>
                   in (if count \<ge> chunkSize
                       then d'\<lparr>rrIndex := int32 (int ((idx + 1) mod nw)), rrCount := 0\<rparr>
                       else d', SentTo idx))
              | None \<Rightarrow>
                  (case try_alts d ws idx 1 pkt of
                     Some (d', alt) \<Rightarrow> (d', SentTo alt)
                   | None \<Rightarrow>
                       (d\<lparr>rrIndex := int32 (int ((idx + 1) mod nw)), rrCount := 0\<rparr>, Dropped)))"

section \<open>The two loops\<close>

datatype socket_event = ReadError | Packet string "byte list"

text \<open>\<open>readLoop\<close> over what the local socket delivers: it returns when the context is done, sleeps
  and retries on a read error. The packet that \<open>ReadFrom\<close> fills is a 2048-byte buffer.\<close>

fun readLoop :: "dispatcher \<Rightarrow> socket_event list \<Rightarrow> dispatcher \<times> outcome list" where
  "readLoop d [] = (d, [])"
| "readLoop d (e # es) =
     (if cancelled d then (d, [])
      else case e of
        ReadError \<Rightarrow> readLoop d es
      | Packet addr data \<Rightarrow>
          (let (d', out) = dispatch d (workers d) addr (take 2048 data);
               (d'', outs) = readLoop d' es
           in (d'', out # outs)))"

text \<open>One turn of \<open>writeLoop\<close>: \<open>write\<close> is the result of \<open>WriteTo\<close>, \<open>ctx_done\<close> the state of the
  context when it failed. The result lists what was handed to the local socket; \<open>None\<close> means the
  loop returned.\<close>

definition writeLoop_step ::
  "dispatcher \<Rightarrow> bool \<Rightarrow> bool \<Rightarrow> (dispatcher \<times> (byte list \<times> string) list) option" where
  "writeLoop_step d write_ok ctx_done =
     (if cancelled d then None
      else case try_recv (ReturnCh d) of
        None \<Rightarrow> Some (d, [])
      | Some (pkt, c) \<Rightarrow>
          (let d = d\<lparr>ReturnCh := c\<rparr> in
           case clientAddr d of
             None \<Rightarrow> Some (d, [])
           | Some addr \<Rightarrow>
               (if \<not> write_ok \<and> ctx_done then None
                else Some (d\<lparr>totalDown := totalDown d + int (length pkt)\<rparr>, [(pkt, addr)]))))"

section \<open>The registry\<close>

definition dispatcher_inv :: "dispatcher \<Rightarrow> bool" where
  "dispatcher_inv d \<longleftrightarrow>
     distinct (workers d) \<and> length (workers d) < 2 ^ 31 \<and>
     0 \<le> rrIndex d \<and> 0 \<le> rrCount d \<and> rrCount d < chunkSize \<and>
     (\<forall>p \<in> set (workers d). length (queue d p) \<le> workerSendBuf \<and>
        ccap (SendCh (slots d p)) = workerSendBuf)"

lemma without_slot_filter: "without_slot ws p = filter (\<lambda>w. w \<noteq> p) ws"
  by (induction ws) auto

lemma int32_id: "0 \<le> n \<Longrightarrow> n < 2 ^ 31 \<Longrightarrow> int32 n = n"
  by (simp add: int32_def signed_take_bit_int_eq_self)

lemma go_rem_nonneg: "0 \<le> a \<Longrightarrow> go_rem a (int n) = a mod int n"
  by (cases "a = 0") (simp_all add: go_rem_def)

lemma NewDispatcher_inv: "dispatcher_inv (NewDispatcher store)"
  by (simp add: dispatcher_inv_def NewDispatcher_def chunkSize_def)

lemma Register_inv:
  assumes "dispatcher_inv d" and "p \<notin> set (workers d)" and "length (workers d) < 2 ^ 31 - 1"
  shows "dispatcher_inv (Register d p (new_slot n))"
  using assms by (auto simp: dispatcher_inv_def Register_def queue_def new_slot_def)

lemma Unregister_inv: "dispatcher_inv d \<Longrightarrow> dispatcher_inv (Unregister d p)"
  unfolding dispatcher_inv_def Unregister_def without_slot_filter queue_def
  using length_filter_le [of "\<lambda>w. w \<noteq> p" "workers d"] by (auto simp del: length_filter_le)

lemma Register_Unregister:
  "p \<notin> set (workers d) \<Longrightarrow> workers (Unregister (Register d p w) p) = workers d"
  by (auto simp: Register_def Unregister_def without_slot_filter filter_id_conv)

section \<open>Sending one packet\<close>

lemma offer_queue:
  assumes "offer d p pkt = Some d'"
  shows "queue d' q = (if q = p then queue d p @ [pkt] else queue d q)"
    and "ccap (SendCh (slots d' q)) = ccap (SendCh (slots d q))"
    and "workers d' = workers d" "rrIndex d' = rrIndex d" "rrCount d' = rrCount d"
    and "length (queue d p) < ccap (SendCh (slots d p))"
  using assms by (auto simp: offer_def queue_def try_send_def split: option.splits if_splits)

lemma offer_none: "offer d p pkt = None \<longleftrightarrow> ccap (SendCh (slots d p)) \<le> length (queue d p)"
  using go_chan.send_none [of "SendCh (slots d p)" pkt]
  by (auto simp: offer_def queue_def split: option.splits)

lemma offer_room: "length (queue d p) < ccap (SendCh (slots d p)) \<Longrightarrow> \<exists>d'. offer d p pkt = Some d'"
  using offer_none [of d p pkt] by fastforce

lemma try_alts_Some:
  "try_alts d ws idx i pkt = Some (d', alt) \<Longrightarrow>
     alt < length ws \<and>
     (\<exists>d1. offer d (ws ! alt) pkt = Some d1 \<and> d' = d1\<lparr>rrIndex := int32 (int alt), rrCount := 1\<rparr>)"
proof (induction d ws idx i pkt rule: try_alts.induct)
  case (1 d ws idx i pkt)
  have i: "i < length ws"
    using "1.prems" by (subst (asm) try_alts.simps) (simp split: if_splits)
  show ?case
  proof (cases "offer d (ws ! ((idx + i) mod length ws)) pkt")
    case None
    then have "try_alts d ws idx (i + 1) pkt = Some (d', alt)"
      using "1.prems" i by (subst (asm) try_alts.simps) (simp add: Let_def)
    then show ?thesis
      using "1.IH" [OF i refl None] by blast
  next
    case (Some d1)
    then have "alt = (idx + i) mod length ws" "d' = d1\<lparr>rrIndex := int32 (int alt), rrCount := 1\<rparr>"
      using "1.prems" i by (subst (asm) (1) try_alts.simps, simp add: Let_def)+
    with Some show ?thesis
      using i by (cases ws) (auto intro!: mod_less_divisor)
  qed
qed

lemma try_alts_None:
  "try_alts d ws idx i pkt = None \<longleftrightarrow>
     (\<forall>j. i \<le> j \<and> j < length ws \<longrightarrow> offer d (ws ! ((idx + j) mod length ws)) pkt = None)"
proof (induction d ws idx i pkt rule: try_alts.induct)
  case (1 d ws idx i pkt)
  show ?case
  proof (cases "i < length ws \<and> offer d (ws ! ((idx + i) mod length ws)) pkt = None")
    case True
    then have "try_alts d ws idx i pkt = try_alts d ws idx (i + 1) pkt"
      by (subst try_alts.simps) (simp add: Let_def)
    moreover have "\<And>j. i \<le> j \<longleftrightarrow> j = i \<or> i + 1 \<le> j"
      by auto
    ultimately show ?thesis
      using "1.IH" [of "(idx + i) mod length ws"] True by auto
  next
    case False
    then show ?thesis
      by (subst try_alts.simps) (auto simp: Let_def split: option.splits)
  qed
qed

text \<open>Every index is visited: the first one and the alternatives are all workers.\<close>

lemma rotation_covers:
  fixes idx k n :: nat
  assumes "idx < n" and "k < n"
  shows "\<exists>j < n. (idx + j) mod n = k"
proof -
  have "(idx + (k + n - idx) mod n) mod n = (idx + (k + n - idx)) mod n"
    by (rule mod_add_right_eq)
  also have "\<dots> = k"
    using assms by simp
  finally show ?thesis
    using assms by (intro exI [of _ "(k + n - idx) mod n"]) simp
qed

lemma rotation_inj:
  fixes i j m n :: nat
  assumes "(i + j) mod n = (i + m) mod n" and "j < n" and "m < n"
  shows "j = m"
proof -
  have "j' = m'" if "(i + j') mod n = (i + m') mod n" "j' < n" "m' < n" "j' \<le> m'" for j' m' :: nat
  proof -
    have "n dvd (i + m') - (i + j')"
      using that mod_eq_dvd_iff_nat [of "i + j'" "i + m'" n] by simp
    then show ?thesis
      using that by (auto dest: dvd_imp_le)
  qed
  with assms show ?thesis
    by (cases "j \<le> m") (metis nat_le_linear)+
qed

lemma all_full_iff:
  assumes "idx < length ws"
  shows "offer d (ws ! idx) pkt = None \<and> try_alts d ws idx 1 pkt = None \<longleftrightarrow>
    (\<forall>p \<in> set ws. offer d p pkt = None)"
proof
  assume l: "offer d (ws ! idx) pkt = None \<and> try_alts d ws idx 1 pkt = None"
  show "\<forall>p \<in> set ws. offer d p pkt = None"
  proof
    fix p assume "p \<in> set ws"
    then obtain k where k: "k < length ws" "p = ws ! k"
      by (auto simp: in_set_conv_nth)
    obtain j where j: "j < length ws" "(idx + j) mod length ws = k"
      using rotation_covers [OF assms k(1)] by blast
    show "offer d p pkt = None"
    proof (cases "j = 0")
      case True
      then show ?thesis
        using l j k assms by simp
    next
      case False
      then show ?thesis
        using l j k by (auto simp: try_alts_None)
    qed
  qed
next
  assume r: "\<forall>p \<in> set ws. offer d p pkt = None"
  have "ws ! (j mod length ws) \<in> set ws" for j
    using assms by (intro nth_mem mod_less_divisor) linarith
  then show "offer d (ws ! idx) pkt = None \<and> try_alts d ws idx 1 pkt = None"
    using r assms by (auto simp: try_alts_None)
qed

text \<open>The index the round robin starts from is in range.\<close>

lemma rr_index_ok:
  assumes "0 \<le> rrIndex d" and "ws \<noteq> []"
  shows "\<not> go_rem (rrIndex d) (int (length ws)) < 0"
    and "nat (go_rem (rrIndex d) (int (length ws))) < length ws"
proof -
  have "0 < int (length ws)"
    using assms(2) by simp
  from pos_mod_bound [OF this, of "rrIndex d"] pos_mod_sign [OF this, of "rrIndex d"]
  show "\<not> go_rem (rrIndex d) (int (length ws)) < 0"
    "nat (go_rem (rrIndex d) (int (length ws))) < length ws"
    by (simp_all add: go_rem_nonneg [OF assms(1)] nat_less_iff)
qed

definition charge :: "dispatcher \<Rightarrow> string \<Rightarrow> byte list \<Rightarrow> dispatcher" where
  "charge d addr pkt = d\<lparr>clientAddr := Some addr, totalUp := totalUp d + int (length pkt)\<rparr>"

lemma charge_simps [simp]:
  "rrIndex (charge d a p) = rrIndex d" "rrCount (charge d a p) = rrCount d"
  "workers (charge d a p) = workers d" "slots (charge d a p) = slots d"
  "queue (charge d a p) = queue d" "cancelled (charge d a p) = cancelled d"
  by (simp_all add: charge_def queue_def fun_eq_iff)

text \<open>The three ways an iteration can end when a worker is registered.\<close>

lemma dispatch_cases:
  assumes "0 \<le> rrIndex d" and "ws \<noteq> []"
  obtains
    (first) d1 idx where "idx = nat (go_rem (rrIndex d) (int (length ws)))" "idx < length ws"
      "offer (charge d addr pkt) (ws ! idx) pkt = Some d1"
      "dispatch d ws addr pkt =
        (if int32 (rrCount d + 1) \<ge> chunkSize
         then d1\<lparr>rrIndex := int32 (int ((idx + 1) mod length ws)), rrCount := 0\<rparr>
         else d1\<lparr>rrCount := int32 (rrCount d + 1)\<rparr>, SentTo idx)"
  | (alt) d1 k where "k < length ws" "offer (charge d addr pkt) (ws ! k) pkt = Some d1"
      "dispatch d ws addr pkt = (d1\<lparr>rrIndex := int32 (int k), rrCount := 1\<rparr>, SentTo k)"
  | (full) idx where "idx < length ws" "\<forall>p \<in> set ws. offer (charge d addr pkt) p pkt = None"
      "dispatch d ws addr pkt = ((charge d addr pkt)
         \<lparr>rrIndex := int32 (int ((idx + 1) mod length ws)), rrCount := 0\<rparr>, Dropped)"
proof -
  define idx where "idx = nat (go_rem (rrIndex d) (int (length ws)))"
  have idx: "idx < length ws" "\<not> go_rem (rrIndex d) (int (length ws)) < 0"
    using rr_index_ok [OF assms] by (simp_all add: idx_def)
  note unfold = dispatch_def [of d ws addr pkt, folded charge_def, unfolded Let_def]
  show thesis
  proof (cases "offer (charge d addr pkt) (ws ! idx) pkt")
    case (Some d1)
    then have "rrCount d1 = rrCount d"
      using offer_queue(5) [OF Some] by simp
    with Some show ?thesis
      using idx by (intro first [of idx d1]) (auto simp: unfold idx_def)
  next
    case None
    show ?thesis
    proof (cases "try_alts (charge d addr pkt) ws idx 1 pkt")
      case None': None
      with None have "\<forall>p \<in> set ws. offer (charge d addr pkt) p pkt = None"
        using all_full_iff [OF idx(1)] by blast
      with None None' show ?thesis
        using idx by (intro full [of idx]) (auto simp: unfold idx_def)
    next
      case (Some r)
      obtain d' k where r: "r = (d', k)"
        by (cases r)
      from try_alts_Some [OF Some [unfolded r]] obtain d1
        where "k < length ws" "offer (charge d addr pkt) (ws ! k) pkt = Some d1"
          "d' = d1\<lparr>rrIndex := int32 (int k), rrCount := 1\<rparr>"
        by blast
      with None Some r show ?thesis
        using idx by (intro alt [of k d1]) (auto simp: unfold idx_def)
    qed
  qed
qed

lemma queue_rr [simp]:
  "queue (d\<lparr>rrIndex := i, rrCount := c\<rparr>) = queue d" "queue (d\<lparr>rrCount := c\<rparr>) = queue d"
  "queue (d\<lparr>rrIndex := i\<rparr>) = queue d"
  by (simp_all add: queue_def fun_eq_iff)

lemma inv_offer:
  assumes "dispatcher_inv d" and "offer (charge d addr pkt) p pkt = Some d1"
    and "0 \<le> i" "0 \<le> c" "c < chunkSize"
  shows "dispatcher_inv (d1\<lparr>rrIndex := i, rrCount := c\<rparr>)"
  using assms offer_queue [OF assms(2)] by (auto simp: dispatcher_inv_def)

lemma int32_index:
  assumes "k < length ws" and "length ws < 2 ^ 31"
  shows "int32 (int k) = int k" "int32 (int ((k + 1) mod length ws)) = int ((k + 1) mod length ws)"
proof -
  have "0 < length ws"
    using assms(1) by linarith
  then have "(k + 1) mod length ws < length ws"
    by (rule mod_less_divisor)
  then show "int32 (int k) = int k" "int32 (int ((k + 1) mod length ws)) = int ((k + 1) mod length ws)"
    using assms by (auto intro!: int32_id)
qed

lemma dispatch_inv:
  assumes inv: "dispatcher_inv d" and ne: "workers d \<noteq> []"
  shows "dispatcher_inv (fst (dispatch d (workers d) addr pkt))"
proof -
  have i: "0 \<le> rrIndex d" and n: "length (workers d) < 2 ^ 31"
    and c: "0 \<le> rrCount d" "rrCount d < 12"
    using inv by (simp_all add: dispatcher_inv_def chunkSize_def)
  have c32: "int32 (rrCount d + 1) = rrCount d + 1"
    using c by (intro int32_id) simp_all
  show ?thesis
  proof (cases rule: dispatch_cases [OF i ne, of addr pkt, case_names first alt full])
    case (first d1 idx)
    have "0 \<le> rrIndex d1"
      using offer_queue(4) [OF first(3)] i by simp
    from inv_offer [OF inv first(3) this, of "rrCount d + 1"]
    have "dispatcher_inv (d1\<lparr>rrCount := rrCount d + 1\<rparr>)" if "rrCount d < 11"
      using that c by (simp add: chunkSize_def)
    moreover have "dispatcher_inv
        (d1\<lparr>rrIndex := int32 (int ((idx + 1) mod length (workers d))), rrCount := 0\<rparr>)"
      unfolding int32_index(2) [OF first(2) n]
      by (rule inv_offer [OF inv first(3)]) (simp_all add: chunkSize_def)
    ultimately show ?thesis
      unfolding first(4) c32 by (simp add: chunkSize_def)
  next
    case (alt d1 k)
    then show ?thesis
      using n by (auto intro!: inv_offer [OF inv alt(2)] simp: int32_index chunkSize_def)
  next
    case (full idx)
    then show ?thesis
      using inv unfolding full(3) int32_index(2) [OF full(1) n]
      by (simp add: dispatcher_inv_def charge_def queue_def chunkSize_def)
  qed
qed

section \<open>Runs of packets\<close>

abbreviation packets :: "string \<Rightarrow> byte list list \<Rightarrow> socket_event list" where
  "packets addr pkts \<equiv> map (Packet addr) pkts"

definition after :: "dispatcher \<Rightarrow> socket_event list \<Rightarrow> dispatcher" where
  "after d es = fst (readLoop d es)"

lemma after_Nil [simp]: "after d [] = d"
  by (simp add: after_def)

lemma after_Packet:
  "\<not> cancelled d \<Longrightarrow> length pkt \<le> 2048 \<Longrightarrow>
     after d (Packet addr pkt # es) = after (fst (dispatch d (workers d) addr pkt)) es"
  by (simp add: after_def Let_def split: prod.splits)

lemma offer_cancelled: "offer d p pkt = Some d1 \<Longrightarrow> cancelled d1 = cancelled d"
  by (auto simp: offer_def split: option.splits)

lemma dispatch_frame:
  assumes "0 \<le> rrIndex d" and "ws \<noteq> []"
  shows "workers (fst (dispatch d ws addr pkt)) = workers d \<and>
    cancelled (fst (dispatch d ws addr pkt)) = cancelled d"
proof (cases rule: dispatch_cases [OF assms, of addr pkt, case_names first alt full])
  case (first d1 idx)
  show ?thesis
    unfolding first(4) using offer_queue(3) [OF first(3)] offer_cancelled [OF first(3)] by simp
next
  case (alt d1 k)
  show ?thesis
    unfolding alt(3) using offer_queue(3) [OF alt(2)] offer_cancelled [OF alt(2)] by simp
next
  case (full idx)
  show ?thesis
    unfolding full(3) by simp
qed

text \<open>With room in the current worker's queue, that worker gets the packet.\<close>

lemma dispatch_first:
  fixes addr :: string and pkt :: "byte list"
  assumes inv: "dispatcher_inv d" and ne: "workers d \<noteq> []"
    and i: "i = nat (rrIndex d) mod length (workers d)" and p: "p = workers d ! i"
    and room: "length (queue d p) < workerSendBuf"
  defines "d' \<equiv> fst (dispatch d (workers d) addr pkt)"
  shows "queue d' = (queue d)(p := queue d p @ [pkt])"
    and "rrCount d' = (if rrCount d = 11 then 0 else rrCount d + 1)"
    and "rrIndex d' = (if rrCount d = 11 then int ((i + 1) mod length (workers d)) else rrIndex d)"
proof -
  let ?n = "length (workers d)"
  have r: "0 \<le> rrIndex d" "?n < 2 ^ 31" "0 \<le> rrCount d" "rrCount d < 12"
    using inv by (simp_all add: dispatcher_inv_def chunkSize_def)
  have idx: "nat (go_rem (rrIndex d) (int ?n)) = i"
    using r(1) by (simp add: go_rem_nonneg i nat_mod_distrib)
  have i_lt: "i < ?n" and nonneg: "\<not> go_rem (rrIndex d) (int ?n) < 0"
    using rr_index_ok [OF r(1) ne] idx by simp_all
  have "ccap (SendCh (slots d p)) = workerSendBuf"
    using inv i_lt by (simp add: dispatcher_inv_def p)
  then obtain d1 where o: "offer (charge d addr pkt) p pkt = Some d1"
    using offer_room [of "charge d addr pkt" p pkt] room by auto
  have c: "int32 (rrCount d + 1) = rrCount d + 1"
    using r by (intro int32_id) simp_all
  have d': "d' = (if rrCount d = 11
      then d1\<lparr>rrIndex := int ((i + 1) mod ?n), rrCount := 0\<rparr>
      else d1\<lparr>rrCount := rrCount d + 1\<rparr>)"
    unfolding d'_def dispatch_def [of d, folded charge_def] idx Let_def p [symmetric] o
    using ne nonneg o offer_queue(5) [OF o] c r int32_index(2) [OF i_lt r(2)]
    by (simp add: chunkSize_def idx flip: p)
  show "queue d' = (queue d)(p := queue d p @ [pkt])"
    using offer_queue(1) [OF o] by (auto simp: d' fun_eq_iff)
  show "rrCount d' = (if rrCount d = 11 then 0 else rrCount d + 1)"
    "rrIndex d' = (if rrCount d = 11 then int ((i + 1) mod ?n) else rrIndex d)"
    using offer_queue(4) [OF o] by (simp_all add: d')
qed

lemma chunk_run:
  fixes addr :: string
  assumes "dispatcher_inv d" and "\<not> cancelled d" and "workers d \<noteq> []"
    and "i = nat (rrIndex d) mod length (workers d)" and "p = workers d ! i"
    and "length (queue d p) + length pkts \<le> workerSendBuf"
    and "rrCount d + int (length pkts) \<le> chunkSize" and "\<forall>pkt \<in> set pkts. length pkt \<le> 2048"
  defines "d' \<equiv> after d (packets addr pkts)"
  shows "dispatcher_inv d' \<and> \<not> cancelled d' \<and> workers d' = workers d \<and>
    queue d' = (queue d)(p := queue d p @ pkts) \<and>
    (rrCount d + int (length pkts) = chunkSize \<longrightarrow>
      rrCount d' = 0 \<and> rrIndex d' = int ((i + 1) mod length (workers d)))"
  using assms(1-8) unfolding d'_def
proof (induction pkts arbitrary: d)
  case Nil
  then show ?case
    by (auto simp: dispatcher_inv_def)
next
  case (Cons pkt pkts)
  define d1 where "d1 = fst (dispatch d (workers d) addr pkt)"
  have rr: "0 \<le> rrIndex d" "rrCount d < 12"
    using Cons.prems(1) by (simp_all add: dispatcher_inv_def chunkSize_def)
  have step: "queue d1 = (queue d)(p := queue d p @ [pkt])"
      "rrCount d1 = (if rrCount d = 11 then 0 else rrCount d + 1)"
      "rrIndex d1 = (if rrCount d = 11 then int ((i + 1) mod length (workers d)) else rrIndex d)"
    unfolding d1_def using dispatch_first [OF Cons.prems(1,3,4,5)] Cons.prems(6) by simp_all
  have frame: "dispatcher_inv d1" "workers d1 = workers d" "\<not> cancelled d1"
    unfolding d1_def using dispatch_inv [OF Cons.prems(1,3)] dispatch_frame [OF rr(1) Cons.prems(3)]
      Cons.prems(2) by simp_all
  have run: "after d (packets addr (pkt # pkts)) = after d1 (packets addr pkts)"
    using after_Packet [of d pkt addr] Cons.prems(2,8) by (simp add: d1_def)
  show ?case
  proof (cases "rrCount d = 11")
    case True
    then have "pkts = []"
      using Cons.prems(7) by (simp add: chunkSize_def)
    then show ?thesis
      using run step frame True by simp
  next
    case False
    have q: "queue d1 p = queue d p @ [pkt]"
      by (simp add: step(1))
    have "nat (rrIndex d1) mod length (workers d1) = i"
      using Cons.prems(4) step(3) False frame(2) by simp
    note IH = Cons.IH [OF frame(1,3) _ this [symmetric]]
    show ?thesis
      unfolding run
      using IH Cons.prems(3,5-8) step False frame(2) q by (simp add: fun_upd_def fun_eq_iff)
  qed
qed

lemma after_append:
  assumes "dispatcher_inv d" and "\<not> cancelled d" and "workers d \<noteq> []"
    and "\<forall>pkt \<in> set pkts. length pkt \<le> 2048"
  shows "after d (packets addr pkts @ es) = after (after d (packets addr pkts)) es"
  using assms
proof (induction pkts arbitrary: d)
  case (Cons pkt pkts)
  have "0 \<le> rrIndex d"
    using Cons.prems(1) by (simp add: dispatcher_inv_def)
  then show ?case
    using Cons.prems after_Packet [of d pkt addr] dispatch_inv [OF Cons.prems(1,3), of addr pkt]
      dispatch_frame [of d "workers d" addr pkt] Cons.IH
    by simp
qed simp

text \<open>Full chunks go to consecutive workers.\<close>

lemma chunks_run:
  fixes addr :: string
  assumes "dispatcher_inv d" and "\<not> cancelled d" and "workers d \<noteq> []" and "rrCount d = 0"
    and "rrIndex d = int i" and "i < length (workers d)"
    and "length blocks \<le> length (workers d)"
    and "\<forall>b \<in> set blocks. length b = 12 \<and> (\<forall>pkt \<in> set b. length pkt \<le> 2048)"
    and "\<forall>p \<in> set (workers d). length (queue d p) + 12 \<le> workerSendBuf"
  defines "n \<equiv> length (workers d)"
  defines "d' \<equiv> after d (packets addr (concat blocks))"
  shows "dispatcher_inv d' \<and> \<not> cancelled d' \<and> workers d' = workers d \<and> rrCount d' = 0 \<and>
    rrIndex d' = int ((i + length blocks) mod n) \<and>
    (\<forall>j < n. queue d' (workers d ! ((i + j) mod n)) =
      queue d (workers d ! ((i + j) mod n)) @ (if j < length blocks then blocks ! j else []))"
  using assms(7,8) unfolding d'_def
proof (induction blocks rule: rev_induct)
  case Nil
  then show ?case
    using assms(1-6) by (simp add: n_def)
next
  case (snoc b blocks)
  define m where "m = length blocks"
  define d1 where "d1 = after d (packets addr (concat blocks))"
  define p where "p = workers d ! ((i + m) mod n)"
  have n: "0 < n" "m < n"
    using snoc.prems(1) assms(3) by (simp_all add: n_def m_def)
  have IH: "dispatcher_inv d1" "\<not> cancelled d1" "workers d1 = workers d" "rrCount d1 = 0"
    "rrIndex d1 = int ((i + m) mod n)"
    "\<And>j. j < n \<Longrightarrow> queue d1 (workers d ! ((i + j) mod n)) =
      queue d (workers d ! ((i + j) mod n)) @ (if j < m then blocks ! j else [])"
    using snoc.IH snoc.prems by (simp_all add: d1_def m_def)
  have b: "length b = 12" "\<forall>pkt \<in> set b. length pkt \<le> 2048"
    using snoc.prems(2) by simp_all
  have "p \<in> set (workers d)"
    using n by (auto simp: p_def n_def intro!: nth_mem)
  then have room: "length (queue d1 p) + length b \<le> workerSendBuf"
    using IH(6) [OF n(2)] assms(9) b(1) by (simp add: p_def)
  have ne: "workers d1 \<noteq> []"
    using IH(3) assms(3) by simp
  have idx: "(i + m) mod n = nat (rrIndex d1) mod length (workers d1)"
    using n by (simp add: IH(3,5) n_def)
  have run: "after d (packets addr (concat (blocks @ [b]))) = after d1 (packets addr b)"
    using after_append [OF assms(1-3), of "concat blocks"] snoc.prems(2) by (simp add: d1_def)
  have c: "dispatcher_inv (after d1 (packets addr b))" "\<not> cancelled (after d1 (packets addr b))"
    "workers (after d1 (packets addr b)) = workers d1"
    "queue (after d1 (packets addr b)) = (queue d1)(p := queue d1 p @ b)"
    "rrCount (after d1 (packets addr b)) = 0"
    "rrIndex (after d1 (packets addr b)) = int (((i + m) mod n + 1) mod length (workers d1))"
    using chunk_run [OF IH(1,2) ne idx _ room, of addr] b IH(3,4)
    by (simp_all add: p_def chunkSize_def)
  have dist: "distinct (workers d)"
    using assms(1) by (simp add: dispatcher_inv_def)
  have q: "queue (after d1 (packets addr b)) (workers d ! ((i + j) mod n)) =
      queue d (workers d ! ((i + j) mod n)) @
        (if j < Suc m then (blocks @ [b]) ! j else [])" if j: "j < n" for j
  proof (cases "j = m")
    case True
    then show ?thesis
      using IH(6) [OF j] c(4) by (simp add: p_def m_def)
  next
    case False
    then have "(i + j) mod n \<noteq> (i + m) mod n"
      using rotation_inj [OF _ j n(2)] by blast
    then have "workers d ! ((i + j) mod n) \<noteq> p"
      using dist n by (simp add: p_def n_def nth_eq_iff_index_eq)
    then show ?thesis
      using IH(6) [OF j] c(4) False by (auto simp: nth_append m_def)
  qed
  show ?case
    unfolding run using c q IH(3)
    by (simp add: m_def n_def mod_Suc_eq)
qed

section \<open>Properties of the dispatcher\<close>

text \<open>Property C3 (safety). In every reachable state of the round robin, a packet read from the local
  socket while workers are registered is appended to the queue of exactly one of them and to no
  other queue, or it is dropped with every queue unchanged; it is dropped only when every registered
  queue is full. The index expressions never leave the registry (no panic), and the invariant
  (counter below twelve, queues within their 128 slots) is kept.\<close>

theorem packet_to_exactly_one_worker:
  assumes inv: "dispatcher_inv d" and ne: "workers d \<noteq> []"
  shows "case dispatch d (workers d) addr pkt of (d', out) \<Rightarrow>
    dispatcher_inv d' \<and> workers d' = workers d \<and> clientAddr d' = Some addr \<and>
    (case out of
       SentTo k \<Rightarrow> k < length (workers d) \<and>
         length (queue d (workers d ! k)) < workerSendBuf \<and>
         queue d' = (queue d)(workers d ! k := queue d (workers d ! k) @ [pkt])
     | Dropped \<Rightarrow> queue d' = queue d \<and>
         (\<forall>p \<in> set (workers d). length (queue d p) = workerSendBuf)
     | IndexPanic \<Rightarrow> False)"
proof -
  have i: "0 \<le> rrIndex d"
    using inv by (simp add: dispatcher_inv_def)
  have cap: "p \<in> set (workers d) \<Longrightarrow> ccap (SendCh (slots d p)) = workerSendBuf" for p
    using inv by (simp add: dispatcher_inv_def)
  have addr: "clientAddr d1 = Some addr" if "offer (charge d addr pkt) p pkt = Some d1" for d1 p
    using that by (auto simp: offer_def charge_def split: option.splits)
  obtain d' out where r: "dispatch d (workers d) addr pkt = (d', out)"
    by (cases "dispatch d (workers d) addr pkt")
  have frame: "dispatcher_inv d'" "workers d' = workers d"
    using dispatch_inv [OF inv ne, of addr pkt] dispatch_frame [OF i ne, of addr pkt] r by simp_all
  show ?thesis
  proof (cases rule: dispatch_cases [OF i ne, of addr pkt, case_names first alt full])
    case (first d1 idx)
    have "queue d' = queue d1" "clientAddr d' = clientAddr d1" "out = SentTo idx"
      using r first(4) by (auto split: if_splits)
    then show ?thesis
      using r frame addr [OF first(3)] offer_queue(1,6) [OF first(3)] cap nth_mem [OF first(2)] first(2)
      by (auto simp: fun_eq_iff)
  next
    case (alt d1 k)
    have "queue d' = queue d1" "clientAddr d' = clientAddr d1" "out = SentTo k"
      using r alt(3) by auto
    then show ?thesis
      using r frame addr [OF alt(2)] offer_queue(1,6) [OF alt(2)] cap nth_mem [OF alt(1)] alt(1)
      by (auto simp: fun_eq_iff)
  next
    case (full idx)
    have "workerSendBuf \<le> length (queue d p)" if "p \<in> set (workers d)" for p
      using full(2) that cap offer_none [of "charge d addr pkt" p pkt] by auto
    moreover have "length (queue d p) \<le> workerSendBuf" if "p \<in> set (workers d)" for p
      using inv that by (simp add: dispatcher_inv_def)
    moreover have "queue d' = queue d" "clientAddr d' = Some addr" "out = Dropped"
      using r full(3) by (auto simp: charge_def queue_def fun_eq_iff)
    ultimately show ?thesis
      using r frame by (auto intro: antisym)
  qed
qed

definition two_workers :: dispatcher where
  "two_workers = Register (Register (NewDispatcher (\<lambda>_. new_slot 0)) 7 (new_slot 1)) 9 (new_slot 2)"

lemma two_workers_inv: "dispatcher_inv two_workers"
  unfolding two_workers_def
  by (intro Register_inv NewDispatcher_inv) (simp_all add: Register_def NewDispatcher_def)

lemma two_workers_simps:
  "workers two_workers = [7, 9]" "rrIndex two_workers = 0" "rrCount two_workers = 0"
  "cancelled two_workers = False" "queue two_workers 7 = []" "queue two_workers 9 = []"
  by (simp_all add: two_workers_def Register_def NewDispatcher_def queue_def new_slot_def)

theorem packet_to_exactly_one_worker_witness:
  "case dispatch two_workers (workers two_workers) ''a'' [1, 2] of (d', out) \<Rightarrow>
    dispatcher_inv d' \<and> workers d' = workers two_workers \<and> clientAddr d' = Some ''a'' \<and>
    (case out of
       SentTo k \<Rightarrow> k < length (workers two_workers) \<and>
         length (queue two_workers (workers two_workers ! k)) < workerSendBuf \<and>
         queue d' = (queue two_workers)(workers two_workers ! k :=
           queue two_workers (workers two_workers ! k) @ [[1, 2]])
     | Dropped \<Rightarrow> queue d' = queue two_workers \<and>
         (\<forall>p \<in> set (workers two_workers). length (queue two_workers p) = workerSendBuf)
     | IndexPanic \<Rightarrow> False)"
  by (rule packet_to_exactly_one_worker [OF two_workers_inv]) (simp add: two_workers_simps)

text \<open>Property C16 (functional). The dispatcher shares the upload evenly: when every queue has room for a
  chunk, a burst of full chunks of twelve packets gives the current worker the first chunk, the next
  worker the second one and so on around the registry, each chunk in order, and a burst of one chunk
  per worker leaves the round robin where it started.\<close>

theorem chunks_go_round_robin:
  assumes "dispatcher_inv d" and "\<not> cancelled d" and "workers d \<noteq> []" and "rrCount d = 0"
    and "rrIndex d = int i" and "i < length (workers d)"
    and "length blocks \<le> length (workers d)"
    and "\<forall>b \<in> set blocks. length b = 12 \<and> (\<forall>pkt \<in> set b. length pkt \<le> 2048)"
    and "\<forall>p \<in> set (workers d). length (queue d p) + 12 \<le> workerSendBuf"
  shows "let d' = fst (readLoop d (map (Packet addr) (concat blocks))); n = length (workers d) in
    rrCount d' = 0 \<and> rrIndex d' = int ((i + length blocks) mod n) \<and>
    (\<forall>j < n. queue d' (workers d ! ((i + j) mod n)) =
      queue d (workers d ! ((i + j) mod n)) @ (if j < length blocks then blocks ! j else []))"
  using chunks_run [OF assms, of addr] by (simp add: after_def Let_def)

theorem chunks_go_round_robin_witness:
  "let d' = fst (readLoop two_workers
      (map (Packet ''a'') (concat [replicate 12 [1], replicate 12 [2]]))); n = length (workers two_workers) in
    rrCount d' = 0 \<and>
    rrIndex d' = int ((0 + length [replicate 12 [1 :: byte], replicate 12 [2]]) mod n) \<and>
    (\<forall>j < n. queue d' (workers two_workers ! ((0 + j) mod n)) =
      queue two_workers (workers two_workers ! ((0 + j) mod n)) @
        (if j < length [replicate 12 [1 :: byte], replicate 12 [2]]
         then [replicate 12 [1], replicate 12 [2]] ! j else []))"
  by (rule chunks_go_round_robin [OF two_workers_inv])
    (auto simp: two_workers_simps workerSendBuf_def)

end
