(* ===== verification/ErrorPolicy.thy ===== *)
theory ErrorPolicy
  imports Prelude
begin

text \<open>
  Error values and what the client decides from them: \<open>core/vk_auth_policy.go\<close>, \<open>core/dns.go\<close> and
  the error types of \<open>core/vk_auth.go\<close>, \<open>core/creds_vkcalls.go\<close> and \<open>core/captcha_v2.go\<close>. A Go
  error is a value of \<open>goerr\<close>; \<open>chain\<close> is what \<open>errors.Is\<close> and \<open>errors.As\<close> walk through with
  \<open>Unwrap\<close>. The standard library's error types are included with the fields and methods the code
  relies on (\<open>Error\<close>, \<open>Unwrap\<close>, \<open>Is\<close>, \<open>Timeout\<close>). User-visible messages are kept as constructors.
\<close>

section \<open>Error values\<close>

datatype vkAuthErrorKind =
    vkAuthSuccess | vkAuthDNSLookup | vkAuthDNSTimeout | vkAuthTCPTimeout | vkAuthTLSFailure
  | vkAuthNetwork | vkAuthHTTPTimeout | vkAuthRateLimit | vkAuthInvalidClient | vkAuthCaptcha
  | vkAuthCanceled | vkAuthVKAPI | vkAuthCallUnavailable | vkAuthOther

fun kind_text :: "vkAuthErrorKind \<Rightarrow> string" where
  "kind_text vkAuthSuccess = ''success''"
| "kind_text vkAuthDNSLookup = ''dns_lookup_failure''"
| "kind_text vkAuthDNSTimeout = ''dns_lookup_timeout''"
| "kind_text vkAuthTCPTimeout = ''tcp_connect_timeout''"
| "kind_text vkAuthTLSFailure = ''tls_failure''"
| "kind_text vkAuthNetwork = ''network_unreachable''"
| "kind_text vkAuthHTTPTimeout = ''http_timeout''"
| "kind_text vkAuthRateLimit = ''rate_limit''"
| "kind_text vkAuthInvalidClient = ''credential_rejected''"
| "kind_text vkAuthCaptcha = ''captcha''"
| "kind_text vkAuthCanceled = ''canceled''"
| "kind_text vkAuthVKAPI = ''vk_api_error''"
| "kind_text vkAuthCallUnavailable = ''call_unavailable''"
| "kind_text vkAuthOther = ''other''"

datatype vkCallsFailureKind =
    vkCallsFailureSkipped | vkCallsFailureSetup | vkCallsFailureNetwork | vkCallsFailureDecode
  | vkCallsFailureVKAPI | vkCallsFailureCaptcha | vkCallsFailureCall | vkCallsFailureOKCDN
  | vkCallsFailureParse

fun failure_text :: "vkCallsFailureKind \<Rightarrow> string" where
  "failure_text vkCallsFailureSkipped = ''skipped''"
| "failure_text vkCallsFailureSetup = ''setup''"
| "failure_text vkCallsFailureNetwork = ''network''"
| "failure_text vkCallsFailureDecode = ''decode''"
| "failure_text vkCallsFailureVKAPI = ''vk_api''"
| "failure_text vkCallsFailureCaptcha = ''captcha''"
| "failure_text vkCallsFailureCall = ''call_unavailable''"
| "failure_text vkCallsFailureOKCDN = ''okcdn_api''"
| "failure_text vkCallsFailureParse = ''parse''"

record captcha_error =
  ErrorCode :: int
  ErrorMsg :: string
  CaptchaSid :: string
  CaptchaImg :: string
  RedirectURI :: string
  SessionToken :: string
  CaptchaTs :: string
  CaptchaAttempt :: string

datatype errno = ENETUNREACH | EHOSTUNREACH | ECONNREFUSED | ETIMEDOUT | EAGAIN | OtherErrno nat

text \<open>
  \<open>Wrapf pre e post\<close> is \<open>fmt.Errorf\<close> with one \<open>%w\<close>. \<open>Dns\<close> has the fields \<open>Err\<close>, \<open>Name\<close>, \<open>Server\<close>,
  \<open>IsTimeout\<close>, \<open>IsNotFound\<close> and \<open>UnwrapErr\<close> of \<open>net.DNSError\<close>; \<open>OpErr\<close> has the operation, the text
  that precedes the cause, and the cause of \<open>net.OpError\<close>; \<open>OtherNet\<close> is any further \<open>net.Error\<close>.
\<close>

datatype goerr =
    Canceled | DeadlineExceeded | NetCanceled | NetTimeout | CaptchaWait
  | Plain string
  | Wrapf string goerr string
  | Transport string string vkAuthErrorKind goerr
  | Dns string string string bool bool "goerr option"
  | DnsUnavailable string
  | HttpStatus int
  | ApiError int
  | CallsVKApi int string
  | CallsOKApi int string
  | Captcha captcha_error
  | CallUnavailable int string
  | OpErr string string goerr
  | SyscallErr string goerr
  | Errno errno string
  | UnknownAuthority string
  | HostnameErr string
  | RecordHeader string
  | UrlErr string string goerr
  | VkCallsFailure string vkCallsFailureKind goerr
  | OtherNet string bool

fun captcha_text :: "captcha_error \<Rightarrow> string" where
  "captcha_text e =
     (if ErrorCode e \<noteq> 0 \<and> ErrorCode e \<noteq> 14 then
        if ErrorMsg e \<noteq> [] then ''VK API error '' @ fmt_int (ErrorCode e) @ '': '' @ ErrorMsg e
        else ''VK API error '' @ fmt_int (ErrorCode e)
      else if RedirectURI e \<noteq> [] then ''VK captcha required: redirect_uri''
      else if CaptchaImg e \<noteq> [] then ''VK captcha required: captcha_img''
      else if CaptchaSid e \<noteq> [] then ''VK captcha required: sid_present''
      else if ErrorMsg e \<noteq> [] then ''VK captcha required: VK error''
      else ''VK captcha required'')"

text \<open>\<open>Error()\<close>.\<close>

fun error_text :: "goerr \<Rightarrow> string" where
  "error_text Canceled = ''context canceled''"
| "error_text DeadlineExceeded = ''context deadline exceeded''"
| "error_text NetCanceled = ''operation was canceled''"
| "error_text NetTimeout = ''i/o timeout''"
| "error_text CaptchaWait = ''CAPTCHA_WAIT_REQUIRED''"
| "error_text (Plain s) = s"
| "error_text (Wrapf pre e post) = pre @ error_text e @ post"
| "error_text (Transport stage endpoint kind e) =
     ''VK transport failure stage='' @ stage @ '' endpoint='' @ endpoint @ '' kind='' @ kind_text kind"
| "error_text (Dns err name server t nf u) =
     ''lookup '' @ name @ (if server \<noteq> [] then '' on '' @ server else []) @ '': '' @ err"
| "error_text (DnsUnavailable k) = ''DNS/network unavailable ('' @ k @ '')''"
| "error_text (HttpStatus c) = ''VK HTTP status='' @ fmt_int c"
| "error_text (ApiError c) = ''VK API error_code='' @ fmt_int c"
| "error_text (CallsVKApi c m) =
     ''error_code='' @ fmt_int c @ (if m = [] then [] else '' '' @ m)"
| "error_text (CallsOKApi c m) =
     ''error_code='' @ fmt_int c @ (if m = [] then [] else '' '' @ m)"
| "error_text (Captcha e) = captcha_text e"
| "error_text (CallUnavailable c m) =
     (if m \<noteq> [] then ''VK returns error: '' @ m @ '' (error_code='' @ fmt_int c @ '')''
      else ''VK call is unavailable (error_code='' @ fmt_int c @ '')'')"
| "error_text (OpErr op where_text e) = op @ where_text @ '': '' @ error_text e"
| "error_text (SyscallErr call e) = call @ '': '' @ error_text e"
| "error_text (Errno n s) = s"
| "error_text (UnknownAuthority s) = s"
| "error_text (HostnameErr s) = s"
| "error_text (RecordHeader s) = s"
| "error_text (UrlErr op url e) = op @ '' \"'' @ url @ ''\": '' @ error_text e"
| "error_text (VkCallsFailure step k e) =
     ''step='' @ step @ '' kind='' @ failure_text k @ '': '' @ error_text e"
| "error_text (OtherNet s t) = s"

text \<open>\<open>Unwrap\<close> followed to the end: the errors \<open>errors.Is\<close> and \<open>errors.As\<close> look at, in order.\<close>

fun chain :: "goerr \<Rightarrow> goerr list" where
  "chain (Wrapf pre e post) = Wrapf pre e post # chain e"
| "chain (Transport st ep k e) = Transport st ep k e # chain e"
| "chain (Dns err name server t nf (Some e)) = Dns err name server t nf (Some e) # chain e"
| "chain (OpErr op w e) = OpErr op w e # chain e"
| "chain (SyscallErr c e) = SyscallErr c e # chain e"
| "chain (UrlErr op u e) = UrlErr op u e # chain e"
| "chain (VkCallsFailure st k e) = VkCallsFailure st k e # chain e"
| "chain e = [e]"

text \<open>\<open>net\<close>'s own cancellation errors answer to the context errors through their \<open>Is\<close> methods.\<close>

definition is_canceled :: "goerr \<Rightarrow> bool" where
  "is_canceled e \<longleftrightarrow> Canceled \<in> set (chain e) \<or> NetCanceled \<in> set (chain e)"

definition is_deadline :: "goerr \<Rightarrow> bool" where
  "is_deadline e \<longleftrightarrow> DeadlineExceeded \<in> set (chain e) \<or> NetTimeout \<in> set (chain e)"

definition errors_as :: "(goerr \<Rightarrow> 'a option) \<Rightarrow> goerr \<Rightarrow> 'a option" where
  "errors_as sel e = (case List.map_filter sel (chain e) of [] \<Rightarrow> None | x # xs \<Rightarrow> Some x)"

text \<open>The \<open>Timeout()\<close> method, and the types that implement \<open>net.Error\<close>.\<close>

fun timeout_method :: "goerr \<Rightarrow> bool option" where
  "timeout_method DeadlineExceeded = Some True"
| "timeout_method NetTimeout = Some True"
| "timeout_method (Dns err name server t nf u) = Some t"
| "timeout_method (OpErr op w (SyscallErr c e)) = Some (timeout_method e = Some True)"
| "timeout_method (OpErr op w e) = Some (timeout_method e = Some True)"
| "timeout_method (SyscallErr c e) = Some (timeout_method e = Some True)"
| "timeout_method (Errno n s) = Some (n = ETIMEDOUT \<or> n = EAGAIN)"
| "timeout_method (UrlErr op u e) = Some (timeout_method e = Some True)"
| "timeout_method (OtherNet s t) = Some t"
| "timeout_method e = None"

fun as_net_error :: "goerr \<Rightarrow> goerr option" where
  "as_net_error (SyscallErr c e) = None"
| "as_net_error e = (if timeout_method e = None then None else Some e)"

definition net_timeout :: "goerr \<Rightarrow> bool" where
  "net_timeout e \<longleftrightarrow> (case errors_as as_net_error e of
     None \<Rightarrow> False | Some ne \<Rightarrow> timeout_method ne = Some True)"

section \<open>Selecting an error of a type\<close>

fun as_transport :: "goerr \<Rightarrow> vkAuthErrorKind option" where
  "as_transport (Transport st ep k e) = Some k" | "as_transport e = None"
fun as_dns :: "goerr \<Rightarrow> (bool \<times> bool) option" where
  "as_dns (Dns err name server t nf u) = Some (t, nf)" | "as_dns e = None"
fun as_dns_unavailable :: "goerr \<Rightarrow> string option" where
  "as_dns_unavailable (DnsUnavailable k) = Some k" | "as_dns_unavailable e = None"
fun as_http :: "goerr \<Rightarrow> int option" where
  "as_http (HttpStatus c) = Some c" | "as_http e = None"
fun as_api :: "goerr \<Rightarrow> int option" where
  "as_api (ApiError c) = Some c" | "as_api e = None"
fun as_calls_vk :: "goerr \<Rightarrow> int option" where
  "as_calls_vk (CallsVKApi c m) = Some c" | "as_calls_vk e = None"
fun as_calls_ok :: "goerr \<Rightarrow> int option" where
  "as_calls_ok (CallsOKApi c m) = Some c" | "as_calls_ok e = None"
fun as_captcha :: "goerr \<Rightarrow> captcha_error option" where
  "as_captcha (Captcha c) = Some c" | "as_captcha e = None"
fun as_call :: "goerr \<Rightarrow> (int \<times> string) option" where
  "as_call (CallUnavailable c m) = Some (c, m)" | "as_call e = None"
fun as_op :: "goerr \<Rightarrow> goerr option" where
  "as_op (OpErr op w e) = Some (OpErr op w e)" | "as_op e = None"
fun as_tls :: "goerr \<Rightarrow> unit option" where
  "as_tls (UnknownAuthority s) = Some ()" | "as_tls (HostnameErr s) = Some ()"
| "as_tls (RecordHeader s) = Some ()" | "as_tls e = None"
fun as_unreachable :: "goerr \<Rightarrow> unit option" where
  "as_unreachable (Errno n s) =
     (if n = ENETUNREACH \<or> n = EHOSTUNREACH \<or> n = ECONNREFUSED then Some () else None)"
| "as_unreachable e = None"
fun as_url :: "goerr \<Rightarrow> unit option" where
  "as_url (UrlErr op u e) = Some ()" | "as_url e = None"
fun as_failure :: "goerr \<Rightarrow> (string \<times> vkCallsFailureKind \<times> goerr) option" where
  "as_failure (VkCallsFailure st k e) = Some (st, k, e)" | "as_failure e = None"

definition asCallUnavailableError :: "goerr \<Rightarrow> (int \<times> string) option" where
  "asCallUnavailableError e = errors_as as_call e"

section \<open>Classification\<close>

definition vkAuthAPIErrorCodeKind :: "int \<Rightarrow> vkAuthErrorKind" where
  "vkAuthAPIErrorCodeKind code =
     (if code = 5 \<or> code = 27 \<or> code = 28 then vkAuthInvalidClient
      else if code = 14 then vkAuthCaptcha
      else if code = 29 then vkAuthRateLimit
      else vkAuthVKAPI)"

fun op_kind :: "goerr \<Rightarrow> vkAuthErrorKind" where
  "op_kind (OpErr op w e) =
     (if net_timeout (OpErr op w e)
      then if op = ''dial'' then vkAuthTCPTimeout else vkAuthHTTPTimeout
      else vkAuthNetwork)"
| "op_kind e = vkAuthNetwork"

definition classify_error :: "goerr \<Rightarrow> vkAuthErrorKind" where
  "classify_error err =
     (if is_canceled err then vkAuthCanceled
      else case errors_as as_transport err of Some k \<Rightarrow> k | None \<Rightarrow>
      (case errors_as as_dns err of Some (t, nf) \<Rightarrow> (if t then vkAuthDNSTimeout else vkAuthDNSLookup)
       | None \<Rightarrow>
      (case errors_as as_dns_unavailable err of
         Some k \<Rightarrow> (if k = ''timeout'' then vkAuthDNSTimeout else vkAuthDNSLookup)
       | None \<Rightarrow>
      if is_deadline err then vkAuthHTTPTimeout
      else case errors_as as_http err of
         Some c \<Rightarrow> (if c = 429 then vkAuthRateLimit else vkAuthVKAPI)
       | None \<Rightarrow>
      (case errors_as as_api err of Some c \<Rightarrow> vkAuthAPIErrorCodeKind c | None \<Rightarrow>
      (case errors_as as_calls_vk err of Some c \<Rightarrow> vkAuthAPIErrorCodeKind c | None \<Rightarrow>
      (case errors_as as_calls_ok err of
         Some c \<Rightarrow> (if c = 29 then vkAuthRateLimit else vkAuthVKAPI)
       | None \<Rightarrow>
      if errors_as as_captcha err \<noteq> None \<or> CaptchaWait \<in> set (chain err) then vkAuthCaptcha
      else if errors_as as_call err \<noteq> None then vkAuthCallUnavailable
      else case errors_as as_op err of Some e \<Rightarrow> op_kind e | None \<Rightarrow>
      if errors_as as_tls err \<noteq> None then vkAuthTLSFailure
      else if errors_as as_unreachable err \<noteq> None then vkAuthNetwork
      else if net_timeout err then vkAuthHTTPTimeout
      else if errors_as as_url err \<noteq> None then vkAuthNetwork
      else vkAuthOther))))))"

fun classifyVKAuthError :: "goerr option \<Rightarrow> vkAuthErrorKind" where
  "classifyVKAuthError None = vkAuthSuccess"
| "classifyVKAuthError (Some err) = classify_error err"

definition newVKAuthTransportError :: "goerr option \<Rightarrow> string \<Rightarrow> string \<Rightarrow> goerr \<Rightarrow> goerr" where
  "newVKAuthTransportError ctx_err stage endpoint err =
     (let err = (case ctx_err of Some e \<Rightarrow> e | None \<Rightarrow> err);
          kind = classify_error err;
          kind = (if kind = vkAuthOther then vkAuthNetwork else kind)
      in Transport stage endpoint kind err)"

definition vkAuthIsTransport :: "vkAuthErrorKind \<Rightarrow> bool" where
  "vkAuthIsTransport k \<longleftrightarrow> k \<in> {vkAuthDNSLookup, vkAuthDNSTimeout, vkAuthTCPTimeout,
     vkAuthTLSFailure, vkAuthNetwork, vkAuthHTTPTimeout}"

definition vkAuthShouldUseLegacy :: "goerr \<Rightarrow> bool" where
  "vkAuthShouldUseLegacy err =
     (let kind = classify_error err in
      if vkAuthIsTransport kind \<or> kind = vkAuthCanceled \<or> kind = vkAuthCaptcha \<or>
         kind = vkAuthRateLimit \<or> kind = vkAuthCallUnavailable then False
      else case errors_as as_failure err of
        None \<Rightarrow> False
      | Some (st, k, e) \<Rightarrow> k \<in> {vkCallsFailureSkipped, vkCallsFailureSetup, vkCallsFailureDecode,
          vkCallsFailureVKAPI, vkCallsFailureOKCDN, vkCallsFailureParse})"

datatype ui_message =
    MsgDNS | MsgNoConnection | MsgRateLimited | MsgCaptcha | MsgClientRejected
  | MsgCallUnavailable | MsgCancelled | MsgNoCredentials

fun vkAuthUIFailureMessage :: "goerr option \<Rightarrow> ui_message" where
  "vkAuthUIFailureMessage err =
     (case classifyVKAuthError err of
        vkAuthDNSLookup \<Rightarrow> MsgDNS
      | vkAuthDNSTimeout \<Rightarrow> MsgDNS
      | vkAuthTCPTimeout \<Rightarrow> MsgNoConnection
      | vkAuthTLSFailure \<Rightarrow> MsgNoConnection
      | vkAuthNetwork \<Rightarrow> MsgNoConnection
      | vkAuthHTTPTimeout \<Rightarrow> MsgNoConnection
      | vkAuthRateLimit \<Rightarrow> MsgRateLimited
      | vkAuthCaptcha \<Rightarrow> MsgCaptcha
      | vkAuthInvalidClient \<Rightarrow> MsgClientRejected
      | vkAuthCallUnavailable \<Rightarrow> MsgCallUnavailable
      | vkAuthCanceled \<Rightarrow> MsgCancelled
      | _ \<Rightarrow> MsgNoCredentials)"

text \<open>What \<open>traceVKAuthAttempt\<close> writes: the kind and a host name, never a URL.\<close>

definition trace_endpoint :: "string \<Rightarrow> string" where
  "trace_endpoint endpoint =
     (if list_ex (\<lambda>c. c \<in> set ''/?@'') endpoint then ''unknown'' else endpoint)"

section \<open>DNS failures\<close>

definition dnsFailureKind :: "goerr \<Rightarrow> string" where
  "dnsFailureKind err =
     (if is_canceled err then ''canceled''
      else if is_deadline err then ''timeout''
      else case errors_as as_dns_unavailable err of Some k \<Rightarrow> k | None \<Rightarrow>
      (case errors_as as_dns err of
         Some (t, nf) \<Rightarrow> (if nf then ''not_found'' else if t then ''timeout'' else ''network'')
       | None \<Rightarrow>
         let lower = to_lower (error_text err) in
         if contains ''timeout'' lower \<or> contains ''timed out'' lower then ''timeout''
         else ''network''))"

definition isDNSFailure :: "goerr \<Rightarrow> bool" where
  "isDNSFailure err =
     (if errors_as as_dns_unavailable err \<noteq> None \<or> errors_as as_dns err \<noteq> None then True
      else let lower = to_lower (error_text err) in
        contains ''no such host'' lower \<or> contains ''server misbehaving'' lower \<or>
        (contains ''lookup '' lower \<and>
          contains_any [''timeout'', ''temporary'', ''network'', ''refused''] lower))"

definition sanitizeDNSFailure :: "goerr \<Rightarrow> goerr" where
  "sanitizeDNSFailure err =
     (if isDNSFailure err then DnsUnavailable (dnsFailureKind err) else err)"

section \<open>Rotating the client credentials\<close>

record vk_credentials =
  ClientID :: string
  ClientSecret :: string

definition vkCredentialAttemptLimit :: nat where
  "vkCredentialAttemptLimit = 4"

text \<open>The loop from index \<open>i\<close>; \<open>ctx i\<close> is the error of the context at the check of turn \<open>i\<close>. The
  second component lists the attempts that were made.\<close>

fun try_pairs ::
  "(nat \<Rightarrow> goerr option) \<Rightarrow> (vk_credentials \<Rightarrow> nat \<Rightarrow> goerr + 'a) \<Rightarrow> nat \<Rightarrow> vk_credentials list \<Rightarrow>
   goerr \<Rightarrow> (goerr + 'a) \<times> vk_credentials list" where
  "try_pairs ctx run i [] lastErr =
     (Inl (Wrapf ''all VK credentials rejected: '' lastErr []), [])"
| "try_pairs ctx run i (c # cs) lastErr =
     (case ctx i of
        Some e \<Rightarrow> (Inl e, [])
      | None \<Rightarrow>
        (case run c (i + 1) of
           Inr r \<Rightarrow> (Inr r, [c])
         | Inl e \<Rightarrow>
             (if classify_error e \<noteq> vkAuthInvalidClient then (Inl e, [c])
              else let (r, tried) = try_pairs ctx run (i + 1) cs e in (r, c # tried))))"

definition tryVKCredentialPairs ::
  "(nat \<Rightarrow> goerr option) \<Rightarrow> vk_credentials list \<Rightarrow> (vk_credentials \<Rightarrow> nat \<Rightarrow> goerr + 'a) \<Rightarrow>
   (goerr + 'a) \<times> vk_credentials list" where
  "tryVKCredentialPairs ctx credentials run =
     (if credentials = [] then (Inl (Plain ''VK credentials not configured''), [])
      else try_pairs ctx run 0 (take vkCredentialAttemptLimit credentials) (Plain []))"

section \<open>Wrapping\<close>

named_theorems as_wrap

lemma errors_as_Wrapf [as_wrap]:
  "sel (Wrapf pre e post) = None \<Longrightarrow> errors_as sel (Wrapf pre e post) = errors_as sel e"
  by (simp add: errors_as_def List.map_filter_simps)

lemma errors_as_failure [as_wrap]:
  "sel (VkCallsFailure st k e) = None \<Longrightarrow> errors_as sel (VkCallsFailure st k e) = errors_as sel e"
  by (simp add: errors_as_def List.map_filter_simps)

lemma errors_as_head: "sel e = Some x \<Longrightarrow> errors_as sel e = Some x"
  by (cases e rule: chain.cases) (auto simp: errors_as_def List.map_filter_simps)

lemma net_timeout_wrap [as_wrap]:
  "net_timeout (Wrapf pre e post) = net_timeout e"
  "net_timeout (VkCallsFailure st k e) = net_timeout e"
  by (simp_all add: net_timeout_def as_wrap)

lemma context_wrap [as_wrap]:
  "is_canceled (Wrapf pre e post) = is_canceled e" "is_deadline (Wrapf pre e post) = is_deadline e"
  "is_canceled (VkCallsFailure st k e) = is_canceled e"
  "is_deadline (VkCallsFailure st k e) = is_deadline e"
  by (simp_all add: is_canceled_def is_deadline_def)

lemma select_Wrapf:
  "errors_as as_transport (Wrapf pre e post) = errors_as as_transport e"
  "errors_as as_dns (Wrapf pre e post) = errors_as as_dns e"
  "errors_as as_dns_unavailable (Wrapf pre e post) = errors_as as_dns_unavailable e"
  "errors_as as_http (Wrapf pre e post) = errors_as as_http e"
  "errors_as as_api (Wrapf pre e post) = errors_as as_api e"
  "errors_as as_calls_vk (Wrapf pre e post) = errors_as as_calls_vk e"
  "errors_as as_calls_ok (Wrapf pre e post) = errors_as as_calls_ok e"
  "errors_as as_captcha (Wrapf pre e post) = errors_as as_captcha e"
  "errors_as as_call (Wrapf pre e post) = errors_as as_call e"
  "errors_as as_op (Wrapf pre e post) = errors_as as_op e"
  "errors_as as_tls (Wrapf pre e post) = errors_as as_tls e"
  "errors_as as_unreachable (Wrapf pre e post) = errors_as as_unreachable e"
  "errors_as as_url (Wrapf pre e post) = errors_as as_url e"
  "errors_as as_failure (Wrapf pre e post) = errors_as as_failure e"
  by (simp_all add: as_wrap)

lemma select_failure:
  "errors_as as_transport (VkCallsFailure st k e) = errors_as as_transport e"
  "errors_as as_dns (VkCallsFailure st k e) = errors_as as_dns e"
  "errors_as as_dns_unavailable (VkCallsFailure st k e) = errors_as as_dns_unavailable e"
  "errors_as as_http (VkCallsFailure st k e) = errors_as as_http e"
  "errors_as as_api (VkCallsFailure st k e) = errors_as as_api e"
  "errors_as as_calls_vk (VkCallsFailure st k e) = errors_as as_calls_vk e"
  "errors_as as_calls_ok (VkCallsFailure st k e) = errors_as as_calls_ok e"
  "errors_as as_captcha (VkCallsFailure st k e) = errors_as as_captcha e"
  "errors_as as_call (VkCallsFailure st k e) = errors_as as_call e"
  "errors_as as_op (VkCallsFailure st k e) = errors_as as_op e"
  "errors_as as_tls (VkCallsFailure st k e) = errors_as as_tls e"
  "errors_as as_unreachable (VkCallsFailure st k e) = errors_as as_unreachable e"
  "errors_as as_url (VkCallsFailure st k e) = errors_as as_url e"
  by (simp_all add: as_wrap)

lemma captcha_wait_wrap:
  "CaptchaWait \<in> set (chain (Wrapf pre e post)) \<longleftrightarrow> CaptchaWait \<in> set (chain e)"
  "CaptchaWait \<in> set (chain (VkCallsFailure st k e)) \<longleftrightarrow> CaptchaWait \<in> set (chain e)"
  by simp_all

lemma classify_Wrapf: "classify_error (Wrapf pre e post) = classify_error e"
  unfolding classify_error_def select_Wrapf context_wrap net_timeout_wrap captcha_wait_wrap ..

lemma classify_failure: "classify_error (VkCallsFailure st k e) = classify_error e"
  unfolding classify_error_def select_failure context_wrap net_timeout_wrap captcha_wait_wrap ..

lemma classify_Transport:
  "classify_error (Transport st ep k e) = (if is_canceled e then vkAuthCanceled else k)"
  by (simp add: classify_error_def errors_as_head is_canceled_def)

lemma op_kind_cases: "op_kind e \<in> {vkAuthTCPTimeout, vkAuthHTTPTimeout, vkAuthNetwork}"
  by (cases e rule: op_kind.cases) auto

lemma classify_leaf [simp]:
  "classify_error Canceled = vkAuthCanceled" "classify_error CaptchaWait = vkAuthCaptcha"
  "classify_error (ApiError c) = vkAuthAPIErrorCodeKind c"
  "classify_error (CallsVKApi c m) = vkAuthAPIErrorCodeKind c"
  "classify_error (HttpStatus n) = (if n = 429 then vkAuthRateLimit else vkAuthVKAPI)"
  "classify_error (Captcha ce) = vkAuthCaptcha"
  "classify_error (CallUnavailable c m) = vkAuthCallUnavailable"
  by (simp_all add: classify_error_def errors_as_def is_canceled_def is_deadline_def
      List.map_filter_simps)

section \<open>Properties\<close>

text \<open>Adding context to an error never changes what the client decides from
  it: \<open>fmt.Errorf\<close> with \<open>%w\<close> and the VK Calls failure type keep the classification, a transport error
  keeps the classification of its cause unless the cause is unknown (then it counts as a network
  failure) or the context was cancelled, and wrapping keeps the decision on the legacy path.\<close>

theorem wrapping_keeps_decision:
  "classifyVKAuthError (Some (Wrapf pre e post)) = classifyVKAuthError (Some e) \<and>
   classifyVKAuthError (Some (VkCallsFailure step k e)) = classifyVKAuthError (Some e) \<and>
   vkAuthUIFailureMessage (Some (Wrapf pre e post)) = vkAuthUIFailureMessage (Some e) \<and>
   vkAuthShouldUseLegacy (Wrapf pre e post) = vkAuthShouldUseLegacy e \<and>
   classifyVKAuthError (Some (newVKAuthTransportError None stage ep e)) =
     (if classify_error e = vkAuthOther then vkAuthNetwork else classify_error e) \<and>
   classifyVKAuthError (Some (newVKAuthTransportError (Some Canceled) stage ep e)) = vkAuthCanceled"
proof -
  have "is_canceled e \<Longrightarrow> classify_error e = vkAuthCanceled"
    by (simp add: classify_error_def)
  moreover have "is_canceled Canceled"
    by (simp add: is_canceled_def)
  ultimately show ?thesis
    by (simp add: classify_Wrapf classify_failure vkAuthShouldUseLegacy_def as_wrap
        newVKAuthTransportError_def classify_Transport Let_def)
qed

text \<open>The legacy client path is only used after a VK Calls failure that is neither
  a transport problem nor a cancellation, a captcha, a rate limit or an unavailable call; in
  particular no request that failed on the network is repeated on it, whatever its cause was.\<close>

theorem legacy_fallback_policy:
  "(vkAuthShouldUseLegacy err \<longrightarrow>
     classify_error err \<in> {vkAuthSuccess, vkAuthInvalidClient, vkAuthVKAPI, vkAuthOther} \<and>
     (\<exists>step k cause. VkCallsFailure step k cause \<in> set (chain err) \<and>
       k \<notin> {vkCallsFailureNetwork, vkCallsFailureCaptcha, vkCallsFailureCall})) \<and>
   \<not> vkAuthShouldUseLegacy
     (VkCallsFailure step vkCallsFailureNetwork (newVKAuthTransportError ctx stage ep cause)) \<and>
   vkAuthShouldUseLegacy (VkCallsFailure step vkCallsFailureVKAPI (CallsVKApi code m)) =
     (code \<noteq> 14 \<and> code \<noteq> 29)"
proof (intro conjI impI)
  assume l: "vkAuthShouldUseLegacy err"
  then show "classify_error err \<in> {vkAuthSuccess, vkAuthInvalidClient, vkAuthVKAPI, vkAuthOther}"
    by (cases "classify_error err")
      (simp_all add: vkAuthShouldUseLegacy_def vkAuthIsTransport_def Let_def)
  from l obtain st k e where f: "errors_as as_failure err = Some (st, k, e)"
    and k: "k \<notin> {vkCallsFailureNetwork, vkCallsFailureCaptcha, vkCallsFailureCall}"
    by (auto simp: vkAuthShouldUseLegacy_def Let_def split: if_splits option.splits)
  have "(st, k, e) \<in> set (List.map_filter as_failure (chain err))"
    using f by (auto simp: errors_as_def split: list.splits)
  then obtain x where x: "x \<in> set (chain err)" "as_failure x = Some (st, k, e)"
    by (auto simp: map_filter_def)
  then have "x = VkCallsFailure st k e"
    by (cases x rule: as_failure.cases) auto
  with x k show "\<exists>step k cause. VkCallsFailure step k cause \<in> set (chain err) \<and>
      k \<notin> {vkCallsFailureNetwork, vkCallsFailureCaptcha, vkCallsFailureCall}"
    by blast
qed (auto simp: vkAuthShouldUseLegacy_def classify_failure errors_as_head Let_def
    vkAuthIsTransport_def vkAuthAPIErrorCodeKind_def)

theorem legacy_fallback_policy_witness:
  "vkAuthShouldUseLegacy (VkCallsFailure ''s'' vkCallsFailureVKAPI (CallsVKApi 15 ''x'')) \<and>
   classify_error (VkCallsFailure ''s'' vkCallsFailureVKAPI (CallsVKApi 15 ''x'')) \<in>
     {vkAuthSuccess, vkAuthInvalidClient, vkAuthVKAPI, vkAuthOther} \<and>
   \<not> vkAuthShouldUseLegacy (VkCallsFailure ''s'' vkCallsFailureVKAPI (CallsVKApi 14 ''x''))"
proof -
  have "vkAuthShouldUseLegacy (VkCallsFailure ''s'' vkCallsFailureVKAPI (CallsVKApi 15 ''x''))"
    using legacy_fallback_policy [where step = "''s''" and code = 15 and m = "''x''"] by simp
  moreover have "\<not> vkAuthShouldUseLegacy (VkCallsFailure ''s'' vkCallsFailureVKAPI (CallsVKApi 14 ''x''))"
    using legacy_fallback_policy [where step = "''s''" and code = 14 and m = "''x''"] by simp
  ultimately show ?thesis
    using legacy_fallback_policy
      [where err = "VkCallsFailure ''s'' vkCallsFailureVKAPI (CallsVKApi 15 ''x'')"] by blast
qed

lemma try_pairs_tried:
  "try_pairs ctx run i cs l = (r, tried) \<Longrightarrow>
     (\<exists>n. tried = take n cs) \<and>
     (\<forall>j. j + 1 < length tried \<longrightarrow>
       (\<exists>e. run (tried ! j) (i + j + 1) = Inl e \<and> classify_error e = vkAuthInvalidClient)) \<and>
     (\<forall>x. r = Inr x \<longrightarrow> tried \<noteq> [] \<and> run (last tried) (i + length tried) = Inr x)"
proof (induction ctx run i cs l arbitrary: tried r rule: try_pairs.induct)
  case (1 ctx run i l)
  then show ?case
    by auto
next
  case (2 ctx run i c cs l)
  show ?case
  proof (cases "ctx i")
    case (Some e)
    then show ?thesis
      using "2.prems" by (auto intro: exI [of _ 0])
  next
    case None
    show ?thesis
    proof (cases "run c (i + 1)")
      case (Inr x)
      then show ?thesis
        using "2.prems" None by (auto intro: exI [of _ 1])
    next
      case (Inl e)
      show ?thesis
      proof (cases "classify_error e = vkAuthInvalidClient")
        case False
        then show ?thesis
          using "2.prems" None Inl by (auto intro: exI [of _ 1])
      next
        case True
        obtain r' t where rt: "try_pairs ctx run (i + 1) cs e = (r', t)"
          by (cases "try_pairs ctx run (i + 1) cs e")
        from "2.IH" [OF None Inl _ rt] True obtain n where n: "t = take n cs"
          and rej: "\<forall>j. j + 1 < length t \<longrightarrow>
            (\<exists>e. run (t ! j) (i + 1 + j + 1) = Inl e \<and> classify_error e = vkAuthInvalidClient)"
          and res: "\<forall>x. r' = Inr x \<longrightarrow> t \<noteq> [] \<and> run (last t) (i + 1 + length t) = Inr x"
          by blast
        have eq: "tried = c # t" "r = r'"
          using "2.prems" None Inl True rt by simp_all
        have "\<exists>e. run (tried ! j) (i + j + 1) = Inl e \<and> classify_error e = vkAuthInvalidClient"
          if "j + 1 < length tried" for j
          using that rej Inl True eq by (cases j) auto
        moreover have "tried = take (Suc n) (c # cs)"
          using n eq by simp
        moreover have "\<forall>x. r = Inr x \<longrightarrow> tried \<noteq> [] \<and> run (last tried) (i + length tried) = Inr x"
          using res eq by auto
        ultimately show ?thesis
          by blast
      qed
    qed
  qed
qed

text \<open>The client credentials are rotated at most four times, in their order, and
  only after VK rejected the pair before: every attempt but the last one ended with a credential
  rejection, and a success is the result of the last attempt.\<close>

theorem rotates_only_on_rejection:
  "let (r, tried) = tryVKCredentialPairs ctx credentials run in
    length tried \<le> 4 \<and> (\<exists>n. tried = take n credentials) \<and>
    (\<forall>j. j + 1 < length tried \<longrightarrow>
      (\<exists>e. run (tried ! j) (j + 1) = Inl e \<and> classify_error e = vkAuthInvalidClient)) \<and>
    (\<forall>x. r = Inr x \<longrightarrow> tried \<noteq> [] \<and> run (last tried) (length tried) = Inr x)"
proof (cases "credentials = []")
  case False
  obtain r tried where e:
    "try_pairs ctx run 0 (take vkCredentialAttemptLimit credentials) (Plain []) = (r, tried)"
    by (cases "try_pairs ctx run 0 (take vkCredentialAttemptLimit credentials) (Plain [])")
  from try_pairs_tried [OF e] show ?thesis
    using False e by (auto simp: tryVKCredentialPairs_def vkCredentialAttemptLimit_def Let_def)
qed (auto simp: tryVKCredentialPairs_def intro: exI [of _ 0])

theorem rotates_only_on_rejection_witness:
  "let (r, tried) = tryVKCredentialPairs (\<lambda>_. None)
      [\<lparr>ClientID = ''1'', ClientSecret = ''a''\<rparr>, \<lparr>ClientID = ''2'', ClientSecret = ''b''\<rparr>]
      (\<lambda>c n. if ClientID c = ''1'' then Inl (ApiError 5) else Inr n) in
    length tried \<le> 4 \<and>
    (\<exists>n. tried = take n
      [\<lparr>ClientID = ''1'', ClientSecret = ''a''\<rparr>, \<lparr>ClientID = ''2'', ClientSecret = ''b''\<rparr>]) \<and>
    (\<forall>j. j + 1 < length tried \<longrightarrow>
      (\<exists>e. (if ClientID (tried ! j) = ''1'' then Inl (ApiError 5) else Inr (j + 1)) = Inl e \<and>
        classify_error e = vkAuthInvalidClient)) \<and>
    (\<forall>x. r = Inr x \<longrightarrow> tried \<noteq> [] \<and>
      (if ClientID (last tried) = ''1'' then Inl (ApiError 5) else Inr (length tried)) = Inr x)"
  using rotates_only_on_rejection [of "\<lambda>_. None"
      "[\<lparr>ClientID = ''1'', ClientSecret = ''a''\<rparr>, \<lparr>ClientID = ''2'', ClientSecret = ''b''\<rparr>]"
      "\<lambda>c n. if ClientID c = ''1'' then Inl (ApiError 5) else Inr n"] .

definition dns_kinds :: "string set" where
  "dns_kinds = {''canceled'', ''timeout'', ''not_found'', ''network''}"

definition dns_kinds_ok :: "goerr \<Rightarrow> bool" where
  "dns_kinds_ok e \<longleftrightarrow> (\<forall>k. DnsUnavailable k \<in> set (chain e) \<longrightarrow> k \<in> dns_kinds)"

lemma errors_as_dns_unavailable:
  "errors_as as_dns_unavailable e = Some k \<Longrightarrow> DnsUnavailable k \<in> set (chain e)"
proof -
  assume "errors_as as_dns_unavailable e = Some k"
  then have "k \<in> set (List.map_filter as_dns_unavailable (chain e))"
    by (auto simp: errors_as_def split: list.splits)
  then obtain x where "x \<in> set (chain e)" "as_dns_unavailable x = Some k"
    by (auto simp: map_filter_def)
  then show ?thesis
    by (cases x rule: as_dns_unavailable.cases) auto
qed

lemma dnsFailureKind_ok: "dns_kinds_ok e \<Longrightarrow> dnsFailureKind e \<in> dns_kinds"
  using errors_as_dns_unavailable [of e]
  by (auto simp: dnsFailureKind_def dns_kinds_ok_def Let_def dns_kinds_def split: option.splits)

lemma dnsFailureKind_DnsUnavailable [simp]: "dnsFailureKind (DnsUnavailable k) = k"
  by (simp add: dnsFailureKind_def is_canceled_def is_deadline_def errors_as_head)

text \<open>A sanitised DNS failure carries no host name, server or URL: its text is one
  of four fixed texts, whatever the original error said. Sanitising keeps the kind of the failure,
  is idempotent and leaves every other error alone.\<close>

theorem sanitized_dns_is_anonymous:
  assumes "dns_kinds_ok e"
  shows "(if isDNSFailure e then
      error_text (sanitizeDNSFailure e) \<in>
        (\<lambda>k. ''DNS/network unavailable ('' @ k @ '')'') `
          {''canceled'', ''timeout'', ''not_found'', ''network''}
      else sanitizeDNSFailure e = e) \<and>
    dnsFailureKind (sanitizeDNSFailure e) = dnsFailureKind e \<and>
    sanitizeDNSFailure (sanitizeDNSFailure e) = sanitizeDNSFailure e \<and>
    dns_kinds_ok (sanitizeDNSFailure e)"
  using dnsFailureKind_ok [OF assms] assms
  by (auto simp: sanitizeDNSFailure_def dns_kinds_ok_def dns_kinds_def)

theorem sanitized_dns_is_anonymous_witness:
  "(if isDNSFailure (Dns ''no such host'' ''secret.example'' ''10.0.0.1'' False True None) then
      error_text (sanitizeDNSFailure (Dns ''no such host'' ''secret.example'' ''10.0.0.1'' False True None)) \<in>
        (\<lambda>k. ''DNS/network unavailable ('' @ k @ '')'') `
          {''canceled'', ''timeout'', ''not_found'', ''network''}
      else sanitizeDNSFailure (Dns ''no such host'' ''secret.example'' ''10.0.0.1'' False True None) =
        Dns ''no such host'' ''secret.example'' ''10.0.0.1'' False True None) \<and>
    dnsFailureKind (sanitizeDNSFailure (Dns ''no such host'' ''secret.example'' ''10.0.0.1'' False True None)) =
      dnsFailureKind (Dns ''no such host'' ''secret.example'' ''10.0.0.1'' False True None) \<and>
    sanitizeDNSFailure (sanitizeDNSFailure
      (Dns ''no such host'' ''secret.example'' ''10.0.0.1'' False True None)) =
      sanitizeDNSFailure (Dns ''no such host'' ''secret.example'' ''10.0.0.1'' False True None) \<and>
    dns_kinds_ok (sanitizeDNSFailure (Dns ''no such host'' ''secret.example'' ''10.0.0.1'' False True None))"
  by (rule sanitized_dns_is_anonymous) (simp add: dns_kinds_ok_def)

end
