(* ===== verification/Protocol.thy ===== *)
theory Protocol
  imports ErrorPolicy
begin

text \<open>
  The two requests a session sends through the DTLS connection, \<open>core/protocol.go\<close>. The connection
  is the result of its calls: the error of \<open>Write\<close> and of \<open>SetReadDeadline\<close>, and what \<open>Read\<close>
  gives (at most the 4096 bytes of the buffer). Messages that are not ASCII are their UTF-8 bytes.
\<close>

section \<open>Messages\<close>

definition msg_send_getconf :: string where
  "msg_send_getconf = utf8 [208, 190, 209, 130, 208, 191, 209, 128, 208, 176, 208, 178, 208,
     186, 208, 176, 32, 71, 69, 84, 67, 79, 78, 70, 58, 32]"

definition msg_set_deadline :: string where
  "msg_set_deadline = utf8 [209, 131, 209, 129, 209, 130, 208, 176, 208, 189, 208, 190, 208,
     178, 208, 186, 208, 176, 32, 208, 180, 208, 181, 208, 180, 208, 187, 208, 176, 208, 185,
     208, 189, 208, 176, 58, 32]"

definition msg_read_config :: string where
  "msg_read_config = utf8 [209, 135, 209, 130, 208, 181, 208, 189, 208, 184, 208, 181, 32,
     208, 190, 209, 130, 208, 178, 208, 181, 209, 130, 208, 176, 32, 208, 186, 208, 190, 208,
     189, 209, 132, 208, 184, 208, 179, 208, 176, 58, 32]"

definition msg_send_auth :: string where
  "msg_send_auth = utf8 [208, 190, 209, 130, 208, 191, 209, 128, 208, 176, 208, 178, 208, 186,
     208, 176, 32, 65, 85, 84, 72, 58, 32]"

definition msg_wrong_password :: string where
  "msg_wrong_password = utf8 [208, 189, 208, 181, 208, 178, 208, 181, 209, 128, 208, 189, 209,
     139, 208, 185, 32, 208, 191, 208, 176, 209, 128, 208, 190, 208, 187, 209, 140, 32, 208, 191,
     208, 190, 208, 180, 208, 186, 208, 187, 209, 142, 209, 135, 208, 181, 208, 189, 208, 184,
     209, 143]"

definition msg_expired :: string where
  "msg_expired = utf8 [209, 129, 209, 128, 208, 190, 208, 186, 32, 208, 180, 208, 181, 208,
     185, 209, 129, 209, 130, 208, 178, 208, 184, 209, 143, 32, 208, 191, 208, 176, 209, 128,
     208, 190, 208, 187, 209, 143, 32, 208, 184, 209, 129, 209, 130, 209, 145, 208, 186]"

definition msg_device_mismatch :: string where
  "msg_device_mismatch = utf8 [208, 191, 208, 176, 209, 128, 208, 190, 208, 187, 209, 140, 32,
     208, 191, 209, 128, 208, 184, 208, 178, 209, 143, 208, 183, 208, 176, 208, 189, 32, 208,
     186, 32, 208, 180, 209, 128, 209, 131, 208, 179, 208, 190, 208, 188, 209, 131, 32, 209, 131,
     209, 129, 209, 130, 209, 128, 208, 190, 208, 185, 209, 129, 209, 130, 208, 178, 209, 131]"

definition msg_denied :: string where
  "msg_denied = utf8 [208, 180, 208, 190, 209, 129, 209, 130, 209, 131, 208, 191, 32, 208,
     183, 208, 176, 208, 191, 209, 128, 208, 181, 209, 137, 209, 145, 208, 189, 32, 40]"

section \<open>Requests\<close>

definition getconf_payload :: "string \<Rightarrow> string \<Rightarrow> string \<Rightarrow> string" where
  "getconf_payload localPort deviceID password =
     ''GETCONF:'' @ localPort @ ''|'' @ deviceID @ ''|'' @ password"

definition auth_payload :: "string \<Rightarrow> string \<Rightarrow> string" where
  "auth_payload deviceID password = ''AUTH:'' @ deviceID @ ''|'' @ password"

record conn_results =
  res_write :: "goerr option"
  res_deadline :: "goerr option"
  res_read :: "goerr + string"

definition fatal_auth :: "string \<Rightarrow> goerr" where
  "fatal_auth m = Plain (''FATAL_AUTH: '' @ m)"

definition RequestConfig :: "conn_results \<Rightarrow> goerr + string" where
  "RequestConfig conn =
     (case res_write conn of Some e \<Rightarrow> Inl (Wrapf msg_send_getconf e [])
      | None \<Rightarrow>
      (case res_deadline conn of Some e \<Rightarrow> Inl (Wrapf msg_set_deadline e [])
       | None \<Rightarrow>
       (case res_read conn of Inl e \<Rightarrow> Inl (Wrapf msg_read_config e [])
        | Inr b \<Rightarrow>
          let resp = take 4096 b in
          if resp = ''NOCONF'' then Inr []
          else if has_prefix ''DENIED:'' resp then
            (let reason = trim_prefix ''DENIED:'' resp in
             Inl (fatal_auth
               (if reason = ''wrong_password'' then msg_wrong_password
                else if reason = ''expired'' then msg_expired
                else if reason = ''device_mismatch'' then msg_device_mismatch
                else msg_denied @ reason @ '')'')))
          else Inr resp)))"

definition SendAuth :: "conn_results \<Rightarrow> goerr option" where
  "SendAuth conn = map_option (\<lambda>e. Wrapf msg_send_auth e []) (res_write conn)"

section \<open>Lemmas\<close>

lemma fatal_auth_text: "contains ''FATAL_AUTH'' (error_text (fatal_auth m))"
proof -
  have "error_text (fatal_auth m) = ''FATAL_AUTH'' @ '': '' @ m"
    by (simp add: fatal_auth_def)
  then show ?thesis
    by (metis contains_self)
qed

text \<open>A field without the separator can be read back from the request.\<close>

lemma getconf_fields:
  assumes "CHR ''|'' \<notin> set port" and "CHR ''|'' \<notin> set dev"
  shows "getconf_payload port dev pw = getconf_payload port' dev' pw' \<Longrightarrow>
    CHR ''|'' \<notin> set port' \<Longrightarrow> CHR ''|'' \<notin> set dev' \<Longrightarrow> port = port' \<and> dev = dev' \<and> pw = pw'"
proof -
  assume e: "getconf_payload port dev pw = getconf_payload port' dev' pw'"
    and n: "CHR ''|'' \<notin> set port'" "CHR ''|'' \<notin> set dev'"
  have split: "a = a' \<and> b = b'" if "a @ CHR ''|'' # b = a' @ CHR ''|'' # b'"
    "CHR ''|'' \<notin> set a" "CHR ''|'' \<notin> set a'" for a b a' b' :: string
  proof -
    have "takeWhile (\<lambda>c. c \<noteq> CHR ''|'') (a @ CHR ''|'' # b) = a"
      "takeWhile (\<lambda>c. c \<noteq> CHR ''|'') (a' @ CHR ''|'' # b') = a'"
      using that(2,3) by (subst takeWhile_append2; force)+
    then show ?thesis
      using that(1) by auto
  qed
  have "port = port' \<and> dev @ ''|'' @ pw = dev' @ ''|'' @ pw'"
    using split [of port "dev @ ''|'' @ pw" port' "dev' @ ''|'' @ pw'"] e assms n
    by (simp add: getconf_payload_def)
  then show ?thesis
    using split [of dev pw dev' pw'] assms n by simp
qed

section \<open>Property\<close>

text \<open>A WireGuard configuration is only what the server really sent: the
  answers \<open>NOCONF\<close> and \<open>DENIED:...\<close> are never taken for one, a denial is always an error whose text
  carries \<open>FATAL_AUTH\<close> (the marker \<open>RunSession\<close> looks for), and any other answer within the buffer
  is returned unchanged.\<close>

theorem config_answer:
  "(case RequestConfig conn of
      Inr conf \<Rightarrow> conf \<noteq> ''NOCONF'' \<and> \<not> has_prefix ''DENIED:'' conf \<and> length conf \<le> 4096
    | Inl e \<Rightarrow> res_write conn \<noteq> None \<or> res_deadline conn \<noteq> None \<or> isl (res_read conn) \<or>
        contains ''FATAL_AUTH'' (error_text e)) \<and>
   (\<forall>resp. length resp \<le> 4096 \<and> resp \<noteq> ''NOCONF'' \<and> \<not> has_prefix ''DENIED:'' resp \<longrightarrow>
      RequestConfig \<lparr>res_write = None, res_deadline = None, res_read = Inr resp\<rparr> = Inr resp) \<and>
   (\<forall>reason. length reason \<le> 4000 \<longrightarrow>
      (\<exists>e. RequestConfig \<lparr>res_write = None, res_deadline = None,
          res_read = Inr (''DENIED:'' @ reason)\<rparr> = Inl e \<and>
        contains ''FATAL_AUTH'' (error_text e)))"
proof (intro conjI)
  have "\<not> has_prefix ''DENIED:'' []"
    by (simp add: has_prefix_def)
  then show "case RequestConfig conn of
      Inr conf \<Rightarrow> conf \<noteq> ''NOCONF'' \<and> \<not> has_prefix ''DENIED:'' conf \<and> length conf \<le> 4096
    | Inl e \<Rightarrow> res_write conn \<noteq> None \<or> res_deadline conn \<noteq> None \<or> isl (res_read conn) \<or>
        contains ''FATAL_AUTH'' (error_text e)"
    by (simp add: RequestConfig_def Let_def fatal_auth_text split: option.splits sum.splits)
qed (simp_all add: RequestConfig_def fatal_auth_text has_prefix_def Let_def)

theorem config_answer_witness:
  "(case RequestConfig \<lparr>res_write = None, res_deadline = None, res_read = Inr ''DENIED:expired''\<rparr> of
      Inr conf \<Rightarrow> conf \<noteq> ''NOCONF'' \<and> \<not> has_prefix ''DENIED:'' conf \<and> length conf \<le> 4096
    | Inl e \<Rightarrow> contains ''FATAL_AUTH'' (error_text e)) \<and>
   RequestConfig \<lparr>res_write = None, res_deadline = None, res_read = Inr ''[Interface]''\<rparr> =
     Inr ''[Interface]''"
proof -
  have p: "\<not> has_prefix ''DENIED:'' ''[Interface]''"
    by (simp add: has_prefix_def)
  show ?thesis
    using config_answer [of "\<lparr>res_write = None, res_deadline = None, res_read = Inr ''DENIED:expired''\<rparr>"] p
    by (auto split: sum.splits)
qed

end
