(* ===== verification/Session.thy ===== *)
theory Session
  imports Obfs Dispatcher Protocol Net
begin

text \<open>
  One TURN/DTLS session of a worker, \<open>core/session.go\<close>. \<open>RunSession\<close> is a function of the results of
  the calls it makes (\<open>session_net\<close>): it returns the trace of what it acquired, released and
  reported, its result and the configuration channel. Deferred calls are the releases that
  \<open>bracket\<close> adds at the end of the part they guard. The goroutines of a running session are separate
  functions on the sequence of what their reads and writes give: \<open>relay_reader\<close>, \<open>relay_writer\<close>,
  \<open>keepalive\<close>, \<open>dtls_writer\<close> and \<open>dtls_reader\<close>. TURN, DTLS and the packet pipe are libraries.
\<close>

section \<open>Errors of a session\<close>

datatype session_error_type = SessionErrorAddressDead | SessionErrorWrapTimeout | SessionErrorFatal

fun session_type_text :: "session_error_type \<Rightarrow> string" where
  "session_type_text SessionErrorAddressDead = ''ADDRESS_DEAD''"
| "session_type_text SessionErrorWrapTimeout = ''WRAP_TIMEOUT''"
| "session_type_text SessionErrorFatal = ''FATAL''"

record session_error =
  se_type :: session_error_type
  se_address :: string
  se_err :: "goerr option"

definition session_error_text :: "session_error \<Rightarrow> string" where
  "session_error_text e =
     (case se_err e of
        Some err \<Rightarrow> session_type_text (se_type e) @ '': '' @ error_text err @ '' (addr='' @ se_address e @ '')''
      | None \<Rightarrow> session_type_text (se_type e) @ '' (addr='' @ se_address e @ '')'')"

definition address_dead_markers :: "string list" where
  "address_dead_markers =
     [''quota'', ''486'', ''unreachable'', ''timeout'', ''connection refused'', ''no route to host'',
      ''all retransmissions failed'']"

definition classifyTurnAllocateError :: "goerr option \<Rightarrow> session_error_type" where
  "classifyTurnAllocateError err =
     (case err of
        None \<Rightarrow> SessionErrorFatal
      | Some e \<Rightarrow>
          if contains_any address_dead_markers (to_lower (error_text e))
          then SessionErrorAddressDead else SessionErrorFatal)"

definition isAuthError :: "goerr option \<Rightarrow> bool" where
  "isAuthError err =
     (case err of
        None \<Rightarrow> False
      | Some e \<Rightarrow> contains_any
          [''401'', ''Unauthorized'', ''authentication'', ''invalid credential'', ''stale nonce'']
          (error_text e))"

section \<open>Messages\<close>

definition msg_parse_addr :: string where
  "msg_parse_addr = utf8 [209, 128, 208, 176, 208, 183, 208, 177, 208, 190, 209, 128, 32, 84,
     85, 82, 78, 45, 208, 176, 208, 180, 209, 128, 208, 181, 209, 129, 208, 176, 58, 32]"

definition msg_resolve :: string where
  "msg_resolve = utf8 [209, 128, 208, 181, 208, 183, 208, 190, 208, 187, 208, 178, 32, 84, 85,
     82, 78, 58, 32]"

definition msg_dial :: string where
  "msg_dial = utf8 [208, 191, 208, 190, 208, 180, 208, 186, 208, 187, 209, 142, 209, 135, 208,
     181, 208, 189, 208, 184, 208, 181, 32, 84, 85, 82, 78, 32, 85, 68, 80, 58, 32]"

definition msg_turn_client :: string where
  "msg_turn_client = utf8 [84, 85, 82, 78, 32, 208, 186, 208, 187, 208, 184, 208, 181, 208,
     189, 209, 130, 58, 32]"

definition msg_cert :: string where
  "msg_cert = utf8 [208, 179, 208, 181, 208, 189, 208, 181, 209, 128, 208, 176, 209, 134, 208,
     184, 209, 143, 32, 209, 129, 208, 181, 209, 128, 209, 130, 208, 184, 209, 132, 208, 184,
     208, 186, 208, 176, 209, 130, 208, 176, 58, 32]"

definition msg_dtls_client :: string where
  "msg_dtls_client = utf8 [68, 84, 76, 83, 32, 208, 186, 208, 187, 208, 184, 208, 181, 208,
     189, 209, 130, 58, 32]"

definition msg_wrap_timeout :: string where
  "msg_wrap_timeout = utf8 [68, 84, 76, 83, 32, 116, 105, 109, 101, 111, 117, 116, 32, 209,
     135, 208, 181, 209, 128, 208, 181, 208, 183, 32, 87, 82, 65, 80, 58, 32, 112, 101, 101, 114,
     32, 208, 189, 208, 181, 32, 208, 190, 209, 130, 208, 178, 208, 181, 209, 130, 208, 184, 208,
     187, 58, 32]"

definition msg_handshake :: string where
  "msg_handshake = utf8 [68, 84, 76, 83, 32, 209, 133, 208, 181, 208, 189, 208, 180, 209, 136,
     208, 181, 208, 185, 208, 186, 58, 32]"

definition msg_empty_addr :: string where
  "msg_empty_addr = utf8 [208, 191, 209, 131, 209, 129, 209, 130, 208, 190, 208, 185, 32, 84,
     85, 82, 78, 45, 208, 176, 208, 180, 209, 128, 208, 181, 209, 129]"

section \<open>Parameters and results of the calls\<close>

record turn_params =
  tp_Host :: string
  tp_Port :: string
  tp_Hashes :: "string list"
  tp_WrapKey :: "byte list"
  tp_ObfsMode :: string

text \<open>\<open>net_sem\<close> is the error of the session context when it ended before a handshake slot was free.\<close>

record session_net =
  net_resolve :: "goerr option"
  net_dial :: "goerr option"
  net_client :: "goerr option"
  net_listen :: "goerr option"
  net_allocate :: "goerr option"
  net_cert :: "goerr option"
  net_sem :: "goerr option"
  net_dtls_client :: "goerr option"
  net_handshake :: "goerr option"
  net_conn :: conn_results

text \<open>
  \<open>PacketPipe\<close> stands for both ends of \<open>AsyncPacketPipe\<close>; \<open>SessionContext\<close> for the context that
  \<open>sessCancel\<close> ends (the goroutines may call that function earlier, it does nothing a second time);
  \<open>RelayHook\<close> and \<open>DtlsHook\<close> for the functions registered with \<open>context.AfterFunc\<close>.
\<close>

datatype resource =
    UdpSocket | TurnClient | Relay | PacketPipe | SessionContext | RelayHook | HandshakeSlot | DtlsConn
  | ActiveConnection | DispatcherSlot | DtlsHook

datatype action =
    Acquire resource | Release resource | Progress string string | HandleAuthError
  | ResetAuthErrors | Dial string | SentRequest string | EmitReady | RunProxies

type_synonym session_result = "bool \<times> session_error option"

type_synonym traced = "action list \<times> session_result \<times> string chan option"

text \<open>Acquire a resource whose release is deferred to the end of the part that follows.\<close>

definition bracket :: "resource \<Rightarrow> traced \<Rightarrow> traced" where
  "bracket r p = (case p of (acts, res) \<Rightarrow> (Acquire r # acts @ [Release r], res))"

definition first_do :: "action list \<Rightarrow> traced \<Rightarrow> traced" where
  "first_do pre p = (case p of (acts, res) \<Rightarrow> (pre @ acts, res))"

definition fail :: "session_error_type \<Rightarrow> string \<Rightarrow> goerr \<Rightarrow> string chan option \<Rightarrow> traced" where
  "fail ty addr err cc =
     ([], (False, Some \<lparr>se_type = ty, se_address = addr, se_err = Some err\<rparr>), cc)"

section \<open>The phases of a session\<close>

text \<open>Lines 385 to 414: request the configuration, or authorise the connection. The first component is
  an error that ends the session, otherwise whether the configuration was delivered.\<close>

definition session_auth ::
  "bool \<Rightarrow> string chan option \<Rightarrow> string \<Rightarrow> string \<Rightarrow> string \<Rightarrow> conn_results \<Rightarrow>
   action list \<times> (goerr + bool) \<times> string chan option" where
  "session_auth getConfig configCh localPort deviceID password conn =
     (case (getConfig, configCh) of
        (True, Some ch) \<Rightarrow>
          (case RequestConfig conn of
             Inl e \<Rightarrow>
               (if contains ''FATAL_AUTH'' (error_text e)
                then ([SentRequest (getconf_payload localPort deviceID password),
                       Progress ''vpn'' ''error''], Inl e, configCh)
                else ([SentRequest (getconf_payload localPort deviceID password)], Inr False, configCh))
           | Inr conf \<Rightarrow>
               ([SentRequest (getconf_payload localPort deviceID password)],
                if conf \<noteq> [] then Inr True else Inr False,
                if conf \<noteq> [] then Some (go_chan.send_or_drop ch conf) else configCh))
      | _ \<Rightarrow> ([SentRequest (auth_payload deviceID password)], Inr False, configCh))"

text \<open>Lines 382 to 515, once DTLS is up: the session runs until its goroutines end.\<close>

definition session_serve ::
  "bool \<Rightarrow> string chan option \<Rightarrow> string \<Rightarrow> string \<Rightarrow> string \<Rightarrow> string \<Rightarrow> session_net \<Rightarrow> traced" where
  "session_serve getConfig configCh localPort turnAddr deviceID password net =
     bracket ActiveConnection
       (let (acts, r, cc) = session_auth getConfig configCh localPort deviceID password (net_conn net) in
        case r of
          Inl e \<Rightarrow> first_do acts (fail SessionErrorFatal turnAddr e cc)
        | Inr delivered \<Rightarrow>
            first_do (acts @ [EmitReady])
              (bracket DispatcherSlot (first_do [Progress ''workers'' ''success'']
                (bracket DtlsHook ([RunProxies, Release PacketPipe], (delivered, None), cc)))))"

text \<open>Lines 310 to 380: certificate, handshake slot and DTLS handshake.\<close>

definition session_handshake ::
  "bool \<Rightarrow> bool \<Rightarrow> string chan option \<Rightarrow> string \<Rightarrow> string \<Rightarrow> string \<Rightarrow> string \<Rightarrow> session_net \<Rightarrow> traced" where
  "session_handshake useWrap getConfig configCh localPort turnAddr deviceID password net =
     (case net_cert net of
        Some e \<Rightarrow> fail SessionErrorFatal turnAddr (Wrapf msg_cert e []) configCh
      | None \<Rightarrow>
     (case net_sem net of
        Some e \<Rightarrow> fail SessionErrorFatal turnAddr e configCh
      | None \<Rightarrow>
     (case net_dtls_client net of
        Some e \<Rightarrow> first_do [Acquire HandshakeSlot, Release HandshakeSlot]
          (fail SessionErrorAddressDead turnAddr (Wrapf msg_dtls_client e []) configCh)
      | None \<Rightarrow>
          first_do [Acquire HandshakeSlot]
            (bracket DtlsConn
              (first_do [Progress ''dtls'' ''running'', Release HandshakeSlot]
                (case net_handshake net of
                   Some e \<Rightarrow>
                     (let errStr = to_lower (error_text e) in
                      if useWrap \<and> (contains ''deadline'' errStr \<or> contains ''timeout'' errStr)
                      then first_do [Progress ''dtls'' ''warning'', Progress ''wrap'' ''warning'']
                        (fail SessionErrorWrapTimeout turnAddr (Wrapf msg_wrap_timeout e []) configCh)
                      else first_do [Progress ''dtls'' ''warning'']
                        (fail SessionErrorAddressDead turnAddr (Wrapf msg_handshake e []) configCh))
                 | None \<Rightarrow>
                     first_do [Progress ''dtls'' ''success'', Progress ''workers'' ''running'']
                       (session_serve getConfig configCh localPort turnAddr deviceID password net)))))))"

text \<open>
  Lines 201 to 251: the relay is up, the pipe between it and DTLS is made, WRAP is set up when a key of
  the right length is configured. The pipe is the one resource whose release is not deferred.
\<close>

definition use_wrap :: "turn_params \<Rightarrow> bool" where
  "use_wrap tp \<longleftrightarrow> length (tp_WrapKey tp) = wrapKeyLen"

definition session_relay ::
  "turn_params \<Rightarrow> bool \<Rightarrow> string chan option \<Rightarrow> string \<Rightarrow> string \<Rightarrow> string \<Rightarrow> string \<Rightarrow> session_net \<Rightarrow> traced" where
  "session_relay tp getConfig configCh localPort turnAddr deviceID password net =
     bracket Relay
       (first_do [Progress ''turn'' ''success'', ResetAuthErrors, Acquire PacketPipe]
         (bracket SessionContext
           (first_do (if use_wrap tp then [Progress ''wrap'' ''running'', Progress ''wrap'' ''success''] else [])
             (bracket RelayHook
               (session_handshake (use_wrap tp) getConfig configCh localPort turnAddr deviceID password net)))))"

text \<open>Lines 175 to 205: listen and allocate the relay.\<close>

definition session_allocate ::
  "turn_params \<Rightarrow> bool \<Rightarrow> string chan option \<Rightarrow> string \<Rightarrow> string \<Rightarrow> string \<Rightarrow> string \<Rightarrow> session_net \<Rightarrow> traced" where
  "session_allocate tp getConfig configCh localPort turnAddr deviceID password net =
     (case net_listen net of
        Some e \<Rightarrow> fail SessionErrorAddressDead turnAddr (Wrapf ''TURN Listen: '' e []) configCh
      | None \<Rightarrow>
          first_do [Progress ''turn'' ''running'']
            (case net_allocate net of
               Some e \<Rightarrow>
                 first_do (if isAuthError (Some e) then [HandleAuthError] else [])
                   (fail (classifyTurnAllocateError (Some e)) turnAddr
                     (Wrapf ''TURN Allocate: '' e []) configCh)
             | None \<Rightarrow> session_relay tp getConfig configCh localPort turnAddr deviceID password net))"

text \<open>Lines 145 to 174: the UDP socket and the TURN client.\<close>

definition session_turn ::
  "string \<Rightarrow> turn_params \<Rightarrow> bool \<Rightarrow> string chan option \<Rightarrow> string \<Rightarrow> string \<Rightarrow> string \<Rightarrow> string \<Rightarrow> session_net \<Rightarrow> traced" where
  "session_turn resolved tp getConfig configCh localPort turnAddr deviceID password net =
     bracket UdpSocket (first_do [Dial resolved]
       (case net_client net of
          Some e \<Rightarrow> fail SessionErrorAddressDead turnAddr (Wrapf msg_turn_client e []) configCh
        | None \<Rightarrow> bracket TurnClient
            (session_allocate tp getConfig configCh localPort turnAddr deviceID password net)))"

definition RunSession ::
  "turn_params \<Rightarrow> bool \<Rightarrow> string chan option \<Rightarrow> string \<Rightarrow> string \<Rightarrow> string \<Rightarrow> string \<Rightarrow> session_net \<Rightarrow> traced" where
  "RunSession tp getConfig configCh localPort turnAddr deviceID password net =
     (if turnAddr = [] then fail SessionErrorFatal [] (Plain msg_empty_addr) configCh
      else case SplitHostPort turnAddr of
        Inl e \<Rightarrow> fail SessionErrorAddressDead turnAddr
          (Wrapf msg_parse_addr (Plain (addr_error_text turnAddr e)) []) configCh
      | Inr (host, port) \<Rightarrow>
          (let urlhost = (if tp_Host tp \<noteq> [] then tp_Host tp else host);
               urlport = (if tp_Port tp \<noteq> [] then tp_Port tp else port);
               turnAddrResolved = JoinHostPort urlhost urlport
           in case net_resolve net of
             Some e \<Rightarrow> fail SessionErrorAddressDead turnAddr (Wrapf msg_resolve e []) configCh
           | None \<Rightarrow>
             (case net_dial net of
                Some e \<Rightarrow> fail SessionErrorAddressDead turnAddr (Wrapf msg_dial e []) configCh
              | None \<Rightarrow> session_turn turnAddrResolved tp getConfig configCh localPort turnAddr
                  deviceID password net)))"

section \<open>The goroutines of a running session\<close>

definition readBufSize :: nat where
  "readBufSize = 1600"

definition keepaliveByte :: byte where
  "keepaliveByte = 0xFF"

text \<open>Relay to pipe (lines 253 to 282). An input is a failed read or a datagram with the success of the
  write to the pipe that may follow.\<close>

fun relay_reader ::
  "(byte list \<rightharpoonup> aead) \<Rightarrow> aead_cache \<Rightarrow> byte list \<Rightarrow> (byte list \<times> bool) option list \<Rightarrow> byte list list" where
  "relay_reader new cache key [] = []"
| "relay_reader new cache key (None # es) = []"
| "relay_reader new cache key (Some (pkt, write_ok) # es) =
     (if length key = wrapKeyLen then
        (if \<not> obfsIsRTPPacket pkt then relay_reader new cache key es
         else case obfsUnwrapPacket new cache key pkt readBufSize of
           (Inl e, cache') \<Rightarrow> relay_reader new cache' key es
         | (Inr payload, cache') \<Rightarrow>
             payload # (if write_ok then relay_reader new cache' key es else []))
      else pkt # (if write_ok then relay_reader new cache key es else []))"

text \<open>Pipe to relay (lines 284 to 308); every packet has its own random bytes.\<close>

fun relay_writer ::
  "(byte list \<rightharpoonup> aead) \<Rightarrow> aead_cache \<Rightarrow> byte list \<Rightarrow> obfs_config \<Rightarrow> obfs_state \<Rightarrow>
   (byte list \<times> (nat \<Rightarrow> byte) \<times> bool) option list \<Rightarrow> byte list list" where
  "relay_writer new cache key cfg st [] = []"
| "relay_writer new cache key cfg st (None # es) = []"
| "relay_writer new cache key cfg st (Some (out, rs, write_ok) # es) =
     (if length key = wrapKeyLen then
        (case obfsWrapPacket new cache key out cfg st rs of
           (Inl e, st', cache') \<Rightarrow> []
         | (Inr wrapped, st', cache') \<Rightarrow>
             wrapped # (if write_ok then relay_writer new cache' key cfg st' es else []))
      else out # (if write_ok then relay_writer new cache key cfg st es else []))"

datatype tick = CtxDone | Tick bool

fun keepalive :: "tick list \<Rightarrow> byte list list" where
  "keepalive [] = []"
| "keepalive (CtxDone # es) = []"
| "keepalive (Tick write_ok # es) = [keepaliveByte] # (if write_ok then keepalive es else [])"

text \<open>Worker queue to DTLS (lines 452 to 472): the packets written, the queue that is left.\<close>

fun dtls_writer :: "byte list chan \<Rightarrow> tick list \<Rightarrow> byte list list \<times> byte list chan" where
  "dtls_writer q [] = ([], q)"
| "dtls_writer q (CtxDone # es) = ([], q)"
| "dtls_writer q (Tick write_ok # es) =
     (case try_recv q of
        None \<Rightarrow> dtls_writer q es
      | Some (pkt, q') \<Rightarrow>
          (let (out, q'') = (if write_ok then dtls_writer q' es else ([], q')) in (pkt # out, q'')))"

datatype dtls_event = Failed bool bool | Got "byte list"

text \<open>DTLS to the dispatcher's return queue (lines 474 to 506). \<open>Failed done timeout\<close> is a failed read
  with the state of the context and whether the error is a timeout.\<close>

fun dtls_reader :: "dtls_event list \<Rightarrow> byte list list" where
  "dtls_reader [] = []"
| "dtls_reader (Failed ctx_done timeout # es) =
     (if ctx_done then [] else if timeout then dtls_reader es else [])"
| "dtls_reader (Got pkt # es) =
     (if length pkt = 1 \<and> pkt ! 0 = keepaliveByte then dtls_reader es else pkt # dtls_reader es)"

section \<open>What a trace must respect\<close>

text \<open>A trace is run against the set of resources that are held. Nothing is acquired twice or released
  without being held; requests are only sent over an established DTLS connection, and the proxy
  loops only run when everything but the handshake slot is held.\<close>

definition all_held :: "(resource \<Rightarrow> bool) \<Rightarrow> bool" where
  "all_held h \<longleftrightarrow> (\<forall>r. h r \<longleftrightarrow> r \<noteq> HandshakeSlot)"

fun run_trace :: "(resource \<Rightarrow> bool) \<Rightarrow> action list \<Rightarrow> (resource \<Rightarrow> bool) option" where
  "run_trace h [] = Some h"
| "run_trace h (Acquire r # as) = (if h r then None else run_trace (h(r := True)) as)"
| "run_trace h (Release r # as) = (if h r then run_trace (h(r := False)) as else None)"
| "run_trace h (SentRequest m # as) =
     (if h DtlsConn \<and> h ActiveConnection \<and> \<not> h HandshakeSlot then run_trace h as else None)"
| "run_trace h (RunProxies # as) = (if all_held h then run_trace h as else None)"
| "run_trace h (a # as) = run_trace h as"

text \<open>
  What a part of the session holds at its end if it held \<open>h\<close> at its start: the same, but for the pipe,
  which an error leaves open.
\<close>

definition held_after :: "(resource \<Rightarrow> bool) \<Rightarrow> traced \<Rightarrow> resource \<Rightarrow> bool" where
  "held_after h p = (case p of (acts, (delivered, err), cc) \<Rightarrow>
     h(PacketPipe := (h PacketPipe \<or> Acquire PacketPipe \<in> set acts) \<and> err \<noteq> None))"

definition trace_ok :: "(resource \<Rightarrow> bool) \<Rightarrow> traced \<Rightarrow> bool" where
  "trace_ok h p \<longleftrightarrow> run_trace h (fst p) = Some (held_after h p)"

lemma run_trace_append:
  "run_trace h (as @ bs) = (case run_trace h as of None \<Rightarrow> None | Some h' \<Rightarrow> run_trace h' bs)"
  by (induction h as rule: run_trace.induct) (auto simp del: fun_upd_apply)

lemma traced_parts:
  fixes p :: traced
  obtains acts delivered err cc where "p = (acts, (delivered, err), cc)"
  by (cases p) auto

lemma trace_ok_fail: "trace_ok h (fail ty a e cc)"
  by (simp add: trace_ok_def held_after_def fail_def)

lemma trace_ok_bracket:
  assumes "\<not> h r" "r \<noteq> PacketPipe" "trace_ok (h(r := True)) p"
  shows "trace_ok h (bracket r p)"
proof -
  obtain acts delivered err cc where p: "p = (acts, (delivered, err), cc)" by (rule traced_parts)
  have "h(r := True, PacketPipe := x, r := False) = h(PacketPipe := x)" for x
    using assms(1,2) by (auto simp: fun_eq_iff)
  then show ?thesis
    using assms p by (simp add: trace_ok_def held_after_def bracket_def run_trace_append)
qed

lemma trace_ok_first:
  "run_trace h pre = Some h \<Longrightarrow> Acquire PacketPipe \<notin> set pre \<Longrightarrow> trace_ok h p \<Longrightarrow> trace_ok h (first_do pre p)"
  by (cases p) (simp add: trace_ok_def held_after_def first_do_def run_trace_append split: prod.split)

lemma trace_ok_pipe:
  assumes "\<not> h PacketPipe" "trace_ok (h(PacketPipe := True)) p" "run_trace h pre = Some h"
  shows "trace_ok h (first_do (pre @ [Acquire PacketPipe]) p)"
  using assms by (cases p) (simp add: trace_ok_def held_after_def first_do_def run_trace_append split: prod.split)

lemma session_auth_trace:
  assumes "session_auth g ch lp dv pw conn = (acts, r, cc)"
    and "h DtlsConn" "h ActiveConnection" "\<not> h HandshakeSlot"
  shows "run_trace h acts = Some h" "Acquire PacketPipe \<notin> set acts"
proof -
  consider m where "acts = [SentRequest m]" | m where "acts = [SentRequest m, Progress ''vpn'' ''error'']"
    using assms(1) by (auto simp: session_auth_def split: bool.splits option.splits sum.splits if_splits)
  then show "run_trace h acts = Some h" "Acquire PacketPipe \<notin> set acts"
    by (cases; use assms(2-4) in simp)+
qed

text \<open>What is held in the phases of a session.\<close>

definition held_relay :: "resource \<Rightarrow> bool" where
  "held_relay r \<longleftrightarrow> r \<in> {UdpSocket, TurnClient, Relay, PacketPipe, SessionContext, RelayHook}"

definition held_dtls :: "resource \<Rightarrow> bool" where
  "held_dtls = held_relay(DtlsConn := True)"

lemma session_serve_trace: "trace_ok held_dtls (session_serve g ch lp ta dv pw net)"
proof -
  obtain acts r cc where a: "session_auth g ch lp dv pw (net_conn net) = (acts, r, cc)"
    by (cases "session_auth g ch lp dv pw (net_conn net)") auto
  let ?h = "held_dtls(ActiveConnection := True)"
  have t: "run_trace ?h acts = Some ?h" "Acquire PacketPipe \<notin> set acts"
    using session_auth_trace [OF a, of ?h] by (simp_all add: held_dtls_def held_relay_def)
  have "(?h(DispatcherSlot := True, DtlsHook := True)) r \<longleftrightarrow> r \<noteq> HandshakeSlot" for r
    by (cases r) (simp_all add: held_dtls_def held_relay_def)
  then have "all_held (?h(DispatcherSlot := True, DtlsHook := True))"
    unfolding all_held_def by blast
  moreover have "(?h(DispatcherSlot := True, DtlsHook := True)) PacketPipe"
    by (simp add: held_dtls_def held_relay_def)
  ultimately have "trace_ok (?h(DispatcherSlot := True, DtlsHook := True)) ([RunProxies, Release PacketPipe], (d, None), cc)" for d
    by (simp add: trace_ok_def held_after_def del: fun_upd_apply)
  then have served: "trace_ok ?h (bracket DispatcherSlot (first_do [Progress ''workers'' ''success'']
      (bracket DtlsHook ([RunProxies, Release PacketPipe], (d, None), cc))))" for d
    by (intro trace_ok_bracket trace_ok_first) (simp_all add: held_dtls_def held_relay_def)
  have "trace_ok ?h (first_do acts (fail SessionErrorFatal ta e cc))" for e
    by (rule trace_ok_first [OF t trace_ok_fail])
  moreover have "trace_ok ?h (first_do (acts @ [EmitReady]) (bracket DispatcherSlot (first_do [Progress ''workers'' ''success'']
      (bracket DtlsHook ([RunProxies, Release PacketPipe], (d, None), cc)))))" for d
    by (rule trace_ok_first [OF _ _ served]) (simp_all add: run_trace_append t)
  moreover have "\<not> held_dtls ActiveConnection" by (simp add: held_dtls_def held_relay_def)
  ultimately show ?thesis
    unfolding session_serve_def a by (auto intro!: trace_ok_bracket split: sum.splits)
qed

text \<open>The handshake slot is given back once the DTLS connection is guarded.\<close>

lemma trace_ok_dtls:
  assumes "trace_ok held_dtls p"
  shows "trace_ok held_relay (first_do [Acquire HandshakeSlot] (bracket DtlsConn
      (first_do [Progress ''dtls'' ''running'', Release HandshakeSlot] p)))"
proof -
  obtain acts delivered err cc where p: "p = (acts, (delivered, err), cc)" by (rule traced_parts)
  let ?pre = "[Acquire HandshakeSlot, Acquire DtlsConn, Progress ''dtls'' ''running'', Release HandshakeSlot]"
  have free: "\<not> held_relay HandshakeSlot" "\<not> held_relay DtlsConn" by (simp_all add: held_relay_def)
  have "held_relay(HandshakeSlot := True, DtlsConn := True, HandshakeSlot := False) = held_dtls"
    using free by (auto simp: fun_eq_iff held_dtls_def)
  then have pre: "run_trace held_relay ?pre = Some held_dtls"
    using free by (simp del: fun_upd_apply add: fun_upd_other fun_upd_same)
  have drop: "held_dtls(PacketPipe := x, DtlsConn := False) = held_relay(PacketPipe := x)" for x
    using free by (auto simp: fun_eq_iff held_dtls_def)
  have held: "held_dtls PacketPipe = held_relay PacketPipe" "held_dtls DtlsConn" by (simp_all add: held_dtls_def)
  have "run_trace held_dtls acts = Some (held_after held_dtls p)"
    using assms unfolding trace_ok_def p by simp
  then have "run_trace held_relay (?pre @ acts @ [Release DtlsConn]) =
      Some ((held_after held_dtls p)(DtlsConn := False))"
    unfolding run_trace_append pre by (simp add: held_after_def p held(2) del: fun_upd_apply) (simp add: held(2))
  moreover have "(held_after held_dtls p)(DtlsConn := False) =
      held_after held_relay (?pre @ acts @ [Release DtlsConn], (delivered, err), cc)"
    unfolding held_after_def p using drop held(1) by (simp del: fun_upd_apply)
  moreover have "first_do [Acquire HandshakeSlot] (bracket DtlsConn (first_do [Progress ''dtls'' ''running'', Release HandshakeSlot] p)) =
      (?pre @ acts @ [Release DtlsConn], (delivered, err), cc)"
    by (simp add: p first_do_def bracket_def)
  ultimately show ?thesis
    unfolding trace_ok_def by (simp only: fst_conv)
qed

lemma session_handshake_trace: "trace_ok held_relay (session_handshake w g ch lp ta dv pw net)"
proof -
  have "trace_ok held_dtls
      (case net_handshake net of
         Some e \<Rightarrow>
           (let errStr = to_lower (error_text e) in
            if w \<and> (contains ''deadline'' errStr \<or> contains ''timeout'' errStr)
            then first_do [Progress ''dtls'' ''warning'', Progress ''wrap'' ''warning'']
              (fail SessionErrorWrapTimeout ta (Wrapf msg_wrap_timeout e []) ch)
            else first_do [Progress ''dtls'' ''warning'']
              (fail SessionErrorAddressDead ta (Wrapf msg_handshake e []) ch))
       | None \<Rightarrow> first_do [Progress ''dtls'' ''success'', Progress ''workers'' ''running'']
           (session_serve g ch lp ta dv pw net))"
  proof (cases "net_handshake net")
    case None
    then show ?thesis
      by (simp only: option.case) (intro trace_ok_first session_serve_trace; simp)
  next
    case (Some e)
    then show ?thesis
      by (simp only: option.case Let_def split: if_split) (intro conjI impI trace_ok_first trace_ok_fail; simp)
  qed
  note dtls = trace_ok_dtls [OF this]
  have "\<not> held_relay HandshakeSlot" by (simp add: held_relay_def)
  then have "held_relay(HandshakeSlot := True, HandshakeSlot := False) = held_relay" by (auto simp: fun_eq_iff)
  with \<open>\<not> held_relay HandshakeSlot\<close>
  have "run_trace held_relay [Acquire HandshakeSlot, Release HandshakeSlot] = Some held_relay"
    by (simp del: fun_upd_apply add: fun_upd_same)
  then have "trace_ok held_relay (first_do [Acquire HandshakeSlot, Release HandshakeSlot]
      (fail SessionErrorAddressDead ta (Wrapf msg_dtls_client e []) ch))" for e
    by (rule trace_ok_first [OF _ _ trace_ok_fail]) simp
  with dtls show ?thesis
    unfolding session_handshake_def using trace_ok_fail
    by (cases "net_cert net"; cases "net_sem net"; cases "net_dtls_client net")
      (simp_all only: option.case)
qed

abbreviation nothing_held :: "resource \<Rightarrow> bool" where
  "nothing_held \<equiv> \<lambda>_. False"

lemma session_relay_trace:
  "trace_ok (nothing_held(UdpSocket := True, TurnClient := True)) (session_relay tp g ch lp ta dv pw net)"
proof -
  let ?h = "nothing_held(UdpSocket := True, TurnClient := True, Relay := True)"
  have "?h(PacketPipe := True, SessionContext := True, RelayHook := True) = held_relay"
    by (auto simp: fun_eq_iff held_relay_def)
  then have "trace_ok (?h(PacketPipe := True, SessionContext := True, RelayHook := True))
      (session_handshake (use_wrap tp) g ch lp ta dv pw net)"
    by (simp only: session_handshake_trace)
  then have "trace_ok (?h(PacketPipe := True)) (bracket SessionContext
      (first_do (if use_wrap tp then [Progress ''wrap'' ''running'', Progress ''wrap'' ''success''] else [])
        (bracket RelayHook (session_handshake (use_wrap tp) g ch lp ta dv pw net))))"
    by (intro trace_ok_bracket trace_ok_first) simp_all
  then have "trace_ok ?h (first_do ([Progress ''turn'' ''success'', ResetAuthErrors] @ [Acquire PacketPipe]) (bracket SessionContext
      (first_do (if use_wrap tp then [Progress ''wrap'' ''running'', Progress ''wrap'' ''success''] else [])
        (bracket RelayHook (session_handshake (use_wrap tp) g ch lp ta dv pw net)))))"
    by (intro trace_ok_pipe) simp_all
  then show ?thesis
    unfolding session_relay_def by (intro trace_ok_bracket) simp_all
qed

lemma session_allocate_trace:
  "trace_ok (nothing_held(UdpSocket := True, TurnClient := True)) (session_allocate tp g ch lp ta dv pw net)"
  unfolding session_allocate_def
  by (cases "net_listen net"; cases "net_allocate net")
    (auto intro!: trace_ok_first trace_ok_fail session_relay_trace)

lemma session_turn_trace: "trace_ok nothing_held (session_turn a tp g ch lp ta dv pw net)"
  unfolding session_turn_def
  by (cases "net_client net")
    (auto intro!: trace_ok_first trace_ok_fail trace_ok_bracket session_allocate_trace)

lemma RunSession_trace: "trace_ok nothing_held (RunSession tp g ch lp ta dv pw net)"
  unfolding RunSession_def Let_def
  by (cases "SplitHostPort ta"; cases "net_resolve net"; cases "net_dial net")
    (auto intro!: trace_ok_fail session_turn_trace)

section \<open>What a session returns\<close>

text \<open>\<open>conn\<close> is what the connection answers to the request for the configuration.\<close>

definition result_ok :: "string \<Rightarrow> bool \<Rightarrow> bool \<Rightarrow> conn_results \<Rightarrow> string chan option \<Rightarrow> traced \<Rightarrow> bool" where
  "result_ok ta w g conn ch p \<longleftrightarrow> (case p of (acts, (delivered, err), cc) \<Rightarrow>
     (RunProxies \<in> set acts \<longleftrightarrow> err = None) \<and>
     (\<forall>e. err = Some e \<longrightarrow> \<not> delivered \<and> se_address e = ta \<and>
       (se_type e \<noteq> SessionErrorFatal \<longrightarrow> ta \<noteq> []) \<and>
       (se_type e = SessionErrorWrapTimeout \<longrightarrow> w)) \<and>
     (delivered \<longrightarrow> (\<exists>c conf. g \<and> ch = Some c \<and> RequestConfig conn = Inr conf \<and> conf \<noteq> [] \<and>
       conf \<noteq> ''NOCONF'' \<and> cc = Some (go_chan.send_or_drop c conf))) \<and>
     (err = None \<and> \<not> delivered \<and> g \<and> ch \<noteq> None \<longrightarrow>
       (case RequestConfig conn of Inr conf \<Rightarrow> conf = []
        | Inl e \<Rightarrow> \<not> contains ''FATAL_AUTH'' (error_text e))) \<and>
     (\<not> delivered \<longrightarrow> cc = ch))"

lemma result_fail:
  "(ty \<noteq> SessionErrorFatal \<Longrightarrow> ta \<noteq> []) \<Longrightarrow> (ty = SessionErrorWrapTimeout \<Longrightarrow> w) \<Longrightarrow>
     result_ok ta w g conn ch (fail ty ta e ch)"
  by (simp add: result_ok_def fail_def)

lemma result_bracket: "result_ok ta w g conn ch p \<Longrightarrow> result_ok ta w g conn ch (bracket r p)"
  by (cases p) (auto simp: result_ok_def bracket_def)

lemma result_first_do:
  "result_ok ta w g conn ch p \<Longrightarrow> RunProxies \<notin> set pre \<Longrightarrow> result_ok ta w g conn ch (first_do pre p)"
  by (cases p) (auto simp: result_ok_def first_do_def)

lemma RequestConfig_NOCONF: "RequestConfig conn \<noteq> Inr ''NOCONF''"
  by (auto simp: RequestConfig_def Let_def split: option.splits sum.splits)

lemma session_auth_result:
  assumes "session_auth g ch lp dv pw conn = (acts, r, cc)"
  shows "RunProxies \<notin> set acts \<and>
    (case r of Inl e \<Rightarrow> cc = ch
     | Inr d \<Rightarrow> if d then \<exists>c conf. g \<and> ch = Some c \<and> RequestConfig conn = Inr conf \<and> conf \<noteq> [] \<and>
           conf \<noteq> ''NOCONF'' \<and> cc = Some (go_chan.send_or_drop c conf)
         else cc = ch \<and> (g \<and> ch \<noteq> None \<longrightarrow>
           (case RequestConfig conn of Inr conf \<Rightarrow> conf = []
            | Inl e \<Rightarrow> \<not> contains ''FATAL_AUTH'' (error_text e))))"
proof (cases "g \<and> ch \<noteq> None")
  case True
  then obtain c where "ch = Some c" by blast
  then show ?thesis
    using assms True RequestConfig_NOCONF [of conn]
    by (cases "RequestConfig conn") (auto simp: session_auth_def split: if_splits)
next
  case False
  then show ?thesis
    using assms by (cases ch) (auto simp: session_auth_def split: bool.splits)
qed

lemma session_serve_result: "result_ok ta w g (net_conn net) ch (session_serve g ch lp ta dv pw net)"
proof -
  obtain acts r cc where a: "session_auth g ch lp dv pw (net_conn net) = (acts, r, cc)"
    by (cases "session_auth g ch lp dv pw (net_conn net)") auto
  note f = session_auth_result [OF a]
  show ?thesis
    unfolding session_serve_def a Let_def prod.case
    using f by (intro result_bracket)
      (auto simp: result_ok_def fail_def first_do_def bracket_def split: sum.splits if_splits)
qed

lemma session_handshake_result:
  "ta \<noteq> [] \<Longrightarrow> result_ok ta w g (net_conn net) ch (session_handshake w g ch lp ta dv pw net)"
  unfolding session_handshake_def
  by (auto simp: Let_def split: option.splits
      intro!: result_fail result_first_do result_bracket session_serve_result)

lemma classifyTurnAllocateError_cases:
  "classifyTurnAllocateError e \<noteq> SessionErrorWrapTimeout"
  by (simp add: classifyTurnAllocateError_def split: option.split)

lemma session_relay_result:
  "ta \<noteq> [] \<Longrightarrow> result_ok ta (use_wrap tp) g (net_conn net) ch (session_relay tp g ch lp ta dv pw net)"
  unfolding session_relay_def
  by (intro result_bracket result_first_do session_handshake_result) auto

lemma session_allocate_result:
  "ta \<noteq> [] \<Longrightarrow> result_ok ta (use_wrap tp) g (net_conn net) ch (session_allocate tp g ch lp ta dv pw net)"
  unfolding session_allocate_def
  by (cases "net_listen net"; cases "net_allocate net")
    (auto intro!: result_first_do result_fail session_relay_result
      simp: classifyTurnAllocateError_cases)

lemma session_turn_result:
  "ta \<noteq> [] \<Longrightarrow> result_ok ta (use_wrap tp) g (net_conn net) ch (session_turn a tp g ch lp ta dv pw net)"
  unfolding session_turn_def
  by (cases "net_client net")
    (auto intro!: result_first_do result_fail result_bracket session_allocate_result)

lemma RunSession_result: "result_ok ta (use_wrap tp) g (net_conn net) ch (RunSession tp g ch lp ta dv pw net)"
  unfolding RunSession_def Let_def
  by (cases "SplitHostPort ta"; cases "net_resolve net"; cases "net_dial net")
    (auto intro!: result_fail session_turn_result)

section \<open>The packets of a session\<close>

lemma pkt_fields_count [simp]:
  "pkt_seq (st\<lparr>pktCount := n\<rparr>) c = pkt_seq st c" "pkt_ts (st\<lparr>pktCount := n\<rparr>) c = pkt_ts st c"
  by (simp_all add: pkt_seq_def pkt_ts_def)

lemma relay_writer_nonces:
  assumes "aead_ok a" and "new key = Some a" and "length key = wrapKeyLen" and "obfs_config_ok cfg"
    and "cache_ok new cache" and "i < length (relay_writer new cache key cfg st es)"
  shows "wire_nonce (relay_writer new cache key cfg st es ! i) =
    obfsBuildNonce (SSRC cfg) (pkt_seq st (pktCount st + of_nat i)) (pkt_ts st (pktCount st + of_nat i))"
  using assms(5,6)
proof (induction es arbitrary: cache st i)
  case (Cons e es)
  show ?case
  proof (cases e)
    case (Some x)
    obtain out rs ok where x: "x = (out, rs, ok)"
      by (cases x)
    show ?thesis
    proof (cases "out = []")
      case True
      then show ?thesis
        using Cons.prems(2) Some x assms(3) by (simp add: obfsWrapPacket_def)
    next
      case False
      obtain wire c' where w: "obfsWrapPacket new cache key out cfg st rs =
          (Inr wire, st\<lparr>pktCount := pktCount st + 1\<rparr>, c')" "cache_ok new c'"
        "wire_nonce wire = obfsBuildNonce (SSRC cfg) (pkt_seq st (pktCount st)) (pkt_ts st (pktCount st))"
        by (rule wrapped_packet [OF assms(1,2,3) False Cons.prems(1) assms(4), of st rs])
      show ?thesis
      proof (cases i)
        case 0
        then show ?thesis
          using Some x w(1,3) assms(3) by simp
      next
        case (Suc j)
        then have "ok" and "j < length (relay_writer new c' key cfg (st\<lparr>pktCount := pktCount st + 1\<rparr>) es)"
          using Cons.prems(2) Some x w(1) assms(3) by (simp_all split: if_splits)
        then show ?thesis
          using Cons.IH [OF w(2)] Some x w(1) assms(3) Suc by (simp add: algebra_simps)
      qed
    qed
  qed (use Cons.prems in simp)
qed simp

lemma relay_writer_length: "length (relay_writer new cache key cfg st es) \<le> length es"
  by (induction new cache key cfg st es rule: relay_writer.induct)
    (auto split: sum.splits prod.splits)

lemma counter_mod_48: "uint (c + of_nat i :: 64 word) mod 2 ^ 48 = (uint c + int i) mod 2 ^ 48"
proof -
  have "uint (c + of_nat i :: 64 word) = (uint c + int i) mod 2 ^ 64"
    by (simp add: uint_word_ariths unsigned_of_nat take_bit_eq_mod mod_simps of_nat_mod)
  moreover have "((uint c + int i) mod (2 ^ 48 * 2 ^ 16)) mod 2 ^ 48 = (uint c + int i) mod 2 ^ 48"
    by (rule mod_mod_cancel) simp
  ultimately show ?thesis by simp
qed

lemma counters_differ:
  fixes c :: "64 word"
  assumes "i < j" and "j < 2 ^ 48"
  shows "uint (c + of_nat i) mod 2 ^ 48 \<noteq> uint (c + of_nat j) mod 2 ^ 48"
proof
  assume "uint (c + of_nat i) mod 2 ^ 48 = uint (c + of_nat j) mod 2 ^ 48"
  then have "2 ^ 48 dvd (uint c + int j) - (uint c + int i)"
    unfolding counter_mod_48 by (metis mod_eq_dvd_iff)
  then have "2 ^ 48 dvd int j - int i"
    by simp
  then have "2 ^ 48 \<le> int j - int i"
    using assms(1) by (intro zdvd_imp_le) simp_all
  moreover have "int j < 2 ^ 48"
    using assms(2) by simp
  ultimately show False
    by linarith
qed

section \<open>Properties of a session\<close>

text \<open>Property C2 (safety). One WRAP session never uses a nonce twice: whatever the payloads, the random
  padding and the failures of the relay socket are, the nonces of up to \<open>2 ^ 48\<close> packets it sends
  under its key are pairwise different.\<close>

theorem session_nonces_distinct:
  assumes "aead_ok a" and "new key = Some a" and "length key = wrapKeyLen"
    and "cache_ok new cache" and "length es \<le> 2 ^ 48"
  shows "distinct (map wire_nonce
    (relay_writer new cache key (NewObfsConfig rc mode) (NewObfsState rst) es))"
proof -
  let ?out = "relay_writer new cache key (NewObfsConfig rc mode) (NewObfsState rst) es"
  let ?st = "NewObfsState rst"
  have len: "length ?out \<le> 2 ^ 48"
    using relay_writer_length assms(5) le_trans by blast
  have nonce: "wire_nonce (?out ! i) = obfsBuildNonce (SSRC (NewObfsConfig rc mode))
      (pkt_seq ?st (pktCount ?st + of_nat i)) (pkt_ts ?st (pktCount ?st + of_nat i))"
    if "i < length ?out" for i
    using relay_writer_nonces [OF assms(1,2,3) NewObfsConfig_ok assms(4) that] .
  have "wire_nonce (?out ! i) \<noteq> wire_nonce (?out ! j)" if "i < j" "j < length ?out" for i j
    unfolding nonce [OF that(2)] nonce [OF less_trans [OF that]] nonce_eq_iff
    using counters_differ [OF that(1)] that(2) len by simp
  then show ?thesis
    unfolding distinct_conv_nth by (metis length_map linorder_neqE_nat nth_map)
qed

theorem session_nonces_distinct_witness:
  "distinct (map wire_nonce (relay_writer (\<lambda>_. Some toy_aead) Map.empty (replicate 32 7)
      (NewObfsConfig (\<lambda>_. 1) ''audio'') (NewObfsState (\<lambda>_. 2))
      [Some ([1], (\<lambda>_. 0), True), Some ([1], (\<lambda>_. 0), True)]))"
  by (rule session_nonces_distinct [where a = toy_aead])
    (simp_all add: aead_ok_def toy_aead_def overhead_def wrapKeyLen_def cache_ok_def)

lemma tunnel:
  assumes "aead_ok a" and "new key = Some a" and "length key = wrapKeyLen" and "obfs_config_ok cfg"
    and "cache_ok new cache" and "cache_ok new cache'"
    and "\<forall>(p, rs) \<in> set ps. p \<noteq> [] \<and> length p \<le> 1592"
  shows "relay_reader new cache' key (map (\<lambda>w. Some (w, True))
      (relay_writer new cache key cfg st (map (\<lambda>(p, rs). Some (p, rs, True)) ps))) = map fst ps \<and>
    (\<forall>w \<in> set (relay_writer new cache key cfg st (map (\<lambda>(p, rs). Some (p, rs, True)) ps)).
      length w \<le> readBufSize + 80)"
  using assms(5-7)
proof (induction ps arbitrary: cache cache' st)
  case (Cons x ps)
  obtain p rs where x: "x = (p, rs)"
    by (cases x)
  then have p: "p \<noteq> []" "length p \<le> 1592"
    using Cons.prems(3) by simp_all
  obtain wire c' where w: "obfsWrapPacket new cache key p cfg st rs =
      (Inr wire, st\<lparr>pktCount := pktCount st + 1\<rparr>, c')" "cache_ok new c'" "obfsIsRTPPacket wire"
    "length wire \<le> length p + 88"
    "wire_nonce wire = obfsBuildNonce (SSRC cfg) (pkt_seq st (pktCount st)) (pkt_ts st (pktCount st))"
    "\<forall>cache' n. cache_ok new cache' \<longrightarrow> length p \<le> n \<longrightarrow>
      fst (obfsUnwrapPacket new cache' key wire n) = Inr p"
    by (rule wrapped_packet [OF assms(1,2,3) p(1) Cons.prems(1) assms(4), of st rs])
  have "fst (obfsUnwrapPacket new cache' key wire readBufSize) = Inr p"
    using w(6) Cons.prems(2) p(2) by (simp add: readBufSize_def)
  then obtain c'' where u: "obfsUnwrapPacket new cache' key wire readBufSize = (Inr p, c'')"
    by (cases "obfsUnwrapPacket new cache' key wire readBufSize") simp
  then have "cache_ok new c''"
    using unwrap_cache_ok [OF Cons.prems(2), of key wire readBufSize] by simp
  from Cons.IH [OF w(2) this] Cons.prems(3)
  show ?case
    using x w(1,3,4) u assms(3) p(2) by (simp add: readBufSize_def)
qed simp

text \<open>Property C13 (round trip). The tunnel is lossless while the relay delivers: what the relay writer
  of one side sends for a list of payloads of 1 to 1592 bytes, the relay reader of the other side,
  which only shares the key, hands on as the same list, in the same order, and every packet fits
  its read buffer of 1680 bytes.\<close>

theorem tunnel_lossless:
  assumes "aead_ok a" and "new key = Some a" and "length key = wrapKeyLen"
    and "cache_ok new cache" and "cache_ok new cache'"
    and "\<forall>(p, rs) \<in> set ps. p \<noteq> [] \<and> length p \<le> 1592"
  shows "let sent = relay_writer new cache key (NewObfsConfig rc mode) st
      (map (\<lambda>(p, rs). Some (p, rs, True)) ps) in
    relay_reader new cache' key (map (\<lambda>w. Some (w, True)) sent) = map fst ps \<and>
    (\<forall>w \<in> set sent. length w \<le> readBufSize + 80)"
  using tunnel [OF assms(1-3) NewObfsConfig_ok assms(4-6)] by (simp add: Let_def)

theorem tunnel_lossless_witness:
  "let sent = relay_writer (\<lambda>_. Some toy_aead) Map.empty (replicate 32 7)
      (NewObfsConfig (\<lambda>_. 1) ''video'') (NewObfsState (\<lambda>_. 2))
      (map (\<lambda>(p, rs). Some (p, rs, True)) [([1, 2], \<lambda>_. 5), ([3], \<lambda>_. 59)]) in
    relay_reader (\<lambda>_. Some toy_aead) Map.empty (replicate 32 7) (map (\<lambda>w. Some (w, True)) sent) =
      map fst [([1, 2], \<lambda>_ :: nat. 5 :: byte), ([3], \<lambda>_. 59)] \<and>
    (\<forall>w \<in> set sent. length w \<le> readBufSize + 80)"
  by (rule tunnel_lossless [where a = toy_aead and ps = "[([1, 2], \<lambda>_. 5), ([3], \<lambda>_. 59)]"])
    (simp_all add: aead_ok_def toy_aead_def overhead_def wrapKeyLen_def cache_ok_def)

text \<open>Property C7 (invariant). However the calls of \<open>RunSession\<close> end, every socket, client, relay, context,
  registered function, DTLS connection, handshake slot, connection count and dispatcher slot it takes
  is given back exactly once. The pipe between the relay and DTLS is closed by a session that ran,
  and is left open by every error after the relay is allocated. Requests are only sent over an
  established DTLS connection after the handshake slot is free again, and the proxy loops run exactly
  when the session returns without an error, with everything but that slot held.\<close>

theorem session_gives_back_its_resources:
  "case RunSession tp getConfig configCh localPort turnAddr deviceID password net of
     (acts, (delivered, err), cc) \<Rightarrow>
       run_trace (\<lambda>_. False) acts =
         Some (\<lambda>r. r = PacketPipe \<and> Acquire PacketPipe \<in> set acts \<and> err \<noteq> None) \<and>
       (RunProxies \<in> set acts \<longleftrightarrow> err = None)"
  using RunSession_trace [of tp getConfig configCh localPort turnAddr deviceID password net]
    RunSession_result [of turnAddr tp getConfig net configCh localPort deviceID password]
  by (auto simp: trace_ok_def held_after_def result_ok_def fun_eq_iff split: prod.splits)

text \<open>Property C25 (error). What the worker loop may rely on: an error names the address the session was
  given, only a non-empty address is reported dead or timed out (so it can be banned), a WRAP timeout
  is only reported when WRAP is in use. A configuration counts as delivered only if one was asked for
  and the server answered with it; it then stands at the end of the configuration channel, or the
  channel was full and is unchanged. A session that was asked for the configuration and ends well
  without delivering it got no configuration from the server, or an error other than a rejection.\<close>

theorem session_result:
  "case RunSession tp getConfig configCh localPort turnAddr deviceID password net of
     (acts, (delivered, err), cc) \<Rightarrow>
       (\<forall>e. err = Some e \<longrightarrow> \<not> delivered \<and> se_address e = turnAddr \<and>
          (se_type e \<noteq> SessionErrorFatal \<longrightarrow> turnAddr \<noteq> []) \<and>
          (se_type e = SessionErrorWrapTimeout \<longrightarrow> length (tp_WrapKey tp) = wrapKeyLen)) \<and>
       (delivered \<longrightarrow> (\<exists>c conf. getConfig \<and> configCh = Some c \<and> RequestConfig (net_conn net) = Inr conf \<and>
          conf \<noteq> [] \<and> conf \<noteq> ''NOCONF'' \<and>
          cc = Some (case try_send c conf of Some c' \<Rightarrow> c' | None \<Rightarrow> c))) \<and>
       (\<not> delivered \<longrightarrow> cc = configCh) \<and>
       (err = None \<and> \<not> delivered \<and> getConfig \<and> configCh \<noteq> None \<longrightarrow>
          (case RequestConfig (net_conn net) of
             Inr conf \<Rightarrow> conf = [] | Inl e \<Rightarrow> \<not> contains ''FATAL_AUTH'' (error_text e)))"
  using RunSession_result [of turnAddr tp getConfig net configCh localPort deviceID password]
  by (auto simp: result_ok_def use_wrap_def go_chan.send_or_drop_def split: prod.splits)

definition dead_net :: session_net where
  "dead_net = \<lparr>net_resolve = Some NetTimeout, net_dial = None, net_client = None, net_listen = None,
     net_allocate = None, net_cert = None, net_sem = None, net_dtls_client = None,
     net_handshake = None,
     net_conn = \<lparr>res_write = None, res_deadline = None, res_read = Inr ''conf''\<rparr>\<rparr>"

definition no_wrap :: turn_params where
  "no_wrap = \<lparr>tp_Host = [], tp_Port = [], tp_Hashes = [''h''], tp_WrapKey = [], tp_ObfsMode = ''audio''\<rparr>"

text \<open>A session on a network where everything works, and one whose address does not resolve.\<close>

theorem session_result_witness:
  "(\<exists>acts cc. RunSession no_wrap True (Some \<lparr>cbuf = [], ccap = 1\<rparr>) ''1'' ''1.2.3.4:19302'' ''d'' ''p''
      (dead_net\<lparr>net_resolve := None\<rparr>) = (acts, (True, None), cc) \<and>
      cc = Some \<lparr>cbuf = [''conf''], ccap = 1\<rparr> \<and> RequestConfig (net_conn dead_net) = Inr ''conf'') \<and>
   (\<exists>acts e cc. RunSession no_wrap True None ''1'' ''1.2.3.4:19302'' ''d'' ''p'' dead_net =
      (acts, (False, Some e), cc) \<and> se_type e = SessionErrorAddressDead \<and>
      se_address e = ''1.2.3.4:19302'' \<and> cc = None)"
proof (intro conjI)
  have s: "SplitHostPort ''1.2.3.4:19302'' = Inr (''1.2.3.4'', ''19302'')"
    by code_simp
  obtain acts e cc where r: "RunSession no_wrap True None ''1'' ''1.2.3.4:19302'' ''d'' ''p'' dead_net =
      (acts, (False, Some e), cc)" and "se_type e = SessionErrorAddressDead"
    by (simp add: RunSession_def s dead_net_def no_wrap_def fail_def)
  moreover from session_result [where tp = no_wrap and getConfig = True and configCh = None and
      localPort = "''1''" and turnAddr = "''1.2.3.4:19302''" and deviceID = "''d''" and
      password = "''p''" and net = dead_net] r
  have "se_address e = ''1.2.3.4:19302''" "cc = None"
    by simp_all
  ultimately show "\<exists>acts e cc. RunSession no_wrap True None ''1'' ''1.2.3.4:19302'' ''d'' ''p'' dead_net =
      (acts, (False, Some e), cc) \<and> se_type e = SessionErrorAddressDead \<and> se_address e = ''1.2.3.4:19302'' \<and> cc = None"
    by blast
  let ?net = "dead_net\<lparr>net_resolve := None\<rparr>"
  have conf: "RequestConfig (net_conn ?net) = Inr ''conf''" "RequestConfig (net_conn dead_net) = Inr ''conf''"
    by code_simp+
  obtain acts cc where d: "RunSession no_wrap True (Some \<lparr>cbuf = [], ccap = 1\<rparr>) ''1'' ''1.2.3.4:19302'' ''d'' ''p'' ?net =
      (acts, (True, None), cc)"
    using conf by (simp add: RunSession_def s no_wrap_def session_turn_def session_allocate_def session_relay_def
        session_handshake_def session_serve_def session_auth_def use_wrap_def bracket_def first_do_def dead_net_def
        Let_def wrapKeyLen_def)
  with session_result [where tp = no_wrap and getConfig = True and configCh = "Some \<lparr>cbuf = [], ccap = 1\<rparr>" and
      localPort = "''1''" and turnAddr = "''1.2.3.4:19302''" and deviceID = "''d''" and
      password = "''p''" and net = ?net] conf
  have "cc = Some \<lparr>cbuf = [''conf''], ccap = 1\<rparr>"
    by (simp add: try_send_def)
  with d conf show "\<exists>acts cc. RunSession no_wrap True (Some \<lparr>cbuf = [], ccap = 1\<rparr>) ''1'' ''1.2.3.4:19302'' ''d'' ''p''
      ?net = (acts, (True, None), cc) \<and> cc = Some \<lparr>cbuf = [''conf''], ccap = 1\<rparr> \<and>
      RequestConfig (net_conn dead_net) = Inr ''conf''"
    by blast
qed

end
