(* ===== verification/Blacklist.thy ===== *)
theory Blacklist
  imports Prelude "HOL-Library.AList"
begin

text \<open>
  The global list of banned TURN addresses, \<open>core/blacklist.go\<close>. Times are integers (nanoseconds);
  the map is an association list with distinct keys. \<open>IsBanned\<close> reads the map under the read lock and
  deletes an expired entry under a second lock: its two steps are separate definitions, so that
  another goroutine may come in between.
\<close>

record turn_blacklist =
  bans :: "(string \<times> int) list"
  ttl :: int

definition NewTurnBlacklist :: "int \<Rightarrow> turn_blacklist" where
  "NewTurnBlacklist t = \<lparr>bans = [], ttl = t\<rparr>"

definition GlobalBlacklist :: turn_blacklist where
  "GlobalBlacklist = NewTurnBlacklist (5 * 60 * 1000000000)"

datatype ban_check = NotBanned | StillBanned | Expired

text \<open>Lines 28 to 37 and 44 of the read, lines 38 to 40 of the deletion.\<close>

definition isBanned_read :: "turn_blacklist \<Rightarrow> int \<Rightarrow> string \<Rightarrow> ban_check" where
  "isBanned_read b now addr =
     (case map_of (bans b) addr of
        None \<Rightarrow> NotBanned
      | Some banUntil \<Rightarrow> if now > banUntil then Expired else StillBanned)"

definition isBanned_delete :: "turn_blacklist \<Rightarrow> string \<Rightarrow> turn_blacklist" where
  "isBanned_delete b addr = b\<lparr>bans := AList.delete addr (bans b)\<rparr>"

definition IsBanned :: "turn_blacklist \<Rightarrow> int \<Rightarrow> string \<Rightarrow> bool \<times> turn_blacklist" where
  "IsBanned b now addr =
     (case isBanned_read b now addr of
        NotBanned \<Rightarrow> (False, b)
      | Expired \<Rightarrow> (False, isBanned_delete b addr)
      | StillBanned \<Rightarrow> (True, b))"

definition Ban :: "turn_blacklist \<Rightarrow> int \<Rightarrow> string \<Rightarrow> turn_blacklist" where
  "Ban b now addr = b\<lparr>bans := AList.update addr (now + ttl b) (bans b)\<rparr>"

definition Clear :: "turn_blacklist \<Rightarrow> turn_blacklist" where
  "Clear b = b\<lparr>bans := []\<rparr>"

definition Len :: "turn_blacklist \<Rightarrow> nat" where
  "Len b = length (bans b)"

definition GetBanned :: "turn_blacklist \<Rightarrow> string list" where
  "GetBanned b = map fst (bans b)"

definition blacklist_ok :: "turn_blacklist \<Rightarrow> bool" where
  "blacklist_ok b \<longleftrightarrow> distinct (map fst (bans b))"

definition banned :: "turn_blacklist \<Rightarrow> int \<Rightarrow> string \<Rightarrow> bool" where
  "banned b now addr \<longleftrightarrow> isBanned_read b now addr = StillBanned"

lemma blacklist_ok_ops:
  "blacklist_ok (NewTurnBlacklist t)" "blacklist_ok (Clear b)"
  "blacklist_ok b \<Longrightarrow> blacklist_ok (Ban b now a)"
  "blacklist_ok b \<Longrightarrow> blacklist_ok (isBanned_delete b a)"
  "blacklist_ok b \<Longrightarrow> blacklist_ok (snd (IsBanned b now a))"
  by (simp_all add: blacklist_ok_def NewTurnBlacklist_def Clear_def Ban_def isBanned_delete_def
      IsBanned_def distinct_update distinct_delete split: ban_check.split)

section \<open>The interface\<close>

text \<open>What the worker loop relies on: a query tells the truth and changes no later answer, and a ban
  holds for its address until the time to live is over.\<close>

locale ban_list =
  fixes query :: "'b \<Rightarrow> int \<Rightarrow> 'a \<Rightarrow> bool \<times> 'b"
    and ban :: "'b \<Rightarrow> int \<Rightarrow> 'a \<Rightarrow> 'b"
    and is_banned :: "'b \<Rightarrow> int \<Rightarrow> 'a \<Rightarrow> bool"
    and lifetime :: "'b \<Rightarrow> int"
  assumes query_result: "fst (query b now a) = is_banned b now a"
    and query_frame: "now \<le> t \<Longrightarrow> is_banned (snd (query b now a)) t x = is_banned b t x"
    and query_lifetime: "lifetime (snd (query b now a)) = lifetime b"
    and ban_iff: "is_banned (ban b now a) t x \<longleftrightarrow>
      (if x = a then t \<le> now + lifetime b else is_banned b t x)"
    and ban_lifetime: "lifetime (ban b now a) = lifetime b"
begin

text \<open>The loop that keeps the addresses that are not banned.\<close>

fun keep_available :: "'b \<Rightarrow> int \<Rightarrow> 'a list \<Rightarrow> 'a list \<times> 'b" where
  "keep_available b now [] = ([], b)"
| "keep_available b now (u # us) =
     (let (r, b') = query b now u; (avail, b'') = keep_available b' now us
      in (if r then avail else u # avail, b''))"

lemma keep_available_filter: "fst (keep_available b now us) = filter (\<lambda>u. \<not> is_banned b now u) us"
proof (induction us arbitrary: b)
  case (Cons u us)
  then show ?case
    using query_result [of b now u] query_frame [of now now b u]
    by (simp add: Let_def case_prod_beta)
qed simp

lemma keep_available_frame: "now \<le> t \<Longrightarrow>
    is_banned (snd (keep_available b now us)) t x = is_banned b t x \<and>
    lifetime (snd (keep_available b now us)) = lifetime b"
proof (induction us arbitrary: b)
  case (Cons u us)
  then show ?case
    using query_frame [of now t b u x] query_lifetime [of b now u]
    by (simp add: Let_def case_prod_beta)
qed simp

lemma ban_refreshes: "0 \<le> lifetime b \<Longrightarrow> is_banned (ban b now a) now a"
  by (simp add: ban_iff)

end

lemma length_AList_update: "length (AList.update a v xs) =
    (if a \<in> set (map fst xs) then length xs else length xs + 1)"
  using arg_cong [OF update_keys [of a v xs], of length] by simp

lemma map_of_delete: "map_of (AList.delete a xs) = (map_of xs)(a := None)"
  by (simp add: delete_conv')

interpretation bl: ban_list IsBanned Ban banned ttl
proof
  show "banned (Ban b now a) t x \<longleftrightarrow> (if x = a then t \<le> now + ttl b else banned b t x)" for b now a t x
    by (simp add: banned_def isBanned_read_def Ban_def update_conv')
  show "now \<le> t \<Longrightarrow> banned (snd (IsBanned b now a)) t x = banned b t x" for now t b a x
    by (cases "isBanned_read b now a")
      (auto simp: banned_def IsBanned_def isBanned_read_def isBanned_delete_def map_of_delete
        split: option.splits if_splits)
qed (simp_all add: banned_def IsBanned_def isBanned_delete_def Ban_def split: ban_check.split)

section \<open>Properties\<close>

text \<open>Called one after the other, the operations of the blacklist keep their
  promise: a banned address stays banned exactly until its time to live is over, a new ban extends
  it, no operation changes what is known of other addresses, an expired entry is dropped by the
  query that notices it, and the map never holds an address twice.\<close>

theorem blacklist_contract:
  assumes "blacklist_ok b"
  shows "fst (IsBanned (Ban b now a) t x) = (if x = a then t \<le> now + ttl b else fst (IsBanned b t x)) \<and>
    (now \<le> t \<longrightarrow> fst (IsBanned (snd (IsBanned b now a)) t x) = fst (IsBanned b t x)) \<and>
    (isBanned_read b now a = Expired \<longrightarrow> a \<notin> set (GetBanned (snd (IsBanned b now a)))) \<and>
    a \<in> set (GetBanned (Ban b now a)) \<and> distinct (GetBanned (Ban b now a)) \<and>
    Len (Ban b now a) = (if a \<in> set (GetBanned b) then Len b else Len b + 1) \<and>
    Len (Clear b) = 0 \<and> \<not> fst (IsBanned (Clear b) t x)"
proof (intro conjI impI)
  show "distinct (GetBanned (Ban b now a))"
    using blacklist_ok_ops(3) [OF assms, of now a] by (simp add: GetBanned_def blacklist_ok_def)
  show "isBanned_read b now a = Expired \<Longrightarrow> a \<notin> set (GetBanned (snd (IsBanned b now a)))"
    by (simp add: IsBanned_def isBanned_delete_def GetBanned_def delete_keys)
  show "\<not> fst (IsBanned (Clear b) t x)"
    by (simp add: IsBanned_def isBanned_read_def Clear_def)
  show "fst (IsBanned (Ban b now a) t x) = (if x = a then t \<le> now + ttl b else fst (IsBanned b t x))"
    by (simp add: bl.query_result bl.ban_iff)
  show "now \<le> t \<Longrightarrow> fst (IsBanned (snd (IsBanned b now a)) t x) = fst (IsBanned b t x)"
    by (simp add: bl.query_result bl.query_frame)
qed (simp_all add: Ban_def GetBanned_def Len_def Clear_def update_keys length_AList_update)

definition one_ban :: turn_blacklist where
  "one_ban = Ban (NewTurnBlacklist 300) 1000 ''t1''"

theorem blacklist_contract_witness:
  "fst (IsBanned (Ban one_ban 1100 ''t2'') 1400 ''t2'') \<and>
   \<not> fst (IsBanned (Ban one_ban 1100 ''t2'') 1401 ''t2'') \<and>
   fst (IsBanned (Ban one_ban 1100 ''t2'') 1300 ''t1'') \<and>
   Len (Ban one_ban 1100 ''t2'') = 2"
proof -
  have ok: "blacklist_ok one_ban"
    unfolding one_ban_def by (intro blacklist_ok_ops)
  have t: "ttl one_ban = 300" "Len one_ban = 1" "''t2'' \<notin> set (GetBanned one_ban)"
    "fst (IsBanned one_ban 1300 ''t1'')"
    by (simp_all add: one_ban_def Ban_def NewTurnBlacklist_def Len_def GetBanned_def IsBanned_def
        isBanned_read_def)
  show ?thesis
    using blacklist_contract [OF ok, of 1100 "''t2''" 1400 "''t2''"]
      blacklist_contract [OF ok, of 1100 "''t2''" 1401 "''t2''"]
      blacklist_contract [OF ok, of 1100 "''t2''" 1300 "''t1''"] t by simp
qed

text \<open>Called concurrently they do not: the deletion of \<open>IsBanned\<close> is not guarded by a second look at
  the entry, so a ban that another goroutine renews between the two locks is lost at once.\<close>

lemma renewed_ban_lost:
  "let b0 = Ban (NewTurnBlacklist 300) 0 ''t1'';
       seen = isBanned_read b0 301 ''t1'';
       b1 = Ban b0 301 ''t1'';
       b2 = (if seen = Expired then isBanned_delete b1 ''t1'' else b1)
   in banned b1 301 ''t1'' \<and> \<not> banned b2 301 ''t1''"
  by (simp add: Ban_def NewTurnBlacklist_def isBanned_read_def isBanned_delete_def banned_def
      AList.delete_eq)

end
