(* ===== verification/WorkerGroup.thy ===== *)
theory WorkerGroup
  imports Session Blacklist Dedup
begin

text \<open>
  A group of workers that share one set of VK credentials, \<open>core/worker_group.go\<close>: reading the call
  hashes from the profile, the start of the group, the start delays, one iteration of a worker's
  loop (which address it takes, who asks for the configuration, what it does with the error of
  \<open>RunSession\<close>) and the interleaving of the workers of a group as a step relation.
\<close>

section \<open>Call hashes\<close>

text \<open>The end of a link: up to a query, fragment or path, trimmed (lines 438 to 441).\<close>

definition hash_tail :: "string \<Rightarrow> string" where
  "hash_tail s = trim_set ''/'' (trim_space (takeWhile (\<lambda>c. c \<notin> set ''?#/'') s))"

definition quote_cutset :: string where
  "quote_cutset = [CHR ''<'', CHR ''>'', CHR 0x22, CHR 0x27]"

text \<open>
  The position of the marker is found in the lower-case text and used in the original one. Lower
  case can be longer (U+023A and U+023E, invalid bytes), so \<open>s[idx+len(marker):]\<close> can start behind
  the end of \<open>s\<close>: that slice panics, which is the result \<open>None\<close>.
\<close>

definition normalizeVKJoinHash :: "string \<Rightarrow> string option" where
  "normalizeVKJoinHash input =
     (let s = trim_set quote_cutset (trim_space input) in
      if s = [] then Some []
      else
        let lower = to_lower s in
        (case str_index ''/call/join/'' lower of
           Some idx \<Rightarrow> map_option hash_tail (slice_from (idx + length ''/call/join/'') s)
         | None \<Rightarrow>
             if has_prefix ''http://'' lower \<or> has_prefix ''https://'' lower then Some []
             else Some (hash_tail s)))"

definition hash_separator :: "char \<Rightarrow> bool" where
  "hash_separator r \<longleftrightarrow> r \<in> {CHR '','', CHR '';'', CHR 0x0A, CHR 0x0D, CHR 0x09, CHR '' ''}"

definition hash_or_skip :: "string \<Rightarrow> string option" where
  "hash_or_skip h =
     (case normalizeVKJoinHash h of
        Some h \<Rightarrow> if h \<noteq> [] then Some h else None
      | None \<Rightarrow> None)"

definition ParseHashes :: "string \<Rightarrow> string list option" where
  "ParseHashes raw =
     (let fs = fields_func hash_separator raw in
      if list_all (\<lambda>h. normalizeVKJoinHash h \<noteq> None) fs
      then Some (unique_loop hash_or_skip [] [] fs)
      else None)"

interpretation hashes: first_seen hash_or_skip "unique_loop hash_or_skip [] []"
  by (rule first_seen_unique_loop)

section \<open>Addresses and modes\<close>

definition selectTurnAddress :: "string list \<Rightarrow> int \<Rightarrow> string" where
  "selectTurnAddress available workerID =
     (if available = [] then []
      else let w = (if workerID < 1 then 1 else workerID)
           in available ! nat ((w - 1) mod int (length available)))"

definition nextObfsMode :: "string \<Rightarrow> string" where
  "nextObfsMode mode = (if mode = ''audio'' then ''video'' else ''audio'')"

definition turnParamsForWorker :: "turn_params \<Rightarrow> string \<Rightarrow> turn_params" where
  "turnParamsForWorker tp obfsMode = tp\<lparr>tp_ObfsMode := obfsMode\<rparr>"

text \<open>Start delays in milliseconds (lines 181 to 190).\<close>

definition firstBatchSize :: nat where
  "firstBatchSize = 5"

definition start_delay :: "nat \<Rightarrow> nat" where
  "start_delay idx =
     (if idx < firstBatchSize then idx * 200
      else firstBatchSize * 200 + 5000 + (idx - firstBatchSize) * 200)"

section \<open>Starting a group\<close>

text \<open>The TURN addresses for the exclude routes (lines 124 to 151); \<open>lookup\<close> is \<open>net.LookupIP\<close>.\<close>

definition turn_url_ips :: "(string \<Rightarrow> string list option) \<Rightarrow> string \<Rightarrow> string \<Rightarrow> string list" where
  "turn_url_ips lookup tpHost url =
     (let host = (case SplitHostPort url of Inl e \<Rightarrow> url | Inr (h, p) \<Rightarrow> h);
          host = (if tpHost \<noteq> [] then tpHost else host)
      in case lookup host of None \<Rightarrow> [host] | Some ips \<Rightarrow> ips)"

definition turn_ips :: "(string \<Rightarrow> string list option) \<Rightarrow> string \<Rightarrow> string list \<Rightarrow> string list" where
  "turn_ips lookup tpHost urls =
     unique_loop Some [] [] (concat (map (turn_url_ips lookup tpHost) urls))"

interpretation turn_routes: first_seen Some "unique_loop Some [] []"
  by (rule first_seen_unique_loop)

datatype group_action =
    GProgress string string | GError ui_message | StopCore | SendTurnIPs "string list"

datatype group_start = Quit | Credentials string string "string list"

text \<open>Lines 58 to 156. \<open>creds\<close> is the result of \<open>GetCreds\<close>, \<open>ctx_done\<close> the state of the context after
  a failure, \<open>has_core\<close> whether a core is active; the pause loop and the wait for the previous
  group are over when \<open>go\<close> holds (else the context ended first).\<close>

definition group_begin ::
  "bool \<Rightarrow> int \<Rightarrow> nat \<Rightarrow> turn_params \<Rightarrow> (string \<Rightarrow> int \<Rightarrow> goerr + string \<times> string \<times> string list) \<Rightarrow>
   bool \<Rightarrow> bool \<Rightarrow> (string \<Rightarrow> string list option) \<Rightarrow> bool \<Rightarrow> group_action list \<times> group_start" where
  "group_begin go groupID hashIndex tp getCreds ctx_done has_core lookup has_ch =
     (if \<not> go then ([], Quit)
      else
        let hash = tp_Hashes tp ! (hashIndex mod length (tp_Hashes tp));
            started = (if groupID = 1 then [GProgress ''vk'' ''running''] else [])
        in case getCreds hash (groupID * 100) of
             Inl err \<Rightarrow>
               if ctx_done \<or> is_canceled err then (started, Quit)
               else
                 (let kind = classify_error err;
                      message = vkAuthUIFailureMessage (Some err)
                  in (started @
                      (if groupID = 1 then
                         (if kind = vkAuthDNSTimeout \<or> kind = vkAuthDNSLookup
                          then [GProgress ''dns'' ''error''] else []) @
                         [GProgress ''vk'' ''error''] @
                         (if has_core then [GError message, StopCore] else [])
                       else []), Quit))
           | Inr (user, pass, urls) \<Rightarrow>
               (started @
                (if groupID = 1 then [GProgress ''vk'' ''success'', GProgress ''turn'' ''running''] else []) @
                (if groupID = 1 \<and> has_ch \<and> urls \<noteq> [] then [SendTurnIPs (turn_ips lookup (tp_Host tp) urls)]
                 else []),
                Credentials user pass urls))"

section \<open>One iteration of a worker\<close>

definition maxAttemptsPerAddress :: nat where
  "maxAttemptsPerAddress = 3"

record worker =
  w_id :: int
  addressAttempts :: nat
  currentTurnAddr :: string
  workerObfsMode :: string

definition new_worker :: "int \<Rightarrow> string \<Rightarrow> worker" where
  "new_worker wid baseObfsMode =
     \<lparr>w_id = wid, addressAttempts = 0, currentTurnAddr = [], workerObfsMode = baseObfsMode\<rparr>"

text \<open>The filter over the blacklist (lines 237 to 242).\<close>

fun available_addresses :: "turn_blacklist \<Rightarrow> int \<Rightarrow> string list \<Rightarrow> string list \<times> turn_blacklist" where
  "available_addresses b now [] = ([], b)"
| "available_addresses b now (u # us) =
     (let (r, b') = IsBanned b now u; (avail, b'') = available_addresses b' now us
      in (if \<not> r then u # avail else avail, b''))"

datatype choice = NoUrls | AllBanned | Use string

text \<open>Lines 222 to 260: choose an address; a new address resets the attempts and the mode.\<close>

definition choose_address ::
  "string \<Rightarrow> string list \<Rightarrow> turn_blacklist \<Rightarrow> int \<Rightarrow> worker \<Rightarrow> choice \<times> worker \<times> turn_blacklist" where
  "choose_address baseObfsMode urls b now w =
     (if urls = [] then (NoUrls, w, b)
      else let (avail, b') = available_addresses b now urls in
        if avail = [] then (AllBanned, w, b')
        else let turnAddr = selectTurnAddress avail (w_id w) in
          (Use turnAddr,
           if turnAddr \<noteq> currentTurnAddr w
           then w\<lparr>currentTurnAddr := turnAddr, addressAttempts := 0, workerObfsMode := baseObfsMode\<rparr>
           else w, b'))"

datatype verdict = Continue | Exit

text \<open>Lines 290 to 371: what follows a session. \<open>ctx_done\<close> is the state of the context.\<close>

definition after_session ::
  "string \<Rightarrow> bool \<Rightarrow> int \<Rightarrow> session_error option \<Rightarrow> worker \<Rightarrow> turn_blacklist \<Rightarrow>
   verdict \<times> worker \<times> turn_blacklist" where
  "after_session baseObfsMode ctx_done now sessErr w b =
     (case sessErr of
        None \<Rightarrow>
          (if ctx_done then Exit else Continue,
           w\<lparr>addressAttempts := 0, workerObfsMode := baseObfsMode\<rparr>, b)
      | Some e \<Rightarrow>
          if ctx_done then (Exit, w, b)
          else case se_type e of
            SessionErrorAddressDead \<Rightarrow>
              (Continue, w, if se_address e \<noteq> [] then Ban b now (se_address e) else b)
          | SessionErrorWrapTimeout \<Rightarrow>
              (let w = w\<lparr>workerObfsMode := nextObfsMode (workerObfsMode w),
                         addressAttempts := addressAttempts w + 1\<rparr>
               in if addressAttempts w \<ge> maxAttemptsPerAddress
                  then (Continue, w\<lparr>addressAttempts := 0\<rparr>,
                        if se_address e \<noteq> [] then Ban b now (se_address e) else b)
                  else (Continue, w, b))
          | SessionErrorFatal \<Rightarrow> (Exit, w, b))"

section \<open>The workers of a group\<close>

text \<open>
  The shared flags of a group are \<open>configSent\<close> and \<open>configRequestInFlight\<close>. A worker first reads
  \<open>configSent\<close> (line 263), then tries the compare-and-swap (line 264), runs its session and stores
  one of the flags (lines 282 to 288); each of these is one step, in any order between the workers.
\<close>

datatype phase = Idle | Chosen string bool | Running string bool | Gone

record group =
  configSent :: bool
  inFlight :: bool
  gbans :: turn_blacklist
  wstate :: "nat \<Rightarrow> worker"
  wphase :: "nat \<Rightarrow> phase"
  delivered_configs :: nat

definition group_init :: "bool \<Rightarrow> string \<Rightarrow> (nat \<Rightarrow> int) \<Rightarrow> turn_blacklist \<Rightarrow> group" where
  "group_init getConfig baseObfsMode ids b =
     \<lparr>configSent = \<not> getConfig, inFlight = False, gbans = b,
      wstate = (\<lambda>i. new_worker (ids i) baseObfsMode), wphase = (\<lambda>_. Idle), delivered_configs = 0\<rparr>"

inductive group_step :: "bool \<Rightarrow> string \<Rightarrow> string list \<Rightarrow> group \<Rightarrow> group \<Rightarrow> bool"
  for getConfig baseObfsMode urls where
  choose: "\<lbrakk> wphase g i = Idle;
      choose_address baseObfsMode urls (gbans g) now (wstate g i) = (Use addr, w, b) \<rbrakk> \<Longrightarrow>
    group_step getConfig baseObfsMode urls g
      (g\<lparr>gbans := b, wstate := (wstate g)(i := w),
         wphase := (wphase g)(i := Chosen addr (getConfig \<and> \<not> configSent g))\<rparr>)"
| wait: "\<lbrakk> wphase g i = Idle;
      choose_address baseObfsMode urls (gbans g) now (wstate g i) = (c, w, b); c \<in> {NoUrls, AllBanned} \<rbrakk> \<Longrightarrow>
    group_step getConfig baseObfsMode urls g (g\<lparr>gbans := b, wstate := (wstate g)(i := w)\<rparr>)"
| start: "\<lbrakk> wphase g i = Chosen addr want; getConf = (want \<and> \<not> inFlight g) \<rbrakk> \<Longrightarrow>
    group_step getConfig baseObfsMode urls g
      (g\<lparr>inFlight := inFlight g \<or> getConf, wphase := (wphase g)(i := Running addr getConf)\<rparr>)"
| finish: "\<lbrakk> wphase g i = Running addr getConf; delivered \<Longrightarrow> sessErr = None \<and> getConf;
      after_session baseObfsMode ctx_done now sessErr (wstate g i) (gbans g) = (v, w, b) \<rbrakk> \<Longrightarrow>
    group_step getConfig baseObfsMode urls g
      (g\<lparr>configSent := configSent g \<or> getConf \<and> delivered,
         inFlight := inFlight g \<and> \<not> (getConf \<and> \<not> delivered),
         gbans := b, wstate := (wstate g)(i := w),
         wphase := (wphase g)(i := (if v = Exit then Gone else Idle)),
         delivered_configs := delivered_configs g + (if delivered then 1 else 0)\<rparr>)"

inductive_cases group_stepE: "group_step getConfig baseObfsMode urls g g'"

abbreviation group_reachable :: "bool \<Rightarrow> string \<Rightarrow> string list \<Rightarrow> group \<Rightarrow> group \<Rightarrow> bool" where
  "group_reachable getConfig baseObfsMode urls \<equiv> (group_step getConfig baseObfsMode urls)\<^sup>*\<^sup>*"

section \<open>Hashes: lemmas\<close>

lemma set_fields_func: "t \<in> set (fields_func p s) \<Longrightarrow> t \<noteq> [] \<and> (\<forall>c \<in> set t. \<not> p c)"
  by (auto simp: fields_func_def dest: split_by_no_sep)

lemma set_fields_func_subset: "f \<in> set (fields_func p s) \<Longrightarrow> set f \<subseteq> set s"
  using split_by_elems by (auto simp: fields_func_def)

lemma hash_tail_chars: "set (hash_tail x) \<subseteq> set x - set ''?#/''"
proof -
  have "set (trim_set ''/'' (trim_space z)) \<subseteq> set z" for z
    using set_trim_set [of "''/''" "trim_space z"] set_trim_space [of z] by blast
  moreover have "set (takeWhile (\<lambda>c. c \<notin> set ''?#/'') x) \<subseteq> set x - set ''?#/''"
    by (auto dest: set_takeWhileD)
  ultimately show ?thesis
    unfolding hash_tail_def by blast
qed

lemma normalizeVKJoinHash_tail:
  "normalizeVKJoinHash s = Some h \<Longrightarrow>
    h = [] \<or> (\<exists>n. h = hash_tail (drop n (trim_set quote_cutset (trim_space s))))"
  unfolding normalizeVKJoinHash_def slice_from_def Let_def
  by (auto split: if_splits option.splits intro: exI [of _ 0])

lemma normalizeVKJoinHash_chars:
  "normalizeVKJoinHash s = Some h \<Longrightarrow> set h \<subseteq> set s - set ''?#/''"
proof -
  assume "normalizeVKJoinHash s = Some h"
  from normalizeVKJoinHash_tail [OF this] show ?thesis
  proof
    assume "\<exists>n. h = hash_tail (drop n (trim_set quote_cutset (trim_space s)))"
    then obtain n where n: "h = hash_tail (drop n (trim_set quote_cutset (trim_space s)))" ..
    have "set (drop n (trim_set quote_cutset (trim_space s))) \<subseteq> set s"
      by (intro order_trans [OF set_drop_subset] order_trans [OF set_trim_set] set_trim_space)
    then show ?thesis
      unfolding n by (intro order_trans [OF hash_tail_chars] Diff_mono) auto
  qed simp
qed

text \<open>An ASCII text keeps its length in lower case, so its slices stay inside.\<close>

lemma normalizeVKJoinHash_ascii:
  assumes "\<forall>c \<in> set s. bval c < 128"
  shows "normalizeVKJoinHash s \<noteq> None"
proof -
  define t where "t = trim_set quote_cutset (trim_space s)"
  have "set t \<subseteq> set s"
    unfolding t_def by (intro order_trans [OF set_trim_set] set_trim_space)
  then have "to_lower t = map ascii_lower t"
    using to_lower_ascii_append [of t "[]"] assms by auto
  moreover have "i + length p \<le> length u" if "str_index p u = Some i" for i p and u :: string
    using str_index_Some [OF that] by auto
  ultimately have "i + 11 \<le> length t" if "str_index ''/call/join/'' (to_lower t) = Some i" for i
    using that by fastforce
  then show ?thesis
    unfolding normalizeVKJoinHash_def t_def [symmetric]
    by (auto simp: slice_from_def Let_def split: option.splits)
qed

definition token :: "string \<Rightarrow> bool" where
  "token h \<longleftrightarrow> h \<noteq> [] \<and> (\<forall>c \<in> set h. is_graph c \<and> c \<notin> set ''<>?#/,;'' \<and> c \<noteq> CHR 0x22 \<and> c \<noteq> CHR 0x27)"

lemma token_clean:
  assumes "token h"
  shows "\<forall>c \<in> set h. is_graph c \<and> bval c < 128 \<and> \<not> hash_separator c"
    and "set h \<inter> set quote_cutset = {}" and "set h \<inter> set ''/'' = {}" and "h \<noteq> []"
    and "takeWhile (\<lambda>c. c \<notin> set ''?#/'') (h @ t) =
      h @ takeWhile (\<lambda>c. c \<notin> set ''?#/'') t"
proof -
  have "\<not> hash_separator c" if "is_graph c" "c \<noteq> CHR '',''" "c \<noteq> CHR '';''" for c
    using that by (auto simp: hash_separator_def is_graph_def)
  then show "\<forall>c \<in> set h. is_graph c \<and> bval c < 128 \<and> \<not> hash_separator c"
    using assms by (fastforce simp: token_def is_graph_def)
  show "set h \<inter> set quote_cutset = {}" "set h \<inter> set ''/'' = {}" "h \<noteq> []"
    using assms by (auto simp: token_def quote_cutset_def)
  show "takeWhile (\<lambda>c. c \<notin> set ''?#/'') (h @ t) = h @ takeWhile (\<lambda>c. c \<notin> set ''?#/'') t"
    using assms by (intro takeWhile_append2) (auto simp: token_def)
qed

lemma hash_tail_token:
  assumes "token h" and "t = [] \<or> hd t \<in> set ''?#/''"
  shows "hash_tail (h @ t) = h"
proof -
  have "takeWhile (\<lambda>c. c \<notin> set ''?#/'') t = []"
    using assms(2) by (cases t) auto
  then have "takeWhile (\<lambda>c. c \<notin> set ''?#/'') (h @ t) = h"
    using token_clean(5) [OF assms(1), of t] by simp
  then show ?thesis
    using trim_set_graph_space [of h "''/''"] token_clean [OF assms(1)] by (simp add: hash_tail_def)
qed

lemma no_slash_no_link: "CHR ''/'' \<notin> set s \<Longrightarrow> str_index ''/call/join/'' s = None \<and>
    \<not> has_prefix ''http://'' s \<and> \<not> has_prefix ''https://'' s"
proof -
  assume a: "CHR ''/'' \<notin> set s"
  have "\<not> contains ''/call/join/'' s"
    using a by (auto simp: contains_iff)
  then show ?thesis
    using a by (auto simp: contains_def has_prefix_iff)
qed

lemma normalizeVKJoinHash_token: "token h \<Longrightarrow> normalizeVKJoinHash h = Some h"
proof -
  assume t: "token h"
  have s: "trim_set quote_cutset (trim_space h) = h"
    using trim_set_graph_space [of h quote_cutset] token_clean [OF t] by simp
  have "to_lower h = map ascii_lower h"
    using to_lower_ascii_append [of h "[]"] token_clean(1) [OF t] by simp
  moreover have "ascii_lower c \<noteq> CHR ''/''" if "c \<in> set h" for c
  proof
    assume "ascii_lower c = CHR ''/''"
    then have "bval (ascii_lower c) = 47"
      by simp
    then have "bval c = bval (CHR ''/'')"
      by (simp add: bval_ascii_lower split: if_splits)
    from bval_eqD [OF this] show False
      using token_clean(3) [OF t] that by auto
  qed
  ultimately have "CHR ''/'' \<notin> set (to_lower h)"
    by (metis (no_types, lifting) image_iff list.set_map)
  from no_slash_no_link [OF this] show ?thesis
    using token_clean(4) [OF t] hash_tail_token [OF t, of "[]"]
    by (simp add: normalizeVKJoinHash_def s)
qed

lemma hashes_of_join:
  assumes "\<forall>h \<in> set hs. token h" and "distinct hs"
  shows "ParseHashes (join '','' hs) = Some hs"
proof (cases "hs = []")
  case False
  have "split_by hash_separator (join '','' hs) = hs"
    using False assms(1) token_clean(1)
    by (intro split_by_join) (auto simp: hash_separator_def)
  then have f: "fields_func hash_separator (join '','' hs) = hs"
    using assms(1) token_clean(4) by (auto simp: fields_func_def filter_id_conv)
  have "unique_loop hash_or_skip [] [] hs = hs"
    using assms
  proof (induction hs rule: rev_induct)
    case (snoc h hs)
    then have "hash_or_skip h = Some h"
      using normalizeVKJoinHash_token [of h] token_clean(4) [of h] by (simp add: hash_or_skip_def)
    with snoc show ?case
      by (simp add: hashes.filt_snoc)
  qed simp
  moreover have "list_all (\<lambda>h. normalizeVKJoinHash h \<noteq> None) hs"
    using assms(1) normalizeVKJoinHash_token by (auto simp: list_all_iff)
  ultimately show ?thesis
    by (simp add: ParseHashes_def f)
qed (simp add: ParseHashes_def fields_func_def)

text \<open>A join link: host, path and then the hash.\<close>

lemma link_index:
  "str_index ''/call/join/'' (''https://vk.com/call/join/'' @ s) = Some 14"
  by (simp add: has_prefix_def)

lemma normalizeVKJoinHash_link:
  assumes t: "token h" and r: "t = [] \<or> hd t \<in> set ''?#/'' \<and> is_graph (last t) \<and> last t \<notin> set quote_cutset"
  shows "normalizeVKJoinHash (''https://vk.com/call/join/'' @ h @ t) = Some h"
proof -
  define s where "s = ''https://vk.com/call/join/'' @ h @ t"
  have h: "h \<noteq> []" and gh: "is_graph (last h) \<and> last h \<notin> set quote_cutset"
    using token_clean(1,2,4) [OF t] by (auto dest: last_in_set)
  have "last s = last (h @ t)" "hd s = CHR ''h''" "s \<noteq> []"
    using h by (simp_all add: s_def)
  moreover have "is_graph (last (h @ t)) \<and> last (h @ t) \<notin> set quote_cutset"
    using r gh h by (cases "t = []") auto
  moreover have "is_graph (CHR ''h'')" "CHR ''h'' \<notin> set quote_cutset"
    by (simp_all add: is_graph_def quote_cutset_def)
  ultimately have s: "trim_set quote_cutset (trim_space s) = s"
    by (simp add: trim_space_graph trim_set_id)
  have "to_lower s = map ascii_lower ''https://vk.com/call/join/'' @ to_lower (h @ t)"
    unfolding s_def by (rule to_lower_ascii_append) simp
  also have "map ascii_lower ''https://vk.com/call/join/'' = ''https://vk.com/call/join/''"
    by (simp add: ascii_lower_def)
  finally have "str_index ''/call/join/'' (to_lower s) = Some 14"
    by (simp only: link_index)
  moreover have "slice_from 25 s = Some (h @ t)"
    by (simp add: s_def slice_from_def)
  ultimately show ?thesis
    unfolding normalizeVKJoinHash_def s_def [symmetric] s
    using \<open>s \<noteq> []\<close> hash_tail_token [OF t, of t] r by auto
qed

section \<open>Choosing an address: lemmas\<close>

lemma available_addresses_eq: "available_addresses b now us = bl.keep_available b now us"
  by (induction us arbitrary: b) (auto simp: Let_def split: prod.splits)

lemma fst_available: "fst (available_addresses b now us) = filter (\<lambda>u. \<not> banned b now u) us"
  by (simp add: available_addresses_eq bl.keep_available_filter)

lemma selectTurnAddress_in: "av \<noteq> [] \<Longrightarrow> selectTurnAddress av n \<in> set av"
proof -
  assume av: "av \<noteq> []"
  define w where "w = (if n < 1 then 1 else n)"
  have "nat ((w - 1) mod int (length av)) < length av"
    using av by (simp add: nat_less_iff)
  then show ?thesis
    using av by (simp add: selectTurnAddress_def w_def Let_def)
qed

lemma choose_address_use:
  assumes "choose_address base urls b now w = (Use a, w', b')"
  shows "a \<in> set urls" "\<not> banned b now a" "currentTurnAddr w' = a"
    "w' = (if a \<noteq> currentTurnAddr w
      then w\<lparr>currentTurnAddr := a, addressAttempts := 0, workerObfsMode := base\<rparr> else w)"
    "now \<le> t \<Longrightarrow> banned b' t x = banned b t x" "ttl b' = ttl b"
proof -
  obtain av b1 where av: "available_addresses b now urls = (av, b1)"
    by (cases "available_addresses b now urls")
  have ne: "av \<noteq> []" and a: "a = selectTurnAddress av (w_id w)" and b1: "b' = b1"
    and w: "w' = (if a \<noteq> currentTurnAddr w
      then w\<lparr>currentTurnAddr := a, addressAttempts := 0, workerObfsMode := base\<rparr> else w)"
    using assms av by (auto simp: choose_address_def Let_def split: if_splits)
  have "a \<in> set av"
    using selectTurnAddress_in [OF ne] a by simp
  then show "a \<in> set urls" "\<not> banned b now a"
    using fst_available [of b now urls] av by auto
  show "currentTurnAddr w' = a" "w' = (if a \<noteq> currentTurnAddr w
      then w\<lparr>currentTurnAddr := a, addressAttempts := 0, workerObfsMode := base\<rparr> else w)"
    using w by auto
  show "now \<le> t \<Longrightarrow> banned b' t x = banned b t x" "ttl b' = ttl b"
    using bl.keep_available_frame [of now t b urls x] bl.keep_available_frame [of now now b urls x]
    unfolding available_addresses_eq [symmetric] av b1 by simp_all
qed

section \<open>The configuration request: invariant\<close>

definition requesting :: "group \<Rightarrow> nat \<Rightarrow> bool" where
  "requesting g i \<longleftrightarrow> (\<exists>a. wphase g i = Running a True)"

definition group_inv :: "bool \<Rightarrow> group \<Rightarrow> bool" where
  "group_inv getConfig g \<longleftrightarrow>
     (\<forall>i j. requesting g i \<longrightarrow> requesting g j \<longrightarrow> i = j) \<and>
     (\<forall>i. requesting g i \<longrightarrow> inFlight g) \<and>
     (\<not> getConfig \<longrightarrow> configSent g \<and> delivered_configs g = 0 \<and>
        (\<forall>i a. wphase g i \<noteq> Chosen a True \<and> \<not> requesting g i)) \<and>
     (getConfig \<longrightarrow> (configSent g \<longleftrightarrow> delivered_configs g = 1)) \<and> delivered_configs g \<le> 1 \<and>
     (delivered_configs g = 1 \<longrightarrow> inFlight g \<and> (\<forall>i. \<not> requesting g i))"

lemma group_init_inv: "group_inv gc (group_init gc base ids b)"
  by (auto simp: group_inv_def group_init_def requesting_def)

lemma requesting_upd [simp]:
  "requesting (g\<lparr>gbans := b, wstate := ws\<rparr>) i = requesting g i"
  "requesting (g\<lparr>gbans := b, wstate := ws, wphase := (wphase g)(j := ph)\<rparr>) i =
     (if i = j then (\<exists>a. ph = Running a True) else requesting g i)"
  "requesting (g\<lparr>wphase := (wphase g)(j := ph)\<rparr>) i =
     (if i = j then (\<exists>a. ph = Running a True) else requesting g i)"
  "requesting (g\<lparr>inFlight := f, wphase := (wphase g)(j := ph)\<rparr>) i =
     (if i = j then (\<exists>a. ph = Running a True) else requesting g i)"
  "requesting (g\<lparr>configSent := cs, inFlight := f, gbans := b, wstate := ws,
       wphase := (wphase g)(j := ph), delivered_configs := d\<rparr>) i =
     (if i = j then (\<exists>a. ph = Running a True) else requesting g i)"
  by (simp_all add: requesting_def)

lemma group_step_inv:
  assumes "group_step gc base urls g g'" and "group_inv gc g"
  shows "group_inv gc g'"
  using assms
proof (cases rule: group_step.cases)
  case (choose i now addr w b)
  then show ?thesis
    using assms(2) by (auto simp: group_inv_def)
next
  case (wait i now c w b)
  then show ?thesis
    using assms(2) by (auto simp: group_inv_def)
next
  case (start i addr want getConf)
  have f: "\<And>k. requesting g' k \<longleftrightarrow> (if k = i then getConf else requesting g k)"
    "inFlight g' \<longleftrightarrow> inFlight g \<or> getConf" "configSent g' = configSent g"
    "delivered_configs g' = delivered_configs g"
    "\<And>k a. wphase g' k = Chosen a True \<Longrightarrow> wphase g k = Chosen a True"
    by (auto simp: start(1) split: if_splits)
  have c: "\<not> requesting g i" "getConf \<Longrightarrow> \<not> inFlight g" "getConf \<Longrightarrow> wphase g i = Chosen addr True"
    using start(2,3) by (auto simp: requesting_def)
  note inv = assms(2) [unfolded group_inv_def]
  show ?thesis
  proof (cases getConf)
    case True
    then have "gc" "delivered_configs g \<noteq> 1" "\<And>k. \<not> requesting g k"
      using inv c(2) [OF True] c(3) [OF True] by auto
    then show ?thesis
      using inv f True by (auto simp: group_inv_def)
  next
    case False
    then have "\<And>k. requesting g' k \<longleftrightarrow> requesting g k" "inFlight g' = inFlight g"
      using f c(1) by auto
    then show ?thesis
      using inv f(3-5) unfolding group_inv_def by metis
  qed
next
  case (finish i addr getConf delivered sessErr ctx_done now v w b)
  have r: "getConf \<longleftrightarrow> requesting g i" and d: "delivered \<Longrightarrow> getConf"
    using finish(2,3) by (auto simp: requesting_def)
  have f: "\<And>k. requesting g' k \<longleftrightarrow> k \<noteq> i \<and> requesting g k"
    "inFlight g' \<longleftrightarrow> inFlight g \<and> \<not> (getConf \<and> \<not> delivered)"
    "configSent g' \<longleftrightarrow> configSent g \<or> getConf \<and> delivered"
    "delivered_configs g' = delivered_configs g + (if delivered then 1 else 0)"
    "\<And>k a. wphase g' k = Chosen a True \<Longrightarrow> wphase g k = Chosen a True"
    by (auto simp: finish(1) split: if_splits)
  note inv = assms(2) [unfolded group_inv_def]
  show ?thesis
  proof (cases getConf)
    case True
    then have o: "gc" "delivered_configs g = 0" "\<not> configSent g" "\<And>k. \<not> requesting g' k" "inFlight g"
      using inv r f(1) by auto
    then show ?thesis
      using f(2-5) True unfolding group_inv_def by (cases delivered) auto
  next
    case False
    then have "\<And>k. requesting g' k \<longleftrightarrow> requesting g k" "inFlight g' = inFlight g"
      "configSent g' = configSent g" "delivered_configs g' = delivered_configs g"
      using f r d by auto
    then show ?thesis
      using inv f(5) unfolding group_inv_def by metis
  qed
qed

lemma group_reachable_inv:
  "group_reachable gc base urls (group_init gc base ids b) g \<Longrightarrow> group_inv gc g"
  by (induction rule: rtranclp_induct) (auto intro: group_init_inv group_step_inv)

section \<open>Timeouts: lemmas\<close>

definition wrap_timeout :: "string \<Rightarrow> session_error" where
  "wrap_timeout addr = \<lparr>se_type = SessionErrorWrapTimeout, se_address = addr, se_err = None\<rparr>"

text \<open>A worker whose sessions on \<open>addr\<close> end in WRAP timeouts at the given times.\<close>

fun timeouts :: "string \<Rightarrow> string \<Rightarrow> int list \<Rightarrow> worker \<Rightarrow> turn_blacklist \<Rightarrow> worker \<times> turn_blacklist" where
  "timeouts base addr [] w b = (w, b)"
| "timeouts base addr (t # ts) w b =
     (case after_session base False t (Some (wrap_timeout addr)) w b of
        (v, w', b') \<Rightarrow> timeouts base addr ts w' b')"

lemma timeouts_append: "timeouts base addr (ts @ [t]) w b =
    (case timeouts base addr ts w b of (w', b') \<Rightarrow>
       snd (after_session base False t (Some (wrap_timeout addr)) w' b'))"
  by (induction base addr ts w b rule: timeouts.induct) (auto split: prod.splits)

fun every_third :: "'a list \<Rightarrow> 'a list" where
  "every_third (a # b # c # ts) = c # every_third ts"
| "every_third ts = []"

lemma every_third_snoc:
  "every_third (ts @ [t]) = every_third ts @ (if length ts mod 3 = 2 then [t] else [])"
  by (induction ts rule: every_third.induct) simp_all

lemma timeouts_run:
  assumes "addr \<noteq> []" and "addressAttempts w = 0"
  shows "timeouts base addr ts w b =
    (w\<lparr>addressAttempts := length ts mod 3,
       workerObfsMode := (nextObfsMode ^^ length ts) (workerObfsMode w)\<rparr>,
     foldl (\<lambda>b t. Ban b t addr) b (every_third ts))"
proof (induction ts rule: rev_induct)
  case Nil
  then show ?case
    using assms(2) by simp
next
  case (snoc t ts)
  have m: "length ts mod 3 < 3"
    by simp
  have "Suc (length ts) mod 3 = (if length ts mod 3 = 2 then 0 else Suc (length ts mod 3))"
    by presburger
  then show ?case
    unfolding timeouts_append snoc using assms(1) m
    by (simp add: after_session_def wrap_timeout_def Let_def maxAttemptsPerAddress_def every_third_snoc)
qed

section \<open>Properties\<close>

text \<open>Property C9 (safety). Over every interleaving of the workers of a group (any number of them, any
  outcomes of their sessions, any times), at most one worker at a time asks the server for the
  WireGuard configuration, the group delivers it at most once, and once it is delivered no worker
  asks again; a group that is not to fetch the configuration never asks.\<close>

theorem config_requested_by_one_worker:
  assumes "(group_step getConfig base urls)\<^sup>*\<^sup>* (group_init getConfig base ids b) g"
    and "wphase g i = Running a True"
  shows "(\<forall>j a'. wphase g j = Running a' True \<longrightarrow> j = i) \<and> inFlight g \<and> getConfig \<and>
    delivered_configs g = 0 \<and> \<not> configSent g"
proof -
  have inv: "group_inv getConfig g" and r: "requesting g i"
    using group_reachable_inv [OF assms(1)] assms(2) by (auto simp: requesting_def)
  then have "getConfig" "inFlight g" "delivered_configs g \<noteq> 1" "delivered_configs g \<le> 1"
    "\<And>j. requesting g j \<Longrightarrow> j = i"
    by (auto simp: group_inv_def)
  then show ?thesis
    using inv by (auto simp: group_inv_def requesting_def)
qed

definition g0 :: group where
  "g0 = group_init True ''audio'' (\<lambda>i. int i + 1) (NewTurnBlacklist 300)"

theorem config_requested_by_one_worker_witness:
  "\<exists>g. (group_step True ''audio'' [''t1''])\<^sup>*\<^sup>* g0 g \<and> wphase g 0 = Running ''t1'' True \<and>
    inFlight g \<and> \<not> configSent g"
proof -
  have ch: "choose_address ''audio'' [''t1''] (NewTurnBlacklist 300) 0 (new_worker 1 ''audio'') =
      (Use ''t1'', (new_worker 1 ''audio'')\<lparr>currentTurnAddr := ''t1'', addressAttempts := 0,
        workerObfsMode := ''audio''\<rparr>, NewTurnBlacklist 300)"
    by (simp add: choose_address_def IsBanned_def isBanned_read_def NewTurnBlacklist_def
        selectTurnAddress_def new_worker_def Let_def)
  define g1 where "g1 = g0\<lparr>gbans := NewTurnBlacklist 300, wstate := (wstate g0)(0 :=
      (new_worker 1 ''audio'')\<lparr>currentTurnAddr := ''t1'', addressAttempts := 0, workerObfsMode := ''audio''\<rparr>),
      wphase := (wphase g0)(0 := Chosen ''t1'' (True \<and> \<not> configSent g0))\<rparr>"
  define g2 where "g2 = g1\<lparr>inFlight := inFlight g1 \<or> True,
      wphase := (wphase g1)(0 := Running ''t1'' True)\<rparr>"
  have "group_step True ''audio'' [''t1''] g0 g1"
    unfolding g1_def by (rule group_step.choose [where now = 0]) (simp_all add: g0_def group_init_def ch)
  moreover have "group_step True ''audio'' [''t1''] g1 g2"
    unfolding g2_def
    by (rule group_step.start [where want = True]) (simp_all add: g1_def g0_def group_init_def)
  ultimately have r: "(group_step True ''audio'' [''t1''])\<^sup>*\<^sup>* g0 g2"
    by simp
  have p: "wphase g2 0 = Running ''t1'' True"
    by (simp add: g2_def)
  from config_requested_by_one_worker [OF r [unfolded g0_def] p] show ?thesis
    using r p by blast
qed

text \<open>A worker whose sessions on one address end in WRAP timeouts changes its
  obfuscation mode every time, bans the address for the time to live at every third timeout and only
  then, and starts counting again after a ban; nothing else of its state changes.\<close>

theorem third_timeout_bans:
  assumes "addr \<noteq> []" and "addressAttempts w = 0"
  shows "timeouts base addr ts w b =
    (w\<lparr>addressAttempts := length ts mod 3,
       workerObfsMode := (nextObfsMode ^^ length ts) (workerObfsMode w)\<rparr>,
     foldl (\<lambda>b t. Ban b t addr) b (every_third ts))"
  by (rule timeouts_run [OF assms])

theorem third_timeout_bans_witness:
  "timeouts ''audio'' ''t1'' [10, 20, 30, 40] (new_worker 1 ''audio'') (NewTurnBlacklist 300) =
    ((new_worker 1 ''audio'')\<lparr>addressAttempts := 1, workerObfsMode := ''audio''\<rparr>,
     Ban (NewTurnBlacklist 300) 30 ''t1'')"
proof -
  have m: "(nextObfsMode ^^ 4) ''audio'' = ''audio''"
    by (simp add: nextObfsMode_def numeral_eq_Suc)
  have l: "length [10, 20, 30, 40 :: int] = 4" "(4 :: nat) mod 3 = 1" "every_third [10, 20, 30, 40 :: int] = [30]"
    by simp_all
  have w: "addressAttempts (new_worker 1 ''audio'') = 0" "workerObfsMode (new_worker 1 ''audio'') = ''audio''"
    "''t1'' \<noteq> []"
    by (simp_all add: new_worker_def)
  show ?thesis
    unfolding third_timeout_bans [OF w(3,1)] l m w(2) by simp
qed

text \<open>A worker only ever runs a session on an address of its credentials that is not
  banned at that moment; moving to another address restarts its attempts with the configured mode,
  staying keeps them, and looking at the blacklist lifts no ban that is still running.\<close>

theorem worker_avoids_banned_addresses:
  assumes "choose_address base urls b now w = (Use a, w', b')"
  shows "a \<in> set urls \<and> \<not> banned b now a \<and> currentTurnAddr w' = a \<and>
    (if a = currentTurnAddr w then w' = w
     else addressAttempts w' = 0 \<and> workerObfsMode w' = base) \<and>
    (now \<le> t \<longrightarrow> banned b' t x = banned b t x)"
  using choose_address_use [OF assms] by auto

theorem worker_avoids_banned_addresses_witness:
  "\<exists>w' b'. choose_address ''audio'' [''t1'', ''t2''] (Ban (NewTurnBlacklist 300) 0 ''t1'') 100
      (new_worker 1 ''audio'') = (Use ''t2'', w', b') \<and>
    \<not> banned (Ban (NewTurnBlacklist 300) 0 ''t1'') 100 ''t2'' \<and> banned b' 200 ''t1''"
proof -
  have c: "choose_address ''audio'' [''t1'', ''t2''] (Ban (NewTurnBlacklist 300) 0 ''t1'') 100
      (new_worker 1 ''audio'') = (Use ''t2'', (new_worker 1 ''audio'')\<lparr>currentTurnAddr := ''t2''\<rparr>,
        Ban (NewTurnBlacklist 300) 0 ''t1'')"
    by (simp add: choose_address_def IsBanned_def isBanned_read_def NewTurnBlacklist_def Ban_def
        selectTurnAddress_def new_worker_def Let_def)
  have "banned (Ban (NewTurnBlacklist 300) 0 ''t1'') 200 ''t1''"
    by (simp add: banned_def isBanned_read_def NewTurnBlacklist_def Ban_def)
  then show ?thesis
    using worker_avoids_banned_addresses [OF c, of 200 "''t1''"] c by auto
qed

text \<open>Property C39 (round trip). \<open>ParseHashes\<close> reads back what the profile stores: a comma-separated list of
  different call hashes gives exactly these hashes in their order, a join link with an optional
  query gives its hash, and on every ASCII input it returns, without a panic, a list with no duplicates,
  no empty hash, and no hash with a path, query, fragment or separator character.\<close>

theorem parse_hashes_roundtrip:
  assumes "\<forall>h \<in> set hs. token h" and "distinct hs"
    and "token h" and "q = [] \<or> hd q \<in> set ''?#/'' \<and> is_graph (last q) \<and> last q \<notin> set quote_cutset"
    and "\<forall>c \<in> set raw. bval c < 128"
  shows "ParseHashes (join '','' hs) = Some hs \<and>
    normalizeVKJoinHash (''https://vk.com/call/join/'' @ h @ q) = Some h \<and>
    (\<exists>xs. ParseHashes raw = Some xs \<and> distinct xs \<and>
      (\<forall>x \<in> set xs. x \<noteq> [] \<and> (\<forall>c \<in> set x. c \<notin> set ''?#/'' \<and> \<not> hash_separator c)))"
proof (intro conjI hashes_of_join normalizeVKJoinHash_link assms(1-4))
  have "list_all (\<lambda>h. normalizeVKJoinHash h \<noteq> None) (fields_func hash_separator raw)"
    using assms(5) normalizeVKJoinHash_ascii set_fields_func_subset
    by (fastforce simp: list_all_iff)
  then have P: "ParseHashes raw = Some (unique_loop hash_or_skip [] [] (fields_func hash_separator raw))"
    by (simp add: ParseHashes_def Let_def)
  have "x \<noteq> [] \<and> (\<forall>c \<in> set x. c \<notin> set ''?#/'' \<and> \<not> hash_separator c)"
    if x: "x \<in> set (unique_loop hash_or_skip [] [] (fields_func hash_separator raw))" for x
  proof -
    from x obtain f where f: "f \<in> set (fields_func hash_separator raw)" and h: "hash_or_skip f = Some x"
      unfolding hashes.set_filt by blast
    then have n: "normalizeVKJoinHash f = Some x" "x \<noteq> []"
      by (auto simp: hash_or_skip_def split: if_splits option.splits)
    then show ?thesis
      using normalizeVKJoinHash_chars [OF n(1)] set_fields_func [OF f] by blast
  qed
  with P show "\<exists>xs. ParseHashes raw = Some xs \<and> distinct xs \<and>
      (\<forall>x \<in> set xs. x \<noteq> [] \<and> (\<forall>c \<in> set x. c \<notin> set ''?#/'' \<and> \<not> hash_separator c))"
    using hashes.distinct_filt by auto
qed

theorem parse_hashes_roundtrip_witness:
  "ParseHashes (join '','' [''ab-1'', ''Cd_2'']) = Some [''ab-1'', ''Cd_2''] \<and>
    normalizeVKJoinHash (''https://vk.com/call/join/'' @ ''xyz'' @ ''?a=1'') = Some ''xyz''"
proof -
  have t: "token ''ab-1''" "token ''Cd_2''" "token ''xyz''"
    by (simp_all add: token_def is_graph_def)
  show ?thesis
    using parse_hashes_roundtrip [of "[''ab-1'', ''Cd_2'']" "''xyz''" "''?a=1''" "''ab''"] t
    by (simp add: is_graph_def quote_cutset_def)
qed

text \<open>The cut position is computed in the lower-case text but used in the original one. A capital dotted
  I (U+0130, two bytes, lower case one byte) before the path shifts it and the hash is lost; a capital
  A with a stroke (U+023A, two bytes, lower case three) before a link with no hash moves it behind the
  end of the text and the slice panics.\<close>

lemma dotted_capital_loses_hash:
  "normalizeVKJoinHash (utf8 [0xC4, 0xB0] @ ''/call/join/abc'') = Some []"
  "normalizeVKJoinHash (''i/call/join/abc'') = Some ''abc''"
  by code_simp+

lemma growing_lower_case_panics:
  "ParseHashes (utf8 [0xC8, 0xBA] @ ''/call/join/'') = None"
  by code_simp

end
