(* ===== verification/Url.thy ===== *)
theory Url
  imports Prelude
begin

text \<open>
  Form and query encoding: the client's own \<open>captchaV2QueryEscape\<close> and \<open>captchaV2EncodeForm\<close>
  (\<open>core/captcha_v2.go\<close>), which follow \<open>net/url\<close>, and what the code uses of \<open>net/url\<close> itself:
  \<open>QueryEscape\<close>, \<open>Values.Encode\<close> and \<open>URL.Query().Get\<close>. Texts are byte strings.
\<close>

section \<open>Escaping\<close>

definition unreserved :: "char \<Rightarrow> bool" where
  "unreserved c \<longleftrightarrow>
     (97 \<le> bval c \<and> bval c \<le> 122) \<or> (65 \<le> bval c \<and> bval c \<le> 90) \<or> (48 \<le> bval c \<and> bval c \<le> 57) \<or>
     c \<in> {CHR ''-'', CHR ''_'', CHR ''.'', CHR ''~''}"

definition hex_upper :: "nat \<Rightarrow> char" where
  "hex_upper d = (if d < 10 then char_of (48 + d) else char_of (55 + d))"

definition escape_char :: "char \<Rightarrow> string" where
  "escape_char c =
     (if c = CHR '' '' then ''+''
      else if unreserved c then [c]
      else [CHR ''%'', hex_upper (bval c div 16), hex_upper (bval c mod 16)])"

fun captchaV2QueryEscape :: "string \<Rightarrow> string" where
  "captchaV2QueryEscape [] = []"
| "captchaV2QueryEscape (c # s) = escape_char c @ captchaV2QueryEscape s"

text \<open>\<open>url.QueryEscape\<close> escapes the same characters in the same way.\<close>

abbreviation QueryEscape :: "string \<Rightarrow> string" where
  "QueryEscape \<equiv> captchaV2QueryEscape"

definition encode_pair :: "string \<times> string \<Rightarrow> string" where
  "encode_pair kv = captchaV2QueryEscape (fst kv) @ ''='' @ captchaV2QueryEscape (snd kv)"

definition captchaV2EncodeForm :: "(string \<times> string) list \<Rightarrow> string" where
  "captchaV2EncodeForm values = join ''&'' (map encode_pair values)"

section \<open>Reading it back\<close>

definition hex_value :: "char \<Rightarrow> nat option" where
  "hex_value c =
     (if 48 \<le> bval c \<and> bval c \<le> 57 then Some (bval c - 48)
      else if 65 \<le> bval c \<and> bval c \<le> 70 then Some (bval c - 55)
      else if 97 \<le> bval c \<and> bval c \<le> 102 then Some (bval c - 87) else None)"

fun QueryUnescape :: "string \<Rightarrow> string option" where
  "QueryUnescape [] = Some []"
| "QueryUnescape (c # s) =
     (if c = CHR ''%'' then
        (case s of
           a # b # s' \<Rightarrow>
             (case (hex_value a, hex_value b, QueryUnescape s') of
                (Some x, Some y, Some r) \<Rightarrow> Some (char_of (16 * x + y) # r)
              | _ \<Rightarrow> None)
         | _ \<Rightarrow> None)
      else map_option (Cons (if c = CHR ''+'' then CHR '' '' else c)) (QueryUnescape s))"

text \<open>One \<open>key=value\<close> part of a query; a part with a semicolon or a bad escape is dropped.\<close>

definition parse_pair :: "string \<Rightarrow> (string \<times> string) option" where
  "parse_pair part =
     (if part = [] \<or> CHR '';'' \<in> set part then None
      else let (k, v) = (case split2 CHR ''='' part of Some kv \<Rightarrow> kv | None \<Rightarrow> (part, []))
        in case (QueryUnescape k, QueryUnescape v) of
             (Some k', Some v') \<Rightarrow> Some (k', v') | _ \<Rightarrow> None)"

definition parse_query :: "string \<Rightarrow> (string \<times> string) list" where
  "parse_query q = List.map_filter parse_pair (split_on CHR ''&'' q)"

definition query_get :: "string \<Rightarrow> string \<Rightarrow> string" where
  "query_get q key = (case map_of (parse_query q) key of Some v \<Rightarrow> v | None \<Rightarrow> [])"

section \<open>Lemmas\<close>

lemma hex_value_upper: "d < 16 \<Longrightarrow> hex_value (hex_upper d) = Some d"
  by (auto simp: hex_value_def hex_upper_def)

lemma hex_upper_unreserved: "d < 16 \<Longrightarrow> unreserved (hex_upper d)"
  by (auto simp: unreserved_def hex_upper_def)

lemma unreserved_chars:
  "unreserved c \<Longrightarrow> c \<noteq> CHR ''%'' \<and> c \<noteq> CHR ''+'' \<and> c \<noteq> CHR ''&'' \<and> c \<noteq> CHR ''='' \<and> c \<noteq> CHR '';''"
  by (auto simp: unreserved_def)

lemma escape_char_set: "x \<in> set (escape_char c) \<Longrightarrow> unreserved x \<or> x = CHR ''%'' \<or> x = CHR ''+''"
proof -
  have "bval c div 16 < 16" "bval c mod 16 < 16"
    using nat_of_char_less_256 [of c] by (auto intro: less_mult_imp_div_less)
  then show "x \<in> set (escape_char c) \<Longrightarrow> unreserved x \<or> x = CHR ''%'' \<or> x = CHR ''+''"
    by (auto simp: escape_char_def hex_upper_unreserved split: if_splits)
qed

lemma escape_set: "x \<in> set (captchaV2QueryEscape s) \<Longrightarrow> unreserved x \<or> x = CHR ''%'' \<or> x = CHR ''+''"
  by (induction s) (auto dest: escape_char_set)

lemma escape_no_sep:
  "CHR ''&'' \<notin> set (captchaV2QueryEscape s)" "CHR ''='' \<notin> set (captchaV2QueryEscape s)"
  "CHR '';'' \<notin> set (captchaV2QueryEscape s)"
  using escape_set [of _ s] unreserved_chars by fastforce+

lemma unescape_escape_char:
  "QueryUnescape (escape_char c @ s) = map_option (Cons c) (QueryUnescape s)"
proof -
  have h: "bval c div 16 < 16" "bval c mod 16 < 16"
    using nat_of_char_less_256 [of c] by (auto intro: less_mult_imp_div_less)
  have c: "char_of (16 * (bval c div 16) + bval c mod 16) = c"
    by simp
  show ?thesis
  proof (cases "c = CHR '' '' \<or> unreserved c")
    case True
    then show ?thesis
      using unreserved_chars [of c] by (auto simp: escape_char_def)
  next
    case False
    then have e: "escape_char c @ s =
        CHR ''%'' # hex_upper (bval c div 16) # hex_upper (bval c mod 16) # s"
      by (simp add: escape_char_def)
    show ?thesis
      unfolding e using hex_value_upper [OF h(1)] hex_value_upper [OF h(2)] c
      by (cases "QueryUnescape s") (simp_all del: char_of_eq_iff)
  qed
qed

lemma unescape_escape: "QueryUnescape (captchaV2QueryEscape s) = Some s"
  by (induction s) (simp_all add: unescape_escape_char del: QueryUnescape.simps(2))

lemma encode_pair_parse: "parse_pair (encode_pair kv) = Some kv"
proof -
  obtain k v where kv: "kv = (k, v)"
    by (cases kv)
  let ?k = "captchaV2QueryEscape k" and ?v = "captchaV2QueryEscape v"
  have p: "takeWhile (\<lambda>x. x \<noteq> CHR ''='') (?k @ CHR ''='' # ?v) = ?k"
    "dropWhile (\<lambda>x. x \<noteq> CHR ''='') (?k @ CHR ''='' # ?v) = CHR ''='' # ?v"
    using escape_no_sep(2) [of k] by (subst takeWhile_append2 dropWhile_append2; auto)+
  then have "split2 CHR ''='' (encode_pair kv) = Some (?k, ?v)"
    by (simp add: split2_def encode_pair_def kv)
  moreover have "CHR '';'' \<notin> set (encode_pair kv)" "encode_pair kv \<noteq> []"
    using escape_no_sep(3) by (simp_all add: encode_pair_def kv)
  ultimately show ?thesis
    by (simp add: parse_pair_def unescape_escape kv)
qed

lemma parse_query_form: "values \<noteq> [] \<Longrightarrow> parse_query (captchaV2EncodeForm values) = values"
proof -
  assume ne: "values \<noteq> []"
  have "CHR ''&'' \<notin> set (encode_pair kv)" for kv
    using escape_no_sep(1) by (auto simp: encode_pair_def)
  then have "split_on CHR ''&'' (captchaV2EncodeForm values) = map encode_pair values"
    unfolding captchaV2EncodeForm_def split_on_def using ne
    by (intro split_by_join) auto
  then show ?thesis
    by (simp add: parse_query_def map_filter_def encode_pair_parse comp_def)
qed

lemma parse_query_append: "parse_query (q @ ''&'' @ r) = parse_query q @ parse_query r"
  by (simp add: parse_query_def split_on_def split_by_append2 map_filter_def)

section \<open>Property\<close>

text \<open>Property C38 (round trip). Whatever the keys and values are (tokens, JSON, cursor data, any bytes),
  an encoded form is read back by a server as exactly the same list of pairs, and the escaped text
  of a value can never add, end or rename a parameter.\<close>

theorem form_roundtrip:
  assumes "values \<noteq> []"
  shows "parse_query (captchaV2EncodeForm values) = values \<and>
    QueryUnescape (captchaV2QueryEscape s) = Some s \<and>
    set (captchaV2QueryEscape s) \<inter> {CHR ''&'', CHR ''='', CHR '';'', CHR '' '', CHR ''#'', CHR ''?''} = {}"
proof (intro conjI)
  show "set (captchaV2QueryEscape s) \<inter> {CHR ''&'', CHR ''='', CHR '';'', CHR '' '', CHR ''#'', CHR ''?''} = {}"
    using escape_set [of _ s] by (fastforce simp: unreserved_def)
qed (simp_all add: unescape_escape parse_query_form assms)

theorem form_roundtrip_witness:
  "parse_query (captchaV2EncodeForm [(''a'', ''x&b=1''), (''q'', ''50 %'')]) =
    [(''a'', ''x&b=1''), (''q'', ''50 %'')]"
  using form_roundtrip [of "[(''a'', ''x&b=1''), (''q'', ''50 %'')]"] by simp

section \<open>Parsed URLs\<close>

text \<open>What the code uses of the result of \<open>url.Parse\<close>.\<close>

record parsed_url =
  Scheme :: string
  Host :: string
  Hostname :: string
  EscapedPath :: string
  Path :: string

end
