(* ===== verification/Json.thy ===== *)
theory Json
  imports Complex_Main Prelude
begin

text \<open>
  Decoded JSON (\<open>encoding/json\<close> into \<open>interface{}\<close>) as the VK code sees it: an object is a Go map,
  given as an association list with one entry per key, and a number is a \<open>float64\<close>, which is a
  rational. Type assertions are the partial selectors; \<open>int(f)\<close> truncates and \<open>%.0f\<close> rounds to even.
\<close>

datatype json =
    JNull | JBool bool | JNum rat | JStr string | JArr "json list" | JObj "(string \<times> json) list"

type_synonym jmap = "(string \<times> json) list"

fun as_obj :: "json option \<Rightarrow> jmap option" where
  "as_obj (Some (JObj m)) = Some m" | "as_obj j = None"
fun as_str :: "json option \<Rightarrow> string option" where
  "as_str (Some (JStr s)) = Some s" | "as_str j = None"
fun as_num :: "json option \<Rightarrow> rat option" where
  "as_num (Some (JNum q)) = Some q" | "as_num j = None"
fun as_arr :: "json option \<Rightarrow> json list option" where
  "as_arr (Some (JArr a)) = Some a" | "as_arr j = None"

abbreviation jget :: "jmap \<Rightarrow> string \<Rightarrow> json option" where
  "jget \<equiv> map_of"

text \<open>\<open>s, _ := v.(string)\<close> and \<open>f, _ := v.(float64)\<close>.\<close>

definition str_or_empty :: "json option \<Rightarrow> string" where
  "str_or_empty j = (case as_str j of Some s \<Rightarrow> s | None \<Rightarrow> [])"

definition num_or_zero :: "json option \<Rightarrow> rat" where
  "num_or_zero j = (case as_num j of Some q \<Rightarrow> q | None \<Rightarrow> 0)"

definition trunc_rat :: "rat \<Rightarrow> int" where
  "trunc_rat q = (if 0 \<le> q then \<lfloor>q\<rfloor> else - \<lfloor>- q\<rfloor>)"

definition round_even :: "rat \<Rightarrow> int" where
  "round_even q =
     (let f = \<lfloor>q\<rfloor>; d = q - of_int f
      in if d < 1 / 2 then f else if d > 1 / 2 then f + 1 else if even f then f else f + 1)"

definition fmt_f0 :: "rat \<Rightarrow> string" where
  "fmt_f0 q = (if q < 0 \<and> round_even q = 0 then ''-0'' else fmt_int (round_even q))"

lemma trunc_of_int [simp]: "trunc_rat (of_int n) = n"
  by (simp add: trunc_rat_def)

lemma fmt_f0_of_int [simp]: "fmt_f0 (of_int n) = fmt_int n"
  by (auto simp: fmt_f0_def round_even_def)

lemma trunc_rat_bounds: "\<bar>of_int (trunc_rat q)\<bar> \<le> \<bar>q\<bar>" "\<bar>q - of_int (trunc_rat q)\<bar> < 1"
  unfolding trunc_rat_def by (simp_all, linarith+)

text \<open>\<open>strconv.Atoi\<close> with the error ignored: out of range it gives the nearest \<open>int64\<close>, else zero.\<close>

definition atoi_value :: "string \<Rightarrow> int" where
  "atoi_value s =
     (case atoi s of
        Some n \<Rightarrow> n
      | None \<Rightarrow>
          let neg = has_prefix ''-'' s;
              digits = (if neg \<or> has_prefix ''+'' s then drop 1 s else s)
          in if digits \<noteq> [] \<and> list_all is_digit digits
             then (if neg then - (2 ^ 63) else 2 ^ 63 - 1) else 0)"

text \<open>\<open>vkErrorCode\<close> of \<open>core/vk_auth.go\<close> on a decoded value.\<close>

fun vkErrorCode :: "json option \<Rightarrow> int" where
  "vkErrorCode (Some (JNum q)) = trunc_rat q"
| "vkErrorCode (Some (JStr s)) = atoi_value s"
| "vkErrorCode j = 0"

end
