(* ===== verification/VkAuth.thy ===== *)
theory VkAuth
  imports Json Url ErrorPolicy
begin

text \<open>
  VK credentials, \<open>core/vk_auth.go\<close>: the client identifiers, the credentials cache of the streams
  with its error window, the serialised and throttled fetch, and the legacy token chain with its
  captcha loop. Requests, delays, captcha solving and the clock are arguments: a request is its
  decoded answer or its error, \<open>ctx\<close> gives the error of the context at the points where the code
  looks at it. Times are nanoseconds.
\<close>

section \<open>Client identifiers\<close>

definition deobf :: "string \<Rightarrow> int \<Rightarrow> string" where
  "deobf s shift = map (\<lambda>c. char_of (nat ((int (bval c) + shift) mod 256))) s"

definition embedded_credentials :: "vk_credentials list" where
  "embedded_credentials =
     [\<lparr>ClientID = deobf '';535939'' (-3), ClientSecret = deobf ''oPUvWlPF|Sqs8yirogpq'' (-3)\<rparr>,
      \<lparr>ClientID = deobf ''95;:7;:'' (-3), ClientSecret = deobf (''PxD{IdNG'' @ [CHR 0x5C] @ ''GRLF}JqHRks'') (-3)\<rparr>]"

datatype env_error = InvalidPair string | EmptyPart string | NoPairs

fun parse_env_pairs :: "string list \<Rightarrow> env_error + vk_credentials list" where
  "parse_env_pairs [] = Inr []"
| "parse_env_pairs (pair # ps) =
     (let pair = trim_space pair in
      if pair = [] then parse_env_pairs ps
      else case split2 CHR '':'' pair of
        None \<Rightarrow> Inl (InvalidPair pair)
      | Some (a, b) \<Rightarrow>
          (let i = trim_space a; s = trim_space b in
           if i = [] \<or> s = [] then Inl (EmptyPart pair)
           else case parse_env_pairs ps of
             Inl e \<Rightarrow> Inl e
           | Inr out \<Rightarrow> Inr (\<lparr>ClientID = i, ClientSecret = s\<rparr> # out)))"

definition parseVKCredentialsEnv :: "string \<Rightarrow> env_error + vk_credentials list" where
  "parseVKCredentialsEnv env =
     (case parse_env_pairs (split_on CHR '','' env) of
        Inl e \<Rightarrow> Inl e
      | Inr out \<Rightarrow> if out = [] then Inl NoPairs else Inr out)"

definition loadVKCredentials :: "string \<Rightarrow> vk_credentials list" where
  "loadVKCredentials env =
     (if env \<noteq> [] then (case parseVKCredentialsEnv env of
          Inr (c # cs) \<Rightarrow> c # cs | _ \<Rightarrow> embedded_credentials)
      else embedded_credentials)"

definition knownVKCredentials :: "string \<rightharpoonup> vk_credentials" where
  "knownVKCredentials =
     [''6287487'' \<mapsto> \<lparr>ClientID = ''6287487'', ClientSecret = ''MuAxFaKDYDOICzGnEOhp''\<rparr>,
      ''8202606'' \<mapsto> \<lparr>ClientID = ''8202606'', ClientSecret = ''lMRsTiMCyPnp5vfoldmn''\<rparr>]"

definition SetActiveClientIds :: "vk_credentials list \<Rightarrow> string \<Rightarrow> vk_credentials list" where
  "SetActiveClientIds current ids =
     (if ids = [] then current
      else let newCreds = List.map_filter (\<lambda>i. knownVKCredentials (trim_space i)) (split_on CHR '','' ids)
           in if newCreds \<noteq> [] then newCreds else current)"

definition GetActiveClientIdsString :: "vk_credentials list \<Rightarrow> string" where
  "GetActiveClientIdsString creds = join '', '' (map ClientID creds)"

definition fatalCallError :: "jmap \<Rightarrow> (int \<times> string) option" where
  "fatalCallError resp =
     (case as_obj (jget resp ''error'') of
        None \<Rightarrow> None
      | Some errObj \<Rightarrow>
          (let code = vkErrorCode (jget errObj ''error_code'') in
           if code = 951 \<or> code = 954 \<or> (9000 \<le> code \<and> code \<le> 9999)
           then Some (code, str_or_empty (jget errObj ''error_msg'')) else None))"

section \<open>The credentials cache\<close>

record turn_creds =
  tc_user :: string
  tc_pass :: string
  tc_addrs :: "string list"
  tc_expires :: int
  tc_link :: string

record stream_cache =
  sc_creds :: turn_creds
  sc_errors :: int
  sc_lastError :: int

type_synonym cred_store = "int \<rightharpoonup> stream_cache"

definition no_creds :: turn_creds where
  "no_creds = \<lparr>tc_user = [], tc_pass = [], tc_addrs = [], tc_expires = 0, tc_link = []\<rparr>"

definition new_cache :: stream_cache where
  "new_cache = \<lparr>sc_creds = no_creds, sc_errors = 0, sc_lastError = 0\<rparr>"

definition getCacheID :: "int \<Rightarrow> int" where
  "getCacheID streamID = sgn streamID * (\<bar>streamID\<bar> div 10)"

definition getStreamCache :: "cred_store \<Rightarrow> int \<Rightarrow> stream_cache \<times> cred_store" where
  "getStreamCache st streamID =
     (case st (getCacheID streamID) of
        Some c \<Rightarrow> (c, st)
      | None \<Rightarrow> (new_cache, st(getCacheID streamID \<mapsto> new_cache)))"

definition invalidate :: "stream_cache \<Rightarrow> stream_cache" where
  "invalidate c = \<lparr>sc_creds = no_creds, sc_errors = 0, sc_lastError = 0\<rparr>"

definition maxCacheErrors :: int where
  "maxCacheErrors = 3"

text \<open>\<open>now\<close> is in seconds here (\<open>time.Now().Unix()\<close>).\<close>

definition handleAuthError :: "cred_store \<Rightarrow> int \<Rightarrow> int \<Rightarrow> bool \<times> cred_store" where
  "handleAuthError st now streamID =
     (let (c, st) = getStreamCache st streamID;
          c = (if now - sc_lastError c > 10 then c\<lparr>sc_errors := 0\<rparr> else c);
          c = c\<lparr>sc_errors := sc_errors c + 1, sc_lastError := now\<rparr>
      in if sc_errors c \<ge> maxCacheErrors
         then (True, st(getCacheID streamID \<mapsto> invalidate c))
         else (False, st(getCacheID streamID \<mapsto> c)))"

definition resetErrorCount :: "cred_store \<Rightarrow> int \<Rightarrow> cred_store" where
  "resetErrorCount st streamID =
     (let (c, st) = getStreamCache st streamID in st(getCacheID streamID \<mapsto> c\<lparr>sc_errors := 0\<rparr>))"

type_synonym creds_result = "goerr + string \<times> string \<times> string list"

definition cache_usable :: "turn_creds \<Rightarrow> string \<Rightarrow> int \<Rightarrow> bool" where
  "cache_usable c link now \<longleftrightarrow> tc_link c = link \<and> now < tc_expires c \<and> tc_addrs c \<noteq> []"

definition credentialLifetime :: int where
  "credentialLifetime = 10 * 60 * 1000000000"

definition cacheSafetyMargin :: int where
  "cacheSafetyMargin = 60 * 1000000000"

text \<open>\<open>ctx i\<close> is the context error at the four places where it is looked at: on entry, while waiting
  for the read lock, while waiting for the write lock, and once that is held. The times are those of
  the two looks at the cache and of the store after the fetch. The last component tells whether VK was asked.\<close>

definition getVkCredsCached ::
  "(nat \<Rightarrow> goerr option) \<Rightarrow> int \<times> int \<times> int \<Rightarrow> creds_result \<Rightarrow> cred_store \<Rightarrow> cred_store \<Rightarrow> string \<Rightarrow> int \<Rightarrow>
   creds_result \<times> cred_store \<times> bool" where
  "getVkCredsCached ctx clock fetched st st2 link streamID =
     (case ctx 0 of Some e \<Rightarrow> (Inl e, st, False) | None \<Rightarrow>
      let (now1, now2, now3) = clock; (c, st) = getStreamCache st streamID in
      (case ctx 1 of Some e \<Rightarrow> (Inl e, st, False) | None \<Rightarrow>
       if cache_usable (sc_creds c) link now1
       then (Inr (tc_user (sc_creds c), tc_pass (sc_creds c), tc_addrs (sc_creds c)), st, False)
       else (case ctx 2 of Some e \<Rightarrow> (Inl e, st, False) | None \<Rightarrow>
         let (c2, st2) = getStreamCache st2 streamID in
         (case ctx 3 of Some e \<Rightarrow> (Inl e, st2, False) | None \<Rightarrow>
          if cache_usable (sc_creds c2) link now2
          then (Inr (tc_user (sc_creds c2), tc_pass (sc_creds c2), tc_addrs (sc_creds c2)), st2, False)
          else case fetched of
            Inl e \<Rightarrow> (Inl e, st2, True)
          | Inr (user, pass, addrs) \<Rightarrow>
              (Inr (user, pass, addrs),
               st2(getCacheID streamID \<mapsto> c2\<lparr>sc_creds :=
                 \<lparr>tc_user = user, tc_pass = pass, tc_addrs = addrs,
                  tc_expires = now3 + (credentialLifetime - cacheSafetyMargin), tc_link = link\<rparr>\<rparr>),
               True)))))"

section \<open>The serialised fetch\<close>

record fetch_gate =
  lastFetch :: "int option"

text \<open>\<open>now\<close> is the time once the gate is held, \<open>jitter\<close> the random milliseconds, \<open>run\<close> the fetch started
  at a given time with its end time. The result lists the start time of the fetch, if there was one.\<close>

definition fetchVkCredsSerialized ::
  "(nat \<Rightarrow> goerr option) \<Rightarrow> int \<Rightarrow> nat \<Rightarrow> (int \<Rightarrow> creds_result \<times> int) \<Rightarrow> fetch_gate \<Rightarrow>
   creds_result \<times> fetch_gate \<times> int option" where
  "fetchVkCredsSerialized ctx now jitter run g =
     (case ctx 0 of Some e \<Rightarrow> (Inl e, g, None) | None \<Rightarrow>
      (case ctx 1 of Some e \<Rightarrow> (Inl e, g, None) | None \<Rightarrow>
       let minInterval = 3 * 1000000000 + int (jitter mod 3000) * 1000000;
           wait = (case lastFetch g of
                     Some l \<Rightarrow> if now - l < minInterval then minInterval - (now - l) else 0
                   | None \<Rightarrow> 0)
       in if 0 < wait \<and> ctx 2 \<noteq> None then (Inl (the (ctx 2)), g, None)
          else let (r, finished) = run (now + wait)
               in (r, g\<lparr>lastFetch := Some finished\<rparr>, Some (now + wait))))"

datatype auth_path = NoRequest | VkCallsOnly | VkCallsThenLegacy | LegacyOnly

definition fetchVkCreds ::
  "goerr option \<Rightarrow> int \<Rightarrow> int \<Rightarrow> string \<Rightarrow> creds_result \<Rightarrow> creds_result \<Rightarrow> creds_result \<times> auth_path" where
  "fetchVkCreds ctx now lockout mode vkcalls legacy =
     (case ctx of Some e \<Rightarrow> (Inl e, NoRequest) | None \<Rightarrow>
      if now < lockout then (Inl CaptchaWait, NoRequest)
      else if mode = ''vkcalls'' then
        (case vkcalls of
           Inr r \<Rightarrow> (Inr r, VkCallsOnly)
         | Inl err \<Rightarrow>
             if \<not> vkAuthShouldUseLegacy err then (Inl err, VkCallsOnly)
             else (legacy, VkCallsThenLegacy))
      else (legacy, LegacyOnly))"

section \<open>TURN addresses\<close>

definition turn_address :: "string \<Rightarrow> string" where
  "turn_address u = trim_prefix ''turns:'' (trim_prefix ''turn:'' (before CHR ''?'' u))"

definition turn_addresses :: "json list \<Rightarrow> string list" where
  "turn_addresses urls = List.map_filter (\<lambda>u. map_option turn_address (as_str (Some u))) urls"

section \<open>Captcha challenges\<close>

text \<open>\<open>session_of\<close> is the \<open>session_token\<close> parameter of a URL that \<open>net/url\<close> accepts, else empty.\<close>

definition num_or_text :: "json option \<Rightarrow> string" where
  "num_or_text j = (case as_num j of Some q \<Rightarrow> fmt_f0 q | None \<Rightarrow> str_or_empty j)"

definition session_of :: "(string \<Rightarrow> string option) \<Rightarrow> string \<Rightarrow> string" where
  "session_of raw_query uri =
     (case raw_query uri of Some q \<Rightarrow> query_get q ''session_token'' | None \<Rightarrow> [])"

definition parseVkCaptchaError :: "(string \<Rightarrow> string option) \<Rightarrow> jmap \<Rightarrow> captcha_error" where
  "parseVkCaptchaError raw_query errData =
     (let redirectUri = str_or_empty (jget errData ''redirect_uri'');
          sid = str_or_empty (jget errData ''captcha_sid'')
      in \<lparr>ErrorCode = trunc_rat (num_or_zero (jget errData ''error_code'')),
          ErrorMsg = str_or_empty (jget errData ''error_msg''),
          CaptchaSid = (if sid = [] then num_or_text (jget errData ''captcha_sid'') else sid),
          CaptchaImg = str_or_empty (jget errData ''captcha_img''),
          RedirectURI = redirectUri,
          SessionToken = (if redirectUri \<noteq> [] then session_of raw_query redirectUri else []),
          CaptchaTs = num_or_text (jget errData ''captcha_ts''),
          CaptchaAttempt = num_or_text (jget errData ''captcha_attempt'')\<rparr>)"

text \<open>The number VK wants to see for a resumed request.\<close>

definition captcha_attempt :: "captcha_error \<Rightarrow> string" where
  "captcha_attempt e =
     (if CaptchaAttempt e = ''0'' \<or> CaptchaAttempt e = [] then ''1'' else CaptchaAttempt e)"

text \<open>\<open>solveCaptchaBySelectedMode\<close>: \<open>auto\<close> is the result of the automatic solver with two attempts,
  \<open>ctx_err\<close> the context after its failure, \<open>manual\<close> the result of the browser.\<close>

datatype solver = AutoOnly | ManualOnly | AutoThenManual

definition solveCaptchaBySelectedMode ::
  "string \<Rightarrow> goerr + string \<Rightarrow> goerr option \<Rightarrow> goerr + string \<Rightarrow> (goerr + string) \<times> solver" where
  "solveCaptchaBySelectedMode mode auto ctx_err manual =
     (if mode \<noteq> ''wv'' then
        (case auto of
           Inr token \<Rightarrow> (Inr token, AutoOnly)
         | Inl e \<Rightarrow> (case ctx_err of Some ce \<Rightarrow> (Inl ce, AutoOnly) | None \<Rightarrow> (manual, AutoThenManual)))
      else (manual, ManualOnly))"

section \<open>The legacy token chain\<close>

type_synonym reply = "goerr + jmap"

definition join_link :: "string \<Rightarrow> string" where
  "join_link link = ''vk_join_link=https://vk.com/call/join/'' @ link"

definition preview_data :: "string \<Rightarrow> string \<Rightarrow> string" where
  "preview_data link token1 = join_link link @ ''&fields=photo_200&access_token='' @ token1"

definition call_data :: "string \<Rightarrow> string \<Rightarrow> string \<Rightarrow> string" where
  "call_data link escapedName token1 =
     join_link link @ ''&name='' @ escapedName @ ''&access_token='' @ token1"

text \<open>Lines 494 to 509.\<close>

definition anonymous_token_data :: "vk_credentials \<Rightarrow> string" where
  "anonymous_token_data creds =
     ''client_id='' @ ClientID creds @ ''&token_type=messages&client_secret='' @ ClientSecret creds @
     ''&version=1&app_id='' @ ClientID creds"

definition anonymous_token :: "reply \<Rightarrow> goerr + string" where
  "anonymous_token reply =
     (case reply of Inl e \<Rightarrow> Inl e
      | Inr resp \<Rightarrow>
          (case as_obj (jget resp ''error'') of
             Some errObj \<Rightarrow> Inl (ApiError (vkErrorCode (jget errObj ''error_code'')))
           | None \<Rightarrow>
          (case as_obj (jget resp ''data'') of
             None \<Rightarrow> Inl (Plain ''unexpected anon token response: '')
           | Some dataMap \<Rightarrow>
          (case as_str (jget dataMap ''access_token'') of
             None \<Rightarrow> Inl (Plain ''missing access_token in response: '')
           | Some token \<Rightarrow> Inr token))))"

text \<open>Lines 515 to 531: the preview only stops the chain for errors that would stop it anyway.\<close>

definition call_preview :: "reply \<Rightarrow> goerr option" where
  "call_preview reply =
     (case reply of
        Inl e \<Rightarrow>
          (if vkAuthIsTransport (classify_error e) \<or> classify_error e = vkAuthRateLimit \<or> is_canceled e
           then Some e else None)
      | Inr resp \<Rightarrow>
          (case as_obj (jget resp ''error'') of
             None \<Rightarrow> None
           | Some errObj \<Rightarrow>
               (case fatalCallError resp of
                  Some (c, m) \<Rightarrow> Some (CallUnavailable c m)
                | None \<Rightarrow>
                    let apiErr = ApiError (vkErrorCode (jget errObj ''error_code'')) in
                    if classify_error apiErr \<in> {vkAuthRateLimit, vkAuthCaptcha, vkAuthInvalidClient}
                    then Some apiErr else None)))"

text \<open>Lines 544 to 598. \<open>req i data\<close> is the answer to the \<open>i\<close>-th request, \<open>solve i e\<close> the captcha
  result with the context error looked at after a failure. The result has the requests that were
  sent and whether the captcha lockout was set.\<close>

function call_token ::
  "(nat \<Rightarrow> string \<Rightarrow> reply) \<Rightarrow> (nat \<Rightarrow> captcha_error \<Rightarrow> (goerr + string) \<times> goerr option) \<Rightarrow>
   (string \<Rightarrow> string option) \<Rightarrow> string \<Rightarrow> string \<Rightarrow> string \<Rightarrow> nat \<Rightarrow> string \<Rightarrow>
   (goerr + string) \<times> string list \<times> bool" where
  "call_token req solve raw_query link name token1 attempt data =
     (case req attempt data of
        Inl e \<Rightarrow> (Inl e, [data], False)
      | Inr resp \<Rightarrow>
          (case as_obj (jget resp ''error'') of
             Some errObj \<Rightarrow>
               (case fatalCallError resp of
                  Some (c, m) \<Rightarrow> (Inl (CallUnavailable c m), [data], False)
                | None \<Rightarrow>
                    let ce = parseVkCaptchaError raw_query errObj in
                    if RedirectURI ce \<noteq> [] \<and> SessionToken ce \<noteq> [] then
                      (if attempt \<ge> 3 then (Inl CaptchaWait, [data], True)
                       else case solve (attempt + 1) ce of
                         (Inl e, ctx_err) \<Rightarrow>
                           (case ctx_err of
                              Some err \<Rightarrow> (Inl err, [data], False)
                            | None \<Rightarrow>
                                if is_canceled e \<or> is_deadline e then (Inl e, [data], False)
                                else (Inl CaptchaWait, [data], True))
                       | (Inr successToken, ctx_err) \<Rightarrow>
                           let data' = join_link link @ ''&name='' @ name @
                                 ''&captcha_key=&captcha_sid='' @ CaptchaSid ce @
                                 ''&is_sound_captcha=0&success_token='' @ QueryEscape successToken @
                                 ''&captcha_ts='' @ CaptchaTs ce @ ''&captcha_attempt='' @ captcha_attempt ce @
                                 ''&access_token='' @ token1;
                               (r, sent, lock) = call_token req solve raw_query link name token1 (attempt + 1) data'
                           in (r, data # sent, lock))
                    else (Inl (ApiError (vkErrorCode (jget errObj ''error_code''))), [data], False))
           | None \<Rightarrow>
          (case as_obj (jget resp ''response'') of
             None \<Rightarrow> (Inl (Plain ''unexpected getAnonymousToken response: ''), [data], False)
           | Some respMap \<Rightarrow>
          (case as_str (jget respMap ''token'') of
             None \<Rightarrow> (Inl (Plain ''missing token in response: ''), [data], False)
           | Some token2 \<Rightarrow> (Inr token2, [data], False)))))"
  by pat_completeness auto
termination
  by (relation "measure (\<lambda>(req, solve, rq, link, name, token1, attempt, data). 4 - attempt)") auto

declare call_token.simps [simp del]

text \<open>Lines 625 to 662.\<close>

definition turn_server_creds :: "reply \<Rightarrow> creds_result" where
  "turn_server_creds reply =
     (case reply of Inl e \<Rightarrow> Inl e
      | Inr resp \<Rightarrow>
     (case as_obj (jget resp ''turn_server'') of
        None \<Rightarrow> Inl (Plain ''missing turn_server in response: '')
      | Some ts \<Rightarrow>
     (case as_str (jget ts ''username'') of
        None \<Rightarrow> Inl (Plain ''missing username in turn_server'')
      | Some user \<Rightarrow>
     (case as_str (jget ts ''credential'') of
        None \<Rightarrow> Inl (Plain ''missing credential in turn_server'')
      | Some pass \<Rightarrow>
     (case as_arr (jget ts ''urls'') of
        None \<Rightarrow> Inl (Plain ''missing or empty urls in turn_server'')
      | Some urlsRaw \<Rightarrow>
          if urlsRaw = [] then Inl (Plain ''missing or empty urls in turn_server'')
          else let addresses = turn_addresses urlsRaw in
            if addresses = [] then Inl (Plain ''no valid TURN addresses found'')
            else Inr (user, pass, addresses))))))"

text \<open>What the chain talks to: its five requests, the four delays and the captcha.\<close>

record token_world =
  w_anon :: "string \<Rightarrow> reply"
  w_preview :: "string \<Rightarrow> reply"
  w_call :: "nat \<Rightarrow> string \<Rightarrow> reply"
  w_login :: reply
  w_join :: "string \<Rightarrow> reply"
  w_delay :: "nat \<Rightarrow> goerr option"
  w_solve :: "nat \<Rightarrow> captcha_error \<Rightarrow> (goerr + string) \<times> goerr option"
  w_query :: "string \<Rightarrow> string option"

datatype token_step = AnonToken | CallPreview | CallToken | OkLogin | OkJoin

definition session_key :: "reply \<Rightarrow> goerr + string" where
  "session_key reply =
     (case reply of Inl e \<Rightarrow> Inl e
      | Inr resp \<Rightarrow> (case as_str (jget resp ''session_key'') of
          None \<Rightarrow> Inl (Plain ''missing session_key in response: '') | Some k \<Rightarrow> Inr k))"

text \<open>Lines 600 to 662, after the call token \<open>token2\<close>.\<close>

definition join_call :: "token_world \<Rightarrow> string \<Rightarrow> string \<Rightarrow> creds_result \<times> token_step list" where
  "join_call w link token2 =
     (case w_delay w 2 of Some e \<Rightarrow> (Inl e, []) | None \<Rightarrow>
     (case session_key (w_login w) of Inl e \<Rightarrow> (Inl e, [OkLogin]) | Inr token3 \<Rightarrow>
     (case w_delay w 3 of Some e \<Rightarrow> (Inl e, [OkLogin]) | None \<Rightarrow>
        (turn_server_creds (w_join w
           (''joinLink='' @ link @ ''&isVideo=false&protocolVersion=5&capabilities=2F7F&anonymToken='' @
            token2 @ ''&method=vchat.joinConversationByLink&format=JSON'' @
            ''&application_key=CGMMEJLGDIHBABABA&session_key='' @ token3)),
         [OkLogin, OkJoin]))))"

definition getTokenChain ::
  "token_world \<Rightarrow> string \<Rightarrow> vk_credentials \<Rightarrow> string \<Rightarrow> creds_result \<times> token_step list \<times> bool" where
  "getTokenChain w link creds name =
     (case anonymous_token (w_anon w (anonymous_token_data creds)) of
        Inl e \<Rightarrow> (Inl e, [AnonToken], False)
      | Inr token1 \<Rightarrow>
     (case w_delay w 0 of Some e \<Rightarrow> (Inl e, [AnonToken], False) | None \<Rightarrow>
     (case call_preview (w_preview w (preview_data link token1)) of
        Some e \<Rightarrow> (Inl e, [AnonToken, CallPreview], False)
      | None \<Rightarrow>
     (case w_delay w 1 of Some e \<Rightarrow> (Inl e, [AnonToken, CallPreview], False) | None \<Rightarrow>
     (case call_token (w_call w) (w_solve w) (w_query w) link (QueryEscape name) token1 0
             (call_data link (QueryEscape name) token1) of
        (Inl e, sent, lock) \<Rightarrow>
          (Inl e, [AnonToken, CallPreview] @ map (\<lambda>_. CallToken) sent, lock)
      | (Inr token2, sent, lock) \<Rightarrow>
          (let (r, steps) = join_call w link token2
           in (r, [AnonToken, CallPreview] @ map (\<lambda>_. CallToken) sent @ steps, lock)))))))"

section \<open>Authentication errors: lemmas\<close>

fun auth_errors :: "cred_store \<Rightarrow> int \<Rightarrow> int list \<Rightarrow> bool list" where
  "auth_errors st sid [] = []"
| "auth_errors st sid (t # ts) =
     (let (b, st') = handleAuthError st t sid in b # auth_errors st' sid ts)"

lemma getStreamCache_cases:
  "getStreamCache st sid = (c, st') \<Longrightarrow>
     st' (getCacheID sid) = Some c \<and> (\<forall>i. i \<noteq> getCacheID sid \<longrightarrow> st' i = st i) \<and>
     (st (getCacheID sid) = None \<longrightarrow> c = new_cache) \<and> (\<forall>c'. st (getCacheID sid) = Some c' \<longrightarrow> c' = c)"
  by (auto simp: getStreamCache_def split: option.splits)

definition stream_errors :: "cred_store \<Rightarrow> int \<Rightarrow> int" where
  "stream_errors st sid = sc_errors (fst (getStreamCache st sid))"

definition stream_last :: "cred_store \<Rightarrow> int \<Rightarrow> int" where
  "stream_last st sid = sc_lastError (fst (getStreamCache st sid))"

lemma handleAuthError_step:
  assumes "handleAuthError st t sid = (b, st')"
  defines "n \<equiv> (if t - stream_last st sid > 10 then 0 else stream_errors st sid) + 1"
  shows "b \<longleftrightarrow> n \<ge> 3" "stream_errors st' sid = (if n \<ge> 3 then 0 else n)"
    "stream_last st' sid = (if n \<ge> 3 then 0 else t)"
    "b \<Longrightarrow> sc_creds (fst (getStreamCache st' sid)) = no_creds"
    "\<not> b \<Longrightarrow> sc_creds (fst (getStreamCache st' sid)) = sc_creds (fst (getStreamCache st sid))"
proof -
  obtain c st1 where g: "getStreamCache st sid = (c, st1)"
    by (cases "getStreamCache st sid")
  have n: "n = (if t - sc_lastError c > 10 then 0 else sc_errors c) + 1"
    by (simp add: n_def stream_last_def stream_errors_def g)
  have st': "b \<longleftrightarrow> n \<ge> 3" "st' = st1(getCacheID sid \<mapsto>
      (if n \<ge> 3 then invalidate c else c\<lparr>sc_errors := n, sc_lastError := t\<rparr>))"
    using assms(1) by (auto simp: handleAuthError_def g n maxCacheErrors_def invalidate_def Let_def
        split: if_splits)
  then have g': "getStreamCache st' sid =
      ((if n \<ge> 3 then invalidate c else c\<lparr>sc_errors := n, sc_lastError := t\<rparr>), st')"
    by (simp add: getStreamCache_def)
  show "b \<longleftrightarrow> n \<ge> 3" "stream_errors st' sid = (if n \<ge> 3 then 0 else n)"
    "stream_last st' sid = (if n \<ge> 3 then 0 else t)"
    "b \<Longrightarrow> sc_creds (fst (getStreamCache st' sid)) = no_creds"
    "\<not> b \<Longrightarrow> sc_creds (fst (getStreamCache st' sid)) = sc_creds (fst (getStreamCache st sid))"
    using st'(1) by (auto simp: g' g stream_errors_def stream_last_def invalidate_def)
qed

lemma auth_errors_close:
  assumes "stream_errors st sid = int k" and "k < 3" and "k = 0 \<or> t0 = stream_last st sid"
    and "\<forall>i < length ts. (if i = 0 then k = 0 \<or> ts ! 0 - t0 \<le> 10 else ts ! i - ts ! (i - 1) \<le> 10)"
  shows "auth_errors st sid ts = map (\<lambda>i. (i + k) mod 3 = 2) [0..<length ts]"
  using assms
proof (induction ts arbitrary: st k t0)
  case (Cons t ts)
  obtain b st' where h: "handleAuthError st t sid = (b, st')"
    by (cases "handleAuthError st t sid")
  have near: "k = 0 \<or> t - stream_last st sid \<le> 10"
    using Cons.prems(3,4) by auto
  have n: "(if t - stream_last st sid > 10 then 0 else stream_errors st sid) + 1 = int (k + 1)"
    using near Cons.prems(1) by auto
  note s = handleAuthError_step [OF h, unfolded n]
  define k' where "k' = (if k = 2 then 0 else k + 1)"
  have k': "stream_errors st' sid = int k'" "k' < 3" "k' = 0 \<or> t = stream_last st' sid" "b \<longleftrightarrow> k = 2"
    using s(1-3) Cons.prems(2) by (auto simp: k'_def)
  have gaps: "\<forall>i < length ts. (if i = 0 then k' = 0 \<or> ts ! 0 - t \<le> 10 else ts ! i - ts ! (i - 1) \<le> 10)"
  proof (intro allI impI)
    fix i assume "i < length ts"
    then show "if i = 0 then k' = 0 \<or> ts ! 0 - t \<le> 10 else ts ! i - ts ! (i - 1) \<le> 10"
      using Cons.prems(4) [rule_format, of "Suc i"] by (cases i) auto
  qed
  have rest: "auth_errors st' sid ts = map (\<lambda>i. (i + k') mod 3 = 2) [0..<length ts]"
    by (rule Cons.IH [OF k'(1-3) gaps])
  have shift: "(i + k') mod 3 = (Suc i + k) mod 3" for i
  proof (cases "k = 2")
    case True
    then show ?thesis
      unfolding k'_def by simp
  qed (simp add: k'_def)
  have "map (\<lambda>i. (i + k) mod 3 = 2) [0..<length (t # ts)] =
      (k mod 3 = 2) # map (\<lambda>i. (Suc i + k) mod 3 = 2) [0..<length ts]"
    by (simp add: map_upt_Suc del: upt_Suc)
  moreover have "k mod 3 = 2 \<longleftrightarrow> k = 2"
    using Cons.prems(2) by simp
  ultimately show ?case
    using h rest k'(4) by (simp only: auth_errors.simps Let_def prod.case shift)
qed simp

lemma auth_errors_far:
  assumes "stream_errors st sid \<le> 1" and "stream_errors st sid = 0 \<or> t0 = stream_last st sid"
    and "\<forall>i < length ts. (if i = 0 then stream_errors st sid = 0 \<or> ts ! 0 - t0 > 10 else ts ! i - ts ! (i - 1) > 10)"
  shows "True \<notin> set (auth_errors st sid ts)"
  using assms
proof (induction ts arbitrary: st t0)
  case (Cons t ts)
  obtain b st' where h: "handleAuthError st t sid = (b, st')"
    by (cases "handleAuthError st t sid")
  have far: "stream_errors st sid = 0 \<or> t - stream_last st sid > 10"
    using Cons.prems(2,3) by auto
  have n: "(if t - stream_last st sid > 10 then 0 else stream_errors st sid) + 1 = 1"
    using far by auto
  note s = handleAuthError_step [OF h, unfolded n]
  have gaps: "\<forall>i < length ts. (if i = 0 then stream_errors st' sid = 0 \<or> ts ! 0 - t > 10
      else ts ! i - ts ! (i - 1) > 10)"
  proof (intro allI impI)
    fix i assume "i < length ts"
    then show "if i = 0 then stream_errors st' sid = 0 \<or> ts ! 0 - t > 10 else ts ! i - ts ! (i - 1) > 10"
      using Cons.prems(3) [rule_format, of "Suc i"] by (cases i) auto
  qed
  have "True \<notin> set (auth_errors st' sid ts)"
    by (rule Cons.IH [of st' t]) (use s(2,3) gaps in auto)
  then show ?case
    using h s(1) by simp
qed simp

section \<open>The cache and the chain: lemmas\<close>

lemma getVkCredsCached_fetch:
  assumes "\<forall>i < 4. ctx i = None" and "\<not> cache_usable (sc_creds (fst (getStreamCache st sid))) link n1"
    and "\<not> cache_usable (sc_creds (fst (getStreamCache st sid))) link n2"
  shows "getVkCredsCached ctx (n1, n2, n3) (Inr (u, p, a)) st st link sid =
    (Inr (u, p, a), (snd (getStreamCache st sid))(getCacheID sid \<mapsto>
      (fst (getStreamCache st sid))\<lparr>sc_creds := \<lparr>tc_user = u, tc_pass = p, tc_addrs = a,
        tc_expires = n3 + 540000000000, tc_link = link\<rparr>\<rparr>), True)"
  using assms by (cases "getStreamCache st sid")
    (simp add: getVkCredsCached_def credentialLifetime_def cacheSafetyMargin_def)

lemma getVkCredsCached_hit:
  assumes "ctx 0 = None" "ctx 1 = None"
    and "cache_usable (sc_creds (fst (getStreamCache st sid))) link n1"
  shows "getVkCredsCached ctx (n1, n2, n3) fetched st st2 link sid =
    (let c = sc_creds (fst (getStreamCache st sid)) in
     (Inr (tc_user c, tc_pass c, tc_addrs c), snd (getStreamCache st sid), False))"
  using assms by (cases "getStreamCache st sid") (simp add: getVkCredsCached_def Let_def)

lemma call_token_sent:
  "call_token req solve rq link name t1 attempt data = (r, sent, lock) \<Longrightarrow>
     length sent + attempt \<le> max 4 (attempt + 1) \<and> sent \<noteq> [] \<and> (lock \<longrightarrow> r = Inl CaptchaWait)"
proof (induction req solve rq link name t1 attempt data arbitrary: r sent lock rule: call_token.induct)
  case (1 req solve rq link name t1 attempt data)
  show ?case
  proof (cases "req attempt data")
    case (Inl e)
    then show ?thesis
      using "1.prems" by (subst (asm) call_token.simps) auto
  next
    case (Inr resp)
    show ?thesis
    proof (cases "as_obj (jget resp ''error'')")
      case None
      then show ?thesis
        using "1.prems" Inr by (subst (asm) call_token.simps) (auto split: option.splits)
    next
      case (Some errObj)
      define ce where "ce = parseVkCaptchaError rq errObj"
      show ?thesis
      proof (cases "fatalCallError resp = None \<and> RedirectURI ce \<noteq> [] \<and> SessionToken ce \<noteq> [] \<and>
          attempt < 3 \<and> (\<exists>tok c. solve (attempt + 1) ce = (Inr tok, c))")
        case False
        then show ?thesis
          using "1.prems" Inr Some
          by (subst (asm) call_token.simps)
            (auto simp: ce_def Let_def split: option.splits if_splits sum.splits prod.splits)
      next
        case True
        then obtain tok c where sv: "solve (attempt + 1) ce = (Inr tok, c)"
          by blast
        define data' where "data' = join_link link @ ''&name='' @ name @
            ''&captcha_key=&captcha_sid='' @ CaptchaSid ce @
            ''&is_sound_captcha=0&success_token='' @ QueryEscape tok @
            ''&captcha_ts='' @ CaptchaTs ce @ ''&captcha_attempt='' @ captcha_attempt ce @
            ''&access_token='' @ t1"
        obtain r' sent' lock' where rec: "call_token req solve rq link name t1 (attempt + 1) data' = (r', sent', lock')"
          by (cases "call_token req solve rq link name t1 (attempt + 1) data'") auto
        have "r = r'" "sent = data # sent'" "lock = lock'"
          using "1.prems" Inr Some True sv rec
          by (subst (asm) (1) call_token.simps, simp add: ce_def [symmetric] Let_def data'_def)+
        moreover have "length sent' + (attempt + 1) \<le> max 4 (attempt + 1 + 1) \<and> sent' \<noteq> [] \<and>
            (lock' \<longrightarrow> r' = Inl CaptchaWait)"
          using "1.IH" [OF Inr Some _ ce_def _ _ sv [symmetric] _ data'_def rec] True by auto
        ultimately show ?thesis
          using True by auto
      qed
    qed
  qed
qed

lemma turn_server_creds_nonempty: "turn_server_creds r = Inr (u, p, a) \<Longrightarrow> a \<noteq> []"
  by (auto simp: turn_server_creds_def Let_def split: sum.splits option.splits if_splits)

lemma join_call_steps:
  "join_call w link t = (r, steps) \<Longrightarrow> length steps \<le> 2 \<and>
     (\<forall>u p a. r = Inr (u, p, a) \<longrightarrow> a \<noteq> [] \<and> steps = [OkLogin, OkJoin])"
  using turn_server_creds_nonempty
  by (auto simp: join_call_def split: option.splits sum.splits)

section \<open>Properties\<close>

text \<open>Three TURN authentication errors of a stream in a row, each at most ten
  seconds after the one before, drop its cached credentials, and so does every third error after
  that as long as the errors keep coming; errors more than ten seconds apart never do.\<close>

theorem auth_errors_invalidate:
  assumes "\<forall>i. Suc i < length ts \<longrightarrow> ts ! Suc i - ts ! i \<le> 10"
    and "\<forall>i. Suc i < length us \<longrightarrow> us ! Suc i - us ! i > 10"
  shows "auth_errors Map.empty sid ts = map (\<lambda>i. i mod 3 = 2) [0..<length ts] \<and>
    True \<notin> set (auth_errors Map.empty sid us)"
proof
  have e: "stream_errors Map.empty sid = 0"
    by (simp add: stream_errors_def getStreamCache_def new_cache_def)
  have "ts ! i - ts ! (i - 1) \<le> 10" if "i < length ts" "i \<noteq> 0" for i
    using assms(1) that by (cases i) auto
  then show "auth_errors Map.empty sid ts = map (\<lambda>i. i mod 3 = 2) [0..<length ts]"
    using auth_errors_close [of Map.empty sid 0 0 ts] e by simp
  have "us ! i - us ! (i - 1) > 10" if "i < length us" "i \<noteq> 0" for i
    using assms(2) that by (cases i) auto
  then show "True \<notin> set (auth_errors Map.empty sid us)"
    using auth_errors_far [of Map.empty sid 0 us] e by simp
qed

theorem auth_errors_invalidate_witness:
  "auth_errors Map.empty 100 [1000, 1004, 1010] = [False, False, True] \<and>
   True \<notin> set (auth_errors Map.empty 100 [1000, 1020, 1040])"
proof -
  have a: "\<forall>i. Suc i < length [1000, 1004, 1010 :: int] \<longrightarrow> [1000, 1004, 1010 :: int] ! Suc i - [1000, 1004, 1010] ! i \<le> 10"
    and b: "\<forall>i. Suc i < length [1000, 1020, 1040 :: int] \<longrightarrow> [1000, 1020, 1040 :: int] ! Suc i - [1000, 1020, 1040] ! i > 10"
    by (auto simp: less_Suc_eq numeral_eq_Suc)
  have c: "map (\<lambda>i. i mod 3 = 2) [0..<length [1000, 1004, 1010 :: int]] = [False, False, True]"
    by (simp add: upt_rec)
  show ?thesis
    by (rule auth_errors_invalidate [OF a b, of 100, unfolded c])
qed

text \<open>Fetched credentials are remembered for nine minutes: within that time a
  further call for the same link gives the same answer without asking VK, for a user, a password and
  a non-empty list of addresses; a call for another link asks VK, a failed fetch leaves the cache as
  it was, and no call touches the cache of another stream group.\<close>

theorem credentials_cache:
  assumes "\<forall>i < 4. ctx i = None" and "addrs \<noteq> []"
    and "\<not> cache_usable (sc_creds (fst (getStreamCache st sid))) link n1"
    and "\<not> cache_usable (sc_creds (fst (getStreamCache st sid))) link n2"
    and "m < n3 + 9 * 60 * 1000000000" and "link' \<noteq> link"
  shows "\<exists>st'. getVkCredsCached ctx (n1, n2, n3) (Inr (u, p, addrs)) st st link sid =
      (Inr (u, p, addrs), st', True) \<and>
    fst (getVkCredsCached ctx (m, m2, m3) any st' st' link sid) = Inr (u, p, addrs) \<and>
    \<not> snd (snd (getVkCredsCached ctx (m, m2, m3) any st' st' link sid)) \<and>
    snd (snd (getVkCredsCached ctx (m, m2, m3) (Inl err) st' st' link' sid)) \<and>
    fst (snd (getVkCredsCached ctx (m, m2, m3) (Inl err) st' st' link' sid)) = st' \<and>
    (\<forall>i. i \<noteq> getCacheID sid \<longrightarrow> st' i = st i)"
proof -
  obtain c st1 where g: "getStreamCache st sid = (c, st1)"
    by (cases "getStreamCache st sid")
  define c' where "c' = c\<lparr>sc_creds := \<lparr>tc_user = u, tc_pass = p, tc_addrs = addrs,
      tc_expires = n3 + 540000000000, tc_link = link\<rparr>\<rparr>"
  define st' where "st' = st1(getCacheID sid \<mapsto> c')"
  have f: "getVkCredsCached ctx (n1, n2, n3) (Inr (u, p, addrs)) st st link sid =
      (Inr (u, p, addrs), st', True)"
    using getVkCredsCached_fetch [OF assms(1,3,4)] by (simp add: g st'_def c'_def)
  have g': "getStreamCache st' sid = (c', st')"
    by (simp add: getStreamCache_def st'_def)
  have use: "cache_usable (sc_creds (fst (getStreamCache st' sid))) link m"
    and other: "\<not> cache_usable (sc_creds c') link' t" for t
    using assms(2,5,6) by (simp_all add: g' cache_usable_def c'_def)
  have z: "ctx 0 = None" "ctx 1 = None" "ctx 2 = None" "ctx 3 = None"
    using assms(1) by simp_all
  have "getVkCredsCached ctx (m, m2, m3) any st' st' link sid = (Inr (u, p, addrs), st', False)"
    using getVkCredsCached_hit [OF z(1,2) use] by (simp add: g' c'_def Let_def)
  moreover have "getVkCredsCached ctx (m, m2, m3) (Inl err) st' st' link' sid = (Inl err, st', True)"
    using z other by (simp add: getVkCredsCached_def g')
  moreover have "\<forall>i. i \<noteq> getCacheID sid \<longrightarrow> st' i = st i"
    using getStreamCache_cases [OF g] by (simp add: st'_def)
  ultimately show ?thesis
    using f by auto
qed

theorem credentials_cache_witness:
  "\<exists>st'. getVkCredsCached (\<lambda>_. None) (5, 6, 7) (Inr (''u'', ''p'', [''t:1''])) Map.empty Map.empty ''h'' 100 =
      (Inr (''u'', ''p'', [''t:1'']), st', True) \<and>
    fst (getVkCredsCached (\<lambda>_. None) (8, 0, 0) (Inl Canceled) st' st' ''h'' 100) = Inr (''u'', ''p'', [''t:1''])"
  using credentials_cache [where ctx = "\<lambda>_. None" and addrs = "[''t:1'']" and st = Map.empty and sid = 100 and
      link = "''h''" and ?n1.0 = 5 and ?n2.0 = 6 and ?n3.0 = 7 and m = 8 and link' = "''g''" and u = "''u''" and
      p = "''p''" and ?m2.0 = 0 and ?m3.0 = 0 and any = "Inl Canceled" and err = Canceled]
  by (auto simp: getStreamCache_def new_cache_def no_creds_def cache_usable_def)

text \<open>One run of the legacy chain sends at most eight requests, at most four of them
  for the call token (so at most three captchas are solved); it ends with credentials that have at
  least one TURN address or with an error, it sets the captcha lockout only when it gives up on a
  captcha, and credentials are only given after all five kinds of request.\<close>

theorem token_chain_bounded:
  "let (r, steps, lock) = getTokenChain w link creds name in
    length steps \<le> 8 \<and> length (filter (\<lambda>s. s = CallToken) steps) \<le> 4 \<and>
    (lock \<longrightarrow> r = Inl CaptchaWait) \<and>
    (\<forall>u p addrs. r = Inr (u, p, addrs) \<longrightarrow> addrs \<noteq> [] \<and> \<not> lock \<and>
      set steps = {AnonToken, CallPreview, CallToken, OkLogin, OkJoin})"
proof -
  note d = getTokenChain_def [of w link creds name]
  show ?thesis
  proof (cases "anonymous_token (w_anon w (anonymous_token_data creds))")
    case (Inr t1)
    show ?thesis
    proof (cases "w_delay w 0 = None \<and> w_delay w 1 = None \<and>
        call_preview (w_preview w (preview_data link t1)) = None")
      case True
      define data where "data = call_data link (QueryEscape name) t1"
      obtain r sent lock where c: "call_token (w_call w) (w_solve w) (w_query w) link (QueryEscape name) t1 0 data =
          (r, sent, lock)"
        by (cases "call_token (w_call w) (w_solve w) (w_query w) link (QueryEscape name) t1 0 data") auto
      from call_token_sent [OF c] have s: "length sent \<le> 4" "sent \<noteq> []" "lock \<longrightarrow> r = Inl CaptchaWait"
        by auto
      show ?thesis
      proof (cases r)
        case (Inl e)
        then show ?thesis
          using s True Inr c unfolding d by (auto simp: data_def [symmetric])
      next
        case r: (Inr t2)
        obtain r2 steps where j: "join_call w link t2 = (r2, steps)"
          by (cases "join_call w link t2")
        from join_call_steps [OF j] have js: "length steps \<le> 2"
          "\<And>u p a. r2 = Inr (u, p, a) \<Longrightarrow> a \<noteq> [] \<and> steps = [OkLogin, OkJoin]"
          by auto
        have "CallToken \<notin> set steps"
          using j by (auto simp: join_call_def split: option.splits sum.splits)
        then have f: "filter (\<lambda>s. s = CallToken) steps = []"
          by (auto simp: filter_empty_conv)
        have e: "getTokenChain w link creds name =
            (r2, [AnonToken, CallPreview] @ map (\<lambda>_. CallToken) sent @ steps, lock)"
          using True Inr c r j unfolding d by (simp add: data_def [symmetric])
        have "length (filter (\<lambda>s. s = CallToken) (map (\<lambda>_. CallToken) sent)) = length sent"
          by simp
        then show ?thesis
          unfolding e using s r js f by (cases sent) auto
      qed
    next
      case False
      then show ?thesis
        using Inr unfolding d by (auto split: option.splits)
    qed
  qed (simp add: d)
qed

definition good_world :: token_world where
  "good_world =
     \<lparr>w_anon = (\<lambda>_. Inr [(''data'', JObj [(''access_token'', JStr ''t1'')])]),
      w_preview = (\<lambda>_. Inr []),
      w_call = (\<lambda>_ _. Inr [(''response'', JObj [(''token'', JStr ''t2'')])]),
      w_login = Inr [(''session_key'', JStr ''k'')],
      w_join = (\<lambda>_. Inr [(''turn_server'', JObj [(''username'', JStr ''u''), (''credential'', JStr ''c''),
         (''urls'', JArr [JStr ''turn:1.2.3.4:19302?transport=udp'', JNum 3])])]),
      w_delay = (\<lambda>_. None), w_solve = (\<lambda>_ _. (Inl Canceled, None)), w_query = (\<lambda>_. None)\<rparr>"

theorem token_chain_bounded_witness:
  "\<exists>steps. getTokenChain good_world ''h'' \<lparr>ClientID = ''1'', ClientSecret = ''s''\<rparr> ''Ivan'' =
      (Inr (''u'', ''c'', [''1.2.3.4:19302'']), steps, False) \<and> length steps \<le> 8 \<and>
    set steps = {AnonToken, CallPreview, CallToken, OkLogin, OkJoin}"
proof -
  have "fst (getTokenChain good_world ''h'' \<lparr>ClientID = ''1'', ClientSecret = ''s''\<rparr> ''Ivan'') =
      Inr (''u'', ''c'', [''1.2.3.4:19302''])"
    by code_simp
  then show ?thesis
    using token_chain_bounded [of good_world "''h''" "\<lparr>ClientID = ''1'', ClientSecret = ''s''\<rparr>" "''Ivan''"]
    by (cases "getTokenChain good_world ''h'' \<lparr>ClientID = ''1'', ClientSecret = ''s''\<rparr> ''Ivan''") auto
qed

end
