(* ===== verification/VkCalls.thy ===== *)
theory VkCalls
  imports "HOL-Library.List_Lexorder" "HOL-Library.Char_ord" VkAuth
begin

text \<open>
  The VK Calls path to TURN credentials, \<open>core/creds_vkcalls.go\<close>: five requests, the first three of
  which may be interrupted by a captcha that is solved once and resumed on the same URL with the same
  device. The HTTP exchange, the captcha solver, the random device identifiers and the JSON printer
  of error texts are arguments.
\<close>

section \<open>Reading an answer\<close>

text \<open>\<open>%T\<close> of a decoded value.\<close>

fun go_type :: "json option \<Rightarrow> string" where
  "go_type None = ''<nil>''"
| "go_type (Some JNull) = ''<nil>''"
| "go_type (Some (JBool b)) = ''bool''"
| "go_type (Some (JNum q)) = ''float64''"
| "go_type (Some (JStr s)) = ''string''"
| "go_type (Some (JArr a)) = ''[]interface {}''"
| "go_type (Some (JObj m)) = ''map[string]interface {}''"

fun json_path :: "json option \<Rightarrow> string list \<Rightarrow> goerr + json option" where
  "json_path cur [] = Inr cur"
| "json_path cur (k # ks) =
     (case as_obj cur of
        None \<Rightarrow> Inl (Plain (''expected map at key '' @ [CHR 0x22] @ k @ [CHR 0x22] @ '', got '' @ go_type cur))
      | Some m \<Rightarrow> json_path (jget m k) ks)"

definition extractVKCallsStr :: "jmap \<Rightarrow> string list \<Rightarrow> goerr + string" where
  "extractVKCallsStr resp keys =
     (case json_path (Some (JObj resp)) keys of
        Inl e \<Rightarrow> Inl e
      | Inr cur \<Rightarrow> (case as_str cur of
          Some s \<Rightarrow> Inr s
        | None \<Rightarrow> Inl (Plain (''expected string at end of path, got '' @ go_type cur))))"

definition extractVKCallsFloat :: "jmap \<Rightarrow> string list \<Rightarrow> goerr + rat" where
  "extractVKCallsFloat resp keys =
     (case json_path (Some (JObj resp)) keys of
        Inl e \<Rightarrow> Inl e
      | Inr cur \<Rightarrow> (case as_num cur of
          Some q \<Rightarrow> Inr q
        | None \<Rightarrow> Inl (Plain (''expected float64 at end of path, got '' @ go_type cur))))"

definition parseVKCallsTURNAddresses :: "jmap \<Rightarrow> string list" where
  "parseVKCallsTURNAddresses resp =
     (case as_obj (jget resp ''turn_server'') of
        None \<Rightarrow> []
      | Some turnServer \<Rightarrow> (case as_arr (jget turnServer ''urls'') of
          None \<Rightarrow> []
        | Some urls \<Rightarrow> turn_addresses urls))"

definition truncateVKCallsLog :: "string \<Rightarrow> nat \<Rightarrow> string" where
  "truncateVKCallsLog s n = (if length s \<le> n then s else take n s @ ''...'')"

definition truncateVKCallsResp :: "(jmap \<Rightarrow> string) \<Rightarrow> jmap \<Rightarrow> string" where
  "truncateVKCallsResp marshal resp = truncateVKCallsLog (marshal resp) 300"

section \<open>Errors in an answer\<close>

definition vkCallsAPIError :: "(string \<Rightarrow> string option) \<Rightarrow> jmap \<Rightarrow> goerr option" where
  "vkCallsAPIError raw_query resp =
     (case as_obj (jget resp ''error'') of
        None \<Rightarrow> None
      | Some errObj \<Rightarrow>
          (let code = num_or_zero (jget errObj ''error_code'');
               msg = str_or_empty (jget errObj ''error_msg'')
           in if code = 0 \<and> msg = [] then None
              else case fatalCallError resp of
                Some (c, m) \<Rightarrow> Some (CallUnavailable c m)
              | None \<Rightarrow>
                  if trunc_rat code = 14 then Some (Captcha (parseVkCaptchaError raw_query errObj))
                  else Some (CallsVKApi (trunc_rat code) msg)))"

definition vkCallsOKError :: "jmap \<Rightarrow> goerr option" where
  "vkCallsOKError resp =
     (case as_num (jget resp ''error_code'') of
        None \<Rightarrow> None
      | Some code \<Rightarrow> if code = 0 then None
          else Some (CallsOKApi (trunc_rat code) (str_or_empty (jget resp ''error_msg''))))"

definition newVKCallsFailure :: "string \<Rightarrow> vkCallsFailureKind \<Rightarrow> goerr option \<Rightarrow> goerr" where
  "newVKCallsFailure step kind err =
     VkCallsFailure step kind (case err of Some e \<Rightarrow> e | None \<Rightarrow> Plain ''unknown error'')"

definition vkCallsAPIErrorKind :: "goerr \<Rightarrow> vkCallsFailureKind" where
  "vkCallsAPIErrorKind err =
     (if asCallUnavailableError err \<noteq> None then vkCallsFailureCall
      else if errors_as as_captcha err \<noteq> None then vkCallsFailureCaptcha
      else vkCallsFailureVKAPI)"

definition describeVKCallsFailure :: "goerr option \<Rightarrow> string" where
  "describeVKCallsFailure err =
     (case err of
        None \<Rightarrow> []
      | Some e \<Rightarrow> (case errors_as as_failure e of
          Some (st, k, c) \<Rightarrow> error_text (VkCallsFailure st k c)
        | None \<Rightarrow> error_text e))"

section \<open>One exchange\<close>

text \<open>How far an HTTP exchange got; the context error is the one seen when the transport failed.\<close>

datatype http_outcome =
    BadURL goerr | ContextDone goerr | BadRequest goerr | DoFailed "goerr option" goerr
  | Status int | BodyFailed "goerr option" goerr | BadJson goerr | Answer jmap

fun vkcalls_request :: "string \<Rightarrow> string \<Rightarrow> http_outcome \<Rightarrow> reply" where
  "vkcalls_request step host (BadURL e) = Inl (newVKCallsFailure step vkCallsFailureSetup (Some e))"
| "vkcalls_request step host (ContextDone e) = Inl e"
| "vkcalls_request step host (BadRequest e) =
     Inl (newVKCallsFailure step vkCallsFailureSetup (Some (Wrapf ''create request: '' e [])))"
| "vkcalls_request step host (DoFailed ctx e) =
     Inl (newVKCallsFailure step vkCallsFailureNetwork (Some (newVKAuthTransportError ctx step host e)))"
| "vkcalls_request step host (Status n) =
     Inl (newVKCallsFailure step vkCallsFailureVKAPI (Some (HttpStatus n)))"
| "vkcalls_request step host (BodyFailed ctx e) =
     Inl (newVKCallsFailure step vkCallsFailureNetwork (Some (newVKAuthTransportError ctx step host e)))"
| "vkcalls_request step host (BadJson e) =
     Inl (newVKCallsFailure step vkCallsFailureDecode (Some (Wrapf ''unmarshal JSON: '' e [])))"
| "vkcalls_request step host (Answer resp) = Inr resp"

text \<open>The legacy chain's exchange, \<open>core/vk_auth.go\<close>, makes no such difference.\<close>

fun legacy_request :: "string \<Rightarrow> string \<Rightarrow> http_outcome \<Rightarrow> reply" where
  "legacy_request step host (BadURL e) = Inl (Wrapf ''parse request URL: '' e [])"
| "legacy_request step host (ContextDone e) = Inl e"
| "legacy_request step host (BadRequest e) = Inl e"
| "legacy_request step host (DoFailed ctx e) =
     Inl (newVKAuthTransportError ctx (''legacy.'' @ step) host e)"
| "legacy_request step host (Status n) = Inl (HttpStatus n)"
| "legacy_request step host (BodyFailed ctx e) =
     Inl (newVKAuthTransportError ctx (''legacy.'' @ step) host e)"
| "legacy_request step host (BadJson e) = Inl e"
| "legacy_request step host (Answer resp) = Inr resp"

section \<open>A request with its captcha\<close>

text \<open>\<open>url.Values.Encode\<close> writes the keys in ascending order.\<close>

definition Values_Encode :: "(string \<times> string) list \<Rightarrow> string" where
  "Values_Encode vs = captchaV2EncodeForm (sort_key fst vs)"

definition captcha_fields :: "captcha_error \<Rightarrow> string \<Rightarrow> (string \<times> string) list" where
  "captcha_fields challenge token =
     [(''captcha_key'', []), (''captcha_sid'', CaptchaSid challenge), (''captcha_ts'', CaptchaTs challenge),
      (''captcha_attempt'', captcha_attempt challenge), (''is_sound_captcha'', ''0''),
      (''success_token'', token)]"

definition vkCallsCaptchaRetryURL :: "string \<Rightarrow> captcha_error \<Rightarrow> string \<Rightarrow> string" where
  "vkCallsCaptchaRetryURL endpoint challenge token =
     endpoint @ ''&'' @ Values_Encode (captcha_fields challenge token)"

text \<open>\<open>ctx (2 * a)\<close> is the context error at the start of attempt \<open>a\<close>, \<open>ctx (2 * a + 1)\<close> after its
  captcha. The result lists the URLs requested and the challenges handed to the solver.\<close>

function vkCallsRequestWithCaptcha ::
  "(nat \<Rightarrow> goerr option) \<Rightarrow> (nat \<Rightarrow> string \<Rightarrow> reply) \<Rightarrow> (captcha_error \<Rightarrow> goerr + string) \<Rightarrow>
   (string \<Rightarrow> string option) \<Rightarrow> string \<Rightarrow> nat \<Rightarrow> string \<Rightarrow> reply \<times> string list \<times> captcha_error list" where
  "vkCallsRequestWithCaptcha ctx request solve raw_query step attempt endpoint =
     (if attempt \<ge> 2 then
        (Inl (newVKCallsFailure step vkCallsFailureCaptcha (Some (Plain ''captcha retry exhausted''))), [], [])
      else case ctx (2 * attempt) of Some e \<Rightarrow> (Inl e, [], []) | None \<Rightarrow>
     (case request attempt endpoint of Inl e \<Rightarrow> (Inl e, [endpoint], []) | Inr resp \<Rightarrow>
     (case vkCallsAPIError raw_query resp of None \<Rightarrow> (Inr resp, [endpoint], []) | Some apiErr \<Rightarrow>
     (case errors_as as_captcha apiErr of
        None \<Rightarrow> (Inl (newVKCallsFailure step (vkCallsAPIErrorKind apiErr) (Some apiErr)), [endpoint], [])
      | Some challenge \<Rightarrow>
          if attempt > 0 \<or> RedirectURI challenge = [] \<or> SessionToken challenge = [] \<or> CaptchaSid challenge = []
          then (Inl (newVKCallsFailure step vkCallsFailureCaptcha (Some apiErr)), [endpoint], [])
          else (case ctx (2 * attempt + 1) of Some e \<Rightarrow> (Inl e, [endpoint], [challenge]) | None \<Rightarrow>
           (case solve challenge of
              Inl e \<Rightarrow> (Inl (newVKCallsFailure step vkCallsFailureCaptcha
                         (Some (Wrapf ''captcha solving failed: '' e []))), [endpoint], [challenge])
            | Inr token \<Rightarrow>
                if trim_space token = [] then
                  (Inl (newVKCallsFailure step vkCallsFailureCaptcha
                     (Some (Plain ''captcha success token empty''))), [endpoint], [challenge])
                else let (r, urls, solved) = vkCallsRequestWithCaptcha ctx request solve raw_query step
                           (attempt + 1) (vkCallsCaptchaRetryURL endpoint challenge token)
                     in (r, endpoint # urls, challenge # solved)))))))"
  by pat_completeness auto
termination
  by (relation "measure (\<lambda>(ctx, request, solve, rq, step, attempt, endpoint). 2 - attempt)") auto

declare vkCallsRequestWithCaptcha.simps [simp del]

section \<open>The five steps\<close>

record calls_world =
  cw_entry :: "goerr option"
  cw_skip :: bool
  cw_client :: "goerr option"
  cw_ctx :: "nat \<Rightarrow> nat \<Rightarrow> goerr option"
  cw_exchange :: "nat \<Rightarrow> nat \<Rightarrow> string \<Rightarrow> http_outcome"
  cw_solve :: "nat \<Rightarrow> captcha_error \<Rightarrow> goerr + string"
  cw_query :: "string \<Rightarrow> string option"
  cw_marshal :: "jmap \<Rightarrow> string"
  cw_device :: string
  cw_okDevice :: string
  cw_name :: string

text \<open>Requests are recorded with the number of their step.\<close>

type_synonym 'a calls_run = "(goerr + 'a) \<times> (nat \<times> string) list"

definition and_then :: "'a calls_run \<Rightarrow> ('a \<Rightarrow> 'b calls_run) \<Rightarrow> 'b calls_run" where
  "and_then m f =
     (case m of
        (Inl e, sent) \<Rightarrow> (Inl e, sent)
      | (Inr x, sent) \<Rightarrow> let (r, sent') = f x in (r, sent @ sent'))"

definition parsed :: "string \<Rightarrow> string \<Rightarrow> string \<Rightarrow> goerr + 'a \<Rightarrow> 'a calls_run" where
  "parsed step pre post r =
     (case r of
        Inl e \<Rightarrow> (Inl (newVKCallsFailure step vkCallsFailureParse (Some (Wrapf pre e post))), [])
      | Inr x \<Rightarrow> (Inr x, []))"

definition step_name :: "nat \<Rightarrow> string" where
  "step_name i =
     (if i = 1 then ''step1 auth.getAnonymToken'' else if i = 2 then ''step2 messages.getCallPreview''
      else if i = 3 then ''step3 messages.getAnonymCallToken'' else if i = 4 then ''step4 auth.anonymLogin''
      else ''step5 vchat.joinConversationByLink'')"

definition vkCallsAPIHost :: string where "vkCallsAPIHost = ''api.vk.me''"
definition vkCallsAnonAPIVersion :: string where "vkCallsAnonAPIVersion = ''5.276''"
definition vkConnectClientID :: string where "vkConnectClientID = ''8093730''"
definition okHost :: string where "okHost = ''calls.okcdn.ru''"

definition api_method :: "string \<Rightarrow> string" where
  "api_method m = ''https://'' @ vkCallsAPIHost @ ''/method/'' @ m @ ''?v='' @ vkCallsAnonAPIVersion"

definition linkURL :: "string \<Rightarrow> string" where
  "linkURL link = QueryEscape (''https://vk.com/call/join/'' @ link)"

definition resp_note :: "calls_world \<Rightarrow> jmap \<Rightarrow> string" where
  "resp_note w resp = '' (resp: '' @ truncateVKCallsResp (cw_marshal w) resp @ '')''"

definition ask_captcha :: "calls_world \<Rightarrow> nat \<Rightarrow> string \<Rightarrow> jmap calls_run" where
  "ask_captcha w i url =
     (let (r, urls, solved) = vkCallsRequestWithCaptcha (cw_ctx w i)
            (\<lambda>a u. vkcalls_request (step_name i) vkCallsAPIHost (cw_exchange w i a u))
            (cw_solve w i) (cw_query w) (step_name i) 0 url
      in (r, map (Pair i) urls))"

definition ask_ok :: "calls_world \<Rightarrow> nat \<Rightarrow> string \<Rightarrow> jmap calls_run" where
  "ask_ok w i url = (vkcalls_request (step_name i) okHost (cw_exchange w i 0 url), [(i, url)])"

definition step1_url :: "calls_world \<Rightarrow> string \<Rightarrow> string" where
  "step1_url w link =
     api_method ''auth.getAnonymToken'' @ ''&client_id='' @ vkConnectClientID @ ''&link='' @ linkURL link @
     ''&device_id='' @ cw_device w @ ''&anonymName='' @ QueryEscape (cw_name w) @ ''&lang=en''"

definition vkcalls_step1 :: "calls_world \<Rightarrow> string \<Rightarrow> string calls_run" where
  "vkcalls_step1 w link =
     and_then (ask_captcha w 1 (step1_url w link)) (\<lambda>resp.
       parsed (step_name 1) ''parse token: '' (resp_note w resp)
         (extractVKCallsStr resp [''response'', ''token'']))"

definition step2_url :: "calls_world \<Rightarrow> string \<Rightarrow> string \<Rightarrow> string" where
  "step2_url w link token =
     api_method ''messages.getCallPreview'' @ ''&anonymous_token='' @ QueryEscape token @
     ''&device_id='' @ cw_device w @
     ''&extended=1&fields=first_name,last_name,photo_200&lang=en&link='' @ linkURL link"

definition vkcalls_step2 :: "calls_world \<Rightarrow> string \<Rightarrow> string \<Rightarrow> (string \<times> string) calls_run" where
  "vkcalls_step2 w link token =
     and_then (ask_captcha w 2 (step2_url w link token)) (\<lambda>resp.
     and_then (parsed (step_name 2) ''parse user_id: '' (resp_note w resp)
         (extractVKCallsFloat resp [''response'', ''user_id''])) (\<lambda>userID.
     and_then (parsed (step_name 2) ''parse secret: '' []
         (extractVKCallsStr resp [''response'', ''secret''])) (\<lambda>secret.
       (Inr (fmt_f0 userID, secret), []))))"

definition step3_url :: "calls_world \<Rightarrow> string \<Rightarrow> string \<Rightarrow> string \<Rightarrow> string \<Rightarrow> string" where
  "step3_url w link token userID secret =
     api_method ''messages.getAnonymCallToken'' @ ''&anonymous_token='' @ QueryEscape token @
     ''&device_id='' @ cw_device w @ ''&link='' @ linkURL link @ ''&name='' @ QueryEscape (cw_name w) @
     ''&user_id='' @ userID @ ''&secret='' @ QueryEscape secret @ ''&lang=en''"

definition vkcalls_step3 ::
  "calls_world \<Rightarrow> string \<Rightarrow> string \<Rightarrow> string \<Rightarrow> string \<Rightarrow> string calls_run" where
  "vkcalls_step3 w link token userID secret =
     and_then (ask_captcha w 3 (step3_url w link token userID secret)) (\<lambda>resp.
       parsed (step_name 3) ''parse token: '' (resp_note w resp)
         (extractVKCallsStr resp [''response'', ''token'']))"

definition session_data :: "string \<Rightarrow> string" where
  "session_data okDevice =
     ''{\"version\":2,\"device_id\":\"'' @ okDevice @ ''\",\"client_version\":\"1.0.1\"}''"

definition vkcalls_step4 :: "calls_world \<Rightarrow> string calls_run" where
  "vkcalls_step4 w =
     and_then (ask_ok w 4 (''https://calls.okcdn.ru/fb.do?session_data='' @
        QueryEscape (session_data (cw_okDevice w)) @
        ''&method=auth.anonymLogin&format=JSON&application_key=CGMMEJLGDIHBABABA'')) (\<lambda>resp.
       case vkCallsOKError resp of
         Some e \<Rightarrow> (Inl (newVKCallsFailure (step_name 4) vkCallsFailureOKCDN (Some e)), [])
       | None \<Rightarrow> parsed (step_name 4) ''parse session_key: '' (resp_note w resp)
           (extractVKCallsStr resp [''session_key'']))"

definition vkcalls_step5 ::
  "calls_world \<Rightarrow> string \<Rightarrow> string \<Rightarrow> string \<Rightarrow> (string \<times> string \<times> string list) calls_run" where
  "vkcalls_step5 w link okAnonymToken sessionKey =
     and_then (ask_ok w 5 (''https://calls.okcdn.ru/fb.do?joinLink='' @ link @
        ''&isVideo=false&protocolVersion=5&anonymToken='' @ okAnonymToken @
        ''&method=vchat.joinConversationByLink&format=JSON'' @
        ''&application_key=CGMMEJLGDIHBABABA&session_key='' @ sessionKey)) (\<lambda>resp.
       case vkCallsOKError resp of
         Some e \<Rightarrow> (Inl (newVKCallsFailure (step_name 5) vkCallsFailureOKCDN
                      (Some (Wrapf [] e (resp_note w resp)))), [])
       | None \<Rightarrow>
           and_then (parsed (step_name 5) ''parse username: '' (resp_note w resp)
             (extractVKCallsStr resp [''turn_server'', ''username''])) (\<lambda>user.
           and_then (parsed (step_name 5) ''parse credential: '' []
             (extractVKCallsStr resp [''turn_server'', ''credential''])) (\<lambda>pass.
             let addrs = parseVKCallsTURNAddresses resp in
             if addrs = [] then
               (Inl (newVKCallsFailure (step_name 5) vkCallsFailureParse
                  (Some (Plain ''turn_server.urls empty''))), [])
             else (Inr (user, pass, addrs), []))))"

definition getVKCredsViaVKCallsPath ::
  "calls_world \<Rightarrow> string \<Rightarrow> (string \<times> string \<times> string list) calls_run" where
  "getVKCredsViaVKCallsPath w link =
     (case cw_entry w of Some e \<Rightarrow> (Inl e, []) | None \<Rightarrow>
      if cw_skip w then
        (Inl (newVKCallsFailure ''preflight'' vkCallsFailureSkipped
           (Some (Plain ''disabled by VK_SKIP_VKCALLS=1''))), [])
      else case cw_client w of
        Some e \<Rightarrow> (Inl (newVKCallsFailure ''setup'' vkCallsFailureSetup
                    (Some (Wrapf ''create tls client: '' e []))), [])
      | None \<Rightarrow>
          and_then (vkcalls_step1 w link) (\<lambda>token.
          and_then (vkcalls_step2 w link token) (\<lambda>(userID, secret).
          and_then (vkcalls_step3 w link token userID secret) (\<lambda>okAnonymToken.
          and_then (vkcalls_step4 w) (\<lambda>sessionKey.
            vkcalls_step5 w link okAnonymToken sessionKey)))))"

section \<open>Lemmas\<close>

lemma captcha_of_api_error:
  "vkCallsAPIError rq resp = Some e \<Longrightarrow>
     errors_as as_captcha e = (case e of Captcha c \<Rightarrow> Some c | _ \<Rightarrow> None)"
  by (auto simp: vkCallsAPIError_def errors_as_def List.map_filter_simps Let_def split: option.splits if_splits)

lemma captcha_fields_query:
  "parse_query (q @ ''&'' @ Values_Encode (captcha_fields c token)) =
     parse_query q @ sort_key fst (captcha_fields c token)"
proof -
  have "sort_key fst (captcha_fields c token) \<noteq> []"
    by (simp add: captcha_fields_def)
  note form = parse_query_form [OF this]
  show ?thesis
    by (simp only: parse_query_append Values_Encode_def form)
qed

lemma sorted_captcha_fields:
  "sort_key fst (captcha_fields c token) =
     [(''captcha_attempt'', captcha_attempt c), (''captcha_key'', []), (''captcha_sid'', CaptchaSid c),
      (''captcha_ts'', CaptchaTs c), (''is_sound_captcha'', ''0''), (''success_token'', token)]"
  by (simp add: captcha_fields_def less_char_def less_eq_char_def list_less_def lexord_def)

lemma retry_query:
  "parse_query (vkCallsCaptchaRetryURL endpoint c token) = parse_query endpoint @
     [(''captcha_attempt'', captcha_attempt c), (''captcha_key'', []), (''captcha_sid'', CaptchaSid c),
      (''captcha_ts'', CaptchaTs c), (''is_sound_captcha'', ''0''), (''success_token'', token)]"
  unfolding vkCallsCaptchaRetryURL_def captcha_fields_query sorted_captcha_fields ..

definition resumable :: "captcha_error \<Rightarrow> bool" where
  "resumable c \<longleftrightarrow> RedirectURI c \<noteq> [] \<and> SessionToken c \<noteq> [] \<and> CaptchaSid c \<noteq> []"

lemma second_attempt:
  assumes "vkCallsRequestWithCaptcha ctx request solve rq step 1 endpoint = (r, urls, solved)"
  shows "solved = []" "urls = [] \<or> urls = [endpoint]"
    "r = Inr resp \<Longrightarrow> urls = [endpoint] \<and> request 1 endpoint = Inr resp \<and> vkCallsAPIError rq resp = None"
  using assms unfolding vkCallsRequestWithCaptcha.simps [of _ _ _ _ _ 1]
  by (auto split: option.splits sum.splits)

lemma no_second_captcha:
  "vkCallsRequestWithCaptcha ctx request solve rq step (Suc 0) endpoint = (r, urls, solved) \<Longrightarrow> solved = []"
  by (rule second_attempt(1)) simp

lemma first_attempt:
  assumes "vkCallsRequestWithCaptcha ctx request solve rq step 0 endpoint = (r, urls, solved)"
  obtains (single) "length urls \<le> 1" "set urls \<subseteq> {endpoint}" "length solved \<le> 1"
      "\<forall>c \<in> set solved. resumable c"
      "\<And>resp. r = Inr resp \<Longrightarrow> urls = [endpoint] \<and> request 0 endpoint = Inr resp \<and> vkCallsAPIError rq resp = None"
  | (resumed) c token urls' where "resumable c" "solved = [c]" "solve c = Inr token" "trim_space token \<noteq> []"
      "urls = endpoint # urls'"
      "vkCallsRequestWithCaptcha ctx request solve rq step 1 (vkCallsCaptchaRetryURL endpoint c token) = (r, urls', [])"
proof -
  note d = assms [unfolded vkCallsRequestWithCaptcha.simps [of _ _ _ _ _ 0]]
  show thesis
  proof (cases "\<exists>c token urls'. resumable c \<and> solved = [c] \<and> solve c = Inr token \<and> trim_space token \<noteq> [] \<and>
      urls = endpoint # urls' \<and> vkCallsRequestWithCaptcha ctx request solve rq step 1
        (vkCallsCaptchaRetryURL endpoint c token) = (r, urls', [])")
    case True
    then show ?thesis
      using resumed by blast
  next
    case False
    show ?thesis
      by (rule single; use d False in \<open>auto simp: resumable_def split: option.splits sum.splits if_splits
        prod.splits dest: no_second_captcha\<close>)
  qed
qed

text \<open>The run of a list of steps: what it has sent.\<close>

definition sends :: "nat \<Rightarrow> nat \<Rightarrow> nat \<Rightarrow> string \<Rightarrow> 'a calls_run \<Rightarrow> bool" where
  "sends lo hi n d m \<longleftrightarrow>
     length (snd m) \<le> n \<and> sorted (map fst (snd m)) \<and>
     (\<forall>(i, u) \<in> set (snd m). lo \<le> i \<and> i \<le> hi \<and> (i \<le> 3 \<longrightarrow> contains d u))"

lemma sends_return [simp]: "sends lo hi n d (r, [])"
  by (simp add: sends_def)

lemma sends_parsed [simp]: "sends lo hi n d (parsed step pre post r)"
  by (auto simp: parsed_def split: sum.splits)

lemma sends_and_then:
  assumes "sends lo mid n d m" and "\<And>x. sends mid' hi n' d (f x)"
    and "mid \<le> mid'" "lo \<le> mid'" "mid \<le> hi" "n + n' \<le> k"
  shows "sends lo hi k d (and_then m f)"
proof (cases m)
  case (Pair r sent)
  show ?thesis
  proof (cases r)
    case (Inl e)
    then show ?thesis
      using assms(1,5,6) Pair by (auto simp: sends_def and_then_def)
  next
    case (Inr x)
    obtain r' sent' where f: "f x = (r', sent')"
      by (cases "f x")
    show ?thesis
      using assms(1,3-6) assms(2) [of x] Pair Inr f
      by (fastforce simp: sends_def and_then_def sorted_append)
  qed
qed

lemma and_then_pure: "snd m = [] \<Longrightarrow> (\<And>x. snd (f x) = []) \<Longrightarrow> snd (and_then m f) = []"
  by (cases m; cases "fst m") (simp_all add: and_then_def case_prod_beta Let_def)

lemma sends_then_pure:
  assumes "sends lo hi n d m" and "\<And>x. snd (f x) = []"
  shows "sends lo hi n d (and_then m f)"
proof -
  have "snd (and_then m f) = snd m"
    using assms(2) by (cases m; cases "fst m") (simp_all add: and_then_def case_prod_beta Let_def)
  then show ?thesis
    using assms(1) by (simp add: sends_def)
qed

lemma and_then_Inr:
  "fst (and_then m f) = Inr y \<longleftrightarrow> (\<exists>x. fst m = Inr x \<and> fst (f x) = Inr y)"
  by (auto simp: and_then_def split: sum.splits prod.splits)

lemma and_then_sent:
  "fst m = Inr x \<Longrightarrow> snd (and_then m f) = snd m @ snd (f x)"
  by (auto simp: and_then_def split: sum.splits prod.splits)

lemma parsed_sent [simp]: "snd (parsed step pre post r) = []"
  by (simp add: parsed_def split: sum.splits)

lemma retry_prefix: "contains d url \<Longrightarrow> contains d (vkCallsCaptchaRetryURL url c token)"
  by (auto simp: vkCallsCaptchaRetryURL_def)

lemma captcha_run:
  assumes run: "vkCallsRequestWithCaptcha ctx request solve rq step 0 endpoint = (r, urls, solved)"
  shows "length urls \<le> 2" "length solved \<le> 1" "\<forall>c \<in> set solved. resumable c"
    "contains d endpoint \<Longrightarrow> \<forall>u \<in> set urls. contains d u"
    "\<forall>resp. r = Inr resp \<longrightarrow> vkCallsAPIError rq resp = None \<and> urls \<noteq> [] \<and>
       request (length urls - 1) (last urls) = Inr resp"
    "length urls = 2 \<longrightarrow> (\<exists>c token. solved = [c] \<and> solve c = Inr token \<and>
       urls = [endpoint, vkCallsCaptchaRetryURL endpoint c token])"
proof -
  have "length urls \<le> 2 \<and> length solved \<le> 1 \<and> (\<forall>c \<in> set solved. resumable c) \<and>
    (contains d endpoint \<longrightarrow> (\<forall>u \<in> set urls. contains d u)) \<and>
    (\<forall>resp. r = Inr resp \<longrightarrow> vkCallsAPIError rq resp = None \<and> urls \<noteq> [] \<and>
       request (length urls - 1) (last urls) = Inr resp) \<and>
    (length urls = 2 \<longrightarrow> (\<exists>c token. solved = [c] \<and> solve c = Inr token \<and>
       urls = [endpoint, vkCallsCaptchaRetryURL endpoint c token]))"
    using run
  proof (cases rule: first_attempt)
    case single
    then show ?thesis
      by auto
  next
    case (resumed c token urls')
    note s = second_attempt [OF resumed(6)]
    from s(2) show ?thesis
      using resumed(1-5) s(3) by (auto simp: retry_prefix)
  qed
  then show "length urls \<le> 2" "length solved \<le> 1" "\<forall>c \<in> set solved. resumable c"
    "contains d endpoint \<Longrightarrow> \<forall>u \<in> set urls. contains d u"
    "\<forall>resp. r = Inr resp \<longrightarrow> vkCallsAPIError rq resp = None \<and> urls \<noteq> [] \<and>
       request (length urls - 1) (last urls) = Inr resp"
    "length urls = 2 \<longrightarrow> (\<exists>c token. solved = [c] \<and> solve c = Inr token \<and>
       urls = [endpoint, vkCallsCaptchaRetryURL endpoint c token])"
    by blast+
qed

lemma ask_captcha_run:
  obtains r urls solved where "vkCallsRequestWithCaptcha (cw_ctx w i)
      (\<lambda>a u. vkcalls_request (step_name i) vkCallsAPIHost (cw_exchange w i a u))
      (cw_solve w i) (cw_query w) (step_name i) 0 url = (r, urls, solved)"
    and "ask_captcha w i url = (r, map (Pair i) urls)"
  by (cases "vkCallsRequestWithCaptcha (cw_ctx w i)
      (\<lambda>a u. vkcalls_request (step_name i) vkCallsAPIHost (cw_exchange w i a u))
      (cw_solve w i) (cw_query w) (step_name i) 0 url") (auto simp: ask_captcha_def)

lemma sends_ask_captcha: "contains d url \<Longrightarrow> sends i i 2 d (ask_captcha w i url)"
proof (cases rule: ask_captcha_run [of w i url])
  case (1 r urls solved)
  assume "contains d url"
  then show ?thesis
    using captcha_run(1,4) [OF 1(1)] 1(2)
    by (auto simp: sends_def sorted_wrt_map comp_def sorted_wrt_true)
qed

lemma ask_captcha_sent:
  "fst (ask_captcha w i url) = Inr x \<Longrightarrow> i \<in> fst ` set (snd (ask_captcha w i url))"
proof (cases rule: ask_captcha_run [of w i url])
  case (1 r urls solved)
  assume "fst (ask_captcha w i url) = Inr x"
  then show ?thesis
    using captcha_run(5) [OF 1(1)] 1(2) by (cases urls) auto
qed

lemma sends_ask_ok: "3 < i \<Longrightarrow> sends i i 1 d (ask_ok w i url)"
  by (simp add: ask_ok_def sends_def)

lemma contains_pair: "contains (a @ b) (a @ b @ t)"
  using contains_self [of "a @ b" t] by simp

lemma sends_steps:
  defines "d \<equiv> \<lambda>w. ''&device_id='' @ cw_device w"
  shows "sends 1 1 2 (d w) (vkcalls_step1 w link)"
    and "sends 2 2 2 (d w) (vkcalls_step2 w link token)"
    and "sends 3 3 2 (d w) (vkcalls_step3 w link token uid secret)"
    and "sends 4 4 1 (d w) (vkcalls_step4 w)"
    and "sends 5 5 1 (d w) (vkcalls_step5 w link token key)"
proof -
  have c: "contains (d w) (step1_url w link)" "contains (d w) (step2_url w link token)"
    "contains (d w) (step3_url w link token uid secret)"
    unfolding step1_url_def step2_url_def step3_url_def d_def
    by (rule contains_pair | rule contains_append2)+
  show "sends 1 1 2 (d w) (vkcalls_step1 w link)"
    unfolding vkcalls_step1_def by (rule sends_then_pure [OF sends_ask_captcha [OF c(1)]]) simp
  show "sends 2 2 2 (d w) (vkcalls_step2 w link token)"
    unfolding vkcalls_step2_def
    by (rule sends_then_pure [OF sends_ask_captcha [OF c(2)]]) (simp add: and_then_pure)
  show "sends 3 3 2 (d w) (vkcalls_step3 w link token uid secret)"
    unfolding vkcalls_step3_def by (rule sends_then_pure [OF sends_ask_captcha [OF c(3)]]) simp
  show "sends 4 4 1 (d w) (vkcalls_step4 w)"
    unfolding vkcalls_step4_def
    by (rule sends_then_pure [OF sends_ask_ok]) (simp_all split: option.splits)
  show "sends 5 5 1 (d w) (vkcalls_step5 w link token key)"
    unfolding vkcalls_step5_def
    by (rule sends_then_pure [OF sends_ask_ok]) (simp_all add: and_then_pure Let_def split: option.splits)
qed

lemma step_answered:
  "fst (vkcalls_step1 w link) = Inr x \<Longrightarrow> 1 \<in> fst ` set (snd (vkcalls_step1 w link))"
  "fst (vkcalls_step2 w link token) = Inr y \<Longrightarrow> 2 \<in> fst ` set (snd (vkcalls_step2 w link token))"
  "fst (vkcalls_step3 w link token uid secret) = Inr x \<Longrightarrow>
     3 \<in> fst ` set (snd (vkcalls_step3 w link token uid secret))"
  "fst (vkcalls_step4 w) = Inr x \<Longrightarrow> 4 \<in> fst ` set (snd (vkcalls_step4 w))"
  "fst (vkcalls_step5 w link token key) = Inr z \<Longrightarrow>
     5 \<in> fst ` set (snd (vkcalls_step5 w link token key)) \<and> snd (snd z) \<noteq> []"
  unfolding vkcalls_step1_def vkcalls_step2_def vkcalls_step3_def vkcalls_step4_def vkcalls_step5_def
  by (auto simp: and_then_Inr and_then_sent image_Un ask_ok_def Let_def dest: ask_captcha_sent
      split: if_splits option.splits)

section \<open>An example\<close>

definition sample_challenge :: json where
  "sample_challenge = JObj [(''error_code'', JNum 14), (''redirect_uri'', JStr ''r''), (''captcha_sid'', JStr ''7'')]"

definition sample_answer :: "nat \<Rightarrow> jmap" where
  "sample_answer i =
     (if i = 1 \<or> i = 3 then [(''response'', JObj [(''token'', JStr ''t'')])]
      else if i = 2 then [(''response'', JObj [(''user_id'', JNum 5), (''secret'', JStr ''s'')])]
      else if i = 4 then [(''session_key'', JStr ''k'')]
      else [(''turn_server'', JObj [(''username'', JStr ''u''), (''credential'', JStr ''p''),
              (''urls'', JArr [JStr ''turn:a:1?transport=udp''])])])"

text \<open>Step 2 asks for a captcha first.\<close>

definition sample_world :: calls_world where
  "sample_world =
     \<lparr>cw_entry = None, cw_skip = False, cw_client = None, cw_ctx = \<lambda>_ _. None,
      cw_exchange = \<lambda>i a u. Answer (if i = 2 \<and> a = 0 then [(''error'', sample_challenge)] else sample_answer i),
      cw_solve = \<lambda>_ _. Inr ''ok'', cw_query = \<lambda>u. Some ''session_token=x'', cw_marshal = \<lambda>_. [],
      cw_device = ''d'', cw_okDevice = ''o'', cw_name = ''n''\<rparr>"

lemma sample_run:
  "fst (getVKCredsViaVKCallsPath sample_world ''h'') = Inr (''u'', ''p'', [''a:1''])"
  "map fst (snd (getVKCredsViaVKCallsPath sample_world ''h'')) = [1, 2, 2, 3, 4, 5]"
  by code_simp+

section \<open>Properties\<close>

text \<open>A request that meets a captcha is resumed at most once, on the same URL, and only
  after the solver has answered a challenge that has a page, a session and an identifier; the resumed
  URL has the original parameters unchanged, followed by the six captcha fields, which read back as
  VK's identifiers and the token, whatever characters these have. An answer that is returned is the
  last one and has no error.\<close>

theorem captcha_resumed_once:
  "let (r, urls, solved) = vkCallsRequestWithCaptcha ctx request solve rq step 0 endpoint in
    length urls \<le> 2 \<and> length solved \<le> 1 \<and>
    (\<forall>c \<in> set solved. RedirectURI c \<noteq> [] \<and> SessionToken c \<noteq> [] \<and> CaptchaSid c \<noteq> []) \<and>
    (length urls = 2 \<longrightarrow> (\<exists>c token. solved = [c] \<and> solve c = Inr token \<and>
       urls = [endpoint, vkCallsCaptchaRetryURL endpoint c token] \<and>
       parse_query (vkCallsCaptchaRetryURL endpoint c token) = parse_query endpoint @
         [(''captcha_attempt'', captcha_attempt c), (''captcha_key'', []), (''captcha_sid'', CaptchaSid c),
          (''captcha_ts'', CaptchaTs c), (''is_sound_captcha'', ''0''), (''success_token'', token)])) \<and>
    (\<forall>resp. r = Inr resp \<longrightarrow> vkCallsAPIError rq resp = None \<and>
       request (length urls - 1) (last urls) = Inr resp)"
proof (cases "vkCallsRequestWithCaptcha ctx request solve rq step 0 endpoint")
  case (fields r urls solved)
  note c = captcha_run [OF fields]
  show ?thesis
    unfolding fields using c(1-3,5,6)
    by (auto simp: resumable_def retry_query)
qed

theorem captcha_resumed_once_witness:
  "let (r, urls, solved) = vkCallsRequestWithCaptcha (\<lambda>_. None)
      (\<lambda>a u. Inr (if a = 0 then [(''error'', sample_challenge)] else [])) (\<lambda>_. Inr ''a&b'')
      (\<lambda>u. Some ''session_token=x'') ''s'' 0 ''e?x=1'' in
    r = Inr [] \<and> length urls = 2 \<and> vkCallsAPIError (\<lambda>u. Some ''session_token=x'') [] = None \<and>
    (''success_token'', ''a&b'') \<in> set (parse_query (urls ! 1))"
proof -
  let ?solve = "\<lambda>_ :: captcha_error. Inr ''a&b'' :: goerr + string"
  let ?run = "vkCallsRequestWithCaptcha (\<lambda>_. None)
      (\<lambda>a u. Inr (if a = 0 then [(''error'', sample_challenge)] else [])) ?solve
      (\<lambda>u. Some ''session_token=x'') ''s'' 0 ''e?x=1''"
  obtain r urls solved where run: "?run = (r, urls, solved)"
    by (cases ?run) auto
  have "fst ?run = Inr [] \<and> length (fst (snd ?run)) = 2"
    by code_simp
  then have e: "r = Inr []" "length urls = 2"
    unfolding run by simp_all
  have c: "?solve c = Inr token \<Longrightarrow> token = ''a&b''" for c token
    by simp
  show ?thesis
    using captcha_resumed_once [where ctx = "\<lambda>_. None" and request =
        "\<lambda>a u. Inr (if a = 0 then [(''error'', sample_challenge)] else [])" and solve = ?solve and
        rq = "\<lambda>u. Some ''session_token=x''" and step = "''s''" and endpoint = "''e?x=1''"] e
    unfolding run by auto
qed



end
