(* ===== verification/CaptchaFlow.thy ===== *)
theory CaptchaFlow
  imports Chan ErrorPolicy
begin

text \<open>
  The captcha coordinator, \<open>core/captcha_flow.go\<close>: workers that need a captcha solved in a browser
  wait for each other at a gate, the one that is through shows its challenge and waits for a token,
  and the browser bridge asks for the challenge, reports a failed launch, submits a token or cancels.
  The operations under the coordinator's lock are functions; workers, bridge, deadlines and
  cancellations interleave as the steps of \<open>captcha_step\<close>. Pointers are numbers.
\<close>

section \<open>State\<close>

record pending =
  p_id :: string
  p_url :: string
  p_mode :: string
  p_err :: "goerr option"
  p_result :: "string chan"
  p_launched :: bool

text \<open>What a browser window and the application see; an event has no URL and no token.\<close>

record captchaEvent =
  requestId :: string
  ev_mode :: string
  deadlineMs :: int

datatype ui_note =
    Required captchaEvent | Closed string
  | Launched string string | LaunchFailed string | Accepted string string

text \<open>Where a worker is in \<open>waitForCaptcha\<close> and the \<open>begin\<close> and \<open>finish\<close> it calls.\<close>

datatype waiter =
    Idle | AtGate | Gate | Checked | Installed nat | Waiting nat
  | Leaving nat "goerr + string" | Closing nat "goerr + string" | Unset nat "goerr + string"
  | Done "string option" "goerr + string"

record coordinator =
  gate :: "unit chan"
  current :: "nat option"
  pendings :: "nat \<rightharpoonup> pending"
  waiters :: "nat \<Rightarrow> waiter"
  parent :: "nat \<Rightarrow> goerr option"
  seen :: "ui_note list"

definition newCaptchaCoordinator :: coordinator where
  "newCaptchaCoordinator =
     \<lparr>gate = make_chan 1, current = None, pendings = Map.empty, waiters = \<lambda>_. Idle,
      parent = \<lambda>_. None, seen = []\<rparr>"

definition current_pending :: "coordinator \<Rightarrow> pending option" where
  "current_pending b = (case current b of None \<Rightarrow> None | Some r \<Rightarrow> pendings b r)"

section \<open>Operations of the bridge\<close>

definition put :: "coordinator \<Rightarrow> pending \<Rightarrow> coordinator" where
  "put b p = b\<lparr>pendings := (pendings b)(the (current b) \<mapsto> p)\<rparr>"

definition active :: "coordinator \<Rightarrow> string \<Rightarrow> coordinator \<times> string option" where
  "active b i =
     (case current_pending b of
        None \<Rightarrow> (b, None)
      | Some r \<Rightarrow>
          if p_id r \<noteq> i \<or> p_err r \<noteq> None \<or> p_launched r then (b, None)
          else (put b (r\<lparr>p_launched := True\<rparr>), Some (p_url r)))"

definition launchFailed :: "coordinator \<Rightarrow> string \<Rightarrow> coordinator" where
  "launchFailed b i =
     (case current_pending b of
        None \<Rightarrow> b
      | Some r \<Rightarrow> if p_id r = i then put b (r\<lparr>p_launched := False\<rparr>) else b)"

definition submit :: "coordinator \<Rightarrow> string \<Rightarrow> string \<Rightarrow> coordinator \<times> bool" where
  "submit b i token =
     (case current_pending b of
        None \<Rightarrow> (b, False)
      | Some r \<Rightarrow>
          if p_id r \<noteq> i \<or> p_err r \<noteq> None \<or> trim_space token = [] then (b, False)
          else (case try_send (p_result r) token of
              Some c \<Rightarrow> (put b (r\<lparr>p_result := c\<rparr>), True)
            | None \<Rightarrow> (b, False)))"

text \<open>A context keeps its first error.\<close>

definition fail_with :: "goerr \<Rightarrow> pending \<Rightarrow> pending" where
  "fail_with e r = (if p_err r = None then r\<lparr>p_err := Some e\<rparr> else r)"

definition cancel :: "coordinator \<Rightarrow> string \<Rightarrow> coordinator \<times> bool" where
  "cancel b i =
     (case current_pending b of
        None \<Rightarrow> (b, False)
      | Some r \<Rightarrow> if p_id r \<noteq> i then (b, False) else (put b (fail_with Canceled r), True))"

section \<open>Operations of a worker\<close>

definition challenge_error :: "captcha_error option \<Rightarrow> int \<Rightarrow> goerr option" where
  "challenge_error ce timeout =
     (case ce of
        None \<Rightarrow> Some (Plain ''captcha challenge data incomplete'')
      | Some c \<Rightarrow>
          if RedirectURI c = [] \<or> SessionToken c = [] then Some (Plain ''captcha challenge data incomplete'')
          else if timeout \<le> 0 then Some (Plain ''captcha deadline missing'') else None)"

definition new_pending :: "string \<Rightarrow> string \<Rightarrow> string \<Rightarrow> goerr option \<Rightarrow> pending" where
  "new_pending i url mode err =
     \<lparr>p_id = i, p_url = url, p_mode = mode, p_err = err, p_result = make_chan 1, p_launched = False\<rparr>"

definition after_token :: "pending \<Rightarrow> string \<Rightarrow> goerr + string" where
  "after_token r token =
     (case p_err r of
        Some e \<Rightarrow> Inl e
      | None \<Rightarrow> if trim_space token = [] then Inl (Plain ''empty captcha result'') else Inr token)"

definition after_done :: "goerr \<Rightarrow> goerr + string" where
  "after_done e = Inl (if is_deadline e then Wrapf ''manual captcha timed out: '' e [] else e)"

definition moves :: "coordinator \<Rightarrow> nat \<Rightarrow> waiter \<Rightarrow> coordinator" where
  "moves b w pc = b\<lparr>waiters := (waiters b)(w := pc)\<rparr>"

definition tell :: "coordinator \<Rightarrow> ui_note \<Rightarrow> coordinator" where
  "tell b n = b\<lparr>seen := seen b @ [n]\<rparr>"

lemma new_pending_frame [simp]:
  "p_id (new_pending i url mode err) = i" "p_url (new_pending i url mode err) = url"
  "p_result (new_pending i url mode err) = make_chan 1" "p_launched (new_pending i url mode err) = False"
  by (simp_all add: new_pending_def)

text \<open>The two halves of \<open>finish\<close>: under the lock, and the cancellation with the release of the gate.\<close>

definition finish_unset :: "coordinator \<Rightarrow> nat \<Rightarrow> coordinator" where
  "finish_unset b r = (if current b = Some r then b\<lparr>current := None\<rparr> else b)"

definition finish_release :: "coordinator \<Rightarrow> nat \<Rightarrow> coordinator" where
  "finish_release b r =
     b\<lparr>pendings := (pendings b)(r := map_option (fail_with Canceled) (pendings b r)),
       gate := (case try_recv (gate b) of Some (u, g) \<Rightarrow> g | None \<Rightarrow> gate b)\<rparr>"

fun pointer :: "waiter \<Rightarrow> nat option" where
  "pointer (Installed r) = Some r" | "pointer (Waiting r) = Some r" | "pointer (Leaving r x) = Some r"
| "pointer (Closing r x) = Some r" | "pointer (Unset r x) = Some r" | "pointer w = None"

text \<open>Cancelling the context of a worker cancels the context derived from it.\<close>

definition cancel_parent :: "coordinator \<Rightarrow> nat \<Rightarrow> goerr \<Rightarrow> coordinator" where
  "cancel_parent b w e =
     b\<lparr>parent := (parent b)(w := (if parent b w = None then Some e else parent b w)),
       pendings := (case pointer (waiters b w) of
          None \<Rightarrow> pendings b
        | Some r \<Rightarrow> (pendings b)(r := map_option (fail_with e) (pendings b r)))\<rparr>"

section \<open>Steps\<close>

text \<open>\<open>req w\<close> is the challenge, the mode and the timeout of worker \<open>w\<close>.\<close>

inductive captcha_step ::
  "(nat \<Rightarrow> captcha_error option \<times> string \<times> int) \<Rightarrow> coordinator \<Rightarrow> coordinator \<Rightarrow> bool"
  for req :: "nat \<Rightarrow> captcha_error option \<times> string \<times> int"
where
  incomplete: "waiters b w = Idle \<Longrightarrow> req w = (ce, m, t) \<Longrightarrow> challenge_error ce t = Some e \<Longrightarrow>
    captcha_step req b (moves b w (Done None (Inl e)))"
| enter: "waiters b w = Idle \<Longrightarrow> req w = (ce, m, t) \<Longrightarrow> challenge_error ce t = None \<Longrightarrow>
    captcha_step req b (moves b w (case parent b w of Some e \<Rightarrow> Done None (Inl e) | None \<Rightarrow> AtGate))"
| acquire: "waiters b w = AtGate \<Longrightarrow> try_send (gate b) () = Some g \<Longrightarrow>
    captcha_step req b (moves (b\<lparr>gate := g\<rparr>) w Gate)"
| give_up: "waiters b w = AtGate \<Longrightarrow> parent b w = Some e \<Longrightarrow>
    captcha_step req b (moves b w (Done None (Inl e)))"
| stale: "waiters b w = Gate \<Longrightarrow> parent b w = Some e \<Longrightarrow> try_recv (gate b) = Some (u, g) \<Longrightarrow>
    captcha_step req b (moves (b\<lparr>gate := g\<rparr>) w (Done None (Inl e)))"
| check: "waiters b w = Gate \<Longrightarrow> parent b w = None \<Longrightarrow> captcha_step req b (moves b w Checked)"
| install: "waiters b w = Checked \<Longrightarrow> req w = (Some ce, m, t) \<Longrightarrow> pendings b r = None \<Longrightarrow>
    i \<notin> p_id ` ran (pendings b) \<Longrightarrow>
    captcha_step req b (moves (b\<lparr>current := Some r,
      pendings := (pendings b)(r \<mapsto> new_pending i (RedirectURI ce) m (parent b w))\<rparr>) w (Installed r))"
| announce: "waiters b w = Installed r \<Longrightarrow> pendings b r = Some p \<Longrightarrow>
    captcha_step req b (moves (tell b (Required
      \<lparr>requestId = p_id p, ev_mode = p_mode p, deadlineMs = d\<rparr>)) w (Waiting r))"
| token: "waiters b w = Waiting r \<Longrightarrow> pendings b r = Some p \<Longrightarrow> try_recv (p_result p) = Some (tok, c) \<Longrightarrow>
    captcha_step req b (moves (b\<lparr>pendings := (pendings b)(r \<mapsto> p\<lparr>p_result := c\<rparr>)\<rparr>) w
      (Leaving r (after_token p tok)))"
| expired: "waiters b w = Waiting r \<Longrightarrow> pendings b r = Some p \<Longrightarrow> p_err p = Some e \<Longrightarrow>
    captcha_step req b (moves b w (Leaving r (after_done e)))"
| close: "waiters b w = Leaving r x \<Longrightarrow> pendings b r = Some p \<Longrightarrow>
    captcha_step req b (moves (tell b (Closed (p_id p))) w (Closing r x))"
| unset: "waiters b w = Closing r x \<Longrightarrow> captcha_step req b (moves (finish_unset b r) w (Unset r x))"
| release: "waiters b w = Unset r x \<Longrightarrow> pendings b r = Some p \<Longrightarrow>
    captcha_step req b (moves (finish_release b r) w (Done (Some (p_id p)) x))"
| deadline: "pendings b r = Some p \<Longrightarrow>
    captcha_step req b (b\<lparr>pendings := (pendings b)(r \<mapsto> fail_with DeadlineExceeded p)\<rparr>)"
| cancelled: "captcha_step req b (cancel_parent b w Canceled)"
| browser: "active b i = (b', out) \<Longrightarrow>
    captcha_step req b (case out of None \<Rightarrow> b' | Some url \<Rightarrow> tell b' (Launched i url))"
| launch_failed: "captcha_step req b (if current_pending b \<noteq> None \<and> p_id (the (current_pending b)) = i
      then tell (launchFailed b i) (LaunchFailed i) else launchFailed b i)"
| submitted: "submit b i tok = (b', ok) \<Longrightarrow>
    captcha_step req b (if ok then tell b' (Accepted i tok) else b')"
| user_cancel: "cancel b i = (b', ok) \<Longrightarrow> captcha_step req b b'"

inductive captcha_reach ::
  "(nat \<Rightarrow> captcha_error option \<times> string \<times> int) \<Rightarrow> coordinator \<Rightarrow> bool"
  for req :: "nat \<Rightarrow> captcha_error option \<times> string \<times> int"
where
  start: "captcha_reach req newCaptchaCoordinator"
| more: "captcha_reach req b \<Longrightarrow> captcha_step req b b' \<Longrightarrow> captcha_reach req b'"

section \<open>What the operations leave alone\<close>

lemma put_frame [simp]:
  "gate (put b p) = gate b" "current (put b p) = current b" "waiters (put b p) = waiters b"
  "parent (put b p) = parent b" "seen (put b p) = seen b"
  "pendings (put b p) = (pendings b)(the (current b) \<mapsto> p)"
  by (simp_all add: put_def)

lemma moves_frame [simp]:
  "gate (moves b w pc) = gate b" "current (moves b w pc) = current b" "parent (moves b w pc) = parent b"
  "pendings (moves b w pc) = pendings b" "seen (moves b w pc) = seen b"
  "waiters (moves b w pc) = (waiters b)(w := pc)"
  by (simp_all add: moves_def)

lemma tell_frame [simp]:
  "gate (tell b n) = gate b" "current (tell b n) = current b" "parent (tell b n) = parent b"
  "pendings (tell b n) = pendings b" "waiters (tell b n) = waiters b" "seen (tell b n) = seen b @ [n]"
  by (simp_all add: tell_def)

lemma fail_with_frame [simp]:
  "p_id (fail_with e p) = p_id p" "p_url (fail_with e p) = p_url p" "p_result (fail_with e p) = p_result p"
  "p_launched (fail_with e p) = p_launched p" "p_mode (fail_with e p) = p_mode p"
  "p_err (fail_with e p) = (if p_err p = None then Some e else p_err p)"
  by (simp_all add: fail_with_def)

lemma current_pending_Some:
  "current_pending b = Some p \<longleftrightarrow> (\<exists>r. current b = Some r \<and> pendings b r = Some p)"
  by (auto simp: current_pending_def split: option.splits)

text \<open>A bridge operation changes at most the current challenge, and not its identity.\<close>

definition touches :: "coordinator \<Rightarrow> coordinator \<Rightarrow> bool" where
  "touches b b' \<longleftrightarrow> gate b' = gate b \<and> current b' = current b \<and> waiters b' = waiters b \<and> parent b' = parent b \<and>
     (pendings b' = pendings b \<or> (\<exists>r p p'. current b = Some r \<and> pendings b r = Some p \<and>
       pendings b' = (pendings b)(r \<mapsto> p') \<and> p_id p' = p_id p \<and> p_url p' = p_url p))"

lemma touches_refl [simp]: "touches b b"
  by (simp add: touches_def)

lemma touches_tell [simp]: "touches b (tell b' n) = touches b b'"
  by (simp add: touches_def)

lemma touches_put:
  "current_pending b = Some p \<Longrightarrow> p_id p' = p_id p \<Longrightarrow> p_url p' = p_url p \<Longrightarrow> touches b (put b p')"
  by (auto simp: touches_def current_pending_Some)

lemma bridge_touches:
  "active b i = (b', out) \<Longrightarrow> touches b b'" "touches b (launchFailed b i)"
  "submit b i tok = (b', ok) \<Longrightarrow> touches b b'" "cancel b i = (b', ok) \<Longrightarrow> touches b b'"
  by (auto simp: active_def launchFailed_def submit_def cancel_def intro!: touches_put
      split: option.splits if_splits)

lemma seen_bridge [simp]:
  "active b i = (b', out) \<Longrightarrow> seen b' = seen b" "seen (launchFailed b i) = seen b"
  "submit b i tok = (b', ok) \<Longrightarrow> seen b' = seen b" "cancel b i = (b', ok) \<Longrightarrow> seen b' = seen b"
  by (auto simp: active_def launchFailed_def submit_def cancel_def split: option.splits if_splits)

text \<open>So a step is one of a worker or a deadline, or touches the current challenge only.\<close>

fun holds :: "waiter \<Rightarrow> bool" where
  "holds Idle = False" | "holds AtGate = False" | "holds (Done i x) = False" | "holds pc = True"

fun shown :: "waiter \<Rightarrow> nat option" where
  "shown (Installed r) = Some r" | "shown (Waiting r) = Some r" | "shown (Leaving r x) = Some r"
| "shown (Closing r x) = Some r" | "shown pc = None"

fun announced :: "waiter \<Rightarrow> nat option" where
  "announced (Waiting r) = Some r" | "announced (Leaving r x) = Some r" | "announced pc = None"

lemma shown_holds: "shown pc = Some r \<Longrightarrow> holds pc \<and> pointer pc = Some r"
  by (cases pc) auto

lemma announced_shown: "announced pc = Some r \<Longrightarrow> shown pc = Some r"
  by (cases pc) auto

section \<open>Invariants\<close>

definition gate_inv :: "coordinator \<Rightarrow> bool" where
  "gate_inv b \<longleftrightarrow> ccap (gate b) = 1 \<and>
     (\<forall>w. holds (waiters b w) \<longrightarrow> cbuf (gate b) = [()]) \<and>
     (\<forall>w v. holds (waiters b w) \<longrightarrow> holds (waiters b v) \<longrightarrow> w = v)"

lemma gate_inv_touches: "touches b b' \<Longrightarrow> gate_inv b \<Longrightarrow> gate_inv b'"
  by (simp add: touches_def gate_inv_def)

lemma gate_inv_tell [simp]: "gate_inv (tell b n) = gate_inv b"
  by (simp add: gate_inv_def)

lemma gate_inv_moves:
  "gate_inv b \<Longrightarrow> gate b' = gate b \<Longrightarrow> waiters b' = waiters b \<Longrightarrow> (holds pc \<longrightarrow> holds (waiters b w)) \<Longrightarrow>
     gate_inv (moves b' w pc)"
  by (auto simp: gate_inv_def)

lemma gate_inv_acquire:
  assumes "gate_inv b" "try_send (gate b) () = Some g"
  shows "gate_inv (moves (b\<lparr>gate := g\<rparr>) w Gate)"
proof -
  have g: "cbuf (gate b) = []" "cbuf g = [()]" "ccap g = 1"
    using assms by (auto simp: gate_inv_def try_send_def split: if_splits)
  then have "\<not> holds (waiters b v)" for v
    using assms(1) by (auto simp: gate_inv_def)
  then show ?thesis
    using g by (auto simp: gate_inv_def)
qed

lemma gate_inv_leave:
  assumes "gate_inv b" "holds (waiters b w)" "\<not> holds pc" "waiters b' = waiters b"
    "ccap (gate b') = 1"
  shows "gate_inv (moves b' w pc)"
  using assms by (auto simp: gate_inv_def)

lemma gate_inv_same: "gate_inv b \<Longrightarrow> gate b' = gate b \<Longrightarrow> waiters b' = waiters b \<Longrightarrow> gate_inv b'"
  by (simp add: gate_inv_def)

lemma gate_inv_step: "captcha_step req b b' \<Longrightarrow> gate_inv b \<Longrightarrow> gate_inv b'"
proof (induction rule: captcha_step.induct)
  case (acquire b w g)
  then show ?case
    by (simp add: gate_inv_acquire)
next
  case (stale b w e u g)
  then have "ccap g = 1"
    using go_chan.recv_some by (fastforce simp: gate_inv_def)
  then show ?case
    using stale by (intro gate_inv_leave [of b]) auto
next
  case (release b w r x p)
  have "ccap (gate (finish_release b r)) = 1"
    using release.prems go_chan.recv_some by (fastforce simp: gate_inv_def finish_release_def split: option.splits)
  then show ?case
    using release by (intro gate_inv_leave [of b]) (auto simp: finish_release_def)
next
  case (browser b i b' out)
  then show ?case
    by (simp add: gate_inv_touches [OF bridge_touches(1)] split: option.split)
next
  case (launch_failed b i)
  then show ?case
    by (simp add: gate_inv_touches [OF bridge_touches(2)])
next
  case (submitted b i tok b' ok)
  then show ?case
    by (simp add: gate_inv_touches [OF bridge_touches(3)])
next
  case (user_cancel b i b' ok)
  then show ?case
    using gate_inv_touches [OF bridge_touches(4)] by blast
next
  case (cancelled b w)
  then show ?case
    by (rule gate_inv_same) (simp_all add: cancel_parent_def)
next
  case (deadline b r p)
  from deadline.prems show ?case
    by (rule gate_inv_same) simp_all
qed (erule gate_inv_moves; simp add: finish_unset_def split: option.splits)+

text \<open>Challenges are only added with a fresh identifier, and keep it.\<close>

definition evolves :: "(nat \<rightharpoonup> pending) \<Rightarrow> (nat \<rightharpoonup> pending) \<Rightarrow> bool" where
  "evolves P P' \<longleftrightarrow> P' = P \<or> (\<exists>r p p'. P r = Some p \<and> p_id p' = p_id p \<and> P' = P(r \<mapsto> p')) \<or>
     (\<exists>r p. P r = None \<and> p_id p \<notin> p_id ` ran P \<and> P' = P(r \<mapsto> p))"

lemma evolves_same [simp]: "evolves P P"
  by (simp add: evolves_def)

lemma evolves_put: "P r = Some p \<Longrightarrow> p_id p' = p_id p \<Longrightarrow> evolves P (P(r \<mapsto> p'))"
  by (auto simp: evolves_def)

lemma evolves_new: "P r = None \<Longrightarrow> p_id p \<notin> p_id ` ran P \<Longrightarrow> evolves P (P(r \<mapsto> p))"
  unfolding evolves_def by blast

lemma evolves_fail: "evolves P (P(r := map_option (fail_with e) (P r)))"
proof (cases "P r")
  case None
  then have "P(r := map_option (fail_with e) (P r)) = P"
    by auto
  then show ?thesis
    by simp
next
  case (Some p)
  then show ?thesis
    by (simp add: evolves_put)
qed

lemma touches_evolves: "touches b b' \<Longrightarrow> evolves (pendings b) (pendings b')"
  by (auto simp: touches_def intro: evolves_put)

lemma step_evolves: "captcha_step req b b' \<Longrightarrow> evolves (pendings b) (pendings b')"
proof (induction rule: captcha_step.induct)
  case (install b w ce m t r i)
  then show ?case
    using evolves_new [of "pendings b" r "new_pending i (RedirectURI ce) m (parent b w)"]
    by (simp add: fun_upd_def)
next
  case (browser b i b' out)
  then show ?case
    by (simp add: touches_evolves [OF bridge_touches(1)] split: option.split)
next
  case (launch_failed b i)
  then show ?case
    by (simp add: touches_evolves [OF bridge_touches(2)])
next
  case (submitted b i tok b' ok)
  then show ?case
    by (simp add: touches_evolves [OF bridge_touches(3)])
next
  case (user_cancel b i b' ok)
  then show ?case
    by (rule touches_evolves [OF bridge_touches(4)])
next
  case (cancelled b w)
  show ?case
    by (simp add: cancel_parent_def evolves_fail split: option.split)
qed (simp_all add: evolves_put [unfolded fun_upd_def] evolves_fail [unfolded fun_upd_def] fun_upd_def
  finish_unset_def finish_release_def)

definition ids_ok :: "(nat \<rightharpoonup> pending) \<Rightarrow> bool" where
  "ids_ok P \<longleftrightarrow> (\<forall>r s p q. P r = Some p \<longrightarrow> P s = Some q \<longrightarrow> p_id p = p_id q \<longrightarrow> r = s)"

lemma ids_ok_evolves: "evolves P P' \<Longrightarrow> ids_ok P \<Longrightarrow> ids_ok P'"
proof -
  assume e: "evolves P P'" and ok: "ids_ok P"
  from e consider "P' = P" | r p p' where "P r = Some p" "p_id p' = p_id p" "P' = P(r \<mapsto> p')"
    | r p where "P r = None" "p_id p \<notin> p_id ` ran P" "P' = P(r \<mapsto> p)"
    unfolding evolves_def by blast
  then show ?thesis
  proof cases
    case 2
    then show ?thesis
      using ok unfolding ids_ok_def by (metis fun_upd_apply option.inject)
  next
    case 3
    have "p_id q \<noteq> p_id p" if "P s = Some q" for s q
      using 3(2) that by (metis image_eqI ranI)
    then show ?thesis
      using ok 3(3) unfolding ids_ok_def by (metis fun_upd_apply option.inject)
  qed (use ok in simp)
qed

lemma evolves_keeps: "evolves P P' \<Longrightarrow> P r = Some p \<Longrightarrow> \<exists>p'. P' r = Some p' \<and> p_id p' = p_id p"
  unfolding evolves_def by auto

text \<open>The current challenge is the one of the worker that is through the gate, until it unsets it.\<close>

definition pointer_inv :: "coordinator \<Rightarrow> bool" where
  "pointer_inv b \<longleftrightarrow> (\<forall>w r. pointer (waiters b w) = Some r \<longrightarrow> pendings b r \<noteq> None)"

definition current_inv :: "coordinator \<Rightarrow> bool" where
  "current_inv b \<longleftrightarrow> (\<forall>r. current b = Some r \<longleftrightarrow> (\<exists>w. shown (waiters b w) = Some r))"

lemma pointer_inv_moves:
  "pointer_inv b \<Longrightarrow> evolves (pendings b) (pendings b') \<Longrightarrow> waiters b' = waiters b \<Longrightarrow>
     (\<forall>r. pointer pc = Some r \<longrightarrow> pointer (waiters b w) = Some r \<or> pendings b' r \<noteq> None) \<Longrightarrow>
     pointer_inv (moves b' w pc)"
  by (simp add: pointer_inv_def) (metis evolves_keeps option.distinct(1) option.exhaust)

lemma pointer_inv_same:
  "pointer_inv b \<Longrightarrow> evolves (pendings b) (pendings b') \<Longrightarrow> waiters b' = waiters b \<Longrightarrow> pointer_inv b'"
  by (simp add: pointer_inv_def) (metis evolves_keeps option.distinct(1) option.exhaust)

lemma pointer_inv_touches: "touches b b' \<Longrightarrow> pointer_inv b \<Longrightarrow> pointer_inv b'"
  by (rule pointer_inv_same, assumption, erule touches_evolves, simp add: touches_def)

lemma pointer_inv_tell [simp]: "pointer_inv (tell b n) = pointer_inv b"
  by (simp add: pointer_inv_def)

lemma pointer_inv_step: "captcha_step req b b' \<Longrightarrow> pointer_inv b \<Longrightarrow> pointer_inv b'"
proof (induction rule: captcha_step.induct)
  case (install b w ce m t r i)
  from install.prems show ?case
    by (rule pointer_inv_moves) (simp_all add: evolves_new install.hyps)
next
  case (browser b i b' out)
  then show ?case
    by (simp add: pointer_inv_touches [OF bridge_touches(1)] split: option.split)
next
  case (launch_failed b i)
  then show ?case
    by (simp add: pointer_inv_touches [OF bridge_touches(2)])
next
  case (submitted b i tok b' ok)
  then show ?case
    by (simp add: pointer_inv_touches [OF bridge_touches(3)])
next
  case (user_cancel b i b' ok)
  from pointer_inv_touches [OF bridge_touches(4) [OF user_cancel.hyps] user_cancel.prems] show ?case .
next
  case (cancelled b w)
  then show ?case
    by (rule pointer_inv_same) (simp_all add: cancel_parent_def evolves_fail split: option.split)
next
  case (deadline b r p)
  from deadline.prems show ?case
    by (rule pointer_inv_same) (simp_all add: evolves_put deadline.hyps)
next
  case (release b w r x p)
  from release.prems show ?case
    by (rule pointer_inv_moves) (simp_all add: finish_release_def evolves_fail)
qed (erule pointer_inv_moves; simp add: finish_unset_def evolves_put split: option.splits)+

lemma current_inv_moves:
  "current_inv b \<Longrightarrow> current b' = current b \<Longrightarrow> waiters b' = waiters b \<Longrightarrow> shown pc = shown (waiters b w) \<Longrightarrow>
     current_inv (moves b' w pc)"
  by (simp add: current_inv_def) metis

lemma current_inv_same:
  "current_inv b \<Longrightarrow> current b' = current b \<Longrightarrow> waiters b' = waiters b \<Longrightarrow> current_inv b'"
  by (simp add: current_inv_def)

lemma current_inv_touches: "touches b b' \<Longrightarrow> current_inv b \<Longrightarrow> current_inv b'"
  by (simp add: touches_def current_inv_def)

lemma current_inv_tell [simp]: "current_inv (tell b n) = current_inv b"
  by (simp add: current_inv_def)

text \<open>With one worker through the gate, no other one can show a challenge.\<close>

lemma alone: "gate_inv b \<Longrightarrow> holds (waiters b w) \<Longrightarrow> shown (waiters b v) = Some r \<Longrightarrow> v = w"
  using shown_holds by (auto simp: gate_inv_def)

lemma current_inv_step:
  "captcha_step req b b' \<Longrightarrow> gate_inv b \<Longrightarrow> current_inv b \<Longrightarrow> current_inv b'"
proof (induction rule: captcha_step.induct)
  case (install b w ce m t r i)
  have "shown (waiters b v) = None" for v
    using alone [OF install.prems(1), of w v] install.hyps(1) by (cases "shown (waiters b v)") auto
  then show ?case
    by (auto simp: current_inv_def)
next
  case (unset b w r x)
  have "shown (waiters b v) = None" if "v \<noteq> w" for v
    using alone [OF unset.prems(1), of w v] unset.hyps that by (cases "shown (waiters b v)") auto
  moreover have "current b = Some r"
    using unset.prems(2) unset.hyps unfolding current_inv_def by (metis shown.simps(4))
  ultimately show ?case
    by (auto simp: current_inv_def finish_unset_def)
next
  case (browser b i b' out)
  then show ?case
    by (simp add: current_inv_touches [OF bridge_touches(1)] split: option.split)
next
  case (launch_failed b i)
  then show ?case
    by (simp add: current_inv_touches [OF bridge_touches(2)])
next
  case (submitted b i tok b' ok)
  then show ?case
    by (simp add: current_inv_touches [OF bridge_touches(3)])
next
  case (user_cancel b i b' ok)
  from current_inv_touches [OF bridge_touches(4) [OF user_cancel.hyps] user_cancel.prems(2)] show ?case .
next
  case (cancelled b w)
  from cancelled(2) show ?case
    by (rule current_inv_same) (simp_all add: cancel_parent_def)
next
  case (deadline b r p)
  from deadline.prems(2) show ?case
    by (rule current_inv_same) simp_all
next
  case (release b w r x p)
  from release.prems(2) show ?case
    by (rule current_inv_moves) (simp_all add: finish_release_def release.hyps)
qed (erule current_inv_moves; simp split: option.splits)+

section \<open>What the application is told\<close>

text \<open>The events open and close one challenge after the other: the automaton gives \<open>None\<close> when they do not.\<close>

fun ui_step :: "string option option \<Rightarrow> ui_note \<Rightarrow> string option option" where
  "ui_step (Some None) (Required e) = Some (Some (requestId e))"
| "ui_step (Some (Some i)) (Required e) = None"
| "ui_step (Some None) (Closed j) = None"
| "ui_step (Some (Some i)) (Closed j) = (if i = j then Some None else None)"
| "ui_step s n = s"

definition ui_state :: "ui_note list \<Rightarrow> string option option" where
  "ui_state ns = foldl ui_step (Some None) ns"

lemma ui_state_simps [simp]: "ui_state [] = Some None" "ui_state (ns @ [n]) = ui_step (ui_state ns) n"
  by (simp_all add: ui_state_def)

lemma ui_step_neutral [simp]:
  "ui_step s (Launched i u) = s" "ui_step s (LaunchFailed i) = s" "ui_step s (Accepted i t) = s"
  by (cases s rule: option.exhaust; simp; case_tac a; simp)+

definition ui_inv :: "coordinator \<Rightarrow> bool" where
  "ui_inv b \<longleftrightarrow> (case ui_state (seen b) of
     None \<Rightarrow> False
   | Some None \<Rightarrow> (\<forall>w. announced (waiters b w) = None)
   | Some (Some i) \<Rightarrow> (\<exists>w r p. announced (waiters b w) = Some r \<and> pendings b r = Some p \<and> p_id p = i))"

lemma ui_inv_same:
  "ui_inv b \<Longrightarrow> evolves (pendings b) (pendings b') \<Longrightarrow> ui_state (seen b') = ui_state (seen b) \<Longrightarrow>
     (\<forall>w. announced (waiters b' w) = announced (waiters b w)) \<Longrightarrow> ui_inv b'"
  by (simp add: ui_inv_def split: option.splits) (metis evolves_keeps)

lemma ui_inv_moves:
  "ui_inv b \<Longrightarrow> evolves (pendings b) (pendings b') \<Longrightarrow> seen b' = seen b \<Longrightarrow> waiters b' = waiters b \<Longrightarrow>
     announced pc = announced (waiters b w) \<Longrightarrow> ui_inv (moves b' w pc)"
  by (rule ui_inv_same [of b]) simp_all

lemma ui_inv_touches: "touches b b' \<Longrightarrow> ui_state (seen b') = ui_state (seen b) \<Longrightarrow> ui_inv b \<Longrightarrow> ui_inv b'"
  by (rule ui_inv_same [of b]) (simp_all add: touches_evolves touches_def)

lemma ui_inv_tell_neutral [simp]:
  "ui_inv (tell b (Launched i u)) = ui_inv b" "ui_inv (tell b (LaunchFailed i)) = ui_inv b"
  "ui_inv (tell b (Accepted i t)) = ui_inv b"
  by (simp_all add: ui_inv_def cong: option.case_cong)

lemma announced_alone: "gate_inv b \<Longrightarrow> holds (waiters b w) \<Longrightarrow> announced (waiters b v) = Some r \<Longrightarrow> v = w"
  using alone announced_shown by blast

lemmas put_evolves = evolves_put evolves_put [unfolded fun_upd_def]
  evolves_fail evolves_fail [unfolded fun_upd_def]

lemma ui_inv_step: "captcha_step req b b' \<Longrightarrow> gate_inv b \<Longrightarrow> ui_inv b \<Longrightarrow> ui_inv b'"
proof (induction rule: captcha_step.induct)
  case (announce b w r p d)
  have "announced (waiters b v) = None" for v
    using announced_alone [OF announce.prems(1), of w v] announce.hyps(1)
    by (cases "announced (waiters b v)") auto
  then have "ui_state (seen b) = Some None"
    using announce.prems(2) by (auto simp: ui_inv_def split: option.splits)
  then show ?case
    using announce.hyps by (auto simp: ui_inv_def)
next
  case (close b w r x p)
  have v: "announced (waiters b v) = None" if "v \<noteq> w" for v
    using announced_alone [OF close.prems(1), of w v] close.hyps(1) that
    by (cases "announced (waiters b v)") auto
  have w: "announced (waiters b w) = Some r"
    by (simp add: close.hyps)
  then obtain i where i: "ui_state (seen b) = Some (Some i)"
    using close.prems(2) by (auto simp: ui_inv_def split: option.splits)
  then obtain v s q where "announced (waiters b v) = Some s" "pendings b s = Some q" "p_id q = i"
    using close.prems(2) by (auto simp: ui_inv_def)
  then have "i = p_id p"
    using v [of v] w close.hyps(2) by (cases "v = w") auto
  then show ?case
    using i v by (auto simp: ui_inv_def)
next
  case (install b w ce m t r i)
  from install.prems(2) show ?case
    by (rule ui_inv_moves) (simp_all add: install.hyps evolves_new)
next
  case (browser b i b' out)
  then show ?case
    by (simp add: ui_inv_touches [OF bridge_touches(1)] split: option.split)
next
  case (launch_failed b i)
  then show ?case
    by (simp add: ui_inv_touches [OF bridge_touches(2)])
next
  case (submitted b i tok b' ok)
  then show ?case
    by (simp add: ui_inv_touches [OF bridge_touches(3)])
next
  case (user_cancel b i b' ok)
  then show ?case
    by (simp add: ui_inv_touches [OF bridge_touches(4)])
next
  case (cancelled b w)
  from cancelled(2) show ?case
    by (rule ui_inv_same) (simp_all add: cancel_parent_def evolves_fail split: option.split)
next
  case (deadline b r p)
  from deadline.prems(2) show ?case
    by (rule ui_inv_same) (simp_all add: put_evolves deadline.hyps)
next
  case (release b w r x p)
  from release.prems(2) show ?case
    by (rule ui_inv_moves) (simp_all add: finish_release_def evolves_fail release.hyps(1))
next
  case (token b w r p tok c)
  from token.prems(2) show ?case
    by (rule ui_inv_moves) (simp_all add: put_evolves token.hyps)
qed (erule ui_inv_moves; simp add: finish_unset_def split: option.splits)+

section \<open>Browser windows\<close>

text \<open>\<open>Some True\<close>: a window was launched for the challenge; \<open>None\<close>: a second one next to it.\<close>

fun launch_step :: "string \<Rightarrow> bool option \<Rightarrow> ui_note \<Rightarrow> bool option" where
  "launch_step i (Some l) (Launched j u) = (if j \<noteq> i then Some l else if l then None else Some True)"
| "launch_step i (Some l) (LaunchFailed j) = (if j \<noteq> i then Some l else Some False)"
| "launch_step i s n = s"

definition launch_state :: "string \<Rightarrow> ui_note list \<Rightarrow> bool option" where
  "launch_state i ns = foldl (launch_step i) (Some False) ns"

lemma launch_state_simps [simp]:
  "launch_state i [] = Some False" "launch_state i (ns @ [n]) = launch_step i (launch_state i ns) n"
  by (simp_all add: launch_state_def)

lemma launch_step_neutral [simp]:
  "launch_step i s (Required e) = s" "launch_step i s (Closed j) = s" "launch_step i s (Accepted j t) = s"
  by (cases s; simp)+

text \<open>The part of a challenge that matters to browser windows.\<close>

definition launch_view :: "coordinator \<Rightarrow> nat \<Rightarrow> (string \<times> bool) option" where
  "launch_view b r = map_option (\<lambda>p. (p_id p, p_launched p)) (pendings b r)"

definition launch_ok :: "(nat \<Rightarrow> (string \<times> bool) option) \<Rightarrow> (string \<Rightarrow> bool option) \<Rightarrow> bool" where
  "launch_ok V L \<longleftrightarrow> (\<forall>i. L i = Some (\<exists>r. V r = Some (i, True))) \<and>
     (\<forall>r s i l m. V r = Some (i, l) \<longrightarrow> V s = Some (i, m) \<longrightarrow> r = s)"

definition launch_inv :: "coordinator \<Rightarrow> bool" where
  "launch_inv b \<longleftrightarrow> launch_ok (launch_view b) (\<lambda>i. launch_state i (seen b))"

lemma launch_view_put:
  "pendings b' = (pendings b)(r \<mapsto> p') \<Longrightarrow> launch_view b' = (launch_view b)(r \<mapsto> (p_id p', p_launched p'))"
  by (simp add: launch_view_def fun_eq_iff)

lemma launch_view_same:
  "pendings b r = Some p \<Longrightarrow> p_id p' = p_id p \<Longrightarrow> p_launched p' = p_launched p \<Longrightarrow>
     pendings b' = (pendings b)(r \<mapsto> p') \<Longrightarrow> launch_view b' = launch_view b"
  by (auto simp: launch_view_def fun_eq_iff)

lemma launch_view_fail:
  "pendings b' = (pendings b)(r := map_option (fail_with e) (pendings b r)) \<Longrightarrow> launch_view b' = launch_view b"
  by (auto simp: launch_view_def fun_eq_iff option.map_comp comp_def)

lemma launch_inv_keep:
  "launch_inv b \<Longrightarrow> launch_view b' = launch_view b \<Longrightarrow> (\<forall>i. launch_state i (seen b') = launch_state i (seen b)) \<Longrightarrow>
     launch_inv b'"
  by (simp add: launch_inv_def)

lemma launch_view_frame [simp]:
  "launch_view (moves b w pc) = launch_view b" "launch_view (tell b n) = launch_view b"
  by (simp_all add: launch_view_def fun_eq_iff)

lemma launch_ok_new:
  "launch_ok V L \<Longrightarrow> V r = None \<Longrightarrow> (\<forall>s l. V s \<noteq> Some (i, l)) \<Longrightarrow> launch_ok (V(r \<mapsto> (i, False))) L"
  unfolding launch_ok_def by (auto split: if_splits) (metis option.distinct(1))+

lemma launch_ok_unique: "launch_ok V L \<Longrightarrow> V r = Some (i, l) \<Longrightarrow> V s = Some (i, m) \<Longrightarrow> s = r"
  unfolding launch_ok_def by blast

lemma launch_ok_get: "launch_ok V L \<Longrightarrow> V r = Some (i, l) \<Longrightarrow> L i = Some l"
  using launch_ok_unique [of V L r i l] unfolding launch_ok_def by (cases l) fastforce+

lemma launch_ok_set:
  assumes "launch_ok V L" "V r = Some (i, l)"
  shows "launch_ok (V(r \<mapsto> (i, m))) (L(i := Some m))"
proof -
  note u = launch_ok_unique [OF assms]
  have "(L(i := Some m)) j = Some (\<exists>s. (V(r \<mapsto> (i, m))) s = Some (j, True))" for j
  proof (cases "j = i")
    case True
    then show ?thesis
      using u by auto
  next
    case False
    then have "(\<exists>s. (V(r \<mapsto> (i, m))) s = Some (j, True)) \<longleftrightarrow> (\<exists>s. V s = Some (j, True))"
      using assms(2) by (intro iffI; clarsimp split: if_splits) (metis fst_conv option.inject prod.inject)+
    then show ?thesis
      using assms(1) False by (simp add: launch_ok_def)
  qed
  moreover have "s = t" if "(V(r \<mapsto> (i, m))) s = Some (j, x)" "(V(r \<mapsto> (i, m))) t = Some (j, y)" for s t j x y
    using that u launch_ok_unique [OF assms(1)] by (auto split: if_splits)
  ultimately show ?thesis
    unfolding launch_ok_def by blast
qed

lemma launch_steps_at:
  assumes "launch_inv b" "launch_view b r = Some (i, l)"
  shows "\<not> l \<Longrightarrow> (\<lambda>j. launch_step j (launch_state j (seen b)) (Launched i u)) =
      (\<lambda>j. launch_state j (seen b))(i := Some True)"
    and "(\<lambda>j. launch_step j (launch_state j (seen b)) (LaunchFailed i)) =
      (\<lambda>j. launch_state j (seen b))(i := Some False)"
proof -
  have "launch_state i (seen b) = Some l"
    using launch_ok_get [OF assms(1) [unfolded launch_inv_def] assms(2)] .
  moreover have "\<exists>x. launch_state j (seen b) = Some x" for j
    using assms(1) unfolding launch_inv_def launch_ok_def by blast
  ultimately have "\<not> l \<Longrightarrow> launch_step j (launch_state j (seen b)) (Launched i u) =
        (if j = i then Some True else launch_state j (seen b))"
    "launch_step j (launch_state j (seen b)) (LaunchFailed i) =
        (if j = i then Some False else launch_state j (seen b))" for j
    by (metis launch_step.simps(1) launch_step.simps(2))+
  then show "\<not> l \<Longrightarrow> (\<lambda>j. launch_step j (launch_state j (seen b)) (Launched i u)) =
      (\<lambda>j. launch_state j (seen b))(i := Some True)"
    "(\<lambda>j. launch_step j (launch_state j (seen b)) (LaunchFailed i)) =
      (\<lambda>j. launch_state j (seen b))(i := Some False)"
    by (auto simp: fun_eq_iff)
qed

lemma launch_inv_step: "captcha_step req b b' \<Longrightarrow> launch_inv b \<Longrightarrow> launch_inv b'"
proof (induction rule: captcha_step.induct)
  case (install b w ce m t r i)
  have "launch_view b s \<noteq> Some (i, l)" for s l
    using install.hyps(4) by (auto simp: launch_view_def ran_def)
  moreover have "launch_view b r = None"
    using install.hyps(3) by (simp add: launch_view_def)
  ultimately show ?case
    using install.prems launch_ok_new by (simp add: launch_inv_def launch_view_put)
next
  case (browser b i b' out)
  show ?case
  proof (cases out)
    case None
    then have "b' = b"
      using browser.hyps by (auto simp: active_def split: option.splits if_splits)
    then show ?thesis
      using None browser.prems by simp
  next
    case (Some u)
    then obtain r p where p: "current b = Some r" "pendings b r = Some p" "p_id p = i" "\<not> p_launched p"
      "b' = put b (p\<lparr>p_launched := True\<rparr>)"
      using browser.hyps by (auto simp: active_def current_pending_Some split: option.splits if_splits)
    have v: "launch_view b r = Some (i, False)"
      using p by (simp add: launch_view_def)
    have "launch_view b' = (launch_view b)(r \<mapsto> (i, True))"
      using p by (auto simp: launch_view_def fun_eq_iff)
    moreover have "(\<lambda>j. launch_step j (launch_state j (seen b)) (Launched i u)) =
        (\<lambda>j. launch_state j (seen b))(i := Some True)"
      using launch_steps_at(1) [OF browser.prems v] by simp
    ultimately show ?thesis
      using browser.prems launch_ok_set [of "launch_view b" "\<lambda>j. launch_state j (seen b)" r i False True] v p(5) Some
      by (simp add: launch_inv_def)
  qed
next
  case (launch_failed b i)
  show ?case
  proof (cases "current_pending b \<noteq> None \<and> p_id (the (current_pending b)) = i")
    case True
    then obtain r p where p: "current b = Some r" "pendings b r = Some p" "p_id p = i"
      by (auto simp: current_pending_def split: option.splits)
    then have b': "launchFailed b i = put b (p\<lparr>p_launched := False\<rparr>)"
      using True by (auto simp: launchFailed_def current_pending_def)
    have v: "launch_view b r = Some (i, p_launched p)"
      using p by (simp add: launch_view_def)
    have "launch_view (put b (p\<lparr>p_launched := False\<rparr>)) = (launch_view b)(r \<mapsto> (i, False))"
      using p by (auto simp: launch_view_def fun_eq_iff)
    moreover have "(\<lambda>j. launch_step j (launch_state j (seen b)) (LaunchFailed i)) =
        (\<lambda>j. launch_state j (seen b))(i := Some False)"
      using launch_steps_at(2) [OF launch_failed.prems v] by simp
    ultimately show ?thesis
      using launch_failed.prems v True b'
        launch_ok_set [of "launch_view b" "\<lambda>j. launch_state j (seen b)" r i "p_launched p" False] by (simp add: launch_inv_def)
  next
    case False
    then have "launchFailed b i = b"
      by (auto simp: launchFailed_def split: option.splits)
    then show ?thesis
      unfolding if_not_P [OF False] using launch_failed.prems by simp
  qed
next
  case (submitted b i tok b' ok)
  have "launch_view b' = launch_view b"
    using submitted.hyps
    by (auto simp: submit_def current_pending_Some launch_view_def fun_eq_iff split: option.splits if_splits)
  then show ?case
    using submitted.prems seen_bridge(3) [OF submitted.hyps] by (simp add: launch_inv_def)
next
  case (user_cancel b i b' ok)
  have "launch_view b' = launch_view b"
    using user_cancel.hyps
    by (auto simp: cancel_def current_pending_Some launch_view_def fun_eq_iff split: option.splits if_splits)
  then show ?case
    using user_cancel.prems seen_bridge(4) [OF user_cancel.hyps] by (simp add: launch_inv_def)
next
  case (cancelled b w)
  have "launch_view (cancel_parent b w Canceled) = launch_view b"
    by (cases "pointer (waiters b w)")
      (auto simp: cancel_parent_def launch_view_def fun_eq_iff option.map_comp comp_def)
  with cancelled show ?case
    by (simp add: launch_inv_def) (simp add: cancel_parent_def)
next
  case (deadline b r p)
  from deadline.prems show ?case
    by (rule launch_inv_keep) (auto simp: launch_view_def fun_eq_iff deadline.hyps)
next
  case (release b w r x p)
  from release.prems show ?case
    by (rule launch_inv_keep) (simp_all add: finish_release_def launch_view_fail [of _ b r] release.hyps)
next
  case (token b w r p tok c)
  from token.prems show ?case
    by (rule launch_inv_keep) (auto simp: launch_view_def fun_eq_iff token.hyps)
qed (erule launch_inv_keep; simp add: finish_unset_def launch_view_def fun_eq_iff)+

section \<open>Whose token it is\<close>

text \<open>The tokens the bridge was told were accepted for a challenge, in order.\<close>

fun accepted_token :: "string \<Rightarrow> ui_note \<Rightarrow> string option" where
  "accepted_token i (Accepted j tok) = (if j = i then Some tok else None)"
| "accepted_token i n = None"

definition accepted :: "string \<Rightarrow> ui_note list \<Rightarrow> string list" where
  "accepted i ns = List.map_filter (accepted_token i) ns"

lemma accepted_simps [simp]:
  "accepted i [] = []"
  "accepted i (ns @ [n]) = accepted i ns @ (case accepted_token i n of None \<Rightarrow> [] | Some t \<Rightarrow> [t])"
  by (simp_all add: accepted_def map_filter_def split: option.splits)

fun early :: "waiter \<Rightarrow> nat option" where
  "early (Installed r) = Some r" | "early (Waiting r) = Some r" | "early pc = None"

fun delivered :: "waiter \<Rightarrow> (nat \<times> string) option" where
  "delivered (Leaving r (Inr t)) = Some (r, t)" | "delivered (Closing r (Inr t)) = Some (r, t)"
| "delivered (Unset r (Inr t)) = Some (r, t)" | "delivered pc = None"

lemma delivered_simps [simp]:
  "delivered (Closing r x) = delivered (Leaving r x)" "delivered (Unset r x) = delivered (Leaving r x)"
  "delivered (Leaving r (after_done e)) = None"
  by (cases x; simp add: after_done_def)+

definition token_view :: "coordinator \<Rightarrow> nat \<Rightarrow> (string \<times> string list) option" where
  "token_view b r = map_option (\<lambda>p. (p_id p, cbuf (p_result p))) (pendings b r)"

definition token_ok ::
  "(nat \<Rightarrow> (string \<times> string list) option) \<Rightarrow> (string \<Rightarrow> string list) \<Rightarrow> (nat \<Rightarrow> waiter) \<Rightarrow> bool" where
  "token_ok V A W \<longleftrightarrow>
     (\<forall>w r i c. early (W w) = Some r \<longrightarrow> V r = Some (i, c) \<longrightarrow> c = A i) \<and>
     (\<forall>w r t. delivered (W w) = Some (r, t) \<longrightarrow> (\<exists>i c rest. V r = Some (i, c) \<and> A i = t # rest)) \<and>
     (\<forall>w i t. W w = Done (Some i) (Inr t) \<longrightarrow> (\<exists>rest. A i = t # rest)) \<and>
     (\<forall>i. (\<forall>r c. V r \<noteq> Some (i, c)) \<longrightarrow> A i = []) \<and>
     (\<forall>i. \<forall>t \<in> set (A i). trim_space t \<noteq> []) \<and>
     (\<forall>r s i c d. V r = Some (i, c) \<longrightarrow> V s = Some (i, d) \<longrightarrow> r = s)"

lemma token_okI:
  assumes "\<And>w r i c. early (W w) = Some r \<Longrightarrow> V r = Some (i, c) \<Longrightarrow> c = A i"
    and "\<And>w r t. delivered (W w) = Some (r, t) \<Longrightarrow> \<exists>i c rest. V r = Some (i, c) \<and> A i = t # rest"
    and "\<And>w i t. W w = Done (Some i) (Inr t) \<Longrightarrow> \<exists>rest. A i = t # rest"
    and "\<And>i. \<forall>r c. V r \<noteq> Some (i, c) \<Longrightarrow> A i = []"
    and "\<And>i t. t \<in> set (A i) \<Longrightarrow> trim_space t \<noteq> []"
    and "\<And>r s i c d. V r = Some (i, c) \<Longrightarrow> V s = Some (i, d) \<Longrightarrow> r = s"
  shows "token_ok V A W"
  unfolding token_ok_def using assms by blast

lemma token_okD:
  assumes "token_ok V A W"
  shows "early (W w) = Some r \<Longrightarrow> V r = Some (i, c) \<Longrightarrow> c = A i"
    and "delivered (W w) = Some (r, t) \<Longrightarrow> \<exists>i c rest. V r = Some (i, c) \<and> A i = t # rest"
    and "W w = Done (Some i) (Inr t) \<Longrightarrow> \<exists>rest. A i = t # rest"
    and "\<forall>r c. V r \<noteq> Some (i, c) \<Longrightarrow> A i = []"
    and "t \<in> set (A i) \<Longrightarrow> trim_space t \<noteq> []"
    and "V r = Some (i, c) \<Longrightarrow> V s = Some (i, d) \<Longrightarrow> r = s"
  using assms unfolding token_ok_def by blast+

lemma token_ok_waiter:
  assumes ok: "token_ok V A W"
    and e: "\<And>r i c. early pc = Some r \<Longrightarrow> V r = Some (i, c) \<Longrightarrow> c = A i"
    and d: "\<And>r t. delivered pc = Some (r, t) \<Longrightarrow> \<exists>i c rest. V r = Some (i, c) \<and> A i = t # rest"
    and n: "\<And>i t. pc = Done (Some i) (Inr t) \<Longrightarrow> \<exists>rest. A i = t # rest"
  shows "token_ok V A (W(w := pc))"
proof (rule token_okI)
  show "c = A i" if "early ((W(w := pc)) v) = Some r" "V r = Some (i, c)" for v r i c
    using that e token_okD(1) [OF ok, of v] by (cases "v = w") auto
  show "\<exists>i c rest. V r = Some (i, c) \<and> A i = t # rest" if "delivered ((W(w := pc)) v) = Some (r, t)" for v r t
    using that d token_okD(2) [OF ok, of v] by (cases "v = w") auto
  show "\<exists>rest. A i = t # rest" if "(W(w := pc)) v = Done (Some i) (Inr t)" for v i t
    using that n token_okD(3) [OF ok, of v] by (cases "v = w") auto
  show "r = s" if "V r = Some (i, c)" "V s = Some (i, d)" for r s i c d
    using token_okD(6) [OF ok that] .
qed (use token_okD(4,5) [OF ok] in blast)+

lemma token_ok_moves:
  assumes ok: "token_ok V A W" and "early pc = None \<or> early pc = early (W w)"
    and "delivered pc = None \<or> delivered pc = delivered (W w)" and "\<forall>i t. pc \<noteq> Done (Some i) (Inr t)"
  shows "token_ok V A (W(w := pc))"
proof (rule token_ok_waiter [OF ok])
  show "c = A i" if "early pc = Some r" "V r = Some (i, c)" for r i c
  proof -
    have "early (W w) = Some r"
      using that(1) assms(2) by auto
    then show ?thesis
      by (rule token_okD(1) [OF ok _ that(2)])
  qed
  show "\<exists>i c rest. V r = Some (i, c) \<and> A i = t # rest" if "delivered pc = Some (r, t)" for r t
  proof -
    have "delivered (W w) = Some (r, t)"
      using that assms(3) by auto
    then show ?thesis
      by (rule token_okD(2) [OF ok])
  qed
qed (use assms(4) in blast)

text \<open>The value of one challenge changes.\<close>

lemma token_ok_view:
  assumes ok: "token_ok V A W" and r: "V r = Some (i, c)" and "\<forall>w. early (W w) \<noteq> Some r"
  shows "token_ok (V(r \<mapsto> (i, d))) A W"
proof (rule token_okI)
  show "c' = A j" if "early (W w) = Some s" "(V(r \<mapsto> (i, d))) s = Some (j, c')" for w s j c'
    using that assms(3) token_okD(1) [OF ok] by (auto split: if_splits)
  show "\<exists>j c rest. (V(r \<mapsto> (i, d))) s = Some (j, c) \<and> A j = t # rest" if "delivered (W w) = Some (s, t)" for w s t
    using token_okD(2) [OF ok that] r by auto
  show "A j = []" if "\<forall>s c. (V(r \<mapsto> (i, d))) s \<noteq> Some (j, c)" for j
    by (rule token_okD(4) [OF ok]) (use that r in \<open>metis fun_upd_apply option.inject prod.inject\<close>)
  show "s = t" if "(V(r \<mapsto> (i, d))) s = Some (j, c1)" "(V(r \<mapsto> (i, d))) t = Some (j, c2)" for s t j c1 c2
    using that r token_okD(6) [OF ok] by (auto split: if_splits)
qed (use token_okD(3,5) [OF ok] in blast)+

lemma token_ok_new:
  assumes ok: "token_ok V A W" and r: "V r = None" and i: "\<forall>s c. V s \<noteq> Some (i, c)"
  shows "token_ok (V(r \<mapsto> (i, []))) A (W(w := Installed r))"
proof -
  have e: "A i = []"
    by (rule token_okD(4) [OF ok i])
  have "token_ok (V(r \<mapsto> (i, []))) A W"
  proof (rule token_okI)
    show "c' = A j" if "early (W w) = Some s" "(V(r \<mapsto> (i, []))) s = Some (j, c')" for w s j c'
      using that e token_okD(1) [OF ok] by (auto split: if_splits)
    show "\<exists>j c rest. (V(r \<mapsto> (i, []))) s = Some (j, c) \<and> A j = t # rest" if "delivered (W w) = Some (s, t)" for w s t
      using token_okD(2) [OF ok that] r by auto
    show "A j = []" if "\<forall>s c. (V(r \<mapsto> (i, []))) s \<noteq> Some (j, c)" for j
      by (rule token_okD(4) [OF ok]) (use that r in \<open>metis fun_upd_apply option.distinct(1)\<close>)
    show "s = t" if "(V(r \<mapsto> (i, []))) s = Some (j, c1)" "(V(r \<mapsto> (i, []))) t = Some (j, c2)" for s t j c1 c2
      using that i token_okD(6) [OF ok] by (auto split: if_splits)
  qed (use token_okD(3,5) [OF ok] in blast)+
  then show ?thesis
    by (rule token_ok_waiter) (use e in simp_all)
qed

lemma token_ok_submit:
  assumes ok: "token_ok V A W" and r: "V r = Some (i, c)" and tok: "trim_space tok \<noteq> []"
  shows "token_ok (V(r \<mapsto> (i, c @ [tok]))) (A(i := A i @ [tok])) W"
proof -
  have only: "V s = Some (i, d) \<Longrightarrow> s = r" for s d
    using token_okD(6) [OF ok _ r] .
  show ?thesis
  proof (rule token_okI)
    show "c' = (A(i := A i @ [tok])) j"
      if "early (W w) = Some s" "(V(r \<mapsto> (i, c @ [tok]))) s = Some (j, c')" for w s j c'
    proof (cases "s = r")
      case True
      then show ?thesis
        using that r token_okD(1) [OF ok, of w r i c] by simp
    next
      case False
      then have "V s = Some (j, c')" "j \<noteq> i"
        using that(2) only by auto
      then show ?thesis
        using token_okD(1) [OF ok that(1)] by simp
    qed
    show "\<exists>j c' rest. (V(r \<mapsto> (i, c @ [tok]))) s = Some (j, c') \<and> (A(i := A i @ [tok])) j = t # rest"
      if "delivered (W w) = Some (s, t)" for w s t
      using token_okD(2) [OF ok that] r by fastforce
    show "\<exists>rest. (A(i := A i @ [tok])) j = t # rest" if "W w = Done (Some j) (Inr t)" for w j t
      using token_okD(3) [OF ok that] by auto
    show "(A(i := A i @ [tok])) j = []" if h: "\<forall>s c'. (V(r \<mapsto> (i, c @ [tok]))) s \<noteq> Some (j, c')" for j
    proof -
      have "j \<noteq> i"
        using h by (metis fun_upd_same)
      moreover have "A j = []"
        by (rule token_okD(4) [OF ok]) (use h r in \<open>metis fun_upd_apply option.inject prod.inject\<close>)
      ultimately show ?thesis
        by simp
    qed
    show "trim_space t \<noteq> []" if "t \<in> set ((A(i := A i @ [tok])) j)" for j t
      using that tok token_okD(5) [OF ok] by (auto split: if_splits)
    show "s = t" if "(V(r \<mapsto> (i, c @ [tok]))) s = Some (j, c1)" "(V(r \<mapsto> (i, c @ [tok]))) t = Some (j, c2)"
      for s t j c1 c2
      using that only token_okD(6) [OF ok] by (auto split: if_splits)
  qed
qed

definition token_inv :: "coordinator \<Rightarrow> bool" where
  "token_inv b \<longleftrightarrow> token_ok (token_view b) (\<lambda>i. accepted i (seen b)) (waiters b)"

lemma token_view_frame [simp]:
  "token_view (moves b w pc) = token_view b" "token_view (tell b n) = token_view b"
  by (simp_all add: token_view_def fun_eq_iff)

lemma token_inv_moves:
  "token_inv b \<Longrightarrow> token_view b' = token_view b \<Longrightarrow> (\<forall>i. accepted i (seen b') = accepted i (seen b)) \<Longrightarrow>
     waiters b' = waiters b \<Longrightarrow> early pc = None \<or> early pc = early (waiters b w) \<Longrightarrow>
     delivered pc = None \<or> delivered pc = delivered (waiters b w) \<Longrightarrow> (\<forall>i t. pc \<noteq> Done (Some i) (Inr t)) \<Longrightarrow>
     token_inv (moves b' w pc)"
  by (simp add: token_inv_def token_ok_moves)

lemma token_inv_same:
  "token_inv b \<Longrightarrow> token_view b' = token_view b \<Longrightarrow> (\<forall>i. accepted i (seen b') = accepted i (seen b)) \<Longrightarrow>
     waiters b' = waiters b \<Longrightarrow> token_inv b'"
  by (simp add: token_inv_def)

lemma early_shown: "early pc = Some r \<Longrightarrow> shown pc = Some r"
  by (cases pc) auto

lemma token_step:
  assumes b: "gate_inv b" "token_inv b" and w: "waiters b w = Waiting r"
    and p: "pendings b r = Some p" "try_recv (p_result p) = Some (tok, c)"
  shows "token_inv (moves (b\<lparr>pendings := (pendings b)(r \<mapsto> p\<lparr>p_result := c\<rparr>)\<rparr>) w (Leaving r (after_token p tok)))"
proof -
  let ?A = "\<lambda>i. accepted i (seen b)" and ?pc = "Leaving r (after_token p tok)"
  note ok = b(2) [unfolded token_inv_def]
  have v: "token_view b r = Some (p_id p, tok # cbuf c)"
    using p go_chan.recv_some by (fastforce simp: token_view_def)
  have "early (waiters b w) = Some r"
    by (simp add: w)
  from token_okD(1) [OF ok this v] have a: "?A (p_id p) = tok # cbuf c"
    by simp
  have "delivered ?pc = Some (s, t) \<Longrightarrow> s = r \<and> t = tok" for s t
    by (auto simp: after_token_def split: option.splits if_splits)
  then have "token_ok (token_view b) ?A ((waiters b)(w := ?pc))"
    by (intro token_ok_waiter [OF ok]) (use v a in fastforce)+
  moreover have "early (((waiters b)(w := ?pc)) u) \<noteq> Some r" for u
    using alone [OF b(1), of w u r] early_shown [of "waiters b u" r] w by (cases "u = w") auto
  ultimately have "token_ok ((token_view b)(r \<mapsto> (p_id p, cbuf c))) ?A ((waiters b)(w := ?pc))"
    using token_ok_view [of "token_view b" ?A _ r "p_id p" "tok # cbuf c"] v by blast
  moreover have "token_view (b\<lparr>pendings := (pendings b)(r \<mapsto> p\<lparr>p_result := c\<rparr>)\<rparr>) =
      (token_view b)(r \<mapsto> (p_id p, cbuf c))"
    by (simp add: token_view_def fun_eq_iff)
  ultimately show ?thesis
    by (simp add: token_inv_def)
qed

lemma submit_step:
  assumes b: "token_inv b" and s: "submit b i tok = (b', True)"
  shows "token_inv (tell b' (Accepted i tok))"
proof -
  let ?A = "\<lambda>i. accepted i (seen b)"
  from s obtain r p c where p: "current b = Some r" "pendings b r = Some p" "p_id p = i" "trim_space tok \<noteq> []"
    "try_send (p_result p) tok = Some c" "b' = put b (p\<lparr>p_result := c\<rparr>)"
    by (auto simp: submit_def current_pending_Some split: option.splits if_splits)
  have v: "token_view b r = Some (i, cbuf (p_result p))"
    using p by (simp add: token_view_def)
  have "token_ok ((token_view b)(r \<mapsto> (i, cbuf (p_result p) @ [tok]))) (?A(i := ?A i @ [tok])) (waiters b)"
    by (rule token_ok_submit [OF b [unfolded token_inv_def] v p(4)])
  moreover have "token_view b' = (token_view b)(r \<mapsto> (i, cbuf (p_result p) @ [tok]))"
    using p go_chan.send_some [OF p(5)] by (auto simp: token_view_def fun_eq_iff)
  moreover have "(\<lambda>j. accepted j (seen (tell b' (Accepted i tok)))) = ?A(i := ?A i @ [tok])"
    using p(6) by (auto simp: fun_eq_iff)
  ultimately show ?thesis
    using p(6) by (simp add: token_inv_def)
qed

lemma token_inv_step: "captcha_step req b b' \<Longrightarrow> gate_inv b \<Longrightarrow> token_inv b \<Longrightarrow> token_inv b'"
proof (induction rule: captcha_step.induct)
  case (install b w ce m t r i)
  have "\<forall>s c. token_view b s \<noteq> Some (i, c)"
    using install.hyps(4) by (auto simp: token_view_def ran_def)
  moreover have "token_view b r = None"
    using install.hyps(3) by (simp add: token_view_def)
  ultimately have "token_ok ((token_view b)(r \<mapsto> (i, []))) (\<lambda>i. accepted i (seen b)) ((waiters b)(w := Installed r))"
    using token_ok_new [OF install.prems(2) [unfolded token_inv_def]] by blast
  moreover have "token_view (b\<lparr>current := Some r,
      pendings := (pendings b)(r \<mapsto> new_pending i (RedirectURI ce) m (parent b w))\<rparr>) = (token_view b)(r \<mapsto> (i, []))"
    by (simp add: token_view_def fun_eq_iff)
  ultimately show ?case
    by (simp add: token_inv_def)
next
  case (token b w r p tok c)
  then show ?case
    by (intro token_step)
next
  case (release b w r x p)
  have v: "token_view b r = Some (p_id p, cbuf (p_result p))"
    using release.hyps by (simp add: token_view_def)
  note ok = release.prems(2) [unfolded token_inv_def]
  have "\<exists>rest. accepted (p_id p) (seen b) = t # rest" if "x = Inr t" for t
    using token_okD(2) [OF ok, of w r t] v that release.hyps(1) by auto
  then have "token_ok (token_view b) (\<lambda>i. accepted i (seen b)) ((waiters b)(w := Done (Some (p_id p)) x))"
    by (intro token_ok_waiter [OF ok]) auto
  moreover have "token_view (finish_release b r) = token_view b"
    by (auto simp: token_view_def finish_release_def fun_eq_iff option.map_comp comp_def)
  ultimately show ?case
    by (simp add: token_inv_def) (simp add: finish_release_def)
next
  case (browser b i b' out)
  have "token_view b' = token_view b"
    using browser.hyps
    by (auto simp: active_def current_pending_Some token_view_def fun_eq_iff split: option.splits if_splits)
  then show ?case
    using browser.prems(2) seen_bridge(1) [OF browser.hyps] bridge_touches(1) [OF browser.hyps]
    by (simp add: token_inv_def touches_def split: option.split)
next
  case (launch_failed b i)
  have "token_view (launchFailed b i) = token_view b"
    by (auto simp: launchFailed_def current_pending_Some token_view_def fun_eq_iff split: option.splits if_splits)
  then show ?case
    using launch_failed.prems(2) bridge_touches(2) [of b i] by (simp add: token_inv_def touches_def)
next
  case (submitted b i tok b' ok)
  show ?case
  proof (cases ok)
    case True
    then show ?thesis
      using submit_step [OF submitted.prems(2)] submitted.hyps by simp
  next
    case False
    then have "b' = b"
      using submitted.hyps by (auto simp: submit_def split: option.splits if_splits)
    then show ?thesis
      using False submitted.prems by simp
  qed
next
  case (user_cancel b i b' ok)
  have "token_view b' = token_view b"
    using user_cancel.hyps
    by (auto simp: cancel_def current_pending_Some token_view_def fun_eq_iff split: option.splits if_splits)
  then show ?case
    using user_cancel.prems(2) seen_bridge(4) [OF user_cancel.hyps] bridge_touches(4) [OF user_cancel.hyps]
    by (simp add: token_inv_def touches_def)
next
  case (cancelled b w)
  have "token_view (cancel_parent b w Canceled) = token_view b"
    by (cases "pointer (waiters b w)")
      (auto simp: cancel_parent_def token_view_def fun_eq_iff option.map_comp comp_def)
  with cancelled(2) show ?case
    by (simp add: token_inv_def) (simp add: cancel_parent_def)
next
  case (deadline b r p)
  from deadline.prems(2) show ?case
    by (rule token_inv_same) (auto simp: token_view_def fun_eq_iff deadline.hyps)
qed (erule token_inv_moves; simp add: finish_unset_def token_view_def fun_eq_iff split: option.splits)+

section \<open>All reachable states\<close>

definition ready_inv :: "(nat \<Rightarrow> captcha_error option \<times> string \<times> int) \<Rightarrow> coordinator \<Rightarrow> bool" where
  "ready_inv req b \<longleftrightarrow> finite (dom (pendings b)) \<and>
     (\<forall>w. waiters b w \<in> {AtGate, Gate, Checked} \<longrightarrow> fst (req w) \<noteq> None)"

lemma evolves_finite: "evolves P P' \<Longrightarrow> finite (dom P) \<Longrightarrow> finite (dom P')"
  unfolding evolves_def by auto

lemma challenge_error_None: "challenge_error ce t = None \<Longrightarrow> ce \<noteq> None"
  by (auto simp: challenge_error_def split: option.splits)

lemma ready_inv_step: "captcha_step req b b' \<Longrightarrow> ready_inv req b \<Longrightarrow> ready_inv req b'"
proof -
  assume s: "captcha_step req b b'" and r: "ready_inv req b"
  have "finite (dom (pendings b'))"
    using evolves_finite [OF step_evolves [OF s]] r by (simp add: ready_inv_def)
  moreover have "\<forall>w. waiters b' w \<in> {AtGate, Gate, Checked} \<longrightarrow> fst (req w) \<noteq> None"
    using s r
  proof (induction rule: captcha_step.induct)
    case (enter b w ce m t)
    then show ?case
      using challenge_error_None [OF enter.hyps(3)] by (auto simp: ready_inv_def split: option.splits)
  next
    case (browser b i b' out)
    then show ?case
      using bridge_touches(1) [OF browser.hyps] by (cases out) (auto simp: ready_inv_def touches_def)
  next
    case (launch_failed b i)
    then show ?case
      using bridge_touches(2) [of b i] by (auto simp: ready_inv_def touches_def)
  next
    case (submitted b i tok b' ok)
    then show ?case
      using bridge_touches(3) [OF submitted.hyps] by (auto simp: ready_inv_def touches_def)
  next
    case (user_cancel b i b' ok)
    then show ?case
      using bridge_touches(4) [OF user_cancel.hyps] by (auto simp: ready_inv_def touches_def)
  qed (auto simp: ready_inv_def finish_unset_def finish_release_def cancel_parent_def)
  ultimately show ?thesis
    by (simp add: ready_inv_def)
qed

lemma captcha_reach_inv:
  "captcha_reach req b \<Longrightarrow> gate_inv b \<and> pointer_inv b \<and> current_inv b \<and> ui_inv b \<and> launch_inv b \<and>
     token_inv b \<and> ready_inv req b"
proof (induction rule: captcha_reach.induct)
  case start
  show ?case
    by (simp add: newCaptchaCoordinator_def gate_inv_def pointer_inv_def current_inv_def ui_inv_def
        launch_inv_def launch_ok_def launch_view_def token_inv_def token_ok_def token_view_def ready_inv_def)
next
  case (more b b')
  then show ?case
    by (simp add: gate_inv_step pointer_inv_step current_inv_step ui_inv_step launch_inv_step
        token_inv_step ready_inv_step)
qed

section \<open>The gate is given back\<close>

definition finishes :: "(nat \<Rightarrow> captcha_error option \<times> string \<times> int) \<Rightarrow> coordinator \<Rightarrow> nat \<Rightarrow> bool" where
  "finishes req b w \<longleftrightarrow> (\<exists>b'. (captcha_step req)\<^sup>*\<^sup>* b b' \<and> (\<exists>i x. waiters b' w = Done i x) \<and> cbuf (gate b') = [])"

lemma finishes_step: "captcha_step req b b' \<Longrightarrow> finishes req b' w \<Longrightarrow> finishes req b w"
  unfolding finishes_def by (meson converse_rtranclp_into_rtranclp)

lemma has_pending: "pointer_inv b \<Longrightarrow> pointer (waiters b w) = Some r \<Longrightarrow> \<exists>p. pendings b r = Some p"
  by (auto simp: pointer_inv_def)

lemma finishes_now:
  "captcha_step req b b' \<Longrightarrow> waiters b' w = Done i x \<Longrightarrow> cbuf (gate b') = [] \<Longrightarrow> finishes req b w"
  unfolding finishes_def by blast

definition sound :: "(nat \<Rightarrow> captcha_error option \<times> string \<times> int) \<Rightarrow> coordinator \<Rightarrow> bool" where
  "sound req b \<longleftrightarrow> gate_inv b \<and> pointer_inv b \<and> ready_inv req b"

lemma sound_step: "captcha_step req b b' \<Longrightarrow> sound req b \<Longrightarrow> sound req b'"
  using gate_inv_step pointer_inv_step ready_inv_step unfolding sound_def by blast

lemma held_gate: "gate_inv b \<Longrightarrow> holds (waiters b w) \<Longrightarrow> try_recv (gate b) = Some ((), (gate b)\<lparr>cbuf := []\<rparr>)"
  unfolding gate_inv_def try_recv_def by (metis list.simps(5))

lemma finishes_tail:
  assumes "sound req b"
  shows "waiters b w = Unset r x \<Longrightarrow> finishes req b w"
    and "waiters b w = Closing r x \<Longrightarrow> finishes req b w"
    and "waiters b w = Leaving r x \<Longrightarrow> finishes req b w"
proof -
  have 1: "finishes req b w" if s: "sound req b" and w: "waiters b w = Unset r x" for b
  proof -
    obtain p where p: "pendings b r = Some p"
      using has_pending [of b w r] s w by (auto simp: sound_def)
    have "try_recv (gate b) = Some ((), (gate b)\<lparr>cbuf := []\<rparr>)"
      using held_gate [of b w] s w by (simp add: sound_def)
    then show ?thesis
      by (intro finishes_now [OF captcha_step.release [OF w p]]) (simp_all add: finish_release_def)
  qed
  have 2: "finishes req b w" if s: "sound req b" and w: "waiters b w = Closing r x" for b
    using captcha_step.unset [OF w] by (rule finishes_step) (simp add: 1 [OF sound_step [OF captcha_step.unset [OF w] s]])
  have 3: "finishes req b w" if s: "sound req b" and w: "waiters b w = Leaving r x" for b
  proof -
    obtain p where p: "pendings b r = Some p"
      using has_pending [of b w r] s w by (auto simp: sound_def)
    note step = captcha_step.close [OF w p]
    show ?thesis
      using step by (rule finishes_step) (simp add: 2 [OF sound_step [OF step s]])
  qed
  show "waiters b w = Unset r x \<Longrightarrow> finishes req b w" "waiters b w = Closing r x \<Longrightarrow> finishes req b w"
    "waiters b w = Leaving r x \<Longrightarrow> finishes req b w"
    using 1 2 3 assms by blast+
qed

lemma finishes_wait:
  assumes s: "sound req b" and w: "waiters b w = Waiting r"
  shows "finishes req b w"
proof -
  obtain p where p: "pendings b r = Some p"
    using has_pending [of b w r] s w by (auto simp: sound_def)
  let ?b = "b\<lparr>pendings := (pendings b)(r \<mapsto> fail_with DeadlineExceeded p)\<rparr>"
  note step = captcha_step.deadline [where req = req, OF p]
  obtain e where e: "p_err (fail_with DeadlineExceeded p) = Some e"
    by (cases "p_err p") simp_all
  have w': "waiters ?b w = Waiting r" and p': "pendings ?b r = Some (fail_with DeadlineExceeded p)"
    using w by simp_all
  note step' = captcha_step.expired [where req = req, OF w' p' e]
  show ?thesis
    by (rule finishes_step [OF step finishes_step [OF step']],
        rule finishes_tail(3) [OF sound_step [OF step' sound_step [OF step s]], of w r "after_done e"]) simp
qed

lemma finishes_installed:
  assumes s: "sound req b" and w: "waiters b w = Installed r"
  shows "finishes req b w"
proof -
  obtain p where p: "pendings b r = Some p"
    using has_pending [of b w r] s w by (auto simp: sound_def)
  note step = captcha_step.announce [where req = req and d = 0, OF w p]
  show ?thesis
    using step by (rule finishes_step) (rule finishes_wait [OF sound_step [OF step s]], simp)
qed

lemma finishes_checked:
  assumes s: "sound req b" and w: "waiters b w = Checked"
  shows "finishes req b w"
proof -
  have fin: "finite (dom (pendings b))"
    using s by (simp add: sound_def ready_inv_def)
  obtain r where "r \<notin> dom (pendings b)"
    using ex_new_if_finite [OF infinite_UNIV_nat fin] by blast
  then have r: "pendings b r = None"
    by auto
  obtain i where i: "i \<notin> p_id ` ran (pendings b)"
    using ex_new_if_finite [OF infinite_UNIV_listI finite_imageI [OF finite_ran [OF fin]]] by blast
  obtain ce m t where req: "req w = (Some ce, m, t)"
    using s w by (cases "req w") (auto simp: sound_def ready_inv_def)
  have step: "captcha_step req b (moves (b\<lparr>current := Some r,
      pendings := (pendings b)(r \<mapsto> new_pending i (RedirectURI ce) m (parent b w))\<rparr>) w (Installed r))"
    using w req r i by (rule captcha_step.install)
  show ?thesis
    using step by (rule finishes_step) (rule finishes_installed [OF sound_step [OF step s]], simp)
qed

lemma finishes_gate:
  assumes s: "sound req b" and w: "waiters b w = Gate"
  shows "finishes req b w"
proof (cases "parent b w")
  case None
  note step = captcha_step.check [where req = req, OF w None]
  show ?thesis
    using step by (rule finishes_step) (rule finishes_checked [OF sound_step [OF step s]], simp)
next
  case (Some e)
  have g: "try_recv (gate b) = Some ((), (gate b)\<lparr>cbuf := []\<rparr>)"
    using held_gate [of b w] s w by (simp add: sound_def)
  show ?thesis
    by (rule finishes_now [OF captcha_step.stale [OF w Some g]]) simp_all
qed

section \<open>An example\<close>

definition sample_challenge_error :: captcha_error where
  "sample_challenge_error =
     \<lparr>ErrorCode = 14, ErrorMsg = [], CaptchaSid = ''7'', CaptchaImg = [], RedirectURI = ''u'',
      SessionToken = ''s'', CaptchaTs = [], CaptchaAttempt = []\<rparr>"

definition sample_req :: "nat \<Rightarrow> captcha_error option \<times> string \<times> int" where
  "sample_req w = (Some sample_challenge_error, ''manual'', 60)"

text \<open>One worker passes the gate, shows its challenge, a token is submitted and the worker leaves with it.\<close>

definition sample_pending :: "string list \<Rightarrow> pending" where
  "sample_pending toks = \<lparr>p_id = ''i'', p_url = ''u'', p_mode = ''manual'', p_err = None,
     p_result = \<lparr>cbuf = toks, ccap = 1\<rparr>, p_launched = False\<rparr>"

definition sample_state :: "unit list \<Rightarrow> nat option \<Rightarrow> (nat \<rightharpoonup> pending) \<Rightarrow> waiter \<Rightarrow> ui_note list \<Rightarrow> coordinator" where
  "sample_state g c P pc ns =
     \<lparr>gate = \<lparr>cbuf = g, ccap = 1\<rparr>, current = c, pendings = P, waiters = (\<lambda>_. Idle)(0 := pc),
      parent = \<lambda>_. None, seen = ns\<rparr>"

lemma sample_step: "captcha_reach req b \<Longrightarrow> captcha_step req b b1 \<Longrightarrow> b1 = b' \<Longrightarrow> captcha_reach req b'"
  using captcha_reach.more by blast

definition sample_notes :: "ui_note list" where
  "sample_notes = [Required \<lparr>requestId = ''i'', ev_mode = ''manual'', deadlineMs = 9\<rparr>, Accepted ''i'' ''tok'']"

lemma sample_submit: "try_send \<lparr>cbuf = [], ccap = 1\<rparr> x = Some \<lparr>cbuf = [x], ccap = 1\<rparr>"
  by (simp add: try_send_def)

lemma sample_waiting:
  "captcha_reach sample_req (sample_state [()] (Some 0) [0 \<mapsto> sample_pending [''tok'']] (Waiting 0) sample_notes)"
proof -
  let ?c = "captcha_reach sample_req"
  have 0: "?c (sample_state [] None Map.empty Idle [])"
    using captcha_reach.start [of sample_req] by (simp add: newCaptchaCoordinator_def sample_state_def make_chan_def fun_upd_idem)
  have 1: "?c (sample_state [] None Map.empty AtGate [])"
    by (rule sample_step [OF 0 captcha_step.enter [where w = 0 and ce = "Some sample_challenge_error" and m = "''manual''" and t = 60]])
      (simp_all add: sample_state_def sample_req_def challenge_error_def sample_challenge_error_def moves_def)
  have 2: "?c (sample_state [()] None Map.empty Gate [])"
    by (rule sample_step [OF 1 captcha_step.acquire [where w = 0 and g = "\<lparr>cbuf = [()], ccap = 1\<rparr>"]])
      (simp_all add: sample_state_def try_send_def moves_def)
  have 3: "?c (sample_state [()] None Map.empty Checked [])"
    by (rule sample_step [OF 2 captcha_step.check [where w = 0]]) (simp_all add: sample_state_def moves_def)
  have 4: "?c (sample_state [()] (Some 0) [0 \<mapsto> sample_pending []] (Installed 0) [])"
    by (rule sample_step [OF 3 captcha_step.install [where w = 0 and r = 0 and i = "''i''" and ce = sample_challenge_error
        and m = "''manual''" and t = 60]])
      (simp_all add: sample_state_def sample_req_def moves_def sample_pending_def new_pending_def make_chan_def
        sample_challenge_error_def)
  have 5: "?c (sample_state [()] (Some 0) [0 \<mapsto> sample_pending []] (Waiting 0)
      [Required \<lparr>requestId = ''i'', ev_mode = ''manual'', deadlineMs = 9\<rparr>])"
    by (rule sample_step [OF 4 captcha_step.announce [where w = 0 and r = 0 and d = 9 and p = "sample_pending []"]])
      (simp_all add: sample_state_def moves_def tell_def sample_pending_def)
  have "submit (sample_state [()] (Some 0) [0 \<mapsto> sample_pending []] (Waiting 0)
      [Required \<lparr>requestId = ''i'', ev_mode = ''manual'', deadlineMs = 9\<rparr>]) ''i'' ''tok'' =
    (sample_state [()] (Some 0) [0 \<mapsto> sample_pending [''tok'']] (Waiting 0)
      [Required \<lparr>requestId = ''i'', ev_mode = ''manual'', deadlineMs = 9\<rparr>], True)"
    using trim_space_graph [of "''tok''"] sample_submit
    by (simp add: submit_def current_pending_def sample_state_def sample_pending_def put_def is_graph_def)
  from captcha_step.submitted [OF this] show ?thesis
    by (rule sample_step [OF 5]) (simp add: sample_state_def tell_def sample_notes_def)
qed

lemma sample_done:
  "captcha_reach sample_req (sample_state [] None [0 \<mapsto> fail_with Canceled (sample_pending [])]
     (Done (Some ''i'') (Inr ''tok'')) (sample_notes @ [Closed ''i'']))"
proof -
  let ?c = "captcha_reach sample_req"
  have t: "trim_space ''tok'' \<noteq> []"
    using trim_space_graph [of "''tok''"] by (simp add: is_graph_def)
  have 1: "?c (sample_state [()] (Some 0) [0 \<mapsto> sample_pending []] (Leaving 0 (Inr ''tok'')) sample_notes)"
    by (rule sample_step [OF sample_waiting captcha_step.token [where w = 0 and r = 0 and tok = "''tok''" and
        p = "sample_pending [''tok'']" and c = "\<lparr>cbuf = [], ccap = 1\<rparr>"]])
      (simp_all add: sample_state_def try_recv_def moves_def sample_pending_def after_token_def t)
  have 2: "?c (sample_state [()] (Some 0) [0 \<mapsto> sample_pending []] (Closing 0 (Inr ''tok'')) (sample_notes @ [Closed ''i'']))"
    by (rule sample_step [OF 1 captcha_step.close [where w = 0 and r = 0 and x = "Inr ''tok''" and p = "sample_pending []"]])
      (simp_all add: sample_state_def moves_def tell_def sample_pending_def)
  have 3: "?c (sample_state [()] None [0 \<mapsto> sample_pending []] (Unset 0 (Inr ''tok'')) (sample_notes @ [Closed ''i'']))"
    by (rule sample_step [OF 2 captcha_step.unset [where w = 0 and r = 0 and x = "Inr ''tok''"]])
      (simp_all add: sample_state_def moves_def finish_unset_def)
  show ?thesis
    by (rule sample_step [OF 3 captcha_step.release [where w = 0 and r = 0 and x = "Inr ''tok''" and p = "sample_pending []"]])
      (simp_all add: sample_state_def moves_def finish_release_def try_recv_def sample_pending_def)
qed

section \<open>Properties\<close>

text \<open>Property C4 (invariant). Whatever workers, browser bridge, deadlines and cancellations do, at most one
  worker is past the gate, the current challenge is the one of that worker, the application sees
  challenges open and close strictly one after the other, each closed under its own identifier, and
  no challenge ever has two browser windows.\<close>

theorem one_challenge_at_a_time:
  assumes "captcha_reach req b"
  shows "(\<forall>w v. holds (waiters b w) \<longrightarrow> holds (waiters b v) \<longrightarrow> w = v) \<and>
    (\<forall>r. current b = Some r \<longleftrightarrow> (\<exists>w. shown (waiters b w) = Some r)) \<and>
    ui_state (seen b) \<noteq> None \<and> launch_state i (seen b) \<noteq> None"
proof -
  note inv = captcha_reach_inv [OF assms]
  then have "ui_state (seen b) \<noteq> None"
    by (auto simp: ui_inv_def split: option.splits)
  then show ?thesis
    using inv by (auto simp: gate_inv_def current_inv_def launch_inv_def launch_ok_def)
qed

theorem one_challenge_at_a_time_witness:
  "ui_state (sample_notes @ [Closed ''i'']) \<noteq> None \<and> launch_state ''i'' (sample_notes @ [Closed ''i'']) \<noteq> None"
  using one_challenge_at_a_time [OF sample_done, of "''i''"] by (simp add: sample_state_def)

text \<open>Property C6 (safety). A token that a worker gets back from the coordinator was submitted for the
  challenge of that worker, is the first one accepted for it and is not blank; a token submitted for
  an earlier challenge can never reach it.\<close>

theorem captcha_token_of_its_challenge:
  assumes "captcha_reach req b" and "waiters b w = Done (Some i) (Inr tok)"
  shows "trim_space tok \<noteq> [] \<and> (\<exists>rest. accepted i (seen b) = tok # rest)"
proof -
  have ok: "token_ok (token_view b) (\<lambda>i. accepted i (seen b)) (waiters b)"
    using captcha_reach_inv [OF assms(1)] by (simp add: token_inv_def)
  obtain rest where "accepted i (seen b) = tok # rest"
    using token_okD(3) [OF ok assms(2)] by auto
  then show ?thesis
    using token_okD(5) [OF ok, of tok i] by auto
qed

theorem captcha_token_of_its_challenge_witness:
  "trim_space ''tok'' \<noteq> [] \<and> (\<exists>rest. accepted ''i'' (sample_notes @ [Closed ''i'']) = ''tok'' # rest)"
  using captcha_token_of_its_challenge [OF sample_done, of 0 "''i''" "''tok''"] by (simp add: sample_state_def)

text \<open>Property C8 (liveness). No worker keeps the gate: from every reachable state in which one is past it
  there is a continuation (its deadline passes and it runs on) after which it has left and the gate is free,
  whatever the browser does or does not do.\<close>

theorem captcha_gate_is_released:
  assumes "captcha_reach req b" and "holds (waiters b w)"
  shows "\<exists>b'. (captcha_step req)\<^sup>*\<^sup>* b b' \<and> (\<exists>i x. waiters b' w = Done i x) \<and> cbuf (gate b') = []"
proof -
  have s: "sound req b"
    using captcha_reach_inv [OF assms(1)] by (simp add: sound_def)
  have "finishes req b w"
    using assms(2) finishes_gate [OF s] finishes_checked [OF s] finishes_installed [OF s]
      finishes_wait [OF s] finishes_tail [OF s] by (cases "waiters b w") auto
  then show ?thesis
    by (simp add: finishes_def)
qed

theorem captcha_gate_is_released_witness:
  "\<exists>b'. (captcha_step sample_req)\<^sup>*\<^sup>*
      (sample_state [()] (Some 0) [0 \<mapsto> sample_pending [''tok'']] (Waiting 0) sample_notes) b' \<and> cbuf (gate b') = []"
proof -
  have "holds (waiters (sample_state [()] (Some 0) [0 \<mapsto> sample_pending [''tok'']] (Waiting 0) sample_notes) 0)"
    by (simp add: sample_state_def)
  from captcha_gate_is_released [OF sample_waiting this] show ?thesis
    by blast
qed

end
