(* ===== verification/Update.thy ===== *)
theory Update
  imports "HOL-Library.List_Lexorder" "HOL-Library.Char_ord" "HOL-Library.Product_Lexorder" Url
begin

text \<open>
  The update check, \<open>backend/update.go\<close>: semantic versions with their parser and comparison, the
  choice of a release asset for the platform, the check through the GitHub API with its fallback to
  the release page. The precedence of semantic versions is stated on its own as a linear order; the
  comparison of the code is shown to compute it. HTTP answers and \<open>url.Parse\<close> are arguments.
\<close>

section \<open>Semantic versions\<close>

record semverIdentifier =
  id_value :: string
  numeric :: bool
  number :: int

record semanticVersion =
  major :: int
  minor :: int
  patch :: int
  pre :: "semverIdentifier list"

definition isDigits :: "string \<Rightarrow> bool" where
  "isDigits value \<longleftrightarrow> value \<noteq> [] \<and> list_all is_digit value"

definition identifier_char :: "char \<Rightarrow> bool" where
  "identifier_char c \<longleftrightarrow>
     (48 \<le> bval c \<and> bval c \<le> 57) \<or> (65 \<le> bval c \<and> bval c \<le> 90) \<or> (97 \<le> bval c \<and> bval c \<le> 122) \<or> c = CHR ''-''"

definition valid_identifier :: "bool \<Rightarrow> string \<Rightarrow> bool" where
  "valid_identifier prerelease part \<longleftrightarrow> part \<noteq> [] \<and> list_all identifier_char part \<and>
     \<not> (prerelease \<and> isDigits part \<and> length part > 1 \<and> hd part = CHR ''0'')"

definition validIdentifierList :: "string \<Rightarrow> bool \<Rightarrow> bool" where
  "validIdentifierList value prerelease \<longleftrightarrow>
     value \<noteq> [] \<and> list_all (valid_identifier prerelease) (split_on CHR ''.'' value)"

definition parseCoreNumber :: "string \<Rightarrow> int option" where
  "parseCoreNumber value =
     (if value = [] \<or> \<not> isDigits value \<or> (length value > 1 \<and> hd value = CHR ''0'') then None
      else atoi value)"

fun parse_identifiers :: "string list \<Rightarrow> semverIdentifier list option" where
  "parse_identifiers [] = Some []"
| "parse_identifiers (raw # rest) =
     (if isDigits raw then
        (case atoi raw of
           None \<Rightarrow> None
         | Some n \<Rightarrow> map_option (Cons \<lparr>id_value = raw, numeric = True, number = n\<rparr>) (parse_identifiers rest))
      else map_option (Cons \<lparr>id_value = raw, numeric = False, number = 0\<rparr>) (parse_identifiers rest))"

text \<open>The part after the build metadata and the pre-release were cut off.\<close>

definition parse_core :: "string \<Rightarrow> string \<Rightarrow> semanticVersion option" where
  "parse_core core preRaw =
     (case split_on CHR ''.'' core of
        [a, b, c] \<Rightarrow>
          (case (parseCoreNumber a, parseCoreNumber b, parseCoreNumber c) of
             (Some x, Some y, Some z) \<Rightarrow>
               (if preRaw = [] then Some \<lparr>major = x, minor = y, patch = z, pre = []\<rparr>
                else map_option (\<lambda>ids. \<lparr>major = x, minor = y, patch = z, pre = ids\<rparr>)
                  (parse_identifiers (split_on CHR ''.'' preRaw)))
           | _ \<Rightarrow> None)
      | _ \<Rightarrow> None)"

definition parse_pre :: "string \<Rightarrow> semanticVersion option" where
  "parse_pre value =
     (case split2 CHR ''-'' value of
        None \<Rightarrow> parse_core value []
      | Some (core, preRaw) \<Rightarrow> if validIdentifierList preRaw True then parse_core core preRaw else None)"

definition parseSemanticVersion :: "string \<Rightarrow> semanticVersion option" where
  "parseSemanticVersion version =
     (let value = trim_prefix ''v'' (trim_space version) in
      if value = [] then None
      else case split2 CHR ''+'' value of
        None \<Rightarrow> parse_pre value
      | Some (rest, metadata) \<Rightarrow> if validIdentifierList metadata False then parse_pre rest else None)"

section \<open>Comparison\<close>

definition compareInt :: "int \<Rightarrow> int \<Rightarrow> int" where
  "compareInt a b = (if a < b then -1 else if a > b then 1 else 0)"

text \<open>The loop over the common part; zero when it runs to its end.\<close>

fun compare_identifiers :: "semverIdentifier list \<Rightarrow> semverIdentifier list \<Rightarrow> int" where
  "compare_identifiers (l # ls) (r # rs) =
     (if numeric l \<and> numeric r then
        (if compareInt (number l) (number r) \<noteq> 0 then compareInt (number l) (number r)
         else compare_identifiers ls rs)
      else if numeric l \<noteq> numeric r then (if numeric l then -1 else 1)
      else if id_value l < id_value r then -1
      else if id_value l > id_value r then 1
      else compare_identifiers ls rs)"
| "compare_identifiers ls rs = 0"

definition compareSemanticVersions :: "semanticVersion \<Rightarrow> semanticVersion \<Rightarrow> int" where
  "compareSemanticVersions a b =
     (if compareInt (major a) (major b) \<noteq> 0 then compareInt (major a) (major b)
      else if compareInt (minor a) (minor b) \<noteq> 0 then compareInt (minor a) (minor b)
      else if compareInt (patch a) (patch b) \<noteq> 0 then compareInt (patch a) (patch b)
      else if pre a = [] \<and> pre b = [] then 0
      else if pre a = [] then 1
      else if pre b = [] then -1
      else if compare_identifiers (pre a) (pre b) \<noteq> 0 then compare_identifiers (pre a) (pre b)
      else compareInt (int (length (pre a))) (int (length (pre b))))"

definition isComparableVersion :: "string \<Rightarrow> bool" where
  "isComparableVersion version \<longleftrightarrow> parseSemanticVersion version \<noteq> None"

definition isNewer :: "string \<Rightarrow> string \<Rightarrow> bool" where
  "isNewer a b =
     (case (parseSemanticVersion a, parseSemanticVersion b) of
        (Some left, Some right) \<Rightarrow> compareSemanticVersions left right > 0
      | _ \<Rightarrow> False)"

section \<open>Precedence as a linear order\<close>

text \<open>The specification (semver.org, section 11): numbers first, a release after its pre-releases,
  numeric identifiers before alphanumeric ones, a shorter list before its extensions.\<close>

datatype pre_id = Number int | Word string

datatype version = Version int int int "pre_id list"

fun pre_key :: "pre_id \<Rightarrow> bool \<times> int \<times> string" where
  "pre_key (Number n) = (False, n, [])"
| "pre_key (Word s) = (True, 0, s)"

lemma pre_key_inj [simp]: "pre_key a = pre_key b \<longleftrightarrow> a = b"
  by (cases a; cases b) auto

instantiation pre_id :: linorder
begin
definition less_eq_pre_id :: "pre_id \<Rightarrow> pre_id \<Rightarrow> bool" where
  "less_eq_pre_id a b \<longleftrightarrow> pre_key a \<le> pre_key b"
definition less_pre_id :: "pre_id \<Rightarrow> pre_id \<Rightarrow> bool" where
  "less_pre_id a b \<longleftrightarrow> pre_key a < pre_key b"
instance
  by standard (auto simp: less_eq_pre_id_def less_pre_id_def dest: antisym)
end

fun version_key :: "version \<Rightarrow> int \<times> int \<times> int \<times> bool \<times> pre_id list" where
  "version_key (Version a b c ids) = (a, b, c, ids = [], ids)"

lemma version_key_inj [simp]: "version_key v = version_key w \<longleftrightarrow> v = w"
  by (cases v; cases w) auto

instantiation version :: linorder
begin
definition less_eq_version :: "version \<Rightarrow> version \<Rightarrow> bool" where
  "less_eq_version v w \<longleftrightarrow> version_key v \<le> version_key w"
definition less_version :: "version \<Rightarrow> version \<Rightarrow> bool" where
  "less_version v w \<longleftrightarrow> version_key v < version_key w"
instance
  by standard (auto simp: less_eq_version_def less_version_def dest: antisym)
end

definition identifier_of :: "semverIdentifier \<Rightarrow> pre_id" where
  "identifier_of i = (if numeric i then Number (number i) else Word (id_value i))"

definition version_of :: "semanticVersion \<Rightarrow> version" where
  "version_of v = Version (major v) (minor v) (patch v) (map identifier_of (pre v))"

section \<open>Precedence: lemmas\<close>

lemma compareInt_sign: "compareInt a b = (if a < b then -1 else if b < a then 1 else 0)"
  by (simp add: compareInt_def)

lemma compareInt_eq_0 [simp]: "compareInt a b = 0 \<longleftrightarrow> a = b"
  by (auto simp: compareInt_def)

lemma compareInt_less [simp]: "a < b \<Longrightarrow> compareInt a b = -1" "b < a \<Longrightarrow> compareInt a b = 1"
  by (auto simp: compareInt_def)

lemma pre_id_less [simp]:
  "Number m < Number n \<longleftrightarrow> m < n" "Word s < Word t \<longleftrightarrow> s < t" "Number m < Word s" "\<not> Word s < Number m"
  by (auto simp: less_pre_id_def)

lemma nil_less: "[] < map f xs \<longleftrightarrow> xs \<noteq> []"
  by (cases xs) auto

lemma compare_identifiers_sign:
  "(if compare_identifiers as bs \<noteq> 0 then compare_identifiers as bs
    else compareInt (int (length as)) (int (length bs))) =
   (if map identifier_of as < map identifier_of bs then -1
    else if map identifier_of bs < map identifier_of as then 1 else 0)"
proof (induction as bs rule: compare_identifiers.induct)
  case (1 l ls r rs)
  let ?a = "identifier_of l" and ?b = "identifier_of r"
  consider "?a < ?b" | "?b < ?a" | "?a = ?b"
    using less_linear by blast
  then show ?case
  proof cases
    case 1
    then have "compare_identifiers (l # ls) (r # rs) = -1"
      by (auto simp: identifier_of_def split: if_splits)
    then show ?thesis
      using 1 by simp
  next
    case 2
    then have "compare_identifiers (l # ls) (r # rs) = 1"
      by (auto simp: identifier_of_def split: if_splits)
    then show ?thesis
      using 2 by auto
  next
    case 3
    then have c1: "compare_identifiers (l # ls) (r # rs) = compare_identifiers ls rs"
      by (auto simp: identifier_of_def split: if_splits)
    have c2: "compareInt (int (length (l # ls))) (int (length (r # rs))) =
        compareInt (int (length ls)) (int (length rs))"
      by (simp add: compareInt_def)
    have c3: "(if compare_identifiers ls rs \<noteq> 0 then compare_identifiers ls rs
        else compareInt (int (length ls)) (int (length rs))) =
      (if map identifier_of ls < map identifier_of rs then -1
       else if map identifier_of rs < map identifier_of ls then 1 else 0)"
    proof (cases "numeric l \<and> numeric r")
      case True
      then have "\<not> compareInt (number l) (number r) \<noteq> 0"
        using 3 by (simp add: identifier_of_def)
      with True show ?thesis
        by (rule 1(1))
    next
      case False
      with 3 have "\<not> numeric l" "\<not> numeric r" "id_value l = id_value r"
        by (auto simp: identifier_of_def split: if_splits)
      then show ?thesis
        by (intro 1(2)) auto
    qed
    have lt: "map identifier_of (l # ls) < map identifier_of (r # rs) \<longleftrightarrow> map identifier_of ls < map identifier_of rs"
      "map identifier_of (r # rs) < map identifier_of (l # ls) \<longleftrightarrow> map identifier_of rs < map identifier_of ls"
      using 3 by simp_all
    show ?thesis
      by (simp only: c1 c2 lt c3)
  qed
qed (simp_all add: compareInt_def nil_less)

lemma version_less:
  "Version a b c ids < Version a' b' c' ids' \<longleftrightarrow>
     a < a' \<or> a = a' \<and> (b < b' \<or> b = b' \<and> (c < c' \<or> c = c' \<and>
       (if ids = [] then False else if ids' = [] then True else ids < ids')))"
  by (auto simp: less_version_def less_prod_def less_eq_prod_def)

lemma compare_versions_sign:
  "compareSemanticVersions v w =
     (if version_of v < version_of w then -1 else if version_of w < version_of v then 1 else 0)"
proof (cases "major v = major w \<and> minor v = minor w \<and> patch v = patch w \<and> pre v \<noteq> [] \<and> pre w \<noteq> []")
  case True
  then show ?thesis
    using compare_identifiers_sign [of "pre v" "pre w"]
    by (simp add: compareSemanticVersions_def version_of_def version_less)
next
  case False
  then show ?thesis
    by (auto simp: compareSemanticVersions_def version_of_def version_less compareInt_def)
qed

section \<open>Writing and reading versions\<close>

definition show_core :: "semanticVersion \<Rightarrow> string" where
  "show_core v = join ''.'' [fmt_int (major v), fmt_int (minor v), fmt_int (patch v)]"

definition show_version :: "semanticVersion \<Rightarrow> string" where
  "show_version v =
     show_core v @ (if pre v = [] then [] else ''-'' @ join ''.'' (map id_value (pre v)))"

definition wf_identifier :: "semverIdentifier \<Rightarrow> bool" where
  "wf_identifier i \<longleftrightarrow> valid_identifier True (id_value i) \<and> numeric i = isDigits (id_value i) \<and>
     (if numeric i then atoi (id_value i) = Some (number i) else number i = 0)"

definition wf_number :: "int \<Rightarrow> bool" where
  "wf_number n \<longleftrightarrow> 0 \<le> n \<and> int64_ok n"

definition wf_version :: "semanticVersion \<Rightarrow> bool" where
  "wf_version v \<longleftrightarrow> wf_number (major v) \<and> wf_number (minor v) \<and> wf_number (patch v) \<and>
     list_all wf_identifier (pre v)"

lemma atoi_digits:
  assumes "isDigits s" "atoi s = Some n"
  shows "wf_number n"
proof -
  obtain c r where s: "s = c # r" "is_digit c"
    using assms(1) by (cases s) (auto simp: isDigits_def)
  then have "c \<noteq> CHR ''-''" "c \<noteq> CHR ''+''"
    by (auto simp: is_digit_def)
  then show ?thesis
    using assms(2) s by (auto simp: atoi_def wf_number_def parse_unsigned_def split: if_splits)
qed

lemma parseCoreNumber_wf: "parseCoreNumber s = Some n \<Longrightarrow> wf_number n"
  using atoi_digits by (auto simp: parseCoreNumber_def split: if_splits)

lemma parse_identifiers_wf:
  "parse_identifiers parts = Some ids \<Longrightarrow> list_all (valid_identifier True) parts \<Longrightarrow> list_all wf_identifier ids"
  by (induction parts arbitrary: ids) (auto simp: wf_identifier_def split: if_splits option.splits)

lemma parse_core_wf:
  "parse_core core preRaw = Some v \<Longrightarrow> preRaw = [] \<or> validIdentifierList preRaw True \<Longrightarrow> wf_version v"
  by (auto simp: parse_core_def wf_version_def validIdentifierList_def parseCoreNumber_wf parse_identifiers_wf
      split: list.splits option.splits if_splits)

lemma parse_wf: "parseSemanticVersion s = Some v \<Longrightarrow> wf_version v"
  by (auto simp: parseSemanticVersion_def parse_pre_def Let_def parse_core_wf
      split: option.splits if_splits)

lemma digits_nat_head: "n \<noteq> 0 \<Longrightarrow> hd (digits_nat n) \<noteq> CHR ''0''"
proof (induction n rule: digits_nat.induct)
  case (1 n)
  show ?case
  proof (cases "n < 10")
    case True
    have "bval (hd (digits_nat n)) = 48 + n"
      using True by (simp add: digits_nat.simps [of n])
    then show ?thesis
      using 1(2) by auto
  next
    case False
    then have "hd (digits_nat (n div 10)) \<noteq> CHR ''0''"
      by (intro 1(1)) auto
    then show ?thesis
      using False by (subst digits_nat.simps) simp
  qed
qed

lemma isDigits_fmt: "0 \<le> n \<Longrightarrow> isDigits (fmt_int n)"
  by (simp add: isDigits_def fmt_int_def digits_nat_digits)

lemma parseCoreNumber_fmt: "wf_number n \<Longrightarrow> parseCoreNumber (fmt_int n) = Some n"
proof -
  assume wf: "wf_number n"
  have "\<not> (length (fmt_int n) > 1 \<and> hd (fmt_int n) = CHR ''0'')"
  proof (cases "n = 0")
    case True
    then show ?thesis
      by (simp add: fmt_int_def digits_nat.simps [of 0])
  next
    case False
    then show ?thesis
      using wf digits_nat_head [of "nat n"] by (simp add: fmt_int_def wf_number_def)
  qed
  moreover have "fmt_int n \<noteq> []"
    by (simp add: fmt_int_def)
  ultimately show ?thesis
    using wf isDigits_fmt [of n] by (auto simp: parseCoreNumber_def atoi_fmt_int wf_number_def)
qed

lemma digit_identifier: "is_digit c \<Longrightarrow> identifier_char c"
  by (auto simp: is_digit_def identifier_char_def)

lemma identifier_chars:
  "identifier_char c \<Longrightarrow> c \<noteq> CHR ''.'' \<and> c \<noteq> CHR ''+'' \<and> is_graph c"
  by (auto simp: identifier_char_def is_graph_def)

lemma set_join: "set (join sep xs) \<subseteq> set sep \<union> (\<Union>x \<in> set xs. set x)"
  by (induction sep xs rule: join.induct) auto

lemma show_core_chars: "wf_version v \<Longrightarrow> c \<in> set (show_core v) \<Longrightarrow> is_digit c \<or> c = CHR ''.''"
proof -
  assume wf: "wf_version v" and c: "c \<in> set (show_core v)"
  have "list_all is_digit (fmt_int (major v))" "list_all is_digit (fmt_int (minor v))"
    "list_all is_digit (fmt_int (patch v))"
    using wf isDigits_fmt by (auto simp: wf_version_def wf_number_def isDigits_def)
  then show ?thesis
    using c by (auto simp: show_core_def list_all_iff)
qed

lemma parse_core_show:
  assumes wf: "wf_version v"
  shows "parse_core (show_core v) (if pre v = [] then [] else join ''.'' (map id_value (pre v))) = Some v"
proof -
  have nums: "wf_number (major v)" "wf_number (minor v)" "wf_number (patch v)"
    using wf by (simp_all add: wf_version_def)
  have dots: "CHR ''.'' \<notin> set (fmt_int n)" if "wf_number n" for n
    using isDigits_fmt [of n] that by (auto simp: wf_number_def isDigits_def list_all_iff is_digit_def)
  have core: "split_on CHR ''.'' (show_core v) = [fmt_int (major v), fmt_int (minor v), fmt_int (patch v)]"
    unfolding split_on_def show_core_def using dots nums by (intro split_by_join) auto
  have ids: "parse_identifiers (map id_value xs) = Some xs" if "list_all wf_identifier xs" for xs
    using that by (induction xs) (auto simp: wf_identifier_def split: if_splits)
  have split: "split_on CHR ''.'' (join ''.'' (map id_value xs)) = map id_value xs"
    if "list_all wf_identifier xs" "xs \<noteq> []" for xs
    unfolding split_on_def using that identifier_chars
    by (intro split_by_join) (auto simp: wf_identifier_def valid_identifier_def list_all_iff)
  have ne: "join ''.'' (map id_value xs) \<noteq> []" if "list_all wf_identifier xs" "xs \<noteq> []" for xs
    using that by (cases xs rule: remdups_adj.cases) (auto simp: wf_identifier_def valid_identifier_def)
  show ?thesis
    using wf nums core ids [of "pre v"] split [of "pre v"] ne [of "pre v"]
    by (auto simp: parse_core_def parseCoreNumber_fmt wf_version_def)
qed

lemma split2_first: "c \<notin> set a \<Longrightarrow> split2 c (a @ c # b) = Some (a, b)"
  by (induction a) (auto simp: split2_def)

lemma parse_pre_show: "wf_version v \<Longrightarrow> parse_pre (show_version v) = Some v"
proof -
  assume wf: "wf_version v"
  have no: "CHR ''-'' \<notin> set (show_core v)"
    using show_core_chars [OF wf] by (fastforce simp: is_digit_def)
  show ?thesis
  proof (cases "pre v = []")
    case True
    then show ?thesis
      using no parse_core_show [OF wf] by (simp add: parse_pre_def show_version_def split2_def)
  next
    case False
    have ids: "list_all wf_identifier (pre v)"
      using wf by (simp add: wf_version_def)
    have "split_on CHR ''.'' (join ''.'' (map id_value (pre v))) = map id_value (pre v)"
      unfolding split_on_def using False ids identifier_chars
      by (intro split_by_join) (auto simp: wf_identifier_def valid_identifier_def list_all_iff)
    moreover have "join ''.'' (map id_value (pre v)) \<noteq> []"
      using False ids by (cases "pre v" rule: remdups_adj.cases) (auto simp: wf_identifier_def valid_identifier_def)
    ultimately have "validIdentifierList (join ''.'' (map id_value (pre v))) True"
      using ids by (auto simp: validIdentifierList_def list_all_iff wf_identifier_def)
    then show ?thesis
      using False no parse_core_show [OF wf] split2_first [OF no]
      by (simp add: parse_pre_def show_version_def)
  qed
qed

section \<open>Releases\<close>

record releaseAsset =
  BrowserDownloadURL :: string
  asset_name :: string

record githubRelease =
  TagName :: string
  Body :: string
  Assets :: "releaseAsset list"

record UpdateInfo =
  Available :: bool
  Version_text :: string
  URL :: string
  Notes :: string

definition official_prefix :: string where
  "official_prefix = ''/regstar2/pwdtt/releases/download/''"

definition isOfficialReleaseAssetURL :: "(string \<Rightarrow> parsed_url option) \<Rightarrow> string \<Rightarrow> bool" where
  "isOfficialReleaseAssetURL url_parse raw =
     (case url_parse raw of
        None \<Rightarrow> False
      | Some u \<Rightarrow>
          if \<not> equal_fold ''https'' (Scheme u) \<or> \<not> equal_fold ''github.com'' (Host u) then False
          else has_prefix official_prefix (to_lower (EscapedPath u)))"

definition containsAny :: "string \<Rightarrow> string list \<Rightarrow> bool" where
  "containsAny v candidates = list_ex (\<lambda>c. c \<noteq> [] \<and> contains c v) candidates"

definition archAliases :: "string \<Rightarrow> string list" where
  "archAliases arch =
     (if arch = ''amd64'' then [''amd64'', ''x86_64'', ''x64'']
      else if arch = ''arm64'' then [''arm64'', ''aarch64''] else [arch])"

text \<open>Whether an asset of this lower-case name is for the platform.\<close>

definition asset_fits :: "string \<Rightarrow> string \<Rightarrow> string \<Rightarrow> bool" where
  "asset_fits goos goarch name =
     (if goos = ''windows'' then
        goarch = ''amd64'' \<and> contains ''windows'' name \<and> containsAny name [''amd64'', ''x86_64'', ''x64'']
      else if goos = ''linux'' then
        goarch = ''amd64'' \<and> contains ''linux'' name \<and> containsAny name [''amd64'', ''x86_64'', ''x64'']
      else if goos = ''darwin'' then
        (if goarch \<noteq> ''amd64'' \<and> goarch \<noteq> ''arm64'' then False
         else if name = ''pwdtt-macos.zip'' then True
         else if \<not> containsAny name [''darwin'', ''macos'', ''mac''] then False
         else contains ''universal'' name \<or> containsAny name (archAliases goarch))
      else False)"

fun selectReleaseAsset ::
  "(string \<Rightarrow> parsed_url option) \<Rightarrow> releaseAsset list \<Rightarrow> string \<Rightarrow> string \<Rightarrow> string" where
  "selectReleaseAsset url_parse [] goos goarch = []"
| "selectReleaseAsset url_parse (a # as) goos goarch =
     (if \<not> isOfficialReleaseAssetURL url_parse (BrowserDownloadURL a)
      then selectReleaseAsset url_parse as goos goarch
      else if asset_fits goos goarch (to_lower (trim_space (asset_name a))) then BrowserDownloadURL a
      else selectReleaseAsset url_parse as goos goarch)"

datatype update_error =
    NotASemver string | CreateRequest | RequestFailed | ApiStatus int | ReadFailed | TooLarge | BadAnswer
  | NoFinalURL | UntrustedURL | UnexpectedPath | BadTag | BadAssetName | BothFailed update_error update_error

definition no_update :: "string \<Rightarrow> UpdateInfo" where
  "no_update latest = \<lparr>Available = False, Version_text = latest, URL = [], Notes = []\<rparr>"

definition tag_version :: "string \<Rightarrow> string" where
  "tag_version tag = trim_prefix ''v'' (trim_space tag)"

definition evaluateRelease ::
  "(string \<Rightarrow> parsed_url option) \<Rightarrow> githubRelease \<Rightarrow> string \<Rightarrow> string \<Rightarrow> string \<Rightarrow> update_error + UpdateInfo" where
  "evaluateRelease url_parse release currentVersion goos goarch =
     (let latest = tag_version (TagName release) in
      if \<not> isComparableVersion latest then Inl (NotASemver (TagName release))
      else if \<not> isNewer latest currentVersion then Inr (no_update latest)
      else let downloadURL = selectReleaseAsset url_parse (Assets release) goos goarch in
        if downloadURL = [] then Inr (no_update latest)
        else Inr \<lparr>Available = True, Version_text = latest, URL = downloadURL, Notes = Body release\<rparr>)"

definition maxReleaseBody :: nat where
  "maxReleaseBody = 2 * 2 ^ 20"

text \<open>\<open>io.LimitReader\<close> hands out at most one byte more than the limit.\<close>

definition readLimitedBody :: "string option \<Rightarrow> update_error + string" where
  "readLimitedBody content =
     (case content of
        None \<Rightarrow> Inl ReadFailed
      | Some body \<Rightarrow> if length (take (maxReleaseBody + 1) body) > maxReleaseBody then Inl TooLarge
          else Inr (take (maxReleaseBody + 1) body))"

text \<open>An answer is its status and what can be read of it.\<close>

definition checkUpdateViaAPI ::
  "(string \<Rightarrow> parsed_url option) \<Rightarrow> (string \<Rightarrow> githubRelease option) \<Rightarrow> update_error + int \<times> string option \<Rightarrow>
   string \<Rightarrow> string \<Rightarrow> string \<Rightarrow> update_error + UpdateInfo" where
  "checkUpdateViaAPI url_parse decode response currentVersion goos goarch =
     (case response of
        Inl e \<Rightarrow> Inl e
      | Inr (status, content) \<Rightarrow>
          if status \<noteq> 200 then Inl (ApiStatus status)
          else (case readLimitedBody content of
              Inl e \<Rightarrow> Inl e
            | Inr body \<Rightarrow> (case decode body of
                None \<Rightarrow> Inl BadAnswer
              | Some release \<Rightarrow> evaluateRelease url_parse release currentVersion goos goarch)))"

definition tag_prefix :: string where
  "tag_prefix = ''/Regstar2/PWDTT/releases/tag/''"

definition releaseTagFromURL :: "parsed_url option \<Rightarrow> update_error + string" where
  "releaseTagFromURL u =
     (case u of
        None \<Rightarrow> Inl UntrustedURL
      | Some u \<Rightarrow>
          if \<not> equal_fold ''https'' (Scheme u) \<or> \<not> equal_fold ''github.com'' (Hostname u) then Inl UntrustedURL
          else if \<not> has_prefix (to_lower tag_prefix) (to_lower (Path u)) then Inl UnexpectedPath
          else let tag = trim_space (drop (length tag_prefix) (Path u)) in
            if tag = [] \<or> contains ''/'' tag then Inl BadTag else Inr tag)"

definition resolveLatestReleaseTag :: "update_error + int \<times> parsed_url option \<Rightarrow> update_error + string" where
  "resolveLatestReleaseTag response =
     (case response of
        Inl e \<Rightarrow> Inl e
      | Inr (status, final) \<Rightarrow>
          if status \<noteq> 200 then Inl (ApiStatus status)
          else if final = None then Inl NoFinalURL else releaseTagFromURL final)"

definition knownReleaseAssetName :: "string \<Rightarrow> string \<Rightarrow> string" where
  "knownReleaseAssetName goos goarch =
     (if goos = ''windows'' \<and> goarch = ''amd64'' then ''pwdtt-windows-amd64.exe''
      else if goos = ''linux'' \<and> goarch = ''amd64'' then ''pwdtt-linux-amd64''
      else if goos = ''darwin'' \<and> (goarch = ''amd64'' \<or> goarch = ''arm64'') then ''PWDTT-macos.zip''
      else [])"

text \<open>\<open>url.PathEscape\<close> leaves some reserved characters as they are.\<close>

definition path_escape_char :: "char \<Rightarrow> string" where
  "path_escape_char c =
     (if unreserved c \<or> c \<in> set ''$&+=:@'' then [c]
      else [CHR ''%'', hex_upper (bval c div 16), hex_upper (bval c mod 16)])"

definition PathEscape :: "string \<Rightarrow> string" where
  "PathEscape s = concat (map path_escape_char s)"

definition download_base :: string where
  "download_base = ''https://github.com/Regstar2/PWDTT/releases/download/''"

definition releaseAssetURL :: "(string \<Rightarrow> parsed_url option) \<Rightarrow> string \<Rightarrow> string \<Rightarrow> update_error + string" where
  "releaseAssetURL url_parse tag assetName =
     (if \<not> isComparableVersion (tag_version tag) then Inl BadTag
      else if trim_space assetName = [] \<or> CHR ''/'' \<in> set assetName \<or> CHR 0x5C \<in> set assetName
      then Inl BadAssetName
      else let downloadURL = download_base @ PathEscape tag @ ''/'' @ PathEscape assetName in
        if \<not> isOfficialReleaseAssetURL url_parse downloadURL then Inl UntrustedURL else Inr downloadURL)"

definition releaseAssetExists ::
  "(string \<Rightarrow> parsed_url option) \<Rightarrow> (string \<Rightarrow> update_error + int) \<Rightarrow> string \<Rightarrow> update_error + bool" where
  "releaseAssetExists url_parse head downloadURL =
     (if \<not> isOfficialReleaseAssetURL url_parse downloadURL then Inl UntrustedURL
      else (case head downloadURL of
          Inl e \<Rightarrow> Inl e
        | Inr status \<Rightarrow>
            if status = 200 \<or> status = 206 then Inr True
            else if status = 404 then Inr False else Inl (ApiStatus status)))"

definition checkUpdateViaWeb ::
  "(string \<Rightarrow> parsed_url option) \<Rightarrow> update_error + int \<times> parsed_url option \<Rightarrow> (string \<Rightarrow> update_error + int) \<Rightarrow>
   string \<Rightarrow> string \<Rightarrow> string \<Rightarrow> update_error + UpdateInfo" where
  "checkUpdateViaWeb url_parse page head currentVersion goos goarch =
     (case resolveLatestReleaseTag page of
        Inl e \<Rightarrow> Inl e
      | Inr tag \<Rightarrow>
     (let latest = tag_version tag in
      if \<not> isComparableVersion latest then Inl (NotASemver tag)
      else if \<not> isNewer latest currentVersion then Inr (no_update latest)
      else let assetName = knownReleaseAssetName goos goarch in
      if assetName = [] then Inr (no_update latest)
      else (case releaseAssetURL url_parse tag assetName of
        Inl e \<Rightarrow> Inl e
      | Inr downloadURL \<Rightarrow>
     (case releaseAssetExists url_parse head downloadURL of
        Inl e \<Rightarrow> Inl e
      | Inr found \<Rightarrow>
          if \<not> found then Inr (no_update latest)
          else Inr \<lparr>Available = True, Version_text = latest, URL = downloadURL, Notes = []\<rparr>))))"

definition CheckUpdate ::
  "string \<Rightarrow> update_error + UpdateInfo \<Rightarrow> update_error + UpdateInfo \<Rightarrow> update_error + UpdateInfo" where
  "CheckUpdate currentVersion viaAPI viaWeb =
     (if \<not> isComparableVersion currentVersion then Inl (NotASemver currentVersion)
      else (case viaAPI of
          Inr info \<Rightarrow> Inr info
        | Inl apiErr \<Rightarrow> (case viaWeb of
            Inr info \<Rightarrow> Inr info | Inl fallbackErr \<Rightarrow> Inl (BothFailed apiErr fallbackErr))))"

section \<open>Properties\<close>

text \<open>Property C31 (refinement). The comparison of the code computes the precedence of semantic versions,
  a linear order: its sign tells which version comes first, and one text is newer than another
  exactly when both are versions and its version is the greater one.\<close>

theorem comparison_is_precedence:
  "compareSemanticVersions v w =
     (if version_of v < version_of w then -1 else if version_of v = version_of w then 0 else 1) \<and>
   (isNewer a b \<longleftrightarrow> (\<exists>x y. parseSemanticVersion a = Some x \<and> parseSemanticVersion b = Some y \<and>
      version_of y < version_of x))"
  by (auto simp: compare_versions_sign isNewer_def split: option.splits)

lemma show_version_ends:
  assumes "wf_version v"
  shows "show_version v \<noteq> []" "is_digit (hd (show_version v))" "is_graph (last (show_version v))"
    "CHR ''+'' \<notin> set (show_version v)"
proof -
  have core: "fmt_int (major v) \<noteq> []" "list_all is_digit (fmt_int (major v))" "list_all is_digit (fmt_int (patch v))"
    "fmt_int (patch v) \<noteq> []"
    using assms isDigits_fmt by (auto simp: wf_version_def wf_number_def isDigits_def)
  have s: "show_core v = fmt_int (major v) @ ''.'' @ fmt_int (minor v) @ ''.'' @ fmt_int (patch v)"
    by (simp add: show_core_def)
  show "show_version v \<noteq> []" "is_digit (hd (show_version v))"
    using core by (simp_all add: show_version_def s list_all_iff)
  have chars: "c \<in> set (show_version v) \<Longrightarrow> is_digit c \<or> c = CHR ''.'' \<or> c = CHR ''-'' \<or> identifier_char c" for c
    using show_core_chars [OF assms] set_join [of "''.''" "map id_value (pre v)"] assms
    by (fastforce simp: show_version_def wf_version_def wf_identifier_def valid_identifier_def list_all_iff split: if_splits)
  have "last (show_version v) \<in> set (show_version v)"
    using \<open>show_version v \<noteq> []\<close> by simp
  from chars [OF this] show "is_graph (last (show_version v))"
    by (auto simp: is_graph_def is_digit_def identifier_char_def)
  show "CHR ''+'' \<notin> set (show_version v)"
    using chars by (force simp: is_digit_def identifier_char_def)
qed

text \<open>Property C35 (round trip). Every version that the parser gives has numbers and identifiers as the
  specification demands them, and every such version is read back from its text, with or without a
  leading v and whatever valid build metadata follows.\<close>

theorem version_roundtrip:
  assumes "wf_version v" and "validIdentifierList meta False"
  shows "parseSemanticVersion (show_version v) = Some v \<and>
    parseSemanticVersion (''v'' @ show_version v) = Some v \<and>
    parseSemanticVersion (show_version v @ ''+'' @ meta) = Some v \<and>
    (\<forall>s x. parseSemanticVersion s = Some x \<longrightarrow> wf_version x)"
proof -
  note e = show_version_ends [OF assms(1)]
  have g: "is_graph (hd (show_version v))"
    using e(2) by (auto simp: is_graph_def is_digit_def)
  have m: "meta \<noteq> []" "is_graph (last meta)"
  proof -
    show ne: "meta \<noteq> []"
      using assms(2) by (simp add: validIdentifierList_def)
    have "last meta \<in> set (join ''.'' (split_on CHR ''.'' meta))"
      using ne by (simp add: join_split_on)
    then consider "last meta = CHR ''.''" | x where "x \<in> set (split_on CHR ''.'' meta)" "last meta \<in> set x"
      using set_join [of "''.''" "split_on CHR ''.'' meta"] by auto
    then show "is_graph (last meta)"
    proof cases
      case 2
      then have "identifier_char (last meta)"
        using assms(2) by (simp add: validIdentifierList_def valid_identifier_def list_all_iff)
      then show ?thesis
        using identifier_chars by blast
    qed (simp add: is_graph_def)
  qed
  have v: "\<not> has_prefix ''v'' (show_version v @ r)" for r
    using e(1,2) by (cases "show_version v") (auto simp: has_prefix_iff is_digit_def)
  have 1: "trim_space (show_version v) = show_version v"
    using e(1,3) g by (intro trim_space_graph) simp
  have 2: "trim_space (''v'' @ show_version v) = ''v'' @ show_version v"
    using e(1,3) by (intro trim_space_graph) (simp add: is_graph_def)
  have 3: "trim_space (show_version v @ ''+'' @ meta) = show_version v @ ''+'' @ meta"
    using e(1) g m by (intro trim_space_graph) simp
  have "parseSemanticVersion (show_version v) = Some v"
    using e(1,4) v [of "[]"] parse_pre_show [OF assms(1)]
    unfolding parseSemanticVersion_def 1 by (simp add: trim_prefix_def split2_def)
  moreover have "parseSemanticVersion (''v'' @ show_version v) = Some v"
    using e(1,4) parse_pre_show [OF assms(1)] trim_prefix_append [of "''v''" "show_version v"]
    unfolding parseSemanticVersion_def 2 by (simp add: split2_def)
  moreover have "parseSemanticVersion (show_version v @ ''+'' @ meta) = Some v"
    using e(1) v [of "''+'' @ meta"] parse_pre_show [OF assms(1)] split2_first [OF e(4), of meta] assms(2)
    unfolding parseSemanticVersion_def 3 by (simp add: trim_prefix_def)
  ultimately show ?thesis
    using parse_wf by blast
qed

definition sample_version :: semanticVersion where
  "sample_version = \<lparr>major = 1, minor = 20, patch = 0,
     pre = [\<lparr>id_value = ''rc'', numeric = False, number = 0\<rparr>, \<lparr>id_value = ''2'', numeric = True, number = 2\<rparr>]\<rparr>"

lemma sample_version_ok:
  "wf_version sample_version" "validIdentifierList ''b7'' False" "show_version sample_version = ''1.20.0-rc.2''"
  by code_simp+

theorem version_roundtrip_witness:
  "parseSemanticVersion ''v1.20.0-rc.2'' = Some sample_version \<and>
   parseSemanticVersion ''1.20.0-rc.2+b7'' = Some sample_version"
  using version_roundtrip [OF sample_version_ok(1,2)] by (simp add: sample_version_ok(3))

lemma selected_official:
  "selectReleaseAsset p as goos goarch \<noteq> [] \<Longrightarrow> isOfficialReleaseAssetURL p (selectReleaseAsset p as goos goarch)"
  by (induction as) auto

text \<open>An update that the check offers, through the API or through the release page, has
  a version that is newer than the running one and a URL that is the repository's own release download.\<close>

theorem offered_update_is_official:
  assumes "CheckUpdate cur (checkUpdateViaAPI p decode response cur goos goarch)
      (checkUpdateViaWeb p page head cur goos goarch) = Inr info" and "Available info"
  shows "isNewer (Version_text info) cur \<and> isOfficialReleaseAssetURL p (URL info)"
proof -
  have "isNewer (Version_text info) cur \<and> isOfficialReleaseAssetURL p (URL info)"
    if "evaluateRelease p rel cur goos goarch = Inr info" for rel
    using that assms(2) selected_official
    by (auto simp: evaluateRelease_def no_update_def Let_def split: if_splits)
  moreover have "isNewer (Version_text info) cur \<and> isOfficialReleaseAssetURL p (URL info)"
    if "checkUpdateViaWeb p page head cur goos goarch = Inr info"
    using that assms(2)
    by (auto simp: checkUpdateViaWeb_def no_update_def releaseAssetURL_def Let_def split: if_splits sum.splits)
  ultimately show ?thesis
    using assms(1) by (auto simp: CheckUpdate_def checkUpdateViaAPI_def split: if_splits sum.splits option.splits prod.splits)
qed

definition sample_url :: parsed_url where
  "sample_url = \<lparr>Scheme = ''https'', Host = ''github.com'', Hostname = ''github.com'',
     EscapedPath = ''/Regstar2/PWDTT/releases/download/v2/a'', Path = ''/Regstar2/PWDTT/releases/tag/v2.0.0''\<rparr>"

definition sample_release :: githubRelease where
  "sample_release = \<lparr>TagName = ''v2.0.0'', Body = [],
     Assets = [\<lparr>BrowserDownloadURL = ''u'', asset_name = ''pwdtt-linux-amd64''\<rparr>]\<rparr>"

definition sample_info :: UpdateInfo where
  "sample_info = \<lparr>Available = True, Version_text = ''2.0.0'', URL = ''u'', Notes = []\<rparr>"

lemma sample_check:
  "evaluateRelease (\<lambda>_. Some sample_url) sample_release ''1.0.0'' ''linux'' ''amd64'' = Inr sample_info"
  "isComparableVersion ''1.0.0''"
  by code_simp+

theorem offered_update_is_official_witness:
  "isNewer (Version_text sample_info) ''1.0.0'' \<and> isOfficialReleaseAssetURL (\<lambda>_. Some sample_url) (URL sample_info)"
proof (rule offered_update_is_official [where decode = "\<lambda>_. Some sample_release" and response = "Inr (200, Some [])" and
    goos = "''linux''" and goarch = "''amd64''" and page = "Inl RequestFailed" and head = "\<lambda>_. Inl RequestFailed"])
  show "CheckUpdate ''1.0.0''
      (checkUpdateViaAPI (\<lambda>_. Some sample_url) (\<lambda>_. Some sample_release) (Inr (200, Some [])) ''1.0.0'' ''linux'' ''amd64'')
      (checkUpdateViaWeb (\<lambda>_. Some sample_url) (Inl RequestFailed) (\<lambda>_. Inl RequestFailed) ''1.0.0'' ''linux'' ''amd64'') =
    Inr sample_info"
    by (simp add: CheckUpdate_def checkUpdateViaAPI_def readLimitedBody_def sample_check)
  show "Available sample_info"
    by (simp add: sample_info_def)
qed

end
