(* ===== verification/Store.thy ===== *)
theory Store
  imports Json "HOL-Library.AList" "HOL-Library.Char_ord" "HOL-Library.List_Lexorder"
begin

text \<open>
  The files of the application, \<open>backend/store.go\<close>: settings and server profiles as JSON files, the
  quarantine of a file that does not decode, atomic writes and the notices for the user. The disk is
  an association list from paths to contents. A content is a decoded JSON value or a text that
  \<open>json.Valid\<close> rejects; the concrete syntax of JSON is left to \<open>encoding/json\<close>, the translation
  between values and structs is modelled. A nil slice and an empty one are not told apart.
\<close>

section \<open>UTF-8 texts\<close>

text \<open>\<open>encoding/json\<close> replaces every invalid byte of a text by U+FFFD, when it writes and when it reads.\<close>

function coerce_bytes :: "nat list \<Rightarrow> nat list" where
  "coerce_bytes s =
     (case s of
        [] \<Rightarrow> []
      | a # t \<Rightarrow>
          if utf8_len s = 0 then [0xEF, 0xBF, 0xBD] @ coerce_bytes t
          else take (utf8_len s) s @ coerce_bytes (drop (utf8_len s) s))"
  by pat_completeness auto
termination
  by (relation "measure length") auto

declare coerce_bytes.simps [simp del]

definition coerce_utf8 :: "string \<Rightarrow> string" where
  "coerce_utf8 s = utf8 (coerce_bytes (map bval s))"

definition valid_utf8 :: "string \<Rightarrow> bool" where
  "valid_utf8 s \<longleftrightarrow> coerce_utf8 s = s"

lemma utf8_len_take: "utf8_len s \<noteq> 0 \<Longrightarrow> utf8_len (take (utf8_len s) s @ r) = utf8_len s"
  by (cases s; cases "tl s"; cases "tl (tl s)"; cases "tl (tl (tl s))")
    (auto split: if_splits)

lemma utf8_len_le: "utf8_len s \<le> length s"
  by (cases s; cases "tl s"; cases "tl (tl s)"; cases "tl (tl (tl s))")
    (auto split: if_splits)

lemma utf8_len_Nil [simp]: "utf8_len [] = 0"
  by simp

lemma utf8_len_ascii [simp]: "a < 128 \<Longrightarrow> utf8_len (a # s) = 1"
  by simp

lemma utf8_len_replacement [simp]: "utf8_len (0xEF # 0xBF # 0xBD # r) = 3"
  by (simp add: cont_byte_def)

declare utf8_len.simps [simp del]

lemma coerce_bytes_Nil [simp]: "coerce_bytes [] = []"
  by (simp add: coerce_bytes.simps)

lemma coerce_bytes_bad:
  "utf8_len (a # t) = 0 \<Longrightarrow> coerce_bytes (a # t) = [0xEF, 0xBF, 0xBD] @ coerce_bytes t"
  by (simp add: coerce_bytes.simps [of "a # t"])

lemma coerce_bytes_rune:
  "utf8_len s \<noteq> 0 \<Longrightarrow> coerce_bytes s = take (utf8_len s) s @ coerce_bytes (drop (utf8_len s) s)"
  by (cases s) (simp_all add: coerce_bytes.simps [of "a # t" for a t])

lemma coerce_bytes_keeps_rune:
  assumes "utf8_len s \<noteq> 0"
  shows "coerce_bytes (take (utf8_len s) s @ r) = take (utf8_len s) s @ coerce_bytes r"
  using coerce_bytes_rune [of "take (utf8_len s) s @ r"] utf8_len_take [OF assms, of r] assms
    utf8_len_le [of s] by simp

lemma coerce_bytes_replacement: "coerce_bytes ([0xEF, 0xBF, 0xBD] @ r) = [0xEF, 0xBF, 0xBD] @ coerce_bytes r"
  using coerce_bytes_rune [of "[0xEF, 0xBF, 0xBD] @ r"] by simp

lemma coerce_bytes_idem: "coerce_bytes (coerce_bytes s) = coerce_bytes s"
proof (induction s rule: coerce_bytes.induct)
  case (1 s)
  show ?case
  proof (cases s)
    case (Cons a t)
    show ?thesis
    proof (cases "utf8_len s = 0")
      case True
      then show ?thesis
        using 1(1) [OF Cons True] Cons coerce_bytes_replacement by (simp add: coerce_bytes_bad)
    next
      case False
      then show ?thesis
        using 1(2) [OF Cons False] coerce_bytes_keeps_rune [OF False]
        by (simp add: coerce_bytes_rune [OF False])
    qed
  qed simp
qed

lemma coerce_bytes_range: "\<forall>x \<in> set s. x < 256 \<Longrightarrow> \<forall>x \<in> set (coerce_bytes s). x < 256"
proof (induction s rule: coerce_bytes.induct)
  case (1 s)
  show ?case
  proof (cases s)
    case (Cons a t)
    show ?thesis
    proof (cases "utf8_len s = 0")
      case True
      then show ?thesis
        using 1(1) [OF Cons True] 1(3) Cons by (simp add: coerce_bytes_bad)
    next
      case False
      have "\<forall>x \<in> set (drop (utf8_len s) s). x < 256" "\<forall>x \<in> set (take (utf8_len s) s). x < 256"
        using 1(3) by (auto dest: in_set_takeD in_set_dropD)
      then show ?thesis
        using 1(2) [OF Cons False] by (auto simp: coerce_bytes_rune [OF False])
    qed
  qed simp
qed

lemma coerce_utf8_idem [simp]: "coerce_utf8 (coerce_utf8 s) = coerce_utf8 s"
proof -
  have "\<forall>x \<in> set (coerce_bytes (map bval s)). x < 256"
    by (rule coerce_bytes_range) simp
  then have "map bval (utf8 (coerce_bytes (map bval s))) = coerce_bytes (map bval s)"
    by (simp add: utf8_def map_idI)
  then show ?thesis
    by (simp add: coerce_utf8_def coerce_bytes_idem)
qed

lemma valid_coerce [simp]: "valid_utf8 (coerce_utf8 s)"
  by (simp add: valid_utf8_def)

lemma coerce_Nil [simp]: "coerce_utf8 [] = []"
  by (simp add: coerce_utf8_def utf8_def)

lemma coerce_ascii: "\<forall>c \<in> set s. bval c < 128 \<Longrightarrow> coerce_utf8 s = s"
  by (induction s) (simp_all add: coerce_utf8_def coerce_bytes_rune utf8_def)

lemma valid_ascii: "\<forall>c \<in> set s. bval c < 128 \<Longrightarrow> valid_utf8 s"
  by (simp add: valid_utf8_def coerce_ascii)

section \<open>Structs and their JSON\<close>

record VKHashPolicy =
  Mode :: string
  AutoCheck :: bool
  AutoReplace :: bool

record ProfileData =
  PeerAddr :: string
  Password :: string
  Hashes :: "string list"
  Listen :: string
  TurnHost :: string
  TurnPort :: string
  DeviceID :: string
  HashPolicy :: "VKHashPolicy option"

record AppSettings =
  AutoStart :: bool
  ObfsMode :: string
  ObfsAccepted :: bool
  DebugLogging :: bool

text \<open>
  \<open>json.Unmarshal\<close> into a field: \<open>null\<close> leaves a value field as it is and empties a slice or a
  pointer; a value of another type is an error (here \<open>None\<close>). A key of the object goes to the field
  whose name it equals up to case, and unknown keys are ignored.
\<close>

fun into_string :: "json \<Rightarrow> string \<Rightarrow> string option" where
  "into_string (JStr s) old = Some (coerce_utf8 s)"
| "into_string JNull old = Some old"
| "into_string j old = None"

fun into_bool :: "json \<Rightarrow> bool \<Rightarrow> bool option" where
  "into_bool (JBool b) old = Some b"
| "into_bool JNull old = Some old"
| "into_bool j old = None"

fun all_some :: "'a option list \<Rightarrow> 'a list option" where
  "all_some [] = Some []"
| "all_some (x # xs) =
     (case x of None \<Rightarrow> None | Some y \<Rightarrow> map_option ((#) y) (all_some xs))"

fun into_strings :: "json \<Rightarrow> string list option" where
  "into_strings (JArr js) = all_some (map (\<lambda>j. into_string j []) js)"
| "into_strings JNull = Some []"
| "into_strings j = None"

fun into_fields :: "('s \<Rightarrow> string \<times> json \<Rightarrow> 's option) \<Rightarrow> jmap \<Rightarrow> 's \<Rightarrow> 's option" where
  "into_fields field [] s = Some s"
| "into_fields field (kj # m) s =
     (case field s kj of None \<Rightarrow> None | Some s' \<Rightarrow> into_fields field m s')"

fun policy_field :: "VKHashPolicy \<Rightarrow> string \<times> json \<Rightarrow> VKHashPolicy option" where
  "policy_field p (k, j) =
     (if equal_fold ''mode'' k then map_option (\<lambda>v. p\<lparr>Mode := v\<rparr>) (into_string j (Mode p))
      else if equal_fold ''autoCheck'' k
        then map_option (\<lambda>v. p\<lparr>AutoCheck := v\<rparr>) (into_bool j (AutoCheck p))
      else if equal_fold ''autoReplace'' k
        then map_option (\<lambda>v. p\<lparr>AutoReplace := v\<rparr>) (into_bool j (AutoReplace p))
      else Some p)"

definition zero_policy :: VKHashPolicy where
  "zero_policy = \<lparr>Mode = [], AutoCheck = False, AutoReplace = False\<rparr>"

fun into_policy :: "json \<Rightarrow> VKHashPolicy option \<Rightarrow> VKHashPolicy option option" where
  "into_policy (JObj m) old =
     map_option Some (into_fields policy_field m (case old of Some p \<Rightarrow> p | None \<Rightarrow> zero_policy))"
| "into_policy JNull old = Some None"
| "into_policy j old = None"

fun profile_field :: "ProfileData \<Rightarrow> string \<times> json \<Rightarrow> ProfileData option" where
  "profile_field p (k, j) =
     (if equal_fold ''peer'' k
        then map_option (\<lambda>v. p\<lparr>PeerAddr := v\<rparr>) (into_string j (PeerAddr p))
      else if equal_fold ''password'' k
        then map_option (\<lambda>v. p\<lparr>Password := v\<rparr>) (into_string j (Password p))
      else if equal_fold ''hashes'' k
        then map_option (\<lambda>v. p\<lparr>Hashes := v\<rparr>) (into_strings j)
      else if equal_fold ''listen'' k
        then map_option (\<lambda>v. p\<lparr>Listen := v\<rparr>) (into_string j (Listen p))
      else if equal_fold ''turn'' k
        then map_option (\<lambda>v. p\<lparr>TurnHost := v\<rparr>) (into_string j (TurnHost p))
      else if equal_fold ''port'' k
        then map_option (\<lambda>v. p\<lparr>TurnPort := v\<rparr>) (into_string j (TurnPort p))
      else if equal_fold ''device_id'' k
        then map_option (\<lambda>v. p\<lparr>DeviceID := v\<rparr>) (into_string j (DeviceID p))
      else if equal_fold ''hash_policy'' k
        then map_option (\<lambda>v. p\<lparr>HashPolicy := v\<rparr>) (into_policy j (HashPolicy p))
      else Some p)"

definition zero_profile :: ProfileData where
  "zero_profile = \<lparr>PeerAddr = [], Password = [], Hashes = [], Listen = [], TurnHost = [],
     TurnPort = [], DeviceID = [], HashPolicy = None\<rparr>"

definition unmarshal_profile :: "jmap \<Rightarrow> ProfileData option" where
  "unmarshal_profile m = into_fields profile_field m zero_profile"

fun settings_field :: "AppSettings \<Rightarrow> string \<times> json \<Rightarrow> AppSettings option" where
  "settings_field s (k, j) =
     (if equal_fold ''autoStart'' k
        then map_option (\<lambda>v. s\<lparr>AutoStart := v\<rparr>) (into_bool j (AutoStart s))
      else if equal_fold ''obfsMode'' k
        then map_option (\<lambda>v. s\<lparr>ObfsMode := v\<rparr>) (into_string j (ObfsMode s))
      else if equal_fold ''obfsAccepted'' k
        then map_option (\<lambda>v. s\<lparr>ObfsAccepted := v\<rparr>) (into_bool j (ObfsAccepted s))
      else if equal_fold ''debugLogging'' k
        then map_option (\<lambda>v. s\<lparr>DebugLogging := v\<rparr>) (into_bool j (DebugLogging s))
      else Some s)"

definition unmarshal_settings :: "jmap \<Rightarrow> AppSettings option" where
  "unmarshal_settings m =
     into_fields settings_field m
       \<lparr>AutoStart = False, ObfsMode = [], ObfsAccepted = False, DebugLogging = False\<rparr>"

text \<open>\<open>json.MarshalIndent\<close>: the tagged fields in their order, \<open>omitempty\<close> ones only if they are set.\<close>

definition text_json :: "string \<Rightarrow> json" where
  "text_json s = JStr (coerce_utf8 s)"

definition marshal_policy :: "VKHashPolicy \<Rightarrow> json" where
  "marshal_policy p =
     JObj [(''mode'', text_json (Mode p)), (''autoCheck'', JBool (AutoCheck p)),
       (''autoReplace'', JBool (AutoReplace p))]"

definition marshal_profile :: "ProfileData \<Rightarrow> json" where
  "marshal_profile p =
     JObj ([(''peer'', text_json (PeerAddr p)), (''password'', text_json (Password p)),
       (''hashes'', JArr (map text_json (Hashes p))), (''listen'', text_json (Listen p)),
       (''turn'', text_json (TurnHost p)), (''port'', text_json (TurnPort p)),
       (''device_id'', text_json (DeviceID p))] @
       (case HashPolicy p of None \<Rightarrow> [] | Some q \<Rightarrow> [(''hash_policy'', marshal_policy q)]))"

definition marshal_settings :: "AppSettings \<Rightarrow> json" where
  "marshal_settings s =
     JObj ([(''autoStart'', JBool (AutoStart s)), (''obfsMode'', text_json (ObfsMode s)),
       (''obfsAccepted'', JBool (ObfsAccepted s))] @
       (if DebugLogging s then [(''debugLogging'', JBool True)] else []))"

section \<open>Files\<close>

text \<open>
  A file of the configuration directory or of its \<open>servers\<close> directory, by its name there. \<open>Dir\<close> is a
  directory in the place of a file and \<open>Locked\<close> a file that cannot be read.
\<close>

datatype path = Base string | Servers string

datatype os_file = Doc json | NotJson string | Dir | Locked

text \<open>
  What the operating system and the random numbers give: the outcome of the calls on a path, the
  clock text and the identifier of the n-th \<open>uuid.NewString\<close>, and \<open>unicode.IsLetter\<close> or
  \<open>unicode.IsDigit\<close> of a rune that is not ASCII.
\<close>

record os_env =
  readdir_fails :: bool
  rename_fails :: "path \<Rightarrow> bool"
  chmod_fails :: "path \<Rightarrow> bool"
  write_fails :: "path \<Rightarrow> bool"
  remove_fails :: "path \<Rightarrow> bool"
  stamp :: "nat \<Rightarrow> string"
  uuid :: "nat \<Rightarrow> string"
  letter_or_digit :: "nat list \<Rightarrow> bool"

datatype kind = SettingsKind | ProfileKind

datatype notice =
    DirNotRead | FileNotRead kind | QuarantineBlocked kind | PermissionsNotLimited
  | Quarantined kind

record Store =
  disk :: "(path \<times> os_file) list"
  recoveryNotices :: "notice list"
  drawn :: nat

datatype store_error =
    NotExist | ReadFailed | QuarantineFailed | QuarantinedJSON | InvalidName | BadJSON
  | WriteFailed | RemoveFailed

definition addRecoveryNotice :: "notice \<Rightarrow> Store \<Rightarrow> Store" where
  "addRecoveryNotice m s =
     (if m \<in> set (recoveryNotices s) then s
      else s\<lparr>recoveryNotices := recoveryNotices s @ [m]\<rparr>)"

fun validateJSONObject :: "os_file \<Rightarrow> jmap option" where
  "validateJSONObject (Doc (JObj m)) = Some m"
| "validateJSONObject f = None"

definition validateSettingsJSON :: "jmap \<Rightarrow> bool" where
  "validateSettingsJSON m \<longleftrightarrow> unmarshal_settings m \<noteq> None"

definition validateProfileJSON :: "jmap \<Rightarrow> bool" where
  "validateProfileJSON m \<longleftrightarrow> unmarshal_profile m \<noteq> None"

definition backup_suffix :: "os_env \<Rightarrow> nat \<Rightarrow> string" where
  "backup_suffix E n = ''.corrupt-'' @ stamp E n @ ''-'' @ uuid E n @ ''.bak''"

fun backup_path :: "os_env \<Rightarrow> nat \<Rightarrow> path \<Rightarrow> path" where
  "backup_path E n (Base f) = Base (f @ backup_suffix E n)"
| "backup_path E n (Servers f) = Servers (f @ backup_suffix E n)"

definition quarantine :: "os_env \<Rightarrow> path \<Rightarrow> os_file \<Rightarrow> kind \<Rightarrow> Store \<Rightarrow> store_error \<times> Store" where
  "quarantine E p f k s =
     (let backup = backup_path E (drawn s) p; s = s\<lparr>drawn := drawn s + 1\<rparr> in
      if rename_fails E p then (QuarantineFailed, addRecoveryNotice (QuarantineBlocked k) s)
      else
        let s = s\<lparr>disk := AList.update backup f (AList.delete p (disk s))\<rparr>;
            s = (if chmod_fails E backup then addRecoveryNotice PermissionsNotLimited s else s)
        in (QuarantinedJSON, addRecoveryNotice (Quarantined k) s))"

definition readJSON ::
    "os_env \<Rightarrow> path \<Rightarrow> kind \<Rightarrow> (jmap \<Rightarrow> bool) \<Rightarrow> Store \<Rightarrow> (store_error + jmap) \<times> Store" where
  "readJSON E p k valid s =
     (case map_of (disk s) p of
        None \<Rightarrow> (Inl NotExist, s)
      | Some f \<Rightarrow>
          if f = Dir \<or> f = Locked then (Inl ReadFailed, addRecoveryNotice (FileNotRead k) s)
          else
            case validateJSONObject f of
              Some m \<Rightarrow>
                if valid m then (Inr m, s)
                else (let (e, s) = quarantine E p f k s in (Inl e, s))
            | None \<Rightarrow> (let (e, s) = quarantine E p f k s in (Inl e, s)))"

text \<open>\<open>atomicWrite\<close>: a temporary file that is removed if a step fails, then a rename.\<close>

definition atomicWrite :: "os_env \<Rightarrow> path \<Rightarrow> json \<Rightarrow> Store \<Rightarrow> (store_error + unit) \<times> Store" where
  "atomicWrite E p j s =
     (if write_fails E p \<or> map_of (disk s) p = Some Dir then (Inl WriteFailed, s)
      else (Inr (), s\<lparr>disk := AList.update p (Doc j) (disk s)\<rparr>))"

section \<open>Profile names\<close>

function keep_runes :: "(nat list \<Rightarrow> bool) \<Rightarrow> nat list \<Rightarrow> nat list" where
  "keep_runes ok s =
     (case s of
        [] \<Rightarrow> []
      | a # t \<Rightarrow>
          if utf8_len s = 0 then keep_runes ok t
          else
            (if ok (take (utf8_len s) s) then take (utf8_len s) s else []) @
            keep_runes ok (drop (utf8_len s) s))"
  by pat_completeness auto
termination
  by (relation "measure (\<lambda>(ok, s). length s)") auto

declare keep_runes.simps [simp del]

definition name_rune :: "os_env \<Rightarrow> nat list \<Rightarrow> bool" where
  "name_rune E r =
     (case r of
        [a] \<Rightarrow> 65 \<le> a \<and> a \<le> 90 \<or> 97 \<le> a \<and> a \<le> 122 \<or> 48 \<le> a \<and> a \<le> 57 \<or> a \<in> {45, 95, 32}
      | _ \<Rightarrow> letter_or_digit E r)"

definition sanitizeProfileName :: "os_env \<Rightarrow> string \<Rightarrow> string" where
  "sanitizeProfileName E name =
     trim_space (utf8 (keep_runes (name_rune E) (map bval (trim_space name))))"

section \<open>Operations\<close>

definition default_settings :: AppSettings where
  "default_settings =
     \<lparr>AutoStart = True, ObfsMode = ''audio'', ObfsAccepted = False, DebugLogging = False\<rparr>"

definition settings_path :: path where
  "settings_path = Base ''config.json''"

definition profile_path :: "string \<Rightarrow> path" where
  "profile_path name = Servers (name @ ''.json'')"

definition LoadSettings :: "os_env \<Rightarrow> Store \<Rightarrow> AppSettings \<times> Store" where
  "LoadSettings E s =
     (case readJSON E settings_path SettingsKind validateSettingsJSON s of
        (Inl e, s) \<Rightarrow> (default_settings, s)
      | (Inr m, s) \<Rightarrow>
          (case unmarshal_settings m of
             None \<Rightarrow> (default_settings, s)
           | Some st \<Rightarrow>
               (if \<not> ObfsAccepted st then st\<lparr>ObfsMode := ''audio''\<rparr> else st, s)))"

definition SaveSettings :: "os_env \<Rightarrow> AppSettings \<Rightarrow> Store \<Rightarrow> (store_error + unit) \<times> Store" where
  "SaveSettings E settings s =
     (let (r, s) = readJSON E settings_path SettingsKind validateSettingsJSON s in
      case r of
        Inl e \<Rightarrow>
          if e \<noteq> NotExist \<and> e \<noteq> QuarantinedJSON then (Inl e, s)
          else atomicWrite E settings_path (marshal_settings settings) s
      | Inr m \<Rightarrow> atomicWrite E settings_path (marshal_settings settings) s)"

definition loadProfileLocked ::
    "os_env \<Rightarrow> string \<Rightarrow> Store \<Rightarrow> (store_error + ProfileData) \<times> Store" where
  "loadProfileLocked E name s =
     (case readJSON E (profile_path name) ProfileKind validateProfileJSON s of
        (Inl e, s) \<Rightarrow> (Inl e, s)
      | (Inr m, s) \<Rightarrow>
          (case unmarshal_profile m of None \<Rightarrow> (Inl BadJSON, s) | Some p \<Rightarrow> (Inr p, s)))"

definition LoadProfile :: "os_env \<Rightarrow> string \<Rightarrow> Store \<Rightarrow> (store_error + ProfileData) \<times> Store" where
  "LoadProfile E name s =
     (let name = sanitizeProfileName E name in
      if name = [] then (Inl InvalidName, s) else loadProfileLocked E name s)"

text \<open>The device and the policy of the profile on the disk are kept if the new one has none.\<close>

definition keep_existing :: "ProfileData \<Rightarrow> ProfileData \<Rightarrow> ProfileData" where
  "keep_existing existing p =
     (let p = (if DeviceID p = [] then p\<lparr>DeviceID := DeviceID existing\<rparr> else p)
      in if HashPolicy p = None then p\<lparr>HashPolicy := HashPolicy existing\<rparr> else p)"

definition write_profile ::
    "os_env \<Rightarrow> string \<Rightarrow> ProfileData \<Rightarrow> Store \<Rightarrow> (store_error + unit) \<times> Store" where
  "write_profile E name p s =
     (if DeviceID p = []
      then atomicWrite E (profile_path name)
        (marshal_profile (p\<lparr>DeviceID := uuid E (drawn s)\<rparr>)) (s\<lparr>drawn := drawn s + 1\<rparr>)
      else atomicWrite E (profile_path name) (marshal_profile p) s)"

definition SaveProfile ::
    "os_env \<Rightarrow> string \<Rightarrow> ProfileData \<Rightarrow> Store \<Rightarrow> (store_error + unit) \<times> Store" where
  "SaveProfile E name p s =
     (let name = sanitizeProfileName E name in
      if name = [] then (Inl InvalidName, s)
      else
        case readJSON E (profile_path name) ProfileKind validateProfileJSON s of
          (Inl e, s) \<Rightarrow>
            if e \<noteq> NotExist \<and> e \<noteq> QuarantinedJSON then (Inl e, s)
            else write_profile E name p s
        | (Inr m, s) \<Rightarrow>
            (case unmarshal_profile m of
               None \<Rightarrow> (Inl BadJSON, s)
             | Some existing \<Rightarrow> write_profile E name (keep_existing existing p) s))"

definition DeleteProfile :: "os_env \<Rightarrow> string \<Rightarrow> Store \<Rightarrow> (store_error + unit) \<times> Store" where
  "DeleteProfile E name s =
     (let name = sanitizeProfileName E name in
      if name = [] then (Inl InvalidName, s)
      else
        let p = profile_path name in
        if map_of (disk s) p = None then (Inl NotExist, s)
        else if remove_fails E p then (Inl RemoveFailed, s)
        else (Inr (), s\<lparr>disk := AList.delete p (disk s)\<rparr>))"

text \<open>\<open>os.ReadDir\<close> gives the names in their order.\<close>

fun server_name :: "path \<Rightarrow> string list" where
  "server_name (Servers f) = [f]"
| "server_name (Base f) = []"

definition ReadDir :: "Store \<Rightarrow> string list" where
  "ReadDir s = sort (remdups (concat (map (server_name \<circ> fst) (disk s))))"

fun list_step ::
    "os_env \<Rightarrow> (string \<times> ProfileData) list \<Rightarrow> string \<Rightarrow> Store \<Rightarrow> (string \<times> ProfileData) list \<times> Store" where
  "list_step E result f s =
     (if map_of (disk s) (Servers f) = Some Dir \<or> \<not> has_suffix ''.json'' f then (result, s)
      else
        case readJSON E (Servers f) ProfileKind validateProfileJSON s of
          (Inl e, s) \<Rightarrow> (result, s)
        | (Inr m, s) \<Rightarrow>
            (case unmarshal_profile m of
               None \<Rightarrow> (result, s)
             | Some p \<Rightarrow> (AList.update (trim_suffix ''.json'' f) p result, s)))"

fun list_profiles ::
    "os_env \<Rightarrow> string list \<Rightarrow> (string \<times> ProfileData) list \<Rightarrow> Store \<Rightarrow>
     (string \<times> ProfileData) list \<times> Store" where
  "list_profiles E [] result s = (result, s)"
| "list_profiles E (f # fs) result s =
     (let (result, s) = list_step E result f s in list_profiles E fs result s)"

definition ListProfiles :: "os_env \<Rightarrow> Store \<Rightarrow> (string \<times> ProfileData) list \<times> Store" where
  "ListProfiles E s =
     (if readdir_fails E then ([], addRecoveryNotice DirNotRead s)
      else list_profiles E (ReadDir s) [] s)"

section \<open>No file that cannot be decoded is lost\<close>

datatype store_op =
    DoLoadSettings | DoSaveSettings AppSettings | DoLoadProfile string
  | DoSaveProfile string ProfileData | DoDeleteProfile string | DoListProfiles

fun store_step :: "os_env \<Rightarrow> Store \<Rightarrow> store_op \<Rightarrow> Store" where
  "store_step E s DoLoadSettings = snd (LoadSettings E s)"
| "store_step E s (DoSaveSettings st) = snd (SaveSettings E st s)"
| "store_step E s (DoLoadProfile n) = snd (LoadProfile E n s)"
| "store_step E s (DoSaveProfile n p) = snd (SaveProfile E n p s)"
| "store_step E s (DoDeleteProfile n) = snd (DeleteProfile E n s)"
| "store_step E s DoListProfiles = snd (ListProfiles E s)"

definition run_store :: "os_env \<Rightarrow> store_op list \<Rightarrow> Store \<Rightarrow> Store" where
  "run_store E ops s = foldl (store_step E) s ops"

text \<open>Documented behaviour of \<open>uuid.NewString\<close>: ASCII texts of which none repeats and, as they all
  have one length, none is the end of another.\<close>

definition uuids_ok :: "os_env \<Rightarrow> bool" where
  "uuids_ok E \<longleftrightarrow>
     (\<forall>m n x y. x @ uuid E m = y @ uuid E n \<longrightarrow> m = n) \<and>
     (\<forall>n. uuid E n \<noteq> [] \<and> (\<forall>c \<in> set (uuid E n). bval c < 128))"

definition fresh_backups :: "os_env \<Rightarrow> Store \<Rightarrow> bool" where
  "fresh_backups E s \<longleftrightarrow> (\<forall>n \<ge> drawn s. \<forall>p. map_of (disk s) (backup_path E n p) = None)"

definition data_path :: "path \<Rightarrow> bool" where
  "data_path p \<longleftrightarrow> p = settings_path \<or> (\<exists>name. p = profile_path name)"

fun valid_at :: "path \<Rightarrow> jmap \<Rightarrow> bool" where
  "valid_at (Base f) m = validateSettingsJSON m"
| "valid_at (Servers f) m = validateProfileJSON m"

definition decodes :: "path \<Rightarrow> os_file \<Rightarrow> bool" where
  "decodes p f \<longleftrightarrow> (\<exists>m. validateJSONObject f = Some m \<and> valid_at p m)"

text \<open>A content is kept: it is in its place, or in a backup made for this place.\<close>

definition kept :: "os_env \<Rightarrow> path \<Rightarrow> os_file \<Rightarrow> Store \<Rightarrow> bool" where
  "kept E q f s \<longleftrightarrow>
     map_of (disk s) q = Some f \<or> (\<exists>n < drawn s. map_of (disk s) (backup_path E n q) = Some f)"

definition safe_change :: "os_env \<Rightarrow> path \<Rightarrow> os_file \<Rightarrow> Store \<Rightarrow> Store \<Rightarrow> bool" where
  "safe_change E q f s s' \<longleftrightarrow>
     (fresh_backups E s \<and> kept E q f s \<longrightarrow> fresh_backups E s' \<and> kept E q f s')"

lemma safe_refl [simp, intro]: "safe_change E q f s s"
  by (simp add: safe_change_def)

lemma safe_trans: "safe_change E q f a b \<Longrightarrow> safe_change E q f b c \<Longrightarrow> safe_change E q f a c"
  by (simp add: safe_change_def)

lemma notice_keeps [simp]:
  "disk (addRecoveryNotice m s) = disk s" "drawn (addRecoveryNotice m s) = drawn s"
  by (simp_all add: addRecoveryNotice_def)

lemma safe_same_disk: "disk s' = disk s \<Longrightarrow> drawn s \<le> drawn s' \<Longrightarrow> safe_change E q f s s'"
  unfolding safe_change_def fresh_backups_def kept_def by (metis le_trans less_le_trans)

lemma backup_not_data: "data_path p \<Longrightarrow> backup_path E n q \<noteq> p"
proof
  assume p: "data_path p" and e: "backup_path E n q = p"
  have "last (backup_suffix E n) = CHR ''k''" "backup_suffix E n \<noteq> []"
    by (simp_all add: backup_suffix_def)
  with p e show False
    by (cases q) (auto simp: data_path_def settings_path_def profile_path_def
        dest!: arg_cong [of _ _ last])
qed

lemma backup_path_inj:
  assumes "uuids_ok E" and "backup_path E m p = backup_path E n q"
  shows "m = n \<and> p = q"
proof -
  have "m = n" if "x @ backup_suffix E m = y @ backup_suffix E n" for x y
  proof -
    have "(x @ ''.corrupt-'' @ stamp E m @ ''-'') @ uuid E m =
        (y @ ''.corrupt-'' @ stamp E n @ ''-'') @ uuid E n"
      using that by (simp add: backup_suffix_def)
    then show "m = n"
      using assms(1) unfolding uuids_ok_def by blast
  qed
  with assms(2) have "m = n"
    by (cases p; cases q) (auto)
  with assms(2) show ?thesis
    by (cases p; cases q) auto
qed

lemma quarantine_safe:
  assumes "uuids_ok E" and p: "data_path p" and f0: "map_of (disk s) p = Some f0"
  shows "safe_change E q f s (snd (quarantine E p f0 k s))"
proof (cases "rename_fails E p")
  case True
  then show ?thesis
    by (auto simp: quarantine_def Let_def intro!: safe_same_disk)
next
  case False
  define s' where "s' = snd (quarantine E p f0 k s)"
  have d: "map_of (disk s') = ((map_of (disk s))(p := None))(backup_path E (drawn s) p \<mapsto> f0)"
    "drawn s' = drawn s + 1"
    using False by (simp_all add: s'_def quarantine_def Let_def AList.update_conv' AList.delete_conv')
  show ?thesis
    unfolding s'_def [symmetric] safe_change_def
  proof (intro impI conjI)
    assume a: "fresh_backups E s \<and> kept E q f s"
    show "fresh_backups E s'"
      unfolding fresh_backups_def
    proof (intro allI impI)
      fix n r assume n: "drawn s' \<le> n"
      then have "backup_path E n r \<noteq> backup_path E (drawn s) p"
        using backup_path_inj [OF assms(1), of n r "drawn s" p] d(2) by auto
      moreover have "map_of (disk s) (backup_path E n r) = None"
        using a n d(2) by (simp add: fresh_backups_def)
      ultimately show "map_of (disk s') (backup_path E n r) = None"
        by (simp add: d(1))
    qed
    have fr: "map_of (disk s) (backup_path E (drawn s) p) = None"
      using a by (simp add: fresh_backups_def)
    from a consider "map_of (disk s) q = Some f" |
        n where "n < drawn s" "map_of (disk s) (backup_path E n q) = Some f"
      by (auto simp: kept_def)
    then show "kept E q f s'"
    proof cases
      case 1
      show ?thesis
      proof (cases "q = p")
        case True
        then show ?thesis
          using 1 f0 by (auto simp: kept_def d intro!: exI [of _ "drawn s"])
      next
        case False
        moreover have "q \<noteq> backup_path E (drawn s) p"
          using 1 fr by auto
        ultimately show ?thesis
          using 1 by (simp add: kept_def d)
      qed
    next
      case 2
      have "backup_path E n q \<noteq> p" "backup_path E n q \<noteq> backup_path E (drawn s) p"
        using backup_not_data [OF p] 2 fr by auto
      then show ?thesis
        using 2 by (auto simp: kept_def d intro!: exI [of _ n])
    qed
  qed
qed

lemma readJSON_safe:
  assumes "uuids_ok E" and "data_path p"
  shows "safe_change E q f s (snd (readJSON E p k valid s))"
proof (cases "map_of (disk s) p")
  case (Some f0)
  then show ?thesis
    using quarantine_safe [OF assms Some, of q f k]
    by (auto simp: readJSON_def safe_same_disk split: option.split prod.splits)
qed (simp add: readJSON_def)

text \<open>Where a write follows a read, the content it replaces decodes.\<close>

lemma readJSON_then_write:
  assumes "readJSON E p k (valid_at p) s = (r, s')" and "data_path p"
    and "\<forall>e. r = Inl e \<longrightarrow> e = NotExist \<or> e = QuarantinedJSON"
    and "map_of (disk s') p = Some f"
  shows "decodes p f"
proof (cases "map_of (disk s) p")
  case None
  with assms show ?thesis
    by (auto simp: readJSON_def)
next
  case (Some f0)
  have "map_of (disk (snd (quarantine E p f0 k s))) p = None"
    if "fst (quarantine E p f0 k s) = QuarantinedJSON"
    using that backup_not_data [OF assms(2), of E "drawn s" p]
    by (auto simp: quarantine_def Let_def AList.update_conv' AList.delete_conv' split: if_splits)
  moreover have "fst (quarantine E p f0 k s) \<noteq> NotExist"
    by (simp add: quarantine_def Let_def)
  ultimately show ?thesis
    using assms(1,3,4) Some
    by (auto simp: readJSON_def decodes_def split: if_splits option.splits prod.splits)
qed

lemma atomicWrite_safe:
  assumes "data_path p" and "p = q \<longrightarrow> map_of (disk s) q \<noteq> Some f"
  shows "safe_change E q f s (snd (atomicWrite E p j s))"
proof (cases "write_fails E p \<or> map_of (disk s) p = Some Dir")
  case False
  then have "snd (atomicWrite E p j s) = s\<lparr>disk := AList.update p (Doc j) (disk s)\<rparr>"
    by (simp add: atomicWrite_def)
  then show ?thesis
    using assms backup_not_data [OF assms(1)]
    unfolding safe_change_def fresh_backups_def kept_def by (auto simp: AList.update_conv')
qed (simp add: atomicWrite_def)

lemma settings_data [simp, intro]: "data_path settings_path"
  by (simp add: data_path_def)

lemma profile_data [simp, intro]: "data_path (profile_path n)"
  by (auto simp: data_path_def)

lemma json_name_data: "has_suffix ''.json'' f \<Longrightarrow> data_path (Servers f)"
  by (auto simp: has_suffix_iff data_path_def profile_path_def)

lemma valid_at_path [simp]:
  "valid_at settings_path = validateSettingsJSON" "valid_at (profile_path n) = validateProfileJSON"
  by (auto simp: settings_path_def profile_path_def fun_eq_iff)

text \<open>A read, and then a write unless the read failed for another reason than a missing or
  quarantined file.\<close>

lemma read_write_safe:
  assumes u: "uuids_ok E" and p: "data_path p" and bad: "\<not> decodes q f"
    and r: "readJSON E p k (valid_at p) s = (r, s1)"
    and w: "\<forall>e. r = Inl e \<longrightarrow> e = NotExist \<or> e = QuarantinedJSON"
    and s2: "disk s2 = disk s1" "drawn s1 \<le> drawn s2"
  shows "safe_change E q f s (snd (atomicWrite E p j s2))"
proof (rule safe_trans)
  show "safe_change E q f s s2"
    using readJSON_safe [OF u p, of q f s k "valid_at p"] r safe_same_disk [OF s2]
    by (auto intro: safe_trans)
  show "safe_change E q f s2 (snd (atomicWrite E p j s2))"
    using readJSON_then_write [OF r p w] bad s2 by (intro atomicWrite_safe p) auto
qed

lemma write_profile_safe:
  assumes "uuids_ok E" and "\<not> decodes q f"
    and "readJSON E (profile_path n) ProfileKind validateProfileJSON s = (r, s1)"
    and "\<forall>e. r = Inl e \<longrightarrow> e = NotExist \<or> e = QuarantinedJSON"
  shows "safe_change E q f s (snd (write_profile E n p s1))"
  using read_write_safe [OF assms(1) profile_data assms(2), of n ProfileKind s r s1] assms(3,4)
  by (simp add: write_profile_def)

lemma LoadSettings_safe: "uuids_ok E \<Longrightarrow> safe_change E q f s (snd (LoadSettings E s))"
  using readJSON_safe [of E settings_path q f s SettingsKind validateSettingsJSON]
  by (auto simp: LoadSettings_def split: prod.splits sum.splits option.splits)

lemma SaveSettings_safe:
  "uuids_ok E \<Longrightarrow> \<not> decodes q f \<Longrightarrow> safe_change E q f s (snd (SaveSettings E st s))"
  using readJSON_safe [of E settings_path q f s SettingsKind validateSettingsJSON]
    read_write_safe [of E settings_path q f SettingsKind s]
  by (auto simp: SaveSettings_def Let_def split: prod.splits sum.splits)

lemma LoadProfile_safe: "uuids_ok E \<Longrightarrow> safe_change E q f s (snd (LoadProfile E n s))"
  using readJSON_safe [of E "profile_path (sanitizeProfileName E n)" q f s ProfileKind validateProfileJSON]
  by (auto simp: LoadProfile_def loadProfileLocked_def Let_def split: prod.splits sum.splits option.splits)

lemma SaveProfile_safe:
  "uuids_ok E \<Longrightarrow> \<not> decodes q f \<Longrightarrow> safe_change E q f s (snd (SaveProfile E n p s))"
  using readJSON_safe [of E "profile_path (sanitizeProfileName E n)" q f s ProfileKind validateProfileJSON]
    write_profile_safe [of E q f "sanitizeProfileName E n" s]
  by (auto simp: SaveProfile_def Let_def split: prod.splits sum.splits option.splits)

lemma DeleteProfile_safe:
  assumes "q \<noteq> profile_path (sanitizeProfileName E n)"
  shows "safe_change E q f s (snd (DeleteProfile E n s))"
  using assms backup_not_data [OF profile_data]
  by (auto simp: DeleteProfile_def Let_def safe_change_def fresh_backups_def kept_def
      AList.delete_conv')

lemma list_step_safe: "uuids_ok E \<Longrightarrow> safe_change E q f s (snd (list_step E res n s))"
  using readJSON_safe [of E "Servers n" q f s ProfileKind validateProfileJSON] json_name_data [of n]
  by (auto split: prod.splits sum.splits option.splits)

lemma list_profiles_safe: "uuids_ok E \<Longrightarrow> safe_change E q f s (snd (list_profiles E ns res s))"
proof (induction ns arbitrary: res s)
  case (Cons n ns)
  then show ?case
    using list_step_safe [OF Cons.prems, of q f s res n] Cons.IH [OF Cons.prems]
    by (auto split: prod.splits intro: safe_trans simp del: list_step.simps)
qed simp

lemma ListProfiles_safe: "uuids_ok E \<Longrightarrow> safe_change E q f s (snd (ListProfiles E s))"
  by (auto simp: ListProfiles_def list_profiles_safe intro: safe_same_disk)

lemma store_step_safe:
  assumes "uuids_ok E" and "\<not> decodes q f"
    and "\<forall>n. op = DoDeleteProfile n \<longrightarrow> q \<noteq> profile_path (sanitizeProfileName E n)"
  shows "safe_change E q f s (store_step E s op)"
  using assms
  by (cases op) (simp_all add: LoadSettings_safe SaveSettings_safe LoadProfile_safe SaveProfile_safe
      DeleteProfile_safe ListProfiles_safe)

lemma run_store_safe:
  assumes "uuids_ok E" and "\<not> decodes q f"
    and "\<forall>n. DoDeleteProfile n \<in> set ops \<longrightarrow> q \<noteq> profile_path (sanitizeProfileName E n)"
  shows "safe_change E q f s (run_store E ops s)"
  using assms(3)
proof (induction ops arbitrary: s)
  case (Cons op ops)
  then have "safe_change E q f s (store_step E s op)"
    using store_step_safe [OF assms(1,2), of op s] by auto
  moreover have "safe_change E q f (store_step E s op) (run_store E ops (store_step E s op))"
    using Cons by auto
  ultimately show ?case
    by (auto simp: run_store_def intro: safe_trans)
qed (simp add: run_store_def)

text \<open>Identifiers for the examples: a mark and n letters.\<close>

definition example_env :: os_env where
  "example_env = \<lparr>readdir_fails = False, rename_fails = (\<lambda>p. False), chmod_fails = (\<lambda>p. False),
     write_fails = (\<lambda>p. False), remove_fails = (\<lambda>p. False), stamp = (\<lambda>n. ''T''),
     uuid = (\<lambda>n. CHR ''#'' # replicate n CHR ''a''), letter_or_digit = (\<lambda>r. False)\<rparr>"

lemma example_uuids: "uuids_ok example_env"
proof -
  have "takeWhile (\<lambda>c. c = CHR ''a'') (rev (x @ CHR ''#'' # replicate n CHR ''a'')) = replicate n CHR ''a''"
    for x n
    by (simp add: takeWhile_append)
  then have *: "m = n" if "x @ CHR ''#'' # replicate m CHR ''a'' = y @ CHR ''#'' # replicate n CHR ''a''" for x y m n
    using arg_cong [OF that, of "\<lambda>l. length (takeWhile (\<lambda>c. c = CHR ''a'') (rev l))"] by simp
  have "\<forall>m n x y. x @ uuid example_env m = y @ uuid example_env n \<longrightarrow> m = n"
    unfolding example_env_def os_env.simps by (intro allI impI) (rule *)
  moreover have "\<forall>n. uuid example_env n \<noteq> [] \<and> (\<forall>c \<in> set (uuid example_env n). bval c < 128)"
    by (simp add: example_env_def)
  ultimately show ?thesis
    unfolding uuids_ok_def by (rule conjI)
qed

lemma example_name [simp]: "sanitizeProfileName example_env ''a'' = ''a''"
  by code_simp

text \<open>Property C21 (safety). A file that is there and does not decode (broken JSON, a value of the wrong
  type, or a directory or unreadable file) is never overwritten or lost: after any sequence of the
  store's operations, including saves to the same place, its content is in its place or in a backup
  made for this place. Only deleting that profile can remove it.\<close>

theorem corrupt_files_are_kept:
  assumes "uuids_ok E" and "fresh_backups E s"
    and "map_of (disk s) q = Some f" and "\<not> decodes q f"
    and "\<forall>n. DoDeleteProfile n \<in> set ops \<longrightarrow> q \<noteq> profile_path (sanitizeProfileName E n)"
  shows "kept E q f (run_store E ops s)"
  using run_store_safe [OF assms(1,4,5), of s] assms(2,3)
  by (simp add: safe_change_def kept_def)

theorem corrupt_files_are_kept_witness:
  "kept example_env (profile_path ''a'') (NotJson ''{x'')
     (run_store example_env [DoListProfiles, DoSaveProfile ''a'' zero_profile, DoLoadProfile ''a'']
       \<lparr>disk = [(profile_path ''a'', NotJson ''{x'')], recoveryNotices = [], drawn = 0\<rparr>) \<and>
   map_of (disk (run_store example_env [DoSaveProfile ''a'' zero_profile]
       \<lparr>disk = [(profile_path ''a'', NotJson ''{x'')], recoveryNotices = [], drawn = 0\<rparr>))
     (Servers ''a.json.corrupt-T-#.bak'') = Some (NotJson ''{x'')"
proof (rule conjI, rule corrupt_files_are_kept)
  show "uuids_ok example_env"
    by (rule example_uuids)
  show "fresh_backups example_env
      \<lparr>disk = [(profile_path ''a'', NotJson ''{x'')], recoveryNotices = [], drawn = 0\<rparr>"
    using backup_not_data [OF profile_data] by (simp add: fresh_backups_def)
  show "\<not> decodes (profile_path ''a'') (NotJson ''{x'')"
    by (simp add: decodes_def)
qed (simp_all, code_simp)

section \<open>What is saved is loaded\<close>

definition good_policy :: "VKHashPolicy \<Rightarrow> bool" where
  "good_policy p \<longleftrightarrow> valid_utf8 (Mode p)"

definition good_profile :: "ProfileData \<Rightarrow> bool" where
  "good_profile p \<longleftrightarrow>
     list_all valid_utf8 [PeerAddr p, Password p, Listen p, TurnHost p, TurnPort p, DeviceID p] \<and>
     list_all valid_utf8 (Hashes p) \<and> pred_option good_policy (HashPolicy p)"

lemma policy_fields [simp]:
  "policy_field p (''mode'', j) = map_option (\<lambda>v. p\<lparr>Mode := v\<rparr>) (into_string j (Mode p))"
  "policy_field p (''autoCheck'', j) = map_option (\<lambda>v. p\<lparr>AutoCheck := v\<rparr>) (into_bool j (AutoCheck p))"
  "policy_field p (''autoReplace'', j) = map_option (\<lambda>v. p\<lparr>AutoReplace := v\<rparr>) (into_bool j (AutoReplace p))"
  by (simp_all add: equal_fold_def ascii_lower_def)

lemma profile_fields [simp]:
  "profile_field p (''peer'', j) = map_option (\<lambda>v. p\<lparr>PeerAddr := v\<rparr>) (into_string j (PeerAddr p))"
  "profile_field p (''password'', j) = map_option (\<lambda>v. p\<lparr>Password := v\<rparr>) (into_string j (Password p))"
  "profile_field p (''hashes'', j) = map_option (\<lambda>v. p\<lparr>Hashes := v\<rparr>) (into_strings j)"
  "profile_field p (''listen'', j) = map_option (\<lambda>v. p\<lparr>Listen := v\<rparr>) (into_string j (Listen p))"
  "profile_field p (''turn'', j) = map_option (\<lambda>v. p\<lparr>TurnHost := v\<rparr>) (into_string j (TurnHost p))"
  "profile_field p (''port'', j) = map_option (\<lambda>v. p\<lparr>TurnPort := v\<rparr>) (into_string j (TurnPort p))"
  "profile_field p (''device_id'', j) = map_option (\<lambda>v. p\<lparr>DeviceID := v\<rparr>) (into_string j (DeviceID p))"
  "profile_field p (''hash_policy'', j) = map_option (\<lambda>v. p\<lparr>HashPolicy := v\<rparr>) (into_policy j (HashPolicy p))"
  by (simp_all add: equal_fold_def ascii_lower_def)

declare policy_field.simps [simp del] profile_field.simps [simp del]

lemma into_text_json [simp]: "valid_utf8 s \<Longrightarrow> into_string (text_json s) old = Some s"
  by (simp add: text_json_def valid_utf8_def)

lemma into_text_jsons [simp]:
  "list_all valid_utf8 ss \<Longrightarrow> all_some (map (\<lambda>j. into_string j []) (map text_json ss)) = Some ss"
  by (induction ss) simp_all

lemma into_marshal_policy [simp]:
  "good_policy p \<Longrightarrow> into_policy (marshal_policy p) None = Some (Some p)"
  by (simp add: marshal_policy_def good_policy_def zero_policy_def)

lemma unmarshal_marshal_profile:
  assumes "good_profile p"
  obtains m where "marshal_profile p = JObj m" and "unmarshal_profile m = Some p"
proof -
  have h: "into_strings (JArr (map text_json (Hashes p))) = Some (Hashes p)"
    using assms into_text_jsons [of "Hashes p"] by (simp add: good_profile_def)
  show ?thesis
    using assms that h unfolding marshal_profile_def unmarshal_profile_def good_profile_def
    by (cases "HashPolicy p") (auto simp: zero_profile_def simp del: into_strings.simps)
qed

text \<open>What is read from a file has valid texts.\<close>

lemma into_string_valid: "into_string j old = Some s \<Longrightarrow> valid_utf8 old \<Longrightarrow> valid_utf8 s"
  by (cases j) auto

lemma all_some_valid:
  "all_some (map (\<lambda>j. into_string j []) js) = Some ss \<Longrightarrow> list_all valid_utf8 ss"
  by (induction js arbitrary: ss) (auto split: option.splits dest: into_string_valid simp: valid_utf8_def)

lemma into_strings_valid: "into_strings j = Some ss \<Longrightarrow> list_all valid_utf8 ss"
  by (cases j) (auto dest: all_some_valid)

lemma into_fields_inv:
  assumes "\<And>s kj s'. P s \<Longrightarrow> field s kj = Some s' \<Longrightarrow> P s'"
  shows "into_fields field m s = Some s' \<Longrightarrow> P s \<Longrightarrow> P s'"
  by (induction m arbitrary: s) (auto split: option.splits dest: assms)

lemma policy_field_good: "good_policy p \<Longrightarrow> policy_field p kj = Some p' \<Longrightarrow> good_policy p'"
  by (cases kj) (auto simp: policy_field.simps good_policy_def dest: into_string_valid split: if_splits)

lemma into_policy_good:
  assumes "into_policy j old = Some p" and "pred_option good_policy old"
  shows "pred_option good_policy p"
proof (cases j)
  case (JObj m)
  have "good_policy (case old of Some p \<Rightarrow> p | None \<Rightarrow> zero_policy)"
    using assms(2) by (auto simp: good_policy_def zero_policy_def valid_utf8_def split: option.split)
  then show ?thesis
    using assms(1) into_fields_inv [where P = good_policy, OF policy_field_good] JObj by auto
qed (use assms in auto)

lemma profile_field_good: "good_profile p \<Longrightarrow> profile_field p kj = Some p' \<Longrightarrow> good_profile p'"
  by (cases kj)
    (auto simp: profile_field.simps good_profile_def
      dest: into_string_valid into_strings_valid into_policy_good split: if_splits)

lemma unmarshal_profile_good:
  assumes "unmarshal_profile m = Some p"
  shows "good_profile p"
proof (rule into_fields_inv [where P = good_profile and field = profile_field])
  show "into_fields profile_field m zero_profile = Some p"
    using assms by (simp add: unmarshal_profile_def)
  show "good_profile zero_profile"
    by (simp add: good_profile_def zero_profile_def valid_utf8_def)
qed (rule profile_field_good)

lemma keep_existing_good: "good_profile e \<Longrightarrow> good_profile p \<Longrightarrow> good_profile (keep_existing e p)"
  by (simp add: keep_existing_def good_profile_def Let_def)

lemma LoadProfile_written:
  assumes "good_profile p" and "map_of (disk s) (profile_path (sanitizeProfileName E n)) = Some (Doc (marshal_profile p))"
    and "sanitizeProfileName E n \<noteq> []"
  shows "LoadProfile E n s = (Inr p, s)"
proof -
  from assms(1) obtain m where "marshal_profile p = JObj m" "unmarshal_profile m = Some p"
    by (rule unmarshal_marshal_profile)
  then show ?thesis
    using assms(2,3) by (simp add: LoadProfile_def loadProfileLocked_def readJSON_def validateProfileJSON_def)
qed

lemma write_profile_loaded:
  assumes "write_profile E (sanitizeProfileName E n) p s = (Inr (), s')"
    and "good_profile p" and "uuids_ok E" and "sanitizeProfileName E n \<noteq> []"
  shows "LoadProfile E n s' =
    (Inr (if DeviceID p = [] then p\<lparr>DeviceID := uuid E (drawn s)\<rparr> else p), s')"
proof -
  have "valid_utf8 (uuid E (drawn s))"
    using assms(3) by (auto simp: uuids_ok_def intro: valid_ascii)
  then have "good_profile (if DeviceID p = [] then p\<lparr>DeviceID := uuid E (drawn s)\<rparr> else p)"
    using assms(2) by (simp add: good_profile_def)
  then show ?thesis
    using assms(1,4)
    by (intro LoadProfile_written)
      (auto simp: write_profile_def atomicWrite_def AList.update_conv' split: if_splits)
qed

text \<open>The profile that a save writes: the given one, or completed from the one on the disk.\<close>

lemma SaveProfile_cases:
  assumes "SaveProfile E name p s = (Inr (), s')"
  obtains (new) s1 where "sanitizeProfileName E name \<noteq> []"
      and "\<And>old. fst (LoadProfile E name s) \<noteq> Inr old"
      and "write_profile E (sanitizeProfileName E name) p s1 = (Inr (), s')"
  | (old) old s1 where "sanitizeProfileName E name \<noteq> []" and "fst (LoadProfile E name s) = Inr old"
      and "good_profile old"
      and "write_profile E (sanitizeProfileName E name) (keep_existing old p) s1 = (Inr (), s')"
proof (cases "readJSON E (profile_path (sanitizeProfileName E name)) ProfileKind validateProfileJSON s")
  case (Pair r s1)
  have n: "sanitizeProfileName E name \<noteq> []"
    using assms by (auto simp: SaveProfile_def Let_def split: if_splits)
  show ?thesis
  proof (cases r)
    case (Inl e)
    then show ?thesis
      using assms n Pair
      by (intro new [of s1])
        (auto simp: SaveProfile_def LoadProfile_def loadProfileLocked_def Let_def split: if_splits)
  next
    case (Inr m)
    then obtain q where q: "unmarshal_profile m = Some q"
      using assms n Pair by (auto simp: SaveProfile_def Let_def split: option.splits)
    show ?thesis
      using assms n Pair Inr q unmarshal_profile_good [OF q]
      by (intro old [of q s1])
        (auto simp: SaveProfile_def LoadProfile_def loadProfileLocked_def Let_def)
  qed
qed

text \<open>Property C27 (round trip). A profile that was saved without an error is what a load gives back, up
  to the two fields that a save completes: a missing device identifier is that of the profile which
  was there before, or a new one, and never empty; a missing policy is that of the profile before.\<close>

theorem saved_profile_is_loaded:
  assumes "SaveProfile E name p s = (Inr (), s')" and "good_profile p" and "uuids_ok E"
  shows "\<exists>p'. LoadProfile E name s' = (Inr p', s') \<and>
    p'\<lparr>DeviceID := DeviceID p, HashPolicy := HashPolicy p\<rparr> = p \<and> DeviceID p' \<noteq> [] \<and>
    (DeviceID p \<noteq> [] \<longrightarrow> DeviceID p' = DeviceID p) \<and>
    (HashPolicy p \<noteq> None \<longrightarrow> HashPolicy p' = HashPolicy p) \<and>
    (\<forall>old. fst (LoadProfile E name s) = Inr old \<longrightarrow>
      (DeviceID p = [] \<and> DeviceID old \<noteq> [] \<longrightarrow> DeviceID p' = DeviceID old) \<and>
      (HashPolicy p = None \<longrightarrow> HashPolicy p' = HashPolicy old))"
  using assms(1)
proof (cases rule: SaveProfile_cases)
  case (new s1)
  note l = write_profile_loaded [OF new(3) assms(2,3) new(1)]
  moreover have "uuid E (drawn s1) \<noteq> []"
    using assms(3) by (simp add: uuids_ok_def)
  ultimately show ?thesis
    using new(2) by - (intro exI conjI, rule l, auto)
next
  case (old q s1)
  note l = write_profile_loaded [OF old(4) keep_existing_good [OF old(3) assms(2)] assms(3) old(1)]
  moreover have "uuid E (drawn s1) \<noteq> []"
    using assms(3) by (simp add: uuids_ok_def)
  ultimately show ?thesis
    using old(2) by - (intro exI conjI, rule l, auto simp: keep_existing_def Let_def)
qed

theorem saved_profile_is_loaded_witness:
  "\<exists>p'. LoadProfile example_env ''a'' (snd (SaveProfile example_env ''a''
      (zero_profile\<lparr>PeerAddr := ''h:1''\<rparr>) \<lparr>disk = [], recoveryNotices = [], drawn = 0\<rparr>)) =
    (Inr p', snd (SaveProfile example_env ''a''
      (zero_profile\<lparr>PeerAddr := ''h:1''\<rparr>) \<lparr>disk = [], recoveryNotices = [], drawn = 0\<rparr>)) \<and>
    PeerAddr p' = ''h:1'' \<and> DeviceID p' \<noteq> []"
proof -
  let ?p = "zero_profile\<lparr>PeerAddr := ''h:1''\<rparr>"
  let ?s = "\<lparr>disk = [], recoveryNotices = [], drawn = 0\<rparr> :: Store"
  have "fst (SaveProfile example_env ''a'' ?p ?s) = Inr ()"
    by (simp add: SaveProfile_def readJSON_def write_profile_def atomicWrite_def Let_def
        zero_profile_def) (simp add: example_env_def)
  then have S: "SaveProfile example_env ''a'' ?p ?s = (Inr (), snd (SaveProfile example_env ''a'' ?p ?s))"
    by (metis prod.collapse)
  have g: "good_profile ?p"
    by (simp add: good_profile_def zero_profile_def valid_ascii)
  obtain p' where "LoadProfile example_env ''a'' (snd (SaveProfile example_env ''a'' ?p ?s)) =
        (Inr p', snd (SaveProfile example_env ''a'' ?p ?s))"
    and e: "p'\<lparr>DeviceID := DeviceID ?p, HashPolicy := HashPolicy ?p\<rparr> = ?p" and "DeviceID p' \<noteq> []"
    using saved_profile_is_loaded [OF S g example_uuids] by blast
  moreover have "PeerAddr p' = ''h:1''"
    using arg_cong [OF e, of PeerAddr] by simp
  ultimately show ?thesis
    by blast
qed

section \<open>Names of files\<close>

text \<open>The single bytes of a text below 128 are its runes, so a kept byte is a kept rune.\<close>

lemma utf8_len_multi: "utf8_len s > 1 \<Longrightarrow> \<forall>b \<in> set (take (utf8_len s) s). 128 \<le> b"
  by (cases s; cases "tl s"; cases "tl (tl s)"; cases "tl (tl (tl s))")
    (auto simp: utf8_len.simps cont_byte_def split: if_splits)

lemma keep_runes_bytes:
  assumes "b \<in> set (keep_runes ok s)" and "b < 128"
  shows "ok [b]"
  using assms
proof (induction ok s rule: keep_runes.induct)
  case (1 ok s)
  show ?case
  proof (cases s)
    case Nil
    with 1(3) show ?thesis by (simp add: keep_runes.simps)
  next
    case (Cons a t)
    show ?thesis
    proof (cases "utf8_len s = 0")
      case True
      then show ?thesis
        using 1(1) [OF Cons True] 1(3,4) Cons by (simp add: keep_runes.simps [of ok "a # t"])
    next
      case False
      then have "b \<in> set (take (utf8_len s) s) \<and> ok (take (utf8_len s) s) \<or>
          b \<in> set (keep_runes ok (drop (utf8_len s) s))"
        using 1(3) Cons by (auto simp: keep_runes.simps [of ok "a # t"] split: if_splits)
      moreover have "take (utf8_len s) s = [b]" if "b \<in> set (take (utf8_len s) s)"
      proof -
        have "utf8_len s = 1"
          using utf8_len_multi [of s] that 1(4) False by force
        then show ?thesis
          using that Cons by simp
      qed
      ultimately show ?thesis
        using 1(2) [OF Cons False] 1(4) by auto
    qed
  qed
qed

text \<open>A sanitized name has no separator, dot, colon or control character, so the profile's file lies
  directly in the servers directory.\<close>

lemma keep_runes_subset: "set (keep_runes ok s) \<subseteq> set s"
proof (induction ok s rule: keep_runes.induct)
  case (1 ok s)
  then show ?case
    using set_take_subset [of "utf8_len s" s] set_drop_subset [of "utf8_len s" s]
    by (cases s) (auto simp: keep_runes.simps [of ok "a # t" for a t] keep_runes.simps [of ok "[]"]
        split: if_splits)
qed

lemma sanitized_chars:
  assumes "c \<in> set (sanitizeProfileName E name)" and "bval c < 128"
  shows "bval c \<in> {48..57} \<union> {65..90} \<union> {97..122} \<union> {32, 45, 95}"
proof -
  let ?bs = "map bval (trim_space name)"
  have "c \<in> set (utf8 (keep_runes (name_rune E) ?bs))"
    using assms(1) set_trim_space unfolding sanitizeProfileName_def by blast
  then obtain b where b: "b \<in> set (keep_runes (name_rune E) ?bs)" "c = char_of b"
    by (auto simp: utf8_def)
  then have "b < 256"
    using keep_runes_subset [of "name_rune E" ?bs] by auto
  then have "name_rune E [b]" "b = bval c"
    using keep_runes_bytes [OF b(1)] b(2) assms(2) by simp_all
  then show ?thesis
    by (auto simp: name_rune_def)
qed

lemma sanitized_no_separator: "CHR ''/'' \<notin> set (sanitizeProfileName E name)"
  using sanitized_chars [of "CHR ''/''" E name] by auto

section \<open>Identifiers and readable profiles\<close>

named_theorems store_mono

lemma readJSON_drawn [store_mono]: "drawn s \<le> drawn (snd (readJSON E p k v s))"
  by (auto simp: readJSON_def quarantine_def Let_def split: option.split prod.splits)

lemma atomicWrite_drawn [simp]: "drawn (snd (atomicWrite E p j s)) = drawn s"
  by (simp add: atomicWrite_def)

lemma write_profile_drawn [store_mono]: "drawn s \<le> drawn (snd (write_profile E n p s))"
  by (simp add: write_profile_def)

lemma SaveProfile_drawn [store_mono]: "drawn s \<le> drawn (snd (SaveProfile E n p s))"
  using readJSON_drawn [of s E "profile_path (sanitizeProfileName E n)" ProfileKind validateProfileJSON]
    write_profile_drawn order_trans
  by (fastforce simp: SaveProfile_def Let_def split: prod.splits sum.splits option.splits)

lemma LoadProfile_drawn [store_mono]: "drawn s \<le> drawn (snd (LoadProfile E n s))"
  using readJSON_drawn [of s E "profile_path (sanitizeProfileName E n)" ProfileKind validateProfileJSON]
  by (auto simp: LoadProfile_def loadProfileLocked_def Let_def split: prod.splits sum.splits option.splits)

lemma LoadSettings_drawn [store_mono]: "drawn s \<le> drawn (snd (LoadSettings E s))"
  using readJSON_drawn [of s E settings_path SettingsKind validateSettingsJSON]
  by (auto simp: LoadSettings_def split: prod.splits sum.splits option.splits)

lemma list_step_drawn: "drawn s \<le> drawn (snd (list_step E res n s))"
  using readJSON_drawn [of s E "Servers n" ProfileKind validateProfileJSON]
  by (auto split: prod.splits sum.splits option.splits)

lemma list_profiles_drawn: "drawn s \<le> drawn (snd (list_profiles E ns res s))"
proof (induction ns arbitrary: res s)
  case (Cons n ns)
  then show ?case
    using list_step_drawn [of s E res n]
    by (auto split: prod.splits intro: order_trans simp del: list_step.simps)
qed simp

lemma ListProfiles_drawn [store_mono]: "drawn s \<le> drawn (snd (ListProfiles E s))"
  by (simp add: ListProfiles_def list_profiles_drawn)

text \<open>A profile that can be read: its file decodes to it.\<close>

definition profile_on_disk :: "Store \<Rightarrow> string \<Rightarrow> ProfileData \<Rightarrow> bool" where
  "profile_on_disk s n p \<longleftrightarrow>
     (\<exists>m. map_of (disk s) (profile_path n) = Some (Doc (JObj m)) \<and> unmarshal_profile m = Some p)"

lemma readJSON_other:
  assumes "data_path q" and "map_of (disk (snd (readJSON E p k v s))) q = Some f"
  shows "map_of (disk s) q = Some f"
  using assms(2) backup_not_data [OF assms(1), of E "drawn s" p, THEN not_sym]
  by (auto simp: readJSON_def quarantine_def Let_def AList.update_conv' AList.delete_conv'
      split: if_splits option.splits prod.splits)

lemma profile_on_disk_readJSON:
  "profile_on_disk (snd (readJSON E p k v s)) n pr \<Longrightarrow> profile_on_disk s n pr"
  unfolding profile_on_disk_def by (blast dest: readJSON_other [OF profile_data])

lemma list_step_profile:
  assumes "list_step E res f s = (res', s')" and "profile_on_disk s' n p"
  shows "profile_on_disk s n p \<and> (map_of res n = Some p \<or> f = n @ ''.json'' \<longrightarrow> map_of res' n = Some p)"
proof -
  let ?r = "readJSON E (Servers f) ProfileKind validateProfileJSON s"
  have s': "s' = s \<or> s' = snd ?r"
    using assms(1) by (auto split: prod.splits sum.splits option.splits if_splits)
  then have d: "profile_on_disk s n p"
    using assms(2) profile_on_disk_readJSON by blast
  show ?thesis
  proof (cases "f = n @ ''.json''")
    case True
    obtain m where m: "map_of (disk s) (Servers f) = Some (Doc (JObj m))" "unmarshal_profile m = Some p"
      using d True by (auto simp: profile_on_disk_def profile_path_def)
    then have "?r = (Inr m, s)"
      by (simp add: readJSON_def validateProfileJSON_def)
    then have "res' = AList.update n p res"
      using assms(1) m True by (auto simp: has_suffix_iff trim_suffix_def)
    then show ?thesis
      using d by (simp add: AList.update_conv')
  next
    case False
    have "trim_suffix ''.json'' f \<noteq> n" if "has_suffix ''.json'' f"
      using that False by (auto simp: has_suffix_iff trim_suffix_def)
    then have "map_of res' n = map_of res n"
      using assms(1)
      by (auto simp: AList.update_conv' split: prod.splits sum.splits option.splits if_splits)
    then show ?thesis
      using d False by simp
  qed
qed

lemma list_profiles_complete:
  "list_profiles E fs res s = (res', s') \<Longrightarrow> profile_on_disk s' n p \<Longrightarrow>
   profile_on_disk s n p \<and> (map_of res n = Some p \<or> n @ ''.json'' \<in> set fs \<longrightarrow> map_of res' n = Some p)"
proof (induction fs arbitrary: res s)
  case (Cons f fs)
  obtain r1 s1 where step: "list_step E res f s = (r1, s1)"
    by (cases "list_step E res f s")
  then have "list_profiles E fs r1 s1 = (res', s')"
    using Cons.prems(1) by (simp del: list_step.simps)
  from Cons.IH [OF this Cons.prems(2)] show ?case
    using list_step_profile [OF step, of n p] by auto
qed simp

lemma ReadDir_complete: "map_of (disk s) (Servers f) \<noteq> None \<Longrightarrow> f \<in> set (ReadDir s)"
proof -
  assume "map_of (disk s) (Servers f) \<noteq> None"
  then obtain c where "(Servers f, c) \<in> set (disk s)"
    by (auto dest: map_of_SomeD)
  moreover have "f \<in> set (server_name (fst (Servers f, c)))"
    by simp
  ultimately show "f \<in> set (ReadDir s)"
    unfolding ReadDir_def set_sort set_remdups set_concat set_map comp_apply by blast
qed

text \<open>Every profile that can be read is in the list.\<close>

lemma ListProfiles_complete:
  assumes "ListProfiles E s = (ps, s')" and "\<not> readdir_fails E" and "profile_on_disk s' n p"
  shows "profile_on_disk s n p \<and> (n, p) \<in> set ps"
proof -
  have l: "list_profiles E (ReadDir s) [] s = (ps, s')"
    using assms(1,2) by (simp add: ListProfiles_def)
  from list_profiles_complete [OF l assms(3)]
  have d: "profile_on_disk s n p" "n @ ''.json'' \<in> set (ReadDir s) \<longrightarrow> map_of ps n = Some p"
    by auto
  have "n @ ''.json'' \<in> set (ReadDir s)"
    using d(1) by (intro ReadDir_complete) (auto simp: profile_on_disk_def profile_path_def)
  with d show ?thesis
    by (auto dest: map_of_SomeD)
qed

end
