(* ===== verification/HashRegistry.thy ===== *)
theory HashRegistry
  imports Store Dedup Url "HOL-Library.Product_Lexorder"
begin

text \<open>
  The registry of VK call hashes, \<open>backend/vk_hash.go\<close> and the registry part of
  \<open>backend/vk_hash_manager.go\<close>: reading a hash or a link, the policy of a profile, the entries of the
  registry with what they are used by, the operations on them, and the creation of new hashes
  through the API. \<open>url.Parse\<close>, the outcome of the HTTP exchange, the clock and \<open>uuid.NewString\<close> are
  arguments.
\<close>

section \<open>Hashes\<close>

datatype hash_error =
    HashEmpty | BadLink | NotVKHost | NoHashInLink | HashTooShort | BadCharacters
  | SlicePanic

definition minVKHashLen :: nat where "minVKHashLen = 16"
definition maxVKHashes :: nat where "maxVKHashes = 4"

definition pattern_char :: "char \<Rightarrow> bool" where
  "pattern_char c \<longleftrightarrow>
     65 \<le> bval c \<and> bval c \<le> 90 \<or> 97 \<le> bval c \<and> bval c \<le> 122 \<or> is_digit c \<or>
     c = CHR ''_'' \<or> c = CHR ''-''"

definition vkHashPattern :: "string \<Rightarrow> bool" where
  "vkHashPattern s \<longleftrightarrow> s \<noteq> [] \<and> list_all pattern_char s"

definition vk_hosts :: "string list" where
  "vk_hosts = [''vk.com'', ''vk.ru'', ''m.vk.com'', ''m.vk.ru'']"

text \<open>
  The part of a link behind the marker. The marker is found in the lower-case path
  and cut out of the original one; where that slice is out of range the code panics, which is the
  error \<open>SlicePanic\<close> here.
\<close>

definition hash_of_link :: "(string \<Rightarrow> parsed_url option) \<Rightarrow> string \<Rightarrow> hash_error + string" where
  "hash_of_link url_parse value =
     (case url_parse value of
        None \<Rightarrow> Inl BadLink
      | Some u \<Rightarrow>
          if to_lower (Hostname u) \<notin> set vk_hosts then Inl NotVKHost
          else
            case str_index ''/call/join/'' (to_lower (Path u)) of
              None \<Rightarrow> Inl NoHashInLink
            | Some idx \<Rightarrow>
                (case slice_from (idx + length ''/call/join/'') (Path u) of
                   None \<Rightarrow> Inl SlicePanic
                 | Some v \<Rightarrow> Inr (before (CHR ''/'') (trim_set ''/'' (trim_space v)))))"

definition check_hash :: "string \<Rightarrow> hash_error + string" where
  "check_hash value =
     (let value = trim_space (before (CHR ''#'') (before (CHR ''?'') value)) in
      if length value < minVKHashLen then Inl HashTooShort
      else if \<not> vkHashPattern value then Inl BadCharacters
      else Inr value)"

definition normalizeVKCallHash :: "(string \<Rightarrow> parsed_url option) \<Rightarrow> string \<Rightarrow> hash_error + string" where
  "normalizeVKCallHash url_parse raw =
     (let value = trim_space raw in
      if value = [] then Inl HashEmpty
      else
        let lower = to_lower value in
        if has_prefix ''http://'' lower \<or> has_prefix ''https://'' lower
        then (case hash_of_link url_parse value of Inl e \<Rightarrow> Inl e | Inr v \<Rightarrow> check_hash v)
        else check_hash value)"

definition hash_ok :: "string \<Rightarrow> bool" where
  "hash_ok h \<longleftrightarrow> minVKHashLen \<le> length h \<and> vkHashPattern h"

lemma normalizeVKCallHash_ok: "normalizeVKCallHash up raw = Inr h \<Longrightarrow> hash_ok h"
  by (auto simp: normalizeVKCallHash_def check_hash_def hash_ok_def Let_def split: if_splits sum.splits)

lemma pattern_char_graph: "pattern_char c \<Longrightarrow> is_graph c"
  by (auto simp: pattern_char_def is_graph_def is_digit_def)

lemma pattern_char_plain: "pattern_char c \<Longrightarrow> c \<notin> set ''/?#:''"
  by (auto simp: pattern_char_def is_digit_def)

lemma before_id: "c \<notin> set s \<Longrightarrow> before c s = s"
  by (auto simp: before_def takeWhile_eq_all_conv)

text \<open>A hash that was accepted is accepted again and not changed.\<close>

lemma normalizeVKCallHash_hash:
  assumes "hash_ok h"
  shows "normalizeVKCallHash up h = Inr h"
proof -
  have ne: "h \<noteq> []" and all: "\<forall>c \<in> set h. pattern_char c" and len: "minVKHashLen \<le> length h"
    using assms by (auto simp: hash_ok_def vkHashPattern_def list_all_iff)
  have t: "trim_space h = h"
    using all ne pattern_char_graph by (intro trim_space_graph) auto
  have "\<forall>c \<in> set h. bval c < 128"
    using all pattern_char_graph by (fastforce simp: is_graph_def)
  then have "to_lower h = map ascii_lower h"
    using to_lower_ascii_append [of h "[]"] by simp
  moreover have "ascii_lower c \<noteq> CHR '':''" if "c \<in> set h" for c
  proof
    assume "ascii_lower c = CHR '':''"
    then have "bval c = bval (CHR '':'')"
      using bval_ascii_lower [of c] by (auto split: if_splits)
    from bval_eqD [OF this] show False
      using pattern_char_plain [of c] all that by auto
  qed
  ultimately have "CHR '':'' \<notin> set (to_lower h)"
    by (metis (no_types, lifting) image_iff list.set_map)
  then have "\<not> has_prefix ''http://'' (to_lower h)" "\<not> has_prefix ''https://'' (to_lower h)"
    by (auto simp: has_prefix_iff)
  moreover have "CHR ''?'' \<notin> set h" "CHR ''#'' \<notin> set h"
    using all pattern_char_plain by auto
  ultimately show ?thesis
    using assms ne t
    by (simp add: normalizeVKCallHash_def check_hash_def before_id Let_def hash_ok_def)
qed

section \<open>Policies\<close>

definition vkHashModeLocal :: string where "vkHashModeLocal = ''local''"
definition vkHashModeLocalAndPool :: string where "vkHashModeLocalAndPool = ''local+pool''"
definition vkHashModePool :: string where "vkHashModePool = ''pool''"

lemmas mode_defs = vkHashModeLocal_def vkHashModeLocalAndPool_def vkHashModePool_def

definition defaultVKHashPolicy :: VKHashPolicy where
  "defaultVKHashPolicy = \<lparr>Mode = vkHashModeLocal, AutoCheck = True, AutoReplace = False\<rparr>"

definition normalizeVKHashMode :: "string \<Rightarrow> string" where
  "normalizeVKHashMode mode =
     (let m = trim_space mode in
      if m = vkHashModePool then vkHashModePool
      else if m = vkHashModeLocalAndPool then vkHashModeLocalAndPool
      else vkHashModeLocal)"

definition normalizeVKHashPolicy :: "VKHashPolicy option \<Rightarrow> VKHashPolicy" where
  "normalizeVKHashPolicy policy =
     (case policy of
        None \<Rightarrow> defaultVKHashPolicy
      | Some p \<Rightarrow> p\<lparr>Mode := normalizeVKHashMode (Mode p)\<rparr>)"

definition hashPolicyFrom :: "string \<Rightarrow> bool \<Rightarrow> bool \<Rightarrow> VKHashPolicy" where
  "hashPolicyFrom mode autoCheck autoReplace =
     (if trim_space mode = [] then defaultVKHashPolicy
      else \<lparr>Mode = normalizeVKHashMode mode, AutoCheck = autoCheck, AutoReplace = autoReplace\<rparr>)"

text \<open>The list of a profile: blank lines skipped, duplicates dropped, the first bad hash is the error.\<close>

fun first_bad :: "(string \<Rightarrow> parsed_url option) \<Rightarrow> string list \<Rightarrow> hash_error option" where
  "first_bad up [] = None"
| "first_bad up (raw # raws) =
     (if trim_space raw = [] then first_bad up raws
      else case normalizeVKCallHash up raw of Inl e \<Rightarrow> Some e | Inr _ \<Rightarrow> first_bad up raws)"

definition hash_of_line :: "(string \<Rightarrow> parsed_url option) \<Rightarrow> string \<Rightarrow> string option" where
  "hash_of_line up raw =
     (if trim_space raw = [] then None
      else case normalizeVKCallHash up raw of Inl e \<Rightarrow> None | Inr h \<Rightarrow> Some h)"

definition normalizeVKHashList ::
    "(string \<Rightarrow> parsed_url option) \<Rightarrow> string list \<Rightarrow> hash_error + string list" where
  "normalizeVKHashList up raws =
     (case first_bad up raws of
        Some e \<Rightarrow> Inl e
      | None \<Rightarrow> Inr (unique_loop (hash_of_line up) [] [] raws))"

interpretation lines: first_seen "hash_of_line up" "unique_loop (hash_of_line up) [] []" for up
  by (rule first_seen_unique_loop)

lemma hash_of_line_ok: "hash_of_line up raw = Some h \<Longrightarrow> hash_ok h"
  by (auto simp: hash_of_line_def dest: normalizeVKCallHash_ok split: if_splits sum.splits)

lemma normalizeVKHashList_ok:
  assumes "normalizeVKHashList up raws = Inr hs"
  shows "distinct hs \<and> (\<forall>h \<in> set hs. hash_ok h)"
proof -
  have "hs = unique_loop (hash_of_line up) [] [] raws"
    using assms by (auto simp: normalizeVKHashList_def split: option.splits)
  then show ?thesis
    using lines.distinct_filt [of up raws] lines.set_filt [of up raws] hash_of_line_ok by auto
qed

definition uniqueVKHashes :: "string list \<Rightarrow> string list" where
  "uniqueVKHashes hs = unique_loop Some [] [] hs"

interpretation uniq: first_seen Some uniqueVKHashes
  using first_seen_unique_loop [of Some] by (simp add: uniqueVKHashes_def [abs_def])

section \<open>The registry\<close>

record VKHashCheck =
  Status :: string
  CheckedAt :: int
  ErrorType :: string
  Message :: string
  LatencyMs :: int

record VKHashEntry =
  ID :: string
  Hash :: string
  Source :: string
  InPool :: bool
  CreatedAt :: int
  Checks :: "(string \<times> VKHashCheck) list"
  UsedBy :: "string list"

type_synonym registry = "VKHashEntry list"

text \<open>The registry file \<open>vk-hashes.json\<close>: it is not quarantined, a file that cannot be read or decoded
  makes every operation fail.\<close>

datatype registry_file = NoRegistry | RegistryUnreadable | RegistryBroken | RegistryOf registry

text \<open>
  What the operations read and write: the configuration store, the registry file and the arguments
  from outside (\<open>url.Parse\<close> and whether the registry file can be written).
\<close>

record App =
  store :: Store
  registry_file :: registry_file

record app_env =
  os :: os_env
  url_parse :: "string \<Rightarrow> parsed_url option"
  registry_write_fails :: bool

datatype app_error =
    StoreError store_error | HashError hash_error | RegistryUnreadableError | RegistryParseError
  | RegistryWriteError | HashNotFound | NoServerChosen | InvalidProfileName | RegistryChanged
  | Canceled | NoNewHash | NewHashNotValid | HashNotUsed | ConnectionActive | NoCandidates | NoWorkingHash | PreflightTimeout | ConnectCanceled
  | ReplacementFailed

definition loadVKHashRegistry :: "App \<Rightarrow> app_error + registry" where
  "loadVKHashRegistry a =
     (case registry_file a of
        NoRegistry \<Rightarrow> Inr []
      | RegistryUnreadable \<Rightarrow> Inl RegistryUnreadableError
      | RegistryBroken \<Rightarrow> Inl RegistryParseError
      | RegistryOf r \<Rightarrow> Inr r)"

definition saveVKHashRegistry :: "app_env \<Rightarrow> registry \<Rightarrow> App \<Rightarrow> (app_error + unit) \<times> App" where
  "saveVKHashRegistry E r a =
     (if registry_write_fails E then (Inl RegistryWriteError, a)
      else (Inr (), a\<lparr>registry_file := RegistryOf r\<rparr>))"

fun index_of :: "('a \<Rightarrow> bool) \<Rightarrow> 'a list \<Rightarrow> nat option" where
  "index_of p [] = None"
| "index_of p (x # xs) = (if p x then Some 0 else map_option Suc (index_of p xs))"

definition findVKHashByID :: "registry \<Rightarrow> string \<Rightarrow> nat option" where
  "findVKHashByID r i = index_of (\<lambda>e. ID e = i) r"

definition findVKHashByValue :: "registry \<Rightarrow> string \<Rightarrow> nat option" where
  "findVKHashByValue r h = index_of (\<lambda>e. Hash e = h) r"

definition normalizeVKHashSource :: "string \<Rightarrow> string" where
  "normalizeVKHashSource source =
     (let s = trim_space source in
      if s = ''generated'' then ''generated'' else if s = ''imported'' then ''imported'' else ''manual'')"

text \<open>
  \<open>ensureVKHashEntry\<close> gives the entry, whether it is new, the registry and the number of
  identifiers drawn so far.
\<close>

definition ensureVKHashEntry ::
    "app_env \<Rightarrow> int \<Rightarrow> string \<Rightarrow> string \<Rightarrow> bool \<Rightarrow> registry \<times> nat \<Rightarrow>
     (hash_error + VKHashEntry \<times> bool) \<times> registry \<times> nat" where
  "ensureVKHashEntry E now raw source inPool rn =
     (case rn of (r, n) \<Rightarrow>
        (case normalizeVKCallHash (url_parse E) raw of
           Inl e \<Rightarrow> (Inl e, r, n)
         | Inr hash \<Rightarrow>
             (case findVKHashByValue r hash of
                Some i \<Rightarrow>
                  let entry = r ! i;
                      entry = (if inPool then entry\<lparr>InPool := True\<rparr> else entry);
                      entry = (if Source entry = [] then entry\<lparr>Source := normalizeVKHashSource source\<rparr> else entry)
                  in (Inr (entry, False), r[i := entry], n)
              | None \<Rightarrow>
                  let entry = \<lparr>ID = uuid (os E) n, Hash = hash, Source = normalizeVKHashSource source,
                        InPool = inPool, CreatedAt = now, Checks = [], UsedBy = []\<rparr>
                  in (Inr (entry, True), r @ [entry], n + 1))))"

definition profileContainsVKHash :: "app_env \<Rightarrow> ProfileData \<Rightarrow> string \<Rightarrow> bool" where
  "profileContainsVKHash E p hash \<longleftrightarrow>
     list_ex (\<lambda>raw. normalizeVKCallHash (url_parse E) raw = Inr hash) (Hashes p)"

definition uses_hash :: "app_env \<Rightarrow> VKHashEntry \<Rightarrow> ProfileData \<Rightarrow> bool" where
  "uses_hash E e p \<longleftrightarrow>
     (let policy = normalizeVKHashPolicy (HashPolicy p) in
      profileContainsVKHash E p (Hash e) \<or>
      InPool e \<and> (Mode policy = vkHashModePool \<or> Mode policy = vkHashModeLocalAndPool))"

definition profilesUsingVKHash ::
    "app_env \<Rightarrow> VKHashEntry \<Rightarrow> (string \<times> ProfileData) list \<Rightarrow> string list" where
  "profilesUsingVKHash E e profiles = sort (map fst (filter (\<lambda>(n, p). uses_hash E e p) profiles))"

lemma index_of_Some: "index_of p xs = Some i \<Longrightarrow> i < length xs \<and> p (xs ! i)"
  by (induction xs arbitrary: i) (auto split: if_splits)

lemma index_of_None: "index_of p xs = None \<longleftrightarrow> (\<forall>x \<in> set xs. \<not> p x)"
  by (induction xs) auto

lemma index_of_unique:
  "distinct (map f xs) \<Longrightarrow> i < length xs \<Longrightarrow> index_of (\<lambda>x. f x = f (xs ! i)) xs = Some i"
  by (induction xs arbitrary: i) (auto simp: nth_Cons split: nat.splits)

section \<open>Operations on the registry\<close>

text \<open>
  The loop of \<open>registerLocalVKHashes\<close> and of \<open>candidateVKHashes\<close>:
  an entry for every hash of a profile; it stops at the first bad hash.
\<close>

definition ensure_local ::
    "app_env \<Rightarrow> int \<Rightarrow> string list \<Rightarrow> registry \<times> nat \<Rightarrow>
     (hash_error + VKHashEntry list \<times> bool) \<times> registry \<times> nat" where
  "ensure_local E now hashes rn =
     foldl (\<lambda>(res, rn) raw.
        (case res of
           Inl e \<Rightarrow> (Inl e, rn)
         | Inr (local, changed) \<Rightarrow>
             (case ensureVKHashEntry E now raw ''manual'' False rn of
                (Inl e, rn) \<Rightarrow> (Inl e, rn)
              | (Inr (entry, created), rn) \<Rightarrow> (Inr (local @ [entry], changed \<or> created), rn))))
       (Inr ([], False), rn) hashes"

definition set_drawn :: "nat \<Rightarrow> App \<Rightarrow> App" where
  "set_drawn n a = a\<lparr>store := (store a)\<lparr>drawn := n\<rparr>\<rparr>"

definition registerLocalVKHashes ::
    "app_env \<Rightarrow> int \<Rightarrow> string list \<Rightarrow> App \<Rightarrow> (app_error + unit) \<times> App" where
  "registerLocalVKHashes E now hashes a =
     (case loadVKHashRegistry a of
        Inl e \<Rightarrow> (Inl e, a)
      | Inr r \<Rightarrow>
          (case ensure_local E now hashes (r, drawn (store a)) of
             (Inl e, r, n) \<Rightarrow> (Inl (HashError e), set_drawn n a)
           | (Inr (_, changed), r, n) \<Rightarrow>
               if changed then saveVKHashRegistry E r (set_drawn n a) else (Inr (), set_drawn n a)))"

definition SyncProfileVKSettings ::
    "app_env \<Rightarrow> int \<Rightarrow> string \<Rightarrow> string \<Rightarrow> string \<Rightarrow> string list \<Rightarrow> string \<Rightarrow> bool \<Rightarrow> bool \<Rightarrow> App \<Rightarrow>
     (app_error + unit) \<times> App" where
  "SyncProfileVKSettings E now name peerAddr password hashes mode autoCheck autoReplace a =
     (let name = sanitizeProfileName (os E) name in
      if name = [] then (Inl InvalidProfileName, a)
      else
        case normalizeVKHashList (url_parse E) hashes of
          Inl e \<Rightarrow> (Inl (HashError e), a)
        | Inr normalized \<Rightarrow>
            let (loaded, s) = LoadProfile (os E) name (store a);
                profile = (case loaded of Inl e \<Rightarrow> zero_profile | Inr p \<Rightarrow> p);
                profile = profile\<lparr>PeerAddr := trim_space peerAddr, Password := password,
                  Hashes := normalized, HashPolicy := Some (hashPolicyFrom mode autoCheck autoReplace)\<rparr>
            in
              case SaveProfile (os E) name profile s of
                (Inl e, s) \<Rightarrow> (Inl (StoreError e), a\<lparr>store := s\<rparr>)
              | (Inr _, s) \<Rightarrow> registerLocalVKHashes E now normalized (a\<lparr>store := s\<rparr>))"

definition app_profiles :: "app_env \<Rightarrow> App \<Rightarrow> (string \<times> ProfileData) list \<times> App" where
  "app_profiles E a = (let (ps, s) = ListProfiles (os E) (store a) in (ps, a\<lparr>store := s\<rparr>))"

text \<open>Entries that compare equal (same pool flag, same millisecond) keep their order here.\<close>

definition list_order :: "VKHashEntry \<Rightarrow> bool \<times> int" where
  "list_order e = (\<not> InPool e, - CreatedAt e)"

definition listed_entries :: "app_env \<Rightarrow> (string \<times> ProfileData) list \<Rightarrow> registry \<Rightarrow> registry" where
  "listed_entries E ps r =
     sort_key list_order
       (filter (\<lambda>e. InPool e \<or> UsedBy e \<noteq> [])
         (map (\<lambda>e. e\<lparr>UsedBy := profilesUsingVKHash E e ps\<rparr>) r))"

definition ListVKHashes :: "app_env \<Rightarrow> App \<Rightarrow> registry \<times> App" where
  "ListVKHashes E a =
     (case loadVKHashRegistry a of
        Inl e \<Rightarrow> ([], a)
      | Inr r \<Rightarrow> (let (ps, a) = app_profiles E a in (listed_entries E ps r, a)))"

definition vkHashEntry :: "app_env \<Rightarrow> string \<Rightarrow> App \<Rightarrow> (app_error + VKHashEntry) \<times> App" where
  "vkHashEntry E i a =
     (let (es, a) = ListVKHashes E a in
      case List.find (\<lambda>e. ID e = i) es of
        None \<Rightarrow> (Inl HashNotFound, a) | Some e \<Rightarrow> (Inr e, a))"

text \<open>\<open>AddVKHash\<close>, without the check that it starts in the background if a server was chosen.\<close>

definition AddVKHash ::
    "app_env \<Rightarrow> int \<Rightarrow> string \<Rightarrow> string \<Rightarrow> App \<Rightarrow> (app_error + VKHashEntry) \<times> App" where
  "AddVKHash E now raw source a =
     (case loadVKHashRegistry a of
        Inl e \<Rightarrow> (Inl e, a)
      | Inr r \<Rightarrow>
          (case ensureVKHashEntry E now raw source True (r, drawn (store a)) of
             (Inl e, r, n) \<Rightarrow> (Inl (HashError e), set_drawn n a)
           | (Inr (entry, created), r, n) \<Rightarrow>
               (case saveVKHashRegistry E r (set_drawn n a) of
                  (Inl e, a) \<Rightarrow> (Inl e, a)
                | (Inr _, a) \<Rightarrow> vkHashEntry E (ID entry) a)))"

definition remove_at :: "nat \<Rightarrow> 'a list \<Rightarrow> 'a list" where
  "remove_at i xs = take i xs @ drop (i + 1) xs"

definition DeleteVKHash :: "app_env \<Rightarrow> string \<Rightarrow> App \<Rightarrow> (app_error + unit) \<times> App" where
  "DeleteVKHash E i a =
     (case loadVKHashRegistry a of
        Inl e \<Rightarrow> (Inl e, a)
      | Inr r \<Rightarrow>
          (case findVKHashByID r i of
             None \<Rightarrow> (Inl HashNotFound, a)
           | Some k \<Rightarrow>
               let entry = (r ! k)\<lparr>InPool := False\<rparr>; r = r[k := entry]; (ps, a) = app_profiles E a in
               saveVKHashRegistry E
                 (if profilesUsingVKHash E entry ps = [] then remove_at k r else r) a))"

definition cleanupOrphanVKHash :: "app_env \<Rightarrow> string \<Rightarrow> App \<Rightarrow> App" where
  "cleanupOrphanVKHash E i a =
     (case loadVKHashRegistry a of
        Inl e \<Rightarrow> a
      | Inr r \<Rightarrow>
          (case findVKHashByID r i of
             None \<Rightarrow> a
           | Some k \<Rightarrow>
               if InPool (r ! k) then a
               else let (ps, a) = app_profiles E a in
                 if profilesUsingVKHash E (r ! k) ps \<noteq> [] then a
                 else snd (saveVKHashRegistry E (remove_at k r) a)))"

text \<open>The end of a check: the result is recorded for the server.\<close>

definition record_check ::
    "app_env \<Rightarrow> string \<Rightarrow> string \<Rightarrow> VKHashCheck \<Rightarrow> App \<Rightarrow> (app_error + unit) \<times> App" where
  "record_check E i profileName check a =
     (case loadVKHashRegistry a of
        Inl e \<Rightarrow> (Inl e, a)
      | Inr r \<Rightarrow>
          (case findVKHashByID r i of
             None \<Rightarrow> (Inr (), a)
           | Some k \<Rightarrow>
               saveVKHashRegistry E
                 (r[k := (r ! k)\<lparr>Checks := AList.update profileName check (Checks (r ! k))\<rparr>]) a))"

text \<open>
  One check: it needs that no connection is active, the entry and the profile; a cancelled probe is
  reported and not recorded, any other result is recorded for the server. The coordinator can end
  the wait before the probe (\<open>WaitFailed\<close>).
\<close>

record probe_result =
  probe_status :: string
  probe_error :: string
  probe_message :: string
  probe_latency :: int

datatype check_outcome = WaitFailed app_error | Probed bool probe_result

definition checkVKHashProbe ::
    "app_env \<Rightarrow> int \<Rightarrow> string \<Rightarrow> string \<Rightarrow> bool \<Rightarrow> probe_result \<Rightarrow> App \<Rightarrow> (app_error + VKHashCheck) \<times> App" where
  "checkVKHashProbe E now i profileName running probe a =
     (if running then (Inl ConnectionActive, a)
      else
        case loadVKHashRegistry a of
          Inl e \<Rightarrow> (Inl e, a)
        | Inr r \<Rightarrow>
            if findVKHashByID r i = None then (Inl HashNotFound, a)
            else
              case LoadProfile (os E) profileName (store a) of
                (Inl e, s) \<Rightarrow> (Inl (StoreError e), a\<lparr>store := s\<rparr>)
              | (Inr profile, s) \<Rightarrow>
                  let a = a\<lparr>store := snd (LoadSettings (os E) s)\<rparr>;
                      result = \<lparr>Status = probe_status probe, CheckedAt = now, ErrorType = probe_error probe,
                        Message = probe_message probe, LatencyMs = probe_latency probe\<rparr>
                  in
                    if probe_error probe = ''canceled'' then (Inr (result\<lparr>Status := ''canceled''\<rparr>), a)
                    else
                      let check = (if Status result = [] then result\<lparr>Status := ''error''\<rparr> else result) in
                      (case record_check E i profileName check a of
                         (Inl e, a) \<Rightarrow> (Inl e, a) | (Inr _, a) \<Rightarrow> (Inr check, a)))"

definition checkVKHashCoordinated ::
    "app_env \<Rightarrow> int \<Rightarrow> string \<Rightarrow> string \<Rightarrow> check_outcome \<Rightarrow> App \<Rightarrow> (app_error + VKHashCheck) \<times> App" where
  "checkVKHashCoordinated E now i profileName outcome a =
     (let name = sanitizeProfileName (os E) profileName in
      if name = [] then (Inl NoServerChosen, a)
      else
        case outcome of
          WaitFailed e \<Rightarrow> (Inl e, a)
        | Probed running probe \<Rightarrow> checkVKHashProbe E now i name running probe a)"

definition storedVKHashCheck :: "string \<Rightarrow> string \<Rightarrow> App \<Rightarrow> VKHashCheck option" where
  "storedVKHashCheck i profileName a =
     (case loadVKHashRegistry a of
        Inl e \<Rightarrow> None
      | Inr r \<Rightarrow>
          (case findVKHashByID r i of
             None \<Rightarrow> None | Some k \<Rightarrow> map_of (Checks (r ! k)) profileName))"

text \<open>
  The exchange of a hash for a new one: the hash in the profile, the pool flag, and
  the old entry goes if nothing uses it any more. The result tells what was replaced.
\<close>

definition replace_in_profile ::
    "app_env \<Rightarrow> string \<Rightarrow> string \<Rightarrow> string \<Rightarrow> App \<Rightarrow> (app_error + bool) \<times> App" where
  "replace_in_profile E profileName old new a =
     (let (loaded, s) = LoadProfile (os E) profileName (store a); a = a\<lparr>store := s\<rparr> in
      case loaded of
        Inl e \<Rightarrow> (Inr False, a)
      | Inr profile \<Rightarrow>
          let hit = (\<lambda>raw. normalizeVKCallHash (url_parse E) raw = Inr old);
              profile' = profile\<lparr>Hashes := map (\<lambda>raw. if hit raw then new else raw) (Hashes profile)\<rparr>
          in
            if \<not> list_ex hit (Hashes profile) then (Inr False, a)
            else
              case SaveProfile (os E) profileName profile' (store a) of
                (Inl e, s) \<Rightarrow> (Inl (StoreError e), a\<lparr>store := s\<rparr>)
              | (Inr _, s) \<Rightarrow> (Inr True, a\<lparr>store := s\<rparr>))"

definition move_pool_flag :: "nat \<Rightarrow> nat \<Rightarrow> registry \<Rightarrow> registry" where
  "move_pool_flag i j r =
     (if InPool (r ! i)
      then let r = r[i := (r ! i)\<lparr>InPool := False\<rparr>] in r[j := (r ! j)\<lparr>InPool := True\<rparr>]
      else r)"

definition replace_in_registry ::
    "app_env \<Rightarrow> string \<Rightarrow> string \<Rightarrow> App \<Rightarrow> (app_error + bool) \<times> App" where
  "replace_in_registry E oldID newID a =
     (case loadVKHashRegistry a of
        Inl e \<Rightarrow> (Inl e, a)
      | Inr r \<Rightarrow>
          (case (findVKHashByID r oldID, findVKHashByID r newID) of
             (Some i, Some j) \<Rightarrow>
               let poolReplaced = InPool (r ! i);
                   r = move_pool_flag i j r;
                   (remove, a) =
                     (if InPool (r ! i) then (False, a)
                      else let (ps, a) = app_profiles E a in (profilesUsingVKHash E (r ! i) ps = [], a));
                   (res, a) = saveVKHashRegistry E (if remove then remove_at i r else r) a
               in (case res of Inl e \<Rightarrow> Inl e | Inr _ \<Rightarrow> Inr poolReplaced, a)
           | _ \<Rightarrow> (Inl RegistryChanged, a)))"

text \<open>
  \<open>replaceVKHashWithContext\<close> with what comes from outside: whether the context is cancelled at the
  three places where it is asked, the hashes that the API gave, and the outcome of the check of
  the new hash.
\<close>

record replace_input =
  cancelled_first :: bool
  cancelled_generated :: bool
  cancelled_checked :: bool
  generated :: "app_error + string list"
  checked :: check_outcome

text \<open>The part of the replacement after the new entry was saved.\<close>

definition exchange_hash ::
    "app_env \<Rightarrow> string \<Rightarrow> VKHashEntry \<Rightarrow> VKHashEntry \<Rightarrow> App \<Rightarrow> (app_error + VKHashEntry) \<times> App" where
  "exchange_hash E name old new a =
     (case replace_in_profile E name (Hash old) (Hash new) a of
        (Inl e, a) \<Rightarrow> (Inl e, a)
      | (Inr localReplaced, a) \<Rightarrow>
          (case replace_in_registry E (ID old) (ID new) a of
             (Inl e, a) \<Rightarrow> (Inl e, a)
           | (Inr poolReplaced, a) \<Rightarrow>
               if \<not> localReplaced \<and> \<not> poolReplaced then (Inl HashNotUsed, a)
               else vkHashEntry E (ID new) a))"

definition check_and_exchange ::
    "app_env \<Rightarrow> int \<Rightarrow> string \<Rightarrow> replace_input \<Rightarrow> VKHashEntry \<Rightarrow> VKHashEntry \<Rightarrow> App \<Rightarrow>
     (app_error + VKHashEntry) \<times> App" where
  "check_and_exchange E now name inp old new a =
     (case checkVKHashCoordinated E now (ID new) name (checked inp) a of
        (Inl e, a) \<Rightarrow> (Inl e, cleanupOrphanVKHash E (ID new) a)
      | (Inr c, a) \<Rightarrow>
          if Status c \<noteq> ''valid''
          then (Inl (if Status c = ''canceled'' then Canceled else NewHashNotValid),
                cleanupOrphanVKHash E (ID new) a)
          else if cancelled_checked inp then (Inl Canceled, cleanupOrphanVKHash E (ID new) a)
          else exchange_hash E name old new a)"

definition store_new_hash ::
    "app_env \<Rightarrow> int \<Rightarrow> string \<Rightarrow> App \<Rightarrow> (app_error + VKHashEntry) \<times> App" where
  "store_new_hash E now hash a =
     (case loadVKHashRegistry a of
        Inl e \<Rightarrow> (Inl e, a)
      | Inr r \<Rightarrow>
          (case ensureVKHashEntry E now hash ''generated'' False (r, drawn (store a)) of
             (Inl e, r, n) \<Rightarrow> (Inl (HashError e), set_drawn n a)
           | (Inr (new, _), r, n) \<Rightarrow>
               (case saveVKHashRegistry E r (set_drawn n a) of
                  (Inl e, a) \<Rightarrow> (Inl e, a) | (Inr _, a) \<Rightarrow> (Inr new, a))))"

definition replaceVKHashWithContext ::
    "app_env \<Rightarrow> int \<Rightarrow> string \<Rightarrow> string \<Rightarrow> replace_input \<Rightarrow> App \<Rightarrow> (app_error + VKHashEntry) \<times> App" where
  "replaceVKHashWithContext E now i profileName inp a =
     (let name = sanitizeProfileName (os E) profileName in
      if name = [] then (Inl NoServerChosen, a)
      else if cancelled_first inp then (Inl Canceled, a)
      else
        let (entries, a) = ListVKHashes E a in
        case List.find (\<lambda>e. ID e = i) (rev entries) of
          None \<Rightarrow> (Inl HashNotFound, a)
        | Some old \<Rightarrow>
            (case generated inp of
               Inl e \<Rightarrow> (Inl e, a)
             | Inr gs \<Rightarrow>
                 if length gs \<noteq> 1 then (Inl NoNewHash, a)
                 else if cancelled_generated inp then (Inl Canceled, a)
                 else
                   case store_new_hash E now (hd gs) a of
                     (Inl e, a) \<Rightarrow> (Inl e, a)
                   | (Inr new, a) \<Rightarrow> check_and_exchange E now name inp old new a))"

section \<open>Candidates\<close>

definition entry_key :: "VKHashEntry \<Rightarrow> string list \<times> VKHashEntry list \<Rightarrow> string list \<times> VKHashEntry list" where
  "entry_key e sr = (case sr of (seen, res) \<Rightarrow>
     if Hash e \<in> set seen then (seen, res) else (Hash e # seen, res @ [e]))"

definition selectVKHashCandidates ::
    "VKHashEntry list \<Rightarrow> VKHashEntry list \<Rightarrow> string \<Rightarrow> VKHashEntry list" where
  "selectVKHashCandidates local pool mode =
     (let mode = normalizeVKHashMode mode;
          sr = (if mode \<noteq> vkHashModePool then fold entry_key local ([], []) else ([], []));
          sr = (if mode \<noteq> vkHashModeLocal then fold entry_key pool sr else sr)
      in snd sr)"

definition candidateVKHashes ::
    "app_env \<Rightarrow> int \<Rightarrow> string list \<Rightarrow> string \<Rightarrow> App \<Rightarrow> (app_error + VKHashEntry list) \<times> App" where
  "candidateVKHashes E now localHashes mode a =
     (case loadVKHashRegistry a of
        Inl e \<Rightarrow> (Inl e, a)
      | Inr r \<Rightarrow>
          (case ensure_local E now localHashes (r, drawn (store a)) of
             (Inl e, r, n) \<Rightarrow> (Inl (HashError e), set_drawn n a)
           | (Inr (local, changed), r, n) \<Rightarrow>
               let result = selectVKHashCandidates local (filter InPool r) mode in
               if changed
               then (case saveVKHashRegistry E r (set_drawn n a) of
                       (Inl e, a) \<Rightarrow> (Inl e, a) | (Inr _, a) \<Rightarrow> (Inr result, a))
               else (Inr result, set_drawn n a)))"

section \<open>New hashes from the API\<close>

text \<open>
  \<open>startCall\<close>: the token is needed, the exchange can fail or be cancelled, and the answer is an error
  object, a broken text or a link.
\<close>

datatype call_answer =
    CallCanceled | CallUnavailable string | CallBroken | CallVKError int string | CallLink string

datatype generate_error =
    BadCount | RepeatedHash | GenCanceled | NotAuthorized | ApiUnavailable string | BadAnswer
  | VkAPI int string | NoJoinLink | BadJoinLink hash_error

definition startCall :: "string \<Rightarrow> call_answer \<Rightarrow> generate_error + string" where
  "startCall accessToken answer =
     (if trim_space accessToken = [] then Inl NotAuthorized
      else case answer of
          CallCanceled \<Rightarrow> Inl GenCanceled
        | CallUnavailable e \<Rightarrow> Inl (ApiUnavailable e)
        | CallBroken \<Rightarrow> Inl BadAnswer
        | CallVKError c m \<Rightarrow> Inl (VkAPI c m)
        | CallLink l \<Rightarrow> if trim_space l = [] then Inl NoJoinLink else Inr l)"

record generate_input =
  call_delay :: int
  cancelled_before :: "nat \<Rightarrow> bool"
  call_answers :: "nat \<Rightarrow> call_answer"

text \<open>
  The loop gives the hashes so far, the error if it ended with one, and the number of calls made. The
  n-th call has its own answer, and the context may be cancelled in the pause before it.
\<close>

function generate_loop ::
    "(string \<Rightarrow> parsed_url option) \<Rightarrow> string \<Rightarrow> nat \<Rightarrow> generate_input \<Rightarrow> nat \<Rightarrow> string list \<Rightarrow> string list \<Rightarrow>
     string list \<times> generate_error option \<times> nat" where
  "generate_loop up token count inp attempts seen result =
     (if count \<le> length result then (result, None, attempts)
      else if count + maxVKHashes \<le> attempts then (result, Some RepeatedHash, attempts)
      else if 0 < attempts \<and> 0 < call_delay inp \<and> cancelled_before inp attempts
        then (result, Some GenCanceled, attempts)
      else
        case startCall token (call_answers inp attempts) of
          Inl e \<Rightarrow> (result, Some e, attempts + 1)
        | Inr joinLink \<Rightarrow>
            (case normalizeVKCallHash up joinLink of
               Inl e \<Rightarrow> (result, Some (BadJoinLink e), attempts + 1)
             | Inr hash \<Rightarrow>
                 if hash \<in> set seen then generate_loop up token count inp (attempts + 1) seen result
                 else generate_loop up token count inp (attempts + 1) (hash # seen) (result @ [hash])))"
  by pat_completeness auto
termination
  by (relation "measure (\<lambda>(up, token, count, inp, attempts, seen, result). count + maxVKHashes - attempts)")
    auto

declare generate_loop.simps [simp del]

definition known_hashes :: "(string \<Rightarrow> parsed_url option) \<Rightarrow> string list \<Rightarrow> string list" where
  "known_hashes up existing =
     concat (map (\<lambda>raw. case normalizeVKCallHash up raw of Inl e \<Rightarrow> [] | Inr h \<Rightarrow> [h]) existing)"

definition generateVKHashes ::
    "(string \<Rightarrow> parsed_url option) \<Rightarrow> string \<Rightarrow> int \<Rightarrow> string list \<Rightarrow> generate_input \<Rightarrow>
     string list \<times> generate_error option \<times> nat" where
  "generateVKHashes up token count existing inp =
     (if count < 1 \<or> count > int maxVKHashes then ([], Some BadCount, 0)
      else generate_loop up token (nat count) inp 0 (known_hashes up existing) [])"

section \<open>The invariant of the registry\<close>

text \<open>
  Identifiers and hashes are unique, every hash is an accepted one and every identifier was drawn.
  The invariant depends only on these two fields of the entries.
\<close>

definition keys :: "registry \<Rightarrow> (string \<times> string) list" where
  "keys r = map (\<lambda>e. (ID e, Hash e)) r"

definition registry_ok :: "app_env \<Rightarrow> nat \<Rightarrow> registry \<Rightarrow> bool" where
  "registry_ok E n r \<longleftrightarrow>
     distinct (map fst (keys r)) \<and> distinct (map snd (keys r)) \<and>
     (\<forall>(i, h) \<in> set (keys r). hash_ok h \<and> (\<exists>k < n. i = uuid (os E) k))"

definition app_ok :: "app_env \<Rightarrow> App \<Rightarrow> bool" where
  "app_ok E a \<longleftrightarrow>
     (\<forall>r. loadVKHashRegistry a = Inr r \<longrightarrow> registry_ok E (drawn (store a)) r)"

lemma registry_ok_mono: "registry_ok E m r \<Longrightarrow> m \<le> n \<Longrightarrow> registry_ok E n r"
  unfolding registry_ok_def by (fastforce dest: less_le_trans)

lemma registry_ok_keys: "registry_ok E n r \<Longrightarrow> keys r' = keys r \<Longrightarrow> registry_ok E n r'"
  by (simp add: registry_ok_def)

lemma keys_update:
  "ID e = ID (r ! i) \<Longrightarrow> Hash e = Hash (r ! i) \<Longrightarrow> keys (r[i := e]) = keys r"
  by (simp add: keys_def map_update)
    (metis (no_types, lifting) length_map list_update_beyond list_update_id not_le nth_map)

lemma keys_remove: "keys (remove_at i r) = remove_at i (keys r)"
  by (simp add: keys_def remove_at_def take_map drop_map)

lemma remove_at_nths: "remove_at i xs = nths xs (- {i})"
proof (cases "i < length xs")
  case True
  have "xs = take i xs @ xs ! i # drop (Suc i) xs"
    using True by (rule id_take_nth_drop)
  then have "nths xs (- {i}) = nths (take i xs @ xs ! i # drop (Suc i) xs) (- {i})"
    by simp
  also have "\<dots> = take i xs @ drop (Suc i) xs"
    using True by (simp add: nths_append nths_Cons nths_all)
  finally show ?thesis
    by (simp add: remove_at_def)
qed (auto simp: remove_at_def nths_all)

lemma registry_ok_remove: "registry_ok E n r \<Longrightarrow> registry_ok E n (remove_at i r)"
  unfolding registry_ok_def keys_remove
  by (auto simp: remove_at_nths nths_map [symmetric] dest: notin_set_nthsI in_set_nthsD)

lemma loaded_ok: "app_ok E a \<Longrightarrow> loadVKHashRegistry a = Inr r \<Longrightarrow> registry_ok E (drawn (store a)) r"
  by (simp add: app_ok_def)

named_theorems app_safe

lemma app_ok_store [app_safe]: "app_ok E a \<Longrightarrow> drawn (store a) \<le> drawn s \<Longrightarrow> app_ok E (a\<lparr>store := s\<rparr>)"
  by (auto simp: app_ok_def loadVKHashRegistry_def split: registry_file.splits intro: registry_ok_mono)

lemma set_drawn_ok [app_safe]: "app_ok E a \<Longrightarrow> drawn (store a) \<le> n \<Longrightarrow> app_ok E (set_drawn n a)"
  by (simp add: set_drawn_def app_ok_store)

lemma save_ok:
  "registry_ok E (drawn (store a)) r \<Longrightarrow> app_ok E a \<Longrightarrow> app_ok E (snd (saveVKHashRegistry E r a))"
  by (simp add: saveVKHashRegistry_def app_ok_def loadVKHashRegistry_def)

lemma save_store [simp]: "store (snd (saveVKHashRegistry E r a)) = store a"
  by (simp add: saveVKHashRegistry_def)

lemma uuid_inj: "uuids_ok (os E) \<Longrightarrow> uuid (os E) m = uuid (os E) n \<Longrightarrow> m = n"
  unfolding uuids_ok_def by (metis append_Nil)

lemma ensure_ok:
  assumes "ensureVKHashEntry E now raw src b (r, n) = (res, r', n')"
    and "registry_ok E n r" and "uuids_ok (os E)"
  shows "registry_ok E n' r' \<and> n \<le> n'"
proof (cases "normalizeVKCallHash (url_parse E) raw")
  case (Inr h)
  show ?thesis
  proof (cases "findVKHashByValue r h")
    case None
    then have r': "r' = r @ [\<lparr>ID = uuid (os E) n, Hash = h, Source = normalizeVKHashSource src,
        InPool = b, CreatedAt = now, Checks = [], UsedBy = []\<rparr>]" "n' = n + 1"
      using assms(1) Inr by (auto simp: ensureVKHashEntry_def Let_def)
    have "h \<notin> Hash ` set r"
      using None by (auto simp: findVKHashByValue_def index_of_None)
    moreover have "uuid (os E) n \<notin> ID ` set r"
      using assms(2) uuid_inj [OF assms(3)] by (fastforce simp: registry_ok_def keys_def)
    moreover have "registry_ok E (n + 1) r"
      using assms(2) by (rule registry_ok_mono) simp
    ultimately show ?thesis
      using normalizeVKCallHash_ok [OF Inr] unfolding r'
      by (auto simp: registry_ok_def keys_def comp_def)
  next
    case (Some i)
    then have "keys r' = keys r" "n' = n"
      using assms(1) Inr by (auto simp: ensureVKHashEntry_def Let_def keys_update)
    then show ?thesis
      using assms(2) registry_ok_keys by auto
  qed
qed (use assms in \<open>auto simp: ensureVKHashEntry_def\<close>)

lemma ensure_local_ok:
  assumes "uuids_ok (os E)"
  shows "ensure_local E now hs (r, n) = (res, r', n') \<Longrightarrow> registry_ok E n r \<Longrightarrow>
    registry_ok E n' r' \<and> n \<le> n'"
proof (induction hs arbitrary: res r' n' rule: rev_induct)
  case (snoc h hs)
  obtain res1 r1 n1 where l: "ensure_local E now hs (r, n) = (res1, r1, n1)"
    by (metis prod.exhaust)
  note ok = snoc.IH [OF l snoc.prems(2)]
  show ?case
  proof (cases res1)
    case (Inr c1)
    obtain res2 r2 n2 where e: "ensureVKHashEntry E now h ''manual'' False (r1, n1) = (res2, r2, n2)"
      by (metis prod.exhaust)
    then have "r' = r2 \<and> n' = n2"
      using l snoc.prems(1) Inr by (auto simp: ensure_local_def split: sum.splits prod.splits)
    then show ?thesis
      using ensure_ok [OF e _ assms] ok by auto
  qed (use l ok snoc.prems(1) in \<open>auto simp: ensure_local_def\<close>)
qed (simp add: ensure_local_def)

text \<open>Every operation keeps the invariant.\<close>

lemma app_profiles_ok [app_safe]: "app_ok E a \<Longrightarrow> app_ok E (snd (app_profiles E a))"
  using ListProfiles_drawn [of "store a" "os E"]
  by (auto simp: app_profiles_def app_ok_store split: prod.splits)

lemma app_profiles_same [simp]: "registry_file (snd (app_profiles E a)) = registry_file a"
  by (simp add: app_profiles_def split: prod.splits)

lemma app_profiles_drawn: "drawn (store a) \<le> drawn (store (snd (app_profiles E a)))"
  using ListProfiles_drawn [of "store a" "os E"] by (auto simp: app_profiles_def split: prod.splits)

lemma ListVKHashes_ok [app_safe]: "app_ok E a \<Longrightarrow> app_ok E (snd (ListVKHashes E a))"
  using app_profiles_ok [of E a] by (auto simp: ListVKHashes_def split: sum.splits prod.splits)

lemma vkHashEntry_ok [app_safe]: "app_ok E a \<Longrightarrow> app_ok E (snd (vkHashEntry E i a))"
  using ListVKHashes_ok [of E a] by (auto simp: vkHashEntry_def split: option.splits prod.splits)

text \<open>Saving a registry that grew from the loaded one.\<close>

lemma grown_ok:
  assumes "app_ok E a" and "registry_ok E n r \<and> drawn (store a) \<le> n"
  shows "app_ok E (set_drawn n a)" and "app_ok E (snd (saveVKHashRegistry E r (set_drawn n a)))"
proof -
  show s: "app_ok E (set_drawn n a)"
    using assms by (simp add: set_drawn_ok)
  show "app_ok E (snd (saveVKHashRegistry E r (set_drawn n a)))"
    using assms(2) by (intro save_ok s) (simp add: set_drawn_def)
qed

text \<open>Saving the loaded registry after listing the profiles, changed only in other fields or shortened.\<close>

lemma listed_save_ok:
  assumes "app_ok E a" and "loadVKHashRegistry a = Inr r" and "app_profiles E a = (ps, a')"
    and "keys r' = keys r \<or> (\<exists>k r2. keys r2 = keys r \<and> r' = remove_at k r2)"
  shows "app_ok E (snd (saveVKHashRegistry E r' a'))"
proof (rule save_ok)
  have "drawn (store a) \<le> drawn (store a')"
    using app_profiles_drawn [of a E] assms(3) by simp
  then have "registry_ok E (drawn (store a')) r"
    using loaded_ok [OF assms(1,2)] registry_ok_mono by blast
  then show "registry_ok E (drawn (store a')) r'"
    using assms(4) registry_ok_keys registry_ok_remove by blast
  show "app_ok E a'"
    using app_profiles_ok [OF assms(1)] assms(3) by (metis snd_conv)
qed

lemma registerLocalVKHashes_ok:
  assumes "uuids_ok (os E)" and a: "app_ok E a"
  shows "app_ok E (snd (registerLocalVKHashes E now hs a))"
proof (cases "loadVKHashRegistry a")
  case (Inr r)
  obtain res r' n where l: "ensure_local E now hs (r, drawn (store a)) = (res, r', n)"
    by (metis prod.exhaust)
  from grown_ok [OF a ensure_local_ok [OF assms(1) l loaded_ok [OF a Inr]]] show ?thesis
    using l Inr by (auto simp: registerLocalVKHashes_def split: sum.splits)
qed (use a in \<open>simp add: registerLocalVKHashes_def\<close>)

lemma SyncProfile_ok:
  assumes "uuids_ok (os E)" and a: "app_ok E a"
  shows "app_ok E (snd (SyncProfileVKSettings E now name peer pw hs mode ac ar a))"
proof -
  have s: "app_ok E (a\<lparr>store := s\<rparr>)"
    if "LoadProfile (os E) n' (store a) = (l, s0)" "SaveProfile (os E) n p s0 = (r, s)" for n n' p l s0 r s
    using LoadProfile_drawn [of "store a" "os E" n'] SaveProfile_drawn [of s0 "os E" n p] that a
    by (intro app_ok_store) auto
  show ?thesis
    using registerLocalVKHashes_ok [OF assms(1)] a
    by (auto simp: SyncProfileVKSettings_def Let_def dest: s split: sum.splits prod.splits)
qed

lemma AddVKHash_ok:
  assumes "uuids_ok (os E)" and a: "app_ok E a"
  shows "app_ok E (snd (AddVKHash E now raw src a))"
proof (cases "loadVKHashRegistry a")
  case (Inr r)
  obtain res r' n where l: "ensureVKHashEntry E now raw src True (r, drawn (store a)) = (res, r', n)"
    by (metis prod.exhaust)
  note g = grown_ok [OF a ensure_ok [OF l loaded_ok [OF a Inr] assms(1)]]
  show ?thesis
    using l Inr g vkHashEntry_ok [of E "snd (saveVKHashRegistry E r' (set_drawn n a))"]
    by (auto simp: AddVKHash_def split: sum.splits prod.splits)
qed (use a in \<open>simp add: AddVKHash_def\<close>)

lemma DeleteVKHash_ok:
  assumes a: "app_ok E a"
  shows "app_ok E (snd (DeleteVKHash E i a))"
proof -
  have "app_ok E (snd (saveVKHashRegistry E (if c then remove_at k (r[k := (r ! k)\<lparr>InPool := False\<rparr>])
      else r[k := (r ! k)\<lparr>InPool := False\<rparr>]) a'))"
    if "loadVKHashRegistry a = Inr r" "app_profiles E a = (ps, a')" for r k c ps a'
    by (rule listed_save_ok [OF a that])
      (cases c, auto simp: keys_update intro!: exI [of _ k] exI [of _ "r[k := (r ! k)\<lparr>InPool := False\<rparr>]"])
  then show ?thesis
    using a by (auto simp: DeleteVKHash_def Let_def split: sum.splits option.splits prod.splits)
qed

lemma cleanupOrphan_ok:
  assumes a: "app_ok E a"
  shows "app_ok E (cleanupOrphanVKHash E i a)"
proof -
  have "app_ok E (snd (saveVKHashRegistry E (remove_at k r) a'))"
    if "loadVKHashRegistry a = Inr r" "app_profiles E a = (ps, a')" for r k ps a'
    by (rule listed_save_ok [OF a that]) auto
  then show ?thesis
    using a app_profiles_ok [OF a]
    by (auto simp: cleanupOrphanVKHash_def Let_def split: sum.splits option.splits prod.splits)
qed

lemma record_check_ok:
  assumes a: "app_ok E a"
  shows "app_ok E (snd (record_check E i n c a))"
proof -
  have "app_ok E (snd (saveVKHashRegistry E (r[k := (r ! k)\<lparr>Checks := cs\<rparr>]) a))"
    if "loadVKHashRegistry a = Inr r" for r k cs
    using registry_ok_keys [OF loaded_ok [OF a that], of "r[k := (r ! k)\<lparr>Checks := cs\<rparr>]"] a
    by (intro save_ok) (simp_all add: keys_update)
  then show ?thesis
    using a by (auto simp: record_check_def split: sum.splits option.splits)
qed

lemma checkVKHashProbe_ok:
  assumes a: "app_ok E a"
  shows "app_ok E (snd (checkVKHashProbe E now i n running pr a))"
proof -
  have s: "app_ok E (a\<lparr>store := s\<rparr>)" "app_ok E (a\<lparr>store := snd (LoadSettings (os E) s)\<rparr>)"
    if "LoadProfile (os E) n (store a) = (r, s)" for r s
    using LoadProfile_drawn [of "store a" "os E" n] LoadSettings_drawn [of s "os E"] that a
    by (auto intro: app_ok_store order_trans)
  have "app_ok E a'"
    if "record_check E i n c (a\<lparr>store := snd (LoadSettings (os E) s)\<rparr>) = (res, a')"
      "LoadProfile (os E) n (store a) = (r, s)" for r s c res a'
    using record_check_ok [OF s(2) [OF that(2)], of i n c] that(1) by simp
  then show ?thesis
    using s a
    by (auto simp: checkVKHashProbe_def Let_def split: sum.splits option.splits prod.splits)
qed

lemma checkVKHashCoordinated_ok:
  "app_ok E a \<Longrightarrow> app_ok E (snd (checkVKHashCoordinated E now i n oc a))"
  by (auto simp: checkVKHashCoordinated_def Let_def checkVKHashProbe_ok split: check_outcome.split)

lemma candidateVKHashes_ok:
  assumes "uuids_ok (os E)" and a: "app_ok E a"
  shows "app_ok E (snd (candidateVKHashes E now hs mode a))"
proof (cases "loadVKHashRegistry a")
  case (Inr r)
  obtain res r' n where l: "ensure_local E now hs (r, drawn (store a)) = (res, r', n)"
    by (metis prod.exhaust)
  from grown_ok [OF a ensure_local_ok [OF assms(1) l loaded_ok [OF a Inr]]] show ?thesis
    using l Inr by (auto simp: candidateVKHashes_def Let_def split: sum.splits prod.splits)
qed (use a in \<open>simp add: candidateVKHashes_def\<close>)

lemma replace_in_profile_ok:
  assumes a: "app_ok E a"
  shows "app_ok E (snd (replace_in_profile E n old new a))"
proof -
  have s: "app_ok E (a\<lparr>store := s0\<rparr>)" if "LoadProfile (os E) n (store a) = (l, s0)" for l s0
    using LoadProfile_drawn [of "store a" "os E" n] that a by (intro app_ok_store) auto
  have "app_ok E (a\<lparr>store := s\<rparr>)"
    if "LoadProfile (os E) n (store a) = (l, s0)" "SaveProfile (os E) n p s0 = (r, s)" for p l s0 r s
    using LoadProfile_drawn [of "store a" "os E" n] SaveProfile_drawn [of s0 "os E" n p] that a
    by (intro app_ok_store) auto
  then show ?thesis
    by (auto simp: replace_in_profile_def Let_def dest: s split: sum.splits prod.splits)
qed

lemma keys_set_pool: "keys (r[i := (r ! i)\<lparr>InPool := b\<rparr>]) = keys r"
  by (simp add: keys_update)

lemma keys_move_pool_flag: "keys (move_pool_flag i j r) = keys r"
  using keys_set_pool [of "r[i := (r ! i)\<lparr>InPool := False\<rparr>]" j True] keys_set_pool [of r i False]
  by (simp add: move_pool_flag_def Let_def)

lemma replace_in_registry_ok:
  assumes a: "app_ok E a"
  shows "app_ok E (snd (replace_in_registry E i j a))"
proof -
  have 1: "app_ok E a2"
    if "saveVKHashRegistry E (move_pool_flag k l r) a = (res, a2)" "loadVKHashRegistry a = Inr r" for r k l res a2
    using save_ok [OF registry_ok_keys [OF loaded_ok [OF a that(2)] keys_move_pool_flag [of k l r]] a] that(1)
    by simp
  have 2: "app_ok E a2"
    if "saveVKHashRegistry E r' a' = (res, a2)" "app_profiles E a = (ps, a')" "loadVKHashRegistry a = Inr r"
      "keys r' = keys r \<or> (\<exists>k r2. keys r2 = keys r \<and> r' = remove_at k r2)" for r r' res ps a' a2
    using listed_save_ok [OF a that(3,2,4)] that(1) by simp
  have 3: "app_ok E a2"
    if "saveVKHashRegistry E (remove_at k (move_pool_flag k l r)) a' = (res, a2)"
      "app_profiles E a = (ps, a')" "loadVKHashRegistry a = Inr r" for r k l res ps a' a2
    using 2 [OF that] keys_move_pool_flag by blast
  show ?thesis
    using a keys_move_pool_flag
    by (auto simp: replace_in_registry_def Let_def dest: 1 2 3 split: sum.splits option.splits prod.splits if_splits)
qed

lemma exchange_hash_ok:
  assumes "app_ok E a"
  shows "app_ok E (snd (exchange_hash E n old new a))"
proof (cases "replace_in_profile E n (Hash old) (Hash new) a")
  case (Pair res1 a1)
  then have 1: "app_ok E a1"
    using replace_in_profile_ok [OF assms, of n "Hash old" "Hash new"] by simp
  obtain res2 a2 where 2: "replace_in_registry E (ID old) (ID new) a1 = (res2, a2)"
    by (metis prod.exhaust)
  then have "app_ok E a2"
    using replace_in_registry_ok [OF 1, of "ID old" "ID new"] by simp
  then show ?thesis
    using Pair 1 2 vkHashEntry_ok by (simp add: exchange_hash_def split: sum.split)
qed

lemma check_and_exchange_ok:
  assumes "app_ok E a"
  shows "app_ok E (snd (check_and_exchange E now n inp old new a))"
proof (cases "checkVKHashCoordinated E now (ID new) n (checked inp) a")
  case (Pair res1 a1)
  then have "app_ok E a1"
    using checkVKHashCoordinated_ok [OF assms, of now "ID new" n "checked inp"] by simp
  then show ?thesis
    using Pair by (simp add: check_and_exchange_def cleanupOrphan_ok exchange_hash_ok split: sum.split)
qed

lemma store_new_hash_ok:
  assumes "uuids_ok (os E)" and a: "app_ok E a"
  shows "app_ok E (snd (store_new_hash E now h a))"
proof (cases "loadVKHashRegistry a")
  case (Inr r)
  obtain res r' n where l: "ensureVKHashEntry E now h ''generated'' False (r, drawn (store a)) = (res, r', n)"
    by (metis prod.exhaust)
  note g = grown_ok [OF a ensure_ok [OF l loaded_ok [OF a Inr] assms(1)]]
  then show ?thesis
    using l Inr by (auto simp: store_new_hash_def split: sum.splits prod.splits)
qed (use a in \<open>simp add: store_new_hash_def\<close>)

lemma replaceVKHash_ok:
  assumes u: "uuids_ok (os E)" and a: "app_ok E a"
  shows "app_ok E (snd (replaceVKHashWithContext E now i n inp a))"
proof (cases "ListVKHashes E a")
  case (Pair es a1)
  then have 1: "app_ok E a1"
    using ListVKHashes_ok [OF a] by simp
  have "app_ok E (snd (case store_new_hash E now h a1 of
      (Inl e, a) \<Rightarrow> (Inl e, a)
    | (Inr new, a) \<Rightarrow> check_and_exchange E now n' inp old new a))" for h n' old
    using store_new_hash_ok [OF u 1, of now h] check_and_exchange_ok
    by (auto split: prod.splits sum.splits)
  then show ?thesis
    using a 1 Pair by (simp add: replaceVKHashWithContext_def Let_def split: option.split sum.split)
qed

section \<open>Sequences of operations\<close>

datatype app_op =
    OpSync string string string "string list" string bool bool
  | OpAdd string string | OpList | OpDelete string
  | OpCheck string string check_outcome
  | OpReplace string string replace_input
  | OpCandidates "string list" string

fun app_step :: "app_env \<Rightarrow> App \<Rightarrow> int \<times> app_op \<Rightarrow> App" where
  "app_step E a (now, OpSync name peer pw hs mode ac ar) =
     snd (SyncProfileVKSettings E now name peer pw hs mode ac ar a)"
| "app_step E a (now, OpAdd raw src) = snd (AddVKHash E now raw src a)"
| "app_step E a (now, OpList) = snd (ListVKHashes E a)"
| "app_step E a (now, OpDelete i) = snd (DeleteVKHash E i a)"
| "app_step E a (now, OpCheck i n oc) = snd (checkVKHashCoordinated E now i n oc a)"
| "app_step E a (now, OpReplace i n inp) = snd (replaceVKHashWithContext E now i n inp a)"
| "app_step E a (now, OpCandidates hs mode) = snd (candidateVKHashes E now hs mode a)"

lemma app_step_ok: "uuids_ok (os E) \<Longrightarrow> app_ok E a \<Longrightarrow> app_ok E (app_step E a op)"
  by (cases "(E, a, op)" rule: app_step.cases)
    (simp_all add: SyncProfile_ok AddVKHash_ok ListVKHashes_ok DeleteVKHash_ok
      checkVKHashCoordinated_ok replaceVKHash_ok candidateVKHashes_ok)

lemma app_steps_ok: "uuids_ok (os E) \<Longrightarrow> app_ok E a \<Longrightarrow> app_ok E (foldl (app_step E) a ops)"
  by (induction ops arbitrary: a) (simp_all add: app_step_ok)

text \<open>Property C35 (invariant). Starting from a consistent registry, whatever operations run in whatever
  order (profiles saved, hashes added, listed, deleted, checked, replaced or chosen), the registry
  that can be loaded has no identifier twice, no hash twice, and only hashes of the accepted form.\<close>

theorem registry_stays_consistent:
  assumes "uuids_ok (os E)" and "app_ok E a"
    and "loadVKHashRegistry (foldl (app_step E) a ops) = Inr r"
  shows "distinct (map ID r) \<and> distinct (map Hash r) \<and>
    list_all (\<lambda>e. minVKHashLen \<le> length (Hash e) \<and> vkHashPattern (Hash e)) r"
  using loaded_ok [OF app_steps_ok [OF assms(1,2)] assms(3)]
  by (auto simp: registry_ok_def keys_def hash_ok_def list_all_iff comp_def)

section \<open>What is used is not removed\<close>

definition has_key :: "App \<Rightarrow> string \<times> string \<Rightarrow> bool" where
  "has_key a k \<longleftrightarrow> (\<exists>r. loadVKHashRegistry a = Inr r \<and> k \<in> set (keys r))"

definition used_by :: "app_env \<Rightarrow> App \<Rightarrow> string \<Rightarrow> string \<Rightarrow> bool" where
  "used_by E a n h \<longleftrightarrow> (\<exists>p. profile_on_disk (store a) n p \<and> profileContainsVKHash E p h)"

lemma has_key_file: "registry_file b = registry_file a \<Longrightarrow> has_key b k = has_key a k"
  by (simp add: has_key_def loadVKHashRegistry_def)

lemma has_key_store [simp]: "has_key (a\<lparr>store := s\<rparr>) k = has_key a k"
  by (rule has_key_file) simp

lemma has_key_set_drawn [simp]: "has_key (set_drawn n a) k = has_key a k"
  by (simp add: set_drawn_def)

lemma has_key_profiles: "has_key (snd (app_profiles E a)) k = has_key a k"
  by (rule has_key_file) simp

lemma has_key_save:
  "has_key a k \<Longrightarrow> k \<in> set (keys r) \<Longrightarrow> has_key (snd (saveVKHashRegistry E r a)) k"
  by (simp add: saveVKHashRegistry_def has_key_def loadVKHashRegistry_def)

lemma used_before_listing:
  assumes "\<not> readdir_fails (os E)" and "used_by E (snd (app_profiles E a)) n h"
  shows "used_by E a n h \<and> (\<exists>p. (n, p) \<in> set (fst (app_profiles E a)) \<and> profileContainsVKHash E p h)"
  using assms ListProfiles_complete [of "os E" "store a"]
  by (fastforce simp: used_by_def app_profiles_def split: prod.splits)

lemma used_no_users:
  "(n, p) \<in> set ps \<Longrightarrow> profileContainsVKHash E p (Hash e) \<Longrightarrow> profilesUsingVKHash E e ps \<noteq> []"
  by (auto simp: profilesUsingVKHash_def uses_hash_def filter_empty_conv Let_def
      dest: arg_cong [of _ _ set])

lemma in_remove_at: "x \<in> set xs \<Longrightarrow> i < length xs \<Longrightarrow> x \<noteq> xs ! i \<Longrightarrow> x \<in> set (remove_at i xs)"
  by (metis Un_iff id_take_nth_drop remove_at_def set_ConsD set_append Suc_eq_plus1)

text \<open>Removing an entry that no profile uses keeps the keys that are used.\<close>

lemma remove_unused:
  assumes "\<not> readdir_fails (os E)" and "app_profiles E a = (ps, a')"
    and "used_by E a' n (snd k)" and "has_key a k" and "loadVKHashRegistry a = Inr r"
    and "keys r' = keys r" and "i < length r'"
    and "c \<longrightarrow> profilesUsingVKHash E (r' ! i) ps = []"
  shows "has_key (snd (saveVKHashRegistry E (if c then remove_at i r' else r') a')) k"
proof (rule has_key_save)
  show "has_key a' k"
    using has_key_profiles [of E a k] assms(2,4) by simp
  have k: "k \<in> set (keys r')"
    using assms(4,5,6) by (simp add: has_key_def)
  have "k \<in> set (keys (remove_at i r'))" if c
  proof -
    obtain p where "(n, p) \<in> set ps" "profileContainsVKHash E p (snd k)"
      using used_before_listing [OF assms(1), of a n "snd k"] assms(2,3) by auto
    then have "Hash (r' ! i) \<noteq> snd k"
      using used_no_users [of n p ps E "r' ! i"] assms(8) that by auto
    then have "k \<noteq> keys r' ! i"
      using assms(7) by (auto simp: keys_def)
    then show ?thesis
      using in_remove_at [OF k] assms(7) by (simp add: keys_remove) (simp add: keys_def)
  qed
  with k show "k \<in> set (keys (if c then remove_at i r' else r'))"
    by simp
qed

lemma ensure_keys:
  assumes "ensureVKHashEntry E now raw src b (r, n) = (res, r', n')"
  shows "set (keys r) \<subseteq> set (keys r')"
proof -
  have "keys r' = keys r \<or> (\<exists>e. r' = r @ [e])"
    using assms by (auto simp: ensureVKHashEntry_def Let_def keys_update split: sum.splits option.splits)
  then show ?thesis
  proof
    assume "\<exists>e. r' = r @ [e]"
    then show ?thesis
      by (auto simp: keys_def)
  qed simp
qed

lemma ensure_local_keys:
  "ensure_local E now hs (r, n) = (res, r', n') \<Longrightarrow> set (keys r) \<subseteq> set (keys r')"
proof (induction hs arbitrary: res r' n' rule: rev_induct)
  case (snoc h hs)
  obtain res1 r1 n1 where l: "ensure_local E now hs (r, n) = (res1, r1, n1)"
    by (metis prod.exhaust)
  note IH = snoc.IH [OF l]
  obtain res2 r2 n2 where e: "ensureVKHashEntry E now h ''manual'' False (r1, n1) = (res2, r2, n2)"
    by (metis prod.exhaust)
  have "r' = r1 \<or> r' = r2"
    using l e snoc.prems by (auto simp: ensure_local_def split: sum.splits prod.splits)
  then show ?case
    using IH ensure_keys [OF e] by auto
qed (simp add: ensure_local_def)

lemma grown_has_key:
  assumes "has_key a k" and "loadVKHashRegistry a = Inr r" and "set (keys r) \<subseteq> set (keys r')"
  shows "has_key (snd (saveVKHashRegistry E r' (set_drawn n a))) k"
  using assms by (intro has_key_save) (auto simp: has_key_def [of a])

lemma list_has_key: "has_key (snd (ListVKHashes E a)) k = has_key a k"
  using has_key_profiles [of E a k] by (auto simp: ListVKHashes_def split: sum.split prod.splits)

lemma entry_has_key: "has_key (snd (vkHashEntry E i a)) k = has_key a k"
  using list_has_key [of E a k] by (auto simp: vkHashEntry_def split: option.split prod.splits)

lemma used_before_ListVKHashes:
  "\<not> readdir_fails (os E) \<Longrightarrow> used_by E (snd (ListVKHashes E a)) n h \<Longrightarrow> used_by E a n h"
  using used_before_listing [of E a n h] by (auto simp: ListVKHashes_def split: sum.splits prod.splits)

lemma used_before_entry:
  "\<not> readdir_fails (os E) \<Longrightarrow> used_by E (snd (vkHashEntry E i a)) n h \<Longrightarrow> used_by E a n h"
  using used_before_ListVKHashes [of E a n h] by (auto simp: vkHashEntry_def split: option.splits prod.splits)

lemma register_has_key: "has_key a k \<Longrightarrow> has_key (snd (registerLocalVKHashes E now hs a)) k"
proof (cases "loadVKHashRegistry a")
  case (Inr r)
  obtain res r' n where l: "ensure_local E now hs (r, drawn (store a)) = (res, r', n)"
    by (metis prod.exhaust)
  then show "has_key a k \<Longrightarrow> ?thesis"
    using grown_has_key [OF _ Inr ensure_local_keys [OF l]] Inr
    by (auto simp: registerLocalVKHashes_def split: sum.splits)
qed (simp add: registerLocalVKHashes_def)

lemma candidates_has_key: "has_key a k \<Longrightarrow> has_key (snd (candidateVKHashes E now hs mode a)) k"
proof (cases "loadVKHashRegistry a")
  case (Inr r)
  obtain res r' n where l: "ensure_local E now hs (r, drawn (store a)) = (res, r', n)"
    by (metis prod.exhaust)
  then show "has_key a k \<Longrightarrow> ?thesis"
    using grown_has_key [OF _ Inr ensure_local_keys [OF l], of k E n] Inr
    by (auto simp: candidateVKHashes_def Let_def split: sum.splits prod.splits)
qed (simp add: candidateVKHashes_def)

lemma sync_has_key: "has_key a k \<Longrightarrow> has_key (snd (SyncProfileVKSettings E now name peer pw hs mode ac ar a)) k"
  by (auto simp: SyncProfileVKSettings_def Let_def register_has_key split: sum.split prod.splits)

lemma add_has_key: "has_key a k \<Longrightarrow> has_key (snd (AddVKHash E now raw src a)) k"
proof (cases "loadVKHashRegistry a")
  case (Inr r)
  obtain res r' n where l: "ensureVKHashEntry E now raw src True (r, drawn (store a)) = (res, r', n)"
    by (metis prod.exhaust)
  then show "has_key a k \<Longrightarrow> ?thesis"
    using grown_has_key [OF _ Inr ensure_keys [OF l], of k E n] Inr
    by (auto simp: AddVKHash_def entry_has_key split: sum.splits prod.splits)
qed (simp add: AddVKHash_def)

lemma new_hash_has_key: "has_key a k \<Longrightarrow> has_key (snd (store_new_hash E now h a)) k"
proof (cases "loadVKHashRegistry a")
  case (Inr r)
  obtain res r' n where l: "ensureVKHashEntry E now h ''generated'' False (r, drawn (store a)) = (res, r', n)"
    by (metis prod.exhaust)
  then show "has_key a k \<Longrightarrow> ?thesis"
    using grown_has_key [OF _ Inr ensure_keys [OF l], of k E n] Inr
    by (auto simp: store_new_hash_def split: sum.splits prod.splits)
qed (simp add: store_new_hash_def)

lemma record_check_has_key: "has_key a k \<Longrightarrow> has_key (snd (record_check E i n c a)) k"
  by (auto simp: record_check_def keys_update has_key_def [of a]
      split: sum.splits option.split intro!: has_key_save)

lemma probe_has_key: "has_key a k \<Longrightarrow> has_key (snd (checkVKHashProbe E now i n running pr a)) k"
  using record_check_has_key [of "a\<lparr>store := s\<rparr>" k E i n c for s c]
  by (auto simp: checkVKHashProbe_def Let_def split: sum.splits option.splits prod.splits)
    (metis snd_conv)+

lemma check_has_key: "has_key a k \<Longrightarrow> has_key (snd (checkVKHashCoordinated E now i n oc a)) k"
  by (simp add: checkVKHashCoordinated_def Let_def probe_has_key split: check_outcome.split)

lemma exchange_profile_has_key: "has_key (snd (replace_in_profile E n old new a)) k = has_key a k"
  by (auto simp: replace_in_profile_def Let_def split: sum.split prod.splits)

lemma find_index_bound: "findVKHashByID r i = Some k \<Longrightarrow> k < length r"
  by (auto simp: findVKHashByID_def dest: index_of_Some)

lemma delete_has_key:
  assumes "\<not> readdir_fails (os E)" and "used_by E (snd (DeleteVKHash E i a)) n (snd k)" and "has_key a k"
  shows "has_key (snd (DeleteVKHash E i a)) k"
proof (cases "loadVKHashRegistry a")
  case (Inr r)
  show ?thesis
  proof (cases "findVKHashByID r i")
    case (Some j)
    obtain ps a' where l: "app_profiles E a = (ps, a')"
      by (metis prod.exhaust)
    define e where "e = (r ! j)\<lparr>InPool := False\<rparr>"
    have d: "snd (DeleteVKHash E i a) = snd (saveVKHashRegistry E
        (if profilesUsingVKHash E e ps = [] then remove_at j (r[j := e]) else r[j := e]) a')"
      using Inr Some l by (simp add: DeleteVKHash_def Let_def e_def)
    have "used_by E a' n (snd k)"
      using assms(2) unfolding d by (simp add: used_by_def)
    from remove_unused [OF assms(1) l this assms(3) Inr, of "r[j := e]" j "profilesUsingVKHash E e ps = []"]
    show ?thesis
      unfolding d using find_index_bound [OF Some] by (simp add: keys_update e_def)
  qed (use assms(3) Inr in \<open>simp add: DeleteVKHash_def\<close>)
qed (use assms(3) in \<open>simp add: DeleteVKHash_def\<close>)

lemma cleanup_has_key:
  assumes "\<not> readdir_fails (os E)" and "used_by E (cleanupOrphanVKHash E i a) n (snd k)" and "has_key a k"
  shows "has_key (cleanupOrphanVKHash E i a) k"
proof (cases "loadVKHashRegistry a")
  case (Inr r)
  show ?thesis
  proof (cases "findVKHashByID r i")
    case (Some j)
    obtain ps a' where l: "app_profiles E a = (ps, a')"
      by (metis prod.exhaust)
    show ?thesis
    proof (cases "InPool (r ! j) \<or> profilesUsingVKHash E (r ! j) ps \<noteq> []")
      case True
      then have "cleanupOrphanVKHash E i a = a \<or> cleanupOrphanVKHash E i a = a'"
        using Inr Some l by (auto simp: cleanupOrphanVKHash_def)
      then show ?thesis
        using assms(3) has_key_profiles [of E a k] l by auto
    next
      case False
      then have d: "cleanupOrphanVKHash E i a = snd (saveVKHashRegistry E (remove_at j r) a')"
        using Inr Some l by (simp add: cleanupOrphanVKHash_def)
      have "used_by E a' n (snd k)"
        using assms(2) unfolding d by (simp add: used_by_def)
      from remove_unused [OF assms(1) l this assms(3) Inr, of r j True] show ?thesis
        unfolding d using find_index_bound [OF Some] False by simp
    qed
  qed (use assms(3) Inr in \<open>simp add: cleanupOrphanVKHash_def\<close>)
qed (use assms(3) in \<open>simp add: cleanupOrphanVKHash_def\<close>)

lemma length_move_pool_flag [simp]: "length (move_pool_flag i j r) = length r"
  by (simp add: move_pool_flag_def Let_def)

lemma exchange_registry_has_key:
  assumes "\<not> readdir_fails (os E)" and "used_by E (snd (replace_in_registry E i j a)) n (snd k)"
    and "has_key a k"
  shows "has_key (snd (replace_in_registry E i j a)) k"
proof (cases "loadVKHashRegistry a")
  case (Inr r)
  show ?thesis
  proof (cases "findVKHashByID r i = None \<or> findVKHashByID r j = None")
    case False
    then obtain x y where f: "findVKHashByID r i = Some x" "findVKHashByID r j = Some y"
      by auto
    define m where "m = move_pool_flag x y r"
    obtain ps a' where l: "app_profiles E a = (ps, a')"
      by (metis prod.exhaust)
    show ?thesis
    proof (cases "InPool (m ! x)")
      case True
      then have "snd (replace_in_registry E i j a) = snd (saveVKHashRegistry E m a)"
        using Inr f by (simp add: replace_in_registry_def Let_def m_def split: prod.split)
      then show ?thesis
        using assms(3) Inr keys_move_pool_flag [of x y r]
        by (auto simp: m_def has_key_def [of a] intro: has_key_save)
    next
      case False
      then have d: "snd (replace_in_registry E i j a) = snd (saveVKHashRegistry E
          (if profilesUsingVKHash E (m ! x) ps = [] then remove_at x m else m) a')"
        using Inr f l by (simp add: replace_in_registry_def Let_def m_def split: prod.split)
      have "used_by E a' n (snd k)"
        using assms(2) unfolding d by (simp add: used_by_def)
      from remove_unused [OF assms(1) l this assms(3) Inr, of m x "profilesUsingVKHash E (m ! x) ps = []"]
      show ?thesis
        unfolding d using find_index_bound [OF f(1)] by (simp add: m_def keys_move_pool_flag)
    qed
  qed (use assms(3) Inr in \<open>auto simp: replace_in_registry_def split: option.split\<close>)
qed (use assms(3) in \<open>simp add: replace_in_registry_def\<close>)

lemma exchange_has_key:
  assumes f: "\<not> readdir_fails (os E)" and u: "used_by E (snd (exchange_hash E m old new a)) n (snd k)"
    and "has_key a k"
  shows "has_key (snd (exchange_hash E m old new a)) k"
proof (cases "replace_in_profile E m (Hash old) (Hash new) a")
  case (Pair res1 a1)
  then have 1: "has_key a1 k"
    using exchange_profile_has_key [of E m "Hash old" "Hash new" a k] assms(3) by simp
  obtain res2 a2 where 2: "replace_in_registry E (ID old) (ID new) a1 = (res2, a2)"
    by (metis prod.exhaust)
  have "has_key a2 k" if "used_by E a2 n (snd k)"
    using exchange_registry_has_key [OF f, of "ID old" "ID new" a1 n k] 1 2 that by simp
  then show ?thesis
    using Pair 1 2 u used_before_entry [OF f, of "ID new" a2 n "snd k"]
    by (auto simp: exchange_hash_def entry_has_key split: sum.splits if_splits)
qed

lemma check_and_exchange_has_key:
  assumes f: "\<not> readdir_fails (os E)"
    and u: "used_by E (snd (check_and_exchange E now m inp old new a)) n (snd k)" and "has_key a k"
  shows "has_key (snd (check_and_exchange E now m inp old new a)) k"
proof (cases "checkVKHashCoordinated E now (ID new) m (checked inp) a")
  case (Pair res1 a1)
  then have "has_key a1 k"
    using check_has_key [OF assms(3), of E now "ID new" m "checked inp"] by simp
  then show ?thesis
    using u Pair cleanup_has_key [OF f, of "ID new" a1 n k] exchange_has_key [OF f, of m old new a1 n k]
    by (auto simp: check_and_exchange_def split: sum.splits if_splits)
qed

lemma replace_has_key:
  assumes f: "\<not> readdir_fails (os E)"
    and u: "used_by E (snd (replaceVKHashWithContext E now i m inp a)) n (snd k)" and "has_key a k"
  shows "has_key (snd (replaceVKHashWithContext E now i m inp a)) k"
proof (cases "ListVKHashes E a")
  case (Pair es a1)
  then have 1: "has_key a1 k"
    using list_has_key [of E a k] assms(3) by simp
  have "has_key (snd (case store_new_hash E now h a1 of
      (Inl e, a) \<Rightarrow> (Inl e, a)
    | (Inr new, a) \<Rightarrow> check_and_exchange E now m' inp old new a)) k"
    if "used_by E (snd (case store_new_hash E now h a1 of
      (Inl e, a) \<Rightarrow> (Inl e, a)
    | (Inr new, a) \<Rightarrow> check_and_exchange E now m' inp old new a)) n (snd k)" for h m' old
    using new_hash_has_key [OF 1, of E now h] check_and_exchange_has_key [OF f, of now m' inp old _ _ n k] that
    by (auto split: prod.splits sum.splits)
  then show ?thesis
    using u assms(3) 1 Pair
    by (simp add: replaceVKHashWithContext_def Let_def split: option.splits sum.splits if_splits)
qed

text \<open>No operation takes a hash out of the registry that a profile still uses: an
  entry whose hash is in the list of some readable profile after the operation is still there
  after it, whatever is deleted, replaced, checked or cleaned up.\<close>

theorem used_hashes_stay:
  assumes "\<not> readdir_fails (os E)"
    and "loadVKHashRegistry a = Inr r" and "e \<in> set r"
    and "profile_on_disk (store (app_step E a op)) n p" and "profileContainsVKHash E p (Hash e)"
  shows "\<exists>r' e'. loadVKHashRegistry (app_step E a op) = Inr r' \<and> e' \<in> set r' \<and>
    ID e' = ID e \<and> Hash e' = Hash e"
proof -
  have k: "has_key a (ID e, Hash e)"
    using assms(2,3) by (auto simp: has_key_def keys_def)
  have u: "used_by E (app_step E a op) n (snd (ID e, Hash e))"
    using assms(4,5) by (auto simp: used_by_def)
  have "has_key (app_step E a op) (ID e, Hash e)"
    using u k
    by (cases op; cases "snd op")
      (auto simp only: app_step.simps snd_conv sync_has_key add_has_key list_has_key check_has_key candidates_has_key
        intro: delete_has_key [OF assms(1), of _ _ n "(ID e, Hash e)", unfolded snd_conv]
          replace_has_key [OF assms(1), of _ _ _ _ _ n "(ID e, Hash e)", unfolded snd_conv])
  then show ?thesis
    by (auto simp: has_key_def keys_def)
qed

text \<open>A deleted pool hash that the profile \<open>a\<close> lists.\<close>

definition example_app_env :: app_env where
  "example_app_env = \<lparr>os = example_env, url_parse = (\<lambda>s. None), registry_write_fails = False\<rparr>"

definition example_entry :: VKHashEntry where
  "example_entry = \<lparr>ID = ''#'', Hash = ''AAAAAAAAAAAAAAAA'', Source = ''manual'', InPool = True,
     CreatedAt = 1, Checks = [], UsedBy = []\<rparr>"

definition example_profile :: ProfileData where
  "example_profile = zero_profile\<lparr>Hashes := [''AAAAAAAAAAAAAAAA'']\<rparr>"

definition example_app :: App where
  "example_app = \<lparr>store = \<lparr>disk = [(profile_path ''a'', Doc (marshal_profile example_profile))],
     recoveryNotices = [], drawn = 1\<rparr>, registry_file = RegistryOf [example_entry]\<rparr>"

lemma example_hash_ok: "hash_ok ''AAAAAAAAAAAAAAAA''"
  by code_simp

lemma example_app_ok: "app_ok example_app_env example_app"
  using example_hash_ok
  by (simp add: app_ok_def loadVKHashRegistry_def example_app_def registry_ok_def keys_def
      example_entry_def example_app_env_def example_env_def)

lemma example_good: "good_profile example_profile"
  by (simp add: example_profile_def good_profile_def zero_profile_def valid_ascii)

lemma example_on_disk: "profile_on_disk (store example_app) ''a'' example_profile"
proof -
  obtain m where "marshal_profile example_profile = JObj m" "unmarshal_profile m = Some example_profile"
    using unmarshal_marshal_profile [OF example_good] by blast
  then show ?thesis
    by (auto simp: profile_on_disk_def example_app_def)
qed

lemma example_lists: "app_profiles example_app_env example_app = ([(''a'', example_profile)], example_app)"
proof -
  obtain m where m: "marshal_profile example_profile = JObj m" "unmarshal_profile m = Some example_profile"
    using unmarshal_marshal_profile [OF example_good] by blast
  have "ReadDir (store example_app) = [''a.json'']"
    by (simp add: ReadDir_def example_app_def profile_path_def)
  moreover have "map_of (disk (store example_app)) (Servers ''a.json'') = Some (Doc (JObj m))"
    by (simp add: example_app_def profile_path_def m)
  ultimately have "ListProfiles (os example_app_env) (store example_app) =
      ([(''a'', example_profile)], store example_app)"
    using m(2)
    by (simp add: ListProfiles_def example_app_env_def example_env_def readJSON_def
        validateProfileJSON_def has_suffix_def trim_suffix_def)
  then show ?thesis
    by (simp add: app_profiles_def example_app_def)
qed

lemma example_deleted:
  "loadVKHashRegistry (app_step example_app_env example_app (5, OpDelete ''#'')) =
     Inr [example_entry\<lparr>InPool := False\<rparr>]"
proof -
  have "profilesUsingVKHash example_app_env (example_entry\<lparr>InPool := False\<rparr>) [(''a'', example_profile)] \<noteq> []"
    using normalizeVKCallHash_hash [OF example_hash_ok]
    by (intro used_no_users [of "''a''" example_profile])
      (simp_all add: profileContainsVKHash_def example_profile_def example_entry_def)
  moreover have "loadVKHashRegistry example_app = Inr [example_entry]" "findVKHashByID [example_entry] ''#'' = Some 0"
    by (simp_all add: loadVKHashRegistry_def example_app_def findVKHashByID_def example_entry_def)
  ultimately show ?thesis
    using example_lists
    by (simp add: DeleteVKHash_def Let_def saveVKHashRegistry_def loadVKHashRegistry_def example_app_env_def)
qed

theorem registry_stays_consistent_witness:
  "distinct (map ID [example_entry\<lparr>InPool := False\<rparr>]) \<and>
   loadVKHashRegistry (foldl (app_step example_app_env) example_app [(5, OpDelete ''#'')]) =
     Inr [example_entry\<lparr>InPool := False\<rparr>]"
proof -
  have u: "uuids_ok (os example_app_env)"
    using example_uuids by (simp add: example_app_env_def)
  have l: "loadVKHashRegistry (foldl (app_step example_app_env) example_app [(5, OpDelete ''#'')]) =
      Inr [example_entry\<lparr>InPool := False\<rparr>]"
    using example_deleted by simp
  from registry_stays_consistent [OF u example_app_ok l] l show ?thesis
    by blast
qed

theorem used_hashes_stay_witness:
  "\<exists>r' e'. loadVKHashRegistry (app_step example_app_env example_app (5, OpDelete ''#'')) = Inr r' \<and>
    e' \<in> set r' \<and> ID e' = ''#'' \<and> Hash e' = ''AAAAAAAAAAAAAAAA''"
proof -
  have r: "\<not> readdir_fails (os example_app_env)"
    by (simp add: example_app_env_def example_env_def)
  have l: "loadVKHashRegistry example_app = Inr [example_entry]" "example_entry \<in> set [example_entry]"
    by (simp_all add: loadVKHashRegistry_def example_app_def)
  have "store (app_step example_app_env example_app (5, OpDelete ''#'')) = store example_app"
    using example_lists l(1) by (simp add: DeleteVKHash_def Let_def split: option.split prod.split)
  then have d: "profile_on_disk (store (app_step example_app_env example_app (5, OpDelete ''#''))) ''a'' example_profile"
    using example_on_disk by (simp only:)
  have "profileContainsVKHash example_app_env example_profile (Hash example_entry)"
    using normalizeVKCallHash_hash [OF example_hash_ok]
    by (simp add: profileContainsVKHash_def example_profile_def example_entry_def)
  from used_hashes_stay [OF r l d this] show ?thesis
    by (simp add: example_entry_def)
qed

section \<open>Creating hashes\<close>

lemma known_hashes_set: "set (known_hashes up existing) = {h. \<exists>raw \<in> set existing. normalizeVKCallHash up raw = Inr h}"
  by (force simp: known_hashes_def split: sum.splits)

text \<open>The loop keeps: new hashes are unique, accepted and not among the known ones; every hash took a call.\<close>

definition generate_inv :: "string list \<Rightarrow> nat \<Rightarrow> string list \<Rightarrow> string list \<Rightarrow> nat \<Rightarrow> bool" where
  "generate_inv known count seen result attempts \<longleftrightarrow>
     set seen = set known \<union> set result \<and> set known \<inter> set result = {} \<and> distinct result \<and>
     list_all hash_ok result \<and> length result \<le> min count attempts \<and> attempts \<le> count + maxVKHashes"

lemma generate_inv_new:
  assumes "generate_inv known count seen result n" and "h \<notin> set seen" and "hash_ok h"
    and "length result < count" and "n < count + maxVKHashes"
  shows "generate_inv known count (h # seen) (result @ [h]) (n + 1)"
  using assms by (auto simp: generate_inv_def)

lemma generate_loop_inv:
  "generate_inv known count seen result n \<Longrightarrow>
   generate_loop up token count inp n seen result = (hs, err, calls) \<Longrightarrow>
   (\<exists>seen'. generate_inv known count seen' hs calls) \<and> (err = None \<longleftrightarrow> count \<le> length hs)"
proof (induction up token count inp n seen result rule: generate_loop.induct)
  case (1 up token count inp n seen result)
  note eq = generate_loop.simps [of up token count inp n seen result]
  have again: "generate_inv known count seen result (n + 1)" if "n < count + maxVKHashes"
    using 1(3) that by (auto simp: generate_inv_def)
  show ?case
  proof (cases "count \<le> length result")
    case True
    then show ?thesis
      using 1(3,4) eq by auto
  next
    case False
    note len = False
    show ?thesis
    proof (cases "count + maxVKHashes \<le> n \<or> 0 < n \<and> 0 < call_delay inp \<and> cancelled_before inp n")
      case True
      then have "generate_loop up token count inp n seen result = (result, Some RepeatedHash, n) \<or>
          generate_loop up token count inp n seen result = (result, Some GenCanceled, n)"
        using eq len by auto
      then show ?thesis
        using 1(3,4) len by auto
    next
      case False
      then have n: "n < count + maxVKHashes" and e: "generate_loop up token count inp n seen result =
          (case startCall token (call_answers inp n) of
             Inl e \<Rightarrow> (result, Some e, n + 1)
           | Inr joinLink \<Rightarrow>
               (case normalizeVKCallHash up joinLink of
                  Inl e \<Rightarrow> (result, Some (BadJoinLink e), n + 1)
                | Inr hash \<Rightarrow>
                    if hash \<in> set seen then generate_loop up token count inp (n + 1) seen result
                    else generate_loop up token count inp (n + 1) (hash # seen) (result @ [hash])))"
        using eq len by auto
      show ?thesis
      proof (cases "startCall token (call_answers inp n)")
        case (Inl x)
        then show ?thesis
          using 1(4) e len again [OF n] by auto
      next
        case (Inr link)
        note link = Inr
        show ?thesis
        proof (cases "normalizeVKCallHash up link")
          case (Inl x)
          then show ?thesis
            using 1(4) e len link again [OF n] by auto
        next
          case (Inr h)
          show ?thesis
          proof (cases "h \<in> set seen")
            case True
            then show ?thesis
              using 1(1) [OF len _ _ link Inr True again [OF n]] 1(4) e link Inr False by auto
          next
            case new: False
            have "generate_inv known count (h # seen) (result @ [h]) (n + 1)"
              using generate_inv_new [OF 1(3) new normalizeVKCallHash_ok [OF Inr]] len n by auto
            then show ?thesis
              using 1(2) [OF len _ _ link Inr new] 1(4) e link Inr new False by auto
          qed
        qed
      qed
    qed
  qed
qed

text \<open>Creating hashes ends after at most four calls more than hashes were asked
  for, so after at most eight: it gives at most the number asked for, all different, of the accepted
  form and none of them known before, and it succeeds exactly if it gives that number.\<close>

theorem generate_ends:
  "case generateVKHashes up token count existing inp of (hs, err, calls) \<Rightarrow>
     int calls \<le> max 0 count + 4 \<and> calls \<le> 8 \<and> length hs \<le> calls \<and>
     int (length hs) \<le> max 0 count \<and> distinct hs \<and> list_all hash_ok hs \<and>
     set hs \<inter> {h. \<exists>raw \<in> set existing. normalizeVKCallHash up raw = Inr h} = {} \<and>
     (err = None \<longleftrightarrow> 1 \<le> count \<and> int (length hs) = count)"
proof (cases "count < 1 \<or> count > int maxVKHashes")
  case True
  then show ?thesis
    by (auto simp: generateVKHashes_def)
next
  case False
  define known where "known = known_hashes up existing"
  obtain hs err calls where l: "generate_loop up token (nat count) inp 0 known [] = (hs, err, calls)"
    by (metis prod.exhaust)
  have "generate_inv known (nat count) known [] 0"
    by (simp add: generate_inv_def)
  from generate_loop_inv [OF this l] obtain seen where
    i: "generate_inv known (nat count) seen hs calls" and e: "err = None \<longleftrightarrow> nat count \<le> length hs"
    by blast
  have "set hs \<inter> set known = {}" "distinct hs" "list_all hash_ok hs" "length hs \<le> nat count"
    "length hs \<le> calls" "calls \<le> nat count + 4"
    using i by (auto simp: generate_inv_def maxVKHashes_def)
  moreover have "nat count \<le> 4"
    using False unfolding maxVKHashes_def by linarith
  ultimately show ?thesis
    using l e False known_hashes_set [of up existing]
    by (auto simp: generateVKHashes_def known_def maxVKHashes_def)
qed

end
