(* ===== verification/HashPrepare.thy ===== *)
theory HashPrepare
  imports HashRegistry
begin

text \<open>
  The choice of the hashes for a connection, \<open>prepareVKHashes\<close> of \<open>backend/vk_hash_manager.go\<close>: the
  candidates by the policy, the stored checks that are still fresh, the preflight probes with their
  deadline and the automatic replacement. What happens at the deadline and in the probes is an
  argument; the third result is the list of the entries for which a replacement was tried.
\<close>

section \<open>Fresh checks\<close>

definition ms_to_ns :: "int \<Rightarrow> int" where "ms_to_ns n = n * 10 ^ 6"

definition vkHashCheckTTL :: int where "vkHashCheckTTL = 4 * 3600 * 10 ^ 9"
definition vkHashErrorTTL :: int where "vkHashErrorTTL = 5 * 60 * 10 ^ 9"

definition isVKHashCheckFresh :: "VKHashCheck \<Rightarrow> int \<Rightarrow> bool" where
  "isVKHashCheckFresh check now =
     (if CheckedAt check \<le> 0 then False
      else if ms_to_ns (CheckedAt check) > now then False
      else
        let ttl = (if Status check = ''error'' then vkHashErrorTTL else vkHashCheckTTL)
        in now - ms_to_ns (CheckedAt check) < ttl)"

definition hashesFromEntries :: "VKHashEntry list \<Rightarrow> string list" where
  "hashesFromEntries es = uniqueVKHashes (map Hash es)"

section \<open>Sorting the candidates\<close>

record sorted =
  freshValid :: "string list"
  fallback :: "VKHashEntry list"
  stale :: "VKHashEntry list"
  confirmedInvalid :: "string list"

definition sort_candidate :: "App \<Rightarrow> string \<Rightarrow> int \<Rightarrow> VKHashEntry \<Rightarrow> sorted \<Rightarrow> sorted" where
  "sort_candidate a name now c s =
     (case storedVKHashCheck (ID c) name a of
        None \<Rightarrow> s\<lparr>stale := stale s @ [c], fallback := fallback s @ [c]\<rparr>
      | Some check \<Rightarrow>
          if \<not> isVKHashCheckFresh check now
          then s\<lparr>stale := stale s @ [c], fallback := fallback s @ [c]\<rparr>
          else if Status check = ''valid''
          then s\<lparr>freshValid := freshValid s @ [Hash c], fallback := fallback s @ [c]\<rparr>
          else if Status check = ''error'' then s\<lparr>fallback := fallback s @ [c]\<rparr>
          else if Status check = ''invalid''
          then s\<lparr>confirmedInvalid := ID c # confirmedInvalid s\<rparr>
          else s\<lparr>stale := stale s @ [c], fallback := fallback s @ [c]\<rparr>)"

definition sort_candidates :: "App \<Rightarrow> string \<Rightarrow> int \<Rightarrow> VKHashEntry list \<Rightarrow> sorted" where
  "sort_candidates a name now cs =
     fold (sort_candidate a name now) cs
       \<lparr>freshValid = [], fallback = [], stale = [], confirmedInvalid = []\<rparr>"

definition recent_error :: "App \<Rightarrow> string \<Rightarrow> int \<Rightarrow> VKHashEntry \<Rightarrow> bool" where
  "recent_error a name now c \<longleftrightarrow>
     (case storedVKHashCheck (ID c) name a of
        None \<Rightarrow> False
      | Some check \<Rightarrow> isVKHashCheckFresh check now \<and> Status check = ''error'')"

section \<open>Preflight\<close>

text \<open>
  From outside: whether the preflight deadline has passed before the k-th probe or replacement, the
  outcomes of the probes and the inputs of the replacements, and whether the connection was
  cancelled after the probes or at the end.
\<close>

record prepare_input =
  expired_before :: "nat \<Rightarrow> bool"
  check_at :: "nat \<Rightarrow> check_outcome"
  parent_canceled :: bool
  replace_expired :: "nat \<Rightarrow> bool"
  replace_at :: "nat \<Rightarrow> replace_input"
  parent_canceled_end :: bool
  timed_out_end :: bool

definition not_invalid :: "string list \<Rightarrow> VKHashEntry list \<Rightarrow> VKHashEntry list" where
  "not_invalid invalid es = filter (\<lambda>e. ID e \<notin> set invalid) es"

text \<open>
  The loop over the candidates without a fresh check. It ends the whole choice (\<open>Inl\<close>) or leaves the
  identifiers that are confirmed as invalid (\<open>Inr\<close>). The \<open>break\<close> for a cancelled check only
  leaves the \<open>switch\<close>, so the loop goes on.
\<close>

fun preflight ::
    "app_env \<Rightarrow> int \<Rightarrow> prepare_input \<Rightarrow> string \<Rightarrow> VKHashEntry list \<Rightarrow> nat \<Rightarrow> string list \<Rightarrow>
     VKHashEntry list \<Rightarrow> App \<Rightarrow> ((app_error + string list) + string list) \<times> App" where
  "preflight E now inp name fb k invalid [] a = (Inr invalid, a)"
| "preflight E now inp name fb k invalid (c # cs) a =
     (if expired_before inp k then (Inr invalid, a)
      else
        case checkVKHashCoordinated E (now div 10 ^ 6) (ID c) name (check_at inp k) a of
          (Inl e, a) \<Rightarrow> if e = Canceled then (Inr invalid, a) else (Inl (Inl e), a)
        | (Inr ch, a) \<Rightarrow>
            if Status ch = ''valid'' then (Inl (Inr [Hash c]), a)
            else if Status ch = ''error''
            then (Inl (Inr (hashesFromEntries (not_invalid invalid fb))), a)
            else if Status ch = ''invalid''
            then preflight E now inp name fb (k + 1) (ID c # invalid) cs a
            else preflight E now inp name fb (k + 1) invalid cs a)"

definition maxAutoReplacements :: nat where "maxAutoReplacements = 2"

text \<open>The replacement loop: the new hash if one succeeds, else the last error.\<close>

fun replacements ::
    "app_env \<Rightarrow> int \<Rightarrow> prepare_input \<Rightarrow> string \<Rightarrow> string list \<Rightarrow> string list \<Rightarrow> app_error option \<Rightarrow>
     VKHashEntry list \<Rightarrow> App \<Rightarrow> (app_error option + string) \<times> App \<times> string list" where
  "replacements E now inp name invalid tried err [] a = (Inl err, a, tried)"
| "replacements E now inp name invalid tried err (c # cs) a =
     (if ID c \<notin> set invalid \<or> maxAutoReplacements \<le> length tried
      then replacements E now inp name invalid tried err cs a
      else if replace_expired inp (length tried) then (Inl err, a, tried)
      else
        case replaceVKHashWithContext E (now div 10 ^ 6) (ID c) name (replace_at inp (length tried)) a of
          (Inr new, a) \<Rightarrow> (Inr (Hash new), a, tried @ [ID c])
        | (Inl e, a) \<Rightarrow> replacements E now inp name invalid (tried @ [ID c]) (Some e) cs a)"

definition after_preflight ::
    "app_env \<Rightarrow> int \<Rightarrow> prepare_input \<Rightarrow> string \<Rightarrow> VKHashPolicy \<Rightarrow> VKHashEntry list \<Rightarrow>
     VKHashEntry list \<Rightarrow> string list \<Rightarrow> App \<Rightarrow> (app_error + string list) \<times> App \<times> string list" where
  "after_preflight E now inp name policy cs fb invalid a =
     (if parent_canceled inp then (Inl ConnectCanceled, a, [])
      else if not_invalid invalid fb \<noteq> []
      then (Inr (hashesFromEntries (not_invalid invalid fb)), a, [])
      else
        let (res, a, tried) =
          (if AutoReplace policy then replacements E now inp name invalid [] None cs a
           else (Inl None, a, []))
        in case res of
            Inr new \<Rightarrow> (Inr [new], a, tried)
          | Inl err \<Rightarrow>
              (Inl (if parent_canceled_end inp then ConnectCanceled
                else if timed_out_end inp then PreflightTimeout
                else if err \<noteq> None then ReplacementFailed
                else NoWorkingHash), a, tried))"

definition choose_hashes ::
    "app_env \<Rightarrow> int \<Rightarrow> prepare_input \<Rightarrow> string \<Rightarrow> VKHashPolicy \<Rightarrow> VKHashEntry list \<Rightarrow> App \<Rightarrow>
     (app_error + string list) \<times> App \<times> string list" where
  "choose_hashes E now inp name policy cs a =
     (let s = sort_candidates a name now cs in
      if freshValid s \<noteq> [] then (Inr (uniqueVKHashes (freshValid s)), a, [])
      else if list_ex (recent_error a name now) (fallback s)
      then (Inr (hashesFromEntries (fallback s)), a, [])
      else
        case preflight E now inp name (fallback s) 0 (confirmedInvalid s) (stale s) a of
          (Inl res, a) \<Rightarrow> (res, a, [])
        | (Inr invalid, a) \<Rightarrow> after_preflight E now inp name policy cs (fallback s) invalid a)"

record ConnectParams =
  connect_peer :: string
  connect_password :: string
  connect_hashes :: "string list"
  ProfileName :: string
  HashMode :: string
  HashAutoCheck :: bool
  HashAutoReplace :: bool

definition prepareVKHashes ::
    "app_env \<Rightarrow> int \<Rightarrow> prepare_input \<Rightarrow> ConnectParams \<Rightarrow> App \<Rightarrow>
     (app_error + string list) \<times> App \<times> string list" where
  "prepareVKHashes E now inp params a =
     (case normalizeVKHashList (url_parse E) (connect_hashes params) of
        Inl e \<Rightarrow> (Inl (HashError e), a, [])
      | Inr localHashes \<Rightarrow>
          let policy = hashPolicyFrom (HashMode params) (HashAutoCheck params) (HashAutoReplace params);
              anonymous = (trim_space (ProfileName params) = []);
              (synced, a) =
                (if anonymous then (Inr (), a)
                 else SyncProfileVKSettings E (now div 10 ^ 6) (ProfileName params) (connect_peer params)
                   (connect_password params) localHashes (Mode policy) (AutoCheck policy)
                   (AutoReplace policy) a)
          in case synced of
              Inl e \<Rightarrow> (Inl e, a, [])
            | Inr _ \<Rightarrow>
                (case candidateVKHashes E (now div 10 ^ 6) localHashes (Mode policy) a of
                   (Inl e, a) \<Rightarrow> (Inl e, a, [])
                 | (Inr cs, a) \<Rightarrow>
                     if cs = [] then (Inl NoCandidates, a, [])
                     else if \<not> AutoCheck policy \<or> anonymous then (Inr (hashesFromEntries cs), a, [])
                     else choose_hashes E now inp (ProfileName params) policy cs a))"

section \<open>Candidates\<close>

lemma ensure_result:
  assumes "ensureVKHashEntry E now raw src b (r, n) = (Inr (e, created), r', n')"
  shows "(ID e, Hash e) \<in> set (keys r') \<and> (\<not> created \<longrightarrow> keys r' = keys r)"
proof (cases "normalizeVKCallHash (url_parse E) raw")
  case (Inr h)
  show ?thesis
  proof (cases "findVKHashByValue r h")
    case None
    then show ?thesis
      using assms Inr by (auto simp: ensureVKHashEntry_def Let_def keys_def)
  next
    case (Some i)
    then have i: "i < length r"
      by (auto simp: findVKHashByValue_def dest: index_of_Some)
    have k: "keys r' = keys r" "(ID e, Hash e) = (ID (r ! i), Hash (r ! i))"
      using assms Inr Some by (auto simp: ensureVKHashEntry_def Let_def keys_update)
    moreover have "(ID (r ! i), Hash (r ! i)) \<in> set (keys r)"
      using i by (auto simp: keys_def)
    ultimately show ?thesis
      by simp
  qed
qed (use assms in \<open>simp add: ensureVKHashEntry_def\<close>)

lemma ensure_local_result:
  "ensure_local E now hs (r, n) = (Inr (local, changed), r', n') \<Longrightarrow>
   (\<forall>e \<in> set local. (ID e, Hash e) \<in> set (keys r')) \<and> (\<not> changed \<longrightarrow> keys r' = keys r)"
proof (induction hs arbitrary: local changed r' n' rule: rev_induct)
  case (snoc h hs)
  obtain res1 r1 n1 where l: "ensure_local E now hs (r, n) = (res1, r1, n1)"
    by (metis prod.exhaust)
  show ?case
  proof (cases res1)
    case (Inr lc)
    obtain local1 changed1 where lc: "lc = (local1, changed1)"
      by (metis prod.exhaust)
    obtain res2 r2 n2 where e: "ensureVKHashEntry E now h ''manual'' False (r1, n1) = (res2, r2, n2)"
      by (metis prod.exhaust)
    then obtain e created where "res2 = Inr (e, created)" and eq: "r' = r2" "local = local1 @ [e]"
      "changed = (changed1 \<or> created)"
      using l snoc.prems Inr lc by (auto simp: ensure_local_def split: sum.splits prod.splits)
    then show ?thesis
      using snoc.IH [OF l [unfolded Inr lc]] ensure_result [of E now h "''manual''" False r1 n1 e created r2 n2]
        ensure_keys [OF e] e by auto
  qed (use l snoc.prems in \<open>auto simp: ensure_local_def\<close>)
qed (simp add: ensure_local_def)

lemma entry_key_fold:
  assumes "set seen = Hash ` set res" and "distinct (map Hash res)" and "set res \<subseteq> A"
  shows "set (fst (fold entry_key es (seen, res))) = Hash ` set (snd (fold entry_key es (seen, res))) \<and>
    distinct (map Hash (snd (fold entry_key es (seen, res)))) \<and>
    set (snd (fold entry_key es (seen, res))) \<subseteq> A \<union> set es"
  using assms
proof (induction es arbitrary: seen res A)
  case (Cons e es)
  show ?case
  proof (cases "Hash e \<in> set seen")
    case True
    then show ?thesis
      using Cons.IH [OF Cons.prems] by (auto simp: entry_key_def)
  next
    case False
    then have "set (Hash e # seen) = Hash ` set (res @ [e])" "distinct (map Hash (res @ [e]))"
      "set (res @ [e]) \<subseteq> A \<union> {e}"
      using Cons.prems by auto
    from Cons.IH [OF this] show ?thesis
      using False by (auto simp: entry_key_def)
  qed
qed simp

lemma select_candidates:
  "distinct (map Hash (selectVKHashCandidates local pool mode)) \<and>
   set (selectVKHashCandidates local pool mode) \<subseteq> set local \<union> set pool"
proof -
  define m where "m = normalizeVKHashMode mode"
  define sr where "sr = (if m \<noteq> vkHashModePool then fold entry_key local ([], []) else ([], []))"
  have 1: "set (fst sr) = Hash ` set (snd sr) \<and> distinct (map Hash (snd sr)) \<and> set (snd sr) \<subseteq> set local"
    using entry_key_fold [of "[]" "[]" "{}" local] by (simp add: sr_def)
  have "selectVKHashCandidates local pool mode =
      snd (if m \<noteq> vkHashModeLocal then fold entry_key pool (fst sr, snd sr) else sr)"
    by (simp add: selectVKHashCandidates_def Let_def m_def sr_def)
  then show ?thesis
    using 1 entry_key_fold [of "fst sr" "snd sr" "set local" pool] by auto
qed

text \<open>The candidates are entries of the registry, each with an identifier of its own.\<close>

lemma candidates_in_registry:
  assumes u: "uuids_ok (os E)" and a: "app_ok E a"
    and c: "candidateVKHashes E now hs mode a = (Inr cs, a')"
  shows "distinct (map ID cs) \<and> distinct (map Hash cs) \<and> (\<forall>c \<in> set cs. has_key a' (ID c, Hash c))"
proof -
  obtain r where r: "loadVKHashRegistry a = Inr r"
    using c by (auto simp: candidateVKHashes_def split: sum.splits)
  obtain res r' n where l: "ensure_local E now hs (r, drawn (store a)) = (res, r', n)"
    by (metis prod.exhaust)
  then obtain local changed where res: "res = Inr (local, changed)"
    and cs: "cs = selectVKHashCandidates local (filter InPool r') mode"
    using c r by (auto simp: candidateVKHashes_def Let_def split: sum.splits prod.splits if_splits)
  have a': "loadVKHashRegistry a' = Inr r' \<or> \<not> changed \<and> loadVKHashRegistry a' = Inr r"
    using c r l res
    by (auto simp: candidateVKHashes_def Let_def saveVKHashRegistry_def loadVKHashRegistry_def set_drawn_def
        split: if_splits sum.splits prod.splits)
  note el = ensure_local_result [OF l [unfolded res]]
  have k: "(ID c, Hash c) \<in> set (keys r')" if "c \<in> set cs" for c
    using that el select_candidates [of local "filter InPool r'" mode] by (auto simp: cs keys_def)
  have h: "distinct (map Hash cs)"
    using select_candidates by (simp add: cs)
  have d: "distinct (map fst (keys r'))"
    using ensure_local_ok [OF u l loaded_ok [OF a r]] by (simp add: registry_ok_def)
  have "inj_on ID (set cs)"
  proof (rule inj_onI)
    fix x y assume xy: "x \<in> set cs" "y \<in> set cs" "ID x = ID y"
    then have "Hash x = Hash y"
      using eq_key_imp_eq_value [OF d k [OF xy(1)], of "Hash y"] k [OF xy(2)] xy(3) by simp
    then show "x = y"
      using h xy by (auto simp: distinct_map dest: inj_onD)
  qed
  then have "distinct (map ID cs)"
    using h by (simp add: distinct_map)
  moreover have "has_key a' (ID c, Hash c)" if "c \<in> set cs" for c
    using k [OF that] a' el by (auto simp: has_key_def)
  ultimately show ?thesis
    using h by blast
qed

section \<open>No hash known to be invalid\<close>

definition fresh_invalid :: "App \<Rightarrow> string \<Rightarrow> int \<Rightarrow> string \<Rightarrow> bool" where
  "fresh_invalid a name now i \<longleftrightarrow>
     (case storedVKHashCheck i name a of
        None \<Rightarrow> False
      | Some check \<Rightarrow> isVKHashCheckFresh check now \<and> Status check = ''invalid'')"

lemma sort_candidate_step:
  "sort_candidate a name now c s =
     (let inv = fresh_invalid a name now (ID c);
          valid = (\<exists>ch. storedVKHashCheck (ID c) name a = Some ch \<and> isVKHashCheckFresh ch now \<and> Status ch = ''valid'');
          err = recent_error a name now c
      in \<lparr>freshValid = freshValid s @ (if valid then [Hash c] else []),
          fallback = fallback s @ (if inv then [] else [c]),
          stale = stale s @ (if inv \<or> valid \<or> err then [] else [c]),
          confirmedInvalid = (if inv then ID c # confirmedInvalid s else confirmedInvalid s)\<rparr>)"
  by (cases "storedVKHashCheck (ID c) name a")
    (auto simp: sort_candidate_def fresh_invalid_def recent_error_def Let_def)

text \<open>What sorting gives, as filters of the candidates.\<close>

lemma sort_candidates_result:
  "fallback (sort_candidates a name now cs) = filter (\<lambda>c. \<not> fresh_invalid a name now (ID c)) cs"
  "set (confirmedInvalid (sort_candidates a name now cs)) = {ID c |c. c \<in> set cs \<and> fresh_invalid a name now (ID c)}"
  "set (freshValid (sort_candidates a name now cs)) \<subseteq>
     Hash ` set (filter (\<lambda>c. \<not> fresh_invalid a name now (ID c)) cs)"
  "\<exists>p. stale (sort_candidates a name now cs) = filter p (fallback (sort_candidates a name now cs))"
proof -
  define z where "z = \<lparr>freshValid = [], fallback = [], stale = [], confirmedInvalid = []\<rparr>"
  define p where "p = (\<lambda>c. \<not> (\<exists>ch. storedVKHashCheck (ID c) name a = Some ch \<and> isVKHashCheckFresh ch now \<and>
      Status ch = ''valid'') \<and> \<not> recent_error a name now c)"
  have "fallback (fold (sort_candidate a name now) cs z) = filter (\<lambda>c. \<not> fresh_invalid a name now (ID c)) cs \<and>
    set (confirmedInvalid (fold (sort_candidate a name now) cs z)) =
      {ID c |c. c \<in> set cs \<and> fresh_invalid a name now (ID c)} \<and>
    set (freshValid (fold (sort_candidate a name now) cs z)) \<subseteq>
      Hash ` set (filter (\<lambda>c. \<not> fresh_invalid a name now (ID c)) cs) \<and>
    stale (fold (sort_candidate a name now) cs z) =
      filter p (filter (\<lambda>c. \<not> fresh_invalid a name now (ID c)) cs)"
  proof (induction cs rule: rev_induct)
    case (snoc c cs)
    have "\<not> fresh_invalid a name now (ID c)"
      if "storedVKHashCheck (ID c) name a = Some ch" "Status ch = ''valid''" for ch
      using that by (simp add: fresh_invalid_def)
    then show ?case
      using snoc by (auto simp: sort_candidate_step Let_def p_def)
  qed (simp add: z_def)
  then show "fallback (sort_candidates a name now cs) = filter (\<lambda>c. \<not> fresh_invalid a name now (ID c)) cs"
    "set (confirmedInvalid (sort_candidates a name now cs)) = {ID c |c. c \<in> set cs \<and> fresh_invalid a name now (ID c)}"
    "set (freshValid (sort_candidates a name now cs)) \<subseteq>
       Hash ` set (filter (\<lambda>c. \<not> fresh_invalid a name now (ID c)) cs)"
    "\<exists>p. stale (sort_candidates a name now cs) = filter p (fallback (sort_candidates a name now cs))"
    by (auto simp: sort_candidates_def z_def)
qed

text \<open>A check changes only what is stored for its own entry.\<close>

lemma stored_store [simp]: "storedVKHashCheck i m (a\<lparr>store := s\<rparr>) = storedVKHashCheck i m a"
  by (simp add: storedVKHashCheck_def loadVKHashRegistry_def)

lemma index_of_update:
  assumes "\<And>x. x = xs ! k \<Longrightarrow> p e = p x"
  shows "index_of p (xs[k := e]) = index_of p xs"
  using assms by (induction xs arbitrary: k) (auto split: nat.split)

lemma stored_record_check:
  assumes "record_check E i n c a = (Inr (), a')"
  shows "storedVKHashCheck j m a' = storedVKHashCheck j m a \<or>
    j = i \<and> m = n \<and> storedVKHashCheck j m a' = Some c"
proof (cases "loadVKHashRegistry a")
  case (Inr r)
  show ?thesis
  proof (cases "findVKHashByID r i")
    case (Some k)
    define e where "e = (r ! k)\<lparr>Checks := AList.update n c (Checks (r ! k))\<rparr>"
    have a': "loadVKHashRegistry a' = Inr (r[k := e])"
      using assms Inr Some
      by (auto simp: record_check_def saveVKHashRegistry_def loadVKHashRegistry_def e_def split: if_splits)
    have k: "k < length r" "ID (r ! k) = i"
      using Some by (auto simp: findVKHashByID_def dest: index_of_Some)
    have f: "findVKHashByID (r[k := e]) j = findVKHashByID r j"
      unfolding findVKHashByID_def by (rule index_of_update) (simp add: e_def)
    show ?thesis
    proof (cases "findVKHashByID r j")
      case j: (Some l)
      then have "ID (r ! l) = j"
        by (auto simp: findVKHashByID_def dest: index_of_Some)
      then show ?thesis
        using a' Inr f j k by (auto simp: storedVKHashCheck_def e_def AList.update_conv' nth_list_update)
    qed (use a' Inr f in \<open>simp add: storedVKHashCheck_def\<close>)
  qed (use assms Inr in \<open>auto simp: record_check_def\<close>)
qed (use assms in \<open>auto simp: record_check_def\<close>)

lemma stored_check:
  assumes "checkVKHashCoordinated E t i n oc a = (Inr c, a')"
  shows "storedVKHashCheck j m a' = storedVKHashCheck j m a \<or>
    j = i \<and> storedVKHashCheck j m a' = Some c"
proof -
  have "record_check E i n' c (a\<lparr>store := s\<rparr>) = (Inr (), a') \<or> (\<exists>s. a' = a\<lparr>store := s\<rparr>)"
    if "checkVKHashProbe E t i n' running pr a = (Inr c, a')"
      "s = snd (LoadSettings (os E) (snd (LoadProfile (os E) n' (store a))))" for n' running pr s
    using that by (auto simp: checkVKHashProbe_def Let_def split: if_splits sum.splits prod.splits)
  then show ?thesis
    using assms stored_record_check [of E i _ c "a\<lparr>store := s\<rparr>" a' j m for s]
    by (fastforce simp: checkVKHashCoordinated_def Let_def split: if_splits check_outcome.splits)
qed

lemma failed_check_stored:
  assumes "checkVKHashCoordinated E t i n oc a = (Inl e, a')"
  shows "storedVKHashCheck j m a' = storedVKHashCheck j m a"
proof -
  have r: "storedVKHashCheck j m b' = storedVKHashCheck j m b" if "record_check E i n' c b = (Inl e', b')" for n' c b b' e'
    using that by (auto simp: record_check_def saveVKHashRegistry_def split: sum.splits option.splits if_splits)
  have "storedVKHashCheck j m a' = storedVKHashCheck j m a"
    if "checkVKHashProbe E t i n' running pr a = (Inl e, a')" for n' running pr
    using that by (auto simp: checkVKHashProbe_def Let_def dest!: r split: if_splits sum.splits prod.splits)
  then show ?thesis
    using assms by (auto simp: checkVKHashCoordinated_def Let_def split: if_splits check_outcome.splits)
qed

lemma set_unique [simp]: "set (uniqueVKHashes xs) = set xs"
  using uniq.set_filt [of xs] by auto

lemma set_hashesFromEntries [simp]: "set (hashesFromEntries es) = Hash ` set es"
  by (simp add: hashesFromEntries_def)

lemma distinct_hashes [simp]: "distinct (uniqueVKHashes xs)" "distinct (hashesFromEntries es)"
  using uniq.distinct_filt by (simp_all add: hashesFromEntries_def)

lemma hashes_nonempty [simp]: "uniqueVKHashes xs = [] \<longleftrightarrow> xs = []" "hashesFromEntries es = [] \<longleftrightarrow> es = []"
  using set_unique [of xs] set_hashesFromEntries [of es] by (auto simp del: set_unique set_hashesFromEntries)

text \<open>A good answer: hashes of entries that are not known to be invalid.\<close>

definition good_answer :: "App \<Rightarrow> string \<Rightarrow> int \<Rightarrow> VKHashEntry list \<Rightarrow> string list \<Rightarrow> bool" where
  "good_answer a name now cs hs \<longleftrightarrow>
     hs \<noteq> [] \<and> distinct hs \<and>
     (\<forall>h \<in> set hs. \<exists>c \<in> set cs. Hash c = h \<and> \<not> fresh_invalid a name now (ID c))"

definition invalid_known :: "App \<Rightarrow> string \<Rightarrow> int \<Rightarrow> VKHashEntry list \<Rightarrow> string list \<Rightarrow> bool" where
  "invalid_known a name now fb invalid \<longleftrightarrow>
     (\<forall>c \<in> set fb. ID c \<notin> set invalid \<longrightarrow> \<not> fresh_invalid a name now (ID c))"

lemma not_invalid_good:
  "invalid_known a name now fb invalid \<Longrightarrow> not_invalid invalid fb \<noteq> [] \<Longrightarrow>
   good_answer a name now fb (hashesFromEntries (not_invalid invalid fb))"
  by (auto simp: good_answer_def invalid_known_def not_invalid_def)

lemma check_keeps_known:
  assumes "invalid_known a name now fb invalid" and "c \<in> set fb" and "ID c \<notin> set invalid"
    and "checkVKHashCoordinated E t (ID c) name oc a = (Inr ch, a')"
  shows "invalid_known a' name now fb (if Status ch = ''invalid'' then ID c # invalid else invalid)"
  unfolding invalid_known_def
proof (intro ballI impI)
  fix d assume d: "d \<in> set fb" "ID d \<notin> set (if Status ch = ''invalid'' then ID c # invalid else invalid)"
  then have "\<not> fresh_invalid a name now (ID d)" "ID d = ID c \<longrightarrow> Status ch \<noteq> ''invalid''"
    using assms(1) by (auto simp: invalid_known_def split: if_splits)
  then show "\<not> fresh_invalid a' name now (ID d)"
    using stored_check [OF assms(4), of "ID d" name] by (auto simp: fresh_invalid_def)
qed

lemma preflight_good:
  assumes "preflight E now inp name fb k invalid cs a = (r, a')"
    and "invalid_known a name now fb invalid" and "set cs \<subseteq> set fb" and "distinct (map ID cs)"
    and "\<forall>c \<in> set cs. ID c \<notin> set invalid"
  shows "(\<forall>hs. r = Inl (Inr hs) \<longrightarrow> good_answer a' name now fb hs) \<and>
    (\<forall>invalid'. r = Inr invalid' \<longrightarrow> invalid_known a' name now fb invalid')"
  using assms
proof (induction E now inp name fb k invalid cs a rule: preflight.induct)
  case (2 E now inp name fb k invalid c cs a)
  show ?case
  proof (cases "expired_before inp k")
    case True
    then show ?thesis
      using 2(3,4) by auto
  next
    case False
    note ex = False
    obtain res a1 where ch: "checkVKHashCoordinated E (now div 10 ^ 6) (ID c) name (check_at inp k) a = (res, a1)"
      by (metis prod.exhaust)
    show ?thesis
    proof (cases res)
      case (Inl e)
      have "invalid_known a1 name now fb invalid"
        using 2(4) failed_check_stored [OF ch [unfolded Inl]]
        by (simp add: invalid_known_def fresh_invalid_def)
      then show ?thesis
        using 2(3) ex ch Inl by (auto split: if_splits)
    next
      case (Inr v)
      have c: "c \<in> set fb" "ID c \<notin> set invalid"
        using 2(5,7) by auto
      note known = check_keeps_known [OF 2(4) c ch [unfolded Inr]]
      have rest: "set cs \<subseteq> set fb" "distinct (map ID cs)"
        "\<forall>d \<in> set cs. ID d \<notin> set (if Status v = ''invalid'' then ID c # invalid else invalid)"
        using 2(5,6,7) by (auto simp: image_iff)
      consider (valid) "Status v = ''valid''" | (error) "Status v = ''error''"
        | (invalid) "Status v = ''invalid''"
        | (other) "Status v \<noteq> ''valid''" "Status v \<noteq> ''error''" "Status v \<noteq> ''invalid''"
        by blast
      then show ?thesis
      proof cases
        case valid
        then have "good_answer a1 name now fb [Hash c]"
          using known c by (auto simp: good_answer_def invalid_known_def)
        then show ?thesis
          using 2(3) ex ch Inr valid by auto
      next
        case error
        have "c \<in> set (not_invalid invalid fb)"
          using c by (simp add: not_invalid_def)
        then have "good_answer a1 name now fb (hashesFromEntries (not_invalid invalid fb))"
          using known error by (intro not_invalid_good) auto
        then show ?thesis
          using 2(3) ex ch Inr error by auto
      next
        case invalid
        then have "preflight E now inp name fb (k + 1) (ID c # invalid) cs a1 = (r, a')"
          using 2(3) ex ch Inr by simp
        then show ?thesis
          using 2(1) [OF ex _ Inr _ _ invalid] ch Inr invalid known rest by simp
      next
        case other
        then have "preflight E now inp name fb (k + 1) invalid cs a1 = (r, a')"
          using 2(3) ex ch Inr by simp
        then show ?thesis
          using 2(2) [OF ex _ Inr other] ch Inr other known rest by simp
      qed
    qed
  qed
qed auto

lemma preflight_has_key:
  "preflight E now inp name fb k invalid cs a = (r, a') \<Longrightarrow> has_key a x \<Longrightarrow> has_key a' x"
proof (induction E now inp name fb k invalid cs a rule: preflight.induct)
  case (2 E now inp name fb k invalid c cs a)
  obtain res a1 where ch: "checkVKHashCoordinated E (now div 10 ^ 6) (ID c) name (check_at inp k) a = (res, a1)"
    by (metis prod.exhaust)
  then have "has_key a1 x"
    using check_has_key [OF 2(4), of E "now div 10 ^ 6" "ID c" name "check_at inp k"] by simp
  then show ?case
    using 2 ch by (auto split: if_splits sum.splits)
qed auto

lemma replacements_bound:
  "replacements E now inp name invalid tried err cs a = (r, a', tried') \<Longrightarrow>
   length tried \<le> 2 \<Longrightarrow> length tried' \<le> 2 \<and> (\<forall>new. r = Inr new \<longrightarrow> tried' \<noteq> [])"
  by (induction E now inp name invalid tried err cs a rule: replacements.induct)
    (auto simp: maxAutoReplacements_def split: if_splits sum.splits prod.splits)

lemma choose_hashes_tried:
  "choose_hashes E now inp name policy cs a = (res, a', tried) \<Longrightarrow>
   length tried \<le> 2 \<and> (tried \<noteq> [] \<longrightarrow> AutoReplace policy)"
  by (auto simp: choose_hashes_def after_preflight_def Let_def dest: replacements_bound
      split: if_splits sum.splits prod.splits)

lemma good_answer_subset:
  "good_answer a name now fb hs \<Longrightarrow> set fb \<subseteq> set cs \<Longrightarrow> good_answer a name now cs hs"
  unfolding good_answer_def by blast

lemma choose_hashes_good:
  assumes r: "choose_hashes E now inp name policy cs a = (Inr hs, a', [])"
    and d: "distinct (map ID cs)"
  shows "good_answer a' name now cs hs \<and> (\<forall>x. has_key a x \<longrightarrow> has_key a' x)"
proof -
  define s where "s = sort_candidates a name now cs"
  note sorted = sort_candidates_result [of a name now cs, folded s_def]
  have fb: "set (fallback s) \<subseteq> set cs" "\<forall>c \<in> set (fallback s). \<not> fresh_invalid a name now (ID c)"
    using sorted(1) by auto
  show ?thesis
  proof (cases "freshValid s \<noteq> [] \<or> list_ex (recent_error a name now) (fallback s)")
    case True
    then have "a' = a \<and> (freshValid s \<noteq> [] \<and> hs = uniqueVKHashes (freshValid s) \<or>
        list_ex (recent_error a name now) (fallback s) \<and> hs = hashesFromEntries (fallback s))"
      using r by (auto simp: choose_hashes_def s_def [symmetric] Let_def split: if_splits)
    moreover have "good_answer a name now cs (uniqueVKHashes (freshValid s))" if "freshValid s \<noteq> []"
      using that sorted(3) unfolding good_answer_def by (auto simp: subset_iff image_iff)
    moreover have "good_answer a name now cs (hashesFromEntries (fallback s))"
      if "list_ex (recent_error a name now) (fallback s)"
      using that fb unfolding good_answer_def by (auto simp: list_ex_iff)
    ultimately show ?thesis
      by blast
  next
    case False
    obtain pr a1 where p: "preflight E now inp name (fallback s) 0 (confirmedInvalid s) (stale s) a = (pr, a1)"
      by (metis prod.exhaust)
    obtain q where q: "stale s = filter q (fallback s)"
      using sorted(4) by blast
    have "invalid_known a name now (fallback s) (confirmedInvalid s)"
      using fb by (simp add: invalid_known_def)
    moreover have "set (stale s) \<subseteq> set (fallback s)"
      using q by auto
    moreover have "distinct (map ID (stale s))"
      using d q sorted(1) by (simp add: distinct_map_filter)
    moreover have "\<forall>c \<in> set (stale s). ID c \<notin> set (confirmedInvalid s)"
    proof
      fix c assume "c \<in> set (stale s)"
      then have "\<not> fresh_invalid a name now (ID c)"
        using q fb(2) by auto
      then show "ID c \<notin> set (confirmedInvalid s)"
        unfolding sorted(2) by auto
    qed
    ultimately have g: "(\<forall>hs. pr = Inl (Inr hs) \<longrightarrow> good_answer a1 name now (fallback s) hs) \<and>
        (\<forall>invalid'. pr = Inr invalid' \<longrightarrow> invalid_known a1 name now (fallback s) invalid')"
      by (rule preflight_good [OF p])
    have k: "has_key a x \<Longrightarrow> has_key a1 x" for x
      using preflight_has_key [OF p] .
    show ?thesis
    proof (cases pr)
      case (Inl res)
      then have "res = Inr hs" "a' = a1"
        using r p False by (auto simp: choose_hashes_def s_def [symmetric] Let_def)
      then show ?thesis
        using g Inl k good_answer_subset [OF _ fb(1)] by auto
    next
      case (Inr invalid)
      have ap: "after_preflight E now inp name policy cs (fallback s) invalid a1 = (Inr hs, a', [])"
        using r p False Inr by (auto simp: choose_hashes_def s_def [symmetric] Let_def)
      have "not_invalid invalid (fallback s) \<noteq> [] \<and>
          hs = hashesFromEntries (not_invalid invalid (fallback s)) \<and> a' = a1"
        using ap by (auto simp: after_preflight_def Let_def dest: replacements_bound
            split: if_splits sum.splits prod.splits)
      then show ?thesis
        using g Inr k not_invalid_good good_answer_subset [OF _ fb(1)] by auto
    qed
  qed
qed

section \<open>The answer to a connection\<close>

lemma SyncProfile_state_ok:
  assumes "uuids_ok (os E)" and "app_ok E a"
    and "SyncProfileVKSettings E now name peer pw hs mode ac ar a = (r, a')"
  shows "app_ok E a'"
  using SyncProfile_ok [OF assms(1,2), of now name peer pw hs mode ac ar] assms(3) by simp

lemma prepare_cases:
  assumes u: "uuids_ok (os E)" and a: "app_ok E a"
    and p: "prepareVKHashes E now inp params a = (res, a', tried)"
  obtains (failed) e where "res = Inl e" and "tried = []"
  | (chosen) cs a1 where "cs \<noteq> []" and "distinct (map ID cs)" and "\<forall>c \<in> set cs. has_key a1 (ID c, Hash c)"
      and "res = Inr (hashesFromEntries cs)" and "a' = a1" and "tried = []"
      and "\<not> AutoCheck (hashPolicyFrom (HashMode params) (HashAutoCheck params) (HashAutoReplace params)) \<or>
        trim_space (ProfileName params) = []"
  | (checked) cs a1 where "distinct (map ID cs)" and "\<forall>c \<in> set cs. has_key a1 (ID c, Hash c)"
      and "choose_hashes E now inp (ProfileName params)
        (hashPolicyFrom (HashMode params) (HashAutoCheck params) (HashAutoReplace params)) cs a1 = (res, a', tried)"
proof (cases "normalizeVKHashList (url_parse E) (connect_hashes params)")
  case (Inl e)
  then show ?thesis
    using p by (intro failed) (auto simp: prepareVKHashes_def)
next
  case (Inr hs)
  define ms where "ms = now div 10 ^ 6"
  define policy where "policy = hashPolicyFrom (HashMode params) (HashAutoCheck params) (HashAutoReplace params)"
  define anonymous where "anonymous = (trim_space (ProfileName params) = [])"
  obtain synced a0 where s: "(if anonymous then (Inr (), a)
      else SyncProfileVKSettings E ms (ProfileName params) (connect_peer params)
        (connect_password params) hs (Mode policy) (AutoCheck policy) (AutoReplace policy) a) = (synced, a0)"
    by (metis prod.exhaust)
  have a0: "app_ok E a0"
    using s a SyncProfile_state_ok [OF u a] by (auto split: if_splits)
  obtain cands a1 where c: "candidateVKHashes E ms hs (Mode policy) a0 = (cands, a1)"
    by (metis prod.exhaust)
  have P: "prepareVKHashes E now inp params a =
      (case synced of Inl e \<Rightarrow> (Inl e, a0, [])
       | Inr _ \<Rightarrow>
           (case cands of
              Inl e \<Rightarrow> (Inl e, a1, [])
            | Inr cs \<Rightarrow>
                if cs = [] then (Inl NoCandidates, a1, [])
                else if \<not> AutoCheck policy \<or> anonymous then (Inr (hashesFromEntries cs), a1, [])
                else choose_hashes E now inp (ProfileName params) policy cs a1))"
    using Inr s c unfolding prepareVKHashes_def Let_def ms_def [symmetric] policy_def [symmetric] anonymous_def [symmetric]
    by (simp add: s split: sum.split)
  show ?thesis
  proof (cases "\<exists>e. res = Inl e \<and> tried = []")
    case True
    then show ?thesis
      by (auto intro: failed)
  next
    case False
    then obtain cs where cs: "cands = Inr cs" and ne: "cs \<noteq> []" and sy: "\<exists>x. synced = Inr x"
      using P p by (auto split: sum.splits if_splits)
    note reg = candidates_in_registry [OF u a0 c [unfolded cs]]
    show ?thesis
    proof (cases "\<not> AutoCheck policy \<or> anonymous")
      case True
      then show ?thesis
        using P p cs ne sy reg
        by (intro chosen [of cs a1]) (auto simp: policy_def anonymous_def)
    next
      case False
      then show ?thesis
        using P p cs ne sy reg
        by (intro checked [of cs a1]) (auto simp: policy_def)
    qed
  qed
qed


text \<open>
  Two hashes of the server \<open>a\<close>: a stored check says that the first is invalid. The deadline has passed
  before any probe, so the answer rests on what is stored.
\<close>

definition invalid_check :: VKHashCheck where
  "invalid_check = \<lparr>Status = ''invalid'', CheckedAt = 1, ErrorType = [], Message = [], LatencyMs = 1\<rparr>"

definition first_entry :: VKHashEntry where
  "first_entry = example_entry\<lparr>Checks := [(''a'', invalid_check)]\<rparr>"

definition second_entry :: VKHashEntry where
  "second_entry = example_entry\<lparr>ID := ''#a'', Hash := ''BBBBBBBBBBBBBBBB''\<rparr>"

definition checked_app :: App where
  "checked_app = \<lparr>store = \<lparr>disk = [], recoveryNotices = [], drawn = 2\<rparr>,
     registry_file = RegistryOf [first_entry, second_entry]\<rparr>"

definition example_params :: ConnectParams where
  "example_params = \<lparr>connect_peer = ''h:1'', connect_password = ''p'',
     connect_hashes = [''AAAAAAAAAAAAAAAA'', ''BBBBBBBBBBBBBBBB''],
     ProfileName = ''a'', HashMode = ''local'', HashAutoCheck = True, HashAutoReplace = True\<rparr>"

definition example_input :: prepare_input where
  "example_input = \<lparr>expired_before = (\<lambda>k. True), check_at = (\<lambda>k. WaitFailed Canceled), parent_canceled = False,
     replace_expired = (\<lambda>k. True),
     replace_at = (\<lambda>k. \<lparr>cancelled_first = True, cancelled_generated = True, cancelled_checked = True,
       generated = Inr [], checked = WaitFailed Canceled\<rparr>),
     parent_canceled_end = False, timed_out_end = True\<rparr>"

lemma second_hash_ok: "hash_ok ''BBBBBBBBBBBBBBBB''"
  by code_simp

lemma checked_app_ok: "app_ok example_app_env checked_app"
proof -
  have "\<exists>k < 2. ''#'' = uuid example_env k" "\<exists>k < 2. ''#a'' = uuid example_env k"
    by (rule exI [of _ 0], simp add: example_env_def) (rule exI [of _ 1], simp add: example_env_def)
  then show ?thesis
    using example_hash_ok second_hash_ok
    by (auto simp: app_ok_def loadVKHashRegistry_def checked_app_def registry_ok_def keys_def first_entry_def
        second_entry_def example_entry_def example_app_env_def)
qed

lemma example_normalized:
  "normalizeVKCallHash up ''AAAAAAAAAAAAAAAA'' = Inr ''AAAAAAAAAAAAAAAA''"
  "normalizeVKCallHash up ''BBBBBBBBBBBBBBBB'' = Inr ''BBBBBBBBBBBBBBBB''"
  using normalizeVKCallHash_hash [OF example_hash_ok] normalizeVKCallHash_hash [OF second_hash_ok] by simp_all

lemma example_list:
  "normalizeVKHashList up [''AAAAAAAAAAAAAAAA'', ''BBBBBBBBBBBBBBBB''] = Inr [''AAAAAAAAAAAAAAAA'', ''BBBBBBBBBBBBBBBB'']"
proof -
  have "trim_space ''AAAAAAAAAAAAAAAA'' = ''AAAAAAAAAAAAAAAA''" "trim_space ''BBBBBBBBBBBBBBBB'' = ''BBBBBBBBBBBBBBBB''"
    by (rule trim_space_graph; simp add: is_graph_def)+
  then show ?thesis
    by (simp add: normalizeVKHashList_def hash_of_line_def example_normalized)
qed

lemma example_local:
  "ensure_local example_app_env now [''AAAAAAAAAAAAAAAA'', ''BBBBBBBBBBBBBBBB''] ([first_entry, second_entry], n) =
     (Inr ([first_entry, second_entry], False), [first_entry, second_entry], n)"
  by (simp add: ensure_local_def ensureVKHashEntry_def example_normalized findVKHashByValue_def first_entry_def
      second_entry_def example_entry_def Let_def)

text \<open>The settings are saved, the registry stays as it is.\<close>

lemma example_synced:
  "\<exists>a. SyncProfileVKSettings example_app_env now ''a'' peer pw [''AAAAAAAAAAAAAAAA'', ''BBBBBBBBBBBBBBBB''] m ac ar checked_app =
     (Inr (), a) \<and> registry_file a = RegistryOf [first_entry, second_entry]"
proof -
  have s: "\<exists>s'. SaveProfile example_env ''a'' p \<lparr>disk = [], recoveryNotices = [], drawn = 2\<rparr> = (Inr (), s')" for p
    by (simp add: SaveProfile_def readJSON_def write_profile_def atomicWrite_def Let_def) (simp add: example_env_def)
  have l: "LoadProfile example_env ''a'' \<lparr>disk = [], recoveryNotices = [], drawn = 2\<rparr> =
      (Inl NotExist, \<lparr>disk = [], recoveryNotices = [], drawn = 2\<rparr>)"
    by (simp add: LoadProfile_def loadProfileLocked_def readJSON_def)
  have o: "os example_app_env = example_env" by (simp add: example_app_env_def)
  define p where "p = zero_profile\<lparr>PeerAddr := trim_space peer, Password := pw,
     Hashes := [''AAAAAAAAAAAAAAAA'', ''BBBBBBBBBBBBBBBB''], HashPolicy := Some (hashPolicyFrom m ac ar)\<rparr>"
  obtain s' where "SaveProfile example_env ''a'' p \<lparr>disk = [], recoveryNotices = [], drawn = 2\<rparr> = (Inr (), s')"
    using s by blast
  then show ?thesis
    by (simp add: SyncProfileVKSettings_def o example_list checked_app_def l p_def Let_def registerLocalVKHashes_def
        loadVKHashRegistry_def example_local set_drawn_def)
qed

text \<open>The choice itself: the second hash under the name of the checks, both under any other name.\<close>

lemma example_chosen:
  assumes "registry_file a = RegistryOf [first_entry, second_entry]"
  shows "choose_hashes E 5000000 example_input ''a'' policy [first_entry, second_entry] a = (Inr [''BBBBBBBBBBBBBBBB''], a, [])"
    and "name \<noteq> ''a'' \<Longrightarrow> choose_hashes E 5000000 example_input name policy [first_entry, second_entry] a =
      (Inr [''AAAAAAAAAAAAAAAA'', ''BBBBBBBBBBBBBBBB''], a, [])"
proof -
  have r: "loadVKHashRegistry a = Inr [first_entry, second_entry]"
    using assms by (simp add: loadVKHashRegistry_def)
  have f: "storedVKHashCheck (ID first_entry) m a = (if m = ''a'' then Some invalid_check else None)"
    "storedVKHashCheck (ID second_entry) m a = None" for m
    by (simp_all add: storedVKHashCheck_def r findVKHashByID_def first_entry_def second_entry_def example_entry_def)
  have fresh: "isVKHashCheckFresh invalid_check 5000000" "Status invalid_check = ''invalid''"
    by (simp_all add: isVKHashCheckFresh_def invalid_check_def ms_to_ns_def vkHashCheckTTL_def)
  have h: "Hash first_entry = ''AAAAAAAAAAAAAAAA''" "Hash second_entry = ''BBBBBBBBBBBBBBBB''"
    "ID first_entry = ''#''" "ID second_entry = ''#a''"
    by (simp_all add: first_entry_def second_entry_def example_entry_def)
  note d = choose_hashes_def sort_candidates_def sort_candidate_def recent_error_def after_preflight_def
    not_invalid_def hashesFromEntries_def uniqueVKHashes_def Let_def
  show "choose_hashes E 5000000 example_input ''a'' policy [first_entry, second_entry] a = (Inr [''BBBBBBBBBBBBBBBB''], a, [])"
    by (simp add: d f fresh) (simp add: h example_input_def)
  show "choose_hashes E 5000000 example_input name policy [first_entry, second_entry] a =
      (Inr [''AAAAAAAAAAAAAAAA'', ''BBBBBBBBBBBBBBBB''], a, [])" if "name \<noteq> ''a''"
    using that by (simp add: d f fresh) (simp add: h example_input_def)
qed

text \<open>
  With a blank behind the name the checks are stored under the same name as before, but looked up under
  another: the hash that is known to be invalid is used.
\<close>

lemma unclean_name_misses_the_check:
  assumes "registry_file a = RegistryOf [first_entry, second_entry]"
  shows "sanitizeProfileName example_env ''a '' = ''a'' \<and> fresh_invalid a ''a'' 5000000 (ID first_entry) \<and>
    choose_hashes example_app_env 5000000 example_input ''a '' policy [first_entry, second_entry] a =
      (Inr [''AAAAAAAAAAAAAAAA'', ''BBBBBBBBBBBBBBBB''], a, [])"
proof -
  have "sanitizeProfileName example_env ''a '' = ''a''" by code_simp
  moreover have "storedVKHashCheck (ID first_entry) ''a'' a = Some invalid_check"
    using assms by (simp add: storedVKHashCheck_def loadVKHashRegistry_def findVKHashByID_def first_entry_def example_entry_def)
  then have "fresh_invalid a ''a'' 5000000 (ID first_entry)"
    by (simp add: fresh_invalid_def isVKHashCheckFresh_def invalid_check_def ms_to_ns_def vkHashCheckTTL_def)
  ultimately show ?thesis
    using example_chosen(2) [OF assms] by simp
qed

lemma example_prepared:
  "\<exists>a. prepareVKHashes example_app_env 5000000 example_input example_params checked_app =
     (Inr [''BBBBBBBBBBBBBBBB''], a, [])"
proof -
  have m: "normalizeVKHashMode ''local'' = ''local''"
    by (simp add: normalizeVKHashMode_def mode_defs Let_def) code_simp
  have t: "trim_space ''a'' = ''a''"
    by (rule trim_space_graph) (simp add: is_graph_def)
  obtain a where a: "SyncProfileVKSettings example_app_env 5 ''a'' ''h:1'' ''p'' [''AAAAAAAAAAAAAAAA'', ''BBBBBBBBBBBBBBBB'']
      ''local'' True True checked_app = (Inr (), a)" "registry_file a = RegistryOf [first_entry, second_entry]"
    using example_synced by blast
  have u: "url_parse example_app_env = (\<lambda>s. None)" by (simp add: example_app_env_def)
  have "trim_space ''local'' \<noteq> []" by (subst trim_space_graph; simp add: is_graph_def)
  then have p: "hashPolicyFrom ''local'' True True = \<lparr>Mode = ''local'', AutoCheck = True, AutoReplace = True\<rparr>"
    using m by (simp add: hashPolicyFrom_def mode_defs defaultVKHashPolicy_def)
  define a1 where "a1 = set_drawn (drawn (store a)) a"
  have s: "selectVKHashCandidates [first_entry, second_entry] pool ''local'' = [first_entry, second_entry]" for pool
    using m by (simp add: selectVKHashCandidates_def mode_defs entry_key_def first_entry_def second_entry_def example_entry_def Let_def)
  have c: "candidateVKHashes example_app_env 5 [''AAAAAAAAAAAAAAAA'', ''BBBBBBBBBBBBBBBB''] ''local'' a =
      (Inr [first_entry, second_entry], a1)"
    using a(2) by (simp add: candidateVKHashes_def loadVKHashRegistry_def example_local s a1_def)
  have "registry_file a1 = RegistryOf [first_entry, second_entry]"
    using a(2) by (simp add: a1_def set_drawn_def)
  note ch = example_chosen(1) [OF this]
  show ?thesis
    by (simp add: prepareVKHashes_def example_params_def example_list p t a(1) c ch Let_def)
qed


end
