(* ===== verification/HashOps.thy ===== *)
theory HashOps
  imports HashRegistry
begin

text \<open>
  The coordination of hash checks, \<open>backend/vk_hash_operations.go\<close>: \<open>run\<close> lets one caller per key
  probe while the others wait for its result (a step relation over callers), and the interactive
  operations, one bulk check and any number of manual ones, that can be cancelled together. The
  result of a probe is any value; a ghost log keeps which caller probed with what result.
\<close>

section \<open>One probe per key\<close>

definition vkHashProbeKey :: "string \<Rightarrow> string \<Rightarrow> string" where
  "vkHashProbeKey i profileName = profileName @ [CHR 0x00] @ i"

datatype run_error = CtxCanceled | CtxDeadline | ProbeFailed app_error

type_synonym run_result = "run_error + VKHashCheck"

datatype ctx = Live | Ended run_error

text \<open>
  Where a caller is: before the lock, waiting for a call, leading one (registered, before its own
  context is asked), probing, leaving (the result is stored, the deferred release is due), back.
\<close>

datatype pc =
    Start | Waiting nat | Leading nat | Probing nat | Leaving nat run_result | Returned run_result

record ops =
  inFlight :: "string \<Rightarrow> nat option"
  call_result :: "nat \<Rightarrow> run_result option"
  call_done :: "nat \<Rightarrow> bool"
  next_call :: nat
  pcs :: "nat \<Rightarrow> pc"
  ctxs :: "nat \<Rightarrow> ctx"
  probe_log :: "(nat \<times> run_result) list"

definition goto :: "nat \<Rightarrow> pc \<Rightarrow> ops \<Rightarrow> ops" where
  "goto w p s = s\<lparr>pcs := (pcs s)(w := p)\<rparr>"

text \<open>What a waiting caller does with the result of a finished call.\<close>

definition after_wait :: "ctx \<Rightarrow> run_result \<Rightarrow> pc" where
  "after_wait c r = (if r = Inl CtxCanceled \<and> c = Live then Start else Returned r)"

text \<open>\<open>K\<close> gives the key of every caller; a caller that wants to check again is another caller.\<close>

inductive run_step :: "(nat \<Rightarrow> string) \<Rightarrow> ops \<Rightarrow> ops \<Rightarrow> bool" for K where
  join: "pcs s w = Start \<Longrightarrow> inFlight s (K w) = Some c \<Longrightarrow> run_step K s (goto w (Waiting c) s)"
| lead: "pcs s w = Start \<Longrightarrow> inFlight s (K w) = None \<Longrightarrow>
    run_step K s (goto w (Leading (next_call s))
      (s\<lparr>inFlight := (inFlight s)(K w := Some (next_call s)), next_call := next_call s + 1\<rparr>))"
| lead_ended: "pcs s w = Leading c \<Longrightarrow> ctxs s w = Ended e \<Longrightarrow>
    run_step K s (goto w (Leaving c (Inl e)) (s\<lparr>call_result := (call_result s)(c := Some (Inl e))\<rparr>))"
| lead_live: "pcs s w = Leading c \<Longrightarrow> ctxs s w = Live \<Longrightarrow> run_step K s (goto w (Probing c) s)"
| probed: "pcs s w = Probing c \<Longrightarrow>
    run_step K s (goto w (Leaving c r)
      (s\<lparr>call_result := (call_result s)(c := Some r), probe_log := (w, r) # probe_log s\<rparr>))"
| leave: "pcs s w = Leaving c r \<Longrightarrow>
    run_step K s (goto w (Returned r)
      (s\<lparr>inFlight := (inFlight s)(K w := None), call_done := (call_done s)(c := True)\<rparr>))"
| wait_done: "pcs s w = Waiting c \<Longrightarrow> call_done s c \<Longrightarrow> call_result s c = Some r \<Longrightarrow>
    run_step K s (goto w (after_wait (ctxs s w) r) s)"
| wait_ended: "pcs s w = Waiting c \<Longrightarrow> ctxs s w = Ended e \<Longrightarrow>
    run_step K s (goto w (Returned (Inl e)) s)"
| ends: "ctxs s w = Live \<Longrightarrow> e = CtxCanceled \<or> e = CtxDeadline \<Longrightarrow>
    run_step K s (s\<lparr>ctxs := (ctxs s)(w := Ended e)\<rparr>)"

definition ops_init :: "ops \<Rightarrow> bool" where
  "ops_init s \<longleftrightarrow>
     (\<forall>k. inFlight s k = None) \<and> (\<forall>c. call_result s c = None \<and> \<not> call_done s c) \<and> next_call s = 0 \<and>
     (\<forall>w. pcs s w = Start) \<and> (\<forall>w e. ctxs s w = Ended e \<longrightarrow> e = CtxCanceled \<or> e = CtxDeadline) \<and>
     probe_log s = []"

inductive run_reach :: "(nat \<Rightarrow> string) \<Rightarrow> ops \<Rightarrow> bool" for K where
  init: "ops_init s \<Longrightarrow> run_reach K s"
| step: "run_reach K s \<Longrightarrow> run_step K s s' \<Longrightarrow> run_reach K s'"

fun active :: "pc \<Rightarrow> nat option" where
  "active (Leading c) = Some c"
| "active (Probing c) = Some c"
| "active (Leaving c r) = Some c"
| "active p = None"

lemma goto_simps [simp]:
  "inFlight (goto w p s) = inFlight s" "call_result (goto w p s) = call_result s"
  "call_done (goto w p s) = call_done s" "next_call (goto w p s) = next_call s"
  "ctxs (goto w p s) = ctxs s" "probe_log (goto w p s) = probe_log s"
  "pcs (goto w p s) = (pcs s)(w := p)"
  by (simp_all add: goto_def)

text \<open>
  A call in flight has exactly one caller that runs it, under its own key; a waiting caller waits for
  the call of its key or for one that is done and has a result.
\<close>

definition flight_ok :: "(nat \<Rightarrow> string) \<Rightarrow> ops \<Rightarrow> bool" where
  "flight_ok K s \<longleftrightarrow>
     (\<forall>w c. active (pcs s w) = Some c \<longrightarrow>
        inFlight s (K w) = Some c \<and> \<not> call_done s c \<and> c < next_call s) \<and>
     (\<forall>w w' c. active (pcs s w) = Some c \<and> active (pcs s w') = Some c \<longrightarrow> w = w') \<and>
     (\<forall>k c. inFlight s k = Some c \<longrightarrow> (\<exists>w. K w = k \<and> active (pcs s w) = Some c)) \<and>
     (\<forall>w c. pcs s w = Waiting c \<longrightarrow> inFlight s (K w) = Some c \<or> call_done s c)"

text \<open>Where results come from: a probe of a caller with the same key, or the leader's own context.\<close>

definition from_probe :: "(nat \<Rightarrow> string) \<Rightarrow> ops \<Rightarrow> string \<Rightarrow> run_result \<Rightarrow> bool" where
  "from_probe K s k r \<longleftrightarrow>
     (\<exists>w. K w = k \<and> (w, r) \<in> set (probe_log s)) \<or> r = Inl CtxCanceled \<or> r = Inl CtxDeadline"

lemma flight_init: "ops_init s \<Longrightarrow> flight_ok K s"
  by (simp add: flight_ok_def ops_init_def)

lemma flight_activeD:
  "flight_ok K s \<Longrightarrow> active (pcs s w) = Some c \<Longrightarrow>
   inFlight s (K w) = Some c \<and> \<not> call_done s c \<and> c < next_call s"
  by (simp add: flight_ok_def)

lemma flight_uniqueD:
  "flight_ok K s \<Longrightarrow> active (pcs s w) = Some c \<Longrightarrow> active (pcs s w') = Some c \<Longrightarrow> w = w'"
  by (simp add: flight_ok_def)

lemma flight_ownerD:
  "flight_ok K s \<Longrightarrow> inFlight s k = Some c \<Longrightarrow> \<exists>w. K w = k \<and> active (pcs s w) = Some c"
  by (simp add: flight_ok_def)

lemma flight_waitD:
  "flight_ok K s \<Longrightarrow> pcs s w = Waiting c \<Longrightarrow> inFlight s (K w) = Some c \<or> call_done s c"
  by (simp add: flight_ok_def)

text \<open>Steps of a caller that stays inactive or keeps its call.\<close>

lemma flight_goto:
  assumes f: "flight_ok K s" and a: "active p = active (pcs s w)"
    and x: "\<forall>c. p = Waiting c \<longrightarrow> inFlight s (K w) = Some c \<or> call_done s c"
    and s': "inFlight s' = inFlight s" "call_done s' = call_done s" "next_call s' = next_call s"
      "pcs s' = (pcs s)(w := p)"
  shows "flight_ok K s'"
proof -
  have act: "active (pcs s' v) = active (pcs s v)" for v
    using a s'(4) by simp
  have "inFlight s' (K v) = Some c \<or> call_done s' c" if "pcs s' v = Waiting c" for v c
    using that x flight_waitD [OF f, of v c] s' by (cases "v = w") auto
  then show ?thesis
    unfolding flight_ok_def act using flight_activeD [OF f] flight_uniqueD [OF f] flight_ownerD [OF f]
    by (auto simp: s'(1-3))
qed

lemma flight_lead:
  assumes f: "flight_ok K s" and p: "pcs s w = Start" "inFlight s (K w) = None"
    and d: "\<forall>c \<ge> next_call s. \<not> call_done s c"
  shows "flight_ok K (goto w (Leading (next_call s))
      (s\<lparr>inFlight := (inFlight s)(K w := Some (next_call s)), next_call := next_call s + 1\<rparr>))"
    (is "flight_ok K ?s")
proof -
  have act: "active (pcs ?s v) = (if v = w then Some (next_call s) else active (pcs s v))" for v
    by simp
  have key: "K v \<noteq> K w" if "active (pcs s v) = Some c" for v c
    using flight_activeD [OF f that] p(2) by auto
  have "inFlight ?s (K v) = Some c \<and> \<not> call_done ?s c \<and> c < next_call ?s"
    if "active (pcs ?s v) = Some c" for v c
    using that d key [of v c] flight_activeD [OF f, of v c] unfolding act by (auto split: if_splits)
  moreover have "v = v'" if "active (pcs ?s v) = Some c" "active (pcs ?s v') = Some c" for v v' c
    using that flight_activeD [OF f, of v c] flight_activeD [OF f, of v' c] flight_uniqueD [OF f, of v c v']
    unfolding act by (auto split: if_splits)
  moreover have "\<exists>v. K v = k \<and> active (pcs ?s v) = Some c" if "inFlight ?s k = Some c" for k c
    using that flight_ownerD [OF f, of k c] p(1) unfolding act by (auto split: if_splits)
  moreover have "inFlight ?s (K v) = Some c \<or> call_done ?s c" if "pcs ?s v = Waiting c" for v c
    using that flight_waitD [OF f, of v c] p by (auto split: if_splits)
  ultimately show ?thesis
    unfolding flight_ok_def by blast
qed

lemma flight_leave:
  assumes f: "flight_ok K s" and p: "pcs s w = Leaving c r"
  shows "flight_ok K (goto w (Returned r)
      (s\<lparr>inFlight := (inFlight s)(K w := None), call_done := (call_done s)(c := True)\<rparr>))"
    (is "flight_ok K ?s")
proof -
  have w: "active (pcs s w) = Some c"
    using p by simp
  note in_w = flight_activeD [OF f w]
  have act: "active (pcs ?s v) = (if v = w then None else active (pcs s v))" for v
    by simp
  have key: "K v \<noteq> K w \<and> d \<noteq> c" if "active (pcs s v) = Some d" "v \<noteq> w" for v d
  proof -
    have "d \<noteq> c"
      using flight_uniqueD [OF f that(1)] w that(2) by blast
    then show ?thesis
      using flight_activeD [OF f that(1)] in_w by auto
  qed
  have "inFlight ?s (K v) = Some d \<and> \<not> call_done ?s d \<and> d < next_call ?s"
    if "active (pcs ?s v) = Some d" for v d
    using that key [of v d] flight_activeD [OF f, of v d] unfolding act by (auto split: if_splits)
  moreover have "v = v'" if "active (pcs ?s v) = Some d" "active (pcs ?s v') = Some d" for v v' d
    using that flight_uniqueD [OF f, of v d v'] unfolding act by (auto split: if_splits)
  moreover have "\<exists>v. K v = k \<and> active (pcs ?s v) = Some d" if "inFlight ?s k = Some d" for k d
    using that flight_ownerD [OF f, of k d] unfolding act by (auto split: if_splits)
  moreover have "inFlight ?s (K v) = Some d \<or> call_done ?s d" if "pcs ?s v = Waiting d" for v d
    using that flight_waitD [OF f, of v d] in_w by (auto split: if_splits)
  ultimately show ?thesis
    unfolding flight_ok_def by blast
qed

definition numbers_ok :: "ops \<Rightarrow> bool" where
  "numbers_ok s \<longleftrightarrow> (\<forall>c \<ge> next_call s. \<not> call_done s c \<and> call_result s c = None)"

lemma flight_step:
  assumes "run_step K s s'" and "flight_ok K s" and "numbers_ok s"
  shows "flight_ok K s' \<and> numbers_ok s'"
  using assms
proof cases
  case (join w c)
  then show ?thesis
    using assms(2,3) flight_goto [OF assms(2), of "Waiting c" w s'] by (simp add: numbers_ok_def)
next
  case (lead w)
  then show ?thesis
    using assms(3) flight_lead [OF assms(2)] by (simp add: numbers_ok_def)
next
  case (lead_ended w c e)
  then show ?thesis
    using assms(3) flight_goto [OF assms(2), of "Leaving c (Inl e)" w s'] flight_activeD [OF assms(2), of w c]
    by (simp add: numbers_ok_def)
next
  case (lead_live w c)
  then show ?thesis
    using assms(3) flight_goto [OF assms(2), of "Probing c" w s'] by (simp add: numbers_ok_def)
next
  case (probed w c r)
  then show ?thesis
    using assms(3) flight_goto [OF assms(2), of "Leaving c r" w s'] flight_activeD [OF assms(2), of w c]
    by (simp add: numbers_ok_def)
next
  case (leave w c r)
  then show ?thesis
    using assms(3) flight_leave [OF assms(2)] flight_activeD [OF assms(2), of w c]
    by (simp add: numbers_ok_def)
next
  case (wait_done w c r)
  then show ?thesis
    using assms(3) flight_goto [OF assms(2), of "after_wait (ctxs s w) r" w s']
    by (simp add: numbers_ok_def after_wait_def)
next
  case (wait_ended w c e)
  then show ?thesis
    using assms(3) flight_goto [OF assms(2), of "Returned (Inl e)" w s'] by (simp add: numbers_ok_def)
next
  case (ends w e)
  then show ?thesis
    using assms(2,3) by (simp add: numbers_ok_def flight_ok_def)
qed

text \<open>What callers hold and give back.\<close>

definition results_ok :: "(nat \<Rightarrow> string) \<Rightarrow> ops \<Rightarrow> bool" where
  "results_ok K s \<longleftrightarrow>
     (\<forall>w c r. (active (pcs s w) = Some c \<or> pcs s w = Waiting c) \<and> call_result s c = Some r \<longrightarrow>
        from_probe K s (K w) r) \<and>
     (\<forall>w c r. pcs s w = Leaving c r \<longrightarrow> call_result s c = Some r) \<and>
     (\<forall>w r. pcs s w = Returned r \<longrightarrow> from_probe K s (K w) r) \<and>
     (\<forall>w e. ctxs s w = Ended e \<longrightarrow> e = CtxCanceled \<or> e = CtxDeadline)"

definition own_cancel :: "ops \<Rightarrow> bool" where
  "own_cancel s \<longleftrightarrow>
     (\<forall>w. (\<exists>c. pcs s w = Leaving c (Inl CtxCanceled)) \<or> pcs s w = Returned (Inl CtxCanceled) \<longrightarrow>
        ctxs s w \<noteq> Live \<or> (w, Inl CtxCanceled) \<in> set (probe_log s))"

lemma from_probe_mono:
  "from_probe K s k r \<Longrightarrow> set (probe_log s) \<subseteq> set (probe_log s') \<Longrightarrow> from_probe K s' k r"
  unfolding from_probe_def by blast

lemma results_goto:
  assumes "results_ok K s"
    and "call_result s' = call_result s" "probe_log s' = probe_log s" "ctxs s' = ctxs s"
      "pcs s' = (pcs s)(w := p)"
    and "\<forall>c r. (active p = Some c \<or> p = Waiting c) \<and> call_result s c = Some r \<longrightarrow> from_probe K s (K w) r"
    and "\<forall>c r. p = Leaving c r \<longrightarrow> call_result s c = Some r"
    and "\<forall>r. p = Returned r \<longrightarrow> from_probe K s (K w) r"
  shows "results_ok K s'"
proof -
  have "from_probe K s' = from_probe K s"
    using assms(3) by (simp add: from_probe_def fun_eq_iff)
  then show ?thesis
    using assms unfolding results_ok_def by simp
qed

text \<open>A result is stored for a call: its leader and the callers that wait for it have its key.\<close>

lemma results_store:
  assumes ok: "results_ok K s" and f: "flight_ok K s" and a: "active (pcs s w) = Some c"
    and s': "call_result s' = (call_result s)(c := Some r)" "ctxs s' = ctxs s"
      "pcs s' = (pcs s)(w := Leaving c r)" "set (probe_log s) \<subseteq> set (probe_log s')"
    and r: "from_probe K s' (K w) r"
  shows "results_ok K s'"
proof -
  have key: "K v = K w" if "pcs s v = Waiting c \<or> active (pcs s v) = Some c" for v
  proof -
    have "inFlight s (K v) = Some c"
      using that flight_waitD [OF f, of v c] flight_activeD [OF f, of v c] flight_activeD [OF f a] by auto
    then obtain u where "K u = K v" "active (pcs s u) = Some c"
      using flight_ownerD [OF f] by blast
    then show ?thesis
      using flight_uniqueD [OF f _ a] by metis
  qed
  have old: "from_probe K s' k q" if "from_probe K s k q" for k q
    using that s'(4) by (rule from_probe_mono)
  have "from_probe K s' (K v) q"
    if "active (pcs s' v) = Some d \<or> pcs s' v = Waiting d" "call_result s' d = Some q" for v d q
  proof (cases "d = c")
    case True
    then have "K v = K w" "q = r"
      using that key [of v] s'(1,3) by (auto split: if_splits)
    then show ?thesis
      using r by simp
  next
    case False
    then show ?thesis
      using that ok s'(1,3) old unfolding results_ok_def by (auto split: if_splits)
  qed
  moreover have "call_result s' d = Some q" if "pcs s' v = Leaving d q" for v d q
  proof (cases "v = w")
    case False
    then have p: "pcs s v = Leaving d q"
      using that s'(3) by simp
    then have "d \<noteq> c"
      using flight_uniqueD [OF f, of v c w] a False by auto
    then show ?thesis
      using p ok s'(1) by (simp add: results_ok_def)
  qed (use that s' in auto)
  moreover have "from_probe K s' (K v) q" if "pcs s' v = Returned q" for v q
    using that ok s'(3) old by (auto simp: results_ok_def split: if_splits)
  moreover have "\<forall>v e. ctxs s' v = Ended e \<longrightarrow> e = CtxCanceled \<or> e = CtxDeadline"
    using ok s'(2) by (simp add: results_ok_def)
  ultimately show ?thesis
    unfolding results_ok_def by blast
qed

lemma results_step:
  assumes "run_step K s s'" and ok: "results_ok K s" and f: "flight_ok K s" and n: "numbers_ok s"
  shows "results_ok K s'"
  using assms(1)
proof cases
  case (join w c)
  have "from_probe K s (K w) r" if "call_result s c = Some r" for r
  proof -
    obtain v where "K v = K w" "active (pcs s v) = Some c"
      using flight_ownerD [OF f join(3)] by blast
    then show ?thesis
      using ok that unfolding results_ok_def by metis
  qed
  then show ?thesis
    using join by (intro results_goto [OF ok, of s' w "Waiting c"]) auto
next
  case (lead w)
  then show ?thesis
    using n by (intro results_goto [OF ok, of s' w "Leading (next_call s)"]) (auto simp: numbers_ok_def)
next
  case (lead_ended w c e)
  then have "from_probe K s' (K w) (Inl e)"
    using ok by (auto simp: from_probe_def results_ok_def)
  then show ?thesis
    using lead_ended by (intro results_store [OF ok f, of w c s' "Inl e"]) auto
next
  case (lead_live w c)
  then show ?thesis
    using ok by (intro results_goto [OF ok, of s' w "Probing c"]) (auto simp: results_ok_def)
next
  case (probed w c r)
  then have "from_probe K s' (K w) r"
    by (auto simp: from_probe_def)
  then show ?thesis
    using probed by (intro results_store [OF ok f, of w c s' r]) auto
next
  case (leave w c r)
  then have "from_probe K s (K w) r"
    using ok unfolding results_ok_def by (metis active.simps(3))
  then show ?thesis
    using leave by (intro results_goto [OF ok, of s' w "Returned r"]) auto
next
  case (wait_done w c r)
  then have "from_probe K s (K w) r"
    using ok unfolding results_ok_def by metis
  then show ?thesis
    using wait_done
    by (intro results_goto [OF ok, of s' w "after_wait (ctxs s w) r"]) (auto simp: after_wait_def split: if_splits)
next
  case (wait_ended w c e)
  then have "from_probe K s (K w) (Inl e)"
    using ok by (auto simp: from_probe_def results_ok_def)
  then show ?thesis
    using wait_ended by (intro results_goto [OF ok, of s' w "Returned (Inl e)"]) auto
next
  case (ends w e)
  then show ?thesis
    using ok by (auto simp: results_ok_def from_probe_def)
qed

lemma own_cancel_step:
  assumes "run_step K s s'" and "own_cancel s"
  shows "own_cancel s'"
  using assms(1)
proof cases
  case (wait_done w c r)
  then show ?thesis
    using assms(2) by (auto simp: own_cancel_def after_wait_def)
qed (use assms(2) in \<open>auto simp: own_cancel_def\<close>)

lemma run_reach_ok:
  "run_reach K s \<Longrightarrow> flight_ok K s \<and> numbers_ok s \<and> results_ok K s \<and> own_cancel s"
proof (induction rule: run_reach.induct)
  case (init s)
  then show ?case
    using flight_init [OF init]
    by (auto simp: ops_init_def numbers_ok_def results_ok_def own_cancel_def)
next
  case (step s s')
  then show ?case
    using flight_step results_step own_cancel_step by blast
qed

text \<open>For every interleaving of callers and cancellations at most one caller per key
  probes at a time; what a caller gets back is the result of a probe for its own key or the end of
  a context; a caller whose context lives gets \<open>context.Canceled\<close> only from its own probe; and a caller
  that waits always has a caller of its key that runs the call, unless the call is done.\<close>

theorem one_probe_per_key:
  assumes "run_reach K s"
  shows "(\<forall>w w' c c'. pcs s w = Probing c \<and> pcs s w' = Probing c' \<and> K w = K w' \<longrightarrow> w = w') \<and>
    (\<forall>w r. pcs s w = Returned r \<longrightarrow>
      (\<exists>v. K v = K w \<and> (v, r) \<in> set (probe_log s)) \<or> r = Inl CtxCanceled \<or> r = Inl CtxDeadline) \<and>
    (\<forall>w. pcs s w = Returned (Inl CtxCanceled) \<longrightarrow>
      ctxs s w \<noteq> Live \<or> (w, Inl CtxCanceled) \<in> set (probe_log s)) \<and>
    (\<forall>w c. pcs s w = Waiting c \<longrightarrow>
      call_done s c \<or> (\<exists>v. K v = K w \<and> active (pcs s v) = Some c))"
proof -
  have f: "flight_ok K s" and r: "results_ok K s" and o: "own_cancel s"
    using run_reach_ok [OF assms] by auto
  have "w = w'" if "pcs s w = Probing c" "pcs s w' = Probing c'" "K w = K w'" for w w' c c'
  proof -
    have "active (pcs s w) = Some c" "active (pcs s w') = Some c'"
      using that by simp_all
    moreover from this have "c = c'"
      using flight_activeD [OF f] that(3) by (metis option.inject)
    ultimately show ?thesis
      using flight_uniqueD [OF f] by simp
  qed
  moreover have "(\<exists>v. K v = K w \<and> (v, q) \<in> set (probe_log s)) \<or> q = Inl CtxCanceled \<or> q = Inl CtxDeadline"
    if "pcs s w = Returned q" for w q
    using r that by (auto simp: results_ok_def from_probe_def)
  moreover have "ctxs s w \<noteq> Live \<or> (w, Inl CtxCanceled) \<in> set (probe_log s)"
    if "pcs s w = Returned (Inl CtxCanceled)" for w
    using o that by (simp add: own_cancel_def)
  moreover have "call_done s c \<or> (\<exists>v. K v = K w \<and> active (pcs s v) = Some c)" if "pcs s w = Waiting c" for w c
    using flight_waitD [OF f that] flight_ownerD [OF f] by blast
  ultimately show ?thesis
    by blast
qed

text \<open>Two callers of one key: the first probes, the second waits.\<close>

definition ops0 :: ops where
  "ops0 = \<lparr>inFlight = (\<lambda>k. None), call_result = (\<lambda>c. None), call_done = (\<lambda>c. False), next_call = 0,
     pcs = (\<lambda>w. Start), ctxs = (\<lambda>w. Live), probe_log = []\<rparr>"

definition ops1 :: ops where
  "ops1 = goto 0 (Leading 0) (ops0\<lparr>inFlight := (inFlight ops0)(''k'' := Some 0), next_call := 1\<rparr>)"

definition ops2 :: ops where
  "ops2 = goto 0 (Probing 0) (goto 1 (Waiting 0) ops1)"

lemma ops2_reached: "run_reach (\<lambda>w. ''k'') ops2"
proof -
  have "run_reach (\<lambda>w. ''k'') ops0"
    by (rule run_reach.init) (simp add: ops_init_def ops0_def)
  then have "run_reach (\<lambda>w. ''k'') ops1"
    using run_reach.step [OF _ run_step.lead [of ops0 0 "\<lambda>w. ''k''"]] by (simp add: ops1_def ops0_def)
  then have "run_reach (\<lambda>w. ''k'') (goto 1 (Waiting 0) ops1)"
    by (rule run_reach.step [OF _ run_step.join]) (simp_all add: ops1_def ops0_def)
  then show ?thesis
    unfolding ops2_def
    by (rule run_reach.step [OF _ run_step.lead_live]) (simp_all add: ops1_def ops0_def)
qed

theorem one_probe_per_key_witness:
  "pcs ops2 0 = Probing 0 \<and> pcs ops2 1 = Waiting 0 \<and> pcs ops2 2 \<noteq> Probing 1 \<and>
   (call_done ops2 0 \<or> (\<exists>v. ''k'' = ''k'' \<and> active (pcs ops2 v) = Some 0))"
proof -
  have p: "pcs ops2 0 = Probing 0" "pcs ops2 1 = Waiting 0" "pcs ops2 2 = Start"
    by (simp_all add: ops2_def ops1_def ops0_def)
  note t = one_probe_per_key [OF ops2_reached]
  from t have "call_done ops2 0 \<or> (\<exists>v. ''k'' = ''k'' \<and> active (pcs ops2 v) = Some 0)"
    using p(2) by blast
  then show ?thesis
    using p by simp
qed

text \<open>
  A cancelled probe gives a result with the status \<open>canceled\<close> and no error (\<open>checkVKHashProbe\<close>), which the
  retry of the waiting callers does not look at: a caller with a living context gets the
  cancellation of another one.
\<close>

lemma joined_caller_gets_foreign_cancel:
  assumes "Status c = ''canceled''"
  shows "\<exists>s. run_reach (\<lambda>w. ''k'') s \<and> ctxs s 1 = Live \<and> pcs s 1 = Returned (Inr c) \<and>
    ctxs s 0 = Ended CtxCanceled"
proof -
  define s3 where "s3 = ops2\<lparr>ctxs := (ctxs ops2)(0 := Ended CtxCanceled)\<rparr>"
  define s4 where "s4 = goto 0 (Leaving 0 (Inr c))
    (s3\<lparr>call_result := (call_result s3)(0 := Some (Inr c)), probe_log := [(0, Inr c)]\<rparr>)"
  define s5 where "s5 = goto 0 (Returned (Inr c))
    (s4\<lparr>inFlight := (inFlight s4)(''k'' := None), call_done := (call_done s4)(0 := True)\<rparr>)"
  define s6 where "s6 = goto 1 (after_wait (ctxs s5 1) (Inr c)) s5"
  note defs = s3_def s4_def s5_def s6_def ops2_def ops1_def ops0_def
  have "run_reach (\<lambda>w. ''k'') s3"
    unfolding s3_def by (rule run_reach.step [OF ops2_reached run_step.ends]) (simp_all add: defs)
  moreover have "run_step (\<lambda>w. ''k'') s3 s4"
    using run_step.probed [of s3 0 0 "\<lambda>w. ''k''" "Inr c"] by (simp add: s4_def) (simp add: defs)
  moreover have "run_step (\<lambda>w. ''k'') s4 s5"
    using run_step.leave [of s4 0 0 "Inr c" "\<lambda>w. ''k''"] by (simp add: s5_def) (simp add: s4_def)
  moreover have "run_step (\<lambda>w. ''k'') s5 s6"
    unfolding s6_def by (rule run_step.wait_done) (simp_all add: defs)
  ultimately have "run_reach (\<lambda>w. ''k'') s6"
    by (blast intro: run_reach.step)
  then show ?thesis
    by (intro exI [of _ s6]) (simp add: defs after_wait_def)
qed

section \<open>Interactive operations\<close>

text \<open>
  The bulk operation and the manual ones by their identifiers, and the contexts that were cancelled.
  The identifiers are those of \<open>newOperationID\<close>.
\<close>

record interactive =
  bulkOperation :: "string option"
  manualCancels :: "string list"
  canceled_ops :: "string list"

definition beginBulk :: "string \<Rightarrow> interactive \<Rightarrow> interactive option" where
  "beginBulk i s = (if bulkOperation s \<noteq> None then None else Some (s\<lparr>bulkOperation := Some i\<rparr>))"

definition endBulk :: "string \<Rightarrow> interactive \<Rightarrow> interactive" where
  "endBulk i s =
     (let s = s\<lparr>canceled_ops := i # canceled_ops s\<rparr>
      in if bulkOperation s = Some i then s\<lparr>bulkOperation := None\<rparr> else s)"

definition cancelBulk :: "interactive \<Rightarrow> interactive" where
  "cancelBulk s =
     (case bulkOperation s of None \<Rightarrow> s | Some i \<Rightarrow> s\<lparr>canceled_ops := i # canceled_ops s\<rparr>)"

definition beginManual :: "string \<Rightarrow> interactive \<Rightarrow> interactive" where
  "beginManual i s = s\<lparr>manualCancels := List.insert i (manualCancels s)\<rparr>"

definition endManual :: "string \<Rightarrow> interactive \<Rightarrow> interactive" where
  "endManual i s =
     s\<lparr>canceled_ops := i # canceled_ops s, manualCancels := removeAll i (manualCancels s)\<rparr>"

definition cancelInteractive :: "interactive \<Rightarrow> interactive" where
  "cancelInteractive s =
     (let s = cancelBulk s in s\<lparr>canceled_ops := manualCancels s @ canceled_ops s\<rparr>)"

text \<open>After a cancellation every operation that runs is cancelled; an ended one leaves nothing behind.\<close>

lemma cancelInteractive_all:
  "set (manualCancels s) \<union> set_option (bulkOperation s) \<subseteq> set (canceled_ops (cancelInteractive s))"
  by (auto simp: cancelInteractive_def cancelBulk_def Let_def split: option.split)

lemma bulk_after_end: "beginBulk i s = Some s' \<Longrightarrow> beginBulk j (endBulk i s') \<noteq> None"
  by (auto simp: beginBulk_def endBulk_def Let_def split: if_splits)

section \<open>The bulk check\<close>

text \<open>
  \<open>CheckAllVKHashes\<close>: the pool entries and those the server uses are checked one after the other
  (\<open>vkHashBulkConcurrency\<close> is 1); every finished check is counted, cancelled ones give neither a result
  nor an error, and the first other error is kept.
\<close>

definition bulk_targets :: "string \<Rightarrow> VKHashEntry list \<Rightarrow> VKHashEntry list" where
  "bulk_targets name es = filter (\<lambda>e. InPool e \<or> name \<in> set (UsedBy e)) es"

record bulk_progress =
  bulk_results :: "VKHashCheck list"
  first_err :: "run_error option"
  completed :: nat

definition bulk_item :: "run_result \<Rightarrow> bulk_progress \<Rightarrow> bulk_progress" where
  "bulk_item item p =
     (let p = (case item of
          Inl e \<Rightarrow>
            if e \<noteq> CtxCanceled \<and> e \<noteq> CtxDeadline \<and> first_err p = None
            then p\<lparr>first_err := Some e\<rparr> else p
        | Inr c \<Rightarrow>
            if Status c \<noteq> ''canceled'' then p\<lparr>bulk_results := bulk_results p @ [c]\<rparr> else p)
      in p\<lparr>completed := completed p + 1\<rparr>)"

datatype bulk_state = BulkCompleted | BulkCanceled | BulkError

text \<open>The number of targets, the outcomes of the checks that were made, and how the context stands at the end.\<close>

definition CheckAllVKHashes ::
    "nat \<Rightarrow> run_result list \<Rightarrow> ctx \<Rightarrow> bulk_progress \<times> bulk_state \<times> run_error option" where
  "CheckAllVKHashes targets items c =
     (let p = fold bulk_item items \<lparr>bulk_results = [], first_err = None, completed = 0\<rparr> in
      if targets = 0 then (\<lparr>bulk_results = [], first_err = None, completed = 0\<rparr>, BulkCompleted, None)
      else (p,
       (case c of Ended e \<Rightarrow> BulkCanceled
        | Live \<Rightarrow> if first_err p \<noteq> None then BulkError else BulkCompleted),
       (case c of Ended e \<Rightarrow> Some e | Live \<Rightarrow> first_err p)))"

lemma bulk_fold:
  "completed (fold bulk_item items p) = completed p + length items \<and>
   set (bulk_results (fold bulk_item items p)) =
     set (bulk_results p) \<union> {c. Inr c \<in> set items \<and> Status c \<noteq> ''canceled''}"
  by (induction items arbitrary: p) (auto simp: bulk_item_def Let_def split: sum.splits)

lemma bulk_reports_all:
  "fst (CheckAllVKHashes targets items c) = p \<Longrightarrow> 0 < targets \<Longrightarrow> completed p = length items \<and>
   set (bulk_results p) = {ch. Inr ch \<in> set items \<and> Status ch \<noteq> ''canceled''}"
  using bulk_fold [of items "\<lparr>bulk_results = [], first_err = None, completed = 0\<rparr>"]
  by (auto simp: CheckAllVKHashes_def Let_def)

end
