(* ===== verification/Base64.thy ===== *)
theory Base64
  imports Prelude
begin

text \<open>
  \<open>base64.StdEncoding\<close> of the Go library: the encoder and the (non-strict) decoder, which skips line
  ends, wants padding and ignores the unused bits of the last quantum. The captcha client encodes its
  answers and decodes the slider picture with it, the WireGuard code its keys. Texts and data are
  byte strings.
\<close>

section \<open>The alphabet\<close>

text \<open>The alphabet \<open>A-Z a-z 0-9 + /\<close> by the ranges of its bytes.\<close>

definition b64_char :: "nat \<Rightarrow> char" where
  "b64_char n =
     char_of (if n < 26 then n + 65 else if n < 52 then n + 71 else if n < 62 then n - 4
              else if n = 62 then 43 else 47)"

definition b64_value :: "char \<Rightarrow> nat option" where
  "b64_value c =
     (let v = bval c
      in if 65 \<le> v \<and> v \<le> 90 then Some (v - 65)
         else if 97 \<le> v \<and> v \<le> 122 then Some (v - 71)
         else if 48 \<le> v \<and> v \<le> 57 then Some (v + 4)
         else if v = 43 then Some 62 else if v = 47 then Some 63 else None)"

lemma bval_char_of [simp]: "n < 256 \<Longrightarrow> bval (char_of n) = n"
  by simp

lemma b64_char_facts:
  assumes "n < 64"
  shows "b64_value (b64_char n) = Some n \<and> b64_char n \<noteq> CHR ''='' \<and> is_graph (b64_char n)"
proof -
  obtain v where v: "v = (if n < 26 then n + 65 else if n < 52 then n + 71 else if n < 62 then n - 4
      else if n = 62 then 43 else (47 :: nat))"
    by simp
  then have "bval (b64_char n) = v"
    using assms by (simp add: b64_char_def)
  moreover have "bval CHR ''='' = 61"
    by simp
  ultimately show ?thesis
    using assms v by (auto simp: b64_value_def is_graph_def Let_def split: if_splits)
qed

section \<open>Encoding and decoding\<close>

fun b64_encode :: "string \<Rightarrow> string" where
  "b64_encode [] = []"
| "b64_encode [a] =
     (let n = bval a * 16 in [b64_char (n div 64), b64_char (n mod 64), CHR ''='', CHR ''=''])"
| "b64_encode [a, b] =
     (let n = (bval a * 256 + bval b) * 4
      in [b64_char (n div 4096), b64_char (n div 64 mod 64), b64_char (n mod 64), CHR ''=''])"
| "b64_encode (a # b # c # r) =
     (let n = bval a * 65536 + bval b * 256 + bval c
      in b64_char (n div 262144) # b64_char (n div 4096 mod 64) # b64_char (n div 64 mod 64)
         # b64_char (n mod 64) # b64_encode r)"

definition byte_char :: "nat \<Rightarrow> char" where
  "byte_char n = char_of n"

fun b64_quanta :: "string \<Rightarrow> string option" where
  "b64_quanta [] = Some []"
| "b64_quanta (a # b # c # d # r) =
     (case (b64_value a, b64_value b) of
        (Some x, Some y) \<Rightarrow>
          if c = CHR ''='' then
            (if d = CHR ''='' \<and> r = [] then Some [byte_char ((x * 64 + y) div 16)] else None)
          else (case b64_value c of
             None \<Rightarrow> None
           | Some z \<Rightarrow>
               if d = CHR ''='' then
                 (if r = [] then
                    let n = (x * 4096 + y * 64 + z) div 4
                    in Some [byte_char (n div 256), byte_char (n mod 256)]
                  else None)
               else (case b64_value d of
                  None \<Rightarrow> None
                | Some w \<Rightarrow>
                    let n = x * 262144 + y * 4096 + z * 64 + w
                    in map_option (\<lambda>t. byte_char (n div 65536) # byte_char (n div 256 mod 256) #
                         byte_char (n mod 256) # t) (b64_quanta r)))
      | _ \<Rightarrow> None)"
| "b64_quanta s = None"

definition b64_decode :: "string \<Rightarrow> string option" where
  "b64_decode s = b64_quanta (filter (\<lambda>c. c \<noteq> CHR 0x0D \<and> c \<noteq> CHR 0x0A) s)"

section \<open>Decoding gives back what was encoded\<close>

lemma byte_char_bval [simp]: "byte_char (bval c) = c"
  by (simp add: byte_char_def)

lemma bval_less [simp]: "bval c < 256"
  using nat_of_char_less_256 [of c] by simp

text \<open>Three bytes are four groups of six bits.\<close>

lemma byte_groups:
  assumes "c < 256" and "b < (256 :: nat)"
  shows "(a * 65536 + b * 256 + c) div 65536 = a"
    and "(a * 65536 + b * 256 + c) div 256 mod 256 = b"
    and "(a * 65536 + b * 256 + c) mod 256 = c"
proof -
  have e: "a * 65536 + b * 256 + c = (a * 256 + b) * 256 + c"
    by simp
  have d: "(a * 65536 + b * 256 + c) div 256 = a * 256 + b"
    unfolding e using assms(1) by simp
  then show "(a * 65536 + b * 256 + c) div 256 mod 256 = b"
    using assms(2) by simp
  have "(a * 65536 + b * 256 + c) div (256 * 256) = (a * 256 + b) div 256"
    unfolding div_mult2_eq d ..
  then show "(a * 65536 + b * 256 + c) div 65536 = a"
    using assms(2) by simp
  show "(a * 65536 + b * 256 + c) mod 256 = c"
    unfolding e mod_mult_self3 using assms(1) by simp
qed

lemma sextets_sum: "n div 262144 * 262144 + n div 4096 mod 64 * 4096 + n div 64 mod 64 * 64 + n mod 64
    = (n :: nat)"
proof -
  have "n div 4096 = n div 64 div 64" "n div 262144 = n div 4096 div 64"
    by (simp_all flip: div_mult2_eq)
  then show ?thesis
    using div_mult_mod_eq [of n 64] div_mult_mod_eq [of "n div 64" 64]
      div_mult_mod_eq [of "n div 4096" 64] by linarith
qed

lemma sextets3_sum: "n div 4096 * 4096 + n div 64 mod 64 * 64 + n mod 64 = (n :: nat)"
proof -
  have "n div 4096 = n div 64 div 64"
    by (simp flip: div_mult2_eq)
  then show ?thesis
    using div_mult_mod_eq [of n 64] div_mult_mod_eq [of "n div 64" 64] by linarith
qed

lemma b64_char_simps [simp]:
  "n < 64 \<Longrightarrow> b64_value (b64_char n) = Some n" "n < 64 \<Longrightarrow> b64_char n \<noteq> CHR ''=''"
  using b64_char_facts by blast+

lemma byte_bounds:
  "bval a * 16 div 64 < 64"
  "(bval a * 256 + bval b) * 4 div 4096 < 64"
  "(bval a * 65536 + bval b * 256 + bval c) div 262144 < 64"
  using bval_less [of a] bval_less [of b] bval_less [of c]
  by (auto intro!: less_mult_imp_div_less simp del: bval_less)

lemma b64_quanta_encode: "b64_quanta (b64_encode s) = Some s"
proof (induction s rule: b64_encode.induct)
  case (2 a)
  have "bval a * 16 div 64 * 64 + bval a * 16 mod 64 = bval a * 16"
    by (rule div_mult_mod_eq)
  then show ?case
    using byte_bounds(1) [of a]
    by (simp only: b64_encode.simps b64_quanta.simps Let_def b64_char_simps mod_less_divisor) simp
next
  case (3 a b)
  define n where "n = (bval a * 256 + bval b) * 4"
  have "n div 4096 < 64"
    using byte_bounds(2) n_def by simp
  moreover have "n div 4 div 256 = bval a" "n div 4 mod 256 = bval b"
    by (simp_all add: n_def)
  ultimately show ?case
    using sextets3_sum [of n] unfolding b64_encode.simps Let_def n_def [symmetric]
    by (simp add: Let_def)
next
  case (4 a b c r)
  define n where "n = bval a * 65536 + bval b * 256 + bval c"
  have "n div 262144 < 64"
    using byte_bounds(3) n_def by simp
  moreover have "n div 65536 = bval a" "n div 256 mod 256 = bval b" "n mod 256 = bval c"
    using byte_groups [of "bval c" "bval b" "bval a"] by (simp_all add: n_def)
  ultimately show ?case
    using sextets_sum [of n] 4 unfolding b64_encode.simps Let_def n_def [symmetric]
    by (simp add: Let_def)
qed simp

lemma b64_encode_graph: "list_all is_graph (b64_encode s)"
proof (induction s rule: b64_encode.induct)
  have g: "\<And>n. n < 64 \<Longrightarrow> is_graph (b64_char n)"
    using b64_char_facts by blast
  { case 2 show ?case
      using byte_bounds(1) by (simp add: Let_def g) (simp add: is_graph_def) }
  { case 3 show ?case
      using byte_bounds(2) by (simp add: Let_def g del: add_mult_distrib) (simp add: is_graph_def) }
  { case 4 then show ?case
      using byte_bounds(3) by (simp add: Let_def g) }
qed simp

lemma b64_decode_encode: "b64_decode (b64_encode s) = Some s"
proof -
  have "\<forall>c \<in> set (b64_encode s). c \<noteq> CHR 0x0D \<and> c \<noteq> CHR 0x0A"
    using b64_encode_graph [of s] by (fastforce simp: list_all_iff is_graph_def)
  then have "filter (\<lambda>c. c \<noteq> CHR 0x0D \<and> c \<noteq> CHR 0x0A) (b64_encode s) = b64_encode s"
    by (simp add: filter_id_conv)
  then show ?thesis
    by (simp add: b64_decode_def b64_quanta_encode)
qed

lemma length_b64_encode: "length (b64_encode s) = (length s + 2) div 3 * 4"
proof (induction s rule: b64_encode.induct)
  case (4 a b c r)
  have "(length r + 3 + 2) div 3 = (length r + 2) div 3 + 1"
    by presburger
  then show ?case
    using 4 by (simp add: Let_def add.commute)
qed (simp_all add: Let_def)

end
