(* ===== verification/Slider.thy ===== *)
theory Slider
  imports Complex_Main Prelude Json Base64 "HOL-Library.Multiset" "HOL-Library.Product_Lexorder"
    "HOL-Library.Signed_Division" "HOL-Library.Word"
begin

text \<open>
  The slider captcha (\<open>core/captcha_v2_slider.go\<close>): the payload of the provider (grid size, list of
  swaps, attempts) is decoded, every prefix of the swap list is a candidate permutation of the tiles,
  the candidates are scored by the differences along the seams of the permuted picture and ranked,
  and the first ones are tried in that order. Pictures are functions from pixels to colours, the
  scores of the text rows are exact reals (the code rounds them to \<open>float64\<close>), a run-time panic is a
  value of its own.
\<close>

unbundle bit_operations_syntax

section \<open>Results, conversions\<close>

datatype 'a outcome = Panic | Fails string | Returns 'a

text \<open>\<open>int(f)\<close> of a \<open>float64\<close>; out of range the processor's value on amd64.\<close>

definition float_to_int :: "rat \<Rightarrow> int" where
  "float_to_int q = (if int64_ok (trunc_rat q) then trunc_rat q else - (2 ^ 63))"

section \<open>The payload\<close>

definition splitSliderStepsV2 :: "int list \<Rightarrow> string + int \<times> int list \<times> int" where
  "splitSliderStepsV2 steps =
     (if length steps < 3 then Inl ''slider steps payload too short''
      else let gsize = steps ! 0 in
        if gsize \<le> 0 then Inl (''invalid slider size: '' @ fmt_int gsize)
        else
          let t = drop 1 steps;
              odd_tail = length t mod 2 \<noteq> 0;
              attempts = (if odd_tail then t ! (length t - 1) else 4);
              t = (if odd_tail then take (length t - 1) t else t);
              attempts = (if attempts \<le> 0 then 4 else attempts)
          in if length t = 0 \<or> length t mod 2 \<noteq> 0 then Inl ''invalid slider swap payload''
             else Inr (gsize, t, attempts))"

text \<open>
  \<open>captchaV2StringifyAny\<close>; the text of numbers (\<open>FormatFloat\<close> with the shortest form) and of
  composed values (\<open>json.Marshal\<close>) is the argument \<open>enc\<close>. The argument is the look-up of a key.
\<close>

fun captchaV2StringifyAny :: "(json \<Rightarrow> string) \<Rightarrow> json option \<Rightarrow> string" where
  "captchaV2StringifyAny enc None = []"
| "captchaV2StringifyAny enc (Some JNull) = []"
| "captchaV2StringifyAny enc (Some (JStr s)) = s"
| "captchaV2StringifyAny enc (Some (JBool b)) = (if b then ''true'' else ''false'')"
| "captchaV2StringifyAny enc (Some v) = enc v"

fun slider_step :: "json \<Rightarrow> int option" where
  "slider_step (JNum q) = Some (float_to_int q)"
| "slider_step (JStr s) = atoi (trim_space s)"
| "slider_step v = None"

text \<open>\<open>fv\<close> is the text that the verb \<open>%v\<close> gives a decoded value.\<close>

fun slider_steps :: "(json \<Rightarrow> string) \<Rightarrow> json list \<Rightarrow> string + int list" where
  "slider_steps fv [] = Inr []"
| "slider_steps fv (v # vs) =
     (case slider_step v of
        None \<Rightarrow> Inl (''invalid numeric value: '' @ fv v)
      | Some n \<Rightarrow> (case slider_steps fv vs of Inl e \<Rightarrow> Inl e | Inr ns \<Rightarrow> Inr (n # ns)))"

section \<open>Pictures and tiles\<close>

record rect =
  rx0 :: int
  ry0 :: int
  rx1 :: int
  ry1 :: int

text \<open>\<open>image.Rect\<close>, \<open>Dx\<close> and \<open>Dy\<close> of the library.\<close>

definition mk_rect :: "int \<Rightarrow> int \<Rightarrow> int \<Rightarrow> int \<Rightarrow> rect" where
  "mk_rect x0 y0 x1 y1 = \<lparr>rx0 = min x0 x1, ry0 = min y0 y1, rx1 = max x0 x1, ry1 = max y0 y1\<rparr>"

definition rdx :: "rect \<Rightarrow> int" where "rdx r = rx1 r - rx0 r"
definition rdy :: "rect \<Rightarrow> int" where "rdy r = ry1 r - ry0 r"

record color =
  cr :: "32 word"
  cg :: "32 word"
  cb :: "32 word"

record image =
  ibounds :: rect
  iat :: "int \<Rightarrow> int \<Rightarrow> color"

definition in_rect :: "rect \<Rightarrow> int \<times> int \<Rightarrow> bool" where
  "in_rect r p \<longleftrightarrow> rx0 r \<le> fst p \<and> fst p < rx1 r \<and> ry0 r \<le> snd p \<and> snd p < ry1 r"

record puzzle =
  pImage :: image
  pSize :: int
  pSwaps :: "int list"
  pAttempts :: int

text \<open>\<open>image.Decode\<close> is the argument \<open>dec\<close>.\<close>

definition parseSliderPuzzleV2 ::
  "(json \<Rightarrow> string) \<Rightarrow> (json \<Rightarrow> string) \<Rightarrow> (string \<Rightarrow> string + image) \<Rightarrow> jmap \<Rightarrow> string + puzzle"
  where
  "parseSliderPuzzleV2 enc fv dec raw =
     (case as_obj (jget raw ''response'') of
        None \<Rightarrow> Inl (''invalid slider content response: '' @ fv (JObj raw))
      | Some resp \<Rightarrow>
          let status = captchaV2StringifyAny enc (jget resp ''status'') in
          if \<not> equal_fold ''ok'' status then Inl (''slider getContent status: '' @ status)
          else let rawImage = captchaV2StringifyAny enc (jget resp ''image'') in
          if rawImage = [] then Inl ''slider image missing''
          else (case as_arr (jget resp ''steps'') of
             None \<Rightarrow> Inl ''slider steps missing''
           | Some rawSteps \<Rightarrow>
               (case slider_steps fv rawSteps of
                  Inl e \<Rightarrow> Inl e
                | Inr steps \<Rightarrow>
                    (case splitSliderStepsV2 steps of
                       Inl e \<Rightarrow> Inl e
                     | Inr (gsize, swaps, attempts) \<Rightarrow>
                         (case b64_decode rawImage of
                            None \<Rightarrow> Inl ''decode slider image: illegal base64 data''
                          | Some bytes \<Rightarrow>
                              (case dec bytes of
                                 Inl e \<Rightarrow> Inl (''decode slider image: '' @ e)
                               | Inr img \<Rightarrow>
                                   Inr \<lparr>pImage = img, pSize = gsize, pSwaps = swaps,
                                        pAttempts = attempts\<rparr>))))))"

section \<open>Candidates\<close>

definition activeSwapsForIndexV2 :: "int list \<Rightarrow> int \<Rightarrow> int list" where
  "activeSwapsForIndexV2 swaps index =
     (if index \<le> 0 then [] else take (min (nat (index * 2)) (length swaps)) swaps)"

text \<open>The loop of \<open>applySliderSwapsV2\<close>; a slice access out of range would panic, the guard forbids it.\<close>

fun apply_swaps :: "int \<Rightarrow> int list \<Rightarrow> int list \<Rightarrow> string + int list" where
  "apply_swaps tc (l # r # s) m =
     (if l < 0 \<or> r < 0 \<or> l \<ge> tc \<or> r \<ge> tc
      then Inl (''slider step out of range: '' @ fmt_int l @ '','' @ fmt_int r)
      else apply_swaps tc s (m[nat l := m ! nat r, nat r := m ! nat l]))"
| "apply_swaps tc s m = Inr m"

definition applySliderSwapsV2 :: "int \<Rightarrow> int list \<Rightarrow> string + int list" where
  "applySliderSwapsV2 gridSize swaps =
     (let tileCount = wrap64 (gridSize * gridSize) in
      if tileCount \<le> 0 then Inl (''invalid slider tile count: '' @ fmt_int tileCount)
      else if length swaps mod 2 \<noteq> 0
      then Inl (''invalid slider swaps length: '' @ fmt_int (int (length swaps)))
      else apply_swaps tileCount swaps [0..tileCount - 1])"

definition sliderTileRect :: "rect \<Rightarrow> int \<Rightarrow> int \<Rightarrow> rect" where
  "sliderTileRect b g i =
     (let col = i smod g; row = i sdiv g
      in mk_rect (rx0 b + (col * rdx b) sdiv g) (ry0 b + (row * rdy b) sdiv g)
           (rx0 b + ((col + 1) * rdx b) sdiv g) (ry0 b + ((row + 1) * rdy b) sdiv g))"

section \<open>Colours\<close>

text \<open>The upper byte of a channel as a signed 64-bit integer.\<close>

definition hi_byte :: "32 word \<Rightarrow> int" where
  "hi_byte w = uint (drop_bit 8 w)"

definition pixelDiff :: "color \<Rightarrow> color \<Rightarrow> int" where
  "pixelDiff a b =
     (let dr = hi_byte (cr a) - hi_byte (cr b);
          dg = hi_byte (cg a) - hi_byte (cg b);
          db = hi_byte (cb a) - hi_byte (cb b);
          dr = (if dr < 0 then - dr else dr);
          dg = (if dg < 0 then - dg else dg);
          db = (if db < 0 then - db else db)
      in dr + dg + db)"

definition absIntV2 :: "int \<Rightarrow> int" where
  "absIntV2 v = (if v < 0 then - v else v)"

definition absFloatV2 :: "real \<Rightarrow> real" where
  "absFloatV2 v = (if v < 0 then - v else v)"

definition luma :: "color \<Rightarrow> 8 word" where
  "luma c = ucast ((299 * drop_bit 8 (cr c) + 587 * drop_bit 8 (cg c) + 114 * drop_bit 8 (cb c))
     div 1000)"

text \<open>The source pixel of a destination pixel, as computed by \<open>sampleColorMappedV2\<close>.\<close>

definition sample_xy :: "rect \<Rightarrow> rect \<Rightarrow> int \<Rightarrow> int \<Rightarrow> int \<times> int" where
  "sample_xy dst src x y =
     (let dx = (if rdx dst < 1 then 1 else rdx dst);
          dy = (if rdy dst < 1 then 1 else rdy dst)
      in (rx0 src + ((x - rx0 dst) * rdx src) sdiv dx, ry0 src + ((y - ry0 dst) * rdy src) sdiv dy))"

definition sampleColorMappedV2 :: "image \<Rightarrow> rect \<Rightarrow> rect \<Rightarrow> int \<Rightarrow> int \<Rightarrow> color" where
  "sampleColorMappedV2 img dst src x y =
     (let p = sample_xy dst src x y in iat img (fst p) (snd p))"

definition sampleLumaMappedV2 :: "image \<Rightarrow> rect \<Rightarrow> rect \<Rightarrow> int \<Rightarrow> int \<Rightarrow> 8 word" where
  "sampleLumaMappedV2 img dst src x y = luma (sampleColorMappedV2 img dst src x y)"

section \<open>Seams\<close>

text \<open>\<open>mapping[i]\<close>: no value is the run-time panic.\<close>

definition at_index :: "int list \<Rightarrow> int \<Rightarrow> int option" where
  "at_index m i = (if 0 \<le> i \<and> i < int (length m) then Some (m ! nat i) else None)"

record tile_pair =
  dst1 :: rect
  src1 :: rect
  dst2 :: rect
  src2 :: rect

text \<open>The destination and source rectangles of two neighbouring tiles.\<close>

definition tile_pair_of :: "rect \<Rightarrow> int \<Rightarrow> int list \<Rightarrow> int \<Rightarrow> int \<Rightarrow> tile_pair option" where
  "tile_pair_of b g m i j =
     (case (at_index m i, at_index m j) of
        (Some si, Some sj) \<Rightarrow>
          Some \<lparr>dst1 = sliderTileRect b g i, src1 = sliderTileRect b g si,
               dst2 = sliderTileRect b g j, src2 = sliderTileRect b g sj\<rparr>
      | _ \<Rightarrow> None)"

text \<open>Left and right neighbours, row by row, and upper and lower ones.\<close>

definition h_pairs :: "rect \<Rightarrow> int \<Rightarrow> int list \<Rightarrow> tile_pair option list" where
  "h_pairs b g m =
     concat (map (\<lambda>row. map (\<lambda>col.
         let l = wrap64 (wrap64 (row * g) + col) in tile_pair_of b g m l (wrap64 (l + 1)))
       [0..g - 2]) [0..g - 1])"

definition v_pairs :: "rect \<Rightarrow> int \<Rightarrow> int list \<Rightarrow> tile_pair option list" where
  "v_pairs b g m =
     concat (map (\<lambda>row. map (\<lambda>col.
         tile_pair_of b g m (wrap64 (wrap64 (row * g) + col)) (wrap64 (wrap64 ((row + 1) * g) + col)))
       [0..g - 1]) [0..g - 2])"

text \<open>The pixels that meet along a vertical and along a horizontal seam.\<close>

definition h_meets :: "tile_pair \<Rightarrow> int list" where
  "h_meets t =
     (let h = rdy (dst1 t); h = (if rdy (dst2 t) < h then rdy (dst2 t) else h)
      in map (\<lambda>y. ry0 (dst1 t) + y) [0..h - 1])"

definition v_meets :: "tile_pair \<Rightarrow> int list" where
  "v_meets t =
     (let w = rdx (dst1 t); w = (if rdx (dst2 t) < w then rdx (dst2 t) else w)
      in map (\<lambda>x. rx0 (dst1 t) + x) [0..w - 1])"

definition h_luma :: "image \<Rightarrow> tile_pair \<Rightarrow> int" where
  "h_luma img t = (\<Sum>yy\<leftarrow>h_meets t. absIntV2
     (uint (sampleLumaMappedV2 img (dst1 t) (src1 t) (rx1 (dst1 t) - 1) yy)
      - uint (sampleLumaMappedV2 img (dst2 t) (src2 t) (rx0 (dst2 t)) yy)))"

definition v_luma :: "image \<Rightarrow> tile_pair \<Rightarrow> int" where
  "v_luma img t = (\<Sum>xx\<leftarrow>v_meets t. absIntV2
     (uint (sampleLumaMappedV2 img (dst1 t) (src1 t) xx (ry1 (dst1 t) - 1))
      - uint (sampleLumaMappedV2 img (dst2 t) (src2 t) xx (ry0 (dst2 t)))))"

definition seamScoreLumaV2 :: "image \<Rightarrow> int \<Rightarrow> int list \<Rightarrow> int option" where
  "seamScoreLumaV2 img g m =
     (case those (h_pairs (ibounds img) g m) of
        None \<Rightarrow> None
      | Some hs \<Rightarrow>
          (case those (v_pairs (ibounds img) g m) of
             None \<Rightarrow> None
           | Some vs \<Rightarrow> Some (sum_list (map (h_luma img) hs) + sum_list (map (v_luma img) vs))))"

definition text_weight :: "rect \<Rightarrow> int \<Rightarrow> real" where
  "text_weight b y =
     (let height = of_int (rdy b); top = of_int (ry0 b);
          sigma = height * 0.14;
          sigma = (if sigma < 1 then 1 else sigma);
          yf = of_int y;
          d0 = absFloatV2 (yf - (top + 0.2 * height));
          d1 = absFloatV2 (yf - (top + 0.5 * height));
          d2 = absFloatV2 (yf - (top + 0.8 * height));
          best = (if d1 < d0 then d1 else d0);
          best = (if d2 < best then d2 else best)
      in 1 + 3 * exp (- (best * best) / (2 * sigma * sigma)))"

definition blue_diff :: "color \<Rightarrow> color \<Rightarrow> real" where
  "blue_diff a b = of_int (absIntV2 (hi_byte (cb a) - hi_byte (cb b)))"

definition h_colors :: "image \<Rightarrow> tile_pair \<Rightarrow> (int \<times> color \<times> color) list" where
  "h_colors img t = map (\<lambda>yy. (yy,
      sampleColorMappedV2 img (dst1 t) (src1 t) (rx1 (dst1 t) - 1) yy,
      sampleColorMappedV2 img (dst2 t) (src2 t) (rx0 (dst2 t)) yy)) (h_meets t)"

definition v_colors :: "image \<Rightarrow> tile_pair \<Rightarrow> (int \<times> color \<times> color) list" where
  "v_colors img t = map (\<lambda>xx. (xx,
      sampleColorMappedV2 img (dst1 t) (src1 t) xx (ry1 (dst1 t) - 1),
      sampleColorMappedV2 img (dst2 t) (src2 t) xx (ry0 (dst2 t)))) (v_meets t)"

definition seamScoreRGBTextV2 :: "image \<Rightarrow> int \<Rightarrow> int list \<Rightarrow> (int \<times> real) option" where
  "seamScoreRGBTextV2 img g m =
     (case those (h_pairs (ibounds img) g m) of
        None \<Rightarrow> None
      | Some hs \<Rightarrow>
          (case those (v_pairs (ibounds img) g m) of
             None \<Rightarrow> None
           | Some vs \<Rightarrow>
               let hc = concat (map (h_colors img) hs); vc = concat (map (v_colors img) vs)
               in Some ((\<Sum>(y, a, b)\<leftarrow>hc. pixelDiff a b) + (\<Sum>(x, a, b)\<leftarrow>vc. pixelDiff a b),
                    (\<Sum>(y, a, b)\<leftarrow>hc. text_weight (ibounds img) y * blue_diff a b)
                    + (\<Sum>(x, a, b)\<leftarrow>vc. 0.65 * blue_diff a b))))"

section \<open>Ranking\<close>

record guess =
  gIndex :: int
  gSwaps :: "int list"
  gScore :: int
  gScoreRGB :: int
  gScoreLuma :: int
  gScoreText :: real
  gRank :: int

text \<open>The first loop: every candidate with its brightness score.\<close>

fun luma_guesses :: "image \<Rightarrow> int \<Rightarrow> int list \<Rightarrow> int list \<Rightarrow> guess list outcome" where
  "luma_guesses img g swaps [] = Returns []"
| "luma_guesses img g swaps (idx # rest) =
     (let active = activeSwapsForIndexV2 swaps idx in
      case applySliderSwapsV2 g active of
        Inl e \<Rightarrow> Fails e
      | Inr m \<Rightarrow>
          (case seamScoreLumaV2 img g m of
             None \<Rightarrow> Panic
           | Some s \<Rightarrow>
               (case luma_guesses img g swaps rest of
                  Returns gs \<Rightarrow>
                    Returns (\<lparr>gIndex = idx, gSwaps = active, gScore = 0, gScoreRGB = 0,
                             gScoreLuma = s, gScoreText = 0, gRank = 0\<rparr> # gs)
                | r \<Rightarrow> r)))"

text \<open>
  The second stage scores the candidates whose index is in the set; the goroutines write each result
  to its own candidate, so the order in which they run does not matter.
\<close>

fun stage2_guesses :: "image \<Rightarrow> int \<Rightarrow> int set \<Rightarrow> guess list \<Rightarrow> guess list outcome" where
  "stage2_guesses img g S [] = Returns []"
| "stage2_guesses img g S (x # xs) =
     (case stage2_guesses img g S xs of
        Returns ys \<Rightarrow>
          if gIndex x \<in> S then
            (case applySliderSwapsV2 g (gSwaps x) of
               Inl e \<Rightarrow> Fails e
             | Inr m \<Rightarrow>
                 (case seamScoreRGBTextV2 img g m of
                    None \<Rightarrow> Panic
                  | Some (rgb, txt) \<Rightarrow> Returns (x\<lparr>gScoreRGB := rgb, gScoreText := txt\<rparr> # ys)))
          else Returns (x # ys)
      | r \<Rightarrow> r)"

text \<open>\<open>for rank, g := range order { m[g.Index] = rank }\<close>; a missing key reads as zero.\<close>

definition rank_map :: "guess list \<Rightarrow> int \<Rightarrow> int option" where
  "rank_map order = map_of (rev (zip (map gIndex order) (map int [0..<length order])))"

definition rank_of :: "guess list \<Rightarrow> int \<Rightarrow> int" where
  "rank_of order i = (case rank_map order i of Some r \<Rightarrow> r | None \<Rightarrow> 0)"

abbreviation by_luma :: "guess \<Rightarrow> int \<times> int" where
  "by_luma x \<equiv> (gScoreLuma x, gIndex x)"
abbreviation by_rgb :: "guess \<Rightarrow> int \<times> int" where
  "by_rgb x \<equiv> (gScoreRGB x, gIndex x)"
abbreviation by_text :: "guess \<Rightarrow> real \<times> int" where
  "by_text x \<equiv> (gScoreText x, gIndex x)"
abbreviation by_rank :: "guess \<Rightarrow> int \<times> int \<times> int" where
  "by_rank x \<equiv> (gRank x, gScoreLuma x, gIndex x)"

definition consensus :: "guess list \<Rightarrow> guess list \<Rightarrow> int set \<Rightarrow> guess list \<Rightarrow> guess list" where
  "consensus lumaOrder stage2 S gs =
     (let n = int (length gs);
          rgbOrder = sort_key by_rgb stage2;
          textOrder = sort_key by_text stage2
      in map (\<lambda>x.
           let r = rank_of lumaOrder (gIndex x)
             + (if gIndex x \<in> S then rank_of rgbOrder (gIndex x) + rank_of textOrder (gIndex x) else n)
           in x\<lparr>gRank := r, gScore := r\<rparr>) gs)"

definition rankSliderGuessesV2 :: "image \<Rightarrow> int \<Rightarrow> int list \<Rightarrow> guess list outcome" where
  "rankSliderGuessesV2 img gridSize swaps =
     (let candidateCount = length swaps div 2 in
      if candidateCount = 0 then Fails ''slider has no candidates''
      else
        case luma_guesses img gridSize swaps [1..int candidateCount] of
          Returns guesses \<Rightarrow>
            let lumaOrder = sort_key by_luma guesses;
                stage2Count = (if candidateCount > 12 then 12 else candidateCount);
                S = gIndex ` set (take stage2Count lumaOrder)
            in (case stage2_guesses img gridSize S guesses of
                  Returns guesses \<Rightarrow>
                    Returns (sort_key by_rank
                      (consensus lumaOrder (filter (\<lambda>x. gIndex x \<in> S) guesses) S guesses))
                | r \<Rightarrow> r)
        | r \<Rightarrow> r)"

section \<open>The tiles stay a permutation\<close>

lemma apply_swaps_mset:
  "apply_swaps tc s m = Inr m' \<Longrightarrow> tc = int (length m) \<Longrightarrow> mset m' = mset m"
proof (induction tc s m arbitrary: m' rule: apply_swaps.induct)
  case (1 tc l r s m)
  then have "nat l < length m" "nat r < length m"
    by (auto split: if_splits)
  then show ?case
    using 1 by (auto simp: mset_swap split: if_splits)
qed auto

lemma apply_swaps_total:
  "set s \<subseteq> {0..<tc} \<Longrightarrow> \<exists>m'. apply_swaps tc s m = Inr m'"
  by (induction tc s m rule: apply_swaps.induct) auto

lemma applySliderSwapsV2_mset:
  assumes "applySliderSwapsV2 g s = Inr m"
  shows "mset m = mset [0..wrap64 (g * g) - 1]" and "0 < wrap64 (g * g)" and "even (length s)"
proof -
  have a: "0 < wrap64 (g * g)" "even (length s)"
    "apply_swaps (wrap64 (g * g)) s [0..wrap64 (g * g) - 1] = Inr m"
    using assms by (auto simp: applySliderSwapsV2_def Let_def split: if_splits)
  then have "mset m = mset [0..wrap64 (g * g) - 1]"
    by (intro apply_swaps_mset) auto
  with a show "mset m = mset [0..wrap64 (g * g) - 1]" "0 < wrap64 (g * g)" "even (length s)"
    by blast+
qed

lemma applySliderSwapsV2_set:
  assumes "applySliderSwapsV2 g s = Inr m"
  shows "set m = {0..<wrap64 (g * g)}" and "length m = nat (wrap64 (g * g))"
proof -
  have m: "mset m = mset [0..wrap64 (g * g) - 1]"
    using applySliderSwapsV2_mset [OF assms] by blast
  have "set [0..w - 1] = {0..<w}" for w :: int
    by auto
  with mset_eq_setD [OF m] show "set m = {0..<wrap64 (g * g)}"
    by simp
  show "length m = nat (wrap64 (g * g))"
    using mset_eq_length [OF m] by simp
qed

lemma applySliderSwapsV2_total:
  assumes "0 < g" and "g * g < 2 ^ 63" and "even (length s)" and "set s \<subseteq> {0..<g * g}"
  shows "\<exists>m. applySliderSwapsV2 g s = Inr m"
proof -
  have "0 < g * g"
    using assms(1) by simp
  then have "wrap64 (g * g) = g * g"
    using assms(2) by (intro wrap64_id) auto
  then show ?thesis
    using apply_swaps_total [OF assms(4)] \<open>0 < g * g\<close> assms(3)
    by (simp add: applySliderSwapsV2_def Let_def)
qed

text \<open>The same transpositions in reverse order restore the picture.\<close>

fun rev_pairs :: "int list \<Rightarrow> int list" where
  "rev_pairs (l # r # s) = rev_pairs s @ [l, r]"
| "rev_pairs s = []"

lemma length_rev_pairs: "even (length s) \<Longrightarrow> length (rev_pairs s) = length s"
  by (induction s rule: rev_pairs.induct) auto

lemma apply_swaps_append: "even (length s) \<Longrightarrow>
    apply_swaps tc (s @ t) m =
      (case apply_swaps tc s m of Inl e \<Rightarrow> Inl e | Inr m' \<Rightarrow> apply_swaps tc t m')"
  by (induction tc s m rule: apply_swaps.induct) auto

lemma swap_twice: "i < length m \<Longrightarrow> j < length m \<Longrightarrow>
    m[i := m ! j, j := m ! i, i := m[i := m ! j, j := m ! i] ! j,
      j := m[i := m ! j, j := m ! i] ! i] = m"
  by (intro nth_equalityI) (auto simp: nth_list_update)

lemma apply_swaps_undo:
  "apply_swaps tc s m = Inr m' \<Longrightarrow> even (length s) \<Longrightarrow> tc = int (length m) \<Longrightarrow>
    apply_swaps tc (rev_pairs s) m' = Inr m"
proof (induction tc s m arbitrary: m' rule: apply_swaps.induct)
  case (1 tc l r s m)
  let ?m = "m[nat l := m ! nat r, nat r := m ! nat l]"
  have lr: "0 \<le> l" "0 \<le> r" "l < tc" "r < tc" "apply_swaps tc s ?m = Inr m'"
    using 1(2) by (auto split: if_splits)
  have "apply_swaps tc (rev_pairs s) m' = Inr ?m"
    using 1(1,3,4) lr by auto
  moreover have "apply_swaps tc [l, r] ?m = Inr m"
    using lr 1(4) swap_twice [of "nat l" m "nat r"] by simp
  moreover have "even (length (rev_pairs s))"
    using 1(3) length_rev_pairs [of s] by simp
  ultimately show ?case
    by (simp only: rev_pairs.simps apply_swaps_append sum.case)
qed auto

section \<open>Every pixel that is read is in the picture\<close>

lemma sdiv_nonneg: "0 \<le> a \<Longrightarrow> 0 < b \<Longrightarrow> a sdiv b = a div (b :: int)"
  by (cases "a = 0") (simp_all add: signed_divide_int_def)

lemma smod_nonneg: "0 \<le> a \<Longrightarrow> 0 < b \<Longrightarrow> a smod b = a mod (b :: int)"
  by (cases "a = 0") (simp_all add: signed_modulo_int_def)

definition part_of :: "rect \<Rightarrow> rect \<Rightarrow> bool" where
  "part_of b t \<longleftrightarrow> rx0 b \<le> rx0 t \<and> rx0 t < rx1 t \<and> rx1 t \<le> rx1 b
     \<and> ry0 b \<le> ry0 t \<and> ry0 t < ry1 t \<and> ry1 t \<le> ry1 b"

lemma slice_bounds:
  fixes c d g :: int
  assumes "0 \<le> c" and "c < g" and "g \<le> d"
  shows "0 \<le> c * d div g" and "c * d div g < (c + 1) * d div g" and "(c + 1) * d div g \<le> d"
proof -
  have g: "0 < g"
    using assms by simp
  show "0 \<le> c * d div g"
    using assms g by (simp add: pos_imp_zdiv_nonneg_iff)
  have "c * d div g + 1 = (c * d + 1 * g) div g"
    using g by simp
  also have "\<dots> \<le> (c + 1) * d div g"
    using g assms(3) by (intro zdiv_mono1) (auto simp: algebra_simps)
  finally show "c * d div g < (c + 1) * d div g"
    by simp
  have "(c + 1) * d \<le> g * d"
    using assms by (intro mult_right_mono) auto
  then have "(c + 1) * d div g \<le> g * d div g"
    using g by (intro zdiv_mono1) auto
  then show "(c + 1) * d div g \<le> d"
    using g by simp
qed

lemma sliderTileRect_eq:
  assumes "0 < g" and "0 \<le> i" and "0 \<le> rdx b" and "0 \<le> rdy b"
  shows "sliderTileRect b g i =
    mk_rect (rx0 b + i mod g * rdx b div g) (ry0 b + i div g * rdy b div g)
      (rx0 b + (i mod g + 1) * rdx b div g) (ry0 b + (i div g + 1) * rdy b div g)"
proof -
  have "0 \<le> i mod g" "0 \<le> i div g"
    using assms by (auto simp: pos_imp_zdiv_nonneg_iff)
  then show ?thesis
    using assms by (simp add: sliderTileRect_def Let_def sdiv_nonneg smod_nonneg)
qed

lemma index_div_mod:
  fixes i g :: int
  assumes "0 < g" and "0 \<le> i" and "i < g * g"
  shows "0 \<le> i mod g" and "i mod g < g" and "0 \<le> i div g" and "i div g < g"
proof -
  show "0 \<le> i mod g" "i mod g < g" "0 \<le> i div g"
    using assms by (auto simp: pos_imp_zdiv_nonneg_iff)
  have "i div g * g \<le> i"
    using assms(1) div_mult_mod_eq [of i g] pos_mod_sign [of g i] by linarith
  then have "i div g * g < g * g"
    using assms(3) by linarith
  then show "i div g < g"
    using assms(1) by simp
qed

lemma tile_part:
  assumes "0 < g" and "g \<le> rdx b" and "g \<le> rdy b" and "0 \<le> i" and "i < g * g"
  shows "part_of b (sliderTileRect b g i)"
    and "ry0 (sliderTileRect b g i) = ry0 b + i div g * rdy b div g"
    and "rx0 (sliderTileRect b g i) = rx0 b + i mod g * rdx b div g"
proof -
  note im = index_div_mod [OF assms(1,4,5)]
  note x = slice_bounds [OF im(1,2) assms(2)] and y = slice_bounds [OF im(3,4) assms(3)]
  have e: "sliderTileRect b g i =
    mk_rect (rx0 b + i mod g * rdx b div g) (ry0 b + i div g * rdy b div g)
      (rx0 b + (i mod g + 1) * rdx b div g) (ry0 b + (i div g + 1) * rdy b div g)"
    using assms by (intro sliderTileRect_eq) auto
  show "part_of b (sliderTileRect b g i)"
    unfolding e mk_rect_def part_of_def using x y by (simp add: rdx_def rdy_def)
  show "ry0 (sliderTileRect b g i) = ry0 b + i div g * rdy b div g"
    "rx0 (sliderTileRect b g i) = rx0 b + i mod g * rdx b div g"
    unfolding e mk_rect_def using x y by simp_all
qed

lemma scaled_less:
  fixes a d s :: int
  assumes "0 \<le> a" and "a < d" and "0 < s"
  shows "0 \<le> a * s div d" and "a * s div d < s"
proof -
  show "0 \<le> a * s div d"
    using assms by (simp add: pos_imp_zdiv_nonneg_iff)
  have "a * s div d * d \<le> a * s"
    using assms div_mult_mod_eq [of "a * s" d] pos_mod_sign [of d "a * s"] by linarith
  moreover have "a * s < s * d"
    using assms by (simp add: mult.commute)
  ultimately have "a * s div d * d < s * d"
    by linarith
  then show "a * s div d < s"
    using assms by simp
qed

lemma sample_in:
  assumes "part_of b dst" and "part_of b src" and "in_rect dst (x, y)"
  shows "in_rect b (sample_xy dst src x y)"
proof -
  have d: "0 \<le> x - rx0 dst" "x - rx0 dst < rdx dst" "0 \<le> y - ry0 dst" "y - ry0 dst < rdy dst"
    "0 < rdx src" "0 < rdy src" "rdx dst \<ge> 1" "rdy dst \<ge> 1"
    using assms by (auto simp: part_of_def in_rect_def rdx_def rdy_def)
  have "sample_xy dst src x y = (rx0 src + (x - rx0 dst) * rdx src div rdx dst,
      ry0 src + (y - ry0 dst) * rdy src div rdy dst)"
    using d by (simp add: sample_xy_def Let_def sdiv_nonneg)
  then show ?thesis
    using scaled_less [OF d(1,2,5)] scaled_less [OF d(3,4,6)] assms(2)
    by (auto simp: in_rect_def part_of_def rdx_def rdy_def)
qed

lemma those_Some: "those xs = Some ys \<longleftrightarrow> xs = map Some ys"
  by (induction xs arbitrary: ys) (auto split: option.splits)

lemma those_total: "\<forall>x \<in> set xs. \<exists>y. x = Some y \<Longrightarrow> \<exists>ys. those xs = Some ys"
  by (induction xs) (auto split: option.splits)

lemma cell_index:
  fixes g row col :: int
  assumes "0 \<le> row" and "row < g" and "0 \<le> col" and "col < g" and "g * g < 2 ^ 63"
  shows "0 \<le> row * g + col" and "row * g + col < g * g" and "(row * g + col) div g = row"
    and "(row * g + col) mod g = col" and "wrap64 (wrap64 (row * g) + col) = row * g + col"
proof -
  have g: "0 < g"
    using assms by simp
  have r: "0 \<le> row * g" "row * g \<le> (g - 1) * g"
    using assms g by (auto intro: mult_right_mono)
  then show a: "0 \<le> row * g + col" and b: "row * g + col < g * g"
    using assms by (auto simp: algebra_simps)
  show "(row * g + col) div g = row" "(row * g + col) mod g = col"
    using assms g by simp_all
  have "- (2 ^ 63) \<le> row * g" "row * g < 2 ^ 63"
    using r(1) b assms(3,5) by linarith+
  then have "wrap64 (row * g) = row * g"
    by (rule wrap64_id)
  moreover have "wrap64 (row * g + col) = row * g + col"
    using a b assms(5) by (intro wrap64_id) auto
  ultimately show "wrap64 (wrap64 (row * g) + col) = row * g + col"
    by simp
qed

definition meets_right :: "rect \<Rightarrow> tile_pair \<Rightarrow> bool" where
  "meets_right b t \<longleftrightarrow> part_of b (dst1 t) \<and> part_of b (src1 t) \<and> part_of b (dst2 t) \<and>
     part_of b (src2 t) \<and> ry0 (dst1 t) = ry0 (dst2 t)"

definition meets_below :: "rect \<Rightarrow> tile_pair \<Rightarrow> bool" where
  "meets_below b t \<longleftrightarrow> part_of b (dst1 t) \<and> part_of b (src1 t) \<and> part_of b (dst2 t) \<and>
     part_of b (src2 t) \<and> rx0 (dst1 t) = rx0 (dst2 t)"

lemma tile_pair_total:
  assumes "length m = nat (g * g)" and "0 \<le> i" and "i < g * g" and "0 \<le> j" and "j < g * g"
  shows "tile_pair_of b g m i j = Some \<lparr>dst1 = sliderTileRect b g i,
    src1 = sliderTileRect b g (m ! nat i), dst2 = sliderTileRect b g j,
    src2 = sliderTileRect b g (m ! nat j)\<rparr>"
  using assms by (simp add: tile_pair_of_def at_index_def)

text \<open>A mapping of a grid whose number of tiles is a 64-bit integer.\<close>

definition grid_mapping :: "int \<Rightarrow> int list \<Rightarrow> bool" where
  "grid_mapping g m \<longleftrightarrow>
     0 < g \<and> g * g < 2 ^ 63 \<and> length m = nat (g * g) \<and> set m = {0..<g * g}"

lemma grid_mappingD:
  assumes "grid_mapping g m"
  shows "0 < g" "g * g < 2 ^ 63" "length m = nat (g * g)" "set m = {0..<g * g}"
  using assms by (auto simp: grid_mapping_def)

lemma h_pairs_total: assumes "grid_mapping g m" shows "\<exists>ts. those (h_pairs b g m) = Some ts"
proof (intro those_total ballI)
  note g = grid_mappingD(1,2) [OF assms] and len = grid_mappingD(3) [OF assms]
  fix x
  assume "x \<in> set (h_pairs b g m)"
  then obtain row col where rc: "0 \<le> row" "row < g" "0 \<le> col" "col < g - 1"
    and x: "x = (let l = wrap64 (wrap64 (row * g) + col) in tile_pair_of b g m l (wrap64 (l + 1)))"
    unfolding h_pairs_def by auto
  then have "0 \<le> row * g + col" "row * g + col + 1 < g * g" "wrap64 (wrap64 (row * g) + col) = row * g + col"
    using cell_index [of row g col] cell_index [of row g "col + 1"] g by auto
  moreover from this have "wrap64 (row * g + col + 1) = row * g + col + 1"
    using g by (intro wrap64_id) auto
  ultimately show "\<exists>y. x = Some y"
    using x len by (simp add: Let_def tile_pair_total)
qed

lemma v_pairs_total: assumes "grid_mapping g m" shows "\<exists>ts. those (v_pairs b g m) = Some ts"
proof (intro those_total ballI)
  note g = grid_mappingD(1,2) [OF assms] and len = grid_mappingD(3) [OF assms]
  fix x
  assume "x \<in> set (v_pairs b g m)"
  then obtain row col where rc: "0 \<le> row" "row < g - 1" "0 \<le> col" "col < g"
    and x: "x = tile_pair_of b g m (wrap64 (wrap64 (row * g) + col))
      (wrap64 (wrap64 ((row + 1) * g) + col))"
    unfolding v_pairs_def by auto
  then show "\<exists>y. x = Some y"
    using cell_index [of row g col] cell_index [of "row + 1" g col] g len
    by (simp add: tile_pair_total)
qed

lemma source_part:
  assumes "grid_mapping g m" and dim: "g \<le> rdx b" "g \<le> rdy b" and i: "0 \<le> i" "i < g * g"
  shows "part_of b (sliderTileRect b g (m ! nat i))"
proof -
  note g = grid_mappingD [OF assms(1)]
  have "m ! nat i \<in> set m"
    using g(3) i by (intro nth_mem) auto
  then show ?thesis
    using g(4) tile_part(1) [OF g(1) dim] by simp
qed

lemma h_pairs_meet:
  assumes map: "grid_mapping g m" and dim: "g \<le> rdx b" "g \<le> rdy b"
    and ts: "those (h_pairs b g m) = Some ts" "t \<in> set ts"
  shows "meets_right b t"
proof -
  note g = grid_mappingD(1,2) [OF map] and len = grid_mappingD(3) [OF map]
  note src = source_part [OF map dim]
  have "Some t \<in> set (h_pairs b g m)"
    using ts by (auto simp: those_Some)
  then obtain row col where rc: "0 \<le> row" "row < g" "0 \<le> col" "col < g - 1"
    and t: "Some t = (let l = wrap64 (wrap64 (row * g) + col) in tile_pair_of b g m l (wrap64 (l + 1)))"
    unfolding h_pairs_def by auto
  define l where "l = row * g + col"
  have l: "0 \<le> l" "l + 1 < g * g" "wrap64 (wrap64 (row * g) + col) = l" "l div g = row"
    "(l + 1) div g = row"
    using cell_index [of row g col] cell_index [of row g "col + 1"] g rc
    by (auto simp: l_def add.assoc)
  then have "wrap64 (l + 1) = l + 1"
    using g by (intro wrap64_id) auto
  then have "t = \<lparr>dst1 = sliderTileRect b g l, src1 = sliderTileRect b g (m ! nat l),
      dst2 = sliderTileRect b g (l + 1), src2 = sliderTileRect b g (m ! nat (l + 1))\<rparr>"
    using t l len by (simp add: Let_def tile_pair_total)
  then show ?thesis
    using l src [of l] src [of "l + 1"] tile_part [OF g(1) dim, of l]
      tile_part [OF g(1) dim, of "l + 1"] by (simp add: meets_right_def)
qed

lemma v_pairs_meet:
  assumes map: "grid_mapping g m" and dim: "g \<le> rdx b" "g \<le> rdy b"
    and ts: "those (v_pairs b g m) = Some ts" "t \<in> set ts"
  shows "meets_below b t"
proof -
  note g = grid_mappingD(1,2) [OF map] and len = grid_mappingD(3) [OF map]
  note src = source_part [OF map dim]
  have "Some t \<in> set (v_pairs b g m)"
    using ts by (auto simp: those_Some)
  then obtain row col where rc: "0 \<le> row" "row < g - 1" "0 \<le> col" "col < g"
    and t: "Some t = tile_pair_of b g m (wrap64 (wrap64 (row * g) + col))
      (wrap64 (wrap64 ((row + 1) * g) + col))"
    unfolding v_pairs_def by auto
  define u where "u = row * g + col"
  define d where "d = (row + 1) * g + col"
  have l: "0 \<le> u" "u < g * g" "wrap64 (wrap64 (row * g) + col) = u" "u mod g = col"
    "0 \<le> d" "d < g * g" "wrap64 (wrap64 ((row + 1) * g) + col) = d" "d mod g = col"
    using cell_index [of row g col] cell_index [of "row + 1" g col] g rc
    unfolding u_def d_def by auto
  then have "t = \<lparr>dst1 = sliderTileRect b g u, src1 = sliderTileRect b g (m ! nat u),
      dst2 = sliderTileRect b g d, src2 = sliderTileRect b g (m ! nat d)\<rparr>"
    using t len by (simp add: tile_pair_total)
  then show ?thesis
    using l src [of u] src [of d] tile_part [OF g(1) dim, of u]
      tile_part [OF g(1) dim, of d] by (simp add: meets_below_def)
qed

text \<open>Two pictures that cannot be told apart inside their common frame.\<close>

definition same_picture :: "image \<Rightarrow> image \<Rightarrow> bool" where
  "same_picture a b \<longleftrightarrow> ibounds a = ibounds b \<and>
     (\<forall>x y. in_rect (ibounds a) (x, y) \<longrightarrow> iat a x y = iat b x y)"

lemma sample_same:
  assumes "same_picture a b" and "part_of (ibounds a) dst" and "part_of (ibounds a) src"
    and "in_rect dst (x, y)"
  shows "sampleColorMappedV2 a dst src x y = sampleColorMappedV2 b dst src x y"
  using assms sample_in [OF assms(2-4)] unfolding same_picture_def sampleColorMappedV2_def Let_def
  by (metis prod.collapse)

lemma h_meets_in:
  assumes "meets_right b t" and "yy \<in> set (h_meets t)"
  shows "in_rect (dst1 t) (rx1 (dst1 t) - 1, yy)" and "in_rect (dst2 t) (rx0 (dst2 t), yy)"
  using assms by (auto simp: h_meets_def meets_right_def part_of_def in_rect_def rdy_def Let_def
    split: if_splits)

lemma v_meets_in:
  assumes "meets_below b t" and "xx \<in> set (v_meets t)"
  shows "in_rect (dst1 t) (xx, ry1 (dst1 t) - 1)" and "in_rect (dst2 t) (xx, ry0 (dst2 t))"
  using assms by (auto simp: v_meets_def meets_below_def part_of_def in_rect_def rdx_def Let_def
    split: if_splits)

lemma h_colors_same:
  assumes "same_picture a b" and "meets_right (ibounds a) t"
  shows "h_colors a t = h_colors b t" and "h_luma a t = h_luma b t"
proof -
  have e: "yy \<in> set (h_meets t) \<Longrightarrow>
    sampleColorMappedV2 a (dst1 t) (src1 t) (rx1 (dst1 t) - 1) yy
      = sampleColorMappedV2 b (dst1 t) (src1 t) (rx1 (dst1 t) - 1) yy \<and>
    sampleColorMappedV2 a (dst2 t) (src2 t) (rx0 (dst2 t)) yy
      = sampleColorMappedV2 b (dst2 t) (src2 t) (rx0 (dst2 t)) yy" for yy
    using sample_same [OF assms(1)] h_meets_in [OF assms(2)] assms(2)
    by (simp add: meets_right_def)
  then show "h_colors a t = h_colors b t"
    by (simp add: h_colors_def)
  have "map (\<lambda>yy. absIntV2
     (uint (sampleLumaMappedV2 a (dst1 t) (src1 t) (rx1 (dst1 t) - 1) yy)
      - uint (sampleLumaMappedV2 a (dst2 t) (src2 t) (rx0 (dst2 t)) yy))) (h_meets t)
    = map (\<lambda>yy. absIntV2
     (uint (sampleLumaMappedV2 b (dst1 t) (src1 t) (rx1 (dst1 t) - 1) yy)
      - uint (sampleLumaMappedV2 b (dst2 t) (src2 t) (rx0 (dst2 t)) yy))) (h_meets t)"
    using e by (simp add: sampleLumaMappedV2_def)
  then show "h_luma a t = h_luma b t"
    unfolding h_luma_def by (rule arg_cong)
qed

lemma v_colors_same:
  assumes "same_picture a b" and "meets_below (ibounds a) t"
  shows "v_colors a t = v_colors b t" and "v_luma a t = v_luma b t"
proof -
  have e: "xx \<in> set (v_meets t) \<Longrightarrow>
    sampleColorMappedV2 a (dst1 t) (src1 t) xx (ry1 (dst1 t) - 1)
      = sampleColorMappedV2 b (dst1 t) (src1 t) xx (ry1 (dst1 t) - 1) \<and>
    sampleColorMappedV2 a (dst2 t) (src2 t) xx (ry0 (dst2 t))
      = sampleColorMappedV2 b (dst2 t) (src2 t) xx (ry0 (dst2 t))" for xx
    using sample_same [OF assms(1)] v_meets_in [OF assms(2)] assms(2)
    by (simp add: meets_below_def)
  then show "v_colors a t = v_colors b t"
    by (simp add: v_colors_def)
  have "map (\<lambda>xx. absIntV2
     (uint (sampleLumaMappedV2 a (dst1 t) (src1 t) xx (ry1 (dst1 t) - 1))
      - uint (sampleLumaMappedV2 a (dst2 t) (src2 t) xx (ry0 (dst2 t))))) (v_meets t)
    = map (\<lambda>xx. absIntV2
     (uint (sampleLumaMappedV2 b (dst1 t) (src1 t) xx (ry1 (dst1 t) - 1))
      - uint (sampleLumaMappedV2 b (dst2 t) (src2 t) xx (ry0 (dst2 t))))) (v_meets t)"
    using e by (simp add: sampleLumaMappedV2_def)
  then show "v_luma a t = v_luma b t"
    unfolding v_luma_def by (rule arg_cong)
qed

lemma scores_total:
  assumes "grid_mapping g m"
  shows "\<exists>s. seamScoreLumaV2 img g m = Some s" and "\<exists>s. seamScoreRGBTextV2 img g m = Some s"
  using h_pairs_total [OF assms, of "ibounds img"] v_pairs_total [OF assms, of "ibounds img"]
  by (auto simp: seamScoreLumaV2_def seamScoreRGBTextV2_def Let_def)

lemma scores_same:
  assumes "grid_mapping g m" and "same_picture a b"
    and "g \<le> rdx (ibounds a)" and "g \<le> rdy (ibounds a)"
  shows "seamScoreLumaV2 a g m = seamScoreLumaV2 b g m"
    and "seamScoreRGBTextV2 a g m = seamScoreRGBTextV2 b g m"
proof -
  let ?b = "ibounds a"
  obtain hs vs where t: "those (h_pairs ?b g m) = Some hs" "those (v_pairs ?b g m) = Some vs"
    using h_pairs_total [OF assms(1)] v_pairs_total [OF assms(1)] by blast
  have b: "ibounds b = ?b"
    using assms(2) by (simp add: same_picture_def)
  have h: "\<And>x. x \<in> set hs \<Longrightarrow> h_colors a x = h_colors b x \<and> h_luma a x = h_luma b x"
    using h_colors_same [OF assms(2)] h_pairs_meet [OF assms(1,3,4) t(1)] by blast
  have v: "\<And>x. x \<in> set vs \<Longrightarrow> v_colors a x = v_colors b x \<and> v_luma a x = v_luma b x"
    using v_colors_same [OF assms(2)] v_pairs_meet [OF assms(1,3,4) t(2)] by blast
  have l: "map (h_luma a) hs = map (h_luma b) hs" "map (v_luma a) vs = map (v_luma b) vs"
    "map (h_colors a) hs = map (h_colors b) hs" "map (v_colors a) vs = map (v_colors b) vs"
    using h v by simp_all
  show "seamScoreLumaV2 a g m = seamScoreLumaV2 b g m"
    unfolding seamScoreLumaV2_def b t option.case l ..
  show "seamScoreRGBTextV2 a g m = seamScoreRGBTextV2 b g m"
    unfolding seamScoreRGBTextV2_def b t option.case l ..
qed

lemma swaps_grid_mapping:
  assumes "applySliderSwapsV2 g s = Inr m" and "0 < g" and "g * g < 2 ^ 63"
  shows "grid_mapping g m"
proof -
  have "wrap64 (g * g) = g * g"
    using assms by (intro wrap64_id) (auto intro: order_trans [of _ 0])
  then show ?thesis
    using applySliderSwapsV2_set [OF assms(1)] assms by (simp add: grid_mapping_def)
qed

section \<open>The ranking\<close>

lemma luma_guesses_Returns:
  "luma_guesses img g s is = Returns gs \<Longrightarrow>
    map gIndex gs = is \<and> (\<forall>x \<in> set gs. gSwaps x = activeSwapsForIndexV2 s (gIndex x))"
  by (induction "is" arbitrary: gs)
    (auto simp: Let_def split: sum.splits option.splits outcome.splits)

lemma stage2_guesses_Returns:
  "stage2_guesses img g S xs = Returns ys \<Longrightarrow>
    map (\<lambda>x. (gIndex x, gSwaps x, gScoreLuma x)) ys = map (\<lambda>x. (gIndex x, gSwaps x, gScoreLuma x)) xs"
  by (induction xs arbitrary: ys)
    (auto split: sum.splits option.splits outcome.splits if_splits prod.splits)

lemma consensus_keeps:
  "map (\<lambda>x. (gIndex x, gSwaps x)) (consensus lo st S gs) = map (\<lambda>x. (gIndex x, gSwaps x)) gs"
  by (simp add: consensus_def Let_def comp_def)

lemma rank_Returns:
  assumes "rankSliderGuessesV2 img g s = Returns gs"
  shows "mset (map (\<lambda>x. (gIndex x, gSwaps x)) gs) =
      mset (map (\<lambda>i. (i, activeSwapsForIndexV2 s i)) [1..int (length s div 2)])"
    and "sorted (map by_rank gs)"
proof -
  obtain g1 g2 lo S where lg: "luma_guesses img g s [1..int (length s div 2)] = Returns g1"
    and st: "stage2_guesses img g S g1 = Returns g2"
    and gs: "gs = sort_key by_rank (consensus lo (filter (\<lambda>x. gIndex x \<in> S) g2) S g2)"
    using assms by (auto simp: rankSliderGuessesV2_def Let_def split: if_splits outcome.splits)
  have p: "map fst xs = is \<Longrightarrow> \<forall>x \<in> set xs. snd x = f (fst x) \<Longrightarrow> xs = map (\<lambda>i. (i, f i)) is"
    for xs :: "(int \<times> int list) list" and "is" f
    by (induction xs arbitrary: "is") auto
  have "map (\<lambda>x. (gIndex x, gSwaps x)) g2 = map (\<lambda>x. (gIndex x, gSwaps x)) g1"
    using arg_cong [OF stage2_guesses_Returns [OF st], of "map (\<lambda>(i, w, l). (i, w))"]
    by (simp add: comp_def)
  also have "\<dots> = map (\<lambda>i. (i, activeSwapsForIndexV2 s i)) [1..int (length s div 2)]"
    using luma_guesses_Returns [OF lg] by (intro p) (simp_all add: comp_def)
  finally have e: "map (\<lambda>x. (gIndex x, gSwaps x)) (consensus lo (filter (\<lambda>x. gIndex x \<in> S) g2) S g2)
      = map (\<lambda>i. (i, activeSwapsForIndexV2 s i)) [1..int (length s div 2)]"
    by (simp only: consensus_keeps)
  show "mset (map (\<lambda>x. (gIndex x, gSwaps x)) gs) =
      mset (map (\<lambda>i. (i, activeSwapsForIndexV2 s i)) [1..int (length s div 2)])"
    using arg_cong [OF e, of mset] by (simp only: gs mset_map mset_sort)
  show "sorted (map by_rank gs)"
    unfolding gs by (rule sorted_sort_key)
qed

lemma rank_length: "rankSliderGuessesV2 img g s = Returns gs \<Longrightarrow> length gs = length s div 2"
  using mset_eq_length [OF rank_Returns(1)] by simp

lemma swaps_scores:
  assumes "applySliderSwapsV2 g s = Inr m" and "0 < g" and "g * g < 2 ^ 63"
  shows "\<exists>l. seamScoreLumaV2 img g m = Some l" and "\<exists>rgb txt. seamScoreRGBTextV2 img g m = Some (rgb, txt)"
  using scores_total [OF swaps_grid_mapping [OF assms], of img] by auto

lemma luma_guesses_no_panic:
  "0 < g \<Longrightarrow> g * g < 2 ^ 63 \<Longrightarrow> luma_guesses img g s is \<noteq> Panic"
proof (induction "is")
  case (Cons i "is")
  show ?case
  proof (cases "applySliderSwapsV2 g (activeSwapsForIndexV2 s i)")
    case (Inr m)
    obtain l where "seamScoreLumaV2 img g m = Some l"
      using swaps_scores(1) [OF Inr Cons.prems] by blast
    then show ?thesis
      using Cons Inr by (auto simp: Let_def split: outcome.splits)
  qed simp
qed simp

lemma stage2_guesses_no_panic:
  "0 < g \<Longrightarrow> g * g < 2 ^ 63 \<Longrightarrow> stage2_guesses img g S xs \<noteq> Panic"
proof (induction xs)
  case (Cons x xs)
  show ?case
  proof (cases "applySliderSwapsV2 g (gSwaps x)")
    case (Inr m)
    obtain rgb r where "seamScoreRGBTextV2 img g m = Some (rgb, r)"
      using swaps_scores(2) [OF Inr Cons.prems] by blast
    then show ?thesis
      using Cons Inr by (auto split: outcome.splits)
  qed (use Cons in \<open>auto split: outcome.splits\<close>)
qed simp

lemma luma_guesses_same:
  assumes "0 < g" and "g * g < 2 ^ 63" and "same_picture a b"
    and "g \<le> rdx (ibounds a)" and "g \<le> rdy (ibounds a)"
  shows "luma_guesses a g s is = luma_guesses b g s is"
proof (induction "is")
  case (Cons i "is")
  show ?case
  proof (cases "applySliderSwapsV2 g (activeSwapsForIndexV2 s i)")
    case (Inr m)
    show ?thesis
      using scores_same(1) [OF swaps_grid_mapping [OF Inr assms(1,2)] assms(3-5)] Cons Inr
      by (simp add: Let_def cong: option.case_cong)
  qed simp
qed simp

lemma stage2_guesses_same:
  assumes "0 < g" and "g * g < 2 ^ 63" and "same_picture a b"
    and "g \<le> rdx (ibounds a)" and "g \<le> rdy (ibounds a)"
  shows "stage2_guesses a g S xs = stage2_guesses b g S xs"
proof (induction xs)
  case (Cons x xs)
  show ?case
  proof (cases "applySliderSwapsV2 g (gSwaps x)")
    case (Inr m)
    show ?thesis
      using scores_same(2) [OF swaps_grid_mapping [OF Inr assms(1,2)] assms(3-5)] Cons Inr
      by (simp cong: option.case_cong outcome.case_cong if_cong)
  qed (use Cons in \<open>simp cong: outcome.case_cong if_cong\<close>)
qed simp

lemma rank_same_picture:
  assumes "0 < g" and "g * g < 2 ^ 63" and "same_picture a b"
    and "g \<le> rdx (ibounds a)" and "g \<le> rdy (ibounds a)"
  shows "rankSliderGuessesV2 a g s = rankSliderGuessesV2 b g s"
  unfolding rankSliderGuessesV2_def luma_guesses_same [OF assms] stage2_guesses_same [OF assms] ..

lemma rank_no_panic:
  assumes "0 < g" and "g * g < 2 ^ 63"
  shows "rankSliderGuessesV2 img g s \<noteq> Panic"
  using luma_guesses_no_panic [OF assms] stage2_guesses_no_panic [OF assms]
  by (auto simp: rankSliderGuessesV2_def Let_def split: outcome.splits)

lemma set_active: "set (activeSwapsForIndexV2 s i) \<subseteq> set s"
  by (auto simp: activeSwapsForIndexV2_def dest: in_set_takeD)

lemma even_active: "even (length s) \<Longrightarrow> even (length (activeSwapsForIndexV2 s i))"
  by (auto simp: activeSwapsForIndexV2_def min_def even_nat_iff)

lemma luma_guesses_total:
  assumes "0 < g" and "g * g < 2 ^ 63" and "even (length s)" and "set s \<subseteq> {0..<g * g}"
  shows "\<exists>gs. luma_guesses img g s is = Returns gs"
proof (induction "is")
  case (Cons i "is")
  obtain m where m: "applySliderSwapsV2 g (activeSwapsForIndexV2 s i) = Inr m"
    using applySliderSwapsV2_total [OF assms(1,2) even_active [OF assms(3)]] set_active assms(4)
    by blast
  then show ?case
    using scores_total(1) [OF swaps_grid_mapping [OF m assms(1,2)], of img] Cons
    by (auto simp: Let_def)
qed simp

lemma stage2_guesses_total:
  assumes "0 < g" and "g * g < 2 ^ 63"
    and "\<forall>x \<in> set xs. \<exists>m. applySliderSwapsV2 g (gSwaps x) = Inr m"
  shows "\<exists>ys. stage2_guesses img g S xs = Returns ys"
  using assms(3)
proof (induction xs)
  case (Cons x xs)
  then obtain m where m: "applySliderSwapsV2 g (gSwaps x) = Inr m"
    by auto
  then show ?case
    using scores_total(2) [OF swaps_grid_mapping [OF m assms(1,2)], of img] Cons
    by auto
qed simp

lemma rank_total:
  assumes "0 < g" and "g * g < 2 ^ 63" and "even (length s)" and "set s \<subseteq> {0..<g * g}"
    and "2 \<le> length s"
  shows "\<exists>gs. rankSliderGuessesV2 img g s = Returns gs"
proof -
  obtain g1 where g1: "luma_guesses img g s [1..int (length s div 2)] = Returns g1"
    using luma_guesses_total [OF assms(1-4)] by blast
  have "\<forall>x \<in> set g1. \<exists>m. applySliderSwapsV2 g (gSwaps x) = Inr m"
    using luma_guesses_Returns [OF g1] set_active assms(4)
    by (auto intro!: applySliderSwapsV2_total [OF assms(1,2)] even_active assms(3))
  from stage2_guesses_total [OF assms(1,2) this]
  have "\<forall>S. \<exists>ys. stage2_guesses img g S g1 = Returns ys"
    by blast
  then have "stage2_guesses img g S g1 \<noteq> Panic \<and> stage2_guesses img g S g1 \<noteq> Fails e" for S e
    by (metis outcome.distinct(3) outcome.distinct(5))
  then show ?thesis
    using assms(5) g1 by (auto simp: rankSliderGuessesV2_def Let_def split: outcome.split)
qed

section \<open>The cursor\<close>

text \<open>
  \<open>mathrand.Intn\<close> reads the next number of a stream of draws. The curve is computed with exact
  rationals; \<open>math.Round\<close> rounds half away from zero.
\<close>

type_synonym draws = "nat \<Rightarrow> nat"

definition Intn :: "nat \<Rightarrow> draws \<Rightarrow> int \<times> draws" where
  "Intn n d = (int (d 0 mod n), \<lambda>k. d (Suc k))"

definition round_away :: "rat \<Rightarrow> int" where
  "round_away q = (if 0 \<le> q then \<lfloor>q + 1 / 2\<rfloor> else - \<lfloor>1 / 2 - q\<rfloor>)"

type_synonym points = "(int \<times> int) list"

text \<open>
  \<open>for i := 0; i < 1+mathrand.Intn(3); i++\<close>: the bound is drawn anew in every round, so the loop ends
  after at most three points.
\<close>

fun start_points :: "nat \<Rightarrow> int \<Rightarrow> int \<Rightarrow> int \<Rightarrow> draws \<Rightarrow> points \<times> draws" where
  "start_points 0 i sx sy d = ([], d)"
| "start_points (Suc fuel) i sx sy d =
     (let (b, d) = Intn 3 d in
      if i < 1 + b then
        (let (x, d) = Intn 5 d; (y, d) = Intn 5 d; (ps, d) = start_points fuel (i + 1) sx sy d
         in ((sx + x - 2, sy + y - 2) # ps, d))
      else ([], d))"

definition bezier :: "rat \<Rightarrow> int \<Rightarrow> rat \<Rightarrow> int \<Rightarrow> rat" where
  "bezier t a c b = (1 - t) * (1 - t) * of_int a + 2 * t * (1 - t) * c + t * t * of_int b"

fun transit_points :: "int list \<Rightarrow> int \<Rightarrow> int \<times> int \<Rightarrow> int \<times> int \<Rightarrow> int \<times> int \<Rightarrow> draws \<Rightarrow> points \<times> draws"
  where
  "transit_points [] n s a p d = ([], d)"
| "transit_points (i # is) n s a p d =
     (let t = of_int i / of_int (n + 1);
          cx = of_int (fst s + fst p) / 2 + of_int (fst a);
          cy = of_int (snd s + snd p) / 2 + of_int (snd a);
          jitter = trunc_rat ((1 - t) * 8) + 2;
          (x, d) = Intn (nat (jitter * 2 + 1)) d;
          (y, d) = Intn (nat (jitter * 2 + 1)) d;
          (ps, d) = transit_points is n s a p d
      in ((round_away (bezier t (fst s) cx (fst p)) + x - jitter,
           round_away (bezier t (snd s) cy (snd p)) + y - jitter) # ps, d))"

fun approach_points :: "int list \<Rightarrow> int \<Rightarrow> int \<times> int \<Rightarrow> int \<times> int \<Rightarrow> draws \<Rightarrow> points \<times> draws" where
  "approach_points [] n prev p d = ([], d)"
| "approach_points (i # is) n prev p d =
     (let t = of_int i / of_int n;
          (x, d) = Intn 5 d; (y, d) = Intn 5 d;
          (ps, d) = approach_points is n prev p d
      in ((fst prev + round_away (t * of_int (fst p - fst prev)) + x - 2,
           snd prev + round_away (t * of_int (snd p - snd prev)) + y - 2) # ps, d))"

fun settle_points :: "nat \<Rightarrow> int \<times> int \<Rightarrow> draws \<Rightarrow> points \<times> draws" where
  "settle_points 0 p d = ([], d)"
| "settle_points (Suc n) p d =
     (let (x, d) = Intn 7 d; (y, d) = Intn 7 d; (ps, d) = settle_points n p d
      in ((fst p + x - 3, snd p + y - 3) # ps, d))"

definition point_json :: "int \<times> int \<Rightarrow> string" where
  "point_json p = ''{\"x\":'' @ fmt_int (fst p) @ '',\"y\":'' @ fmt_int (snd p) @ ''}''"

definition cursor_points :: "int \<Rightarrow> int \<Rightarrow> draws \<Rightarrow> points" where
  "cursor_points index cnt d =
     (let index = (if index < 1 then 1 else index);
          index = (if index > cnt then cnt else index);
          (x, d) = Intn 40 d; startX = 570 + x;
          (y, d) = Intn 30 d; startY = 875 + y;
          denom = (if cnt - 1 < 1 then 1 else cnt - 1);
          base = 734 + ((937 - 734) * (index - 1)) sdiv denom;
          (x, d) = Intn 10 d; targetX = base + x - 5;
          (y, d) = Intn 14 d; targetY = 655 + y;
          (ps0, d) = start_points 4 0 startX startY d;
          (n, d) = Intn 3 d; transitSteps = 2 + n;
          (x, d) = Intn 60 d; (y, d) = Intn 30 d;
          (ps1, d) = transit_points [1..transitSteps] transitSteps (startX, startY)
                       (x - 30, - (y + 10)) (targetX, targetY) d;
          (n, d) = Intn 4 d; approachSteps = 4 + n;
          prev = last (ps0 @ ps1);
          (ps2, d) = approach_points [1..approachSteps] approachSteps prev (targetX, targetY) d;
          (n, d) = Intn 5 d;
          (ps3, d) = settle_points (nat (3 + n)) (targetX, targetY) d
      in ps0 @ ps1 @ ps2 @ ps3)"

definition buildSliderCursorV2 :: "int \<Rightarrow> int \<Rightarrow> draws \<Rightarrow> string" where
  "buildSliderCursorV2 index cnt d =
     (if cnt \<le> 0 then ''[]''
      else ''['' @ join '','' (map point_json (cursor_points index cnt d)) @ '']'')"

lemma Intn_bounds: "Intn n d = (x, d') \<Longrightarrow> 0 < n \<Longrightarrow> 0 \<le> x \<and> x < int n"
  by (auto simp: Intn_def)

lemma length_start_points: "start_points f i sx sy d = (ps, d') \<Longrightarrow> 0 \<le> i \<Longrightarrow> i \<le> 3 \<Longrightarrow>
    length ps \<le> nat (3 - i)"
proof (induction f arbitrary: i d ps d')
  case (Suc f)
  obtain b d1 where b: "Intn 3 d = (b, d1)"
    by fastforce
  show ?case
  proof (cases "i < 1 + b")
    case True
    then have "i < 3"
      using Intn_bounds [OF b] by simp
    obtain qs d2 where q: "start_points f (i + 1) sx sy (\<lambda>k. d1 (Suc (Suc k))) = (qs, d2)"
      by fastforce
    have "length qs \<le> nat (3 - (i + 1))"
      using Suc.IH [OF q] Suc.prems \<open>i < 3\<close> by simp
    moreover have "length ps = Suc (length qs)"
      using Suc.prems(1) True b q by (auto simp: Let_def Intn_def)
    ultimately show ?thesis
      using \<open>i < 3\<close> by simp
  qed (use Suc.prems b in auto)
qed simp

lemma length_transit_points: "transit_points is n s a p d = (ps, d') \<Longrightarrow> length ps = length is"
  by (induction "is" arbitrary: d ps d') (auto simp: Let_def split: prod.splits)

lemma length_approach_points: "approach_points is n v p d = (ps, d') \<Longrightarrow> length ps = length is"
  by (induction "is" arbitrary: d ps d') (auto simp: Let_def split: prod.splits)

lemma length_settle_points: "settle_points n p d = (ps, d') \<Longrightarrow> length ps = n"
  by (induction n arbitrary: d ps d') (auto simp: Let_def split: prod.splits)

lemma lengths_fst:
  "length (fst (start_points f 0 sx sy d)) \<le> 3"
  "length (fst (transit_points is n s a p d)) = length is"
  "length (fst (approach_points is n v p d)) = length is"
  "length (fst (settle_points k p d)) = k"
  using length_start_points [of f 0 sx sy d] length_transit_points [of "is" n s a p d]
    length_approach_points [of "is" n v p d] length_settle_points [of k p d]
  by (auto simp: prod_eq_iff)

text \<open>The capacity of 28 that the code reserves is never exceeded and the list is never empty.\<close>

lemma cursor_length:
  "9 \<le> length (cursor_points index cnt d) \<and> length (cursor_points index cnt d) \<le> 21"
proof -
  obtain ps0 ps1 ps2 ps3 n1 n2 n3 where
    "cursor_points index cnt d = ps0 @ ps1 @ ps2 @ ps3" "length ps0 \<le> 3"
    "length ps1 = length [1..2 + int (n1 mod 3)]" "length ps2 = length [1..4 + int (n2 mod 4)]"
    "length ps3 = nat (3 + int (n3 mod 5))"
    unfolding cursor_points_def Let_def case_prod_beta Intn_def fst_conv snd_conv
    by (metis lengths_fst)
  then have "length (cursor_points index cnt d)
      = length ps0 + (2 + n1 mod 3) + (4 + n2 mod 4) + (3 + n3 mod 5)" and "length ps0 \<le> 3"
    by (simp_all add: nat_add_distrib)
  moreover have "n1 mod 3 < 3" "n2 mod 4 < 4" "n3 mod 5 < 5"
    by simp_all
  ultimately show ?thesis
    by linarith
qed

section \<open>Properties\<close>

text \<open>Property C32 (type). What \<open>applySliderSwapsV2\<close> returns is always an arrangement of the tiles: each
  tile number of the grid occurs in it exactly once, and the same swaps in reverse order take it back
  to the untouched picture.\<close>

theorem slider_tiles_stay_permutation:
  "applySliderSwapsV2 g s = Inr m \<Longrightarrow>
     mset m = mset [0..wrap64 (g * g) - 1] \<and> distinct m \<and>
     apply_swaps (wrap64 (g * g)) (rev_pairs s) m = Inr [0..wrap64 (g * g) - 1]"
proof -
  assume a: "applySliderSwapsV2 g s = Inr m"
  note m = applySliderSwapsV2_mset [OF a]
  have "apply_swaps (wrap64 (g * g)) s [0..wrap64 (g * g) - 1] = Inr m"
    using a m(2,3) by (simp add: applySliderSwapsV2_def Let_def)
  then have "apply_swaps (wrap64 (g * g)) (rev_pairs s) m = Inr [0..wrap64 (g * g) - 1]"
    using m(2,3) by (intro apply_swaps_undo) auto
  moreover have "distinct m"
    using mset_eq_imp_distinct_iff [OF m(1)] by simp
  ultimately show ?thesis
    using m(1) by blast
qed

theorem slider_tiles_stay_permutation_witness:
  "mset [1, 2, 0, 3] = mset [0..wrap64 (2 * 2) - 1] \<and> distinct [1, 2, 0, 3 :: int] \<and>
     apply_swaps (wrap64 (2 * 2)) (rev_pairs [0, 1, 1, 2]) [1, 2, 0, 3] = Inr [0..wrap64 (2 * 2) - 1]"
proof (rule slider_tiles_stay_permutation)
  have "wrap64 (2 * 2) = 4"
    by (simp add: wrap64_def)
  then show "applySliderSwapsV2 2 [0, 1, 1, 2] = Inr [1, 2, 0, 3]"
    by (simp add: applySliderSwapsV2_def upto.simps)
qed

text \<open>A grid whose number of tiles does not wrap is scored without a run-time panic. The largest 64-bit
  integer, which the provider may send as a text, wraps to a single tile: then the first seam is
  looked up outside the arrangement and the process panics.\<close>

lemma slider_grid_wraps_and_panics:
  "rankSliderGuessesV2 img (2 ^ 63 - 1) [0, 0] = Panic"
proof -
  let ?g = "2 ^ 63 - 1 :: int"
  have w: "wrap64 (?g * ?g) = 1" "wrap64 0 = 0" "wrap64 1 = 1"
    by (simp_all add: wrap64_def)
  have a: "applySliderSwapsV2 ?g (activeSwapsForIndexV2 [0, 0] 1) = Inr [0]"
    unfolding applySliderSwapsV2_def w by (simp add: activeSwapsForIndexV2_def Let_def)
  have "[0..?g - 2] = 0 # [1..?g - 2]" "[0..?g - 1] = 0 # [1..?g - 1]"
    using upto_rec1 [of 0 "?g - 2"] upto_rec1 [of 0 "?g - 1"] by simp_all
  then have "hd (h_pairs (ibounds img) ?g [0]) = tile_pair_of (ibounds img) ?g [0] 0 1"
    "h_pairs (ibounds img) ?g [0] \<noteq> []"
    unfolding h_pairs_def by (simp_all only: list.map concat.simps append_Cons list.sel mult_zero_left
      add_0 w Let_def list.distinct not_False_eq_True)
  moreover have "tile_pair_of (ibounds img) ?g [0] 0 1 = None"
    by (simp add: tile_pair_of_def at_index_def split: option.split)
  ultimately obtain r where "h_pairs (ibounds img) ?g [0] = None # r"
    by (cases "h_pairs (ibounds img) ?g [0]") auto
  then have "seamScoreLumaV2 img ?g [0] = None"
    by (simp add: seamScoreLumaV2_def)
  with a have "luma_guesses img ?g [0, 0] [1] = Panic"
    by (simp add: Let_def)
  then show ?thesis
    by (simp add: rankSliderGuessesV2_def)
qed

text \<open>While the number of tiles is a 64-bit integer and no tile is empty, ranking
  the candidates never panics and reads only pixels of the picture: two pictures with the same pixels
  inside the frame get the same ranking.\<close>

theorem slider_scores_read_the_picture:
  "0 < g \<Longrightarrow> g * g < 2 ^ 63 \<Longrightarrow> same_picture a b \<Longrightarrow> g \<le> rdx (ibounds a) \<Longrightarrow> g \<le> rdy (ibounds a) \<Longrightarrow>
     rankSliderGuessesV2 a g s = rankSliderGuessesV2 b g s \<and> rankSliderGuessesV2 a g s \<noteq> Panic"
  using rank_same_picture rank_no_panic by blast

definition gray_picture :: "32 word \<Rightarrow> image" where
  "gray_picture outside =
     \<lparr>ibounds = mk_rect 0 0 6 6,
      iat = (\<lambda>x y. if 0 \<le> x \<and> x < 6 \<and> 0 \<le> y \<and> y < 6 then \<lparr>cr = word_of_int (x * 4000), cg = 0, cb = 7\<rparr>
                  else \<lparr>cr = outside, cg = outside, cb = outside\<rparr>)\<rparr>"

theorem slider_scores_read_the_picture_witness:
  "rankSliderGuessesV2 (gray_picture 0) 2 [0, 3, 1, 2] = rankSliderGuessesV2 (gray_picture 65535) 2 [0, 3, 1, 2]
     \<and> rankSliderGuessesV2 (gray_picture 0) 2 [0, 3, 1, 2] \<noteq> Panic"
  by (rule slider_scores_read_the_picture)
    (auto simp: same_picture_def gray_picture_def in_rect_def mk_rect_def rdx_def rdy_def)

text \<open>A ranking lists every candidate exactly once, each with the first
  \<open>2 i\<close> numbers of the payload as its swaps, in the order of consensus rank, then brightness score,
  then number.\<close>

theorem slider_ranking_is_complete:
  "rankSliderGuessesV2 img g s = Returns gs \<Longrightarrow>
     mset (map (\<lambda>x. (gIndex x, gSwaps x)) gs) =
       mset (map (\<lambda>i. (i, take (nat (2 * i)) s)) [1..int (length s div 2)]) \<and>
     sorted (map by_rank gs)"
proof -
  assume a: "rankSliderGuessesV2 img g s = Returns gs"
  have "map (\<lambda>i. (i, activeSwapsForIndexV2 s i)) [1..int (length s div 2)]
      = map (\<lambda>i. (i, take (nat (2 * i)) s)) [1..int (length s div 2)]"
    by (auto simp: activeSwapsForIndexV2_def min_def mult.commute)
  then show ?thesis
    using rank_Returns [OF a] by metis
qed

theorem slider_ranking_is_complete_witness:
  "\<exists>gs. mset (map (\<lambda>x. (gIndex x, gSwaps x)) gs) = mset [(1 :: int, [0, 3]), (2, [0, 3, 1, 2])] \<and>
     sorted (map by_rank gs)"
proof -
  obtain gs where "rankSliderGuessesV2 (gray_picture 0) 2 [0, 3, 1, 2] = Returns gs"
    using rank_total [of 2 "[0, 3, 1, 2]" "gray_picture 0"] by auto
  from slider_ranking_is_complete [OF this] show ?thesis
    by (intro exI [of _ gs]) (simp add: upto.simps)
qed

end
