(* ===== verification/CaptchaV2.thy ===== *)
theory CaptchaV2
  imports ErrorPolicy Url Slider
begin

text \<open>
  The automatic captcha client (\<open>core/captcha_v2.go\<close> and \<open>solveSliderCaptcha\<close> of
  \<open>core/captcha_v2_slider.go\<close>): the page and its script are fetched, the proof of work is computed,
  and the checkbox and slider dialogues are run against the API of the provider. Every request is
  recorded; the HTTP client answers the n-th request, the context is asked as often as the code asks
  it. The log lines are not modelled, the header order lists neither.
\<close>

named_theorems v2_ext \<open>steps of the client only add to the log of requests\<close>

section \<open>Errors\<close>

record v2_failure =
  Phase :: string
  Kind :: string
  Reason :: string
  HttpCode :: int
  ContentType :: string
  Redirected :: bool
  Bytes :: nat
  DurationMs :: nat

definition failure0 :: "string \<Rightarrow> string \<Rightarrow> string \<Rightarrow> v2_failure" where
  "failure0 ph k r = \<lparr>Phase = ph, Kind = k, Reason = r, HttpCode = 0, ContentType = [],
     Redirected = False, Bytes = 0, DurationMs = 0\<rparr>"

text \<open>\<open>V2Wrap pre e post\<close> is \<open>fmt.Errorf\<close> with one \<open>%w\<close>; \<open>V2Panic\<close> is not an error but the end of the
  process.\<close>

datatype v2err =
    V2Ctx goerr | V2Failure v2_failure | V2RateLimit | V2Bot | V2ShowType string | V2Text string
  | V2Wrap string v2err string | V2Panic

fun bool_text :: "bool \<Rightarrow> string" where
  "bool_text True = ''true''" | "bool_text False = ''false''"

definition v2_failure_text :: "v2_failure \<Rightarrow> string" where
  "v2_failure_text e =
     ''captcha v2 phase='' @ Phase e @ '' category='' @ Kind e @ '' reason='' @ Reason e
     @ '' http_status='' @ fmt_int (HttpCode e) @ '' content_type='' @ ContentType e
     @ '' redirected='' @ bool_text (Redirected e) @ '' bytes='' @ digits_nat (Bytes e)
     @ '' duration_ms='' @ digits_nat (DurationMs e)"

fun v2_error_text :: "v2err \<Rightarrow> string" where
  "v2_error_text (V2Ctx e) = error_text e"
| "v2_error_text (V2Failure f) = v2_failure_text f"
| "v2_error_text V2RateLimit = ''captcha session rate limit reached''"
| "v2_error_text V2Bot = ''captcha bot challenge''"
| "v2_error_text (V2ShowType t) = ''captcha show type mismatch: '' @ t"
| "v2_error_text (V2Text s) = s"
| "v2_error_text (V2Wrap pre e post) = pre @ v2_error_text e @ post"
| "v2_error_text V2Panic = []"

fun v2_root :: "v2err \<Rightarrow> v2err" where
  "v2_root (V2Wrap pre e post) = v2_root e"
| "v2_root e = e"

definition captchaV2Terminal :: "v2err \<Rightarrow> bool" where
  "captchaV2Terminal e =
     (case v2_root e of
        V2Failure f \<Rightarrow> Kind f = ''parse'' \<or> Kind f = ''unsupported_page'' \<or> Kind f = ''http_status''
      | _ \<Rightarrow> False)"

definition is_show_type :: "v2err \<Rightarrow> string option" where
  "is_show_type e = (case v2_root e of V2ShowType t \<Rightarrow> Some t | _ \<Rightarrow> None)"

definition known_media :: "string set" where
  "known_media = {''text/html'', ''application/xhtml+xml'', ''application/json'', ''text/javascript'',
     ''application/javascript''}"

text \<open>\<open>mime.ParseMediaType\<close> is the argument \<open>mime\<close>.\<close>

definition captchaV2MediaType :: "(string \<Rightarrow> string option) \<Rightarrow> string \<Rightarrow> string" where
  "captchaV2MediaType mime v =
     (case mime v of None \<Rightarrow> ''other'' | Some t \<Rightarrow> if t \<in> known_media then t else ''other'')"

section \<open>The world of the client\<close>

record profile =
  UserAgent :: string
  SecChUa :: string
  SecChUaMobile :: string
  SecChUaPlatform :: string

record saved_browser =
  sbProfile :: profile
  sbDeviceJSON :: string
  sbBrowserFp :: string

type_synonym headers = "(string \<times> string) list"

text \<open>\<open>Header.Set\<close>; the names the code uses differ in more than their case.\<close>

definition set_header :: "string \<Rightarrow> string \<Rightarrow> headers \<Rightarrow> headers" where
  "set_header k v h = (k, v) # filter (\<lambda>e. to_lower (fst e) \<noteq> to_lower k) h"

record request =
  rqPhase :: string
  rqMethod :: string
  rqURL :: string
  rqForm :: "(string \<times> string) list option"
  rqBody :: string
  rqHeaders :: headers

text \<open>An answer: status, content type, the bytes that could be read, whether reading failed, and the
  URL after redirects.\<close>

datatype answer =
    NoAnswer
  | Answer (an_status: int) (an_type: string) (an_body: string) (an_read_error: bool) (an_url: string)

record v2_init =
  ShowCaptchaType :: string
  CaptchaSettings :: "(string \<times> string) list"

text \<open>
  What is not code of this repository: the HTTP client, the context, URL and JSON parsing, picture
  decoding, SHA-256 (in hexadecimal) and the random bytes of the fingerprint.
\<close>

record v2_env =
  eClient :: "nat \<Rightarrow> request \<Rightarrow> answer"
  eMillis :: "nat \<Rightarrow> nat"
  eCtx :: "nat \<Rightarrow> goerr option"
  eUrlOk :: "string \<Rightarrow> bool"
  eMime :: "string \<Rightarrow> string option"
  eJson :: "string \<Rightarrow> string + jmap"
  eInit :: "string \<Rightarrow> v2_init option"
  eEnc :: "json \<Rightarrow> string"
  eFmt :: "json \<Rightarrow> string"
  eImage :: "string \<Rightarrow> string + image"
  eSha :: "string \<Rightarrow> string"
  eRand :: "nat \<Rightarrow> string + nat list"
  eProfile :: profile
  eSaved :: "saved_browser option"
  eDraws :: "nat \<Rightarrow> draws"

text \<open>The state: requests sent so far, questions to the context, random reads, the debug cache.\<close>

record v2_state =
  vLog :: "request list"
  vTick :: nat
  vRand :: nat
  vDebug :: "(string \<times> string) list"

type_synonym 'a v2 = "v2_state \<Rightarrow> (v2err + 'a) \<times> v2_state"

definition v2_return :: "'a \<Rightarrow> 'a v2" where "v2_return x s = (Inr x, s)"
definition v2_fail :: "v2err \<Rightarrow> 'a v2" where "v2_fail e s = (Inl e, s)"

definition v2_then :: "'a v2 \<Rightarrow> ('a \<Rightarrow> 'b v2) \<Rightarrow> 'b v2" where
  "v2_then m f s = (case m s of (Inl e, s') \<Rightarrow> (Inl e, s') | (Inr x, s') \<Rightarrow> f x s')"

text \<open>\<open>fmt.Errorf("...: %w", err)\<close> around the error of a step.\<close>

definition v2_wrap :: "string \<Rightarrow> string \<Rightarrow> 'a v2 \<Rightarrow> 'a v2" where
  "v2_wrap pre post m s = (case m s of (Inl e, s') \<Rightarrow> (Inl (V2Wrap pre e post), s') | r \<Rightarrow> r)"

text \<open>\<open>ctx.Err()\<close>, or the select on \<open>ctx.Done()\<close>.\<close>

definition ask_ctx :: "v2_env \<Rightarrow> goerr option v2" where
  "ask_ctx env s = (Inr (eCtx env (vTick s)), s\<lparr>vTick := vTick s + 1\<rparr>)"

text \<open>The random numbers for the cursor of the next request.\<close>

definition next_draws :: "v2_env \<Rightarrow> draws v2" where
  "next_draws env s = (Inr (eDraws env (length (vLog s))), s)"

section \<open>Requests\<close>

definition applyBrowserProfileFhttp :: "profile \<Rightarrow> headers" where
  "applyBrowserProfileFhttp p =
     set_header ''DNT'' ''1''
     (set_header ''Accept-Language'' ''ru-RU,ru;q=0.9,en-US;q=0.8,en;q=0.7''
     (set_header ''sec-ch-ua-platform'' (SecChUaPlatform p)
     (set_header ''sec-ch-ua-mobile'' (SecChUaMobile p)
     (set_header ''sec-ch-ua'' (SecChUa p)
     (set_header ''User-Agent'' (''Mozilla/5.0 (Windows NT 10.0; Win64; x64) AppleWebKit/537.36 ''
        @ ''(KHTML, like Gecko) Chrome/120.0.0.0 Safari/537.36'') [])))))"

definition v2_headers :: "v2_env \<Rightarrow> bool \<Rightarrow> headers \<Rightarrow> headers" where
  "v2_headers env has_form extra =
     (let h = applyBrowserProfileFhttp (eProfile env);
          h = set_header ''Accept'' ''*/*'' h;
          h = set_header ''Sec-Fetch-Site'' ''same-site'' h;
          h = set_header ''Sec-Fetch-Mode'' ''cors'' h;
          h = set_header ''Sec-Fetch-Dest'' ''empty'' h;
          h = set_header ''Origin'' ''https://vk.com'' h;
          h = set_header ''Referer'' ''https://vk.com/'' h;
          h = (if has_form then set_header ''Content-Type'' ''application/x-www-form-urlencoded'' h
               else h)
      in fold (\<lambda>(k, v). set_header k v) extra h)"

abbreviation maxCaptchaResponseBytes :: nat where
  "maxCaptchaResponseBytes \<equiv> 2097152"

text \<open>What \<open>doRaw\<close> makes of an answer; \<open>ctx\<close> is asked only when reading failed.\<close>

definition judge_answer :: "v2_env \<Rightarrow> string \<Rightarrow> string \<Rightarrow> nat \<Rightarrow> answer \<Rightarrow> string v2" where
  "judge_answer env phase url millis a s =
     (case a of
        NoAnswer \<Rightarrow>
          v2_then (ask_ctx env) (\<lambda>c. case c of
              Some ce \<Rightarrow> v2_fail (V2Ctx ce)
            | None \<Rightarrow> v2_fail (V2Failure ((failure0 phase ''network'' ''request_failed'')
                \<lparr>DurationMs := millis\<rparr>))) s
      | Answer status ctype body rerr final \<Rightarrow>
          let buf = take (maxCaptchaResponseBytes + 1) body;
              f = \<lparr>Phase = phase, Kind = [], Reason = [], HttpCode = status,
                   ContentType = captchaV2MediaType (eMime env) ctype, Redirected = (final \<noteq> url),
                   Bytes = length buf, DurationMs = millis\<rparr>
          in if rerr then
               v2_then (ask_ctx env) (\<lambda>c. case c of
                   Some ce \<Rightarrow> v2_fail (V2Ctx ce)
                 | None \<Rightarrow> v2_fail (V2Failure (f\<lparr>Kind := ''network'', Reason := ''read_failed''\<rparr>))) s
             else if length buf > maxCaptchaResponseBytes then
               v2_fail (V2Failure (f\<lparr>Kind := ''unsupported_page'', Reason := ''body_too_large''\<rparr>)) s
             else if status < 200 \<or> status \<ge> 300 then
               v2_fail (V2Failure (f\<lparr>Kind := ''http_status'', Reason := ''http_non_success''\<rparr>)) s
             else if phase = ''fetch_page'' \<and> ContentType f \<noteq> ''text/html''
                  \<and> ContentType f \<noteq> ''application/xhtml+xml'' then
               v2_fail (V2Failure (f\<lparr>Kind := ''unsupported_page'', Reason := ''not_html''\<rparr>)) s
             else v2_return buf s)"

definition doRaw ::
  "v2_env \<Rightarrow> string \<Rightarrow> string \<Rightarrow> string \<Rightarrow> (string \<times> string) list option \<Rightarrow> headers \<Rightarrow> string v2" where
  "doRaw env phase meth endpoint form extra s =
     (if \<not> eUrlOk env endpoint then v2_fail (V2Failure (failure0 phase ''network'' ''invalid_request'')) s
      else
        let rq = \<lparr>rqPhase = phase, rqMethod = meth, rqURL = endpoint, rqForm = form,
                  rqBody = (case form of None \<Rightarrow> [] | Some f \<Rightarrow> captchaV2EncodeForm f),
                  rqHeaders = v2_headers env (form \<noteq> None) extra\<rparr>;
            n = length (vLog s)
        in judge_answer env phase endpoint (eMillis env n) (eClient env n rq)
             (s\<lparr>vLog := vLog s @ [rq]\<rparr>))"

definition captchaRequest :: "v2_env \<Rightarrow> string \<Rightarrow> (string \<times> string) list \<Rightarrow> jmap v2" where
  "captchaRequest env meth form =
     v2_then
       (doRaw env ''api_request'' ''POST'' (''https://api.vk.ru/method/'' @ meth @ ''?v=5.131'') (Some form)
         [(''Origin'', ''https://id.vk.com''), (''Referer'', ''https://id.vk.com/''), (''Priority'', ''u=1, i'')])
       (\<lambda>body. case eJson env body of
          Inl e \<Rightarrow> v2_fail (V2Text (''captcha api decode: '' @ e))
        | Inr out \<Rightarrow> v2_return out)"

definition fetchCaptchaHTML :: "v2_env \<Rightarrow> string \<Rightarrow> string v2" where
  "fetchCaptchaHTML env uri =
     doRaw env ''fetch_page'' ''GET'' uri None
       [(''Accept'', ''text/html,application/xhtml+xml,application/xml;q=0.9,*/*;q=0.8''),
        (''Sec-Fetch-Dest'', ''document''), (''Sec-Fetch-Mode'', ''navigate''),
        (''Sec-Fetch-Site'', ''cross-site'')]"

section \<open>Regular expressions of the page\<close>

text \<open>The leftmost match: the first position at which the matcher succeeds.\<close>

fun find_first :: "(string \<Rightarrow> 'a option) \<Rightarrow> string \<Rightarrow> 'a option" where
  "find_first f [] = f []"
| "find_first f (c # s) = (case f (c # s) of Some r \<Rightarrow> Some r | None \<Rightarrow> find_first f s)"

definition re_space :: "char \<Rightarrow> bool" where
  "re_space c \<longleftrightarrow> c \<in> {CHR 0x09, CHR 0x0A, CHR 0x0C, CHR 0x0D, CHR '' ''}"

definition lit :: "string \<Rightarrow> string \<Rightarrow> string option" where
  "lit p s = (if has_prefix p s then Some (drop (length p) s) else None)"

definition skip_spaces :: "string \<Rightarrow> string" where
  "skip_spaces s = dropWhile re_space s"

definition skip_spaces1 :: "string \<Rightarrow> string option" where
  "skip_spaces1 s = (case s of c # r \<Rightarrow> if re_space c then Some (skip_spaces r) else None | [] \<Rightarrow> None)"

text \<open>\<open>"([^"]...)"\<close>: the characters up to the next quote, which must exist.\<close>

definition quoted :: "string \<Rightarrow> string option" where
  "quoted s =
     (let q = takeWhile (\<lambda>c. c \<noteq> CHR 0x22) s in if length q < length s then Some q else None)"

definition re_window_init :: "string \<Rightarrow> string option" where
  "re_window_init s =
     (case lit ''window.init'' s of
        None \<Rightarrow> None
      | Some r \<Rightarrow> map_option skip_spaces (lit ''='' (skip_spaces r)))"

definition re_script_src :: "string \<Rightarrow> string option" where
  "re_script_src s =
     (case lit (''src='' @ [CHR 0x22]) s of
        None \<Rightarrow> None
      | Some r \<Rightarrow>
          (case quoted r of
             None \<Rightarrow> None
           | Some q \<Rightarrow>
               if has_prefix ''https://'' q \<and> contains ''not_robot_captcha'' (butlast (drop 9 q))
               then Some q else None))"

definition re_const :: "string \<Rightarrow> string \<Rightarrow> string option" where
  "re_const name s =
     (case lit ''const'' s of
        None \<Rightarrow> None
      | Some r \<Rightarrow>
          (case skip_spaces1 r of
             None \<Rightarrow> None
           | Some r \<Rightarrow>
               (case lit name r of
                  None \<Rightarrow> None
                | Some r \<Rightarrow> map_option skip_spaces (lit ''='' (skip_spaces r)))))"

definition re_pow_input :: "string \<Rightarrow> string option" where
  "re_pow_input s =
     (case re_const ''powInput'' s of
        None \<Rightarrow> None
      | Some r \<Rightarrow>
          (case lit [CHR 0x22] r of
             None \<Rightarrow> None
           | Some r \<Rightarrow> (case quoted r of Some (c # q) \<Rightarrow> Some (c # q) | _ \<Rightarrow> None)))"

definition re_difficulty :: "string \<Rightarrow> string option" where
  "re_difficulty s =
     (case re_const ''difficulty'' s of
        None \<Rightarrow> None
      | Some r \<Rightarrow> (let d = takeWhile is_digit r in if d = [] then None else Some d))"

definition hex_digit :: "char \<Rightarrow> bool" where
  "hex_digit c = (let v = bval c in 48 \<le> v \<and> v \<le> 57 \<or> 65 \<le> v \<and> v \<le> 70 \<or> 97 \<le> v \<and> v \<le> 102)"

definition re_debug_info :: "string \<Rightarrow> string option" where
  "re_debug_info s =
     (case lit ''debug_info:'' s of
        None \<Rightarrow> None
      | Some r \<Rightarrow>
          (case quoted r of
             None \<Rightarrow> None
           | Some pre \<Rightarrow>
               if pre = [] \<or> has_suffix ''||'' pre then
                 (case quoted (drop (length pre + 1) r) of
                    Some v \<Rightarrow> if length v = 64 \<and> list_all hex_digit v then Some v else None
                  | None \<Rightarrow> None)
               else None))"

section \<open>The page\<close>

record v2_page =
  PowInput :: string
  PowDifficulty :: int
  ScriptURL :: string
  PageInit :: v2_init

definition page_failure :: "string \<Rightarrow> string \<Rightarrow> string \<Rightarrow> v2err" where
  "page_failure html k r = V2Failure ((failure0 ''parse_page'' k r)\<lparr>Bytes := length html\<rparr>)"

definition parseCaptchaV2Page :: "v2_env \<Rightarrow> string \<Rightarrow> v2err + v2_page" where
  "parseCaptchaV2Page env html =
     (case find_first re_window_init html of
        None \<Rightarrow> Inl (page_failure html ''unsupported_page'' ''init_missing'')
      | Some rest \<Rightarrow>
          (case eInit env rest of
             None \<Rightarrow> Inl (page_failure html ''parse'' ''init_invalid_json'')
           | Some init \<Rightarrow>
               if ShowCaptchaType init = [] then
                 Inl (page_failure html ''unsupported_page'' ''init_schema'')
               else
                 (case find_first re_script_src html of
                    None \<Rightarrow> Inl (page_failure html ''unsupported_page'' ''script_missing'')
                  | Some src \<Rightarrow>
                      (case find_first re_pow_input html of
                         None \<Rightarrow> Inr \<lparr>PowInput = [], PowDifficulty = 0, ScriptURL = src, PageInit = init\<rparr>
                       | Some inp \<Rightarrow>
                           (case find_first re_difficulty html of
                              None \<Rightarrow> Inl (page_failure html ''unsupported_page'' ''difficulty_missing'')
                            | Some d \<Rightarrow>
                                (case atoi d of
                                   None \<Rightarrow> Inl (page_failure html ''parse'' ''difficulty_invalid'')
                                 | Some n \<Rightarrow>
                                     if n \<le> 0 then
                                       Inl (page_failure html ''parse'' ''difficulty_invalid'')
                                     else Inr \<lparr>PowInput = inp, PowDifficulty = n, ScriptURL = src,
                                               PageInit = init\<rparr>))))))"

section \<open>Checks\<close>

record v2_check =
  ckStatus :: string
  ckToken :: string
  ckShowType :: string

definition parseCaptchaV2Check :: "v2_env \<Rightarrow> jmap \<Rightarrow> v2err + v2_check" where
  "parseCaptchaV2Check env raw =
     (case as_obj (jget raw ''response'') of
        None \<Rightarrow> Inl (V2Text ''invalid captcha check response'')
      | Some resp \<Rightarrow>
          let out = \<lparr>ckStatus = captchaV2StringifyAny (eEnc env) (jget resp ''status''),
                     ckToken = captchaV2StringifyAny (eEnc env) (jget resp ''success_token''),
                     ckShowType = captchaV2StringifyAny (eEnc env) (jget resp ''show_captcha_type'')\<rparr>
          in if ckStatus out = [] then Inl (V2Text ''captcha check status missing'') else Inr out)"

definition check_form ::
  "string \<Rightarrow> string \<Rightarrow> string \<Rightarrow> string \<Rightarrow> string \<Rightarrow> string \<Rightarrow> (string \<times> string) list" where
  "check_form sessionToken browserFP hash answerJSON cursor debugInfo =
     [(''session_token'', sessionToken), (''domain'', ''vk.com''), (''adFp'', []),
      (''accelerometer'', ''[]''), (''gyroscope'', ''[]''), (''motion'', ''[]''), (''cursor'', cursor),
      (''taps'', ''[]''), (''connectionRtt'', ''[]''), (''connectionDownlink'', ''[]''),
      (''browser_fp'', browserFP), (''hash'', hash), (''answer'', b64_encode answerJSON),
      (''debug_info'', debugInfo), (''access_token'', [])]"

definition performCaptchaCheck ::
  "v2_env \<Rightarrow> string \<Rightarrow> string \<Rightarrow> string \<Rightarrow> string \<Rightarrow> string \<Rightarrow> string \<Rightarrow> v2_check v2" where
  "performCaptchaCheck env sessionToken browserFP hash answerJSON cursor debugInfo =
     v2_then
       (v2_wrap ''captcha check failed: '' []
         (captchaRequest env ''captchaNotRobot.check''
            (check_form sessionToken browserFP hash answerJSON cursor debugInfo)))
       (\<lambda>resp. case parseCaptchaV2Check env resp of
          Inl e \<Rightarrow> v2_fail e | Inr check \<Rightarrow> v2_return check)"

section \<open>Proof of work\<close>

text \<open>
  The search of \<open>solveCaptchaPoWV2\<close> from a nonce on; the context is asked at every multiple of 4096.
  An empty result is a failure.
\<close>

function pow_search :: "v2_env \<Rightarrow> string \<Rightarrow> string \<Rightarrow> nat \<Rightarrow> string v2" where
  "pow_search env inp target nonce s =
     (if nonce > 10000000 then v2_return [] s
      else
        let ask = (nonce mod 4096 = 0);
            s' = (if ask then s\<lparr>vTick := vTick s + 1\<rparr> else s);
            h = eSha env (inp @ digits_nat nonce)
        in if ask \<and> eCtx env (vTick s) \<noteq> None then v2_return [] s'
           else if has_prefix target h then v2_return h s'
           else pow_search env inp target (nonce + 1) s')"
  by pat_completeness auto
termination
  by (relation "measure (\<lambda>(env, inp, target, nonce, s). 10000001 - nonce)") auto

declare pow_search.simps [simp del]

definition solveCaptchaPoWV2 :: "v2_env \<Rightarrow> string \<Rightarrow> int \<Rightarrow> string v2" where
  "solveCaptchaPoWV2 env inp difficulty =
     (if inp = [] \<or> difficulty \<le> 0 then v2_return []
      else pow_search env inp (replicate (nat difficulty) CHR ''0'') 1)"

section \<open>The dialogues\<close>

definition captchaV2BaseValues :: "string \<Rightarrow> (string \<times> string) list" where
  "captchaV2BaseValues sessionToken =
     [(''session_token'', sessionToken), (''domain'', ''vk.com''), (''adFp'', []), (''access_token'', [])]"

definition captchaV2DeviceInfo :: string where
  "captchaV2DeviceInfo = ''{\"screenWidth\":1920,\"screenHeight\":1080,\"screenAvailWidth\":1920,''
     @ ''\"screenAvailHeight\":1040,\"innerWidth\":1920,\"innerHeight\":970,\"devicePixelRatio\":1,''
     @ ''\"language\":\"ru-RU\",\"languages\":[\"ru-RU\",\"ru\",\"en-US\",\"en\"],\"webdriver\":false,''
     @ ''\"hardwareConcurrency\":8,\"notificationsPermission\":\"default\"}''"

definition device_json :: "v2_env \<Rightarrow> string" where
  "device_json env =
     (case eSaved env of
        Some p \<Rightarrow> if trim_space (sbDeviceJSON p) \<noteq> [] then sbDeviceJSON p else captchaV2DeviceInfo
      | None \<Rightarrow> captchaV2DeviceInfo)"

definition hex_lower :: "nat \<Rightarrow> char" where
  "hex_lower n = char_of (if n < 10 then 48 + n else 87 + n)"

definition hex_encode :: "nat list \<Rightarrow> string" where
  "hex_encode bs = concat (map (\<lambda>b. [hex_lower (b div 16 mod 16), hex_lower (b mod 16)]) bs)"

definition captchaV2BrowserFP :: "v2_env \<Rightarrow> string v2" where
  "captchaV2BrowserFP env s =
     (let s' = s\<lparr>vRand := vRand s + 1\<rparr>
      in case eRand env (vRand s) of
           Inl e \<Rightarrow> v2_fail (V2Text (''browser fp generate: '' @ e)) s'
         | Inr b \<Rightarrow> v2_return (hex_encode b) s')"

definition fetchDebugInfo :: "v2_env \<Rightarrow> string \<Rightarrow> string v2" where
  "fetchDebugInfo env scriptURL s =
     (case map_of (vDebug s) scriptURL of
        Some v \<Rightarrow> v2_return v s
      | None \<Rightarrow>
          v2_then (doRaw env ''fetch_script'' ''GET'' scriptURL None
              [(''Accept'', ''text/javascript,*/*''), (''Referer'', ''https://id.vk.com/'')])
            (\<lambda>body. case find_first re_debug_info body of
               None \<Rightarrow> v2_fail (V2Text ''debug_info match not found'')
             | Some v \<Rightarrow> (\<lambda>s. v2_return v (s\<lparr>vDebug := (scriptURL, v) # vDebug s\<rparr>))) s)"

definition solveCheckboxCaptcha :: "v2_env \<Rightarrow> string \<Rightarrow> string \<Rightarrow> string \<Rightarrow> string \<Rightarrow> string v2" where
  "solveCheckboxCaptcha env sessionToken browserFP hash debugInfo =
     v2_then
       (v2_wrap ''captcha componentDone failed: '' []
         (captchaRequest env ''captchaNotRobot.componentDone''
           [(''session_token'', sessionToken), (''domain'', ''vk.com''), (''adFp'', []),
            (''browser_fp'', browserFP), (''device'', device_json env), (''access_token'', [])]))
       (\<lambda>_. v2_then (ask_ctx env) (\<lambda>c. case c of
            Some e \<Rightarrow> v2_fail (V2Ctx e)
          | None \<Rightarrow>
              v2_then (performCaptchaCheck env sessionToken browserFP hash ''{}'' ''[]'' debugInfo)
                (\<lambda>check.
                   if ckShowType check \<noteq> [] \<and> \<not> equal_fold ''checkbox'' (ckShowType check) then
                     v2_fail (V2ShowType (ckShowType check))
                   else if equal_fold ''error_limit'' (ckStatus check) then v2_fail V2RateLimit
                   else if equal_fold ''bot'' (ckStatus check) then
                     v2_fail (V2Wrap [] V2Bot
                       ('': checkbox captcha rejected: status='' @ ckStatus check))
                   else if \<not> equal_fold ''ok'' (ckStatus check) then
                     v2_fail (V2Text (''checkbox captcha rejected: status='' @ ckStatus check))
                   else if ckToken check = [] then
                     v2_fail (V2Text ''captcha success token not found'')
                   else v2_return (ckToken check))))"

definition swaps_json :: "int list \<Rightarrow> string" where
  "swaps_json s = ''{\"value\":['' @ join '','' (map fmt_int s) @ '']}''"

text \<open>The loop over the ranked guesses; \<open>n\<close> is their number.\<close>

fun slider_attempts ::
  "v2_env \<Rightarrow> string \<Rightarrow> string \<Rightarrow> string \<Rightarrow> string \<Rightarrow> nat \<Rightarrow> guess list \<Rightarrow> string v2" where
  "slider_attempts env tok fp hash dbg n [] = v2_fail (V2Text ''slider guesses exhausted'')"
| "slider_attempts env tok fp hash dbg n (g # gs) =
     v2_then (next_draws env) (\<lambda>draws. v2_then
       (performCaptchaCheck env tok fp hash (swaps_json (gSwaps g))
         (buildSliderCursorV2 (gIndex g) (int n) draws) dbg)
       (\<lambda>check.
          if equal_fold ''ok'' (ckStatus check) then
            (if ckToken check = [] then v2_fail (V2Text ''captcha success token not found'')
             else v2_return (ckToken check))
          else if equal_fold ''error_limit'' (ckStatus check) then v2_fail V2RateLimit
          else slider_attempts env tok fp hash dbg n gs))"

definition solveSliderCaptcha ::
  "v2_env \<Rightarrow> string \<Rightarrow> string \<Rightarrow> string \<Rightarrow> string \<Rightarrow> string \<Rightarrow> string v2" where
  "solveSliderCaptcha env tok fp hash settings dbg =
     v2_then
       (v2_wrap ''slider getContent failed: '' []
         (captchaRequest env ''captchaNotRobot.getContent''
           [(''session_token'', tok), (''domain'', ''vk.com''), (''adFp'', []), (''access_token'', []),
            (''captcha_settings'', settings)]))
       (\<lambda>resp. case parseSliderPuzzleV2 (eEnc env) (eFmt env) (eImage env) resp of
          Inl e \<Rightarrow> v2_fail (V2Text e)
        | Inr p \<Rightarrow>
            (case rankSliderGuessesV2 (pImage p) (pSize p) (pSwaps p) of
               Panic \<Rightarrow> v2_fail V2Panic
             | Fails e \<Rightarrow> v2_fail (V2Text e)
             | Returns guesses \<Rightarrow>
                 let limit = min (pAttempts p) (int (length guesses))
                 in if limit \<le> 0 then v2_fail (V2Text ''slider has no attempts available'')
                    else
                      v2_then
                        (v2_wrap ''captcha componentDone failed: '' []
                          (captchaRequest env ''captchaNotRobot.componentDone''
                            [(''session_token'', tok), (''domain'', ''vk.com''), (''adFp'', []),
                             (''access_token'', []), (''browser_fp'', fp),
                             (''device'', device_json env)]))
                        (\<lambda>_. slider_attempts env tok fp hash dbg (length guesses)
                           (take (nat limit) guesses))))"

text \<open>The switch over the kind of challenge that is solved.\<close>

definition dialogue :: "v2_env \<Rightarrow> string \<Rightarrow> string \<Rightarrow> string \<Rightarrow> string \<Rightarrow> string \<Rightarrow> string \<Rightarrow> string v2" where
  "dialogue env tok fp hash settings dbg showType =
     (if showType = ''slider'' then solveSliderCaptcha env tok fp hash settings dbg
      else solveCheckboxCaptcha env tok fp hash dbg)"

text \<open>
  The loop over the kind of challenge. \<open>fuel\<close> bounds its rounds; two are always enough, as is proved
  below.
\<close>

fun solve_show ::
  "nat \<Rightarrow> v2_env \<Rightarrow> string \<Rightarrow> string \<Rightarrow> string \<Rightarrow> string \<Rightarrow> string \<Rightarrow> string \<Rightarrow> v2_state \<Rightarrow>
     ((v2err + string) \<times> v2_state) option"
where
  "solve_show 0 env tok fp hash settings dbg showType s = None"
| "solve_show (Suc fuel) env tok fp hash settings dbg showType s =
     (if showType \<noteq> ''slider'' \<and> showType \<noteq> ''checkbox'' \<and> showType \<noteq> [] then
        Some (v2_fail (V2Text (''unsupported captcha type: '' @ showType)) s)
      else
        case dialogue env tok fp hash settings dbg showType s of
          (Inr token, s') \<Rightarrow> Some (Inr token, s')
        | (Inl e, s') \<Rightarrow>
            if v2_root e = V2Panic then Some (Inl e, s')
            else if v2_root e = V2Bot \<and> \<not> equal_fold ''slider'' showType \<and> settings \<noteq> [] then
              solve_show fuel env tok fp hash settings dbg ''slider'' s'
            else (case is_show_type e of
                    None \<Rightarrow> Some (Inl e, s')
                  | Some t \<Rightarrow> if t = [] then Some (Inl e, s')
                      else solve_show fuel env tok fp hash settings dbg t s'))"

definition slider_settings :: "v2_init \<Rightarrow> string" where
  "slider_settings i =
     fold (\<lambda>(t, v) acc. if t = ''slider'' then v else acc) (CaptchaSettings i) []"

definition solve_challenge ::
  "v2_env \<Rightarrow> string \<Rightarrow> string \<Rightarrow> string \<Rightarrow> string \<Rightarrow> string \<Rightarrow> string \<Rightarrow> string v2" where
  "solve_challenge env tok fp hash settings dbg showType s =
     (case solve_show 2 env tok fp hash settings dbg showType s of
        Some r \<Rightarrow> r | None \<Rightarrow> (Inl (V2Text []), s))"

definition solveOnce :: "v2_env \<Rightarrow> captcha_error \<Rightarrow> string v2" where
  "solveOnce env ce =
     v2_then (fetchCaptchaHTML env (RedirectURI ce)) (\<lambda>html.
       case parseCaptchaV2Page env html of
         Inl e \<Rightarrow> v2_fail e
       | Inr page \<Rightarrow>
           if PowInput page = [] then
             v2_fail (page_failure html ''unsupported_page'' ''pow_missing'')
           else
             let settings = slider_settings (PageInit page);
                 showType = ShowCaptchaType (PageInit page)
             in if showType = ''slider'' \<and> settings = [] then
                  v2_fail (V2Text ''failed to find slider captcha settings'')
                else
                  v2_then (solveCaptchaPoWV2 env (PowInput page) (PowDifficulty page)) (\<lambda>hash.
                    if hash = [] then v2_fail (V2Text ''captcha pow failed'')
                    else
                      v2_then
                        (v2_wrap ''captcha settings failed: '' []
                          (captchaRequest env ''captchaNotRobot.settings''
                            (captchaV2BaseValues (SessionToken ce)))) (\<lambda>_.
                      v2_then (captchaV2BrowserFP env) (\<lambda>fp.
                        let fp = (case eSaved env of
                              Some p \<Rightarrow> if trim_space (sbBrowserFp p) \<noteq> [] then sbBrowserFp p else fp
                            | None \<Rightarrow> fp)
                        in v2_then
                             (v2_wrap ''failed to fetch debug info: '' '' (script_version=1.1.1370)''
                               (fetchDebugInfo env (ScriptURL page))) (\<lambda>dbg.
                           v2_then
                             (solve_challenge env (SessionToken ce) fp hash settings dbg showType)
                             (\<lambda>token s.
                               (Inr token, snd (captchaRequest env ''captchaNotRobot.endSession''
                                  (captchaV2BaseValues (SessionToken ce)) s))))))))"

text \<open>The loop over whole attempts; between two of them the context is asked while waiting.\<close>

fun v2_attempts :: "v2_env \<Rightarrow> captcha_error \<Rightarrow> nat \<Rightarrow> v2err option \<Rightarrow> string v2" where
  "v2_attempts env ce 0 lastErr s =
     v2_fail (V2Wrap ''captcha v2 attempts exhausted: ''
       (case lastErr of Some e \<Rightarrow> e | None \<Rightarrow> V2Text ''%!w(<nil>)'') []) s"
| "v2_attempts env ce (Suc n) lastErr s =
     v2_then (ask_ctx env) (\<lambda>c. case c of
         Some e \<Rightarrow> v2_fail (V2Ctx e)
       | None \<Rightarrow> (\<lambda>s.
           case solveOnce env ce s of
             (Inr token, s) \<Rightarrow> (Inr token, s)
           | (Inl e, s) \<Rightarrow>
               if v2_root e = V2Panic then (Inl e, s)
               else v2_then (ask_ctx env) (\<lambda>c. case c of
                   Some ce' \<Rightarrow> v2_fail (V2Ctx ce')
                 | None \<Rightarrow>
                     if captchaV2Terminal e then v2_fail e
                     else if n = 0 then v2_attempts env ce 0 (Some e)
                     else v2_then (ask_ctx env) (\<lambda>c. case c of
                         Some ce' \<Rightarrow> v2_fail (V2Ctx ce')
                       | None \<Rightarrow> v2_attempts env ce n (Some e))) s)) s"

definition solveVkCaptchaV2Attempts :: "v2_env \<Rightarrow> captcha_error option \<Rightarrow> int \<Rightarrow> string v2" where
  "solveVkCaptchaV2Attempts env ce maxAttempts =
     (case ce of
        None \<Rightarrow> v2_fail (V2Text ''no session_token in redirect_uri'')
      | Some ce \<Rightarrow>
          if SessionToken ce = [] then v2_fail (V2Text ''no session_token in redirect_uri'')
          else v2_attempts env ce (nat (if maxAttempts < 1 then 10 else maxAttempts)) None)"

definition solveVkCaptchaV2 :: "v2_env \<Rightarrow> captcha_error option \<Rightarrow> string v2" where
  "solveVkCaptchaV2 env ce = solveVkCaptchaV2Attempts env ce 10"

section \<open>The log only grows\<close>

definition grows :: "v2_state \<Rightarrow> v2_state \<Rightarrow> bool" where
  "grows s s' \<longleftrightarrow> (\<exists>r. vLog s' = vLog s @ r)"

definition growing :: "'a v2 \<Rightarrow> bool" where
  "growing m \<longleftrightarrow> (\<forall>s. grows s (snd (m s)))"

lemma grows_refl [simp]: "grows s s"
  by (simp add: grows_def)

lemma grows_trans: "grows s t \<Longrightarrow> grows t u \<Longrightarrow> grows s u"
  by (auto simp: grows_def)

lemma grows_length: "grows s t \<Longrightarrow> length (vLog s) \<le> length (vLog t)"
  by (auto simp: grows_def)

lemma grows_nth: "grows s t \<Longrightarrow> n < length (vLog s) \<Longrightarrow> vLog t ! n = vLog s ! n"
  by (auto simp: grows_def nth_append)

lemma growingD: "growing m \<Longrightarrow> m s = (r, s') \<Longrightarrow> grows s s'"
  by (metis growing_def snd_conv)

lemma growingI: "(\<And>s r s'. m s = (r, s') \<Longrightarrow> grows s s') \<Longrightarrow> growing m"
  by (metis growing_def prod.collapse)

lemma growing_return [v2_ext]: "growing (v2_return x)"
  by (simp add: growing_def v2_return_def)

lemma growing_fail [v2_ext]: "growing (v2_fail e)"
  by (simp add: growing_def v2_fail_def)

lemma growing_then [v2_ext]: "growing m \<Longrightarrow> (\<And>x. growing (f x)) \<Longrightarrow> growing (v2_then m f)"
  by (rule growingI)
    (auto simp: v2_then_def split: prod.splits sum.splits intro: growingD grows_trans)

lemma growing_wrap [v2_ext]: "growing m \<Longrightarrow> growing (v2_wrap a b m)"
  by (rule growingI) (auto simp: v2_wrap_def split: prod.splits sum.splits intro: growingD)

lemma growing_ask [v2_ext]: "growing (ask_ctx env)"
  by (simp add: growing_def ask_ctx_def grows_def)

lemma growing_option [v2_ext]:
  "growing a \<Longrightarrow> (\<And>x. growing (b x)) \<Longrightarrow> growing (case c of None \<Rightarrow> a | Some x \<Rightarrow> b x)"
  by (cases c) auto

lemma growing_sum [v2_ext]:
  "(\<And>x. growing (a x)) \<Longrightarrow> (\<And>x. growing (b x)) \<Longrightarrow> growing (case c of Inl x \<Rightarrow> a x | Inr x \<Rightarrow> b x)"
  by (cases c) auto

lemma growing_if [v2_ext]: "growing a \<Longrightarrow> growing b \<Longrightarrow> growing (if c then a else b)"
  by simp

lemma growing_outcome [v2_ext]:
  "growing a \<Longrightarrow> (\<And>x. growing (b x)) \<Longrightarrow> (\<And>x. growing (c x)) \<Longrightarrow>
    growing (case r of Panic \<Rightarrow> a | Fails x \<Rightarrow> b x | Returns x \<Rightarrow> c x)"
  by (cases r) auto

lemma growing_judge: "growing (judge_answer env ph url ms a)"
  by (rule growingI)
    (auto simp: judge_answer_def v2_then_def ask_ctx_def v2_fail_def v2_return_def Let_def grows_def
      split: answer.splits option.splits if_splits)

lemma growing_doRaw [v2_ext]: "growing (doRaw env ph m ep form extra)"
proof (rule growingI)
  fix s r s'
  assume "doRaw env ph m ep form extra s = (r, s')"
  then show "grows s s'"
    using growingD [OF growing_judge]
    by (fastforce simp: doRaw_def v2_fail_def Let_def grows_def split: if_splits)
qed

lemma growing_captchaRequest [v2_ext]: "growing (captchaRequest env meth form)"
  unfolding captchaRequest_def by (intro v2_ext)

lemma growing_check [v2_ext]: "growing (performCaptchaCheck env tok fp h a c d)"
  unfolding performCaptchaCheck_def by (intro v2_ext)

lemma growing_pow_search: "growing (pow_search env inp target n)"
proof (rule growingI)
  fix s r s'
  assume "pow_search env inp target n s = (r, s')"
  then show "grows s s'"
  proof (induction env inp target n s arbitrary: r s' rule: pow_search.induct)
    case (1 env inp target n s)
    let ?s = "if n mod 4096 = 0 then s\<lparr>vTick := vTick s + 1\<rparr> else s"
    have s: "grows s ?s"
      by (simp add: grows_def)
    show ?case
    proof (cases "10000000 < n \<or> n mod 4096 = 0 \<and> eCtx env (vTick s) \<noteq> None \<or>
        has_prefix target (eSha env (inp @ digits_nat n))")
      case True
      then have "s' = s \<or> s' = ?s"
        using 1(2) by (auto simp: pow_search.simps [of env inp target n] v2_return_def Let_def
          split: if_splits)
      then show ?thesis
        using s by auto
    next
      case False
      then have "pow_search env inp target (n + 1) ?s = (r, s')"
        using 1(2) unfolding pow_search.simps [of env inp target n] Let_def
        by (simp split: if_splits)
      then have "grows ?s s'"
        using 1(1) [OF _ refl refl refl] False by blast
      then show ?thesis
        using s grows_trans by blast
    qed
  qed
qed

lemma growing_pow [v2_ext]: "growing (solveCaptchaPoWV2 env inp d)"
  unfolding solveCaptchaPoWV2_def by (intro v2_ext growing_pow_search)

lemma growing_fp [v2_ext]: "growing (captchaV2BrowserFP env)"
  by (rule growingI)
    (auto simp: captchaV2BrowserFP_def v2_fail_def v2_return_def Let_def grows_def split: sum.splits)

lemma growing_remember: "growing (\<lambda>s. v2_return v (s\<lparr>vDebug := x s\<rparr>))"
  by (simp add: growing_def grows_def v2_return_def)

lemma growing_debug [v2_ext]: "growing (fetchDebugInfo env url)"
proof (rule growingI)
  fix s r s'
  assume a: "fetchDebugInfo env url s = (r, s')"
  let ?m = "v2_then (doRaw env ''fetch_script'' ''GET'' url None
              [(''Accept'', ''text/javascript,*/*''), (''Referer'', ''https://id.vk.com/'')])
            (\<lambda>body. case find_first re_debug_info body of
               None \<Rightarrow> v2_fail (V2Text ''debug_info match not found'')
             | Some v \<Rightarrow> (\<lambda>s. v2_return v (s\<lparr>vDebug := (url, v) # vDebug s\<rparr>)))"
  have "growing ?m"
    by (intro v2_ext growing_remember)
  then show "grows s s'"
    using a by (auto simp: fetchDebugInfo_def v2_return_def growingD split: option.splits)
qed

lemma growing_checkbox [v2_ext]: "growing (solveCheckboxCaptcha env tok fp h d)"
  unfolding solveCheckboxCaptcha_def by (intro v2_ext)

lemma growing_draws [v2_ext]: "growing (next_draws env)"
  by (simp add: growing_def next_draws_def)

lemma growing_attempts [v2_ext]: "growing (slider_attempts env tok fp h d n gs)"
proof (induction gs)
  case (Cons g gs)
  show ?case
    unfolding slider_attempts.simps by (intro v2_ext Cons.IH)
qed (simp add: v2_ext)

lemma growing_slider [v2_ext]: "growing (solveSliderCaptcha env tok fp h st d)"
  unfolding solveSliderCaptcha_def Let_def by (intro v2_ext)

lemma growing_dialogue [v2_ext]: "growing (dialogue env tok fp h st d ty)"
  unfolding dialogue_def by (intro v2_ext)

lemma solve_show_round:
  assumes "dialogue env tok fp h st d ty s = (x, s1)"
  shows "solve_show (Suc k) env tok fp h st d ty s =
    (if ty \<noteq> ''slider'' \<and> ty \<noteq> ''checkbox'' \<and> ty \<noteq> [] then
       Some (Inl (V2Text (''unsupported captcha type: '' @ ty)), s)
     else case x of
        Inr token \<Rightarrow> Some (Inr token, s1)
      | Inl e \<Rightarrow>
          if v2_root e = V2Panic then Some (Inl e, s1)
          else if v2_root e = V2Bot \<and> \<not> equal_fold ''slider'' ty \<and> st \<noteq> [] then
            solve_show k env tok fp h st d ''slider'' s1
          else (case is_show_type e of
                  None \<Rightarrow> Some (Inl e, s1)
                | Some t \<Rightarrow> if t = [] then Some (Inl e, s1) else solve_show k env tok fp h st d t s1))"
  unfolding solve_show.simps v2_fail_def assms by (cases x) simp_all

lemma solve_show_grows: "solve_show k env tok fp h st d ty s = Some (r, s') \<Longrightarrow> grows s s'"
proof (induction k arbitrary: ty s)
  case (Suc k)
  obtain x s1 where d: "dialogue env tok fp h st d ty s = (x, s1)"
    by fastforce
  then have "grows s s1"
    using growingD [OF growing_dialogue] by blast
  moreover have "s' = s \<or> s' = s1 \<or> (\<exists>t. solve_show k env tok fp h st d t s1 = Some (r, s'))"
    using Suc.prems unfolding solve_show_round [OF d]
    by (auto split: if_splits sum.splits option.splits)
  ultimately show ?case
    using Suc.IH grows_trans grows_refl by metis
qed simp

lemma growing_challenge [v2_ext]: "growing (solve_challenge env tok fp h st d ty)"
  by (rule growingI) (auto simp: solve_challenge_def dest: solve_show_grows split: option.splits)

section \<open>Where tokens come from\<close>

lemma then_Inr: "v2_then m f s = (Inr x, s') \<longleftrightarrow> (\<exists>a s1. m s = (Inr a, s1) \<and> f a s1 = (Inr x, s'))"
  by (auto simp: v2_then_def split: prod.splits sum.splits)

lemma wrap_Inr [simp]: "v2_wrap a b m s = (Inr x, s') \<longleftrightarrow> m s = (Inr x, s')"
  by (auto simp: v2_wrap_def split: prod.splits sum.splits)

lemma fail_Inr [simp]: "v2_fail e s \<noteq> (Inr x, s')"
  by (simp add: v2_fail_def)

lemma return_Inr [simp]: "v2_return y s = (Inr x, s') \<longleftrightarrow> y = x \<and> s' = s"
  by (auto simp: v2_return_def)

text \<open>An answer that is taken: read completely, not too long, with a success status.\<close>

definition accepted :: "answer \<Rightarrow> string \<Rightarrow> bool" where
  "accepted a body \<longleftrightarrow> (\<exists>st ct url. a = Answer st ct body False url \<and> 200 \<le> st \<and> st < 300
     \<and> length body \<le> maxCaptchaResponseBytes)"

lemma judge_Inr:
  assumes "judge_answer env ph url ms a s = (Inr body, s')"
  shows "accepted a body \<and> s' = s"
proof (cases a)
  case NoAnswer
  then show ?thesis
    using assms by (auto simp: judge_answer_def then_Inr split: option.splits)
next
  case (Answer st ct b rerr final)
  then have n: "\<not> rerr" "\<not> length (take (maxCaptchaResponseBytes + 1) b) > maxCaptchaResponseBytes"
    "200 \<le> st" "st < 300" "body = take (maxCaptchaResponseBytes + 1) b" "s' = s"
    using assms by (auto simp: judge_answer_def then_Inr Let_def split: option.splits if_splits)
  then have "length b \<le> maxCaptchaResponseBytes"
    by (cases "length b \<le> maxCaptchaResponseBytes") auto
  then show ?thesis
    using n Answer by (simp add: accepted_def)
qed

lemma doRaw_Inr:
  assumes "doRaw env ph m ep form extra s = (Inr body, s')"
  shows "\<exists>rq. vLog s' = vLog s @ [rq] \<and> rqURL rq = ep \<and> rqForm rq = form \<and>
    accepted (eClient env (length (vLog s)) rq) body"
proof -
  let ?rq = "\<lparr>rqPhase = ph, rqMethod = m, rqURL = ep, rqForm = form,
    rqBody = (case form of None \<Rightarrow> [] | Some f \<Rightarrow> captchaV2EncodeForm f),
    rqHeaders = v2_headers env (form \<noteq> None) extra\<rparr>"
  have "judge_answer env ph ep (eMillis env (length (vLog s))) (eClient env (length (vLog s)) ?rq)
       (s\<lparr>vLog := vLog s @ [?rq]\<rparr>) = (Inr body, s')"
    using assms unfolding doRaw_def Let_def by (simp split: if_splits)
  from judge_Inr [OF this] show ?thesis
    by (intro exI [of _ ?rq]) simp
qed

lemma captchaRequest_Inr:
  assumes "captchaRequest env meth form s = (Inr out, s')"
  shows "\<exists>rq body. vLog s' = vLog s @ [rq] \<and>
    rqURL rq = ''https://api.vk.ru/method/'' @ meth @ ''?v=5.131'' \<and> rqForm rq = Some form \<and>
    accepted (eClient env (length (vLog s)) rq) body \<and> eJson env body = Inr out"
proof -
  from assms obtain body s1 where b: "doRaw env ''api_request'' ''POST''
      (''https://api.vk.ru/method/'' @ meth @ ''?v=5.131'') (Some form)
      [(''Origin'', ''https://id.vk.com''), (''Referer'', ''https://id.vk.com/''), (''Priority'', ''u=1, i'')]
      s = (Inr body, s1)"
    and j: "(case eJson env body of Inl e \<Rightarrow> v2_fail (V2Text (''captcha api decode: '' @ e))
        | Inr out \<Rightarrow> v2_return out) s1 = (Inr out, s')"
    unfolding captchaRequest_def then_Inr by blast
  have "eJson env body = Inr out" "s1 = s'"
    using j by (auto split: sum.splits)
  then show ?thesis
    using doRaw_Inr [OF b] by blast
qed

text \<open>
  A token is issued when a check for the session token was answered with the status \<open>ok\<close> and this
  token, by a request sent after the state \<open>s\<close>.
\<close>

definition issued :: "v2_env \<Rightarrow> string \<Rightarrow> string \<Rightarrow> v2_state \<Rightarrow> v2_state \<Rightarrow> bool" where
  "issued env sess token s s' \<longleftrightarrow> (\<exists>n rq form body raw check.
     length (vLog s) \<le> n \<and> n < length (vLog s') \<and> rq = vLog s' ! n \<and>
     rqURL rq = ''https://api.vk.ru/method/captchaNotRobot.check?v=5.131'' \<and>
     rqForm rq = Some form \<and> map_of form ''session_token'' = Some sess \<and>
     accepted (eClient env n rq) body \<and> eJson env body = Inr raw \<and>
     parseCaptchaV2Check env raw = Inr check \<and> equal_fold ''ok'' (ckStatus check) \<and>
     ckToken check = token)"

lemma issued_mono: "issued env x t s1 s2 \<Longrightarrow> grows s0 s1 \<Longrightarrow> grows s2 s3 \<Longrightarrow> issued env x t s0 s3"
proof -
  assume i: "issued env x t s1 s2" and g: "grows s0 s1" "grows s2 s3"
  from i obtain n where n: "length (vLog s1) \<le> n" "n < length (vLog s2)"
    "\<exists>rq form body raw check. rq = vLog s2 ! n \<and>
     rqURL rq = ''https://api.vk.ru/method/captchaNotRobot.check?v=5.131'' \<and>
     rqForm rq = Some form \<and> map_of form ''session_token'' = Some x \<and>
     accepted (eClient env n rq) body \<and> eJson env body = Inr raw \<and>
     parseCaptchaV2Check env raw = Inr check \<and> equal_fold ''ok'' (ckStatus check) \<and> ckToken check = t"
    unfolding issued_def by blast
  moreover have "vLog s3 ! n = vLog s2 ! n" "length (vLog s0) \<le> n" "n < length (vLog s3)"
    using grows_nth [OF g(2) n(2)] grows_length [OF g(1)] grows_length [OF g(2)] n by simp_all
  ultimately show ?thesis
    unfolding issued_def by metis
qed

lemma check_issued:
  assumes "performCaptchaCheck env sess fp h a c d s = (Inr check, s')"
    and "equal_fold ''ok'' (ckStatus check)"
  shows "issued env sess (ckToken check) s s'"
proof -
  let ?form = "check_form sess fp h a c d"
  from assms(1) obtain raw s1 where r: "captchaRequest env ''captchaNotRobot.check'' ?form s = (Inr raw, s1)"
    and j: "(case parseCaptchaV2Check env raw of Inl e \<Rightarrow> v2_fail e | Inr check \<Rightarrow> v2_return check) s1
      = (Inr check, s')"
    unfolding performCaptchaCheck_def then_Inr wrap_Inr by blast
  have p: "parseCaptchaV2Check env raw = Inr check" "s1 = s'"
    using j by (auto split: sum.splits)
  from captchaRequest_Inr [OF r] obtain rq body where rq: "vLog s' = vLog s @ [rq]"
    "rqURL rq = ''https://api.vk.ru/method/captchaNotRobot.check?v=5.131''"
    "rqForm rq = Some ?form" "accepted (eClient env (length (vLog s)) rq) body" "eJson env body = Inr raw"
    using p(2) by auto
  moreover have "map_of ?form ''session_token'' = Some sess"
    by (simp add: check_form_def)
  ultimately show ?thesis
    unfolding issued_def using p(1) assms(2)
    by (intro exI [of _ "length (vLog s)"] exI [of _ rq] exI [of _ ?form]
        exI [of _ body] exI [of _ raw] exI [of _ check]) simp
qed

definition token_ok :: "v2_env \<Rightarrow> string \<Rightarrow> string \<Rightarrow> v2_state \<Rightarrow> v2_state \<Rightarrow> bool" where
  "token_ok env sess token s s' \<longleftrightarrow> token \<noteq> [] \<and> issued env sess token s s'"

lemma token_ok_mono: "token_ok env x t s1 s2 \<Longrightarrow> grows s0 s1 \<Longrightarrow> grows s2 s3 \<Longrightarrow> token_ok env x t s0 s3"
  unfolding token_ok_def using issued_mono by blast

lemma checkbox_token:
  assumes "solveCheckboxCaptcha env sess fp h d s = (Inr token, s')"
  shows "token_ok env sess token s s'"
proof -
  from assms obtain x s1 s2 check where c: "captchaRequest env ''captchaNotRobot.componentDone''
           [(''session_token'', sess), (''domain'', ''vk.com''), (''adFp'', []),
            (''browser_fp'', fp), (''device'', device_json env), (''access_token'', [])] s = (Inr x, s1)"
    "ask_ctx env s1 = (Inr None, s2)"
    "performCaptchaCheck env sess fp h ''{}'' ''[]'' d s2 = (Inr check, s')"
    "equal_fold ''ok'' (ckStatus check)" "token = ckToken check" "token \<noteq> []"
    unfolding solveCheckboxCaptcha_def then_Inr wrap_Inr
    by (auto simp: then_Inr split: option.splits if_splits)
  have "grows s s2"
    using growingD [OF growing_captchaRequest c(1)] growingD [OF growing_ask c(2)] by (rule grows_trans)
  then show ?thesis
    using check_issued [OF c(3,4)] c(5,6) issued_mono [OF _ _ grows_refl] by (auto simp: token_ok_def)
qed

lemma attempts_token:
  "slider_attempts env sess fp h d n gs s = (Inr token, s') \<Longrightarrow> token_ok env sess token s s'"
proof (induction gs arbitrary: s)
  case (Cons g gs)
  from Cons.prems obtain s1 check draws where c:
    "performCaptchaCheck env sess fp h (swaps_json (gSwaps g))
       (buildSliderCursorV2 (gIndex g) (int n) draws) d s = (Inr check, s1)"
    "equal_fold ''ok'' (ckStatus check) \<and> token = ckToken check \<and> token \<noteq> [] \<and> s' = s1 \<or>
     slider_attempts env sess fp h d n gs s1 = (Inr token, s')"
    unfolding slider_attempts.simps then_Inr next_draws_def by (auto split: if_splits)
  from c(2) show ?case
  proof
    assume "slider_attempts env sess fp h d n gs s1 = (Inr token, s')"
    then show ?thesis
      using Cons.IH token_ok_mono growingD [OF growing_check c(1)] grows_refl by blast
  qed (use check_issued [OF c(1)] in \<open>auto simp: token_ok_def\<close>)
qed simp

lemma slider_token:
  assumes "solveSliderCaptcha env sess fp h st d s = (Inr token, s')"
  shows "token_ok env sess token s s'"
proof -
  let ?content = "captchaRequest env ''captchaNotRobot.getContent''
           [(''session_token'', sess), (''domain'', ''vk.com''), (''adFp'', []), (''access_token'', []),
            (''captcha_settings'', st)]"
  let ?ready = "captchaRequest env ''captchaNotRobot.componentDone''
           [(''session_token'', sess), (''domain'', ''vk.com''), (''adFp'', []), (''access_token'', []),
            (''browser_fp'', fp), (''device'', device_json env)]"
  from assms obtain x s1 where c1: "?content s = (Inr x, s1)"
    and r: "(case parseSliderPuzzleV2 (eEnc env) (eFmt env) (eImage env) x of
          Inl e \<Rightarrow> v2_fail (V2Text e)
        | Inr p \<Rightarrow>
            (case rankSliderGuessesV2 (pImage p) (pSize p) (pSwaps p) of
               Panic \<Rightarrow> v2_fail V2Panic
             | Fails e \<Rightarrow> v2_fail (V2Text e)
             | Returns guesses \<Rightarrow>
                 if min (pAttempts p) (int (length guesses)) \<le> 0
                 then v2_fail (V2Text ''slider has no attempts available'')
                 else v2_then (v2_wrap ''captcha componentDone failed: '' [] ?ready)
                   (\<lambda>_. slider_attempts env sess fp h d (length guesses)
                      (take (nat (min (pAttempts p) (int (length guesses)))) guesses)))) s1
      = (Inr token, s')"
    unfolding solveSliderCaptcha_def Let_def then_Inr wrap_Inr by blast
  obtain p where p: "parseSliderPuzzleV2 (eEnc env) (eFmt env) (eImage env) x = Inr p"
    using r by (cases "parseSliderPuzzleV2 (eEnc env) (eFmt env) (eImage env) x") auto
  obtain gs where g: "rankSliderGuessesV2 (pImage p) (pSize p) (pSwaps p) = Returns gs"
    using r p by (cases "rankSliderGuessesV2 (pImage p) (pSize p) (pSwaps p)") auto
  define k where "k = min (pAttempts p) (int (length gs))"
  have "\<exists>y s2. ?ready s1 = (Inr y, s2) \<and>
      slider_attempts env sess fp h d (length gs) (take (nat k) gs) s2 = (Inr token, s')"
    using r unfolding p g sum.case outcome.case k_def [symmetric]
    by (cases "k \<le> 0") (simp_all only: if_True if_False then_Inr wrap_Inr fail_Inr simp_thms)
  then obtain y s2 n gs' where c2: "?ready s1 = (Inr y, s2)"
    and c3: "slider_attempts env sess fp h d n gs' s2 = (Inr token, s')"
    by blast
  note c = c1 c2 c3
  have "grows s s2"
    using growingD [OF growing_captchaRequest c(1)] growingD [OF growing_captchaRequest c(2)]
    by (rule grows_trans)
  then show ?thesis
    using token_ok_mono [OF attempts_token [OF c(3)] _ grows_refl] by blast
qed

lemma dialogue_token: "dialogue env sess fp h st d ty s = (Inr token, s') \<Longrightarrow> token_ok env sess token s s'"
  unfolding dialogue_def using slider_token checkbox_token by (auto split: if_splits)

lemma solve_show_token:
  "solve_show k env sess fp h st d ty s = Some (Inr token, s') \<Longrightarrow> token_ok env sess token s s'"
proof (induction k arbitrary: ty s)
  case (Suc k)
  obtain x s1 where d: "dialogue env sess fp h st d ty s = (x, s1)"
    by fastforce
  have "x = Inr token \<and> s' = s1 \<or> (\<exists>t. solve_show k env sess fp h st d t s1 = Some (Inr token, s'))"
    using Suc.prems unfolding solve_show_round [OF d]
    by (auto split: if_splits sum.splits option.splits)
  then show ?case
    using dialogue_token d Suc.IH token_ok_mono growingD [OF growing_dialogue d] grows_refl by blast
qed simp

lemma challenge_token: "solve_challenge env sess fp h st d ty s = (Inr token, s') \<Longrightarrow>
    token_ok env sess token s s'"
  by (auto simp: solve_challenge_def split: option.splits intro: solve_show_token)

text \<open>Programs that only return tokens issued while they run.\<close>

definition tokens :: "v2_env \<Rightarrow> string \<Rightarrow> string v2 \<Rightarrow> bool" where
  "tokens env sess m \<longleftrightarrow> (\<forall>s t s'. m s = (Inr t, s') \<longrightarrow> token_ok env sess t s s')"

lemma tokensD: "tokens env sess m \<Longrightarrow> m s = (Inr t, s') \<Longrightarrow> token_ok env sess t s s'"
  by (auto simp: tokens_def)

lemma tokens_fail: "tokens env sess (v2_fail e)"
  by (simp add: tokens_def)

lemma tokens_if: "tokens env sess a \<Longrightarrow> tokens env sess b \<Longrightarrow> tokens env sess (if c then a else b)"
  by simp

lemma tokens_sum: "(\<And>x. tokens env sess (a x)) \<Longrightarrow> (\<And>x. tokens env sess (b x)) \<Longrightarrow>
    tokens env sess (case c of Inl x \<Rightarrow> a x | Inr x \<Rightarrow> b x)"
  by (cases c) auto

lemma tokens_option: "tokens env sess a \<Longrightarrow> (\<And>x. tokens env sess (b x)) \<Longrightarrow>
    tokens env sess (case c of None \<Rightarrow> a | Some x \<Rightarrow> b x)"
  by (cases c) auto

lemma tokens_then: "growing m \<Longrightarrow> (\<And>x. tokens env sess (f x)) \<Longrightarrow> tokens env sess (v2_then m f)"
  unfolding tokens_def then_Inr using growingD token_ok_mono grows_refl by metis

lemma tokens_last: "tokens env sess m \<Longrightarrow> growing r \<Longrightarrow>
    tokens env sess (v2_then m (\<lambda>t s. (Inr t, snd (r s))))"
  unfolding tokens_def then_Inr growing_def
  using token_ok_mono [OF _ grows_refl] by (metis Pair_inject sum.inject(2))

lemma tokens_challenge: "tokens env sess (solve_challenge env sess fp h st d ty)"
  using challenge_token by (auto simp: tokens_def)

lemmas tokens_rules = tokens_fail tokens_if tokens_sum tokens_last tokens_then tokens_challenge

lemma growing_html [v2_ext]: "growing (fetchCaptchaHTML env uri)"
  unfolding fetchCaptchaHTML_def by (intro v2_ext)

lemma tokens_solveOnce: "tokens env (SessionToken ce) (solveOnce env ce)"
  unfolding solveOnce_def Let_def by (intro tokens_rules v2_ext)

lemma growing_end: "growing r \<Longrightarrow> growing (\<lambda>s. (Inr t, snd (r s)))"
  by (simp add: growing_def)

lemma growing_solveOnce [v2_ext]: "growing (solveOnce env ce)"
  unfolding solveOnce_def Let_def by (intro v2_ext growing_end)

lemma v2_attempts_token: "tokens env (SessionToken ce) (v2_attempts env ce n e)"
proof (induction n arbitrary: e)
  case 0
  then show ?case
    by (simp add: tokens_def)
next
  case (Suc n)
  define rest where "rest e = v2_then (ask_ctx env) (\<lambda>c. case c of
                   Some ce' \<Rightarrow> v2_fail (V2Ctx ce')
                 | None \<Rightarrow>
                     if captchaV2Terminal e then v2_fail e
                     else if n = 0 then v2_attempts env ce 0 (Some e)
                     else v2_then (ask_ctx env) (\<lambda>c. case c of
                         Some ce' \<Rightarrow> v2_fail (V2Ctx ce')
                       | None \<Rightarrow> v2_attempts env ce n (Some e)))" for e
  have z: "tokens env (SessionToken ce) (v2_attempts env ce 0 e)" for e
    by (simp add: tokens_def)
  have rest: "tokens env (SessionToken ce) (rest e)" for e
    unfolding rest_def by (intro tokens_fail tokens_if tokens_then tokens_option growing_ask Suc.IH z)
  have "tokens env (SessionToken ce) (\<lambda>s. case solveOnce env ce s of
             (Inr token, s) \<Rightarrow> (Inr token, s)
           | (Inl e, s) \<Rightarrow> if v2_root e = V2Panic then (Inl e, s) else rest e s)"
    unfolding tokens_def
  proof (intro allI impI)
    fix s t s'
    assume a: "(case solveOnce env ce s of
             (Inr token, s) \<Rightarrow> (Inr token, s)
           | (Inl e, s) \<Rightarrow> if v2_root e = V2Panic then (Inl e, s) else rest e s) = (Inr t, s')"
    obtain x s1 where o: "solveOnce env ce s = (x, s1)"
      by fastforce
    then have g: "grows s s1"
      by (rule growingD [OF growing_solveOnce])
    show "token_ok env (SessionToken ce) t s s'"
    proof (cases x)
      case (Inr token)
      then show ?thesis
        using a o tokensD [OF tokens_solveOnce] by simp
    next
      case (Inl e)
      then have "rest e s1 = (Inr t, s')"
        using a o by (simp split: if_splits)
      then show ?thesis
        using token_ok_mono [OF tokensD [OF rest] g grows_refl] by blast
    qed
  qed
  then show ?case
    unfolding rest_def v2_attempts.simps eta_contract_eq
    by (intro tokens_then tokens_option tokens_fail growing_ask)
qed

section \<open>The proof of work\<close>

lemma pow_search_found:
  assumes "pow_search env inp target n s = (Inr h, s')" and "h \<noteq> []"
  shows "\<exists>m. n \<le> m \<and> m \<le> 10000000 \<and> h = eSha env (inp @ digits_nat m) \<and> has_prefix target h \<and>
    (\<forall>k. n \<le> k \<and> k < m \<longrightarrow> \<not> has_prefix target (eSha env (inp @ digits_nat k)))"
  using assms
proof (induction env inp target n s rule: pow_search.induct)
  case (1 env inp target n s)
  let ?s = "if n mod 4096 = 0 then s\<lparr>vTick := vTick s + 1\<rparr> else s"
  let ?h = "eSha env (inp @ digits_nat n)"
  have n: "\<not> 10000000 < n" "\<not> (n mod 4096 = 0 \<and> eCtx env (vTick s) \<noteq> None)"
    using 1(2,3) by (auto simp: pow_search.simps [of env inp target n] Let_def split: if_splits)
  show ?case
  proof (cases "has_prefix target ?h")
    case True
    then show ?thesis
      using 1(2) n unfolding pow_search.simps [of env inp target n] Let_def
      by (intro exI [of _ n]) (auto split: if_splits)
  next
    case False
    then have "pow_search env inp target (n + 1) ?s = (Inr h, s')"
      using 1(2) n unfolding pow_search.simps [of env inp target n] Let_def
      by (simp split: if_splits)
    from 1(1) [OF n(1) refl refl refl n(2) False this 1(3)] obtain m where m: "n + 1 \<le> m"
      "m \<le> 10000000" "h = eSha env (inp @ digits_nat m)" "has_prefix target h"
      "\<forall>k. n + 1 \<le> k \<and> k < m \<longrightarrow> \<not> has_prefix target (eSha env (inp @ digits_nat k))"
      by blast
    have "\<not> has_prefix target (eSha env (inp @ digits_nat k))" if "n \<le> k" "k < m" for k
      using that m(5) False by (cases "k = n") auto
    then show ?thesis
      using m by (intro exI [of _ m]) auto
  qed
qed

text \<open>The work that is handed in is the first nonce whose hash has the wanted zeros.\<close>

lemma pow_is_least:
  assumes "solveCaptchaPoWV2 env inp d s = (Inr h, s')" and "h \<noteq> []"
  shows "\<exists>m. 1 \<le> m \<and> m \<le> 10000000 \<and> h = eSha env (inp @ digits_nat m) \<and>
    has_prefix (replicate (nat d) CHR ''0'') h \<and>
    (\<forall>k. 1 \<le> k \<and> k < m \<longrightarrow>
       \<not> has_prefix (replicate (nat d) CHR ''0'') (eSha env (inp @ digits_nat k)))"
  using assms pow_search_found by (auto simp: solveCaptchaPoWV2_def split: if_splits)

section \<open>The loop over the kinds of challenge ends\<close>

text \<open>Programs whose errors do not ask for another kind of challenge.\<close>

definition no_switch :: "'a v2 \<Rightarrow> bool" where
  "no_switch m \<longleftrightarrow> (\<forall>s e s'. m s = (Inl e, s') \<longrightarrow> is_show_type e = None)"

lemma no_switch_return: "no_switch (v2_return x)"
  by (simp add: no_switch_def v2_return_def)

lemma no_switch_fail: "is_show_type e = None \<Longrightarrow> no_switch (v2_fail e)"
  by (simp add: no_switch_def v2_fail_def)

lemma no_switch_then: "no_switch m \<Longrightarrow> (\<And>x. no_switch (f x)) \<Longrightarrow> no_switch (v2_then m f)"
  by (fastforce simp: no_switch_def v2_then_def split: prod.splits sum.splits)

lemma is_show_type_wrap [simp]: "is_show_type (V2Wrap a e b) = is_show_type e"
  by (simp add: is_show_type_def)

lemma is_show_type_simps [simp]: "is_show_type (V2Text t) = None" "is_show_type (V2Failure f) = None"
  "is_show_type V2RateLimit = None" "is_show_type (V2Ctx c) = None" "is_show_type V2Panic = None"
  "is_show_type V2Bot = None"
  by (simp_all add: is_show_type_def)

lemma no_switch_wrap: "no_switch m \<Longrightarrow> no_switch (v2_wrap a b m)"
  by (fastforce simp: no_switch_def v2_wrap_def split: prod.splits sum.splits)

lemma no_switch_if: "no_switch a \<Longrightarrow> no_switch b \<Longrightarrow> no_switch (if c then a else b)"
  by simp

lemma no_switch_sum: "(\<And>x. c = Inl x \<Longrightarrow> no_switch (a x)) \<Longrightarrow> (\<And>x. no_switch (b x)) \<Longrightarrow>
    no_switch (case c of Inl x \<Rightarrow> a x | Inr x \<Rightarrow> b x)"
  by (cases c) auto

lemma no_switch_option: "no_switch a \<Longrightarrow> (\<And>x. no_switch (b x)) \<Longrightarrow>
    no_switch (case c of None \<Rightarrow> a | Some x \<Rightarrow> b x)"
  by (cases c) auto

lemma no_switch_outcome: "no_switch a \<Longrightarrow> (\<And>x. no_switch (b x)) \<Longrightarrow> (\<And>x. no_switch (c x)) \<Longrightarrow>
    no_switch (case r of Panic \<Rightarrow> a | Fails x \<Rightarrow> b x | Returns x \<Rightarrow> c x)"
  by (cases r) auto

lemma no_switch_ask: "no_switch (ask_ctx env)" "no_switch (next_draws env)"
  by (simp_all add: no_switch_def ask_ctx_def next_draws_def)

lemma no_switch_judge: "no_switch (judge_answer env ph url ms a)"
  unfolding no_switch_def
  by (auto simp: judge_answer_def v2_then_def ask_ctx_def v2_fail_def v2_return_def Let_def
    split: answer.splits option.splits if_splits)

lemma no_switch_doRaw: "no_switch (doRaw env ph m ep form extra)"
  using no_switch_judge by (auto simp: no_switch_def doRaw_def v2_fail_def Let_def split: if_splits)

lemma no_switch_request: "no_switch (captchaRequest env meth form)"
  unfolding captchaRequest_def
  by (intro no_switch_then no_switch_doRaw no_switch_sum no_switch_fail no_switch_return)
    (simp add: is_show_type_def)

lemma parse_check_no_switch: "parseCaptchaV2Check env raw = Inl e \<Longrightarrow> is_show_type e = None"
  by (auto simp: parseCaptchaV2Check_def Let_def split: option.splits if_splits)

lemma no_switch_check: "no_switch (performCaptchaCheck env tok fp h a c d)"
  unfolding performCaptchaCheck_def
  by (intro no_switch_then no_switch_wrap no_switch_request no_switch_sum no_switch_fail
      no_switch_return) (rule parse_check_no_switch)

lemma no_switch_attempts: "no_switch (slider_attempts env tok fp h d n gs)"
proof (induction gs)
  case (Cons g gs)
  show ?case
    unfolding slider_attempts.simps
    by (intro no_switch_then no_switch_ask no_switch_check no_switch_if no_switch_return
        no_switch_fail Cons.IH is_show_type_simps)
qed (simp add: no_switch_fail)

lemma no_switch_slider: "no_switch (solveSliderCaptcha env tok fp h st d)"
  unfolding solveSliderCaptcha_def Let_def
  by (intro no_switch_then no_switch_wrap no_switch_request no_switch_sum no_switch_outcome
      no_switch_if no_switch_fail no_switch_attempts is_show_type_simps)

text \<open>The checkbox only asks for kinds other than itself.\<close>

lemma equal_fold_checkbox: "equal_fold ''checkbox'' ''checkbox''" "equal_fold ''slider'' ''slider''"
  by code_simp+

lemma then_assoc: "v2_then (v2_then m f) g = v2_then m (\<lambda>x. v2_then (f x) g)"
  by (rule ext) (simp add: v2_then_def split: prod.split sum.split)

lemma ask_then_fail: "v2_then (case c of None \<Rightarrow> a | Some e \<Rightarrow> v2_fail (f e)) g =
    (case c of None \<Rightarrow> v2_then a g | Some e \<Rightarrow> v2_fail (f e))"
  by (rule ext) (simp add: v2_then_def v2_fail_def split: option.split)

lemma checkbox_switch:
  assumes "solveCheckboxCaptcha env tok fp h d s = (Inl e, s')" and "is_show_type e = Some t"
  shows "t \<noteq> [] \<and> t \<noteq> ''checkbox''"
proof -
  define switch :: "v2_check \<Rightarrow> bool" where "switch c = (ckShowType c \<noteq> [] \<and> \<not> equal_fold ''checkbox'' (ckShowType c))"
    for c
  define m where "m = v2_then
    (v2_wrap ''captcha componentDone failed: '' []
         (captchaRequest env ''captchaNotRobot.componentDone''
           [(''session_token'', tok), (''domain'', ''vk.com''), (''adFp'', []),
            (''browser_fp'', fp), (''device'', device_json env), (''access_token'', [])]))
     (\<lambda>_. v2_then (ask_ctx env) (\<lambda>c. case c of
            Some e \<Rightarrow> v2_fail (V2Ctx e)
          | None \<Rightarrow> performCaptchaCheck env tok fp h ''{}'' ''[]'' d))"
  have m: "no_switch m"
    unfolding m_def by (intro no_switch_then no_switch_wrap no_switch_request no_switch_ask
        no_switch_option no_switch_fail no_switch_check is_show_type_simps)
  define rest where "rest check = (if equal_fold ''error_limit'' (ckStatus check) then v2_fail V2RateLimit
      else if equal_fold ''bot'' (ckStatus check) then
        v2_fail (V2Wrap [] V2Bot ('': checkbox captcha rejected: status='' @ ckStatus check))
      else if \<not> equal_fold ''ok'' (ckStatus check) then
        v2_fail (V2Text (''checkbox captcha rejected: status='' @ ckStatus check))
      else if ckToken check = [] then v2_fail (V2Text ''captcha success token not found'')
      else v2_return (ckToken check))" for check :: v2_check
  have rest: "no_switch (rest c)" for c
    unfolding rest_def by (intro no_switch_if no_switch_fail no_switch_return is_show_type_simps)
      (simp add: is_show_type_def)
  have "solveCheckboxCaptcha env tok fp h d = v2_then m (\<lambda>c. if switch c
      then v2_fail (V2ShowType (ckShowType c)) else rest c)"
    unfolding solveCheckboxCaptcha_def m_def switch_def rest_def then_assoc ask_then_fail ..
  then have r: "v2_then m (\<lambda>c. if switch c then v2_fail (V2ShowType (ckShowType c))
      else rest c) s = (Inl e, s')" "\<And>c. no_switch (rest c)"
    using assms(1) rest by simp_all
  obtain x s1 where x: "m s = (x, s1)"
    by fastforce
  show ?thesis
  proof (cases x)
    case (Inl e')
    then have "is_show_type e' = None"
      using x m unfolding no_switch_def by blast
    then show ?thesis
      using r(1) x Inl assms(2) by (simp add: v2_then_def)
  next
    case (Inr c)
    show ?thesis
    proof (cases "switch c")
      case True
      then have "e = V2ShowType (ckShowType c)"
        using r(1) x Inr by (simp add: v2_then_def v2_fail_def)
      then show ?thesis
        using True assms(2) equal_fold_checkbox by (auto simp: switch_def is_show_type_def)
    next
      case False
      then have "rest c s1 = (Inl e, s')"
        using r(1) x Inr by (simp add: v2_then_def)
      then have "is_show_type e = None"
        using r(2) [of c] unfolding no_switch_def by blast
      then show ?thesis
        using assms(2) by simp
    qed
  qed
qed

lemma solve_show_last:
  assumes "ty \<noteq> ''checkbox''" and "ty \<noteq> []"
  shows "\<exists>r. solve_show (Suc k) env tok fp h st d ty s = Some r \<and>
    solve_show 1 env tok fp h st d ty s = Some r"
proof (cases "ty = ''slider''")
  case True
  obtain x s1 where d: "dialogue env tok fp h st d ty s = (x, s1)"
    by fastforce
  have "is_show_type e = None" if "x = Inl e" for e
    using that d True no_switch_slider [of env tok fp h st d] unfolding dialogue_def no_switch_def
    by (metis (full_types))
  then show ?thesis
    using solve_show_round [OF d] True equal_fold_checkbox by (cases x) (auto simp: One_nat_def)
qed (use assms in \<open>simp add: v2_fail_def\<close>)

lemma solve_show_two:
  "\<exists>r. solve_show (Suc (Suc k)) env tok fp h st d ty s = Some r \<and>
    solve_show (Suc (Suc 0)) env tok fp h st d ty s = Some r"
proof (cases "ty \<noteq> ''checkbox'' \<and> ty \<noteq> []")
  case True
  then show ?thesis
    using solve_show_last [of ty "Suc k"] solve_show_last [of ty "Suc 0"] by metis
next
  case False
  obtain x s1 where d: "dialogue env tok fp h st d ty s = (x, s1)"
    by fastforce
  have n: "t \<noteq> [] \<and> t \<noteq> ''checkbox''" if "x = Inl e" "is_show_type e = Some t" for e t
  proof -
    have "ty \<noteq> ''slider''"
      using False by auto
    then have "solveCheckboxCaptcha env tok fp h d s = (Inl e, s1)"
      using d that(1) by (simp add: dialogue_def)
    then show ?thesis
      using checkbox_switch that(2) by blast
  qed
  have l: "\<exists>r. solve_show (Suc k) env tok fp h st d t s1 = Some r \<and>
      solve_show (Suc 0) env tok fp h st d t s1 = Some r" if "t \<noteq> ''checkbox''" "t \<noteq> []" for t
    using solve_show_last [OF that] by simp
  show ?thesis
  proof (cases x)
    case (Inl e)
    show ?thesis
      unfolding solve_show_round [OF d] Inl sum.case
      using n [OF Inl] l [of "''slider''"] l by (cases "is_show_type e") auto
  qed (unfold solve_show_round [OF d], simp)
qed

section \<open>Properties\<close>

text \<open>Property C23 (termination). The loop that switches between the kinds of challenge ends: whatever
  the provider answers, two rounds decide, so every larger bound gives the result of
  \<open>solve_challenge\<close>.\<close>

theorem challenge_loop_ends:
  "2 \<le> fuel \<Longrightarrow>
     solve_show fuel env tok fp h st d ty s = Some (solve_challenge env tok fp h st d ty s)"
proof -
  assume "2 \<le> fuel"
  then obtain k where "fuel = Suc (Suc k)"
    by (auto simp: nat_le_iff_add)
  then show ?thesis
    using solve_show_two [of k env tok fp h st d ty s] by (auto simp: solve_challenge_def numeral_2_eq_2)
qed

definition demo_env :: "string \<Rightarrow> string \<Rightarrow> v2_env" where
  "demo_env page script =
     \<lparr>eClient = (\<lambda>n rq. Answer 200 ''text/html''
        (if rqPhase rq = ''fetch_page'' then page else if rqPhase rq = ''fetch_script'' then script
         else rqURL rq) False (rqURL rq)),
      eMillis = (\<lambda>n. 0), eCtx = (\<lambda>n. None), eUrlOk = (\<lambda>u. True), eMime = Some,
      eJson = (\<lambda>b. Inr [(''response'', JObj [(''status'', JStr ''OK''), (''success_token'', JStr ''t-1'')])]),
      eInit = (\<lambda>r. Some \<lparr>ShowCaptchaType = ''checkbox'', CaptchaSettings = []\<rparr>),
      eEnc = (\<lambda>j. []), eFmt = (\<lambda>j. []), eImage = (\<lambda>b. Inl ''no picture''),
      eSha = (\<lambda>x. ''00ab''), eRand = (\<lambda>n. Inr [1, 2]), eProfile = \<lparr>UserAgent = [], SecChUa = [],
      SecChUaMobile = [], SecChUaPlatform = []\<rparr>, eSaved = None, eDraws = (\<lambda>n k. 0)\<rparr>"

definition empty_v2 :: v2_state where
  "empty_v2 = \<lparr>vLog = [], vTick = 0, vRand = 0, vDebug = []\<rparr>"

theorem challenge_loop_ends_witness:
  "solve_show 7 (demo_env [] []) ''s'' [] [] [] [] ''checkbox'' empty_v2
     = Some (solve_challenge (demo_env [] []) ''s'' [] [] [] [] ''checkbox'' empty_v2)"
  by (rule challenge_loop_ends) simp

text \<open>Property C5 (safety). A token that the automatic solver returns is not empty and was issued by
  the provider for the session of this challenge: a check request sent during the call carried the
  session token and was answered completely, with a success status, the status \<open>ok\<close> and exactly this
  token.\<close>

theorem captcha_token_was_issued:
  "solveVkCaptchaV2Attempts env (Some ce) maxAttempts s = (Inr token, s') \<Longrightarrow>
     token \<noteq> [] \<and> issued env (SessionToken ce) token s s'"
  using tokensD [OF v2_attempts_token]
  by (auto simp: solveVkCaptchaV2Attempts_def token_ok_def split: if_splits)

definition demo_page :: string where
  "demo_page = ''<html>window.init = {};<script src=\"https://id.vk.com/v1/not_robot_captcha.js\">''
     @ ''const powInput = \"abc\"; const difficulty = 2;''"

definition demo_script :: string where
  "demo_script = ''{debug_info:\"0123456789abcdef0123456789abcdef0123456789abcdef0123456789abcdef\"}''"

definition demo_challenge :: captcha_error where
  "demo_challenge = \<lparr>ErrorCode = 14, ErrorMsg = [], CaptchaSid = [], CaptchaImg = [],
     RedirectURI = ''https://id.vk.com/captcha'', SessionToken = ''s-9'', CaptchaTs = [],
     CaptchaAttempt = []\<rparr>"

abbreviation demo :: v2_env where
  "demo \<equiv> demo_env demo_page demo_script"

lemma demo_raw:
  assumes "length url \<le> maxCaptchaResponseBytes"
  shows "doRaw demo ph m url form extra s =
    (Inr (if ph = ''fetch_page'' then demo_page else if ph = ''fetch_script'' then demo_script else url),
     s\<lparr>vLog := vLog s @ [\<lparr>rqPhase = ph, rqMethod = m, rqURL = url, rqForm = form,
        rqBody = (case form of None \<Rightarrow> [] | Some f \<Rightarrow> captchaV2EncodeForm f),
        rqHeaders = v2_headers demo (form \<noteq> None) extra\<rparr>]\<rparr>)"
proof -
  have "length demo_page \<le> maxCaptchaResponseBytes" "length demo_script \<le> maxCaptchaResponseBytes"
    by (simp_all add: demo_page_def demo_script_def)
  then show ?thesis
    using assms by (simp add: doRaw_def judge_answer_def demo_env_def v2_return_def Let_def
        captchaV2MediaType_def known_media_def)
qed

lemma demo_json: "eJson demo x =
    Inr [(''response'', JObj [(''status'', JStr ''OK''), (''success_token'', JStr ''t-1'')])]"
  by (simp add: demo_env_def)

lemma demo_request:
  assumes "length meth \<le> 100"
  shows "\<exists>s'. captchaRequest demo meth form s =
    (Inr [(''response'', JObj [(''status'', JStr ''OK''), (''success_token'', JStr ''t-1'')])], s')"
proof -
  have l: "length (''https://api.vk.ru/method/'' @ meth @ ''?v=5.131'') \<le> maxCaptchaResponseBytes"
    using assms by simp
  show ?thesis
    unfolding captchaRequest_def v2_then_def demo_raw [OF l] by (simp add: demo_json v2_return_def)
qed

lemma demo_check: "\<exists>s'. performCaptchaCheck demo tok fp h a c d s =
    (Inr \<lparr>ckStatus = ''OK'', ckToken = ''t-1'', ckShowType = []\<rparr>, s')"
proof -
  obtain s1 where "captchaRequest demo ''captchaNotRobot.check'' (check_form tok fp h a c d) s =
    (Inr [(''response'', JObj [(''status'', JStr ''OK''), (''success_token'', JStr ''t-1'')])], s1)"
    using demo_request by fastforce
  then show ?thesis
    unfolding performCaptchaCheck_def
    by (simp add: v2_then_def v2_wrap_def parseCaptchaV2Check_def v2_return_def Let_def)
qed

lemma demo_checkbox: "\<exists>s'. solveCheckboxCaptcha demo tok fp h d s = (Inr ''t-1'', s')"
proof -
  obtain s1 where r: "captchaRequest demo ''captchaNotRobot.componentDone''
           [(''session_token'', tok), (''domain'', ''vk.com''), (''adFp'', []),
            (''browser_fp'', fp), (''device'', device_json demo), (''access_token'', [])] s =
    (Inr [(''response'', JObj [(''status'', JStr ''OK''), (''success_token'', JStr ''t-1'')])], s1)"
    using demo_request by fastforce
  obtain s2 where a: "ask_ctx demo s1 = (Inr None, s2)"
    by (simp add: ask_ctx_def demo_env_def)
  obtain s3 where c: "performCaptchaCheck demo tok fp h ''{}'' ''[]'' d s2 =
    (Inr \<lparr>ckStatus = ''OK'', ckToken = ''t-1'', ckShowType = []\<rparr>, s3)"
    using demo_check by blast
  have "equal_fold ''ok'' ''OK''" "\<not> equal_fold ''error_limit'' ''OK''" "\<not> equal_fold ''bot'' ''OK''"
    by code_simp+
  then show ?thesis
    unfolding solveCheckboxCaptcha_def v2_then_def v2_wrap_def r a c
    by (simp add: a c v2_return_def)
qed

lemma demo_parse: "parseCaptchaV2Page demo demo_page = Inr \<lparr>PowInput = ''abc'', PowDifficulty = 2,
    ScriptURL = ''https://id.vk.com/v1/not_robot_captcha.js'',
    PageInit = \<lparr>ShowCaptchaType = ''checkbox'', CaptchaSettings = []\<rparr>\<rparr>"
proof -
  have f: "find_first re_window_init demo_page \<noteq> None"
    "find_first re_script_src demo_page = Some ''https://id.vk.com/v1/not_robot_captcha.js''"
    "find_first re_pow_input demo_page = Some ''abc''"
    "find_first re_difficulty demo_page = Some ''2''" "atoi ''2'' = Some 2"
    by code_simp+
  have "eInit demo r = Some \<lparr>ShowCaptchaType = ''checkbox'', CaptchaSettings = []\<rparr>" for r
    by (simp add: demo_env_def)
  then show ?thesis
    using f by (auto simp: parseCaptchaV2Page_def)
qed

lemma demo_pow: "\<exists>s'. solveCaptchaPoWV2 demo ''abc'' 2 s = (Inr ''00ab'', s')"
proof -
  have "eSha demo x = ''00ab''" for x
    by (simp add: demo_env_def)
  then show ?thesis
    by (simp add: solveCaptchaPoWV2_def pow_search.simps [of demo] Let_def has_prefix_def v2_return_def
        numeral_2_eq_2)
qed

lemma demo_debug: "\<exists>v s'. fetchDebugInfo demo ''https://id.vk.com/v1/not_robot_captcha.js'' s = (Inr v, s')"
proof -
  have "find_first re_debug_info demo_script \<noteq> None"
    by code_simp
  then show ?thesis
    by (cases "map_of (vDebug s) ''https://id.vk.com/v1/not_robot_captcha.js''")
      (auto simp: fetchDebugInfo_def v2_then_def demo_raw v2_return_def)
qed

lemma demo_once: "\<exists>s'. solveOnce demo demo_challenge s = (Inr ''t-1'', s')"
proof -
  obtain s1 where h: "fetchCaptchaHTML demo ''https://id.vk.com/captcha'' s = (Inr demo_page, s1)"
    unfolding fetchCaptchaHTML_def by (simp add: demo_raw)
  obtain s2 where p: "solveCaptchaPoWV2 demo ''abc'' 2 s1 = (Inr ''00ab'', s2)"
    using demo_pow by blast
  obtain s3 r3 where t: "captchaRequest demo ''captchaNotRobot.settings'' (captchaV2BaseValues ''s-9'') s2
      = (Inr r3, s3)"
    using demo_request [of "''captchaNotRobot.settings''"] by fastforce
  obtain s4 fp where f: "captchaV2BrowserFP demo s3 = (Inr fp, s4)"
    by (simp add: captchaV2BrowserFP_def demo_env_def v2_return_def Let_def)
  obtain s5 d where d: "fetchDebugInfo demo ''https://id.vk.com/v1/not_robot_captcha.js'' s4 = (Inr d, s5)"
    using demo_debug by blast
  obtain s6 where c: "solveCheckboxCaptcha demo ''s-9'' fp ''00ab'' d s5 = (Inr ''t-1'', s6)"
    using demo_checkbox by blast
  have "dialogue demo ''s-9'' fp ''00ab'' [] d ''checkbox'' s5 = (Inr ''t-1'', s6)"
    using c by (simp add: dialogue_def)
  from solve_show_round [OF this, of 1] have e: "solve_challenge demo ''s-9'' fp ''00ab'' [] d ''checkbox'' s5
      = (Inr ''t-1'', s6)"
    by (simp add: solve_challenge_def numeral_2_eq_2)
  have sv: "eSaved demo = None"
    by (simp add: demo_env_def)
  show ?thesis
    unfolding solveOnce_def v2_then_def v2_wrap_def
    by (simp add: demo_challenge_def h demo_parse slider_settings_def p t f d e sv Let_def)
qed

theorem captcha_token_was_issued_witness:
  "\<exists>s'. ''t-1'' \<noteq> [] \<and> issued (demo_env demo_page demo_script) ''s-9'' ''t-1'' empty_v2 s'"
proof -
  have a: "ask_ctx demo empty_v2 = (Inr None, empty_v2\<lparr>vTick := 1\<rparr>)"
    by (simp add: ask_ctx_def demo_env_def empty_v2_def)
  obtain s' where "solveOnce demo demo_challenge (empty_v2\<lparr>vTick := 1\<rparr>) = (Inr ''t-1'', s')"
    using demo_once by blast
  then have "solveVkCaptchaV2Attempts demo (Some demo_challenge) 1 empty_v2 = (Inr ''t-1'', s')"
    by (simp add: solveVkCaptchaV2Attempts_def v2_then_def a) (simp add: demo_challenge_def)
  from captcha_token_was_issued [OF this] show ?thesis
    by (auto simp: demo_challenge_def)
qed

end
