(* ===== verification/CoreMain.thy ===== *)
theory CoreMain
  imports Chan Net Json Obfs ErrorPolicy Session
begin

text \<open>
  The core object of a connection (\<open>core/main.go\<close>, \<open>core/events.go\<close>, \<open>core/stats.go\<close>,
  \<open>core/diagnostics.go\<close> and the resolver of \<open>core/dns.go\<close>): its configuration and defaults, the queue
  of events with its drop-oldest policy, the log writer, the start sequence with the plan of the worker
  groups, and the life cycle of start, stop, pause and resume. Packages of other parties, the sockets
  and the clock are arguments; a started core is the plan of the goroutines it launches.
\<close>

section \<open>Texts\<close>

definition msg_resolving :: string where
  "msg_resolving = utf8 [208, 160, 208, 176, 208, 183, 209, 128, 208, 181, 209, 136, 208, 181,
     208, 189, 208, 184, 208, 181, 32, 208, 176, 208, 180, 209, 128, 208, 181, 209, 129, 208,
     176, 32, 209, 129, 208, 181, 209, 128, 208, 178, 208, 181, 209, 128, 208, 176]"

definition msg_not_resolved :: string where
  "msg_not_resolved = utf8 [208, 157, 208, 181, 32, 209, 131, 208, 180, 208, 176, 208, 187,
     208, 190, 209, 129, 209, 140, 32, 209, 128, 208, 176, 208, 183, 209, 128, 208, 181, 209,
     136, 208, 184, 209, 130, 209, 140, 32, 208, 176, 208, 180, 209, 128, 208, 181, 209, 129,
     32, 209, 129, 208, 181, 209, 128, 208, 178, 208, 181, 209, 128, 208, 176]"

definition msg_dns_down :: string where
  "msg_dns_down = utf8 [68, 78, 83, 47, 209, 129, 208, 181, 209, 130, 209, 140, 32, 208, 189,
     208, 181, 208, 180, 208, 190, 209, 129, 209, 130, 209, 131, 208, 191, 208, 189, 209, 139,
     32, 208, 191, 209, 128, 208, 184, 32, 209, 128, 208, 176, 208, 183, 209, 128, 208, 181,
     209, 136, 208, 181, 208, 189, 208, 184, 208, 184, 32, 208, 176, 208, 180, 209, 128, 208,
     181, 209, 129, 208, 176, 32, 209, 129, 208, 181, 209, 128, 208, 178, 208, 181, 209, 128,
     208, 176]"

definition msg_resolved :: string where
  "msg_resolved = utf8 [208, 144, 208, 180, 209, 128, 208, 181, 209, 129, 32, 209, 129, 208,
     181, 209, 128, 208, 178, 208, 181, 209, 128, 208, 176, 32, 209, 128, 208, 176, 208, 183,
     209, 128, 208, 181, 209, 136, 209, 145, 208, 189]"

definition msg_getting_creds :: string where
  "msg_getting_creds = utf8 [208, 159, 208, 190, 208, 187, 209, 131, 209, 135, 208, 181, 208,
     189, 208, 184, 208, 181, 32, 86, 75, 45, 208, 186, 209, 128, 208, 181, 208, 180, 208,
     190, 208, 178]"

definition log_creds_error :: string where
  "log_creds_error = utf8 [208, 158, 209, 136, 208, 184, 208, 177, 208, 186, 208, 176, 32,
     208, 186, 209, 128, 208, 181, 208, 180, 208, 190, 208, 178]"

definition log_attempt :: string where
  "log_attempt = utf8 [208, 154, 208, 144, 208, 159, 208, 167, 208, 144, 93, 32, 118, 50, 32,
     208, 191, 208, 190, 208, 191, 209, 139, 209, 130, 208, 186, 208, 176]"

definition log_limit :: string where
  "log_limit = utf8 [208, 154, 208, 144, 208, 159, 208, 167, 208, 144, 93, 32, 208, 159, 209,
     128, 208, 181, 208, 178, 209, 139, 209, 136, 208, 181, 208, 189, 32, 208, 187, 208, 184,
     208, 188, 208, 184, 209, 130]"

definition log_active :: string where
  "log_active = utf8 [208, 162, 209, 131, 208, 189, 208, 189, 208, 181, 208, 187, 209, 140,
     32, 208, 176, 208, 186, 209, 130, 208, 184, 208, 178, 208, 181, 208, 189]"

definition log_ready :: string where
  "log_ready = utf8 [208, 162, 209, 131, 208, 189, 208, 189, 208, 181, 208, 187, 209, 140, 32,
     208, 179, 208, 190, 209, 130, 208, 190, 208, 178]"

definition log_core :: string where
  "log_core = utf8 [91, 208, 175, 208, 148, 208, 160, 208, 158, 93]"

definition low_error :: string where
  "low_error = utf8 [208, 190, 209, 136, 208, 184, 208, 177, 208, 186, 208, 176]"

definition low_failed :: string where
  "low_failed = utf8 [208, 189, 208, 181, 32, 209, 131, 208, 180, 208, 176, 208, 187, 208,
     190, 209, 129, 209, 140]"

definition stats_active :: string where
  "stats_active = utf8 [91, 83, 84, 65, 84, 83, 93, 32, 208, 144, 208, 186, 209, 130, 208,
     184, 208, 178, 208, 189, 209, 139, 209, 133, 58, 32]"

definition stats_traffic :: string where
  "stats_traffic = utf8 [44, 32, 208, 162, 209, 128, 208, 176, 209, 132, 208, 184, 208, 186,
     58, 32]"

definition stats_mb :: string where
  "stats_mb = utf8 [32, 208, 156, 208, 145]"

definition log_port :: string where
  "log_port = utf8 [32, 208, 159, 208, 190, 209, 128, 209, 130, 32]"

definition log_busy :: string where
  "log_busy = utf8 [32, 208, 183, 208, 176, 208, 189, 209, 143, 209, 130, 44, 32, 208, 182,
     208, 180, 209, 131, 46, 46, 46, 32, 40]"

definition log_finished :: string where
  "log_finished = utf8 [32, 208, 146, 209, 129, 208, 181, 32, 208, 178, 208, 190, 209, 128,
     208, 186, 208, 181, 209, 128, 209, 139, 32, 208, 183, 208, 176, 208, 178, 208, 181, 209,
     128, 209, 136, 208, 181, 208, 189, 209, 139]"

section \<open>Events and configuration\<close>

datatype event_type = EventState | EventLog | EventStats | EventError | EventEvent

record event =
  evType :: event_type
  evStatus :: string
  evLevel :: string
  evMessage :: string
  evName :: string
  evData :: string
  evTurnIPs :: "string list"
  evActive :: int
  evUp :: int
  evDown :: int

definition blank :: "event_type \<Rightarrow> event" where
  "blank t = \<lparr>evType = t, evStatus = [], evLevel = [], evMessage = [], evName = [], evData = [],
     evTurnIPs = [], evActive = 0, evUp = 0, evDown = 0\<rparr>"

record config =
  PeerAddr :: string
  Password :: string
  Hashes :: "string list"
  DeviceID :: string
  Workers :: int
  Listen :: string
  TurnHost :: string
  TurnPort :: string
  CaptchaMode :: string
  ObfsMode :: string
  Fingerprint :: string
  OperationID :: string
  DebugLogging :: bool

record core =
  cCfg :: config
  cCancel :: bool
  cCancelled :: bool
  cPause :: int
  cCaptchaMode :: string
  cVkAuthMode :: string
  cEvents :: "event chan"
  cClosed :: bool
  cStarted :: bool
  cStopped :: bool
  cDebug :: bool

definition normalizeCaptchaMode :: "string \<Rightarrow> string" where
  "normalizeCaptchaMode mode =
     (let m = to_lower (trim_space mode)
      in if m = ''auto'' \<or> m = ''rjs'' \<or> m = ''wv'' then m else ''auto'')"

definition normalizeVKAuthMode :: "string \<Rightarrow> string" where
  "normalizeVKAuthMode mode = (if to_lower (trim_space mode) = ''legacy'' then ''legacy'' else ''vkcalls'')"

text \<open>A capacity of 1024 events.\<close>

definition event_capacity :: nat where "event_capacity = 1024"

definition with_defaults :: "config \<Rightarrow> config" where
  "with_defaults cfg =
     (let cfg = (if Listen cfg = [] then cfg\<lparr>Listen := ''127.0.0.1:9000''\<rparr> else cfg);
          cfg = (if DeviceID cfg = [] then cfg\<lparr>DeviceID := ''unknown''\<rparr> else cfg);
          cfg = (if Workers cfg \<le> 0 then cfg\<lparr>Workers := 24\<rparr> else cfg)
      in if ObfsMode cfg = [] then cfg\<lparr>ObfsMode := ''audio''\<rparr> else cfg)"

definition New :: "config \<Rightarrow> core" where
  "New cfg =
     (let cfg = with_defaults cfg
      in \<lparr>cCfg = cfg, cCancel = False, cCancelled = False, cPause = 0,
          cCaptchaMode = normalizeCaptchaMode (CaptchaMode cfg),
          cVkAuthMode = normalizeVKAuthMode ''vkcalls'', cEvents = make_chan event_capacity,
          cClosed = False, cStarted = False, cStopped = False, cDebug = DebugLogging cfg\<rparr>)"

definition core_getCaptchaMode :: "core \<Rightarrow> string" where
  "core_getCaptchaMode c = (if cCaptchaMode c = [] then ''auto'' else cCaptchaMode c)"

definition core_getVKAuthMode :: "core \<Rightarrow> string" where
  "core_getVKAuthMode c = (if cVkAuthMode c = [] then ''vkcalls'' else cVkAuthMode c)"

text \<open>The package-level functions ask the active core, if there is one.\<close>

definition getCaptchaMode :: "core option \<Rightarrow> string" where
  "getCaptchaMode active = (case active of Some c \<Rightarrow> core_getCaptchaMode c | None \<Rightarrow> ''auto'')"

definition getVKAuthMode :: "core option \<Rightarrow> string" where
  "getVKAuthMode active = (case active of Some c \<Rightarrow> core_getVKAuthMode c | None \<Rightarrow> ''vkcalls'')"

section \<open>The queue of events\<close>

text \<open>
  \<open>emit\<close>: on a full queue the oldest event makes room. A send on the closed channel panics, which the
  deferred \<open>recover\<close> swallows.
\<close>

definition emit :: "event \<Rightarrow> core \<Rightarrow> core" where
  "emit ev c =
     (if cClosed c then c
      else case try_send (cEvents c) ev of
        Some q \<Rightarrow> c\<lparr>cEvents := q\<rparr>
      | None \<Rightarrow>
          let q = (case try_recv (cEvents c) of Some (old, q) \<Rightarrow> q | None \<Rightarrow> cEvents c)
          in (case try_send q ev of Some q' \<Rightarrow> c\<lparr>cEvents := q'\<rparr> | None \<Rightarrow> c\<lparr>cEvents := q\<rparr>))"

definition log_event :: "string \<Rightarrow> string \<Rightarrow> event" where
  "log_event level msg = (blank EventLog)\<lparr>evLevel := level, evMessage := msg\<rparr>"

definition named_event :: "string \<Rightarrow> string \<Rightarrow> event" where
  "named_event name data = (blank EventEvent)\<lparr>evName := name, evData := data\<rparr>"

text \<open>\<open>json.Marshal\<close> of a map of texts: the keys in order; \<open>js\<close> is the encoding of one text.\<close>

fun json_pairs :: "(string \<Rightarrow> string) \<Rightarrow> (string \<times> string) list \<Rightarrow> string list" where
  "json_pairs js [] = []"
| "json_pairs js ((k, v) # r) = (js k @ '':'' @ js v) # json_pairs js r"

definition json_map :: "(string \<Rightarrow> string) \<Rightarrow> (string \<times> string) list \<Rightarrow> string" where
  "json_map js kvs = ''{'' @ join '','' (json_pairs js kvs) @ ''}''"

definition emitReady :: "core \<Rightarrow> core" where
  "emitReady c = emit (named_event ''ready'' []) c"

definition emitConnectionProgress :: "(string \<Rightarrow> string) \<Rightarrow> string \<Rightarrow> string \<Rightarrow> string \<Rightarrow> core \<Rightarrow> core" where
  "emitConnectionProgress js stage state message c =
     emit (named_event ''connection_progress''
       (json_map js [(''message'', message), (''stage'', stage), (''state'', state)])) c"

definition emitCaptchaRequest :: "(string \<Rightarrow> string) \<Rightarrow> string \<Rightarrow> string \<Rightarrow> string \<Rightarrow> core \<Rightarrow> core" where
  "emitCaptchaRequest js mode uri token c =
     emit (named_event ''captcha_required''
       (json_map js [(''mode'', mode), (''redirect_uri'', uri), (''session_token'', token)])) c"

definition emitCaptchaDone :: "(string \<Rightarrow> string) \<Rightarrow> bool \<Rightarrow> string \<Rightarrow> core \<Rightarrow> core" where
  "emitCaptchaDone js success err c =
     emit (named_event ''captcha_done''
       (''{'' @ (if err \<noteq> [] then js ''error'' @ '':'' @ js err @ '','' else [])
        @ js ''success'' @ '':'' @ (if success then ''true'' else ''false'') @ ''}'')) c"

text \<open>A diagnostic event; empty fields are omitted. \<open>now\<close> is the time in milliseconds.\<close>

definition omit_text :: "(string \<Rightarrow> string) \<Rightarrow> string \<Rightarrow> string \<Rightarrow> string list" where
  "omit_text js k v = (if v = [] then [] else [js k @ '':'' @ js v])"

definition omit_int :: "(string \<Rightarrow> string) \<Rightarrow> string \<Rightarrow> int \<Rightarrow> string list" where
  "omit_int js k v = (if v = 0 then [] else [js k @ '':'' @ fmt_int v])"

definition emitDiagnostic ::
  "(string \<Rightarrow> string) \<Rightarrow> int \<Rightarrow> string \<Rightarrow> string \<Rightarrow> string \<Rightarrow> string \<Rightarrow> string \<Rightarrow> int \<Rightarrow> int \<Rightarrow> core \<Rightarrow> core"
where
  "emitDiagnostic js now level subsystem stage result message worker ms c =
     (if \<not> cDebug c then c
      else emit (named_event ''diagnostic''
        (''{'' @ join '','' ([js ''timestamp'' @ '':'' @ fmt_int now, js ''level'' @ '':'' @ js level,
           js ''subsystem'' @ '':'' @ js subsystem]
           @ omit_text js ''operationId'' (OperationID (cCfg c)) @ omit_int js ''workerId'' worker
           @ omit_text js ''stage'' stage @ omit_text js ''result'' result
           @ omit_int js ''durationMs'' (if ms > 0 then ms else 0) @ omit_text js ''message'' message)
         @ ''}'')) c)"

section \<open>The log writer\<close>

function strip_all :: "string \<Rightarrow> string \<Rightarrow> string" where
  "strip_all sub s =
     (if sub = [] then s
      else case s of [] \<Rightarrow> []
        | c # r \<Rightarrow> if has_prefix sub s then strip_all sub (drop (length sub) s) else c # strip_all sub r)"
  by pat_completeness auto
termination
  by (relation "measure (length \<circ> snd)") auto

declare strip_all.simps [simp del]

definition classifyLevel :: "string \<Rightarrow> string" where
  "classifyLevel msg =
     (let low = strip_all ''error_kind=success'' (to_lower msg)
      in if contains ''fatal'' low \<or> contains low_error low \<or> contains ''error'' low then ''ERROR''
         else if contains ''warn'' low \<or> contains low_failed low \<or> contains ''retry'' low then ''WARN''
         else ''INFO'')"

definition shown_in_ui :: "string \<Rightarrow> bool" where
  "shown_in_ui msg \<longleftrightarrow>
     contains log_creds_error msg \<or> contains ''VK Auth] Failed'' msg \<or> contains log_attempt msg
     \<or> contains log_limit msg \<or> contains ''[READY]'' msg \<or> contains ''[WG]'' msg
     \<or> contains log_active msg \<or> contains log_ready msg \<or> contains ''[STATS]'' msg
     \<or> contains log_core msg"

definition log_write :: "string \<Rightarrow> core \<Rightarrow> core" where
  "log_write p c =
     (let msg = rev (dropWhile (\<lambda>x. x = CHR 0x0A) (rev p)) in
      if msg = [] then c
      else let level = classifyLevel msg in
        if cDebug c \<and> level \<noteq> ''ERROR'' then
          emit (log_event (if level = ''INFO'' then ''DEBUG'' else level) msg) c
        else if level = ''ERROR'' then emit (log_event level msg) c
        else if shown_in_ui msg then emit (log_event level msg) c
        else emit (log_event ''SKIP'' msg) c)"

definition emitError :: "string \<Rightarrow> string \<Rightarrow> bool \<Rightarrow> core \<Rightarrow> core" where
  "emitError code message fatal c =
     (let c = emit ((blank EventError)\<lparr>evName := code, evMessage := message\<rparr>) c
      in if fatal then log_write (log_core @ '' FATAL: '' @ code @ utf8 [32, 226, 128, 148, 32] @ message
           @ [CHR 0x0A]) c else c)"

definition logf :: "string \<Rightarrow> core \<Rightarrow> core" where
  "logf msg c = emit (log_event ''INFO'' msg) (log_write (msg @ [CHR 0x0A]) c)"

section \<open>Statistics\<close>

function itoa_digits :: "int \<Rightarrow> string \<Rightarrow> string" where
  "itoa_digits n s = (if n > 0 then itoa_digits (n div 10) (char_of (48 + nat (n mod 10)) # s) else s)"
  by pat_completeness auto
termination
  by (relation "measure (nat \<circ> fst)") auto

declare itoa_digits.simps [simp del]

definition itoa :: "int \<Rightarrow> string" where
  "itoa n = (if n = 0 then ''0'' else itoa_digits n [])"

definition ftoa :: "rat \<Rightarrow> string" where
  "ftoa f = (let i = trunc_rat f; d = trunc_rat ((f - of_int i) * 100) in itoa i @ ''.'' @ itoa d)"

record stats =
  sUp :: int
  sDown :: int
  sActive :: int

definition stats_tick :: "stats \<Rightarrow> core \<Rightarrow> core" where
  "stats_tick s c =
     (let mb = of_int (sUp s + sDown s) / (1024 * 1024)
      in emit ((blank EventStats)\<lparr>evActive := sActive s, evUp := sUp s, evDown := sDown s\<rparr>)
           (emit (log_event ''INFO'' (stats_active @ itoa (sActive s) @ stats_traffic @ ftoa mb @ stats_mb)) c))"

section \<open>The configuration of the tunnel\<close>

definition patchMTU :: "string \<Rightarrow> string" where
  "patchMTU conf =
     (if contains ''MTU ='' conf then conf
      else join [CHR 0x0A]
        (concat (map (\<lambda>line. if trim_space line = ''[Interface]'' then [line, ''MTU = 1280''] else [line])
           (split_on CHR 0x0A conf))))"

text \<open>What is received from the configuration channel; \<open>None\<close> is the closed channel.\<close>

definition forward_config :: "string option \<Rightarrow> string list option \<Rightarrow> core \<Rightarrow> core" where
  "forward_config raw ips c =
     (case raw of
        None \<Rightarrow> c
      | Some conf \<Rightarrow>
          if conf = [] then c
          else emit ((named_event ''wg_config'' (patchMTU conf))
            \<lparr>evTurnIPs := (case ips of Some l \<Rightarrow> l | None \<Rightarrow> [])\<rparr>) c)"

section \<open>The peer address\<close>

record resolver =
  rsIP :: "string \<Rightarrow> bool"
  rsLiteral :: "string \<Rightarrow> goerr + string \<times> int"
  rsLookup :: "string \<Rightarrow> goerr + string list"

definition resolvePeerUDPAddr :: "resolver \<Rightarrow> string \<Rightarrow> goerr + string \<times> int" where
  "resolvePeerUDPAddr rs address =
     (let address = trim_space address in
      case SplitHostPort address of
        Inl e \<Rightarrow> Inl (OtherNet (addr_error_text address e) False)
      | Inr (host, portString) \<Rightarrow>
          (case atoi portString of
             None \<Rightarrow> Inl (Plain ''invalid UDP port'')
           | Some port \<Rightarrow>
               if port < 0 \<or> port > 65535 then Inl (Plain ''invalid UDP port'')
               else if host = [] \<or> rsIP rs host \<or> contains ''%'' host then rsLiteral rs address
               else (case rsLookup rs host of
                       Inl e \<Rightarrow> Inl e
                     | Inr [] \<Rightarrow> Inl (Dns ''no addresses returned'' host [] False True None)
                     | Inr (a # as) \<Rightarrow> Inr (a, port))))"

section \<open>Start\<close>

definition workersPerGroup :: nat where "workersPerGroup = 9"

definition normal_workers :: "int \<Rightarrow> int" where
  "normal_workers w =
     (let n = (if w > 108 then 108 else w);
          n = (if n < int workersPerGroup then int workersPerGroup else n)
      in n div int workersPerGroup * int workersPerGroup)"

text \<open>The arguments of one \<open>WorkerGroup\<close> call that differ between the groups; channels are numbered.\<close>

record group_call =
  gcID :: nat
  gcFirst :: bool
  gcConfig :: bool
  gcIds :: "int list"
  gcHash :: nat
  gcWaitCreds :: "nat option"
  gcWaitSpawn :: "nat option"
  gcSignalCreds :: "nat option"
  gcSignalSpawn :: "nat option"

fun group_loop :: "nat \<Rightarrow> nat \<Rightarrow> nat \<Rightarrow> int \<Rightarrow> nat option \<Rightarrow> nat option \<Rightarrow> nat \<Rightarrow> group_call list" where
  "group_loop 0 g numGroups nextID prevC prevS fresh = []"
| "group_loop (Suc n) g numGroups nextID prevC prevS fresh =
     (let more = (g + 1 < numGroups);
          sigC = (if more then Some fresh else None);
          sigS = (if more then Some (fresh + 1) else None)
      in \<lparr>gcID = g + 1, gcFirst = (g = 0), gcConfig = (g = 0),
          gcIds = map (\<lambda>i. nextID + int i) [0..<workersPerGroup], gcHash = g,
          gcWaitCreds = (if g > 0 then prevC else None), gcWaitSpawn = (if g > 0 then prevS else None),
          gcSignalCreds = sigC, gcSignalSpawn = sigS\<rparr>
         # group_loop n (g + 1) numGroups (nextID + int workersPerGroup)
             (if more then Some fresh else prevC) (if more then Some (fresh + 1) else prevS) (fresh + 2))"

definition group_calls :: "int \<Rightarrow> group_call list" where
  "group_calls n = (let k = nat (n div int workersPerGroup) in group_loop k 0 k 1 None None 0)"

record start_env =
  seJson :: "string \<Rightarrow> string"
  seResolver :: resolver
  seMillis :: int
  seNow :: int
  seHkdf :: "string \<Rightarrow> string \<Rightarrow> string \<Rightarrow> nat \<Rightarrow> byte list option"
  seListen :: "nat \<Rightarrow> string \<Rightarrow> string + string"
  seSockError :: "string \<Rightarrow> string"

text \<open>
  Opening the local socket: five tries on the configured address with a second between them, then
  any port. A success is the local address of the socket; \<open>i\<close> counts the tries.
\<close>

fun listen_loop :: "start_env \<Rightarrow> string \<Rightarrow> nat \<Rightarrow> nat \<Rightarrow> core \<Rightarrow> (string + string) \<times> core" where
  "listen_loop env addr i 0 c = (Inl [], c)"
| "listen_loop env addr i (Suc n) c =
     (case seListen env i addr of
        Inr local \<Rightarrow> (Inr local, c)
      | Inl e \<Rightarrow>
          let c = log_write (log_core @ log_port @ addr @ log_busy @ digits_nat (i + 1) @ ''/5)''
                @ [CHR 0x0A]) c
          in if n = 0 then (Inl e, c) else listen_loop env addr (i + 1) n c)"

definition listen_socket :: "start_env \<Rightarrow> string \<Rightarrow> core \<Rightarrow> (string + string) \<times> core" where
  "listen_socket env addr c =
     (case listen_loop env addr 0 5 c of
        (Inr local, c) \<Rightarrow> (Inr local, c)
      | (Inl e, c) \<Rightarrow>
          (case seListen env 5 ''127.0.0.1:0'' of
             Inr local \<Rightarrow> (Inr local, c)
           | Inl e \<Rightarrow> (Inl (''listen: '' @ e), c)))"

definition local_port :: "string \<Rightarrow> string" where
  "local_port a = (case SplitHostPort a of Inr (h, p) \<Rightarrow> if p = [] then ''9000'' else p | Inl e \<Rightarrow> ''9000'')"

text \<open>What a successful start has launched.\<close>

record started =
  stParams :: turn_params
  stPeer :: "string \<times> int"
  stPort :: string
  stGroups :: "group_call list"
  stDevice :: string
  stPassword :: string

definition start :: "start_env \<Rightarrow> core \<Rightarrow> (string + started) \<times> core" where
  "start env c =
     (let js = seJson env; cfg = cCfg c; c = c\<lparr>cCancel := True\<rparr>;
          fail = (\<lambda>e c. (Inl e, c\<lparr>cCancelled := True\<rparr>))
      in if PeerAddr cfg = [] then fail ''PeerAddr is required'' c
         else if Hashes cfg = [] then fail ''Hashes are required'' c
         else if Password cfg = [] then fail ''Password is required'' c
         else
           let c = emitConnectionProgress js ''dns'' ''running'' msg_resolving c in
           case resolvePeerUDPAddr (seResolver env) (PeerAddr cfg) of
             Inl err \<Rightarrow>
               let c = emitDiagnostic js (seNow env) ''DEBUG'' ''DNS'' ''peer_lookup'' (dnsFailureKind err)
                     ''source=system rcode=unavailable'' 0 (seMillis env) c;
                   c = emitConnectionProgress js ''dns'' ''error''
                     (if isDNSFailure err then msg_dns_down else msg_not_resolved) c
               in fail (''resolve peer: '' @ error_text (sanitizeDNSFailure err)) c
           | Inr peer \<Rightarrow>
               let c = emitDiagnostic js (seNow env) ''DEBUG'' ''DNS'' ''peer_lookup'' ''success''
                     ''source=system rcode=unavailable'' 0 (seMillis env) c;
                   c = emitConnectionProgress js ''dns'' ''success'' msg_resolved c
               in case deriveWrapKey (seHkdf env) (Password cfg) of
                    Inl e \<Rightarrow> fail (''derive wrap key: '' @ e) c
                  | Inr key \<Rightarrow>
                      (case listen_socket env (Listen cfg) c of
                         (Inl e, c) \<Rightarrow> fail e c
                       | (Inr local, c) \<Rightarrow>
                           let c = emit ((blank EventState)\<lparr>evStatus := ''connecting''\<rparr>) c;
                               c = emitConnectionProgress js ''vk'' ''running'' msg_getting_creds c
                           in (Inr \<lparr>stParams = \<lparr>tp_Host = TurnHost cfg, tp_Port = TurnPort cfg,
                                     tp_Hashes = Hashes cfg, tp_WrapKey = key, tp_ObfsMode = ObfsMode cfg\<rparr>,
                                   stPeer = peer, stPort = local_port local,
                                   stGroups = group_calls (normal_workers (Workers cfg)),
                                   stDevice = DeviceID cfg, stPassword = Password cfg\<rparr>, c)))"

section \<open>Life cycle\<close>

text \<open>
  \<open>Start\<close> with its \<open>sync.Once\<close>: the first call runs \<open>start\<close>; a later call has no error of its own and
  returns the channel. The result tells whether the channel is handed out, and what was launched.
\<close>

definition Start :: "start_env \<Rightarrow> core \<Rightarrow> (string + started option) \<times> core" where
  "Start env c =
     (if cStarted c then (Inr None, c)
      else (case start env (c\<lparr>cStarted := True\<rparr>) of
              (Inl e, c) \<Rightarrow> (Inl e, c)
            | (Inr st, c) \<Rightarrow> (Inr (Some st), c)))"

definition Stop :: "core \<Rightarrow> core" where
  "Stop c = (if cStopped c then c
     else let c = c\<lparr>cStopped := True\<rparr> in if cCancel c then c\<lparr>cCancelled := True\<rparr> else c)"

definition Pause :: "core \<Rightarrow> core" where "Pause c = c\<lparr>cPause := 1\<rparr>"
definition Resume :: "core \<Rightarrow> core" where "Resume c = c\<lparr>cPause := 0\<rparr>"

definition SetDebugLogging :: "bool \<Rightarrow> core \<Rightarrow> core" where
  "SetDebugLogging b c = c\<lparr>cDebug := b\<rparr>"

text \<open>The end of the goroutine that waits for all groups: its log line and its deferred calls, in order.\<close>

definition core_end :: "core \<Rightarrow> core" where
  "core_end c = (log_write (log_core @ log_finished @ [CHR 0x0A]) c)\<lparr>cCancelled := True, cClosed := True\<rparr>"

section \<open>The queue keeps the latest events\<close>

context fifo_channel
begin

text \<open>A send that makes room by taking the oldest value out.\<close>

definition send_evict :: "'q \<Rightarrow> 'a \<Rightarrow> 'q" where
  "send_evict q v =
     (case send q v of
        Some q' \<Rightarrow> q'
      | None \<Rightarrow> send_or_drop (case recv q of Some (old, q') \<Rightarrow> q' | None \<Rightarrow> q) v)"

lemma send_evict_content:
  assumes "0 < cap q" and "length (content q) \<le> cap q"
  shows "content (send_evict q v) = drop (Suc (length (content q)) - cap q) (content q @ [v])"
    and "cap (send_evict q v) = cap q"
proof -
  have "content (send_evict q v) = drop (Suc (length (content q)) - cap q) (content q @ [v]) \<and>
      cap (send_evict q v) = cap q"
  proof (cases "send q v")
    case (Some q')
    then have "length (content q) < cap q"
      using send_none [of q v] by force
    then show ?thesis
      using send_some [OF Some] Some by (simp add: send_evict_def)
  next
    case None
    then have full: "length (content q) = cap q"
      using send_none [of q v] assms(2) by force
    then have "content q \<noteq> []"
      using assms(1) by auto
    then obtain x q1 where r: "recv q = Some (x, q1)"
      using recv_none [of q] by (cases "recv q") auto
    note q1 = recv_some [OF r]
    then have "length (content q1) < cap q1"
      using full by (metis length_Cons lessI)
    then obtain q2 where s: "send q1 v = Some q2"
      using send_room by blast
    then show ?thesis
      using send_some [OF s] q1 full None r by (simp add: send_evict_def send_or_drop_def)
  qed
  then show "content (send_evict q v) = drop (Suc (length (content q)) - cap q) (content q @ [v])"
    "cap (send_evict q v) = cap q"
    by blast+
qed

lemma evicts_content:
  assumes "0 < cap q" and "length (content q) \<le> cap q"
  shows "content (foldl send_evict q vs) = drop (length (content q @ vs) - cap q) (content q @ vs)"
  using assms
proof (induction vs arbitrary: q)
  case (Cons v vs)
  let ?q = "send_evict q v"
  note e = send_evict_content [OF Cons.prems, of v]
  have l: "length (content ?q) \<le> cap ?q"
    unfolding e by simp
  have "content (foldl send_evict ?q vs) = drop (length (content ?q @ vs) - cap ?q) (content ?q @ vs)"
    using Cons.IH [of ?q] Cons.prems(1) l e(2) by simp
  also have "content ?q @ vs = drop (Suc (length (content q)) - cap q) (content q @ v # vs)"
    unfolding e(1) using Cons.prems by (simp add: drop_append)
  finally show ?case
    unfolding e(2) using Cons.prems
    by (cases "length (content q) = cap q") (auto simp: Suc_diff_le)
qed simp

end

lemma emit_queue: "\<not> cClosed c \<Longrightarrow> cEvents (emit ev c) = go_chan.send_evict (cEvents c) ev"
  by (auto simp: emit_def go_chan.send_evict_def go_chan.send_or_drop_def Let_def split: option.splits)

lemma emit_other [simp]: "cClosed (emit ev c) = cClosed c" "cDebug (emit ev c) = cDebug c"
  "cCancelled (emit ev c) = cCancelled c" "cStarted (emit ev c) = cStarted c" "cCfg (emit ev c) = cCfg c"
  by (auto simp: emit_def Let_def split: option.splits)

lemma emits_queue:
  "\<not> cClosed c \<Longrightarrow> cEvents (fold emit evs c) = foldl go_chan.send_evict (cEvents c) evs"
  by (induction evs arbitrary: c) (simp_all add: emit_queue)

section \<open>The chain of groups\<close>

lemma length_group_loop [simp]: "length (group_loop n g N i pc ps f) = n"
  by (induction n arbitrary: g i pc ps f) (simp_all add: Let_def)

lemma group_loop_nth:
  "i < n \<Longrightarrow> g + n = N \<Longrightarrow> group_loop n g N k pc ps f ! i =
    \<lparr>gcID = g + i + 1, gcFirst = (g + i = 0), gcConfig = (g + i = 0),
     gcIds = map (\<lambda>j. k + 9 * int i + int j) [0..<9], gcHash = g + i,
     gcWaitCreds = (if i = 0 then if g > 0 then pc else None else Some (f + 2 * i - 2)),
     gcWaitSpawn = (if i = 0 then if g > 0 then ps else None else Some (f + 2 * i - 1)),
     gcSignalCreds = (if g + i + 1 < N then Some (f + 2 * i) else None),
     gcSignalSpawn = (if g + i + 1 < N then Some (f + 2 * i + 1) else None)\<rparr>"
proof (induction n arbitrary: g k pc ps f i)
  case (Suc n)
  show ?case
  proof (cases i)
    case 0
    then show ?thesis
      by (simp add: Let_def workersPerGroup_def)
  next
    case (Suc j)
    then have j: "j < n" "g + 1 + n = N" "0 < n"
      using Suc.prems by auto
    have "group_loop (Suc n) g N k pc ps f ! i =
        group_loop n (g + 1) N (k + 9) (Some f) (Some (f + 1)) (f + 2) ! j"
      using Suc j by (simp add: Let_def workersPerGroup_def)
    then show ?thesis
      using Suc.IH [OF j(1,2), of "k + 9" "Some f" "Some (f + 1)" "f + 2"] Suc j
      by (auto simp: algebra_simps)
  qed
qed simp

lemma group_loop_ids:
  "concat (map gcIds (group_loop n g N k pc ps f)) = map (\<lambda>j. k + int j) [0..<9 * n]"
proof (induction n arbitrary: g k pc ps f)
  case (Suc n)
  have "[0..<9 * Suc n] = [0..<9] @ [9..<9 + 9 * n]"
    using upt_add_eq_append [of 0 9 "9 * n"] by simp
  also have "[9..<9 + 9 * n] = map (\<lambda>j. j + 9) [0..<9 * n]"
    by (simp add: map_add_upt add.commute)
  finally show ?case
    using Suc.IH by (simp add: Let_def workersPerGroup_def comp_def algebra_simps)
qed simp

lemma normal_workers_bounds:
  "\<exists>k. 1 \<le> k \<and> k \<le> 12 \<and> normal_workers w = 9 * int k \<and> (9 \<le> w \<and> w \<le> 108 \<longrightarrow> normal_workers w \<le> w)"
proof -
  define n where "n = (if w > 108 then 108 else w)"
  define m where "m = (if n < 9 then 9 else n)"
  have m: "9 \<le> m" "m \<le> 108" "9 \<le> w \<and> w \<le> 108 \<Longrightarrow> m = w"
    by (auto simp: m_def n_def)
  have "1 \<le> m div 9" "m div 9 \<le> 12"
    using m(1,2) by auto
  moreover have "normal_workers w = 9 * int (nat (m div 9))"
    using m by (simp add: normal_workers_def workersPerGroup_def Let_def m_def n_def)
  ultimately show ?thesis
    using m(3) by (intro exI [of _ "nat (m div 9)"]) auto
qed

definition chained :: "group_call list \<Rightarrow> bool" where
  "chained gs \<longleftrightarrow> (\<forall>i < length gs.
     gcWaitCreds (gs ! i) = (if i = 0 then None else gcSignalCreds (gs ! (i - 1))) \<and>
     gcWaitSpawn (gs ! i) = (if i = 0 then None else gcSignalSpawn (gs ! (i - 1))) \<and>
     (gcSignalCreds (gs ! i) = None \<longleftrightarrow> i + 1 = length gs) \<and>
     (gcSignalSpawn (gs ! i) = None \<longleftrightarrow> i + 1 = length gs) \<and>
     (gcConfig (gs ! i) \<longleftrightarrow> i = 0) \<and> (gcFirst (gs ! i) \<longleftrightarrow> i = 0) \<and>
     gcID (gs ! i) = i + 1 \<and> length (gcIds (gs ! i)) = 9)"

lemma group_calls_chained: "chained (group_calls (9 * int k))"
proof -
  have "group_calls (9 * int k) = group_loop k 0 k 1 None None 0"
    by (simp add: group_calls_def workersPerGroup_def Let_def)
  then show ?thesis
    unfolding chained_def by (auto simp: group_loop_nth)
qed

lemma group_calls_ids: "concat (map gcIds (group_calls (9 * int k))) = [1..9 * int k]"
proof -
  have "group_calls (9 * int k) = group_loop k 0 k 1 None None 0"
    by (simp add: group_calls_def workersPerGroup_def Let_def)
  moreover have "map (\<lambda>j. 1 + int j) [0..<n] = [1..int n]" for n
    by (induction n) (simp_all add: upto_rec2)
  ultimately show ?thesis
    using group_loop_ids [of k 0 k 1 None None 0] by (metis of_nat_mult of_nat_numeral)
qed

section \<open>The MTU line\<close>

lemma contains_join: "contains p x \<Longrightarrow> x \<in> set xs \<Longrightarrow> contains p (join sep xs)"
proof (induction sep xs rule: join.induct)
  case (3 sep a b r)
  show ?case
  proof (cases "x = a")
    case True
    then have "contains p (a @ sep @ join sep (b # r))"
      using 3(2) by (intro contains_append1) simp
    then show ?thesis
      by simp
  next
    case False
    then have "contains p (join sep (b # r))"
      using 3 by simp
    then have "contains p ((a @ sep) @ join sep (b # r))"
      by (rule contains_append2)
    then show ?thesis
      by simp
  qed
qed auto

lemma patchMTU_idem: "patchMTU (patchMTU conf) = patchMTU conf"
proof (cases "contains ''MTU ='' conf \<or>
    (\<forall>line \<in> set (split_on CHR 0x0A conf). trim_space line \<noteq> ''[Interface]'')")
  case True
  have "concat (map (\<lambda>line. if trim_space line = ''[Interface]'' then [line, ''MTU = 1280''] else [line]) xs)
      = xs" if "\<forall>line \<in> set xs. trim_space line \<noteq> ''[Interface]''" for xs
    using that by (induction xs) auto
  then have "patchMTU conf = conf"
    using True by (auto simp: patchMTU_def join_split_on)
  then show ?thesis
    by simp
next
  case False
  then have "''MTU = 1280'' \<in> set (concat (map (\<lambda>line. if trim_space line = ''[Interface]''
      then [line, ''MTU = 1280''] else [line]) (split_on CHR 0x0A conf)))"
    by auto
  moreover have "contains ''MTU ='' ''MTU = 1280''"
    using contains_self [of "''MTU =''" "'' 1280''"] by simp
  ultimately have "contains ''MTU ='' (patchMTU conf)"
    using False contains_join by (auto simp: patchMTU_def)
  then show ?thesis
    by (simp add: patchMTU_def)
qed

section \<open>Numbers in the log\<close>

lemma itoa_digits_eq: "0 < n \<Longrightarrow> itoa_digits n s = digits_nat (nat n) @ s"
proof (induction "nat n" arbitrary: n s rule: less_induct)
  case less
  note i = itoa_digits.simps [of n s]
  show ?case
  proof (cases "n < 10")
    case True
    then have "n div 10 = 0" "n mod 10 = n"
      using less.prems by auto
    then show ?thesis
      using less.prems True i itoa_digits.simps [of 0]
      by (subst digits_nat.simps) (auto simp: digit_char_def)
  next
    case False
    have "itoa_digits (n div 10) (char_of (48 + nat (n mod 10)) # s) =
        digits_nat (nat (n div 10)) @ char_of (48 + nat (n mod 10)) # s"
      using less False by (intro less.hyps) auto
    moreover have "nat (n div 10) = nat n div 10" "nat (n mod 10) = nat n mod 10"
      using less.prems by (simp_all add: nat_div_distrib nat_mod_distrib)
    ultimately show ?thesis
      using less.prems False i by (subst digits_nat.simps) (auto simp: digit_char_def)
  qed
qed

lemma digit_chars: "char_of (48 :: nat) = CHR ''0''" "char_of (49 :: nat) = CHR ''1''"
  "char_of (53 :: nat) = CHR ''5''"
  by code_simp+

lemma itoa_fmt: "0 \<le> n \<Longrightarrow> itoa n = fmt_int n"
  using itoa_digits_eq [of n "[]"]
  by (cases "n = 0") (auto simp: itoa_def fmt_int_def digits_nat.simps [of 0] digit_char_def digit_chars)

text \<open>A negative number has no digits at all, and the two places after the point are not padded: a
  traffic of 1.05 MB is reported as 1.5.\<close>

lemma itoa_negative: "n < 0 \<Longrightarrow> itoa n = []"
  by (simp add: itoa_def itoa_digits.simps)

lemma ftoa_not_padded: "ftoa (105 / 100) = ''1.5''"
proof -
  have "trunc_rat (105 / 100) = 1" "trunc_rat ((105 / 100 - of_int 1) * 100) = 5"
    by (simp_all add: trunc_rat_def floor_eq_iff)
  then show ?thesis
    unfolding ftoa_def Let_def by (simp add: itoa_fmt fmt_int_def digits_nat.simps digit_char_def digit_chars)
qed

section \<open>Starting\<close>

lemma log_write_other [simp]: "cCfg (log_write p c) = cCfg c" "cCancelled (log_write p c) = cCancelled c"
  "cClosed (log_write p c) = cClosed c" "cStarted (log_write p c) = cStarted c"
  by (simp_all add: log_write_def Let_def)

lemma progress_other [simp]: "cCfg (emitConnectionProgress js a b m c) = cCfg c"
  "cClosed (emitConnectionProgress js a b m c) = cClosed c"
  "cStarted (emitConnectionProgress js a b m c) = cStarted c"
  by (simp_all add: emitConnectionProgress_def)

lemma diagnostic_other [simp]: "cCfg (emitDiagnostic js t l s g r m w d c) = cCfg c"
  "cStarted (emitDiagnostic js t l s g r m w d c) = cStarted c"
  by (simp_all add: emitDiagnostic_def)

lemma resolve_port: "resolvePeerUDPAddr rs a = Inr (ip, port) \<Longrightarrow>
    (\<forall>x i p. rsLiteral rs x = Inr (i, p) \<longrightarrow> 0 \<le> p \<and> p \<le> 65535) \<Longrightarrow> 0 \<le> port \<and> port \<le> 65535"
  by (auto simp: resolvePeerUDPAddr_def Let_def split: sum.splits option.splits list.splits if_splits)

text \<open>What holds of every core that was launched.\<close>

definition launch_ok :: "start_env \<Rightarrow> config \<Rightarrow> started \<Rightarrow> bool" where
  "launch_ok env cfg st \<longleftrightarrow>
     PeerAddr cfg \<noteq> [] \<and> tp_Hashes (stParams st) = Hashes cfg \<and> Hashes cfg \<noteq> [] \<and>
     stPassword st = Password cfg \<and> deriveWrapKey (seHkdf env) (Password cfg) = Inr (tp_WrapKey (stParams st)) \<and>
     resolvePeerUDPAddr (seResolver env) (PeerAddr cfg) = Inr (stPeer st) \<and> stPort st \<noteq> [] \<and>
     (\<exists>k. 1 \<le> k \<and> k \<le> 12 \<and> length (stGroups st) = k \<and>
        concat (map gcIds (stGroups st)) = [1..9 * int k]) \<and> chained (stGroups st)"

lemma local_port_nonempty: "[] \<noteq> local_port a"
  by (simp add: local_port_def split: sum.split)

lemma start_launch:
  assumes "start env c = (Inr st, c')"
  shows "launch_ok env (cCfg c) st"
proof -
  obtain k where k: "1 \<le> k" "k \<le> 12" "normal_workers (Workers (cCfg c)) = 9 * int k"
    using normal_workers_bounds by blast
  have len: "length (group_calls (9 * int k)) = k"
    by (simp add: group_calls_def workersPerGroup_def Let_def)
  have p: "PeerAddr (cCfg c) \<noteq> []" "Hashes (cCfg c) \<noteq> []"
    using assms by (auto simp: start_def Let_def split: if_splits)
  moreover have "tp_Hashes (stParams st) = Hashes (cCfg c) \<and> stPassword st = Password (cCfg c) \<and>
      deriveWrapKey (seHkdf env) (Password (cCfg c)) = Inr (tp_WrapKey (stParams st)) \<and>
      resolvePeerUDPAddr (seResolver env) (PeerAddr (cCfg c)) = Inr (stPeer st) \<and>
      stGroups st = group_calls (normal_workers (Workers (cCfg c))) \<and> (\<exists>a. stPort st = local_port a)"
    using assms by (auto simp: start_def Let_def split: if_splits sum.splits prod.splits)
  ultimately show ?thesis
    using k len group_calls_chained [of k] group_calls_ids [of k]
    by (auto simp: launch_ok_def local_port_nonempty)
qed

lemma start_failed: "start env c = (Inl e, c') \<Longrightarrow> cCancelled c'"
  by (auto simp: start_def Let_def split: if_splits sum.splits prod.splits)

lemma listen_loop_started: "listen_loop env a i n c = (r, c') \<Longrightarrow> cStarted c' = cStarted c"
proof (induction env a i n c arbitrary: r c' rule: listen_loop.induct)
  case (2 env a i n c)
  show ?case
    using 2(2) by (auto simp: Let_def split: sum.splits if_splits dest: 2(1) [OF _ refl])
qed simp

lemma listen_socket_started:
  assumes "listen_socket env a c = (r, c')"
  shows "cStarted c' = cStarted c"
proof -
  obtain x c1 where l: "listen_loop env a 0 5 c = (x, c1)"
    by fastforce
  then have "c' = c1"
    using assms by (cases x) (auto simp: listen_socket_def split: sum.splits)
  then show ?thesis
    using listen_loop_started [OF l] by simp
qed

lemma start_started: "start env c = (r, c') \<Longrightarrow> cStarted c' = cStarted c"
  by (auto simp: start_def Let_def split: if_splits sum.splits prod.splits dest!: listen_socket_started)

text \<open>The comment promises an error for a second call; it returns the channel of events, even after a
  first call that failed.\<close>

lemma second_Start: "fst (Start env (snd (Start env c))) = Inr None"
proof -
  obtain r c' where s: "start env (c\<lparr>cStarted := True\<rparr>) = (r, c')"
    by fastforce
  then have "cStarted c'"
    using start_started by fastforce
  then have "cStarted (snd (Start env c))"
    using s by (cases r) (auto simp: Start_def)
  then show ?thesis
    by (simp add: Start_def)
qed

text \<open>A log line becomes exactly one event with the whole text; an error is always shown as such.\<close>

lemma log_write_event:
  "\<exists>msg level. log_write p c = (if msg = [] then c else emit (log_event level msg) c) \<and>
     p = msg @ replicate (length p - length msg) CHR 0x0A \<and>
     (level = ''ERROR'' \<longleftrightarrow> classifyLevel msg = ''ERROR'')"
proof -
  define msg where "msg = rev (dropWhile (\<lambda>x. x = CHR 0x0A) (rev p))"
  have "rev p = takeWhile (\<lambda>x. x = CHR 0x0A) (rev p) @ rev msg"
    by (simp add: msg_def)
  moreover have "takeWhile (\<lambda>x. x = CHR 0x0A) (rev p)
      = replicate (length (takeWhile (\<lambda>x. x = CHR 0x0A) (rev p))) CHR 0x0A"
    by (rule replicate_length_same [symmetric]) (auto dest: set_takeWhileD)
  ultimately have "p = msg @ replicate (length (takeWhile (\<lambda>x. x = CHR 0x0A) (rev p))) CHR 0x0A"
    by (metis rev_append rev_rev_ident rev_replicate)
  moreover from this have "length p - length msg = length (takeWhile (\<lambda>x. x = CHR 0x0A) (rev p))"
    by (metis add_diff_cancel_left' length_append length_replicate)
  ultimately have "p = msg @ replicate (length p - length msg) CHR 0x0A"
    by simp
  moreover have "classifyLevel msg \<in> {''ERROR'', ''WARN'', ''INFO''}"
    by (simp add: classifyLevel_def Let_def)
  ultimately show ?thesis
    by (intro exI [of _ msg] exI [of _ "if cDebug c \<and> classifyLevel msg \<noteq> ''ERROR''
        then if classifyLevel msg = ''INFO'' then ''DEBUG'' else classifyLevel msg
        else if classifyLevel msg = ''ERROR'' \<or> shown_in_ui msg then classifyLevel msg else ''SKIP''"])
      (auto simp: log_write_def Let_def msg_def [symmetric])
qed

section \<open>Properties\<close>

text \<open>While the channel of events is open, the queue after any number of
  emitted events holds exactly the latest ones that fit, in the order in which they were emitted:
  emitting never blocks and only ever loses the oldest events.\<close>

theorem events_keep_the_latest:
  "\<not> cClosed c \<Longrightarrow> 0 < ccap (cEvents c) \<Longrightarrow> length (cbuf (cEvents c)) \<le> ccap (cEvents c) \<Longrightarrow>
     cbuf (cEvents (fold emit evs c)) =
       drop (length (cbuf (cEvents c) @ evs) - ccap (cEvents c)) (cbuf (cEvents c) @ evs)"
  unfolding emits_queue by (rule go_chan.evicts_content)

definition small_core :: core where
  "small_core = (New \<lparr>PeerAddr = ''10.0.0.1:5000'', Password = ''pw'', Hashes = [''h''], DeviceID = [],
     Workers = 40, Listen = [], TurnHost = [], TurnPort = [], CaptchaMode = '' WV '', ObfsMode = [],
     Fingerprint = [], OperationID = [], DebugLogging = False\<rparr>)"

theorem events_keep_the_latest_witness:
  "cbuf (cEvents (fold emit [blank EventLog, blank EventStats, blank EventError]
     (small_core\<lparr>cEvents := \<lparr>cbuf = [blank EventState], ccap = 2\<rparr>\<rparr>)))
   = [blank EventStats, blank EventError]"
  using events_keep_the_latest [of "small_core\<lparr>cEvents := \<lparr>cbuf = [blank EventState], ccap = 2\<rparr>\<rparr>"
      "[blank EventLog, blank EventStats, blank EventError]"]
  by (simp add: small_core_def New_def Let_def)

text \<open>Property C19 (functional). A core that starts has its required settings, the key of its password
  and a resolved peer, and launches between one and twelve groups of nine workers. The workers are
  numbered from one without gaps, every group but the first waits for exactly the signals of the
  group before it, and only the first one is given the configuration channel.\<close>

theorem start_launches_a_chain:
  "Start env c = (Inr (Some st), c') \<Longrightarrow> launch_ok env (cCfg c) st"
  using start_launch [of env "c\<lparr>cStarted := True\<rparr>"]
  by (auto simp: Start_def split: if_splits sum.splits prod.splits)

definition demo_start :: start_env where
  "demo_start = \<lparr>seJson = (\<lambda>s. s), seResolver = \<lparr>rsIP = (\<lambda>h. True), rsLiteral = (\<lambda>a. Inr (''10.0.0.1'', 5000)),
     rsLookup = (\<lambda>h. Inl (Plain ''no''))\<rparr>, seMillis = 1, seNow = 2, seHkdf = (\<lambda>a b c n. Some (replicate n 7)),
     seListen = (\<lambda>i a. if i < 5 then Inl ''busy'' else Inr ''127.0.0.1:40000''), seSockError = (\<lambda>s. s)\<rparr>"

lemma case_listen: "\<exists>c'. x = (Inr l, c') \<Longrightarrow> \<exists>st c'. (case x of (Inl e, c) \<Rightarrow> f e c
    | (Inr a, c) \<Rightarrow> (Inr (g a c), h a c)) = (Inr st, c')"
  by auto

theorem start_launches_a_chain_witness:
  "\<exists>st. launch_ok demo_start (cCfg small_core) st"
proof -
  have a: "SplitHostPort ''10.0.0.1:5000'' = Inr (''10.0.0.1'', ''5000'')" "atoi ''5000'' = Some 5000"
    "trim_space ''10.0.0.1:5000'' = ''10.0.0.1:5000''"
    by code_simp+
  have r: "resolvePeerUDPAddr (seResolver demo_start) ''10.0.0.1:5000'' = Inr (''10.0.0.1'', 5000)"
    by (simp add: resolvePeerUDPAddr_def a demo_start_def)
  have k: "deriveWrapKey (seHkdf demo_start) ''pw'' = Inr (replicate wrapKeyLen 7)"
    by (simp add: deriveWrapKey_def demo_start_def)
  have l: "\<exists>c'. listen_socket demo_start a c = (Inr ''127.0.0.1:40000'', c')" for a c
    by (simp add: listen_socket_def numeral_eq_Suc demo_start_def Let_def)
  have g: "cCfg small_core = \<lparr>PeerAddr = ''10.0.0.1:5000'', Password = ''pw'', Hashes = [''h''],
     DeviceID = ''unknown'', Workers = 40, Listen = ''127.0.0.1:9000'', TurnHost = [], TurnPort = [],
     CaptchaMode = '' WV '', ObfsMode = ''audio'', Fingerprint = [], OperationID = [],
     DebugLogging = False\<rparr>" "cStarted small_core = False"
    by (simp_all add: small_core_def New_def with_defaults_def Let_def)
  have "\<exists>st c'. start demo_start (small_core\<lparr>cStarted := True\<rparr>) = (Inr st, c')"
    unfolding start_def Let_def
    by (simp add: g r k) (rule case_listen [OF l])
  then obtain st c' where "Start demo_start small_core = (Inr (Some st), c')"
    using g(2) by (auto simp: Start_def)
  from start_launches_a_chain [OF this] show ?thesis
    by blast
qed

end
