(* ===== verification/SessionLog.thy ===== *)
theory SessionLog
  imports Prelude "HOL-Library.Product_Lexorder" "HOL-Library.Multiset"
begin

text \<open>
  The journal of a connection (\<open>backend/session_log.go\<close>), the report that quotes it
  (\<open>backend/report.go\<close>) and the diagnostic events (\<open>backend/diagnostics.go\<close>). The file system is given
  by the results of its calls; \<open>sanitizeDiagnosticText\<close>, a sequence of regular expressions, the clock
  and \<open>strings.ToUpper\<close> are arguments.
\<close>

section \<open>Texts\<close>

definition warn_dir :: string where
  "warn_dir = utf8 [208, 157, 208, 181, 32, 209, 131, 208, 180, 208, 176, 208, 187, 208, 190,
     209, 129, 209, 140, 32, 209, 129, 208, 190, 208, 183, 208, 180, 208, 176, 209, 130, 209,
     140, 32, 208, 186, 208, 176, 209, 130, 208, 176, 208, 187, 208, 190, 208, 179, 32, 208,
     182, 209, 131, 209, 128, 208, 189, 208, 176, 208, 187, 208, 176, 32, 209, 129, 208, 181,
     209, 129, 209, 129, 208, 184, 208, 184, 46]"

definition warn_file :: string where
  "warn_file = utf8 [208, 157, 208, 181, 32, 209, 131, 208, 180, 208, 176, 208, 187, 208, 190,
     209, 129, 209, 140, 32, 209, 129, 208, 190, 208, 183, 208, 180, 208, 176, 209, 130, 209,
     140, 32, 209, 132, 208, 176, 208, 185, 208, 187, 32, 208, 182, 209, 131, 209, 128, 208,
     189, 208, 176, 208, 187, 208, 176, 32, 209, 129, 208, 181, 209, 129, 209, 129, 208, 184,
     208, 184, 46]"

definition warn_prune :: string where
  "warn_prune = utf8 [208, 157, 208, 181, 32, 209, 131, 208, 180, 208, 176, 208, 187, 208, 190,
     209, 129, 209, 140, 32, 208, 190, 209, 135, 208, 184, 209, 129, 209, 130, 208, 184, 209,
     130, 209, 140, 32, 209, 129, 209, 130, 208, 176, 209, 128, 209, 139, 208, 181, 32, 208,
     182, 209, 131, 209, 128, 208, 189, 208, 176, 208, 187, 209, 139, 32, 209, 129, 208, 181,
     209, 129, 209, 129, 208, 184, 208, 185, 46]"

definition warn_closed :: string where
  "warn_closed = utf8 [208, 159, 208, 190, 208, 191, 209, 139, 209, 130, 208, 186, 208, 176, 32,
     208, 183, 208, 176, 208, 191, 208, 184, 209, 129, 208, 184, 32, 208, 178, 32, 208, 183,
     208, 176, 208, 186, 209, 128, 209, 139, 209, 130, 209, 139, 208, 185, 32, 208, 182, 209,
     131, 209, 128, 208, 189, 208, 176, 208, 187, 32, 209, 129, 208, 181, 209, 129, 209, 129,
     208, 184, 208, 184, 46]"

definition warn_limit :: string where
  "warn_limit = utf8 [208, 164, 208, 176, 208, 185, 208, 187, 32, 208, 182, 209, 131, 209, 128,
     208, 189, 208, 176, 208, 187, 208, 176, 32, 208, 180, 208, 190, 209, 129, 209, 130, 208,
     184, 208, 179, 32, 208, 187, 208, 184, 208, 188, 208, 184, 209, 130, 208, 176, 32, 53, 49,
     50, 32, 208, 154, 208, 184, 208, 145, 59, 32, 208, 191, 208, 190, 209, 129, 208, 187, 208,
     181, 208, 180, 208, 189, 208, 184, 208, 181, 32, 209, 129, 208, 190, 208, 177, 209, 139,
     209, 130, 208, 184, 209, 143, 32, 209, 129, 208, 190, 209, 133, 209, 128, 208, 176, 208,
     189, 208, 181, 208, 189, 209, 139, 32, 208, 178, 32, 208, 191, 208, 176, 208, 188, 209,
     143, 209, 130, 208, 184, 46]"

definition warn_write :: string where
  "warn_write = utf8 [208, 157, 208, 181, 32, 209, 131, 208, 180, 208, 176, 208, 187, 208, 190,
     209, 129, 209, 140, 32, 208, 183, 208, 176, 208, 191, 208, 184, 209, 129, 208, 176, 209,
     130, 209, 140, 32, 209, 129, 208, 190, 208, 177, 209, 139, 209, 130, 208, 184, 208, 181,
     32, 208, 178, 32, 209, 132, 208, 176, 208, 185, 208, 187, 32, 208, 182, 209, 131, 209, 128,
     208, 189, 208, 176, 208, 187, 208, 176, 32, 209, 129, 208, 181, 209, 129, 209, 129, 208,
     184, 208, 184, 46]"

definition warn_sync :: string where
  "warn_sync = utf8 [208, 157, 208, 181, 32, 209, 131, 208, 180, 208, 176, 208, 187, 208, 190,
     209, 129, 209, 140, 32, 209, 129, 208, 184, 208, 189, 209, 133, 209, 128, 208, 190, 208,
     189, 208, 184, 208, 183, 208, 184, 209, 128, 208, 190, 208, 178, 208, 176, 209, 130, 209,
     140, 32, 209, 132, 208, 176, 208, 185, 208, 187, 32, 208, 182, 209, 131, 209, 128, 208,
     189, 208, 176, 208, 187, 208, 176, 32, 209, 129, 208, 181, 209, 129, 209, 129, 208, 184,
     208, 184, 46]"

definition warn_sync_end :: string where
  "warn_sync_end = utf8 [208, 157, 208, 181, 32, 209, 131, 208, 180, 208, 176, 208, 187, 208,
     190, 209, 129, 209, 140, 32, 209, 129, 208, 184, 208, 189, 209, 133, 209, 128, 208, 190,
     208, 189, 208, 184, 208, 183, 208, 184, 209, 128, 208, 190, 208, 178, 208, 176, 209, 130,
     209, 140, 32, 209, 132, 208, 176, 208, 185, 208, 187, 32, 208, 182, 209, 131, 209, 128,
     208, 189, 208, 176, 208, 187, 208, 176, 32, 208, 191, 209, 128, 208, 184, 32, 208, 183,
     208, 176, 208, 178, 208, 181, 209, 128, 209, 136, 208, 181, 208, 189, 208, 184, 208, 184,
     32, 209, 129, 208, 181, 209, 129, 209, 129, 208, 184, 208, 184, 46]"

definition warn_close :: string where
  "warn_close = utf8 [208, 157, 208, 181, 32, 209, 131, 208, 180, 208, 176, 208, 187, 208, 190,
     209, 129, 209, 140, 32, 208, 183, 208, 176, 208, 186, 209, 128, 209, 139, 209, 130, 209,
     140, 32, 209, 132, 208, 176, 208, 185, 208, 187, 32, 208, 182, 209, 131, 209, 128, 208,
     189, 208, 176, 208, 187, 208, 176, 32, 209, 129, 208, 181, 209, 129, 209, 129, 208, 184,
     208, 184, 46]"

definition warn_sync_export :: string where
  "warn_sync_export = utf8 [208, 157, 208, 181, 32, 209, 131, 208, 180, 208, 176, 208, 187, 208,
     190, 209, 129, 209, 140, 32, 209, 129, 208, 184, 208, 189, 209, 133, 209, 128, 208, 190,
     208, 189, 208, 184, 208, 183, 208, 184, 209, 128, 208, 190, 208, 178, 208, 176, 209, 130,
     209, 140, 32, 209, 132, 208, 176, 208, 185, 208, 187, 32, 208, 182, 209, 131, 209, 128,
     208, 189, 208, 176, 208, 187, 208, 176, 32, 208, 191, 209, 128, 208, 184, 32, 209, 141,
     208, 186, 209, 129, 208, 191, 208, 190, 209, 128, 209, 130, 208, 181, 46]"

definition warn_read :: string where
  "warn_read = utf8 [208, 157, 208, 181, 32, 209, 131, 208, 180, 208, 176, 208, 187, 208, 190,
     209, 129, 209, 140, 32, 208, 191, 209, 128, 208, 190, 209, 135, 208, 184, 209, 130, 208,
     176, 209, 130, 209, 140, 32, 209, 132, 208, 176, 208, 185, 208, 187, 32, 208, 182, 209,
     131, 209, 128, 208, 189, 208, 176, 208, 187, 208, 176, 32, 209, 129, 208, 181, 209, 129,
     209, 129, 208, 184, 208, 184, 46]"

definition warn_empty :: string where
  "warn_empty = utf8 [208, 164, 208, 176, 208, 185, 208, 187, 32, 208, 182, 209, 131, 209, 128,
     208, 189, 208, 176, 208, 187, 208, 176, 32, 208, 191, 209, 131, 209, 129, 209, 130, 59, 32,
     208, 184, 209, 129, 208, 191, 208, 190, 208, 187, 209, 140, 208, 183, 208, 190, 208, 178,
     208, 176, 208, 189, 208, 176, 32, 208, 184, 209, 129, 209, 130, 208, 190, 209, 128, 208,
     184, 209, 143, 32, 209, 129, 208, 190, 208, 177, 209, 139, 209, 130, 208, 184, 208, 185,
     32, 208, 178, 32, 208, 191, 208, 176, 208, 188, 209, 143, 209, 130, 208, 184, 46]"

abbreviation sessionLogFileLimit :: nat where "sessionLogFileLimit \<equiv> 512 * 1024"
abbreviation sessionLogMemoryLimit :: nat where "sessionLogMemoryLimit \<equiv> 128 * 1024"
abbreviation sessionLogLineLimit :: nat where "sessionLogLineLimit \<equiv> 4096"
abbreviation sessionLogRetention :: nat where "sessionLogRetention \<equiv> 10"

text \<open>\<open>strings.NewReplacer\<close> with the pairs that the journal and the report use.\<close>

fun escape_lines :: "string \<Rightarrow> string" where
  "escape_lines [] = []"
| "escape_lines (c # s) =
     (if c = CHR 0x0D then [CHR 0x5C, CHR ''r''] else if c = CHR 0x0A then [CHR 0x5C, CHR ''n''] else [c])
     @ escape_lines s"

definition fence :: string where "fence = [CHR 0x60, CHR 0x60, CHR 0x60]"
definition open_fence :: string where "open_fence = [CHR 0x60, CHR '' '', CHR 0x60, CHR '' '', CHR 0x60]"

function replace_fences :: "(char \<Rightarrow> string) \<Rightarrow> string \<Rightarrow> string" where
  "replace_fences f s =
     (case s of [] \<Rightarrow> []
      | c # r \<Rightarrow> if has_prefix fence s then open_fence @ replace_fences f (drop 3 s)
                else f c @ replace_fences f r)"
  by pat_completeness auto
termination
  by (relation "measure (length \<circ> snd)") auto

declare replace_fences.simps [simp del]

text \<open>\<open>for i, r := range line\<close>: the width of the first rune and the length of \<open>string(r)\<close>.\<close>

definition rune_width :: "string \<Rightarrow> nat" where
  "rune_width s = (let w = utf8_len (map bval s) in if w = 0 then 1 else w)"

definition rune_size :: "string \<Rightarrow> nat" where
  "rune_size s = (let w = utf8_len (map bval s) in if w = 0 then 3 else w)"

function cut_at :: "nat \<Rightarrow> nat \<Rightarrow> string \<Rightarrow> nat option" where
  "cut_at limit acc s =
     (if s = [] then None
      else if acc + rune_size s > limit then Some 0
      else map_option (\<lambda>i. rune_width s + i) (cut_at limit (acc + rune_size s) (drop (rune_width s) s)))"
  by pat_completeness auto
termination
  by (relation "measure (\<lambda>(l, a, s). length s)") (auto simp: rune_width_def Let_def)

declare cut_at.simps [simp del]

section \<open>Lines\<close>

record log_env =
  leUpper :: "string \<Rightarrow> string"
  leSan :: "string \<Rightarrow> string"

definition boundedLogLine :: "log_env \<Rightarrow> string \<Rightarrow> string \<Rightarrow> string \<Rightarrow> string" where
  "boundedLogLine env clock level message =
     (let level = leUpper env (trim_space level);
          level = (if level = [] then ''INFO'' else level);
          message = escape_lines (leSan env message);
          line = ''['' @ clock @ ''] ['' @ level @ ''] '' @ message;
          line = (if length line > sessionLogLineLimit - 16 then
                    (case cut_at (sessionLogLineLimit - 16) 0 line of
                       Some i \<Rightarrow> take i line @ '' [truncated]''
                     | None \<Rightarrow> line)
                  else line)
      in line @ [CHR 0x0A])"

section \<open>The journal\<close>

text \<open>The file is present or not; \<open>lfDisk\<close> is what the file holds.\<close>

record log_file =
  lfFile :: bool
  lfDisk :: string
  lfSize :: nat
  lfLines :: nat
  lfRing :: "string list"
  lfRingBytes :: nat
  lfWarnings :: "string list"
  lfClosed :: bool
  lfTruncated :: bool
  lfDiskFault :: bool

definition new_log :: log_file where
  "new_log = \<lparr>lfFile = False, lfDisk = [], lfSize = 0, lfLines = 0, lfRing = [], lfRingBytes = 0,
     lfWarnings = [], lfClosed = False, lfTruncated = False, lfDiskFault = False\<rparr>"

definition warnLocked :: "string \<Rightarrow> log_file \<Rightarrow> log_file" where
  "warnLocked m lf = (if m \<in> set (lfWarnings lf) then lf else lf\<lparr>lfWarnings := lfWarnings lf @ [m]\<rparr>)"

definition disk_fault :: "string \<Rightarrow> log_file \<Rightarrow> log_file" where
  "disk_fault m lf = (warnLocked m lf)\<lparr>lfDiskFault := True\<rparr>"

text \<open>The directory, the creation of the file and the pruning may each fail.\<close>

definition OpenLogFile :: "bool \<Rightarrow> bool \<Rightarrow> bool \<Rightarrow> log_file" where
  "OpenLogFile mkdir_ok create_ok prune_ok =
     (if \<not> mkdir_ok then warnLocked warn_dir new_log
      else if \<not> create_ok then warnLocked warn_file new_log
      else let lf = new_log\<lparr>lfFile := True\<rparr> in if prune_ok then lf else warnLocked warn_prune lf)"

text \<open>The loop that drops the oldest lines of the ring.\<close>

fun trim_ring :: "nat \<Rightarrow> string list \<Rightarrow> nat \<times> string list" where
  "trim_ring n [] = (n, [])"
| "trim_ring n (l # r) =
     (if n > sessionLogMemoryLimit then trim_ring (n - length l) r else (n, l # r))"

datatype write_result = Wrote | Partial nat | WriteFailed nat string

definition ring_add :: "string \<Rightarrow> log_file \<Rightarrow> log_file" where
  "ring_add line lf =
     (let (n, r) = trim_ring (lfRingBytes lf + length line) (lfRing lf @ [line])
      in lf\<lparr>lfRing := r, lfRingBytes := n\<rparr>)"

text \<open>\<open>Write\<close> of a finished line; \<open>wr\<close> and \<open>sync_ok\<close> are the results of the file system.\<close>

definition write_line :: "write_result \<Rightarrow> bool \<Rightarrow> string \<Rightarrow> log_file \<Rightarrow> string option \<times> log_file" where
  "write_line wr sync_ok line lf =
     (let lf = ring_add line lf in
      if \<not> lfFile lf then (Some ''session log file unavailable'', lf)
      else if lfClosed lf then (Some ''session log file closed'', disk_fault warn_closed lf)
      else if lfTruncated lf then (None, lf)
      else if lfSize lf + length line > sessionLogFileLimit then
        (None, warnLocked warn_limit (lf\<lparr>lfTruncated := True\<rparr>))
      else case wr of
        Partial n \<Rightarrow>
          (Some (''short write: '' @ digits_nat n @ ''/'' @ digits_nat (length line)),
           disk_fault warn_write (lf\<lparr>lfDisk := lfDisk lf @ take n line\<rparr>))
      | WriteFailed n e \<Rightarrow> (Some e, disk_fault warn_write (lf\<lparr>lfDisk := lfDisk lf @ take n line\<rparr>))
      | Wrote \<Rightarrow>
          let lf = lf\<lparr>lfDisk := lfDisk lf @ line, lfSize := lfSize lf + length line,
                      lfLines := lfLines lf + 1\<rparr>
          in if lfLines lf mod 50 = 0 \<and> \<not> sync_ok then (Some ''sync'', disk_fault warn_sync lf)
             else (None, lf))"

definition log_Write ::
  "log_env \<Rightarrow> string \<Rightarrow> write_result \<Rightarrow> bool \<Rightarrow> string \<Rightarrow> string \<Rightarrow> log_file \<Rightarrow> string option \<times> log_file" where
  "log_Write env clock wr sync_ok level message lf =
     write_line wr sync_ok (boundedLogLine env clock level message) lf"

definition log_Close :: "bool \<Rightarrow> bool \<Rightarrow> log_file \<Rightarrow> log_file" where
  "log_Close sync_ok close_ok lf =
     (if lfClosed lf then lf
      else let lf = lf\<lparr>lfClosed := True\<rparr> in
        if \<not> lfFile lf then lf
        else let lf = (if sync_ok then lf else disk_fault warn_sync_end lf)
          in if close_ok then lf else disk_fault warn_close lf)"

record snapshot =
  snContent :: string
  snWarnings :: "string list"
  snFallback :: bool

definition Snapshot :: "log_env \<Rightarrow> bool \<Rightarrow> bool \<Rightarrow> log_file \<Rightarrow> snapshot \<times> log_file" where
  "Snapshot env sync_ok read_ok lf =
     (let lf = (if lfFile lf \<and> \<not> lfClosed lf \<and> \<not> sync_ok then disk_fault warn_sync_export lf else lf);
          use_file = (lfFile lf \<and> \<not> lfTruncated lf \<and> \<not> lfDiskFault lf)
      in if use_file \<and> read_ok \<and> lfDisk lf \<noteq> [] then
           (\<lparr>snContent = leSan env (lfDisk lf), snWarnings = lfWarnings lf, snFallback = False\<rparr>, lf)
         else
           let lf = (if use_file \<and> \<not> read_ok then warnLocked warn_read lf else lf);
               content = concat (lfRing lf);
               fallback = (content \<noteq> []);
               warnings = lfWarnings lf;
               warnings = (if fallback \<and> lfFile lf \<and> \<not> lfTruncated lf \<and> warnings = []
                           then [warn_empty] else warnings)
           in (\<lparr>snContent = content, snWarnings = warnings, snFallback = fallback\<rparr>, lf))"

definition log_Warning :: "log_file \<Rightarrow> string" where
  "log_Warning lf = join '' '' (lfWarnings lf)"

section \<open>Retention\<close>

record retained =
  rName :: string
  rTime :: nat

text \<open>Names are compared as numbers of their bytes; \<open>rm\<close> tells which removals succeed.\<close>

fun before_eq :: "nat list \<Rightarrow> nat list \<Rightarrow> bool" where
  "before_eq [] ys = True"
| "before_eq (x # xs) [] = False"
| "before_eq (x # xs) (y # ys) = (x < y \<or> x = y \<and> before_eq xs ys)"

definition retained_le :: "retained \<Rightarrow> retained \<Rightarrow> bool" where
  "retained_le a b \<longleftrightarrow>
     rTime a < rTime b \<or> rTime a = rTime b \<and> before_eq (map bval (rName a)) (map bval (rName b))"

fun retained_insert :: "retained \<Rightarrow> retained list \<Rightarrow> retained list" where
  "retained_insert x [] = [x]"
| "retained_insert x (y # ys) = (if retained_le x y then x # y # ys else y # retained_insert x ys)"

definition retained_sort :: "retained list \<Rightarrow> retained list" where
  "retained_sort ls = foldr retained_insert ls []"

text \<open>The removed names and whether a removal failed; \<open>excess\<close> is an integer as in the code.\<close>

fun prune_loop :: "(string \<Rightarrow> bool) \<Rightarrow> string \<Rightarrow> int \<Rightarrow> retained list \<Rightarrow> string list \<times> bool" where
  "prune_loop rm active excess [] = ([], False)"
| "prune_loop rm active excess (l # ls) =
     (if excess \<le> 0 then ([], False)
      else if rName l = active then prune_loop rm active excess ls
      else if \<not> rm (rName l) then
        (let (gone, err) = prune_loop rm active excess ls in (gone, True))
      else
        (let (gone, err) = prune_loop rm active (excess - 1) ls in (rName l # gone, err)))"

text \<open>An entry is a name, whether it is a regular file, and its time (missing when \<open>Info\<close> fails).\<close>

fun retained_logs :: "(string \<times> bool \<times> nat option) list \<Rightarrow> retained list option" where
  "retained_logs [] = Some []"
| "retained_logs ((name, regular, time) # es) =
     (if \<not> has_suffix ''.log'' name \<or> \<not> regular then retained_logs es
      else case time of
        None \<Rightarrow> None
      | Some t \<Rightarrow> map_option (Cons \<lparr>rName = name, rTime = t\<rparr>) (retained_logs es))"

definition pruneSessionLogs ::
  "(string \<Rightarrow> bool) \<Rightarrow> string \<Rightarrow> (string \<times> bool \<times> nat option) list option \<Rightarrow> string list \<times> bool" where
  "pruneSessionLogs rm active entries =
     (case entries of
        None \<Rightarrow> ([], True)
      | Some es \<Rightarrow>
          (case retained_logs es of
             None \<Rightarrow> ([], True)
           | Some logs \<Rightarrow>
               prune_loop rm active (int (length logs) - int sessionLogRetention) (retained_sort logs)))"

text \<open>The legacy reader takes the greatest name, compared byte by byte.\<close>

definition latest_log :: "(string \<times> bool) list \<Rightarrow> string" where
  "latest_log es =
     fold (\<lambda>(name, regular) latest.
       if regular \<and> has_suffix ''.log'' name \<and> \<not> before_eq (map bval name) (map bval latest)
       then name else latest) es []"

definition ReadLatestLogWithError ::
  "log_env \<Rightarrow> string + (string \<times> bool) list \<Rightarrow> (string \<Rightarrow> string + string) \<Rightarrow> string + string" where
  "ReadLatestLogWithError env entries read =
     (case entries of
        Inl e \<Rightarrow> Inl e
      | Inr es \<Rightarrow>
          if latest_log es = [] then Inr []
          else (case read (latest_log es) of Inl e \<Rightarrow> Inl e | Inr d \<Rightarrow> Inr (leSan env d)))"

section \<open>Lines are bounded\<close>

lemma rune_facts: "rune_width s \<le> rune_size s" "0 < rune_width s"
  by (auto simp: rune_width_def rune_size_def Let_def)

lemma cut_at_Some: "cut_at limit acc s = Some i \<Longrightarrow> acc \<le> limit \<Longrightarrow> acc + i \<le> limit"
proof (induction limit acc s arbitrary: i rule: cut_at.induct)
  case (1 limit acc s)
  show ?case
  proof (cases "s = [] \<or> acc + rune_size s > limit")
    case True
    then show ?thesis
      using 1(2,3) by (subst (asm) cut_at.simps) (auto split: if_splits)
  next
    case False
    then obtain j where j: "cut_at limit (acc + rune_size s) (drop (rune_width s) s) = Some j"
      "i = rune_width s + j"
      using 1(2) by (subst (asm) cut_at.simps) auto
    have "acc + rune_size s + j \<le> limit"
      using 1(1) [OF _ _ j(1)] False by simp
    then show ?thesis
      using j(2) rune_facts(1) [of s] by linarith
  qed
qed

lemma cut_at_None: "cut_at limit acc s = None \<Longrightarrow> acc \<le> limit \<Longrightarrow> acc + length s \<le> limit"
proof (induction limit acc s rule: cut_at.induct)
  case (1 limit acc s)
  show ?case
  proof (cases "s = []")
    case False
    then have n: "\<not> acc + rune_size s > limit"
      "cut_at limit (acc + rune_size s) (drop (rune_width s) s) = None"
      using 1(2) by (subst (asm) cut_at.simps; simp split: if_splits)+
    have "acc + rune_size s + length (drop (rune_width s) s) \<le> limit"
      using 1(1) [OF False n] n(1) by simp
    then show ?thesis
      using rune_facts(1) [of s] by simp
  qed (use 1(3) in simp)
qed

lemma boundedLogLine_length:
  "length (boundedLogLine env clock level message) \<le> 4093"
  "boundedLogLine env clock level message \<noteq> []"
proof -
  define cut where "cut line = (if length line > sessionLogLineLimit - 16
    then (case cut_at (sessionLogLineLimit - 16) 0 line of Some i \<Rightarrow> take i line @ '' [truncated]'' | None \<Rightarrow> line)
    else line)" for line
  have l: "length (cut line) \<le> 4092" for line
    using cut_at_Some [of "sessionLogLineLimit - 16" 0 line] cut_at_None [of "sessionLogLineLimit - 16" 0 line]
    by (auto simp: cut_def split: option.split)
  have "\<exists>line. boundedLogLine env clock level message = cut line @ [CHR 0x0A]"
    unfolding boundedLogLine_def Let_def cut_def by (rule exI) (rule refl)
  then obtain line where "boundedLogLine env clock level message = cut line @ [CHR 0x0A]"
    by blast
  then show "length (boundedLogLine env clock level message) \<le> 4093"
    using l [of line] by simp
  show "boundedLogLine env clock level message \<noteq> []"
    by (simp add: boundedLogLine_def Let_def)
qed

section \<open>Sequences of calls\<close>

datatype log_op =
    OpWrite string write_result bool string string
  | OpClose bool bool
  | OpSnapshot bool bool

fun log_step :: "log_env \<Rightarrow> log_op \<Rightarrow> log_file \<Rightarrow> log_file" where
  "log_step env (OpWrite clock wr ok level message) lf = snd (log_Write env clock wr ok level message lf)"
| "log_step env (OpClose s c) lf = log_Close s c lf"
| "log_step env (OpSnapshot s r) lf = snd (Snapshot env s r lf)"

fun log_lines :: "log_env \<Rightarrow> log_op list \<Rightarrow> string list" where
  "log_lines env [] = []"
| "log_lines env (OpWrite clock wr ok level message # ops) =
     boundedLogLine env clock level message # log_lines env ops"
| "log_lines env (op # ops) = log_lines env ops"

text \<open>
  What is always true of a journal after the lines \<open>hist\<close>: the memory holds the last lines, within its
  limit, and all of them if they fit; the counted file size is within its limit; a file that is
  neither truncated nor faulty holds every line.
\<close>

definition log_ok :: "string list \<Rightarrow> log_file \<Rightarrow> bool" where
  "log_ok hist lf \<longleftrightarrow>
     lfRingBytes lf = length (concat (lfRing lf)) \<and> lfRingBytes lf \<le> sessionLogMemoryLimit \<and>
     (\<exists>k. lfRing lf = drop k hist) \<and>
     (length (concat hist) \<le> sessionLogMemoryLimit \<longrightarrow> lfRing lf = hist) \<and>
     lfSize lf \<le> sessionLogFileLimit \<and>
     (lfFile lf \<and> \<not> lfTruncated lf \<and> \<not> lfDiskFault lf \<longrightarrow>
        lfDisk lf = concat hist \<and> lfSize lf = length (lfDisk lf))"

lemma warn_simps [simp]: "lfRing (warnLocked m lf) = lfRing lf" "lfRingBytes (warnLocked m lf) = lfRingBytes lf"
  "lfSize (warnLocked m lf) = lfSize lf" "lfDisk (warnLocked m lf) = lfDisk lf"
  "lfFile (warnLocked m lf) = lfFile lf" "lfTruncated (warnLocked m lf) = lfTruncated lf"
  "lfDiskFault (warnLocked m lf) = lfDiskFault lf" "lfClosed (warnLocked m lf) = lfClosed lf"
  by (simp_all add: warnLocked_def)

lemma fault_simps [simp]: "lfRing (disk_fault m lf) = lfRing lf" "lfRingBytes (disk_fault m lf) = lfRingBytes lf"
  "lfSize (disk_fault m lf) = lfSize lf" "lfFile (disk_fault m lf) = lfFile lf" "lfDiskFault (disk_fault m lf)"
  "lfDisk (disk_fault m lf) = lfDisk lf" "lfTruncated (disk_fault m lf) = lfTruncated lf"
  by (simp_all add: disk_fault_def)

lemma trim_ring_facts:
  "trim_ring n r = (n', r') \<Longrightarrow> n = length (concat r) \<Longrightarrow>
    n' = length (concat r') \<and> n' \<le> sessionLogMemoryLimit \<and> (\<exists>k. r' = drop k r) \<and>
    (n \<le> sessionLogMemoryLimit \<longrightarrow> r' = r)"
proof (induction n r rule: trim_ring.induct)
  case (2 n l r)
  show ?case
  proof (cases "n > sessionLogMemoryLimit")
    case True
    then have "n' = length (concat r') \<and> n' \<le> sessionLogMemoryLimit \<and> (\<exists>k. r' = drop k r)"
      using 2 by simp
    then show ?thesis
      using True by (metis drop_Suc_Cons not_less)
  qed (use 2 in \<open>auto intro: exI [of _ 0]\<close>)
qed auto

lemma ring_add_fields [simp]: "lfFile (ring_add l lf) = lfFile lf" "lfDisk (ring_add l lf) = lfDisk lf"
  "lfSize (ring_add l lf) = lfSize lf" "lfTruncated (ring_add l lf) = lfTruncated lf"
  "lfDiskFault (ring_add l lf) = lfDiskFault lf" "lfClosed (ring_add l lf) = lfClosed lf"
  by (simp_all add: ring_add_def split: prod.split)

text \<open>The part of the invariant that is about the memory.\<close>

definition ring_ok :: "string list \<Rightarrow> log_file \<Rightarrow> bool" where
  "ring_ok hist lf \<longleftrightarrow>
     lfRingBytes lf = length (concat (lfRing lf)) \<and> lfRingBytes lf \<le> sessionLogMemoryLimit \<and>
     (\<exists>k. lfRing lf = drop k hist) \<and>
     (length (concat hist) \<le> sessionLogMemoryLimit \<longrightarrow> lfRing lf = hist)"

definition disk_ok :: "string list \<Rightarrow> log_file \<Rightarrow> bool" where
  "disk_ok hist lf \<longleftrightarrow> lfSize lf \<le> sessionLogFileLimit \<and>
     (lfFile lf \<and> \<not> lfTruncated lf \<and> \<not> lfDiskFault lf \<longrightarrow>
        lfDisk lf = concat hist \<and> lfSize lf = length (lfDisk lf))"

lemma log_ok_parts: "log_ok hist lf \<longleftrightarrow> ring_ok hist lf \<and> disk_ok hist lf"
  by (auto simp: log_ok_def ring_ok_def disk_ok_def)

lemma ring_ok_add:
  assumes "ring_ok hist lf"
  shows "ring_ok (hist @ [l]) (ring_add l lf)"
proof -
  obtain n r where t: "trim_ring (lfRingBytes lf + length l) (lfRing lf @ [l]) = (n, r)"
    by fastforce
  have f: "n = length (concat r) \<and> n \<le> sessionLogMemoryLimit \<and> (\<exists>k. r = drop k (lfRing lf @ [l])) \<and>
      (lfRingBytes lf + length l \<le> sessionLogMemoryLimit \<longrightarrow> r = lfRing lf @ [l])"
    using assms by (intro trim_ring_facts [OF t]) (simp add: ring_ok_def)
  obtain k where k: "lfRing lf = drop k hist"
    using assms by (auto simp: ring_ok_def)
  define j where "j = min k (length hist)"
  have j: "lfRing lf @ [l] = drop j (hist @ [l])"
    using k by (simp add: j_def min_def)
  have "\<exists>k. r = drop k (hist @ [l])"
    using f unfolding j by (metis drop_drop)
  moreover have "r = hist @ [l]" if "length (concat (hist @ [l])) \<le> sessionLogMemoryLimit"
    using that f assms by (auto simp: ring_ok_def)
  ultimately show ?thesis
    using f t by (auto simp: ring_ok_def ring_add_def)
qed

lemma ring_ok_cong: "lfRing a = lfRing b \<Longrightarrow> lfRingBytes a = lfRingBytes b \<Longrightarrow> ring_ok h a = ring_ok h b"
  by (simp add: ring_ok_def)

lemma write_line_ring: "lfRing (snd (write_line wr s l lf)) = lfRing (ring_add l lf) \<and>
    lfRingBytes (snd (write_line wr s l lf)) = lfRingBytes (ring_add l lf)"
  by (auto simp: write_line_def Let_def split: write_result.split)

lemma write_line_disk: "disk_ok hist lf \<Longrightarrow> disk_ok (hist @ [l]) (snd (write_line wr s l lf))"
  by (auto simp: write_line_def disk_ok_def Let_def split: write_result.split)

lemma write_line_ok: "log_ok hist lf \<Longrightarrow> log_ok (hist @ [l]) (snd (write_line wr s l lf))"
  unfolding log_ok_parts
  using ring_ok_add write_line_disk ring_ok_cong write_line_ring by metis

lemma log_Close_ok: "log_ok hist lf \<Longrightarrow> log_ok hist (log_Close s c lf)"
  by (auto simp: log_Close_def log_ok_def Let_def)

lemma Snapshot_ok: "log_ok hist lf \<Longrightarrow> log_ok hist (snd (Snapshot env s r lf))"
  by (auto simp: Snapshot_def log_ok_def Let_def)

lemma log_run_ok: "log_ok hist lf \<Longrightarrow> log_ok (hist @ log_lines env ops) (fold (log_step env) ops lf)"
proof (induction ops arbitrary: hist lf)
  case (Cons op ops)
  show ?case
  proof (cases op)
    case (OpWrite c wr ok lv m)
    have "log_ok (hist @ [boundedLogLine env c lv m]) (log_step env op lf)"
      using Cons.prems write_line_ok by (simp add: OpWrite log_Write_def)
    from Cons.IH [OF this] show ?thesis
      by (simp add: OpWrite)
  next
    case (OpClose s c)
    then show ?thesis
      using Cons.IH [OF log_Close_ok [OF Cons.prems, of s c]] by simp
  next
    case (OpSnapshot s r)
    then show ?thesis
      using Cons.IH [OF Snapshot_ok [OF Cons.prems, of env s r]] by simp
  qed
qed simp

lemma OpenLogFile_ok: "log_ok [] (OpenLogFile a b c)"
  by (auto simp: OpenLogFile_def log_ok_def new_log_def Let_def)

section \<open>Retention of old journals\<close>

lemma retained_insert_mset: "mset (retained_insert x ys) = add_mset x (mset ys)"
  by (induction ys) auto

lemma retained_sort_mset [simp]: "mset (retained_sort ls) = mset ls"
  unfolding retained_sort_def by (induction ls) (simp_all add: retained_insert_mset)

lemma before_eq_total: "before_eq xs ys \<or> before_eq ys xs"
  by (induction xs ys rule: before_eq.induct) auto

lemma before_eq_trans: "before_eq xs ys \<Longrightarrow> before_eq ys zs \<Longrightarrow> before_eq xs zs"
proof (induction xs ys arbitrary: zs rule: before_eq.induct)
  case (3 x xs y ys)
  then show ?case
    by (cases zs) auto
qed (auto split: list.splits)

lemma retained_le_total: "\<not> retained_le a b \<Longrightarrow> retained_le b a"
  using before_eq_total by (auto simp: retained_le_def)

lemma retained_le_trans: "retained_le a b \<Longrightarrow> retained_le b c \<Longrightarrow> retained_le a c"
  using before_eq_trans by (auto simp: retained_le_def)

lemma retained_insert_sorted:
  "sorted_wrt retained_le ys \<Longrightarrow> sorted_wrt retained_le (retained_insert x ys)"
proof (induction ys)
  case (Cons y ys)
  have s: "set (retained_insert x ys) = insert x (set ys)"
    using retained_insert_mset [of x ys] by (metis set_mset_add_mset_insert set_mset_mset)
  show ?case
    using Cons retained_le_trans retained_le_total [of x y] by (auto simp: s)
qed simp

lemma retained_sort_sorted: "sorted_wrt retained_le (retained_sort ls)"
  unfolding retained_sort_def by (induction ls) (simp_all add: retained_insert_sorted)

lemma prune_loop_all:
  "(\<And>n. rm n) \<Longrightarrow> prune_loop rm active e ls =
     (take (nat e) (filter (\<lambda>n. n \<noteq> active) (map rName ls)), False)"
proof (induction ls arbitrary: e)
  case (Cons l ls)
  show ?case
  proof (cases "e \<le> 0")
    case False
    then have "nat e = Suc (nat (e - 1))"
      by simp
    then show ?thesis
      using Cons False by simp
  qed simp
qed simp

lemma prune_keeps_active: "active \<notin> set (fst (prune_loop rm active e ls))"
proof (induction ls arbitrary: e)
  case (Cons l ls)
  then show ?case
    using Cons.IH [of e] Cons.IH [of "e - 1"] by (simp split: prod.split) (auto simp: prod_eq_iff)
qed simp

text \<open>When every removal succeeds and the active journal is among them, the journals that are left are
  at most ten, the active one and the newest of the others.\<close>

lemma prune_leaves_ten:
  assumes logs: "retained_logs es = Some logs" and d: "distinct (map rName logs)"
    and a: "active \<in> set (map rName logs)" and rm: "\<And>n. rm n"
  shows "pruneSessionLogs rm active (Some es) =
      (take (length logs - sessionLogRetention)
         (filter (\<lambda>n. n \<noteq> active) (map rName (retained_sort logs))), False)"
    and "length logs - length (fst (pruneSessionLogs rm active (Some es))) = min (length logs) sessionLogRetention"
proof -
  show p: "pruneSessionLogs rm active (Some es) =
      (take (length logs - sessionLogRetention)
         (filter (\<lambda>n. n \<noteq> active) (map rName (retained_sort logs))), False)"
  proof -
    have "nat (int (length logs) - int sessionLogRetention) = length logs - sessionLogRetention"
      by arith
    then show ?thesis
      using prune_loop_all [where rm = rm, OF rm] logs by (simp add: pruneSessionLogs_def)
  qed
  have "mset (map rName (retained_sort logs)) = mset (map rName logs)"
    by simp
  then have d': "distinct (map rName (retained_sort logs))" "active \<in> set (map rName (retained_sort logs))"
    "length (map rName (retained_sort logs)) = length logs"
    using d a mset_eq_imp_distinct_iff mset_eq_setD mset_eq_length by (metis, metis, metis length_map)
  have "length (filter (\<lambda>n. n \<noteq> active) xs) = length xs - 1" if "distinct xs" "active \<in> set xs" for xs
  proof -
    have "filter (\<lambda>n. n \<noteq> active) xs = remove1 active xs"
      using that(1) by (simp add: distinct_remove1_removeAll removeAll_filter_not_eq) (metis)
    then show ?thesis
      using that(2) by (simp add: length_remove1)
  qed
  from this [OF d'(1,2)] show "length logs - length (fst (pruneSessionLogs rm active (Some es)))
      = min (length logs) sessionLogRetention"
    unfolding p using d'(3) by simp
qed

section \<open>The report\<close>

definition escape_char_lines :: "char \<Rightarrow> string" where
  "escape_char_lines c = escape_lines [c]"

text \<open>\<open>for i := range message\<close>: the first start of a rune at or after a position.\<close>

function rune_start_from :: "nat \<Rightarrow> nat \<Rightarrow> string \<Rightarrow> nat option" where
  "rune_start_from n i s =
     (if s = [] then None else if i \<ge> n then Some i
      else rune_start_from n (i + rune_width s) (drop (rune_width s) s))"
  by pat_completeness auto
termination
  by (relation "measure (\<lambda>(n, i, s). length s)") (auto simp: rune_width_def Let_def)

declare rune_start_from.simps [simp del]

definition boundedReportText :: "log_env \<Rightarrow> string \<Rightarrow> string" where
  "boundedReportText env message =
     (let message = replace_fences escape_char_lines (leSan env message) in
      if length message \<le> sessionLogLineLimit then message
      else (case rune_start_from (sessionLogLineLimit - 16) 0 message of
              Some i \<Rightarrow> take i message @ '' [truncated]''
            | None \<Rightarrow> message))"

record log_entry =
  enLevel :: string
  enMessage :: string
  enTime :: string
  enCount :: int

definition report_entry :: "log_env \<Rightarrow> log_entry \<Rightarrow> string" where
  "report_entry env e =
     (let level = leUpper env (trim_space (enLevel e));
          level = (if level = [] then ''INFO'' else level)
      in ''['' @ leSan env (enTime e) @ ''] ['' @ leSan env level @ ''] '' @ boundedReportText env (enMessage e)
         @ (if enCount e > 1 then '' (x'' @ fmt_int (enCount e) @ '')'' else []) @ [CHR 0x0A])"

definition report_ui :: "log_env \<Rightarrow> log_entry list \<Rightarrow> string" where
  "report_ui env entries =
     concat (map (report_entry env)
       (if length entries > 300 then drop (length entries - 300) entries else entries))"

abbreviation nl :: string where "nl \<equiv> [CHR 0x0A]"

text \<open>\<open>snap\<close> is the snapshot of the bridge, if there is a journal; \<open>device\<close> the system lines.\<close>

definition GenerateReport :: "log_env \<Rightarrow> string \<Rightarrow> string \<Rightarrow> snapshot option \<Rightarrow> log_entry list \<Rightarrow> string" where
  "GenerateReport env device privilege snap entries =
     (let ui = report_ui env entries;
          sn = (case snap of Some s \<Rightarrow> s | None \<Rightarrow> \<lparr>snContent = [], snWarnings = [], snFallback = False\<rparr>);
          content = replace_fences (\<lambda>c. [c]) (leSan env (snContent sn));
          from_ui = (content = [] \<and> ui \<noteq> []);
          content' = (if from_ui then ui else content)
      in ''=== PWDTT Bug Report ==='' @ nl @ nl @ ''## Device'' @ nl @ device
         @ (if privilege \<noteq> [] then ''- '' @ leSan env privilege @ nl else []) @ nl
         @ (if ui \<noteq> [] then ''## UI and structured diagnostics'' @ nl @ fence @ nl @ ui @ fence @ nl @ nl else [])
         @ ''## Session log file'' @ nl
         @ (if snap = None then ''Warning: session journal unavailable.'' @ nl else [])
         @ concat (map (\<lambda>w. ''Warning: '' @ boundedReportText env w @ nl) (snWarnings sn))
         @ (if from_ui then ''Warning: using bounded UI history as session-log fallback.'' @ nl
            else if snFallback sn then ''Warning: using bounded in-memory session history.'' @ nl else [])
         @ (if content' = [] then ''(no session events)'' @ nl
            else fence @ nl @ content' @ (if has_suffix nl content' then [] else nl) @ fence @ nl))"

lemma rune_start_bound: "rune_start_from n i s = Some j \<Longrightarrow> i \<le> n + 3 \<Longrightarrow> j \<le> n + 3"
proof (induction n i s rule: rune_start_from.induct)
  case (1 n i s)
  have "utf8_len xs \<le> 4" for xs
    by (cases xs) (auto split: list.splits)
  then have w: "rune_width s \<le> 4"
    by (simp add: rune_width_def Let_def)
  show ?case
    using 1 w by (subst (asm) (2) rune_start_from.simps) (auto split: if_splits)
qed

section \<open>Diagnostic events\<close>

record diagnostic =
  dgTimestamp :: int
  dgLevel :: string
  dgSubsystem :: string
  dgOperationID :: string
  dgHashID :: string
  dgServer :: string
  dgStage :: string
  dgAction :: string
  dgResult :: string
  dgMessage :: string

text \<open>The event that is handed to the user interface, if any.\<close>

definition emit_diagnostic :: "log_env \<Rightarrow> bool \<Rightarrow> int \<Rightarrow> diagnostic \<Rightarrow> diagnostic option" where
  "emit_diagnostic env debug now e =
     (if \<not> debug then None
      else Some (e\<lparr>dgTimestamp := (if dgTimestamp e = 0 then now else dgTimestamp e),
         dgLevel := (if trim_space (dgLevel e) = [] then ''DEBUG'' else dgLevel e),
         dgServer := (if dgServer e \<noteq> [] then ''[redacted]'' else []),
         dgHashID := (if dgHashID e \<noteq> [] then ''[redacted]'' else []),
         dgMessage := leSan env (dgMessage e), dgOperationID := leSan env (dgOperationID e),
         dgStage := leSan env (dgStage e), dgAction := leSan env (dgAction e),
         dgResult := leSan env (dgResult e)\<rparr>))"

definition newOperationID :: "string \<Rightarrow> string \<Rightarrow> string" where
  "newOperationID uuid prefix =
     (let prefix = trim_space prefix; prefix = (if prefix = [] then ''op'' else prefix);
          i = filter (\<lambda>c. c \<noteq> CHR ''-'') uuid
      in prefix @ ''-'' @ (if length i > 10 then take 10 i else i))"

lemma boundedReportText_length: "length (boundedReportText env m) \<le> sessionLogLineLimit"
proof -
  define s where "s = replace_fences escape_char_lines (leSan env m)"
  have n: "rune_start_from n i x = None \<Longrightarrow> i \<le> n + 3 \<Longrightarrow> i + length x \<le> n + 3" for n i x
  proof (induction n i x rule: rune_start_from.induct)
    case (1 n i x)
    show ?case
    proof (cases "x = []")
      case False
      then have r: "\<not> i \<ge> n" "rune_start_from n (i + rune_width x) (drop (rune_width x) x) = None"
        using 1(2) by (subst (asm) rune_start_from.simps; simp split: if_splits)+
      have "utf8_len xs \<le> 4" for xs
        by (cases xs) (auto split: list.splits)
      then have w: "rune_width x \<le> 4"
        by (simp add: rune_width_def Let_def)
      have "i + rune_width x + length (drop (rune_width x) x) \<le> n + 3"
        using 1(1) [OF False r] r(1) w by simp
      then show ?thesis
        by simp
    qed (use 1(3) in simp)
  qed
  show ?thesis
    using rune_start_bound [of "sessionLogLineLimit - 16" 0 s] n [of "sessionLogLineLimit - 16" 0 s]
    by (auto simp: boundedReportText_def Let_def s_def [symmetric] split: option.split)
qed

section \<open>Properties\<close>

text \<open>Property C39 (invariant). Whatever is written, closed and exported, and whatever the file system
  answers, the journal stays within its bounds and loses nothing silently: the memory holds the last
  lines within 128 KiB and all of them while they fit, the counted file size stays within 512 KiB, and
  a file that is neither truncated nor faulty holds every line.\<close>

theorem journal_invariant:
  "log_ok (log_lines env ops) (fold (log_step env) ops (OpenLogFile mkdir_ok create_ok prune_ok))"
  using log_run_ok [OF OpenLogFile_ok, of env ops] by simp

text \<open>Pruning never removes the active journal; when the removals succeed, it
  removes exactly the oldest of the other journals, so that at most ten are left.\<close>

theorem pruning_keeps_the_newest:
  "retained_logs es = Some logs \<Longrightarrow> distinct (map rName logs) \<Longrightarrow> active \<in> set (map rName logs) \<Longrightarrow>
     fst (pruneSessionLogs (\<lambda>n. True) active (Some es)) =
       take (length logs - 10) (filter (\<lambda>n. n \<noteq> active) (map rName (retained_sort logs))) \<and>
     sorted_wrt retained_le (retained_sort logs) \<and>
     length logs - length (fst (pruneSessionLogs (\<lambda>n. True) active (Some es))) = min (length logs) 10 \<and>
     active \<notin> set (fst (pruneSessionLogs rm active entries))"
proof -
  assume a: "retained_logs es = Some logs" "distinct (map rName logs)" "active \<in> set (map rName logs)"
  have "active \<notin> set (fst (pruneSessionLogs rm active entries))"
    using prune_keeps_active by (simp add: pruneSessionLogs_def split: option.split)
  then show ?thesis
    using prune_leaves_ten [where rm = "\<lambda>n. True", OF a] retained_sort_sorted by simp
qed

definition twelve_logs :: "(string \<times> bool \<times> nat option) list" where
  "twelve_logs = map (\<lambda>i. (''session-'' @ digits_nat i @ ''.log'', True, Some (50 - i))) [1..<13]"

theorem pruning_keeps_the_newest_witness:
  "\<exists>logs :: retained list. length logs = 12 \<and> length logs - length (fst (pruneSessionLogs (\<lambda>n. True) ''session-12.log''
     (Some twelve_logs))) = min (length logs) 10"
proof -
  let ?logs = "map (\<lambda>i. \<lparr>rName = ''session-'' @ digits_nat i @ ''.log'', rTime = 50 - i\<rparr>) [1..<13]"
  have s: "has_suffix ''.log'' (''session-'' @ digits_nat i @ ''.log'')" for i
    using has_suffix_iff [of "''.log''" "(''session-'' @ digits_nat i) @ ''.log''"] by simp
  have r: "retained_logs (map (\<lambda>i. (''session-'' @ digits_nat i @ ''.log'', True, Some (50 - i))) is)
      = Some (map (\<lambda>i. \<lparr>rName = ''session-'' @ digits_nat i @ ''.log'', rTime = 50 - i\<rparr>) is)" for "is"
    using s by (induction "is") auto
  have i: "inj digits_nat"
    by (rule inj_on_inverseI [of _ digits_value]) simp
  then have d: "distinct (map rName ?logs)"
    by (auto simp: distinct_map comp_def intro!: inj_onI dest: injD)
  have a: "''session-12.log'' \<in> set (map rName ?logs)"
  proof -
    have "''session-12.log'' = ''session-'' @ digits_nat 12 @ ''.log''"
      by code_simp
    then show ?thesis
      by (auto simp: image_iff intro!: bexI [of _ 12])
  qed
  note p = pruning_keeps_the_newest [where rm = "\<lambda>n. True" and entries = None, OF r d a]
  have "length ?logs = 12"
    by simp
  then show ?thesis
    unfolding twelve_logs_def using p by blast
qed

end
