(* ===== verification/HashProbe.thy ===== *)
theory HashProbe
  imports CoreMain Session ErrorPolicy
begin

text \<open>
  The functional probe of one hash (\<open>core/hash_probe.go\<close>): the verdicts and their classification, the
  progress a caller sees, and the run of \<open>ProbeHash\<close> as the sequence of its actions. The goroutine of
  a session, the ticker and the context are the events of the waiting loop; the session itself is
  \<open>RunSession\<close>, the resolver and the key derivation those of the core. The credentials are an argument.
\<close>

section \<open>Texts\<close>

definition msg_probe_dns_error :: string where
  "msg_probe_dns_error = utf8 [208, 144, 208, 180, 209, 128, 208, 181, 209, 129, 32, 209, 129,
     208, 181, 209, 128, 208, 178, 208, 181, 209, 128, 208, 176, 32, 208, 189, 208, 181, 32,
     209, 128, 208, 176, 208, 183, 209, 128, 208, 181, 209, 136, 209, 145, 208, 189]"

definition msg_creds_got :: string where
  "msg_creds_got = utf8 [86, 75, 45, 208, 186, 209, 128, 208, 181, 208, 180, 209, 139, 32,
     208, 191, 208, 190, 208, 187, 209, 131, 209, 135, 208, 181, 208, 189, 209, 139]"

definition msg_no_endpoints :: string where
  "msg_no_endpoints = utf8 [86, 75, 32, 208, 189, 208, 181, 32, 208, 178, 208, 181, 209, 128,
     208, 189, 209, 131, 208, 187, 32, 84, 85, 82, 78, 32, 101, 110, 100, 112, 111, 105, 110,
     116, 115]"

definition msg_endpoint :: string where
  "msg_endpoint = utf8 [208, 159, 209, 128, 208, 190, 208, 178, 208, 181, 209, 128, 208, 186,
     208, 176, 32, 84, 85, 82, 78, 32, 101, 110, 100, 112, 111, 105, 110, 116]"

definition msg_probe_ok :: string where
  "msg_probe_ok = utf8 [86, 75, 45, 209, 133, 208, 181, 209, 136, 32, 208, 191, 209, 128, 208,
     190, 209, 136, 209, 145, 208, 187, 32, 102, 117, 110, 99, 116, 105, 111, 110, 97, 108,
     32, 112, 114, 111, 98, 101]"

section \<open>Verdicts\<close>

datatype probe_status = HashProbeValid | HashProbeInvalid | HashProbeError

datatype probe_error =
    NoProbeError | HashProbeErrorInvalidHash | HashProbeErrorNetwork | HashProbeErrorVK
  | HashProbeErrorTURN | HashProbeErrorDTLS | HashProbeErrorWRAP | HashProbeErrorCanceled
  | HashProbeErrorSetup | HashProbeErrorTimeout

fun probe_error_name :: "probe_error \<Rightarrow> string" where
  "probe_error_name NoProbeError = []"
| "probe_error_name HashProbeErrorInvalidHash = ''invalid_hash''"
| "probe_error_name HashProbeErrorNetwork = ''network''"
| "probe_error_name HashProbeErrorVK = ''vk''"
| "probe_error_name HashProbeErrorTURN = ''turn''"
| "probe_error_name HashProbeErrorDTLS = ''dtls''"
| "probe_error_name HashProbeErrorWRAP = ''wrap''"
| "probe_error_name HashProbeErrorCanceled = ''canceled''"
| "probe_error_name HashProbeErrorSetup = ''setup''"
| "probe_error_name HashProbeErrorTimeout = ''timeout''"

record probe_progress =
  ppStage :: string
  ppState :: string
  ppMessage :: string
  ppElapsed :: int
  ppAttempt :: int

record probe_config =
  pcPeerAddr :: string
  pcPassword :: string
  pcHash :: string
  pcDeviceID :: string
  pcTurnHost :: string
  pcTurnPort :: string
  pcObfsMode :: string
  pcOnProgress :: bool

record probe_result =
  prStatus :: probe_status
  prError :: probe_error
  prMessage :: string
  prLatency :: int

text \<open>Of a time since the start in milliseconds; what is reported is never below one.\<close>

definition elapsedMilliseconds :: "int \<Rightarrow> int" where
  "elapsedMilliseconds ms = (if ms < 1 then 1 else ms)"

definition hashProbeErrorResult :: "probe_error \<Rightarrow> string \<Rightarrow> int \<Rightarrow> probe_result" where
  "hashProbeErrorResult k message ms =
     \<lparr>prStatus = HashProbeError, prError = k, prMessage = message, prLatency = elapsedMilliseconds ms\<rparr>"

definition classifyHashProbeContextError :: "goerr \<Rightarrow> int \<Rightarrow> probe_result" where
  "classifyHashProbeContextError err ms =
     (if is_canceled err then hashProbeErrorResult HashProbeErrorCanceled ''VK hash check was canceled'' ms
      else if is_deadline err then hashProbeErrorResult HashProbeErrorTimeout ''VK hash check timed out'' ms
      else hashProbeErrorResult HashProbeErrorNetwork ''VK hash check failed'' ms)"

definition classifyHashProbeCredentialError :: "goerr \<Rightarrow> int \<Rightarrow> probe_result" where
  "classifyHashProbeCredentialError err ms =
     (if errors_as as_call err \<noteq> None then
        \<lparr>prStatus = HashProbeInvalid, prError = HashProbeErrorInvalidHash,
         prMessage = ''VK call is unavailable'', prLatency = elapsedMilliseconds ms\<rparr>
      else if is_canceled err \<or> is_deadline err then classifyHashProbeContextError err ms
      else if isDNSFailure err then
        hashProbeErrorResult HashProbeErrorNetwork ''DNS/network unavailable'' ms
      else (let lower = to_lower (error_text err)
            in if contains ''captcha'' lower \<or> contains ''vk api'' lower \<or> contains ''vkcalls'' lower
               then hashProbeErrorResult HashProbeErrorVK ''VK credential probe failed'' ms
               else hashProbeErrorResult HashProbeErrorNetwork ''VK credential request failed'' ms))"

text \<open>\<open>SessionError\<close> unwraps to its cause, so both questions for a cancellation look at the cause.\<close>

definition classifyHashProbeSessionError :: "session_error option \<Rightarrow> int \<Rightarrow> probe_result" where
  "classifyHashProbeSessionError err ms =
     (case err of
        None \<Rightarrow> hashProbeErrorResult HashProbeErrorTURN
                  ''TURN/DTLS probe ended before a session became active'' ms
      | Some e \<Rightarrow>
          if (case se_err e of Some cause \<Rightarrow> is_canceled cause | None \<Rightarrow> False)
          then classifyHashProbeContextError Canceled ms
          else case se_type e of
            SessionErrorWrapTimeout \<Rightarrow>
              hashProbeErrorResult HashProbeErrorWRAP ''WRAP/DTLS handshake timed out'' ms
          | SessionErrorAddressDead \<Rightarrow>
              if contains ''dtls'' (to_lower (session_error_text e))
              then hashProbeErrorResult HashProbeErrorDTLS ''DTLS session could not be established'' ms
              else hashProbeErrorResult HashProbeErrorTURN ''TURN endpoint is unavailable'' ms
          | SessionErrorFatal \<Rightarrow> hashProbeErrorResult HashProbeErrorDTLS ''probe session failed'' ms)"

definition probe_result_Error :: "probe_result \<Rightarrow> goerr option" where
  "probe_result_Error r =
     (if prStatus r \<noteq> HashProbeError \<and> prStatus r \<noteq> HashProbeInvalid then None
      else Some (Plain (probe_error_name (prError r) @ '': '' @ prMessage r)))"

section \<open>The run\<close>

text \<open>
  The actions a run performs. \<open>Launch\<close> starts the session goroutine with its number and address,
  \<open>CancelSession\<close> and \<open>CancelProbe\<close> are the cancel functions of the two contexts.
\<close>

datatype probe_action =
    Show probe_progress | CancelLookup | OpenSocket | HookClose | MakeDispatcher | Launch int string
  | StopTicker | CancelSession | CancelProbe | StopHook | CloseSocket | ShutDispatcher

text \<open>
  What the waiting loop receives: a tick that finds a connection active or not, the end of the session
  (with the results of its network calls, and whether a connection is active at that moment), the end
  of the context. \<open>Traced\<close> is a call of \<open>Trace\<close> by the session goroutine meanwhile.
\<close>

datatype probe_event =
    Ticked bool | Finished session_net bool | ContextDone goerr
  | Traced string string string int

text \<open>
  \<open>peSince n\<close> is the time since the start, in milliseconds, when \<open>n\<close> actions were done; \<open>peCtx i\<close> the
  error of the context before the endpoint of index \<open>i\<close>, \<open>peEvents i\<close> the events while it waits there.
\<close>

record probe_env =
  peResolver :: resolver
  peHkdf :: "string \<Rightarrow> string \<Rightarrow> string \<Rightarrow> nat \<Rightarrow> byte list option"
  peCreds :: "goerr + string \<times> string \<times> string list"
  peListen :: "goerr + string"
  peSince :: "nat \<Rightarrow> int"
  peCtx :: "nat \<Rightarrow> goerr option"
  peEvents :: "nat \<Rightarrow> probe_event list"

datatype probe_end = Verdict probe_result | StillWaiting

datatype wait_end = WaitReturns probe_result | WaitLeaves "session_error option" | WaitGoesOn

definition now_ms :: "probe_env \<Rightarrow> probe_action list \<Rightarrow> int" where
  "now_ms env tr = peSince env (length tr)"

definition emitHashProbeProgress ::
  "probe_env \<Rightarrow> probe_config \<Rightarrow> string \<Rightarrow> string \<Rightarrow> string \<Rightarrow> int \<Rightarrow> probe_action list \<Rightarrow> probe_action list" where
  "emitHashProbeProgress env cfg stage state message attempt tr =
     (if \<not> pcOnProgress cfg then tr
      else tr @ [Show \<lparr>ppStage = stage, ppState = state, ppMessage = message,
                       ppElapsed = elapsedMilliseconds (now_ms env tr), ppAttempt = attempt\<rparr>])"

text \<open>The \<open>Trace\<close> callback of the parameters; the duration is in nanoseconds.\<close>

definition trace_progress ::
  "probe_env \<Rightarrow> probe_config \<Rightarrow> string \<Rightarrow> string \<Rightarrow> string \<Rightarrow> int \<Rightarrow> probe_action list \<Rightarrow> probe_action list" where
  "trace_progress env cfg stage state message duration tr =
     emitHashProbeProgress env cfg stage state
       (if duration > 0 then message @ '' ('' @ fmt_int (duration div 1000000) @ '' ms)'' else message) 0 tr"

text \<open>
  The waiting loop of one endpoint. The \<open>break\<close> after a dead address leaves the \<open>select\<close> and with it
  only this round of the loop; the ticker is stopped then and the channel of the session is drained
  (\<open>ended\<close>), so neither can fire again.
\<close>

fun probe_wait ::
  "probe_env \<Rightarrow> probe_config \<Rightarrow> (session_net \<Rightarrow> session_error option) \<Rightarrow> int \<Rightarrow> bool \<Rightarrow>
   probe_event list \<Rightarrow> probe_action list \<Rightarrow> probe_action list \<times> wait_end" where
  "probe_wait env cfg session attempt ended [] tr = (tr, WaitGoesOn)"
| "probe_wait env cfg session attempt ended (Traced stage state message d # evs) tr =
     probe_wait env cfg session attempt ended evs (trace_progress env cfg stage state message d tr)"
| "probe_wait env cfg session attempt ended (Ticked active # evs) tr =
     (if \<not> ended \<and> active then
        let tr = emitHashProbeProgress env cfg ''completed'' ''success'' msg_probe_ok attempt
              (tr @ [StopTicker, CancelSession, CancelProbe])
        in (tr, WaitReturns \<lparr>prStatus = HashProbeValid, prError = NoProbeError,
               prMessage = ''VK hash completed VK/TURN/WRAP/DTLS probe'',
               prLatency = elapsedMilliseconds (now_ms env tr)\<rparr>)
      else probe_wait env cfg session attempt ended evs tr)"
| "probe_wait env cfg session attempt ended (Finished net active # evs) tr =
     (if ended then probe_wait env cfg session attempt ended evs tr
      else let tr = tr @ [StopTicker, CancelSession]
           in if active then
                let tr = emitHashProbeProgress env cfg ''completed'' ''success'' msg_probe_ok attempt
                      (tr @ [CancelProbe])
                in (tr, WaitReturns \<lparr>prStatus = HashProbeValid, prError = NoProbeError,
                       prMessage = ''VK hash completed VK/TURN/WRAP/DTLS probe'',
                       prLatency = elapsedMilliseconds (now_ms env tr)\<rparr>)
              else case session net of
                Some e \<Rightarrow>
                  if se_type e = SessionErrorAddressDead
                  then probe_wait env cfg session attempt True evs tr
                  else (tr, WaitReturns (classifyHashProbeSessionError (Some e) (now_ms env tr)))
              | None \<Rightarrow> (tr, WaitReturns (classifyHashProbeSessionError None (now_ms env tr))))"
| "probe_wait env cfg session attempt ended (ContextDone err # evs) tr =
     (let tr = tr @ [StopTicker, CancelSession]
      in (tr, WaitReturns (classifyHashProbeContextError err (now_ms env tr))))"

text \<open>The loop over the endpoints; \<open>last_err\<close> is \<open>lastSessionErr\<close>.\<close>

fun probe_endpoints ::
  "probe_env \<Rightarrow> probe_config \<Rightarrow> (string \<Rightarrow> session_net \<Rightarrow> session_error option) \<Rightarrow> nat \<Rightarrow> string list \<Rightarrow>
   session_error option \<Rightarrow> probe_action list \<Rightarrow> probe_action list \<times> probe_end" where
  "probe_endpoints env cfg session i [] last_err tr =
     (tr, Verdict (classifyHashProbeSessionError last_err (now_ms env tr)))"
| "probe_endpoints env cfg session i (url # urls) last_err tr =
     (case peCtx env i of
        Some err \<Rightarrow> (tr, Verdict (classifyHashProbeContextError err (now_ms env tr)))
      | None \<Rightarrow>
          (let tr = emitHashProbeProgress env cfg ''turn'' ''running'' msg_endpoint (int i + 1) tr;
               tr = tr @ [Launch (910000 + int i) url]
           in case probe_wait env cfg (session url) (int i + 1) False (peEvents env i) tr of
                (tr, WaitReturns r) \<Rightarrow> (tr, Verdict r)
              | (tr, WaitGoesOn) \<Rightarrow> (tr, StillWaiting)
              | (tr, WaitLeaves e) \<Rightarrow> probe_endpoints env cfg session (i + 1) urls e tr))"

text \<open>What the deferred calls do when \<open>ProbeHash\<close> returns, with or without an open socket.\<close>

definition probe_deferred :: "bool \<Rightarrow> probe_action list \<times> probe_end \<Rightarrow> probe_action list \<times> probe_end" where
  "probe_deferred socket res =
     (case res of
        (tr, StillWaiting) \<Rightarrow> (tr, StillWaiting)
      | (tr, Verdict r) \<Rightarrow>
          (tr @ (if socket then [CancelProbe, StopHook, CloseSocket, ShutDispatcher] else [])
              @ [CancelProbe], Verdict r))"

definition probe_params :: "probe_config \<Rightarrow> byte list \<Rightarrow> turn_params" where
  "probe_params cfg key =
     (let obfsMode = trim_space (pcObfsMode cfg)
      in \<lparr>tp_Host = pcTurnHost cfg, tp_Port = pcTurnPort cfg, tp_Hashes = [pcHash cfg],
          tp_WrapKey = key, tp_ObfsMode = (if obfsMode = [] then ''audio'' else obfsMode)\<rparr>)"

definition probe_device :: "probe_config \<Rightarrow> string" where
  "probe_device cfg =
     (let deviceID = trim_space (pcDeviceID cfg)
      in if deviceID = [] then ''hash-probe'' else deviceID)"

text \<open>The session the goroutine of an endpoint runs, as its error.\<close>

definition probe_session ::
  "probe_config \<Rightarrow> byte list \<Rightarrow> string \<Rightarrow> string \<Rightarrow> session_net \<Rightarrow> session_error option" where
  "probe_session cfg key localPort url net =
     snd (fst (snd (RunSession (probe_params cfg key) False None localPort url (probe_device cfg)
       (pcPassword cfg) net)))"

text \<open>From the open socket on, and before it.\<close>

definition probe_sessions ::
  "probe_env \<Rightarrow> probe_config \<Rightarrow> byte list \<Rightarrow> string list \<Rightarrow> string \<Rightarrow> probe_action list \<Rightarrow>
   probe_action list \<times> probe_end" where
  "probe_sessions env cfg key turnURLs local tr =
     probe_deferred True
       (let tr = tr @ [OpenSocket, HookClose, MakeDispatcher];
            no_port = (tr, Verdict (hashProbeErrorResult HashProbeErrorSetup
                        ''probe UDP port could not be determined'' (now_ms env tr)))
        in case SplitHostPort local of
             Inl e \<Rightarrow> no_port
           | Inr (host, localPort) \<Rightarrow>
               if localPort = [] then no_port
               else probe_endpoints env cfg (probe_session cfg key localPort) 0 turnURLs None tr)"

definition probe_credentials ::
  "probe_env \<Rightarrow> probe_config \<Rightarrow> byte list \<Rightarrow> probe_action list \<Rightarrow> probe_action list \<times> probe_end" where
  "probe_credentials env cfg key tr =
     (let tr = emitHashProbeProgress env cfg ''credentials'' ''running'' msg_getting_creds 0 tr
      in case peCreds env of
           Inl err \<Rightarrow>
             (let r = classifyHashProbeCredentialError err (now_ms env tr);
                  tr = emitHashProbeProgress env cfg ''credentials'' ''error'' (prMessage r) 0 tr
              in probe_deferred False (tr, Verdict r))
         | Inr (turnUser, turnPass, turnURLs) \<Rightarrow>
             if turnURLs = [] then
               (let tr = emitHashProbeProgress env cfg ''credentials'' ''error'' msg_no_endpoints 0 tr
                in probe_deferred False (tr, Verdict (hashProbeErrorResult HashProbeErrorVK
                     ''VK returned no TURN endpoints'' (now_ms env tr))))
             else
               (let tr = emitHashProbeProgress env cfg ''credentials'' ''success'' msg_creds_got 0 tr
                in case peListen env of
                     Inl e \<Rightarrow> probe_deferred False (tr, Verdict (hashProbeErrorResult HashProbeErrorSetup
                                ''probe UDP socket could not be opened'' (now_ms env tr)))
                   | Inr local \<Rightarrow> probe_sessions env cfg key turnURLs local tr))"

definition ProbeHash :: "probe_env \<Rightarrow> probe_config \<Rightarrow> probe_action list \<times> probe_end" where
  "ProbeHash env cfg =
     (let setup_error = (\<lambda>message tr. probe_deferred False
            (tr, Verdict (hashProbeErrorResult HashProbeErrorSetup message (now_ms env tr))))
      in if trim_space (pcHash cfg) = [] then setup_error ''VK hash is empty'' []
         else if trim_space (pcPeerAddr cfg) = [] then setup_error ''peer address is empty'' []
         else if trim_space (pcPassword cfg) = [] then setup_error ''server password is empty'' []
         else
           (let tr = emitHashProbeProgress env cfg ''dns'' ''running'' msg_resolving 0 [];
                tr = tr @ [CancelLookup]
            in case resolvePeerUDPAddr (peResolver env) (pcPeerAddr cfg) of
                 Inl err \<Rightarrow>
                   (let tr = emitHashProbeProgress env cfg ''dns'' ''error'' msg_probe_dns_error 0 tr
                    in probe_deferred False (tr, Verdict (hashProbeErrorResult HashProbeErrorNetwork
                         ''server address could not be resolved'' (now_ms env tr))))
               | Inr peer \<Rightarrow>
                   (let tr = emitHashProbeProgress env cfg ''dns'' ''success'' msg_resolved 0 tr
                    in case deriveWrapKey (peHkdf env) (pcPassword cfg) of
                         Inl e \<Rightarrow> setup_error ''WRAP key could not be derived'' tr
                       | Inr key \<Rightarrow> probe_credentials env cfg key tr)))"

section \<open>Properties\<close>

definition saw_active :: "probe_event list \<Rightarrow> bool" where
  "saw_active evs \<longleftrightarrow> Ticked True \<in> set evs \<or> (\<exists>ev \<in> set evs. case ev of Finished net a \<Rightarrow> a | _ \<Rightarrow> False)"

definition launched :: "probe_action list \<Rightarrow> string list" where
  "launched tr = List.map_filter (\<lambda>a. case a of Launch i url \<Rightarrow> Some url | _ \<Rightarrow> None) tr"

lemma launched_simps [simp]:
  "launched [] = []"
  "launched (tr @ tr') = launched tr @ launched tr'"
  "launched (a # tr) = (case a of Launch i url \<Rightarrow> [url] | _ \<Rightarrow> []) @ launched tr"
  by (simp_all add: launched_def List.map_filter_def split: probe_action.split)

lemma emit_launched [simp]:
  "launched (emitHashProbeProgress env cfg stage state message attempt tr) = launched tr"
  by (simp add: emitHashProbeProgress_def)

lemma trace_launched [simp]:
  "launched (trace_progress env cfg stage state message d tr) = launched tr"
  by (simp add: trace_progress_def)

definition verdict_ok :: "probe_result \<Rightarrow> bool" where
  "verdict_ok r \<longleftrightarrow>
     1 \<le> prLatency r \<and> (prError r = NoProbeError) = (prStatus r = HashProbeValid) \<and>
     (prError r = HashProbeErrorInvalidHash) = (prStatus r = HashProbeInvalid)"

lemma elapsed_pos [simp]: "1 \<le> elapsedMilliseconds ms"
  by (simp add: elapsedMilliseconds_def)

lemma error_result_ok:
  "k \<noteq> NoProbeError \<Longrightarrow> k \<noteq> HashProbeErrorInvalidHash \<Longrightarrow>
     verdict_ok (hashProbeErrorResult k m ms) \<and> prStatus (hashProbeErrorResult k m ms) = HashProbeError"
  by (simp add: hashProbeErrorResult_def verdict_ok_def)

lemma context_error_ok:
  "verdict_ok (classifyHashProbeContextError e ms) \<and>
   prStatus (classifyHashProbeContextError e ms) = HashProbeError"
  by (simp add: classifyHashProbeContextError_def error_result_ok)

lemma session_error_ok:
  "verdict_ok (classifyHashProbeSessionError e ms) \<and>
   prStatus (classifyHashProbeSessionError e ms) = HashProbeError"
  by (simp add: classifyHashProbeSessionError_def error_result_ok context_error_ok
      split: option.split session_error_type.split)

lemma credential_error_ok:
  "verdict_ok (classifyHashProbeCredentialError e ms) \<and>
   prStatus (classifyHashProbeCredentialError e ms) \<noteq> HashProbeValid \<and>
   (prStatus (classifyHashProbeCredentialError e ms) = HashProbeInvalid) = (errors_as as_call e \<noteq> None)"
  using error_result_ok [where ms = ms] context_error_ok [of e ms]
  by (auto simp: classifyHashProbeCredentialError_def Let_def)
     (simp_all add: verdict_ok_def)

text \<open>The waiting loop never goes on to the next endpoint.\<close>

lemma wait_never_leaves: "snd (probe_wait env cfg session attempt ended evs tr) \<noteq> WaitLeaves e"
  by (induction env cfg session attempt ended evs tr rule: probe_wait.induct)
     (simp_all add: Let_def split: option.split)

lemma wait_launched:
  "launched (fst (probe_wait env cfg session attempt ended evs tr)) = launched tr"
  by (induction env cfg session attempt ended evs tr rule: probe_wait.induct)
     (simp_all add: Let_def split: option.split)

lemma wait_verdict:
  "probe_wait env cfg session attempt ended evs tr = (tr', WaitReturns r) \<Longrightarrow>
   verdict_ok r \<and> prStatus r \<noteq> HashProbeInvalid \<and> (prStatus r = HashProbeValid \<longrightarrow> saw_active evs)"
proof (induction env cfg session attempt ended evs tr rule: probe_wait.induct)
  case (3 env cfg session attempt ended active evs tr)
  then show ?case
    by (auto simp: Let_def saw_active_def verdict_ok_def split: if_splits)
next
  case (4 env cfg session attempt ended net active evs tr)
  then show ?case
    by (auto simp: Let_def saw_active_def verdict_ok_def dest: split: if_splits option.splits)
       (use session_error_ok in \<open>auto simp: verdict_ok_def\<close>)
next
  case (5 env cfg session attempt ended err evs tr)
  then show ?case
    using context_error_ok [of err] by (auto simp: Let_def)
qed (auto simp: saw_active_def)

lemma endpoints_verdict:
  assumes "snd (probe_endpoints env cfg session i urls e tr) = Verdict r"
  shows "verdict_ok r \<and> prStatus r \<noteq> HashProbeInvalid \<and>
    (prStatus r = HashProbeValid \<longrightarrow> urls \<noteq> [] \<and> saw_active (peEvents env i))"
proof (cases urls)
  case Nil
  then show ?thesis using assms session_error_ok [of e "now_ms env tr"] by auto
next
  case (Cons url rest)
  let ?tr = "emitHashProbeProgress env cfg ''turn'' ''running'' msg_endpoint (int i + 1) tr @
    [Launch (910000 + int i) url]"
  obtain tr' w where w: "probe_wait env cfg (session url) (int i + 1) False (peEvents env i) ?tr = (tr', w)"
    by (cases "probe_wait env cfg (session url) (int i + 1) False (peEvents env i) ?tr")
  have "w \<noteq> WaitLeaves x" for x
    using wait_never_leaves [of env cfg "session url" "int i + 1" False "peEvents env i" ?tr x] w by simp
  then show ?thesis
    using Cons w assms context_error_ok
    by (auto simp: Let_def split: option.splits wait_end.splits dest!: wait_verdict)
qed

text \<open>Whatever the list holds, only its first endpoint can be launched.\<close>

lemma endpoints_launched:
  "launched (fst (probe_endpoints env cfg session i urls e tr)) =
     launched tr @ (if peCtx env i = None then take 1 urls else [])"
proof (cases urls)
  case (Cons url rest)
  let ?tr = "emitHashProbeProgress env cfg ''turn'' ''running'' msg_endpoint (int i + 1) tr @
    [Launch (910000 + int i) url]"
  obtain tr' w where w: "probe_wait env cfg (session url) (int i + 1) False (peEvents env i) ?tr = (tr', w)"
    by (cases "probe_wait env cfg (session url) (int i + 1) False (peEvents env i) ?tr")
  have "launched tr' = launched ?tr"
    using wait_launched [of env cfg "session url" "int i + 1" False "peEvents env i" ?tr] w by simp
  moreover have "w \<noteq> WaitLeaves x" for x
    using wait_never_leaves [of env cfg "session url" "int i + 1" False "peEvents env i" ?tr x] w by simp
  ultimately show ?thesis
    using Cons w by (simp add: Let_def split: option.split wait_end.split)
qed simp

lemma deferred_simps [simp]:
  "launched (fst (probe_deferred socket res)) = launched (fst res)"
  "snd (probe_deferred socket res) = snd res"
  by (auto simp: probe_deferred_def split: prod.split probe_end.split)

text \<open>The parts after the setup, told by what they launch and by what they return.\<close>

lemma sessions_launched:
  "launched (fst (probe_sessions env cfg key urls local tr)) \<in> {launched tr, launched tr @ take 1 urls}"
  by (auto simp: probe_sessions_def Let_def endpoints_launched split: sum.split prod.split)

lemma sessions_verdict:
  "snd (probe_sessions env cfg key urls local tr) = Verdict r \<Longrightarrow>
     verdict_ok r \<and> prStatus r \<noteq> HashProbeInvalid \<and>
     (prStatus r = HashProbeValid \<longrightarrow> saw_active (peEvents env 0))"
  using error_result_ok [of HashProbeErrorSetup]
  by (auto simp: probe_sessions_def Let_def split: sum.splits if_splits dest!: endpoints_verdict)

lemma credentials_launched:
  "launched (fst (probe_credentials env cfg key tr)) \<in>
     {launched tr} \<union> (case peCreds env of Inl e \<Rightarrow> {}
       | Inr (u, p, urls) \<Rightarrow> {launched tr @ take 1 urls})"
  using sessions_launched [of env cfg key]
  by (auto simp: probe_credentials_def Let_def split: sum.split prod.split) (metis emit_launched)

lemma credentials_verdict:
  assumes "snd (probe_credentials env cfg key tr) = Verdict r"
  shows "verdict_ok r \<and>
    (prStatus r = HashProbeInvalid \<longrightarrow> (\<exists>err. peCreds env = Inl err \<and> errors_as as_call err \<noteq> None)) \<and>
    (prStatus r = HashProbeValid \<longrightarrow>
       (\<exists>user pass urls. peCreds env = Inr (user, pass, urls) \<and> urls \<noteq> []) \<and> saw_active (peEvents env 0))"
proof (cases "peCreds env")
  case (Inl err)
  then show ?thesis
    using assms credential_error_ok [of err] by (auto simp: probe_credentials_def Let_def)
next
  case (Inr c)
  then show ?thesis
    using assms error_result_ok [of HashProbeErrorSetup] error_result_ok [of HashProbeErrorVK]
    by (cases c) (auto simp: probe_credentials_def Let_def split: if_splits sum.splits
        dest!: sessions_verdict)
qed

lemma probe_verdict:
  assumes "snd (ProbeHash env cfg) = Verdict r"
  shows "verdict_ok r \<and>
    (prStatus r = HashProbeInvalid \<longrightarrow> (\<exists>err. peCreds env = Inl err \<and> errors_as as_call err \<noteq> None)) \<and>
    (prStatus r = HashProbeValid \<longrightarrow>
       (\<exists>user pass urls. peCreds env = Inr (user, pass, urls) \<and> urls \<noteq> []) \<and> saw_active (peEvents env 0))"
  using assms error_result_ok [of HashProbeErrorSetup] error_result_ok [of HashProbeErrorNetwork]
  by (auto simp: ProbeHash_def Let_def split: if_splits sum.splits dest!: credentials_verdict)

lemma probe_launched_in:
  assumes "\<And>key tr. launched tr = [] \<Longrightarrow> launched (fst (probe_credentials env cfg key tr)) \<in> S" "[] \<in> S"
  shows "launched (fst (ProbeHash env cfg)) \<in> S"
  using assms by (auto simp: ProbeHash_def Let_def split: sum.split)

lemma probe_launched:
  "launched (fst (ProbeHash env cfg)) \<in>
     {[]} \<union> (case peCreds env of Inl e \<Rightarrow> {} | Inr (u, p, urls) \<Rightarrow> {take 1 urls})"
proof (rule probe_launched_in)
  fix key tr
  assume "launched tr = []"
  then show "launched (fst (probe_credentials env cfg key tr)) \<in>
     {[]} \<union> (case peCreds env of Inl e \<Rightarrow> {} | Inr (u, p, urls) \<Rightarrow> {take 1 urls})"
    using credentials_launched [of env cfg key tr] by (auto split: sum.splits)
qed simp

text \<open>A check of one hash with two endpoints on offer, and what happens at the first.\<close>

definition demo_probe :: "probe_event list \<Rightarrow> probe_env" where
  "demo_probe evs = \<lparr>peResolver = \<lparr>rsIP = (\<lambda>h. True), rsLiteral = (\<lambda>a. Inr (''10.0.0.1'', 5000)),
       rsLookup = (\<lambda>h. Inl (Plain ''no''))\<rparr>, peHkdf = (\<lambda>a b c n. Some (replicate n 7)),
     peCreds = Inr (''u'', ''p'', [''1.2.3.4:19302'', ''1.2.3.5:19302'']), peListen = Inr ''127.0.0.1:40000'',
     peSince = int, peCtx = (\<lambda>i. None), peEvents = (\<lambda>i. evs)\<rparr>"

definition demo_check :: probe_config where
  "demo_check = \<lparr>pcPeerAddr = ''10.0.0.1:5000'', pcPassword = ''pw'', pcHash = ''h'', pcDeviceID = [],
     pcTurnHost = [], pcTurnPort = [], pcObfsMode = [], pcOnProgress = True\<rparr>"

lemma demo_probe_simps [simp]:
  "peCreds (demo_probe evs) = Inr (''u'', ''p'', [''1.2.3.4:19302'', ''1.2.3.5:19302''])"
  "peListen (demo_probe evs) = Inr ''127.0.0.1:40000''" "peCtx (demo_probe evs) i = None"
  "peEvents (demo_probe evs) i = evs"
  by (simp_all add: demo_probe_def)

lemma demo_facts:
  "SplitHostPort ''10.0.0.1:5000'' = Inr (''10.0.0.1'', ''5000'')" "atoi ''5000'' = Some 5000"
  "SplitHostPort ''127.0.0.1:40000'' = Inr (''127.0.0.1'', ''40000'')"
  "SplitHostPort ''1.2.3.4:19302'' = Inr (''1.2.3.4'', ''19302'')"
  "trim_space ''10.0.0.1:5000'' = ''10.0.0.1:5000''" "trim_space ''h'' = ''h''" "trim_space ''pw'' = ''pw''"
  by code_simp+

lemma demo_resolves: "resolvePeerUDPAddr (peResolver (demo_probe evs)) ''10.0.0.1:5000'' = Inr (''10.0.0.1'', 5000)"
  by (simp add: resolvePeerUDPAddr_def demo_facts demo_probe_def)

lemma demo_key: "deriveWrapKey (peHkdf (demo_probe evs)) ''pw'' = Inr (replicate wrapKeyLen 7)"
  by (simp add: deriveWrapKey_def demo_probe_def)

text \<open>The verdict of a hash check can be believed: \<open>valid\<close> is answered only when
  credentials with an endpoint were obtained for it and an active connection was seen while the session
  of an endpoint was running, \<open>invalid\<close> only when VK said that the call is unavailable, and every other
  verdict is an error with its type. The reported latency is at least a millisecond, and \<open>Error\<close> gives
  no error exactly for a valid hash.\<close>

theorem probe_verdict_is_earned:
  assumes "snd (ProbeHash env cfg) = Verdict r"
  shows "(prStatus r = HashProbeValid \<longrightarrow>
            (\<exists>user pass urls. peCreds env = Inr (user, pass, urls) \<and> urls \<noteq> []) \<and>
            saw_active (peEvents env 0)) \<and>
         (prStatus r = HashProbeInvalid \<longrightarrow>
            (\<exists>err. peCreds env = Inl err \<and> errors_as as_call err \<noteq> None)) \<and>
         (prError r = NoProbeError) = (prStatus r = HashProbeValid) \<and>
         (prError r = HashProbeErrorInvalidHash) = (prStatus r = HashProbeInvalid) \<and>
         1 \<le> prLatency r \<and> (probe_result_Error r = None) = (prStatus r = HashProbeValid)"
  using probe_verdict [OF assms] by (cases "prStatus r") (auto simp: verdict_ok_def probe_result_Error_def)

theorem probe_verdict_is_earned_witness:
  "\<exists>r. snd (ProbeHash (demo_probe [Ticked False, Ticked True]) demo_check) = Verdict r \<and>
     prStatus r = HashProbeValid \<and> prError r = NoProbeError \<and> probe_result_Error r = None"
proof -
  obtain r where r: "snd (ProbeHash (demo_probe [Ticked False, Ticked True]) demo_check) = Verdict r"
      "prStatus r = HashProbeValid"
    by (simp add: ProbeHash_def probe_credentials_def probe_sessions_def Let_def demo_facts demo_resolves
        demo_key demo_check_def)
  from probe_verdict_is_earned [OF r(1)] r show ?thesis by blast
qed

text \<open>What happens when the session of the first endpoint ends with a dead address.\<close>

definition first_endpoint_dies :: "probe_env \<Rightarrow> probe_config \<Rightarrow> string \<Rightarrow> bool" where
  "first_endpoint_dies env cfg url \<longleftrightarrow>
     trim_space (pcHash cfg) \<noteq> [] \<and> trim_space (pcPeerAddr cfg) \<noteq> [] \<and> trim_space (pcPassword cfg) \<noteq> [] \<and>
     (case (resolvePeerUDPAddr (peResolver env) (pcPeerAddr cfg), deriveWrapKey (peHkdf env) (pcPassword cfg),
            peListen env) of
        (Inr peer, Inr key, Inr local) \<Rightarrow>
          (case (SplitHostPort local, peEvents env 0) of
             (Inr (host, port), Finished net False # evs) \<Rightarrow>
               port \<noteq> [] \<and> peCtx env 0 = None \<and>
               (case probe_session cfg key port url net of
                  Some e \<Rightarrow> se_type e = SessionErrorAddressDead | None \<Rightarrow> False) \<and>
               (\<forall>ev \<in> set evs. case ev of ContextDone err \<Rightarrow> False | _ \<Rightarrow> True)
           | _ \<Rightarrow> False)
      | _ \<Rightarrow> False)"

lemma wait_ended:
  "(\<forall>ev \<in> set evs. case ev of ContextDone err \<Rightarrow> False | _ \<Rightarrow> True) \<Longrightarrow>
     snd (probe_wait env cfg session attempt True evs tr) = WaitGoesOn"
  by (induction env cfg session attempt "True" evs tr rule: probe_wait.induct) auto

lemma endpoints_dead:
  assumes "peCtx env i = None" "peEvents env i = Finished net False # evs" "session url net = Some e"
    "se_type e = SessionErrorAddressDead" "\<forall>ev \<in> set evs. case ev of ContextDone err \<Rightarrow> False | _ \<Rightarrow> True"
  shows "snd (probe_endpoints env cfg session i (url # urls) last_err tr) = StillWaiting"
proof -
  let ?tr = "emitHashProbeProgress env cfg ''turn'' ''running'' msg_endpoint (int i + 1) tr @
    [Launch (910000 + int i) url]"
  have "snd (probe_wait env cfg (session url) (int i + 1) False (peEvents env i) ?tr) = WaitGoesOn"
    using assms wait_ended [OF assms(5)] by (simp add: Let_def)
  then obtain tr' where
    "probe_wait env cfg (session url) (int i + 1) False (peEvents env i) ?tr = (tr', WaitGoesOn)"
    by (metis prod.collapse)
  then show ?thesis using assms(1) by (simp add: Let_def)
qed

lemma sessions_dead:
  assumes "first_endpoint_dies env cfg url" "deriveWrapKey (peHkdf env) (pcPassword cfg) = Inr key"
    "peListen env = Inr local"
  shows "snd (probe_sessions env cfg key (url # urls) local tr) = StillWaiting"
proof -
  obtain host port net evs where s: "SplitHostPort local = Inr (host, port)" "port \<noteq> []"
      "peEvents env 0 = Finished net False # evs" "peCtx env 0 = None"
      "\<forall>ev \<in> set evs. case ev of ContextDone err \<Rightarrow> False | _ \<Rightarrow> True"
    and d: "case probe_session cfg key port url net of
        Some e \<Rightarrow> se_type e = SessionErrorAddressDead | None \<Rightarrow> False"
    using assms by (auto simp: first_endpoint_dies_def split: sum.splits prod.splits list.splits
        probe_event.splits bool.splits)
  obtain e where e: "probe_session cfg key port url net = Some e" "se_type e = SessionErrorAddressDead"
    using d by (auto split: option.splits)
  show ?thesis
    using s endpoints_dead [where session = "probe_session cfg key port" and i = 0, OF s(4,3) e s(5)]
    by (simp add: probe_sessions_def Let_def)
qed

text \<open>A hash check tries one TURN endpoint: whatever VK returned, no session is
  launched on another than the first. And if that session ends with a dead address the check does not
  return any more, however long it waits, until its context ends: the \<open>break\<close> that was to go on with the
  next endpoint leaves the \<open>select\<close> only.\<close>

theorem probe_hangs_on_dead_endpoint:
  assumes "peCreds env = Inr (user, pass, url # urls)"
  shows "set (launched (fst (ProbeHash env cfg))) \<subseteq> {url} \<and>
    (first_endpoint_dies env cfg url \<longrightarrow> snd (ProbeHash env cfg) = StillWaiting)"
proof (intro conjI impI)
  show "set (launched (fst (ProbeHash env cfg))) \<subseteq> {url}"
    using probe_launched [of env cfg] assms by auto
next
  assume d: "first_endpoint_dies env cfg url"
  obtain peer key local where r: "resolvePeerUDPAddr (peResolver env) (pcPeerAddr cfg) = Inr peer"
    "deriveWrapKey (peHkdf env) (pcPassword cfg) = Inr key" "peListen env = Inr local"
    using d by (auto simp: first_endpoint_dies_def split: sum.splits)
  then show "snd (ProbeHash env cfg) = StillWaiting"
    using d assms sessions_dead [OF d r(2) r(3)]
    by (simp add: ProbeHash_def probe_credentials_def Let_def first_endpoint_dies_def)
qed

theorem probe_hangs_on_dead_endpoint_witness:
  "snd (ProbeHash (demo_probe [Finished dead_net False, Ticked True]) demo_check) = StillWaiting"
proof -
  have "first_endpoint_dies (demo_probe [Finished dead_net False, Ticked True]) demo_check ''1.2.3.4:19302''"
    unfolding first_endpoint_dies_def demo_check_def
    by (simp add: demo_facts demo_resolves demo_key)
       (simp add: demo_facts probe_session_def RunSession_def dead_net_def fail_def probe_params_def Let_def)
  then show ?thesis
    using probe_hangs_on_dead_endpoint [of "demo_probe [Finished dead_net False, Ticked True]" "''u''" "''p''"
      "''1.2.3.4:19302''" "[''1.2.3.5:19302'']" demo_check]
    by simp
qed

end
