(* ===== verification/WgConfig.thy ===== *)
theory WgConfig
  imports Prelude Base64
begin

text \<open>
  The WireGuard configuration (\<open>backend/wg.go\<close>): what is taken from the text the server sends, the text
  handed to \<open>wg setconf\<close>, the operation for the userspace device, keys in hexadecimal, IPv4 prefixes,
  and the readers of \<open>/etc/resolv.conf\<close> and of the routing tables. All of it is text processing; the
  texts the system tools print are arguments.
\<close>

abbreviation nl :: char where "nl \<equiv> CHR 0x0A"

section \<open>Reading the configuration\<close>

text \<open>
  \<open>bufio.Scanner\<close> with its default split: lines without their end and without one carriage return; a
  line that does not fit its buffer of 64 KiB ends the scan.
\<close>

definition scan_limit :: nat where "scan_limit = 65536"

definition drop_cr :: "string \<Rightarrow> string" where
  "drop_cr l = (if l \<noteq> [] \<and> last l = CHR 0x0D then butlast l else l)"

definition scan_lines :: "string \<Rightarrow> string list" where
  "scan_lines s =
     (let ls = split_on nl s;
          ls = (if last ls = [] then butlast ls else ls)
      in map drop_cr (takeWhile (\<lambda>l. length l < scan_limit) ls))"

definition wgQuickOnlyFields :: "string list" where
  "wgQuickOnlyFields = [''address'', ''dns'', ''mtu'', ''preup'', ''postup'', ''predown'', ''postdown'', ''saveconfig'']"

record wg_parsed =
  wpAddr :: string
  wpMtu :: string
  wpAllowed :: "string list"
  wpConf :: string

text \<open>Key and value of a line, and the parts of a list of addresses.\<close>

definition key_value :: "string \<Rightarrow> (string \<times> string) option" where
  "key_value line =
     map_option (\<lambda>(k, v). (to_lower (trim_space k), trim_space v)) (split2 CHR ''='' (trim_space line))"

definition csv :: "string \<Rightarrow> string list" where
  "csv s = filter (\<lambda>c. c \<noteq> []) (map trim_space (split_on CHR '','' s))"

definition parse_line :: "string \<Rightarrow> wg_parsed \<Rightarrow> wg_parsed" where
  "parse_line line p =
     (let keep = (\<lambda>p. p\<lparr>wpConf := wpConf p @ line @ [nl]\<rparr>)
      in case key_value line of
        None \<Rightarrow> keep p
      | Some (key, val) \<Rightarrow>
          if key = ''address'' then p\<lparr>wpAddr := val\<rparr>
          else if key = ''mtu'' then p\<lparr>wpMtu := val\<rparr>
          else if key = ''allowedips'' then keep (p\<lparr>wpAllowed := wpAllowed p @ csv val\<rparr>)
          else if key \<in> set wgQuickOnlyFields then p
          else keep p)"

definition parseWGConfig :: "string \<Rightarrow> wg_parsed" where
  "parseWGConfig conf =
     fold parse_line (scan_lines conf) \<lparr>wpAddr = [], wpMtu = [], wpAllowed = [], wpConf = []\<rparr>"

definition isIPv4FullTunnel :: "string list \<Rightarrow> bool" where
  "isIPv4FullTunnel allowedIPs = list_ex (\<lambda>cidr. trim_space cidr = ''0.0.0.0/0'') allowedIPs"

section \<open>The operation for the device\<close>

definition key_hex :: "string \<Rightarrow> string" where
  "key_hex raw =
     (let digit = (\<lambda>n. char_of (if n < 10 then 48 + n else 87 + n))
      in concat (map (\<lambda>c. [digit (bval c div 16), digit (bval c mod 16)]) raw))"

definition toHex :: "string \<Rightarrow> string" where
  "toHex b64 = (case b64_decode b64 of None \<Rightarrow> b64 | Some raw \<Rightarrow> key_hex raw)"

text \<open>What one line of the configuration adds inside the section it stands in.\<close>

definition uapi_setting :: "string \<Rightarrow> string" where
  "uapi_setting line =
     (case key_value line of
        None \<Rightarrow> []
      | Some (key, val) \<Rightarrow>
          if key = ''privatekey'' then ''private_key='' @ toHex val @ [nl]
          else if key = ''listenport'' then ''listen_port='' @ val @ [nl]
          else if key = ''publickey'' then ''public_key='' @ toHex val @ [nl]
          else if key = ''presharedkey'' then ''preshared_key='' @ toHex val @ [nl]
          else if key = ''endpoint'' then ''endpoint='' @ val @ [nl]
          else if key = ''allowedips'' then concat (map (\<lambda>c. ''allowed_ip='' @ c @ [nl]) (csv val))
          else if key = ''persistentkeepalive'' then ''persistent_keepalive_interval='' @ val @ [nl]
          else [])"

fun uapi_lines :: "bool \<Rightarrow> string list \<Rightarrow> string" where
  "uapi_lines inPeer [] = [nl]"
| "uapi_lines inPeer (line # ls) =
     (let trimmed = trim_space line
      in if trimmed = [] \<or> has_prefix ''#'' trimmed then uapi_lines inPeer ls
         else if trimmed = ''[Interface]'' then uapi_lines False ls
         else if trimmed = ''[Peer]'' then (if inPeer then [nl] else []) @ uapi_lines True ls
         else uapi_setting line @ uapi_lines inPeer ls)"

definition uapiConf :: "string \<Rightarrow> string" where
  "uapiConf wgConf = uapi_lines False (split_on nl wgConf)"

section \<open>IPv4 prefixes\<close>

text \<open>
  \<open>fmt.Sscanf(s, "%d", ..)\<close>: white space (no line end), an optional sign, the longest run of digits;
  a number out of the range of an \<open>int\<close> fails.
\<close>

definition scan_blank :: "string \<Rightarrow> string option" where
  "scan_blank s =
     (let t = trim_left s
      in if nl \<in> set (take (length s - length t) s) then None else Some t)"

definition sscanf_int :: "string \<Rightarrow> int option" where
  "sscanf_int s =
     (case scan_blank s of
        None \<Rightarrow> None
      | Some t \<Rightarrow>
          (let (neg, t) = (case t of c # r \<Rightarrow> if c = CHR ''-'' then (True, r)
                             else if c = CHR ''+'' then (False, r) else (False, t) | [] \<Rightarrow> (False, t));
               ds = takeWhile is_digit t;
               i = (if neg then - int (digits_value ds) else int (digits_value ds))
           in if ds \<noteq> [] \<and> int64_ok i then Some i else None))"

definition prefix_mask :: "nat \<Rightarrow> 32 word" where
  "prefix_mask prefix = (if prefix > 0 then push_bit (32 - prefix) (- 1) else 0)"

definition dotted :: "32 word \<Rightarrow> string" where
  "dotted m =
     join ''.'' (map (\<lambda>k. digits_nat (unat (and (drop_bit k m) 0xff))) [24, 16, 8, 0])"

definition parseCIDR :: "string \<Rightarrow> (string \<times> string) option" where
  "parseCIDR cidr =
     (case split2 CHR ''/'' cidr of
        None \<Rightarrow> Some (cidr, ''255.255.255.255'')
      | Some (ip, suffix) \<Rightarrow>
          (case sscanf_int suffix of
             None \<Rightarrow> None
           | Some prefix \<Rightarrow>
               if prefix < 0 \<or> prefix > 32 then None
               else Some (ip, dotted (prefix_mask (nat prefix)))))"

section \<open>Addresses and the tables of the system\<close>

text \<open>\<open>net.ParseIP\<close> as 16 bytes; a zone is refused.\<close>

definition ip4_field :: "string \<Rightarrow> nat option" where
  "ip4_field f =
     (if f \<noteq> [] \<and> list_all is_digit f \<and> (hd f = CHR ''0'' \<longrightarrow> length f = 1) \<and> digits_value f \<le> 255
      then Some (digits_value f) else None)"

definition parse_ip4 :: "string \<Rightarrow> nat list option" where
  "parse_ip4 s =
     (case map ip4_field (split_on CHR ''.'' s) of
        [Some a, Some b, Some c, Some d] \<Rightarrow> Some [a, b, c, d]
      | _ \<Rightarrow> None)"

definition hex_value :: "char \<Rightarrow> nat option" where
  "hex_value c =
     (let v = bval c
      in if is_digit c then Some (v - 48)
         else if 97 \<le> v \<and> v \<le> 102 then Some (v - 87)
         else if 65 \<le> v \<and> v \<le> 70 then Some (v - 55) else None)"

definition hex_number :: "string \<Rightarrow> nat" where
  "hex_number ds = foldl (\<lambda>n c. 16 * n + the (hex_value c)) 0 ds"

text \<open>
  The groups of an IPv6 address: the bytes read so far (at most eight groups) and the place of the
  ellipsis. The result is the bytes, the ellipsis and the text that is left.
\<close>

fun ip6_groups :: "nat \<Rightarrow> string \<Rightarrow> nat list \<Rightarrow> nat option \<Rightarrow> (nat list \<times> nat option \<times> string) option" where
  "ip6_groups 0 s acc el = Some (acc, el, s)"
| "ip6_groups (Suc n) s acc el =
     (let ds = takeWhile (\<lambda>c. hex_value c \<noteq> None) s;
          r = drop (length ds) s
      in if ds = [] \<or> length ds > 4 then None
         else if has_prefix ''.'' r then
           (if el = None \<and> length acc \<noteq> 12 then None
            else if length acc + 4 > 16 then None
            else map_option (\<lambda>v4. (acc @ v4, el, [])) (parse_ip4 s))
         else
           (let acc = acc @ [hex_number ds div 256, hex_number ds mod 256]
            in if r = [] then Some (acc, el, [])
               else if \<not> has_prefix '':'' r \<or> length r = 1 then None
               else if has_prefix ''::'' r then
                 (if el \<noteq> None then None
                  else if length r = 2 then Some (acc, Some (length acc), [])
                  else ip6_groups n (drop 2 r) acc (Some (length acc)))
               else ip6_groups n (drop 1 r) acc el))"

definition parse_ip6 :: "string \<Rightarrow> nat list option" where
  "parse_ip6 s =
     (if s = ''::'' then Some (replicate 16 0)
      else case (if has_prefix ''::'' s then ip6_groups 8 (drop 2 s) [] (Some 0)
                 else ip6_groups 8 s [] None) of
        None \<Rightarrow> None
      | Some (bytes, el, rest) \<Rightarrow>
          if rest \<noteq> [] then None
          else (case el of
             None \<Rightarrow> if length bytes < 16 then None else Some bytes
           | Some e \<Rightarrow>
               if length bytes < 16
               then Some (take e bytes @ replicate (16 - length bytes) 0 @ drop e bytes) else None))"

definition parse_ip :: "string \<Rightarrow> nat list option" where
  "parse_ip s =
     (if CHR ''%'' \<in> set s then None
      else case filter (\<lambda>c. c = CHR ''.'' \<or> c = CHR '':'') s of
        [] \<Rightarrow> None
      | c # cs \<Rightarrow>
          if c = CHR ''.'' then map_option (\<lambda>v4. replicate 10 0 @ [255, 255] @ v4) (parse_ip4 s)
          else parse_ip6 s)"

definition ip_is_loopback :: "nat list \<Rightarrow> bool" where
  "ip_is_loopback ip =
     (if take 12 ip = replicate 10 0 @ [255, 255] then ip ! 12 = 127
      else ip = replicate 15 0 @ [1])"

text \<open>Of the text of \<open>/etc/resolv.conf\<close>, when it can be read.\<close>

definition localDNSServers :: "string option \<Rightarrow> string list" where
  "localDNSServers resolv =
     (case resolv of
        None \<Rightarrow> []
      | Some data \<Rightarrow>
          concat (map (\<lambda>line.
            (case Prelude.fields line of
               [a, server] \<Rightarrow>
                 if a \<noteq> ''nameserver'' then []
                 else (case parse_ip server of
                   None \<Rightarrow> []
                 | Some ip \<Rightarrow> if ip_is_loopback ip then [] else [server])
             | _ \<Rightarrow> [])) (split_on nl data)))"

text \<open>Of the output of the tool that prints the default route, when it ran.\<close>

fun after_via :: "string list \<Rightarrow> string" where
  "after_via (f # g # r) = (if f = ''via'' then g else after_via (g # r))"
| "after_via r = []"

definition defaultGatewayLinux :: "string option \<Rightarrow> string" where
  "defaultGatewayLinux out = (case out of None \<Rightarrow> [] | Some s \<Rightarrow> after_via (Prelude.fields s))"

fun first_some :: "('a \<Rightarrow> 'b option) \<Rightarrow> 'a list \<Rightarrow> 'b option" where
  "first_some f [] = None"
| "first_some f (x # xs) = (case f x of Some y \<Rightarrow> Some y | None \<Rightarrow> first_some f xs)"

definition text_or_empty :: "string option \<Rightarrow> string" where
  "text_or_empty s = (case s of Some t \<Rightarrow> t | None \<Rightarrow> [])"

definition defaultGatewayWindows :: "string option \<Rightarrow> string" where
  "defaultGatewayWindows out =
     (case out of
        None \<Rightarrow> []
      | Some s \<Rightarrow> text_or_empty (first_some (\<lambda>line.
          (case Prelude.fields line of
             a # b # c # r \<Rightarrow> if a = ''0.0.0.0'' \<and> b = ''0.0.0.0'' then Some c else None
           | _ \<Rightarrow> None)) (split_on nl s)))"

definition defaultGatewayDarwin :: "string option \<Rightarrow> string" where
  "defaultGatewayDarwin out =
     (case out of
        None \<Rightarrow> []
      | Some s \<Rightarrow> text_or_empty (first_some (\<lambda>line.
          (case Prelude.fields line of
             [a, b] \<Rightarrow> if a = ''gateway:'' then Some b else None
           | _ \<Rightarrow> None)) (split_on nl s)))"

section \<open>Prefixes and keys\<close>

lemma scan_blank_digits: "n < 10 \<Longrightarrow> scan_blank (digit_char n # s) = Some (digit_char n # s)"
proof -
  assume "n < 10"
  then have "is_graph (digit_char n)"
    by (simp add: is_graph_def)
  then have "trim_left (digit_char n # s) = digit_char n # s"
    using space_len_graph by (simp add: trim_left.simps)
  then show ?thesis
    by (simp add: scan_blank_def)
qed

lemma digits_nat_small: "n < 10 \<Longrightarrow> digits_nat n = [digit_char n]"
  by (simp add: digits_nat.simps)

lemma sscanf_digits:
  assumes "n < 100"
  shows "sscanf_int (digits_nat n) = Some (int n)"
proof -
  obtain d ds where d: "digits_nat n = digit_char d # ds" "d < 10" "list_all is_digit (digit_char d # ds)"
    using assms digits_nat_digits [of n] digits_nat.simps [of n] digits_nat_small [of "n div 10"]
    by (cases "n < 10") (auto simp: digits_nat_small)
  have tw: "takeWhile is_digit (digit_char d # ds) = digit_char d # ds"
    using d(3) by (simp only: takeWhile_eq_all_conv list_all_iff)
  have "digit_char d \<noteq> CHR ''-''" "digit_char d \<noteq> CHR ''+''"
    using bval_digit_char [OF d(2)] by auto
  moreover have "digits_value (digit_char d # ds) = n"
    using digits_value_digits_nat [of n] d(1) by simp
  ultimately show ?thesis
    using assms d scan_blank_digits [OF d(2), of ds]
    by (simp add: sscanf_int_def int64_ok_def Let_def tw del: takeWhile.simps)
qed

lemma unat_two_power: "k < 32 \<Longrightarrow> unat ((2 :: 32 word) ^ k) = 2 ^ k"
proof -
  assume k: "k < 32"
  have "(2 :: 32 word) ^ k = of_nat (2 ^ k)"
    by simp
  moreover have "(2 :: nat) ^ k < 2 ^ 32"
    using k by (intro power_strict_increasing) simp_all
  ultimately show ?thesis
    by (simp only: unat_of_nat) (simp add: mod_less)
qed

lemma unat_uminus: "x \<noteq> 0 \<Longrightarrow> unat (- x) + unat x = 2 ^ 32" for x :: "32 word"
proof -
  assume "x \<noteq> 0"
  then have "uint x \<noteq> 0"
    by (simp only: unsigned_eq_0_iff) simp
  then have x: "0 < uint x" "uint x < 2 ^ 32"
    using uint_lt2p [of x] by (simp_all add: less_le)
  have "uint (- x) = (- uint x) mod 2 ^ 32"
    by (simp add: uint_word_ariths)
  also have "\<dots> = 2 ^ 32 - uint x"
    using x by (simp add: zmod_zminus1_eq_if)
  finally have "int (unat (- x) + unat x) = int (2 ^ 32)"
    by simp
  then show ?thesis
    by (simp only: of_nat_eq_iff)
qed

lemma prefix_mask_value:
  assumes "p \<le> 32"
  shows "unat (prefix_mask p) + 2 ^ (32 - p) = 2 ^ 32"
proof (cases "p = 0")
  case False
  then have k: "32 - p < 32" by simp
  have "prefix_mask p = - (2 ^ (32 - p))"
    using False by (simp add: prefix_mask_def push_bit_eq_mult del: push_bit_minus_one_eq_not_mask)
  moreover have "(2 :: 32 word) ^ (32 - p) \<noteq> 0"
    using unat_two_power [OF k] by (metis power_not_zero unsigned_0 zero_neq_numeral)
  ultimately show ?thesis
    using unat_two_power [OF k] unat_uminus [of "2 ^ (32 - p)"] by simp
qed (simp add: prefix_mask_def)

lemma bit_prefix_mask: "p \<le> 32 \<Longrightarrow> i < 32 \<Longrightarrow> bit (prefix_mask p) i = (32 - p \<le> i)"
  by (auto simp: prefix_mask_def bit_push_bit_iff simp del: push_bit_minus_one_eq_not_mask)

text \<open>An address with a prefix from 0 to 32 becomes its address and the text of the
  mask whose leading bits, as many as the prefix says, are the ones of its 32 bits, so that mask and size
  of the block always add up to \<open>2 ^ 32\<close>; a prefix out of that range is refused and an address without
  one is the block of one address.\<close>

theorem cidr_mask_is_the_prefix:
  assumes "CHR ''/'' \<notin> set ip" "n < 100"
  shows "parseCIDR (ip @ ''/'' @ digits_nat n) =
           (if n \<le> 32 then Some (ip, dotted (prefix_mask n)) else None) \<and>
         parseCIDR ip = Some (ip, dotted (prefix_mask 32)) \<and>
         (n \<le> 32 \<longrightarrow> unat (prefix_mask n) + 2 ^ (32 - n) = 2 ^ 32 \<and>
            (\<forall>i<32. bit (prefix_mask n) i = (32 - n \<le> i)))"
proof -
  have "split2 CHR ''/'' (ip @ ''/'' @ digits_nat n) = Some (ip, digits_nat n)"
    using assms(1) by (auto simp: split2_def takeWhile_append dropWhile_append)
  moreover have "dotted (prefix_mask 32) = ''255.255.255.255''"
    by code_simp
  ultimately show ?thesis
    using assms sscanf_digits [OF assms(2)] prefix_mask_value bit_prefix_mask
    by (simp add: parseCIDR_def split2_def)
qed

theorem cidr_mask_is_the_prefix_witness:
  "parseCIDR ''87.240.192.0/19'' = Some (''87.240.192.0'', ''255.255.224.0'')"
proof -
  have "parseCIDR (''87.240.192.0'' @ ''/'' @ digits_nat 19) =
      Some (''87.240.192.0'', dotted (prefix_mask 19))"
    using cidr_mask_is_the_prefix [of "''87.240.192.0''" 19] by simp
  moreover have "digits_nat 19 = ''19''" "dotted (prefix_mask 19) = ''255.255.224.0''"
    by code_simp+
  ultimately show ?thesis by simp
qed

text \<open>Reading back the hexadecimal text of a key.\<close>

fun hex_bytes :: "string \<Rightarrow> nat list" where
  "hex_bytes (a # b # r) = hex_number [a, b] # hex_bytes r"
| "hex_bytes r = []"

lemma hex_value_digit: "n < 16 \<Longrightarrow> hex_value (char_of (if n < 10 then 48 + n else 87 + n)) = Some n"
  by (auto simp: hex_value_def is_digit_def Let_def)

lemma hex_bytes_key_hex: "hex_bytes (key_hex raw) = map bval raw"
proof (induction raw)
  case (Cons c raw)
  have "bval c div 16 < 16" using bval_less [of c] by linarith
  then show ?case
    using Cons hex_value_digit [of "bval c div 16"] hex_value_digit [of "bval c mod 16"]
    by (simp add: key_hex_def hex_number_def Let_def)
qed (simp add: key_hex_def)

lemma b64_text_trim [simp]: "trim_space (b64_encode raw) = b64_encode raw"
  using b64_encode_graph [of raw] by (intro trim_space_graph) (cases "b64_encode raw = []", auto simp: list_all_iff)

text \<open>A key in the configuration reaches the device byte by byte.\<close>

lemma toHex_roundtrip: "hex_bytes (toHex (b64_encode raw)) = map bval raw"
  by (simp add: toHex_def b64_decode_encode hex_bytes_key_hex)

section \<open>What reaches the device\<close>

lemma space_len_le: "space_len s \<le> length s"
  by (cases s) (auto simp: space_len_def)

lemma space_len_cr: "s \<noteq> [] \<Longrightarrow> space_len (s @ [CHR 0x0D]) = space_len s"
  by (cases s; cases "tl s"; cases "tl (tl s)") (auto simp: space_len_def is_space_rune_def)

lemma trim_left_cr:
  "trim_left (s @ [CHR 0x0D]) = (if trim_left s = [] then [] else trim_left s @ [CHR 0x0D])"
proof (induction s rule: trim_left.induct)
  case (1 s)
  show ?case
  proof (cases "space_len s = 0")
    case True
    have "space_len [CHR 0x0D] = 1"
      by (simp add: space_len_def is_space_rune_def)
    then show ?thesis
      using True space_len_cr [of s] by (cases "s = []") (simp_all add: trim_left.simps)
  next
    case False
    then have "s \<noteq> []" by auto
    then show ?thesis
      using 1 [OF False] False space_len_cr [of s] space_len_le [of s]
      by (simp add: trim_left.simps [of s] trim_left.simps [of "s @ [CHR 0x0D]"])
  qed
qed

lemma trim_space_cr: "trim_space (s @ [CHR 0x0D]) = trim_space s"
proof -
  have "space_len_end (t @ [CHR 0x0D]) = 1" for t
    by (simp add: space_len_end_def is_space_rune_def)
  then have "trim_right (t @ [CHR 0x0D]) = trim_right t" for t
    by (simp add: trim_right.simps [of "t @ [CHR 0x0D]"])
  moreover have "trim_right [] = []"
    by (simp add: trim_right.simps)
  ultimately show ?thesis
    by (simp add: trim_space_def trim_left_cr)
qed

lemma trim_drop_cr [simp]: "trim_space (drop_cr l) = trim_space l"
  using trim_space_cr [of "butlast l"] append_butlast_last_id [of l] by (metis drop_cr_def)

lemma uapi_lines_trim: "uapi_lines p (map f ls) = uapi_lines p ls" if "\<And>l. trim_space (f l) = trim_space l"
  by (induction p ls rule: uapi_lines.induct) (simp_all add: that Let_def uapi_setting_def key_value_def)

definition quick_only :: "string \<Rightarrow> bool" where
  "quick_only line = (case key_value line of None \<Rightarrow> False | Some (key, val) \<Rightarrow> key \<in> set wgQuickOnlyFields)"

lemma parse_lines_conf:
  "wpConf (fold parse_line ls p) = wpConf p @ concat (map (\<lambda>l. l @ [nl]) (filter (\<lambda>l. \<not> quick_only l) ls))"
  by (induction ls arbitrary: p)
     (auto simp: parse_line_def quick_only_def wgQuickOnlyFields_def Let_def split: option.splits)

lemma uapi_quick_only:
  assumes "quick_only l"
  shows "uapi_lines p (l # ls) = uapi_lines p ls"
proof -
  obtain k v where "key_value l = Some (k, v)" "k \<in> set wgQuickOnlyFields"
    using assms by (auto simp: quick_only_def split: option.splits)
  moreover from this have "CHR ''='' \<in> set (trim_space l)"
    by (auto simp: key_value_def split2_def split: if_splits)
  then have "trim_space l \<noteq> ''[Interface]''" "trim_space l \<noteq> ''[Peer]''"
    by auto
  ultimately show ?thesis
    by (auto simp: Let_def uapi_setting_def wgQuickOnlyFields_def)
qed

lemma uapi_lines_filter: "uapi_lines p (filter (\<lambda>l. \<not> quick_only l) ls) = uapi_lines p ls"
proof (induction ls arbitrary: p)
  case (Cons l ls)
  then show ?case
    using uapi_quick_only [of l p ls] by (cases "quick_only l") (simp_all add: Let_def del: uapi_lines.simps(2),
      simp add: Let_def)
qed simp

lemma uapi_lines_blank: "uapi_lines p (ls @ [[]]) = uapi_lines p ls"
  by (induction p ls rule: uapi_lines.induct) (simp_all add: Let_def)

lemma split_on_lines:
  "\<forall>l \<in> set ls. nl \<notin> set l \<Longrightarrow> split_on nl (concat (map (\<lambda>l. l @ [nl]) ls)) = ls @ [[]]"
proof (induction ls)
  case (Cons l ls)
  then have "\<forall>x \<in> set l. \<not> x = nl" by auto
  then show ?case
    using Cons split_by_append [of l "\<lambda>x. x = nl" nl] by (simp add: split_on_def)
qed (simp add: split_on_def)

lemma scan_lines_no_nl: "l \<in> set (scan_lines s) \<Longrightarrow> nl \<notin> set l"
proof -
  have "nl \<notin> set l" if "l \<in> set (split_on nl s)" for l
    using that split_by_no_sep [of l "\<lambda>x. x = nl" s nl] by (auto simp: split_on_def)
  moreover have "set (drop_cr l) \<subseteq> set l" for l
    by (auto simp: drop_cr_def dest: in_set_butlastD)
  ultimately show "l \<in> set (scan_lines s) \<Longrightarrow> nl \<notin> set l"
    by (fastforce simp: scan_lines_def Let_def split: if_splits dest: set_takeWhileD in_set_butlastD)
qed

lemma uapi_scan:
  assumes "\<forall>l \<in> set (split_on nl s). length l < scan_limit"
  shows "uapi_lines p (scan_lines s) = uapi_lines p (split_on nl s)"
proof -
  let ?ls = "split_on nl s"
  have ne: "?ls \<noteq> []" by (simp add: split_on_def)
  have tw: "takeWhile (\<lambda>l. length l < scan_limit) ?ls = ?ls"
    "takeWhile (\<lambda>l. length l < scan_limit) (butlast ?ls) = butlast ?ls"
    using assms in_set_butlastD [of _ ?ls] by (auto intro!: takeWhile_eq_all_conv [THEN iffD2])
  have "uapi_lines p (butlast ?ls) = uapi_lines p ?ls" if "last ?ls = []"
    using uapi_lines_blank [of p "butlast ?ls"] append_butlast_last_id [OF ne] that by simp
  then show ?thesis
    by (simp add: scan_lines_def Let_def uapi_lines_trim tw)
qed

text \<open>Property C28 (equivalence). Taking the fields of \<open>wg-quick\<close> out of the configuration changes nothing for
  the userspace device: the operation made from what \<open>parseWGConfig\<close> hands on is the one made from the
  text the server sent, whatever its line ends, comments and blank lines, as long as its lines fit the
  scanner.\<close>

theorem stripping_keeps_the_device:
  assumes "\<forall>l \<in> set (split_on nl conf). length l < scan_limit"
  shows "uapiConf (wpConf (parseWGConfig conf)) = uapiConf conf"
proof -
  let ?ls = "filter (\<lambda>l. \<not> quick_only l) (scan_lines conf)"
  have "split_on nl (concat (map (\<lambda>l. l @ [nl]) ?ls)) = ?ls @ [[]]"
    using scan_lines_no_nl by (intro split_on_lines) auto
  then show ?thesis
    using assms by (simp add: uapiConf_def parseWGConfig_def parse_lines_conf uapi_lines_blank
        uapi_lines_filter uapi_scan)
qed

lemma uapi_second_peer:
  assumes "\<forall>l \<in> set b. trim_space l \<noteq> ''[Interface]''"
  shows "uapi_lines p (a @ ''[Peer]'' # b @ ''[Peer]'' # c) =
     uapi_lines p (a @ ''[Peer]'' # b) @ uapi_lines True c"
proof -
  have t: "trim_space ''[Peer]'' = ''[Peer]''" by code_simp
  have peer: "uapi_lines True (b @ ''[Peer]'' # c) = uapi_lines True b @ uapi_lines True c"
    using assms by (induction b) (auto simp: Let_def t has_prefix_def)
  show ?thesis
    by (induction p a rule: uapi_lines.induct) (auto simp: Let_def t peer has_prefix_def)
qed

definition demo_conf :: string where
  "demo_conf = ''[Interface]'' @ [nl] @ ''Address = 10.0.0.2/24'' @ [CHR 0x0D, nl] @ ''DNS = 1.1.1.1'' @ [nl] @
     ''PrivateKey = QUI='' @ [nl, nl] @ ''[Peer]'' @ [nl] @ ''AllowedIPs = 0.0.0.0/0, ::/0'' @ [nl]"

theorem stripping_keeps_the_device_witness:
  "uapiConf (wpConf (parseWGConfig demo_conf)) = uapiConf demo_conf"
proof -
  have "split_on nl demo_conf = [''[Interface]'', ''Address = 10.0.0.2/24'' @ [CHR 0x0D], ''DNS = 1.1.1.1'',
      ''PrivateKey = QUI='', [], ''[Peer]'', ''AllowedIPs = 0.0.0.0/0, ::/0'', []]"
    by code_simp
  then have "\<forall>l \<in> set (split_on nl demo_conf). length l < scan_limit"
    by (simp add: scan_limit_def)
  then show ?thesis by (rule stripping_keeps_the_device)
qed

definition lines_ended :: "string \<Rightarrow> bool" where
  "lines_ended s \<longleftrightarrow> s = [] \<or> last s = nl"

lemma lines_ended_append: "lines_ended s \<Longrightarrow> lines_ended t \<Longrightarrow> lines_ended (s @ t)"
  by (cases "t = []") (simp_all add: lines_ended_def)

lemma setting_ended: "lines_ended (uapi_setting l)"
proof -
  have "lines_ended (concat (map (\<lambda>c. ''allowed_ip='' @ c @ [nl]) xs))" for xs
    by (induction xs rule: rev_induct) (auto simp: lines_ended_def)
  then show ?thesis
    by (auto simp: uapi_setting_def lines_ended_def split: option.splits)
qed

text \<open>What is made is made of lines, and an empty one closes it.\<close>

definition op_closed :: "string \<Rightarrow> bool" where
  "op_closed s \<longleftrightarrow> s \<noteq> [] \<and> last s = nl \<and> lines_ended (butlast s)"

lemma op_closed_append: "lines_ended s \<Longrightarrow> op_closed u \<Longrightarrow> op_closed (s @ u)"
  by (simp add: op_closed_def butlast_append lines_ended_append)

lemma uapi_lines_closed: "op_closed (uapi_lines q ls)"
proof (induction q ls rule: uapi_lines.induct)
  case (2 q l ls)
  have "lines_ended [nl]"
    by (simp add: lines_ended_def)
  then show ?case
    using 2 op_closed_append [OF setting_ended [of l]] op_closed_append [of "[nl]"] by (auto simp: Let_def)
qed (simp add: op_closed_def lines_ended_def)

text \<open>A configuration with two peers: the operation made from it is the one made
  from its text up to the second \<open>[Peer]\<close>, closed by the empty line that ends an operation of the device,
  with the settings of the second peer only behind that line. The userspace device, which stops reading
  at the first empty line, is thus set up with the first peer alone.\<close>

theorem uapi_ends_at_the_second_peer:
  assumes "\<forall>l \<in> set (split_on nl b). trim_space l \<noteq> ''[Interface]''"
  shows "uapiConf (a @ [nl] @ ''[Peer]'' @ [nl] @ b @ [nl] @ ''[Peer]'' @ [nl] @ c) =
           uapiConf (a @ [nl] @ ''[Peer]'' @ [nl] @ b) @ uapi_lines True (split_on nl c) \<and>
         op_closed (uapiConf (a @ [nl] @ ''[Peer]'' @ [nl] @ b))"
proof -
  have s: "split_on nl (x @ [nl] @ y) = split_on nl x @ split_on nl y" for x y
    using split_by_append2 [of "\<lambda>x. x = nl" nl x y] by (simp add: split_on_def)
  have p: "split_on nl ''[Peer]'' = [''[Peer]'']"
    by (simp add: split_on_def)
  show ?thesis
    using uapi_second_peer [OF assms, of False "split_on nl a" "split_on nl c"] uapi_lines_closed
    unfolding uapiConf_def s p by simp
qed

theorem uapi_ends_at_the_second_peer_witness:
  "uapiConf (''[Interface]'' @ [nl] @ ''[Peer]'' @ [nl] @ ''Endpoint=h:1'' @ [nl] @ ''[Peer]'' @ [nl] @
     ''Endpoint=h:2'') =
   uapiConf (''[Interface]'' @ [nl] @ ''[Peer]'' @ [nl] @ ''Endpoint=h:1'') @
     uapi_lines True (split_on nl ''Endpoint=h:2'')"
proof -
  have "split_on nl ''Endpoint=h:1'' = [''Endpoint=h:1'']" "trim_space ''Endpoint=h:1'' = ''Endpoint=h:1''"
    by code_simp+
  then have "\<forall>l \<in> set (split_on nl ''Endpoint=h:1''). trim_space l \<noteq> ''[Interface]''"
    by simp
  from uapi_ends_at_the_second_peer [OF this, of "''[Interface]''" "''Endpoint=h:2''"]
  show ?thesis by blast
qed

end
