(* ===== verification/WgRoutes.thy ===== *)
theory WgRoutes
  imports WgConfig
begin

text \<open>
  The tunnel on Linux and Windows (\<open>backend/wg.go\<close>, \<open>backend/ipv6_windows.go\<close>): applying a
  configuration and taking it down again, as the actions performed on the system. What a command answers
  depends on the actions before it and is an argument, as are the results of the WireGuard library and
  of the file system. Log lines are left out; the privileged helper of Windows is another component.
\<close>

section \<open>The system\<close>

datatype wg_action =
    Ran "string list" bool
  | WroteFile string string | RemovedFile string
  | CreatedTun string int | MadeDevice | ConfiguredDevice string bool | RaisedDevice bool
  | ClosedDevice | ClosedTun
  | RanPowerShell string bool

text \<open>
  \<open>weRun\<close> gives the error and the output of a command that fails; \<open>weDefault\<close> the output of the tool
  that prints the default route; \<open>weExe\<close> the path of \<open>wintun.dll\<close> beside the executable.
\<close>

record wg_env =
  weRun :: "wg_action list \<Rightarrow> string list \<Rightarrow> (string \<times> string) option"
  weTemp :: "string + string"
  weWrite :: "string option"
  weDefault :: "wg_action list \<Rightarrow> string option"
  weResolv :: "string option"
  weDll :: "string option"
  weExe :: "string + string"
  weHasDll :: bool
  weTun :: "string option"
  weIpc :: "string \<Rightarrow> string option"
  weUp :: "string option"
  weInterfaces :: "string option"
  wePowerShell :: "wg_action list \<Rightarrow> string \<Rightarrow> string + string"

record wg_state =
  wgRoutes :: "string list"
  wgDevice :: bool
  wgTun :: bool
  wgExclude :: "string list"
  wgPhysGW :: string
  wgIPv6Active :: bool
  wgDone :: "wg_action list"

definition wgIface :: string where "wgIface = ''wg-turn''"

definition vkExcludeCIDRs :: "string list" where
  "vkExcludeCIDRs =
     [''87.240.128.0/18'', ''87.240.192.0/19'', ''90.156.0.0/16'', ''93.186.224.0/21'', ''95.142.192.0/21'',
      ''95.163.0.0/16'', ''95.213.0.0/18'', ''155.212.192.0/20'', ''185.16.28.0/22'', ''194.67.64.0/18'',
      ''195.82.146.0/23'', ''213.180.193.0/24'', ''77.88.0.0/18'', ''8.8.8.0/24'', ''1.1.1.0/24'']"

definition did :: "wg_action \<Rightarrow> wg_state \<Rightarrow> wg_state" where
  "did a w = w\<lparr>wgDone := wgDone w @ [a]\<rparr>"

definition cmd_error :: "string list \<Rightarrow> string \<times> string \<Rightarrow> string" where
  "cmd_error c eo =
     hd c @ '' ['' @ join '' '' (tl c) @ '']: '' @ fst eo @ utf8 [32, 226, 128, 148, 32] @ trim_space (snd eo)"

text \<open>A command as it is executed, \<open>sudo -n\<close> before it on Linux; \<open>None\<close> is success.\<close>

definition runCmdLinux :: "wg_env \<Rightarrow> string list \<Rightarrow> wg_state \<Rightarrow> string option \<times> wg_state" where
  "runCmdLinux env c w =
     (let r = weRun env (wgDone w) (''sudo'' # ''-n'' # c)
      in (map_option (cmd_error c) r, did (Ran (''sudo'' # ''-n'' # c) (r = None)) w))"

definition runCmdWindows :: "wg_env \<Rightarrow> string list \<Rightarrow> wg_state \<Rightarrow> string option \<times> wg_state" where
  "runCmdWindows env c w =
     (let r = weRun env (wgDone w) c in (map_option (cmd_error c) r, did (Ran c (r = None)) w))"

section \<open>Linux\<close>

text \<open>The entries that are recorded: those whose command succeeded.\<close>

fun add_routes :: "wg_env \<Rightarrow> (string list \<times> string) list \<Rightarrow> wg_state \<Rightarrow> string list \<times> wg_state" where
  "add_routes env [] w = ([], w)"
| "add_routes env ((c, entry) # cs) w =
     (case runCmdLinux env c w of
        (r, w) \<Rightarrow> (case add_routes env cs w of
           (routes, w) \<Rightarrow> (if r = None then entry # routes else routes, w)))"

definition route_plan :: "wg_env \<Rightarrow> string \<Rightarrow> string list \<Rightarrow> string list \<Rightarrow> (string list \<times> string) list" where
  "route_plan env gw turnIPs allowedIPs =
     (let via = (\<lambda>dst. ([''ip'', ''route'', ''add'', dst, ''via'', gw], dst))
      in (if gw = [] then []
          else map (\<lambda>ip. via (ip @ ''/32'')) turnIPs @ map via vkExcludeCIDRs @
            map (\<lambda>dns. via (dns @ ''/32'')) (localDNSServers (weResolv env)))
         @ map (\<lambda>cidr. ([''ip'', ''route'', ''add'', cidr, ''dev'', wgIface], ''dev:'' @ cidr)) allowedIPs)"

fun delete_routes :: "wg_env \<Rightarrow> string list \<Rightarrow> wg_state \<Rightarrow> wg_state" where
  "delete_routes env [] w = w"
| "delete_routes env (entry # routes) w =
     delete_routes env routes (snd (runCmdLinux env
       (if has_prefix ''dev:'' entry
        then [''ip'', ''route'', ''del'', trim_prefix ''dev:'' entry, ''dev'', wgIface]
        else [''ip'', ''route'', ''del'', entry]) w))"

definition teardownLinux :: "wg_env \<Rightarrow> wg_state \<Rightarrow> wg_state" where
  "teardownLinux env w =
     (let routes = wgRoutes w
      in snd (runCmdLinux env [''ip'', ''link'', ''del'', wgIface]
           (delete_routes env routes (w\<lparr>wgRoutes := []\<rparr>))))"

text \<open>The interface, from the file of the configuration to the running link.\<close>

definition setup_link :: "wg_env \<Rightarrow> string \<Rightarrow> wg_parsed \<Rightarrow> wg_state \<Rightarrow> string option \<times> wg_state" where
  "setup_link env tmpName p w =
     (case runCmdLinux env [''ip'', ''link'', ''add'', wgIface, ''type'', ''wireguard''] w of
        (Some e, w) \<Rightarrow> (Some (''ip link add: '' @ e), w)
      | (None, w) \<Rightarrow>
     (case runCmdLinux env [''wg'', ''setconf'', wgIface, tmpName] w of
        (Some e, w) \<Rightarrow> (Some (''wg setconf: '' @ e), w)
      | (None, w) \<Rightarrow>
     (case runCmdLinux env [''ip'', ''addr'', ''add'', wpAddr p, ''dev'', wgIface]
             (snd (runCmdLinux env [''ip'', ''addr'', ''flush'', ''dev'', wgIface] w)) of
        (Some e, w) \<Rightarrow> (Some (''ip addr add: '' @ e), w)
      | (None, w) \<Rightarrow>
     (case runCmdLinux env [''ip'', ''link'', ''set'', wgIface, ''up'']
             (if wpMtu p \<noteq> []
              then snd (runCmdLinux env [''ip'', ''link'', ''set'', wgIface, ''mtu'', wpMtu p] w) else w) of
        (Some e, w) \<Rightarrow> (Some (''ip link set up: '' @ e), w)
      | (None, w) \<Rightarrow> (None, w)))))"

definition applyLinux :: "wg_env \<Rightarrow> string \<Rightarrow> string list \<Rightarrow> wg_state \<Rightarrow> string option \<times> wg_state" where
  "applyLinux env conf turnIPs w =
     (let w = teardownLinux env w;
          p = parseWGConfig conf
      in if wpAddr p = [] then (Some ''Address not found in wg config'', w)
         else case weTemp env of
           Inl e \<Rightarrow> (Some e, w)
         | Inr tmpName \<Rightarrow>
             (case weWrite env of
                Some e \<Rightarrow> (Some e, did (RemovedFile tmpName) w)
              | None \<Rightarrow>
                  (case setup_link env tmpName p (did (WroteFile tmpName (wpConf p)) w) of
                     (Some e, w) \<Rightarrow> (Some e, did (RemovedFile tmpName) w)
                   | (None, w) \<Rightarrow>
                       (case add_routes env (route_plan env (defaultGatewayLinux (weDefault env (wgDone w)))
                               turnIPs (wpAllowed p)) w of
                          (routes, w) \<Rightarrow> (None, did (RemovedFile tmpName) (w\<lparr>wgRoutes := routes\<rparr>))))))"

section \<open>IPv6 on Windows\<close>

text \<open>
  The firewall rule against IPv6 leaks; its scripts by name. A script answers its trimmed output or an
  error.
\<close>

definition ps_remove :: string where "ps_remove = ''Remove-NetFirewallRule''"

definition ps_create :: string where "ps_create = ''New-NetFirewallRule''"

definition run_ps :: "wg_env \<Rightarrow> string \<Rightarrow> wg_state \<Rightarrow> (string + string) \<times> wg_state" where
  "run_ps env script w =
     (let r = wePowerShell env (wgDone w) script
      in (r, did (RanPowerShell script (case r of Inl e \<Rightarrow> False | Inr out \<Rightarrow> True)) w))"

definition removeIPv6LeakProtectionRule :: "wg_env \<Rightarrow> wg_state \<Rightarrow> (string + bool) \<times> wg_state" where
  "removeIPv6LeakProtectionRule env w =
     (case run_ps env ps_remove w of
        (Inl e, w) \<Rightarrow> (Inl e, w)
      | (Inr out, w) \<Rightarrow> (Inr (trim_space out = ''removed''), w))"

definition enableIPv6LeakProtection :: "wg_env \<Rightarrow> wg_state \<Rightarrow> string option \<times> wg_state" where
  "enableIPv6LeakProtection env w =
     (case removeIPv6LeakProtectionRule env w of
        (Inl e, w) \<Rightarrow> (Some (''remove stale firewall rule: '' @ e), w)
      | (Inr removed, w) \<Rightarrow>
          (case run_ps env ps_create (w\<lparr>wgIPv6Active := False\<rparr>) of
             (Inl e, w) \<Rightarrow> (Some e, snd (removeIPv6LeakProtectionRule env w))
           | (Inr out, w) \<Rightarrow> (None, w\<lparr>wgIPv6Active := True\<rparr>)))"

definition restoreIPv6LeakProtection :: "wg_env \<Rightarrow> wg_state \<Rightarrow> string option \<times> wg_state" where
  "restoreIPv6LeakProtection env w =
     (case removeIPv6LeakProtectionRule env w of
        (Inl e, w) \<Rightarrow> (Some e, w)
      | (Inr removed, w) \<Rightarrow> (None, w\<lparr>wgIPv6Active := False\<rparr>))"

definition cleanupStaleIPv6LeakProtection :: "wg_env \<Rightarrow> wg_state \<Rightarrow> wg_state" where
  "cleanupStaleIPv6LeakProtection env w =
     (if wgIPv6Active w then w else snd (removeIPv6LeakProtectionRule env w))"

section \<open>Windows\<close>

definition extractWintun :: "wg_env \<Rightarrow> string option" where
  "extractWintun env =
     (case weDll env of
        None \<Rightarrow> Some ''wintun.dll not embedded''
      | Some dll \<Rightarrow>
          (case weExe env of
             Inl e \<Rightarrow> Some e
           | Inr dst \<Rightarrow> if weHasDll env then None else weWrite env))"

fun run_all :: "wg_env \<Rightarrow> string list list \<Rightarrow> wg_state \<Rightarrow> wg_state" where
  "run_all env [] w = w"
| "run_all env (c # cs) w = run_all env cs (snd (runCmdWindows env c w))"

definition delete_interface :: "string \<Rightarrow> string list" where
  "delete_interface name = [''netsh'', ''interface'', ''delete'', ''interface'', name]"

text \<open>The adapters a table of interfaces shows as ours, by the last word of their lines.\<close>

definition orphan_adapters :: "string \<Rightarrow> string list" where
  "orphan_adapters out =
     concat (map (\<lambda>line.
       (let lower = to_lower line; fs = Prelude.fields line
        in if (contains ''wintun'' lower \<or> contains ''wg-turn'' lower) \<and> 4 \<le> length fs \<and> last fs \<noteq> wgIface
           then [last fs] else [])) (split_on nl out))"

definition cleanupWintunAdapter :: "wg_env \<Rightarrow> wg_state \<Rightarrow> wg_state" where
  "cleanupWintunAdapter env w =
     run_all env
       (map delete_interface
          (wgIface # map (\<lambda>i. wgIface @ '' '' @ digits_nat i) [2..<11] @
           (case weInterfaces env of None \<Rightarrow> [] | Some out \<Rightarrow> orphan_adapters out))) w"

definition delete_exclude :: "string \<Rightarrow> string list list" where
  "delete_exclude cidr =
     (case parseCIDR cidr of
        None \<Rightarrow> []
      | Some (ip, netmask) \<Rightarrow> if ip = [] then [] else [[''route'', ''delete'', ip]])"

definition change_metric :: "string \<Rightarrow> string \<Rightarrow> string list" where
  "change_metric gw metric = [''route'', ''change'', ''0.0.0.0'', ''mask'', ''0.0.0.0'', gw, ''metric'', metric]"

definition teardownWindowsLocalWithLog :: "wg_env \<Rightarrow> wg_state \<Rightarrow> wg_state" where
  "teardownWindowsLocalWithLog env w =
     (let hadTunnel = wgDevice w \<or> wgTun w;
          w = (if wgPhysGW w \<noteq> []
               then (snd (runCmdWindows env (change_metric (wgPhysGW w) ''35'') w))\<lparr>wgPhysGW := []\<rparr> else w);
          w = (run_all env (concat (map delete_exclude (wgExclude w))) w)\<lparr>wgExclude := []\<rparr>;
          w = (if wgDevice w then (did ClosedDevice w)\<lparr>wgDevice := False\<rparr> else w);
          w = (if wgTun w then (did ClosedTun w)\<lparr>wgTun := False\<rparr> else w);
          w = (if hadTunnel then cleanupWintunAdapter env w else w)
      in snd (restoreIPv6LeakProtection env w))"

definition scan_mtu :: "string \<Rightarrow> int" where
  "scan_mtu mtuStr =
     (if mtuStr = [] then 1300 else case sscanf_int mtuStr of Some n \<Rightarrow> n | None \<Rightarrow> 1300)"

text \<open>Lines 350 to 362: the address of the interface and its metric.\<close>

definition set_address :: "wg_env \<Rightarrow> string \<Rightarrow> wg_state \<Rightarrow> wg_state" where
  "set_address env addr w =
     (let set_cmd = (\<lambda>a m. [''netsh'', ''interface'', ''ip'', ''set'', ''address'', ''name='' @ wgIface,
            ''source=static'', a, m]);
          (r, w) = runCmdWindows env (set_cmd addr ''none'') w;
          w = (if r = None then w
               else case parseCIDR addr of
                 None \<Rightarrow> w
               | Some (host, netmask) \<Rightarrow>
                   if host = [] then w else snd (runCmdWindows env (set_cmd host netmask) w))
      in snd (runCmdWindows env [''netsh'', ''interface'', ''ip'', ''set'', ''interface'',
            ''interface='' @ wgIface, ''metric=1''] w))"

text \<open>Lines 364 to 388: the routes past the tunnel.\<close>

definition add_exclude :: "string \<Rightarrow> string \<Rightarrow> string list list" where
  "add_exclude gw cidr =
     (case parseCIDR cidr of
        None \<Rightarrow> []
      | Some (ip, netmask) \<Rightarrow> [[''route'', ''add'', ip, ''mask'', netmask, gw]])"

definition exclude_routes :: "wg_env \<Rightarrow> string list \<Rightarrow> wg_state \<Rightarrow> wg_state" where
  "exclude_routes env turnIPs w =
     (let gw = defaultGatewayWindows (weDefault env (wgDone w))
      in if gw = [] then w\<lparr>wgExclude := []\<rparr>
         else let w = snd (runCmdWindows env (change_metric gw ''9999'') (w\<lparr>wgPhysGW := gw\<rparr>));
                  excludes = map (\<lambda>ip. ip @ ''/32'') turnIPs @ vkExcludeCIDRs
              in (run_all env (concat (map (add_exclude gw) excludes)) w)\<lparr>wgExclude := excludes\<rparr>)"

text \<open>The userspace device, up to its raising.\<close>

definition make_device :: "wg_env \<Rightarrow> wg_parsed \<Rightarrow> wg_state \<Rightarrow> string option \<times> wg_state" where
  "make_device env p w =
     (case weTun env of
        Some e \<Rightarrow> (Some (''create TUN: '' @ e), w)
      | None \<Rightarrow>
          (let w = (did MadeDevice (did (CreatedTun wgIface (scan_mtu (wpMtu p))) w))\<lparr>wgTun := True, wgDevice := True\<rparr>;
               uapi = uapiConf (wpConf p);
               w = did (ConfiguredDevice uapi (weIpc env uapi = None)) w
           in case weIpc env uapi of
                Some e \<Rightarrow> (Some (''IpcSet: '' @ e), w)
              | None \<Rightarrow>
                  (case weUp env of
                     Some e \<Rightarrow> (Some (''device up: '' @ e), did (RaisedDevice False) w)
                   | None \<Rightarrow> (None, did (RaisedDevice True) w))))"

definition applyWindowsLocal :: "wg_env \<Rightarrow> string \<Rightarrow> string list \<Rightarrow> wg_state \<Rightarrow> string option \<times> wg_state" where
  "applyWindowsLocal env conf turnIPs w =
     (let w = teardownWindowsLocalWithLog env w
      in case extractWintun env of
           Some e \<Rightarrow> (Some (''extract wintun.dll: '' @ e), w)
         | None \<Rightarrow>
             (let p = parseWGConfig conf
              in if wpAddr p = [] then (Some ''Address not found in wg config'', w)
                 else case make_device env p w of
                   (Some e, w) \<Rightarrow> (Some e, w)
                 | (None, w) \<Rightarrow>
                     (let w = exclude_routes env turnIPs (set_address env (wpAddr p) w);
                          w = (run_all env (map (\<lambda>cidr. [''netsh'', ''interface'', ''ip'', ''add'', ''route'', cidr, wgIface])
                                 (wpAllowed p)) w)\<lparr>wgRoutes := wpAllowed p\<rparr>
                      in if isIPv4FullTunnel (wpAllowed p) then
                           (case enableIPv6LeakProtection env w of
                              (Some e, w) \<Rightarrow> (Some (''IPv6 leak protection: '' @ e), w)
                            | (None, w) \<Rightarrow> (None, w))
                         else (None, w))))"

text \<open>\<open>Apply\<close> for the Windows of an administrator, and the start after a crash.\<close>

definition ApplyWindows :: "wg_env \<Rightarrow> string \<Rightarrow> string list \<Rightarrow> wg_state \<Rightarrow> string option \<times> wg_state" where
  "ApplyWindows env conf turnIPs w =
     (case applyWindowsLocal env conf turnIPs w of
        (Some e, w) \<Rightarrow> (Some e, teardownWindowsLocalWithLog env w)
      | (None, w) \<Rightarrow> (None, w))"

section \<open>The contract of a tunnel\<close>

datatype 'e wg_op = OpApply 'e string "string list" | OpTeardown 'e

fun run_ops ::
  "('e \<Rightarrow> string \<Rightarrow> string list \<Rightarrow> 's \<Rightarrow> string option \<times> 's) \<Rightarrow> ('e \<Rightarrow> 's \<Rightarrow> 's) \<Rightarrow> 'e wg_op list \<Rightarrow> 's \<Rightarrow> 's" where
  "run_ops apply_op down [] s = s"
| "run_ops apply_op down (OpApply e conf ips # ops) s = run_ops apply_op down ops (snd (apply_op e conf ips s))"
| "run_ops apply_op down (OpTeardown e # ops) s = run_ops apply_op down ops (down e s)"

text \<open>
  What the bridge relies on: every state accounts for what was done to the system (\<open>accounted\<close>), and
  taking the tunnel down undoes all of it.
\<close>

locale tunnel =
  fixes apply_op :: "'e \<Rightarrow> string \<Rightarrow> string list \<Rightarrow> 's \<Rightarrow> string option \<times> 's"
    and down :: "'e \<Rightarrow> 's \<Rightarrow> 's"
    and accounted :: "'s \<Rightarrow> bool"
    and undone :: "'s \<Rightarrow> bool"
    and good_ips :: "string list \<Rightarrow> bool"
  assumes apply_accounted: "accounted s \<Longrightarrow> good_ips ips \<Longrightarrow> accounted (snd (apply_op e conf ips s))"
    and down_accounted: "accounted s \<Longrightarrow> accounted (down e s)"
    and down_undone: "accounted s \<Longrightarrow> undone (down e s)"
begin

lemma ops_accounted:
  "accounted s \<Longrightarrow> \<forall>e conf ips. OpApply e conf ips \<in> set ops \<longrightarrow> good_ips ips \<Longrightarrow>
     accounted (run_ops apply_op down ops s)"
proof (induction ops arbitrary: s)
  case (Cons op ops)
  then show ?case
    using apply_accounted down_accounted by (cases op) fastforce+
qed simp

lemma ops_undone:
  assumes "accounted s" "\<forall>e conf ips. OpApply e conf ips \<in> set ops \<longrightarrow> good_ips ips"
  shows "undone (down e (run_ops apply_op down ops s))"
  using ops_accounted [OF assms] by (rule down_undone)

end

section \<open>What stands on the system\<close>

text \<open>
  Read off the actions performed: an entry is present from the action that sets it up to the one that
  takes it away. Where that one fails the entry is stuck: it may be there still, the program has given
  the order to remove it, and the system has refused. \<open>eff\<close> tells of an action which entry it is about,
  whether it sets it up, and whether it has succeeded.
\<close>

datatype standing = Absent | Present | Stuck

definition standing_after ::
  "('a \<Rightarrow> ('k \<times> bool \<times> bool) option) \<Rightarrow> 'k \<Rightarrow> 'a \<Rightarrow> standing \<Rightarrow> standing" where
  "standing_after eff k a st =
     (case eff a of
        None \<Rightarrow> st
      | Some (k', up, ok) \<Rightarrow>
          if k' \<noteq> k then st else if ok then (if up then Present else Absent)
          else if up \<or> st = Absent then st else Stuck)"

definition standing :: "(wg_action \<Rightarrow> ('k \<times> bool \<times> bool) option) \<Rightarrow> 'k \<Rightarrow> wg_state \<Rightarrow> standing" where
  "standing eff k w = fold (standing_after eff k) (wgDone w) Absent"

text \<open>Linux: a route by its destination and whether it leads into the tunnel, and the interface.\<close>

definition linux_route :: "wg_action \<Rightarrow> ((string \<times> bool) \<times> bool \<times> bool) option" where
  "linux_route a =
     (case a of
        Ran c ok \<Rightarrow>
          if length c = 8 \<and> take 5 c = [''sudo'', ''-n'', ''ip'', ''route'', ''add'']
          then Some ((c ! 5, c ! 6 = ''dev''), True, ok)
          else if 6 \<le> length c \<and> take 5 c = [''sudo'', ''-n'', ''ip'', ''route'', ''del'']
          then Some ((c ! 5, length c = 8), False, ok)
          else None
      | _ \<Rightarrow> None)"

definition linux_link :: "wg_action \<Rightarrow> (unit \<times> bool \<times> bool) option" where
  "linux_link a =
     (case a of
        Ran c ok \<Rightarrow>
          if c = [''sudo'', ''-n'', ''ip'', ''link'', ''add'', wgIface, ''type'', ''wireguard''] then Some ((), True, ok)
          else if c = [''sudo'', ''-n'', ''ip'', ''link'', ''del'', wgIface] then Some ((), False, ok)
          else None
      | _ \<Rightarrow> None)"

text \<open>Windows: a route past the tunnel, the raised metric of a gateway, the firewall rule, the device, the adapter.\<close>

definition exclude_route :: "wg_action \<Rightarrow> (string \<times> bool \<times> bool) option" where
  "exclude_route a =
     (case a of
        Ran c ok \<Rightarrow>
          if length c = 6 \<and> take 2 c = [''route'', ''add''] \<and> c ! 2 \<noteq> [] then Some (c ! 2, True, ok)
          else if length c = 3 \<and> take 2 c = [''route'', ''delete''] then Some (c ! 2, False, ok)
          else None
      | _ \<Rightarrow> None)"

definition raised_metric :: "wg_action \<Rightarrow> (string \<times> bool \<times> bool) option" where
  "raised_metric a =
     (case a of
        Ran c ok \<Rightarrow>
          if length c = 8 \<and> take 2 c = [''route'', ''change''] then Some (c ! 5, c ! 7 = ''9999'', ok) else None
      | _ \<Rightarrow> None)"

definition ipv6_rule :: "wg_action \<Rightarrow> (unit \<times> bool \<times> bool) option" where
  "ipv6_rule a = (case a of RanPowerShell s ok \<Rightarrow> Some ((), s = ps_create, ok) | _ \<Rightarrow> None)"

definition open_device :: "wg_action \<Rightarrow> (unit \<times> bool \<times> bool) option" where
  "open_device a = (case a of MadeDevice \<Rightarrow> Some ((), True, True) | ClosedDevice \<Rightarrow> Some ((), False, True) | _ \<Rightarrow> None)"

definition open_tun :: "wg_action \<Rightarrow> (unit \<times> bool \<times> bool) option" where
  "open_tun a = (case a of CreatedTun n m \<Rightarrow> Some ((), True, True) | ClosedTun \<Rightarrow> Some ((), False, True) | _ \<Rightarrow> None)"

lemma did_fields [simp]:
  "wgRoutes (did a w) = wgRoutes w" "wgDevice (did a w) = wgDevice w" "wgTun (did a w) = wgTun w"
  "wgExclude (did a w) = wgExclude w" "wgPhysGW (did a w) = wgPhysGW w"
  "wgIPv6Active (did a w) = wgIPv6Active w" "wgDone (did a w) = wgDone w @ [a]"
  by (simp_all add: did_def)

lemma standing_did: "standing eff k (did a w) = standing_after eff k a (standing eff k w)"
  by (simp add: standing_def)

lemma standing_update [simp]:
  "standing eff k (w\<lparr>wgRoutes := r\<rparr>) = standing eff k w" "standing eff k (w\<lparr>wgDevice := b\<rparr>) = standing eff k w"
  "standing eff k (w\<lparr>wgTun := b\<rparr>) = standing eff k w" "standing eff k (w\<lparr>wgExclude := r\<rparr>) = standing eff k w"
  "standing eff k (w\<lparr>wgPhysGW := s\<rparr>) = standing eff k w" "standing eff k (w\<lparr>wgIPv6Active := b\<rparr>) = standing eff k w"
  by (simp_all add: standing_def)

lemma standing_other: "eff a = None \<Longrightarrow> standing eff k (did a w) = standing eff k w"
  by (simp add: standing_did standing_after_def)

lemma standing_up:
  "eff a = Some (k', True, ok) \<Longrightarrow>
     standing eff k (did a w) = (if k' = k \<and> ok then Present else standing eff k w)"
  by (simp add: standing_did standing_after_def)

lemma present_down:
  "eff a = Some (k', False, ok) \<Longrightarrow>
     standing eff k (did a w) = Present \<longleftrightarrow> standing eff k w = Present \<and> k' \<noteq> k"
  by (simp add: standing_did standing_after_def)

section \<open>Linux: the routes\<close>

text \<open>
  \<open>entry_of\<close> is the route a recorded entry stands for. \<open>added\<close> are the routes added, \<open>ordered\<close> those whose
  deletion was ordered, each in the order of the actions.
\<close>

definition entry_of :: "string \<Rightarrow> string \<times> bool" where
  "entry_of r = (if has_prefix ''dev:'' r then (trim_prefix ''dev:'' r, True) else (r, False))"

definition added_entry :: "wg_action \<Rightarrow> (string \<times> bool) list" where
  "added_entry a = (case linux_route a of Some (e, up, ok) \<Rightarrow> if up \<and> ok then [e] else [] | None \<Rightarrow> [])"

definition ordered_entry :: "wg_action \<Rightarrow> (string \<times> bool) list" where
  "ordered_entry a = (case linux_route a of Some (e, up, ok) \<Rightarrow> if up then [] else [e] | None \<Rightarrow> [])"

definition added :: "wg_state \<Rightarrow> (string \<times> bool) list" where
  "added w = concat (map added_entry (wgDone w))"

definition ordered :: "wg_state \<Rightarrow> (string \<times> bool) list" where
  "ordered w = concat (map ordered_entry (wgDone w))"

definition linux_accounted :: "wg_state \<Rightarrow> bool" where
  "linux_accounted w \<longleftrightarrow> added w = ordered w @ map entry_of (wgRoutes w) \<and>
     (\<forall>e. standing linux_route e w = Present \<longleftrightarrow> e \<in> set (map entry_of (wgRoutes w)))"

definition linux_undone :: "wg_state \<Rightarrow> bool" where
  "linux_undone w \<longleftrightarrow> wgRoutes w = [] \<and> added w = ordered w \<and>
     (\<forall>e. standing linux_route e w \<noteq> Present) \<and> standing linux_link () w \<noteq> Present"

definition plain_ips :: "string list \<Rightarrow> bool" where
  "plain_ips ips \<longleftrightarrow> list_all (\<lambda>ip. \<not> has_prefix ''dev:'' ip) ips"

lemma added_did [simp]: "added (did a w) = added w @ added_entry a"
  by (simp add: added_def did_def)

lemma ordered_did [simp]: "ordered (did a w) = ordered w @ ordered_entry a"
  by (simp add: ordered_def did_def)

lemma added_update [simp]: "added (w\<lparr>wgRoutes := r\<rparr>) = added w" "ordered (w\<lparr>wgRoutes := r\<rparr>) = ordered w"
  by (simp_all add: added_def ordered_def)

text \<open>What an action means for the routes: nothing, an addition or a deletion.\<close>

lemma route_none:
  assumes "linux_route a = None"
  shows "added_entry a = []" "ordered_entry a = []" "standing linux_route e (did a w) = standing linux_route e w"
  using assms by (simp_all add: added_entry_def ordered_entry_def standing_other)

lemma route_add:
  assumes "linux_route a = Some (k, True, ok)"
  shows "added_entry a = (if ok then [k] else [])" "ordered_entry a = []"
    "standing linux_route e (did a w) = Present \<longleftrightarrow> standing linux_route e w = Present \<or> ok \<and> e = k"
  using assms by (auto simp: added_entry_def ordered_entry_def standing_up)

lemma route_del:
  assumes "linux_route a = Some (k, False, ok)"
  shows "added_entry a = []" "ordered_entry a = [k]"
    "standing linux_route e (did a w) = Present \<longleftrightarrow> standing linux_route e w = Present \<and> e \<noteq> k"
  using assms present_down [where eff = linux_route, OF assms] by (auto simp: added_entry_def ordered_entry_def)

lemma file_route [simp]: "linux_route (WroteFile f t) = None" "linux_route (RemovedFile f) = None"
  by (simp_all add: linux_route_def)

lemmas file_entries [simp] = file_route [THEN route_none(1)] file_route [THEN route_none(2)] file_route [THEN route_none(3)]

lemma run_linux_state: "snd (runCmdLinux env c w) = did (Ran (''sudo'' # ''-n'' # c) (fst (runCmdLinux env c w) = None)) w"
  by (simp add: runCmdLinux_def Let_def)

lemma run_linux_cases:
  "runCmdLinux env c w = (r, w') \<Longrightarrow> w' = did (Ran (''sudo'' # ''-n'' # c) (r = None)) w"
  using run_linux_state [of env c w] by simp

lemma del_route:
  "linux_route (Ran (''sudo'' # ''-n'' #
     (if has_prefix ''dev:'' entry
      then [''ip'', ''route'', ''del'', trim_prefix ''dev:'' entry, ''dev'', wgIface]
      else [''ip'', ''route'', ''del'', entry])) ok) = Some (entry_of entry, False, ok)"
  by (simp add: linux_route_def entry_of_def)

lemma delete_routes_done:
  "added (delete_routes env routes w) = added w \<and> ordered (delete_routes env routes w) = ordered w @ map entry_of routes \<and>
   wgRoutes (delete_routes env routes w) = wgRoutes w \<and>
   (\<forall>e. standing linux_route e (delete_routes env routes w) = Present \<longleftrightarrow>
      standing linux_route e w = Present \<and> e \<notin> set (map entry_of routes))"
proof (induction env routes w rule: delete_routes.induct)
  case (2 env entry routes w)
  then show ?case
    by (simp only: delete_routes.simps run_linux_state added_did ordered_did route_del [OF del_route] did_fields) auto
qed simp

lemma link_del:
  "linux_route (Ran (''sudo'' # ''-n'' # [''ip'', ''link'', ''del'', wgIface]) ok) = None"
  "linux_link (Ran (''sudo'' # ''-n'' # [''ip'', ''link'', ''del'', wgIface]) ok) = Some ((), False, ok)"
  by (simp_all add: linux_route_def linux_link_def)

lemma teardown_linux:
  "added (teardownLinux env w) = added w \<and> ordered (teardownLinux env w) = ordered w @ map entry_of (wgRoutes w) \<and>
   wgRoutes (teardownLinux env w) = [] \<and> standing linux_link () (teardownLinux env w) \<noteq> Present \<and>
   (\<forall>e. standing linux_route e (teardownLinux env w) = Present \<longleftrightarrow>
      standing linux_route e w = Present \<and> e \<notin> set (map entry_of (wgRoutes w)))"
  using delete_routes_done [of env "wgRoutes w" "w\<lparr>wgRoutes := []\<rparr>"]
  by (simp only: teardownLinux_def run_linux_state Let_def added_did ordered_did route_none [OF link_del(1)] did_fields
      present_down [where eff = linux_link, OF link_del(2)]) simp

text \<open>Between the teardown and the routes no route command is run.\<close>

definition same_routes :: "wg_state \<Rightarrow> wg_state \<Rightarrow> bool" where
  "same_routes w w' \<longleftrightarrow> added w' = added w \<and> ordered w' = ordered w \<and> wgRoutes w' = wgRoutes w \<and>
     (\<forall>e. standing linux_route e w' = standing linux_route e w)"

lemma same_routes_run:
  assumes "take 2 c \<noteq> [''ip'', ''route'']"
  shows "same_routes w (did (Ran (''sudo'' # ''-n'' # c) ok) w)"
proof -
  have "take 5 (''sudo'' # ''-n'' # c) \<noteq> [''sudo'', ''-n'', ''ip'', ''route'', x]" for x
    using assms by (cases c; cases "tl c") auto
  then have "linux_route (Ran (''sudo'' # ''-n'' # c) ok) = None"
    by (simp add: linux_route_def)
  from route_none [OF this] show ?thesis
    by (simp add: same_routes_def)
qed

lemma same_routes_trans: "same_routes u v \<Longrightarrow> same_routes v w \<Longrightarrow> same_routes u w"
  by (simp add: same_routes_def)

lemma same_routes_cmd:
  "runCmdLinux env c w = (r, w') \<Longrightarrow> take 2 c \<noteq> [''ip'', ''route''] \<Longrightarrow> same_routes u w \<Longrightarrow> same_routes u w'"
  using run_linux_cases [of env c w r w'] same_routes_run same_routes_trans by blast

lemma same_routes_snd:
  "take 2 c \<noteq> [''ip'', ''route''] \<Longrightarrow> same_routes u w \<Longrightarrow> same_routes u (snd (runCmdLinux env c w))"
  unfolding run_linux_state using same_routes_run same_routes_trans by blast

lemma setup_link_done:
  assumes "setup_link env f p w = (r, w')"
  shows "same_routes w w'"
proof -
  have "same_routes w w" by (simp add: same_routes_def)
  then show ?thesis
    using assms
    by (auto simp: setup_link_def split: prod.splits option.splits if_splits
        dest!: same_routes_cmd intro: same_routes_snd)
qed

text \<open>The entries a plan records when its commands succeed are the ones its commands add.\<close>

definition plan_ok :: "(string list \<times> string) list \<Rightarrow> bool" where
  "plan_ok cs \<longleftrightarrow> (\<forall>(c, entry) \<in> set cs. \<forall>ok.
     linux_route (Ran (''sudo'' # ''-n'' # c) ok) = Some (entry_of entry, True, ok))"

lemma add_routes_done:
  "plan_ok cs \<Longrightarrow> add_routes env cs w = (routes, w') \<Longrightarrow>
     added w' = added w @ map entry_of routes \<and> ordered w' = ordered w \<and> wgRoutes w' = wgRoutes w \<and>
     (\<forall>e. standing linux_route e w' = Present \<longleftrightarrow>
        standing linux_route e w = Present \<or> e \<in> set (map entry_of routes))"
proof (induction env cs w arbitrary: routes w' rule: add_routes.induct)
  case (2 env c entry cs w)
  obtain r w1 where r: "runCmdLinux env c w = (r, w1)" by (cases "runCmdLinux env c w")
  obtain rs w2 where a: "add_routes env cs w1 = (rs, w2)" by (cases "add_routes env cs w1")
  have p: "plan_ok cs" and c: "linux_route (Ran (''sudo'' # ''-n'' # c) (r = None)) = Some (entry_of entry, True, r = None)"
    using "2.prems"(1) by (simp_all add: plan_ok_def)
  note ih = "2.IH" [OF r [symmetric] p a]
  have "routes = (if r = None then entry # rs else rs)" "w' = w2"
    using "2.prems"(2) r a by auto
  then show ?case
    using ih unfolding run_linux_cases [OF r] added_did ordered_did route_add [OF c] did_fields by auto
qed simp

lemma plan_entries:
  "linux_route (Ran (''sudo'' # ''-n'' # [''ip'', ''route'', ''add'', dst, ''via'', gw]) ok) = Some ((dst, False), True, ok)"
  "linux_route (Ran (''sudo'' # ''-n'' # [''ip'', ''route'', ''add'', dst, ''dev'', i]) ok) = Some ((dst, True), True, ok)"
  by (simp_all add: linux_route_def)

lemma entry_of_dev [simp]: "entry_of (''dev:'' @ r) = (r, True)"
  by (simp only: entry_of_def has_prefix_append trim_prefix_append if_True)

lemma entry_of_plain: "\<not> has_prefix ''dev:'' r \<Longrightarrow> entry_of r = (r, False)"
  by (simp add: entry_of_def)

text \<open>A DNS server is an address, and no address looks like a recorded tunnel route.\<close>

lemma dns_plain: "dns \<in> set (localDNSServers resolv) \<Longrightarrow> parse_ip dns \<noteq> None"
  by (auto simp: localDNSServers_def split: option.splits list.splits if_splits)

lemma hex_of_dev: "hex_value CHR ''d'' = Some 13" "hex_value CHR ''e'' = Some 14" "hex_value CHR ''v'' = None"
  by (simp_all add: hex_value_def is_digit_def Let_def)

lemma parse_ip_dev: "parse_ip (''dev:'' @ s) = None"
proof -
  have "ip6_groups (Suc n) (''dev:'' @ s) [] None = None" for n
    by (simp add: hex_of_dev has_prefix_def Let_def)
  from this [of 7] have "parse_ip6 (''dev:'' @ s) = None"
    by (simp add: parse_ip6_def has_prefix_def)
  then show ?thesis
    by (simp add: parse_ip_def)
qed

lemma plain_append: "\<not> has_prefix ''dev:'' ip \<Longrightarrow> \<not> has_prefix ''dev:'' (ip @ ''/32'')"
  by (cases ip; cases "tl ip"; cases "tl (tl ip)"; cases "tl (tl (tl ip))") (auto simp: has_prefix_def)

lemma route_plan_ok:
  assumes "plain_ips ips"
  shows "plan_ok (route_plan env gw ips allowed)"
proof -
  have vk: "\<forall>c \<in> set vkExcludeCIDRs. \<not> has_prefix ''dev:'' c"
    by (simp add: vkExcludeCIDRs_def has_prefix_def)
  have dns: "\<not> has_prefix ''dev:'' (d @ ''/32'')" if "d \<in> set (localDNSServers (weResolv env))" for d
    using dns_plain [OF that] parse_ip_dev by (intro plain_append) (auto simp: has_prefix_iff)
  have ips: "\<not> has_prefix ''dev:'' (ip @ ''/32'')" if "ip \<in> set ips" for ip
    using assms that by (intro plain_append) (simp add: plain_ips_def list_all_iff)
  show ?thesis
    using vk dns ips by (auto simp: plan_ok_def route_plan_def Let_def plan_entries entry_of_plain
        simp del: append_Cons simp: append_Cons [where xs = "''via''"])
qed

lemma apply_linux:
  assumes "linux_accounted w" "plain_ips ips"
  shows "linux_accounted (snd (applyLinux env conf ips w))"
proof -
  let ?w = "teardownLinux env w"
  have t: "added ?w = ordered ?w" "wgRoutes ?w = []" "standing linux_route e ?w \<noteq> Present" for e
    using teardown_linux [of env w] assms(1) by (auto simp: linux_accounted_def simp del: split_paired_All)
  have f: "linux_accounted w' \<Longrightarrow> linux_accounted (did (RemovedFile n) w')" for n w'
    by (simp add: linux_accounted_def)
  have s: "added w' = ordered w'" "wgRoutes w' = []" "standing linux_route e w' \<noteq> Present"
    if "setup_link env n p (did (WroteFile n c) ?w) = (r, w')" for n p c r w' e
    using setup_link_done [OF that] t by (simp_all add: same_routes_def del: split_paired_All)
  have s1: "setup_link env n p (did (WroteFile n c) ?w) = (r, w') \<Longrightarrow> linux_accounted w'" for n p c r w'
    using s by (fastforce simp: linux_accounted_def)
  have s2: "linux_accounted (w2\<lparr>wgRoutes := routes\<rparr>)"
    if "setup_link env n p (did (WroteFile n c) ?w) = (r, w1)"
      "add_routes env (route_plan env gw ips allowed) w1 = (routes, w2)" for n p c r gw allowed w1 routes w2
    using add_routes_done [OF route_plan_ok [OF assms(2)] that(2)] s [OF that(1)]
    by (simp add: linux_accounted_def)
  have "linux_accounted ?w" using t by (simp add: linux_accounted_def)
  then show ?thesis
    by (auto simp: applyLinux_def Let_def intro!: f split: sum.split option.splits prod.splits dest: s1 s2)
qed

lemma down_linux:
  "linux_accounted w \<Longrightarrow> linux_accounted (teardownLinux env w) \<and> linux_undone (teardownLinux env w)"
  using teardown_linux [of env w] by (auto simp: linux_accounted_def linux_undone_def simp del: split_paired_All)

interpretation linux: tunnel applyLinux teardownLinux linux_accounted linux_undone plain_ips
  by unfold_locales (simp_all add: apply_linux down_linux)

definition fresh_wg :: wg_state where
  "fresh_wg = \<lparr>wgRoutes = [], wgDevice = False, wgTun = False, wgExclude = [], wgPhysGW = [],
     wgIPv6Active = False, wgDone = []\<rparr>"

definition plain_ops :: "'e wg_op list \<Rightarrow> bool" where
  "plain_ops ops \<longleftrightarrow> (\<forall>e conf ips. OpApply e conf ips \<in> set ops \<longrightarrow> plain_ips ips)"

lemma plain_ops_simps [simp]:
  "plain_ops []" "plain_ops (OpTeardown e # ops) = plain_ops ops"
  "plain_ops (OpApply e conf ips # ops) = (plain_ips ips \<and> plain_ops ops)"
  by (auto simp: plain_ops_def)

lemma fresh_linux: "linux_accounted fresh_wg"
  by (simp add: linux_accounted_def fresh_wg_def added_def ordered_def standing_def)

text \<open>Property C33 (invariant). Through every sequence of configurations and teardowns on Linux, successful
  or failing at any command, for TURN addresses that do not begin like a recorded tunnel route: the
  routes the program has added are exactly those whose deletion it has ordered followed by those it has
  on record, in order and each of its kind; and the ones on record are exactly those that stand without
  an order to delete them. After a teardown nothing is on record, and a route or the interface is left
  only where the last command to delete it has failed.\<close>

theorem linux_routes_are_accounted:
  assumes "plain_ops ops"
  shows "let w = run_ops applyLinux teardownLinux ops fresh_wg; w' = teardownLinux env w
    in added w = ordered w @ map entry_of (wgRoutes w) \<and>
       {e. standing linux_route e w = Present} = set (map entry_of (wgRoutes w)) \<and>
       added w' = ordered w' \<and> wgRoutes w' = [] \<and>
       (\<forall>e. standing linux_route e w' \<in> {Absent, Stuck}) \<and> standing linux_link () w' \<in> {Absent, Stuck}"
proof -
  have alt: "s \<in> {Absent, Stuck} \<longleftrightarrow> s \<noteq> Present" for s by (cases s) simp_all
  show ?thesis
    using linux.ops_accounted [OF fresh_linux, of ops] linux.ops_undone [OF fresh_linux, of ops env] assms
    unfolding alt by (auto simp: plain_ops_def Let_def linux_accounted_def linux_undone_def simp del: split_paired_All)
qed

definition demo_wg :: wg_env where
  "demo_wg = \<lparr>weRun = (\<lambda>h c. None), weTemp = Inr ''/tmp/wg.conf'', weWrite = None,
     weDefault = (\<lambda>h. Some ''default via 192.168.0.1 dev eth0''), weResolv = None, weDll = Some ''MZ'',
     weExe = Inr ''wintun.dll'', weHasDll = True, weTun = None, weIpc = (\<lambda>u. Some ''bad key''), weUp = None,
     weInterfaces = None, wePowerShell = (\<lambda>h s. Inr ''absent'')\<rparr>"

text \<open>A configuration and a teardown on a machine that does what it is told.\<close>

theorem linux_routes_are_accounted_witness:
  "let w = run_ops applyLinux teardownLinux [OpApply demo_wg demo_conf [''1.2.3.4''], OpTeardown demo_wg] fresh_wg
   in added w = ordered w @ map entry_of (wgRoutes w) \<and> standing linux_link () (teardownLinux demo_wg w) \<in> {Absent, Stuck}"
proof -
  have "plain_ops [OpApply demo_wg demo_conf [''1.2.3.4''], OpTeardown demo_wg]"
    by (simp add: plain_ips_def has_prefix_def)
  from linux_routes_are_accounted [OF this, of demo_wg] show ?thesis
    by (simp add: Let_def)
qed

section \<open>Windows: what is left behind\<close>

text \<open>The addresses of a list of routes past the tunnel.\<close>

definition exclude_ips :: "string list \<Rightarrow> string list" where
  "exclude_ips cidrs =
     concat (map (\<lambda>c. case parseCIDR c of None \<Rightarrow> [] | Some (ip, m) \<Rightarrow> if ip = [] then [] else [ip]) cidrs)"

text \<open>
  What the fields of the program must say about the system. A route past the tunnel that is present is on
  record, a raised gateway is the one on record, device and adapter are open exactly while their fields
  are set, and the firewall rule has not gone while the program believes it stands.
\<close>

definition windows_accounted :: "wg_state \<Rightarrow> bool" where
  "windows_accounted w \<longleftrightarrow>
     (\<forall>ip. standing exclude_route ip w = Present \<longrightarrow> ip \<in> set (exclude_ips (wgExclude w))) \<and>
     (\<forall>gw. standing raised_metric gw w = Present \<longrightarrow> gw = wgPhysGW w \<and> gw \<noteq> []) \<and>
     standing open_device () w = (if wgDevice w then Present else Absent) \<and>
     standing open_tun () w = (if wgTun w then Present else Absent) \<and>
     (wgIPv6Active w \<longrightarrow> standing ipv6_rule () w \<noteq> Absent)"

definition windows_undone :: "wg_state \<Rightarrow> bool" where
  "windows_undone w \<longleftrightarrow>
     (\<forall>ip. standing exclude_route ip w \<noteq> Present) \<and> (\<forall>gw. standing raised_metric gw w \<noteq> Present) \<and>
     standing open_device () w = Absent \<and> standing open_tun () w = Absent \<and> standing ipv6_rule () w \<noteq> Present \<and>
     \<not> wgDevice w \<and> \<not> wgTun w \<and> wgExclude w = [] \<and> wgPhysGW w = []"

lemma run_windows_state: "snd (runCmdWindows env c w) = did (Ran c (fst (runCmdWindows env c w) = None)) w"
  by (simp add: runCmdWindows_def Let_def)

lemma run_all_fields [simp]:
  "wgRoutes (run_all env cs w) = wgRoutes w" "wgDevice (run_all env cs w) = wgDevice w"
  "wgTun (run_all env cs w) = wgTun w" "wgExclude (run_all env cs w) = wgExclude w"
  "wgPhysGW (run_all env cs w) = wgPhysGW w" "wgIPv6Active (run_all env cs w) = wgIPv6Active w"
  by (induction env cs w rule: run_all.induct) (simp_all add: run_windows_state)

text \<open>Commands that do not touch the entries of a kind.\<close>

lemma run_all_other:
  "\<forall>c \<in> set cs. \<forall>ok. eff (Ran c ok) = None \<Longrightarrow> standing eff k (run_all env cs w) = standing eff k w"
  by (induction env cs w rule: run_all.induct) (simp_all add: run_windows_state standing_other)

lemma run_all_append: "run_all env (as @ bs) w = run_all env bs (run_all env as w)"
  by (induction env as w rule: run_all.induct) simp_all

lemma no_command [simp]:
  "ipv6_rule (Ran c ok) = None" "open_device (Ran c ok) = None" "open_tun (Ran c ok) = None"
  by (simp_all add: ipv6_rule_def open_device_def open_tun_def)

lemma netsh_command [simp]:
  "exclude_route (Ran (''netsh'' # c) ok) = None" "raised_metric (Ran (''netsh'' # c) ok) = None"
  by (simp_all add: exclude_route_def raised_metric_def)

lemma kinds_of_actions [simp]:
  "exclude_route (RanPowerShell s ok) = None" "raised_metric (RanPowerShell s ok) = None"
  "open_device (RanPowerShell s ok) = None" "open_tun (RanPowerShell s ok) = None"
  "ipv6_rule (RanPowerShell s ok) = Some ((), s = ps_create, ok)"
  "exclude_route ClosedDevice = None" "raised_metric ClosedDevice = None" "ipv6_rule ClosedDevice = None"
  "open_tun ClosedDevice = None" "open_device ClosedDevice = Some ((), False, True)"
  "exclude_route ClosedTun = None" "raised_metric ClosedTun = None" "ipv6_rule ClosedTun = None"
  "open_device ClosedTun = None" "open_tun ClosedTun = Some ((), False, True)"
  "exclude_route MadeDevice = None" "raised_metric MadeDevice = None" "ipv6_rule MadeDevice = None"
  "open_tun MadeDevice = None" "open_device MadeDevice = Some ((), True, True)"
  "exclude_route (CreatedTun n m) = None" "raised_metric (CreatedTun n m) = None" "ipv6_rule (CreatedTun n m) = None"
  "open_device (CreatedTun n m) = None" "open_tun (CreatedTun n m) = Some ((), True, True)"
  "exclude_route (ConfiguredDevice u ok) = None" "raised_metric (ConfiguredDevice u ok) = None"
  "ipv6_rule (ConfiguredDevice u ok) = None" "open_device (ConfiguredDevice u ok) = None" "open_tun (ConfiguredDevice u ok) = None"
  "exclude_route (RaisedDevice ok) = None" "raised_metric (RaisedDevice ok) = None" "ipv6_rule (RaisedDevice ok) = None"
  "open_device (RaisedDevice ok) = None" "open_tun (RaisedDevice ok) = None"
  by (simp_all add: exclude_route_def raised_metric_def ipv6_rule_def open_device_def open_tun_def)

lemma scripts_differ [simp]: "ps_remove \<noteq> ps_create"
  by (simp add: ps_remove_def ps_create_def)

lemma change_kind [simp]:
  "exclude_route (Ran (change_metric gw m) ok) = None"
  "raised_metric (Ran (change_metric gw m) ok) = Some (gw, m = ''9999'', ok)"
  by (simp_all add: change_metric_def exclude_route_def raised_metric_def)

text \<open>The commands of one route past the tunnel, and of a list of them.\<close>

lemma exclude_ips_Cons: "exclude_ips (c # cs) = exclude_ips [c] @ exclude_ips cs"
  by (simp add: exclude_ips_def)

lemma exclude_ips_Nil [simp]: "exclude_ips [] = []"
  by (simp add: exclude_ips_def)

lemma delete_exclude_one:
  "standing exclude_route ip (run_all env (delete_exclude c) w) = Present \<longleftrightarrow>
     standing exclude_route ip w = Present \<and> ip \<notin> set (exclude_ips [c])"
proof -
  have "exclude_route (Ran [''route'', ''delete'', i] ok) = Some (i, False, ok)" for i ok
    by (simp add: exclude_route_def)
  note d = present_down [where eff = exclude_route, OF this]
  show ?thesis
    by (cases "parseCIDR c") (auto simp: delete_exclude_def exclude_ips_def run_windows_state d split: if_splits)
qed

lemma delete_excludes:
  "standing exclude_route ip (run_all env (concat (map delete_exclude cs)) w) = Present \<longleftrightarrow>
     standing exclude_route ip w = Present \<and> ip \<notin> set (exclude_ips cs)"
proof (induction cs arbitrary: w)
  case (Cons c cs)
  then show ?case
    using exclude_ips_Cons [of c cs] by (auto simp: run_all_append delete_exclude_one)
qed simp

text \<open>Of a network without an address nothing is added: the command is not one for a route.\<close>

lemma add_exclude_one:
  "standing exclude_route ip (run_all env (add_exclude gw c) w) = Present \<Longrightarrow>
     standing exclude_route ip w = Present \<or> ip \<in> set (exclude_ips [c])"
proof -
  have u: "standing exclude_route ip (did (Ran [''route'', ''add'', i, ''mask'', m, gw] ok) w) =
      (if i \<noteq> [] \<and> i = ip \<and> ok then Present else standing exclude_route ip w)" for i m ok
    by (simp add: standing_did standing_after_def exclude_route_def)
  assume present: "standing exclude_route ip (run_all env (add_exclude gw c) w) = Present"
  then show ?thesis
  proof (cases "parseCIDR c")
    case None
    then show ?thesis using present by (simp add: add_exclude_def)
  next
    case (Some x)
    then show ?thesis
      using present by (cases x) (simp add: add_exclude_def exclude_ips_def run_windows_state u split: if_splits)
  qed
qed

lemma add_excludes:
  "standing exclude_route ip (run_all env (concat (map (add_exclude gw) cs)) w) = Present \<Longrightarrow>
     standing exclude_route ip w = Present \<or> ip \<in> set (exclude_ips cs)"
proof (induction cs arbitrary: w)
  case (Cons c cs)
  then have "standing exclude_route ip (run_all env (add_exclude gw c) w) = Present \<or> ip \<in> set (exclude_ips cs)"
    by (simp add: run_all_append)
  then show ?case
    using add_exclude_one [of ip env gw c w] exclude_ips_Cons [of c cs] by auto
qed simp

lemma run_netsh:
  assumes "\<forall>c \<in> set cs. take 1 c = [''netsh'']"
  shows "standing exclude_route ip (run_all env cs w) = standing exclude_route ip w"
    "standing raised_metric ip (run_all env cs w) = standing raised_metric ip w"
    "standing ipv6_rule () (run_all env cs w) = standing ipv6_rule () w"
    "standing open_device () (run_all env cs w) = standing open_device () w"
    "standing open_tun () (run_all env cs w) = standing open_tun () w"
proof -
  have "c = ''netsh'' # tl c" if "c \<in> set cs" for c
    using assms that by (cases c) auto
  then have n: "exclude_route (Ran c ok) = None" "raised_metric (Ran c ok) = None" if "c \<in> set cs" for c ok
    using netsh_command [of "tl c" ok] that by metis+
  show "standing exclude_route ip (run_all env cs w) = standing exclude_route ip w"
    "standing raised_metric ip (run_all env cs w) = standing raised_metric ip w"
    "standing ipv6_rule () (run_all env cs w) = standing ipv6_rule () w"
    "standing open_device () (run_all env cs w) = standing open_device () w"
    "standing open_tun () (run_all env cs w) = standing open_tun () w"
    by (rule run_all_other, simp add: n)+
qed

lemma cleanup_adapter:
  "standing exclude_route ip (cleanupWintunAdapter env w) = standing exclude_route ip w"
  "standing raised_metric ip (cleanupWintunAdapter env w) = standing raised_metric ip w"
  "standing ipv6_rule () (cleanupWintunAdapter env w) = standing ipv6_rule () w"
  "standing open_device () (cleanupWintunAdapter env w) = standing open_device () w"
  "standing open_tun () (cleanupWintunAdapter env w) = standing open_tun () w"
  unfolding cleanupWintunAdapter_def by (rule run_netsh; auto simp: delete_interface_def)+

lemma cleanup_fields:
  "wgDevice (cleanupWintunAdapter env w) = wgDevice w" "wgTun (cleanupWintunAdapter env w) = wgTun w"
  "wgExclude (cleanupWintunAdapter env w) = wgExclude w" "wgPhysGW (cleanupWintunAdapter env w) = wgPhysGW w"
  "wgIPv6Active (cleanupWintunAdapter env w) = wgIPv6Active w"
  unfolding cleanupWintunAdapter_def by (simp_all only: run_all_fields)

lemma remove_rule:
  "removeIPv6LeakProtectionRule env w = (r, w') \<Longrightarrow>
     w' = did (RanPowerShell ps_remove (\<exists>b. r = Inr b)) w"
  by (auto simp: removeIPv6LeakProtectionRule_def run_ps_def Let_def split: sum.splits)

lemma restore_rule:
  "snd (restoreIPv6LeakProtection env w) =
     (let ok = (\<exists>b. fst (removeIPv6LeakProtectionRule env w) = Inr b); w' = did (RanPowerShell ps_remove ok) w
      in if ok then w'\<lparr>wgIPv6Active := False\<rparr> else w')"
  using remove_rule [of env w]
  by (cases "removeIPv6LeakProtectionRule env w") (auto simp: restoreIPv6LeakProtection_def Let_def split: sum.split)

lemma removed_rule: "standing ipv6_rule () (did (RanPowerShell ps_remove ok) w) = (if ok \<or> standing ipv6_rule () w = Absent then Absent else Stuck)"
  by (simp add: standing_did standing_after_def)

text \<open>The steps of a teardown.\<close>

lemma metric_restored:
  fixes env
  assumes "windows_accounted w"
  defines "w' \<equiv> (if wgPhysGW w \<noteq> []
    then (snd (runCmdWindows env (change_metric (wgPhysGW w) ''35'') w))\<lparr>wgPhysGW := []\<rparr> else w)"
  shows "windows_accounted w' \<and> wgPhysGW w' = [] \<and> wgDevice w' = wgDevice w \<and> wgTun w' = wgTun w"
proof -
  have "raised_metric (Ran (change_metric (wgPhysGW w) ''35'') ok) = Some (wgPhysGW w, False, ok)" for ok
    by simp
  note d = present_down [where eff = raised_metric, OF this]
  show ?thesis
    using assms by (auto simp: windows_accounted_def w'_def run_windows_state d standing_other)
qed

lemma excludes_deleted:
  fixes env
  assumes "windows_accounted w"
  defines "w' \<equiv> (run_all env (concat (map delete_exclude (wgExclude w))) w)\<lparr>wgExclude := []\<rparr>"
  shows "windows_accounted w' \<and> wgExclude w' = [] \<and> wgPhysGW w' = wgPhysGW w \<and> wgDevice w' = wgDevice w \<and> wgTun w' = wgTun w"
proof -
  have "\<forall>c \<in> set (concat (map delete_exclude cs)). \<forall>ok. raised_metric (Ran c ok) = None" for cs
    by (auto simp: delete_exclude_def raised_metric_def split: option.splits if_splits)
  note m = run_all_other [OF this]
  have n: "standing eff k (run_all env cs w) = standing eff k w" if "\<And>c ok. eff (Ran c ok) = None"
    for cs k and eff :: "wg_action \<Rightarrow> (unit \<times> bool \<times> bool) option"
    by (rule run_all_other) (simp add: that)
  show ?thesis
    using assms by (auto simp: windows_accounted_def w'_def delete_excludes m n)
qed

lemma devices_closed:
  assumes "windows_accounted w"
  defines "v \<equiv> (if wgDevice w then (did ClosedDevice w)\<lparr>wgDevice := False\<rparr> else w)"
  defines "w' \<equiv> (if wgTun v then (did ClosedTun v)\<lparr>wgTun := False\<rparr> else v)"
  shows "windows_accounted w' \<and> \<not> wgDevice w' \<and> \<not> wgTun w' \<and> wgExclude w' = wgExclude w \<and> wgPhysGW w' = wgPhysGW w"
  using assms by (simp add: windows_accounted_def standing_did standing_after_def)

lemma teardown_windows:
  assumes "windows_accounted w"
  shows "windows_accounted (teardownWindowsLocalWithLog env w) \<and> windows_undone (teardownWindowsLocalWithLog env w)"
proof -
  define w1 where "w1 = (if wgPhysGW w \<noteq> []
    then (snd (runCmdWindows env (change_metric (wgPhysGW w) ''35'') w))\<lparr>wgPhysGW := []\<rparr> else w)"
  define w2 where "w2 = (run_all env (concat (map delete_exclude (wgExclude w1))) w1)\<lparr>wgExclude := []\<rparr>"
  define w3 where "w3 = (if wgDevice w2 then (did ClosedDevice w2)\<lparr>wgDevice := False\<rparr> else w2)"
  define w4 where "w4 = (if wgTun w3 then (did ClosedTun w3)\<lparr>wgTun := False\<rparr> else w3)"
  define w5 where "w5 = (if wgDevice w \<or> wgTun w then cleanupWintunAdapter env w4 else w4)"
  have d: "teardownWindowsLocalWithLog env w = snd (restoreIPv6LeakProtection env w5)"
    by (simp add: teardownWindowsLocalWithLog_def Let_def w1_def w2_def w3_def w4_def w5_def)
  have 1: "windows_accounted w1" "wgPhysGW w1 = []"
    using metric_restored [OF assms, of env] by (simp_all add: w1_def)
  have 2: "windows_accounted w2" "wgPhysGW w2 = []" "wgExclude w2 = []"
    using excludes_deleted [OF 1(1), of env] 1(2) by (simp_all add: w2_def)
  have 4: "windows_accounted w4 \<and> wgPhysGW w4 = [] \<and> wgExclude w4 = [] \<and> \<not> wgDevice w4 \<and> \<not> wgTun w4"
    using devices_closed [OF 2(1), folded w3_def, folded w4_def] 2(2,3) by simp
  then have 5: "windows_accounted w5 \<and> wgPhysGW w5 = [] \<and> wgExclude w5 = [] \<and> \<not> wgDevice w5 \<and> \<not> wgTun w5"
    by (cases "wgDevice w \<or> wgTun w") (auto simp: windows_accounted_def w5_def cleanup_adapter cleanup_fields)
  then have "standing exclude_route ip w5 \<noteq> Present" "standing raised_metric gw w5 \<noteq> Present" for ip gw
    unfolding windows_accounted_def by auto
  then show ?thesis
    using 5 by (simp add: d restore_rule Let_def windows_accounted_def windows_undone_def removed_rule standing_other)
qed

lemma enable_rule:
  assumes "enableIPv6LeakProtection env w = (r, w')" "windows_accounted w"
  shows "windows_accounted w' \<and> (r = None \<longrightarrow> standing ipv6_rule () w' = Present) \<and>
    wgDevice w' = wgDevice w \<and> wgTun w' = wgTun w"
proof -
  obtain r0 w0 where r0: "removeIPv6LeakProtectionRule env w = (r0, w0)" by fastforce
  have w0: "w0 = did (RanPowerShell ps_remove (\<exists>b. r0 = Inr b)) w" by (rule remove_rule [OF r0])
  have created: "standing ipv6_rule () (did (RanPowerShell ps_create ok) u) = (if ok then Present else standing ipv6_rule () u)" for ok u
    by (simp add: standing_did standing_after_def)
  show ?thesis
  proof (cases r0)
    case (Inl e)
    then show ?thesis
      using assms r0 w0 by (auto simp: enableIPv6LeakProtection_def windows_accounted_def removed_rule standing_other)
  next
    case (Inr b)
    obtain r1 w1 where r1: "run_ps env ps_create (w0\<lparr>wgIPv6Active := False\<rparr>) = (r1, w1)" by fastforce
    then have w1: "w1 = did (RanPowerShell ps_create (\<exists>b. r1 = Inr b)) (w0\<lparr>wgIPv6Active := False\<rparr>)"
      by (auto simp: run_ps_def Let_def split: sum.splits)
    obtain r2 w2 where r2: "removeIPv6LeakProtectionRule env w1 = (r2, w2)" by fastforce
    have "w' = (case r1 of Inl e \<Rightarrow> w2 | Inr out \<Rightarrow> w1\<lparr>wgIPv6Active := True\<rparr>)" "r = None \<longleftrightarrow> (\<exists>b. r1 = Inr b)"
      using assms(1) r0 r1 r2 Inr by (auto simp: enableIPv6LeakProtection_def split: sum.splits)
    then show ?thesis
      using assms(2) w0 w1 Inr remove_rule [OF r2]
      by (cases r1) (simp_all add: windows_accounted_def removed_rule created standing_other)
  qed
qed

text \<open>Setting up touches the routes past the tunnel and the gateway; the rule is as it was.\<close>

lemma netsh_accounted:
  "windows_accounted (did (Ran (''netsh'' # c) ok) w) = windows_accounted w"
  by (simp add: windows_accounted_def standing_other)

lemma set_address_keeps:
  "windows_accounted (set_address env a w) = windows_accounted w"
  "wgPhysGW (set_address env a w) = wgPhysGW w" "wgExclude (set_address env a w) = wgExclude w"
  "wgDevice (set_address env a w) = wgDevice w" "wgTun (set_address env a w) = wgTun w"
  "standing ipv6_rule () (set_address env a w) = standing ipv6_rule () w"
  by (simp_all add: set_address_def Let_def case_prod_unfold netsh_accounted run_windows_state standing_other split: option.split)

lemma exclude_routes_keeps:
  assumes "windows_accounted w" "wgPhysGW w = []" "wgExclude w = []"
  shows "windows_accounted (exclude_routes env ips w) \<and> wgDevice (exclude_routes env ips w) = wgDevice w \<and>
    wgTun (exclude_routes env ips w) = wgTun w \<and>
    standing ipv6_rule () (exclude_routes env ips w) = standing ipv6_rule () w"
proof (cases "defaultGatewayWindows (weDefault env (wgDone w)) = []")
  case True
  then show ?thesis using assms by (simp add: exclude_routes_def windows_accounted_def)
next
  case False
  define gw where "gw = defaultGatewayWindows (weDefault env (wgDone w))"
  define ex where "ex = map (\<lambda>ip. ip @ ''/32'') ips @ vkExcludeCIDRs"
  define u where "u = snd (runCmdWindows env (change_metric gw ''9999'') (w\<lparr>wgPhysGW := gw\<rparr>))"
  define v where "v = run_all env (concat (map (add_exclude gw) ex)) u"
  have e: "exclude_routes env ips w = v\<lparr>wgExclude := ex\<rparr>"
    using False by (simp add: exclude_routes_def Let_def u_def v_def gw_def ex_def)
  have "\<forall>c \<in> set (concat (map (add_exclude gw) ex)). \<forall>ok. raised_metric (Ran c ok) = None"
    by (auto simp: add_exclude_def raised_metric_def split: option.splits)
  note m = run_all_other [OF this]
  have n: "standing eff k v = standing eff k u" if "\<And>c ok. eff (Ran c ok) = None"
    for k and eff :: "wg_action \<Rightarrow> (unit \<times> bool \<times> bool) option"
    unfolding v_def by (rule run_all_other) (simp add: that)
  have "raised_metric (Ran (change_metric gw ''9999'') ok) = Some (gw, True, ok)" for ok by simp
  note r = standing_up [where eff = raised_metric, OF this]
  have none: "standing exclude_route ip w \<noteq> Present" "standing raised_metric g w \<noteq> Present" for ip g
    using assms unfolding windows_accounted_def by auto
  have "standing exclude_route ip u \<noteq> Present" for ip
    using none(1) by (simp add: u_def run_windows_state standing_other)
  then have x: "ip \<in> set (exclude_ips ex)" if "standing exclude_route ip v = Present" for ip
    using add_excludes [OF that [unfolded v_def]] by simp
  have g: "g = gw" if "standing raised_metric g v = Present" for g
    using that none(2) by (simp add: v_def m u_def run_windows_state r split: if_splits)
  have s: "standing open_device () v = standing open_device () w" "standing open_tun () v = standing open_tun () w"
    "standing ipv6_rule () v = standing ipv6_rule () w"
    by (simp_all add: n u_def run_windows_state standing_other)
  have f: "wgPhysGW v = gw" "wgDevice v = wgDevice w" "wgTun v = wgTun w" "wgIPv6Active v = wgIPv6Active w" "gw \<noteq> []"
    using False by (simp_all add: v_def u_def run_windows_state gw_def)
  show ?thesis
    unfolding e using x g f assms(1) by (auto simp: windows_accounted_def s)
qed

lemma make_device_keeps:
  assumes "make_device env p w = (r, w')" "windows_accounted w"
  shows "windows_accounted w' \<and> wgPhysGW w' = wgPhysGW w \<and> wgExclude w' = wgExclude w \<and>
    standing ipv6_rule () w' = standing ipv6_rule () w \<and> (r = None \<longrightarrow> wgDevice w' \<and> wgTun w')"
  using assms by (auto simp: make_device_def Let_def windows_accounted_def standing_did standing_after_def split: option.splits)

text \<open>What a configuration that succeeds has set up.\<close>

lemma apply_local:
  assumes "windows_accounted w" "applyWindowsLocal env conf ips w = (r, w')"
  shows "windows_accounted w' \<and> (r = None \<longrightarrow> wgDevice w' \<and> wgTun w' \<and>
    (standing ipv6_rule () w' = Present \<longleftrightarrow> isIPv4FullTunnel (wpAllowed (parseWGConfig conf))))"
proof -
  define p where "p = parseWGConfig conf"
  define w1 where "w1 = teardownWindowsLocalWithLog env w"
  have 1: "windows_accounted w1" "wgPhysGW w1 = []" "wgExclude w1 = []" "standing ipv6_rule () w1 \<noteq> Present"
    using teardown_windows [OF assms(1), of env] by (simp_all add: w1_def windows_undone_def)
  show ?thesis
  proof (cases "extractWintun env = None \<and> wpAddr p \<noteq> []")
    case False
    then show ?thesis
      using assms(2) 1 by (auto simp: applyWindowsLocal_def Let_def p_def [symmetric] w1_def [symmetric] split: option.splits)
  next
    case ok: True
    obtain r2 w2 where 2: "make_device env p w1 = (r2, w2)" by fastforce
    note k2 = make_device_keeps [OF 2 1(1)]
    show ?thesis
    proof (cases r2)
      case (Some e)
      then show ?thesis
        using assms(2) k2 2 ok by (auto simp: applyWindowsLocal_def Let_def p_def [symmetric] w1_def [symmetric])
    next
      case None
      define w3 where "w3 = exclude_routes env ips (set_address env (wpAddr p) w2)"
      let ?cs = "map (\<lambda>cidr. [''netsh'', ''interface'', ''ip'', ''add'', ''route'', cidr, wgIface]) (wpAllowed p)"
      define w4 where "w4 = (run_all env ?cs w3)\<lparr>wgRoutes := wpAllowed p\<rparr>"
      have 3: "windows_accounted w3" "wgDevice w3" "wgTun w3" "standing ipv6_rule () w3 \<noteq> Present"
        using exclude_routes_keeps [of "set_address env (wpAddr p) w2" env ips] k2 None 1
        by (simp_all add: w3_def set_address_keeps)
      have "\<forall>c \<in> set ?cs. take 1 c = [''netsh'']" by simp
      note n = run_netsh [OF this]
      have 4: "windows_accounted w4" "wgDevice w4" "wgTun w4" "standing ipv6_rule () w4 \<noteq> Present"
        using 3 by (simp_all add: w4_def windows_accounted_def n)
      have "applyWindowsLocal env conf ips w = (if isIPv4FullTunnel (wpAllowed p) then
             (case enableIPv6LeakProtection env w4 of
                (Some e, w) \<Rightarrow> (Some (''IPv6 leak protection: '' @ e), w) | (None, w) \<Rightarrow> (None, w))
           else (None, w4))"
        using 2 ok None
        by (simp add: applyWindowsLocal_def Let_def p_def [symmetric] w1_def [symmetric] w3_def w4_def)
      then show ?thesis
        using assms(2) 4 enable_rule [OF _ 4(1)] by (auto simp: p_def split: if_splits prod.splits option.splits)
    qed
  qed
qed

lemma apply_local_accounted: "windows_accounted w \<Longrightarrow> windows_accounted (snd (applyWindowsLocal env conf ips w))"
  using apply_local [of w env conf ips] by (cases "applyWindowsLocal env conf ips w") simp

lemma apply_windows:
  "windows_accounted w \<Longrightarrow> windows_accounted (snd (ApplyWindows env conf ips w)) \<and>
     (fst (ApplyWindows env conf ips w) \<noteq> None \<longrightarrow> windows_undone (snd (ApplyWindows env conf ips w)))"
  using apply_local_accounted [of w env conf ips] teardown_windows
  by (auto simp: ApplyWindows_def split: prod.split option.split)

interpretation windows: tunnel ApplyWindows teardownWindowsLocalWithLog windows_accounted windows_undone
    "\<lambda>ips. True"
  by unfold_locales (simp_all add: apply_windows teardown_windows)

text \<open>A start after a crash: the fields are new, the firewall rule of the process before may stand.\<close>

definition stale_wg :: wg_state where
  "stale_wg = fresh_wg\<lparr>wgDone := [RanPowerShell ps_create True]\<rparr>"

lemma start_accounted: "windows_accounted fresh_wg" "windows_accounted stale_wg"
  by (simp_all add: windows_accounted_def fresh_wg_def stale_wg_def standing_def standing_after_def)



end
