(* ===== verification/WgDarwin.thy ===== *)
theory WgDarwin
  imports WgRoutes
begin

text \<open>
  The tunnel on macOS (\<open>backend/wg_darwin.go\<close>). Creating the interface needs root, so a helper process
  does it: the application quotes its request into a shell command, waits for the helper on a socket,
  reads its messages until the descriptor of the interface has come, and runs the userspace device on
  it; the helper sets routes, hands the interface over and, when the application is done or gone,
  deletes the routes past the tunnel. Log lines of the application are left out; the messages of the
  helper are kept. What commands, sockets and the WireGuard library answer are arguments, and so are
  \<open>encoding/json\<close> and \<open>strconv.Quote\<close>.
\<close>

section \<open>Texts\<close>

definition msg_no_admin :: string where
  "msg_no_admin = utf8 [208, 191, 209, 128, 208, 176, 208, 178, 208, 176, 32, 208, 176, 208, 180, 208, 188, 208,
     184, 208, 189, 208, 184, 209, 129, 209, 130, 209, 128, 208, 176, 209, 130, 208,
     190, 209, 128, 208, 176, 32, 208, 189, 208, 181, 32, 208, 191, 208, 190, 208, 187,
     209, 131, 209, 135, 208, 181, 208, 189, 209, 139, 58, 32]"

definition msg_dash :: string where
  "msg_dash = utf8 [32, 226, 128, 148, 32]"

definition msg_no_helper :: string where
  "msg_no_helper = utf8 [104, 101, 108, 112, 101, 114, 32, 208, 189, 208, 181, 32, 208, 178, 209, 139, 209, 136,
     208, 181, 208, 187, 32, 208, 189, 208, 176, 32, 209, 129, 208, 178, 209, 143, 208,
     183, 209, 140, 58, 32]"

definition msg_fd_of :: string where
  "msg_fd_of = utf8 [102, 100, 32, 208, 184, 208, 189, 209, 130, 208, 181, 209, 128, 209, 132, 208, 181, 208,
     185, 209, 129, 208, 176, 32]"

definition msg_not_got :: string where
  "msg_not_got = utf8 [32, 208, 189, 208, 181, 32, 208, 191, 208, 190, 208, 187, 209, 131, 209, 135, 208, 181,
     208, 189]"

definition msg_helper_read :: string where
  "msg_helper_read = utf8 [209, 135, 209, 130, 208, 181, 208, 189, 208, 184, 208, 181, 32, 208, 190, 209, 130, 32,
     104, 101, 108, 112, 101, 114, 58, 32]"

definition msg_not_root :: string where
  "msg_not_root = utf8 [104, 101, 108, 112, 101, 114, 32, 208, 183, 208, 176, 208, 191, 209, 131, 209, 137, 208,
     181, 208, 189, 32, 208, 189, 208, 181, 32, 208, 190, 209, 130, 32, 114, 111, 111,
     116, 32, 40, 117, 105, 100, 61]"

definition msg_no_addr :: string where
  "msg_no_addr = utf8 [208, 189, 208, 181, 32, 208, 183, 208, 176, 208, 180, 208, 176, 208, 189, 32, 45, 97,
     100, 100, 114]"

definition msg_created :: string where
  "msg_created = utf8 [208, 161, 208, 190, 208, 183, 208, 180, 208, 176, 208, 189, 32, 208, 184, 208, 189, 209,
     130, 208, 181, 209, 128, 209, 132, 208, 181, 208, 185, 209, 129, 32]"

definition msg_ip_set :: string where
  "msg_ip_set = utf8 [73, 80, 32, 209, 131, 209, 129, 209, 130, 208, 176, 208, 189, 208, 190, 208, 178, 208,
     187, 208, 181, 208, 189, 58, 32]"

definition msg_excluded :: string where
  "msg_excluded = utf8 [69, 120, 99, 108, 117, 100, 101, 45, 208, 188, 208, 176, 209, 128, 209, 136, 209, 128,
     209, 131, 209, 130, 208, 190, 208, 178, 32, 208, 180, 208, 190, 208, 177, 208, 176,
     208, 178, 208, 187, 208, 181, 208, 189, 208, 190, 58, 32]"

section \<open>Quoting for the shell\<close>

definition shellQuote :: "string \<Rightarrow> string" where
  "shellQuote s = [CHR 0x27] @ concat (map (\<lambda>c. if c = CHR 0x27 then [CHR 0x27, CHR 0x5C, CHR 0x27, CHR 0x27] else [c]) s)
     @ [CHR 0x27]"

text \<open>
  How a POSIX shell reads a word: what single quotes enclose stands for itself, a backslash outside of
  them for the next character, and a blank ends the word. \<open>q\<close> tells whether a quote is open; the
  result is the word and the rest behind it.
\<close>

fun sh_word :: "bool \<Rightarrow> string \<Rightarrow> (string \<times> string) option" where
  "sh_word True [] = None"
| "sh_word False [] = Some ([], [])"
| "sh_word True (c # r) =
     (if c = CHR 0x27 then sh_word False r else map_option (\<lambda>(w, t). (c # w, t)) (sh_word True r))"
| "sh_word False (c # r) =
     (if c = CHR 0x27 then sh_word True r
      else if c = CHR '' '' then Some ([], r)
      else if c = CHR 0x5C then (case r of [] \<Rightarrow> None | d # r \<Rightarrow> map_option (\<lambda>(w, t). (d # w, t)) (sh_word False r))
      else map_option (\<lambda>(w, t). (c # w, t)) (sh_word False r))"

section \<open>Messages of the helper\<close>

record wgHelperMsg =
  mLog :: string
  mError :: string
  mName :: string

text \<open>
  \<open>recvTunFD\<close>. A read gives bytes, with a descriptor when one came along, or an error. The complete lines
  are handled in order; what follows the last line end waits for the next read.
\<close>

fun recv_lines ::
  "(string \<Rightarrow> wgHelperMsg option) \<Rightarrow> int option \<Rightarrow> string list \<Rightarrow> (string + int \<times> string) option" where
  "recv_lines decode pending [] = None"
| "recv_lines decode pending (line # ls) =
     (case decode line of
        None \<Rightarrow> recv_lines decode pending ls
      | Some msg \<Rightarrow>
          if mError msg \<noteq> [] then Some (Inl (''helper: '' @ mError msg))
          else if mName msg \<noteq> [] then
            (case pending of
               None \<Rightarrow> Some (Inl (msg_fd_of @ mName msg @ msg_not_got))
             | Some fd \<Rightarrow> Some (Inr (fd, mName msg)))
          else recv_lines decode pending ls)"

fun recvTunFD ::
  "(string \<Rightarrow> wgHelperMsg option) \<Rightarrow> string \<Rightarrow> int option \<Rightarrow> (string + string \<times> int option) list \<Rightarrow>
   (string + int \<times> string) option" where
  "recvTunFD decode acc pending reads =
     (let ls = split_on nl acc
      in case recv_lines decode pending (butlast ls) of
           Some r \<Rightarrow> Some r
         | None \<Rightarrow>
             (case reads of
                [] \<Rightarrow> None
              | Inl e # rs \<Rightarrow> Some (Inl (msg_helper_read @ e))
              | Inr (bytes, fd) # rs \<Rightarrow>
                  recvTunFD decode (last ls @ bytes) (case fd of Some n \<Rightarrow> Some n | None \<Rightarrow> pending) rs))"

declare recvTunFD.simps [simp del]

section \<open>The application\<close>

datatype d_action =
    MadeDir | RemovedDir | OpenedListener | ClosedListener | RanScript string bool
  | Accepted | ClosedHelper | SentDown | DrainedHelper
  | WrappedTun int | NewDevice | SetConfig string bool | SetUp bool | ClosedDev | ClosedTunDev

text \<open>\<open>deDir\<close> is the directory of the socket; \<open>deReads\<close> what the helper sends, up to its deadline.\<close>

record darwin_env =
  deResolv :: "string option"
  deDir :: "string + string"
  deListen :: "string option"
  deExe :: "string + string"
  deQuote :: "string \<Rightarrow> string"
  deScript :: "string \<Rightarrow> (string \<times> string) option"
  deAccept :: "string option"
  deDecode :: "string \<Rightarrow> wgHelperMsg option"
  deReads :: "(string + string \<times> int option) list"
  deWrap :: "string option"
  deIpc :: "string \<Rightarrow> string option"
  deUp :: "string option"

record darwin_state =
  daDevice :: bool
  daTun :: bool
  daHelper :: bool
  daRoutes :: "string list"
  daExclude :: "string list"
  daDone :: "d_action list"

definition doing :: "d_action list \<Rightarrow> darwin_state \<Rightarrow> darwin_state" where
  "doing as s = s\<lparr>daDone := daDone s @ as\<rparr>"

definition teardownDarwin :: "darwin_state \<Rightarrow> darwin_state" where
  "teardownDarwin s =
     (let s = (if daDevice s then (doing [ClosedDev] s)\<lparr>daDevice := False\<rparr> else s);
          s = (if daTun s then (doing [ClosedTunDev] s)\<lparr>daTun := False\<rparr> else s);
          s = (if daHelper s then (doing [SentDown, DrainedHelper, ClosedHelper] s)\<lparr>daHelper := False\<rparr> else s)
      in s\<lparr>daRoutes := [], daExclude := []\<rparr>)"

definition darwin_excludes :: "darwin_env \<Rightarrow> string list \<Rightarrow> string list" where
  "darwin_excludes env turnIPs =
     map (\<lambda>ip. ip @ ''/32'') turnIPs @ vkExcludeCIDRs @ map (\<lambda>dns. dns @ ''/32'') (localDNSServers (deResolv env))"

definition darwin_tunnels :: "string list \<Rightarrow> string list" where
  "darwin_tunnels allowedIPs =
     concat (map (\<lambda>cidr. if cidr = ''0.0.0.0/0'' then [''0.0.0.0/1'', ''128.0.0.0/1''] else [cidr]) allowedIPs)"

definition helper_command :: "string \<Rightarrow> string \<Rightarrow> string \<Rightarrow> int \<Rightarrow> string list \<Rightarrow> string list \<Rightarrow> string" where
  "helper_command exe sock addr mtu excludes tunnels =
     shellQuote exe @ '' --wg-helper -sock '' @ shellQuote sock @ '' -addr '' @ shellQuote addr @ '' -mtu '' @
     fmt_int mtu @ '' -exclude '' @ shellQuote (join '','' excludes) @ '' -tunnel '' @
     shellQuote (join '','' tunnels) @ '' >/dev/null 2>&1 &''"

definition admin_script :: "darwin_env \<Rightarrow> string \<Rightarrow> string" where
  "admin_script env cmd = ''do shell script '' @ deQuote env cmd @ '' with administrator privileges''"

text \<open>From the descriptor on: the device of the interface.\<close>

definition darwin_device ::
  "darwin_env \<Rightarrow> wg_parsed \<Rightarrow> int \<Rightarrow> string list \<Rightarrow> string list \<Rightarrow> darwin_state \<Rightarrow> string option \<times> darwin_state" where
  "darwin_device env p fd excludes tunnels s =
     (case deWrap env of
        Some e \<Rightarrow> (Some (''wrap TUN: '' @ e), doing [ClosedHelper] s)
      | None \<Rightarrow>
          (let s = doing [WrappedTun fd, NewDevice] s;
               uapi = uapiConf (wpConf p);
               s = doing [SetConfig uapi (deIpc env uapi = None)] s
           in case deIpc env uapi of
                Some e \<Rightarrow> (Some (''IpcSet: '' @ e), doing [ClosedDev, ClosedHelper] s)
              | None \<Rightarrow>
                  (case deUp env of
                     Some e \<Rightarrow> (Some (''device up: '' @ e), doing [SetUp False, ClosedDev, ClosedHelper] s)
                   | None \<Rightarrow> (None, (doing [SetUp True] s)\<lparr>daTun := True, daDevice := True, daHelper := True,
                                 daExclude := excludes, daRoutes := tunnels\<rparr>))))"

text \<open>The request to the helper; \<open>None\<close> when no read is left before the deadline, which the code turns into an error of a read.\<close>

definition darwin_request ::
  "darwin_env \<Rightarrow> wg_parsed \<Rightarrow> string \<Rightarrow> string list \<Rightarrow> string list \<Rightarrow> darwin_state \<Rightarrow> string option \<times> darwin_state" where
  "darwin_request env p dir excludes tunnels s =
     (case deListen env of
        Some e \<Rightarrow> (Some e, s)
      | None \<Rightarrow>
          (let s = doing [OpenedListener] s
           in case deExe env of
                Inl e \<Rightarrow> (Some e, doing [ClosedListener] s)
              | Inr exe \<Rightarrow>
                  (let osa = admin_script env (helper_command exe (dir @ ''/h.sock'') (wpAddr p)
                               (scan_mtu (wpMtu p)) excludes tunnels);
                       s = doing [RanScript osa (deScript env osa = None)] s
                   in case deScript env osa of
                        Some (e, out) \<Rightarrow>
                          (Some (msg_no_admin @ e @ msg_dash @ trim_space out), doing [ClosedListener] s)
                      | None \<Rightarrow>
                          (case deAccept env of
                             Some e \<Rightarrow> (Some (msg_no_helper @ e), doing [ClosedListener] s)
                           | None \<Rightarrow>
                               (let s = doing [Accepted, ClosedListener] s
                                in case recvTunFD (deDecode env) [] None (deReads env) of
                                     None \<Rightarrow> (Some msg_helper_read, doing [ClosedHelper] s)
                                   | Some (Inl e) \<Rightarrow> (Some e, doing [ClosedHelper] s)
                                   | Some (Inr (fd, name)) \<Rightarrow> darwin_device env p fd excludes tunnels s)))))"

definition applyDarwin ::
  "darwin_env \<Rightarrow> string \<Rightarrow> string list \<Rightarrow> darwin_state \<Rightarrow> string option \<times> darwin_state" where
  "applyDarwin env conf turnIPs s =
     (let s = teardownDarwin s; p = parseWGConfig conf
      in if wpAddr p = [] then (Some ''Address not found in wg config'', s)
         else case deDir env of
           Inl e \<Rightarrow> (Some e, s)
         | Inr dir \<Rightarrow>
             (case darwin_request env p dir (darwin_excludes env turnIPs) (darwin_tunnels (wpAllowed p))
                     (doing [MadeDir] s) of
                (r, s) \<Rightarrow> (r, doing [RemovedDir] s)))"

section \<open>The helper\<close>

datatype h_action = HRan "string list" bool | HSent wgHelperMsg bool | HClosed | HExit

record helper_args =
  haAddr :: string
  haMtu :: int
  haExclude :: string
  haTunnel :: string

text \<open>
  \<open>heDial\<close>: the socket of the application was reached; \<open>heGateway\<close>: the output of \<open>route -n get default\<close>;
  \<open>heReads\<close>: what comes from the application, \<open>None\<close> for a failed read.
\<close>

record helper_env =
  heDial :: bool
  heEuid :: int
  heUid :: int
  heTun :: "string option"
  heName :: "string + string"
  heRun :: "h_action list \<Rightarrow> string list \<Rightarrow> (string \<times> string) option"
  heGateway :: "h_action list \<Rightarrow> string option"
  heReads :: "string option list"

definition h_log :: "string \<Rightarrow> h_action" where
  "h_log m = HSent \<lparr>mLog = m, mError = [], mName = []\<rparr> False"

text \<open>\<open>fail\<close>: the message with the error, and the end of the process.\<close>

definition h_fail :: "string \<Rightarrow> h_action list" where
  "h_fail m = [HSent \<lparr>mLog = [], mError = m, mName = []\<rparr> False, HExit]"

definition runCmdDarwin :: "helper_env \<Rightarrow> string list \<Rightarrow> h_action list \<Rightarrow> string option \<times> h_action list" where
  "runCmdDarwin env c tr =
     (let r = heRun env tr c in (map_option (cmd_error c) r, tr @ [HRan c (r = None)]))"

definition route_delete :: "string \<Rightarrow> string list" where
  "route_delete cidr = [''route'', ''-q'', ''-n'', ''delete'', ''-net'', cidr]"

definition route_add :: "string \<Rightarrow> string \<Rightarrow> string list" where
  "route_add cidr gw = [''route'', ''-q'', ''-n'', ''add'', ''-net'', cidr, gw]"

definition route_add_tunnel :: "string \<Rightarrow> string \<Rightarrow> string list" where
  "route_add_tunnel cidr name = [''route'', ''-q'', ''-n'', ''add'', ''-net'', cidr, ''-interface'', name]"

fun helper_excludes ::
  "helper_env \<Rightarrow> string \<Rightarrow> string list \<Rightarrow> h_action list \<Rightarrow> string list \<times> h_action list" where
  "helper_excludes env gw [] tr = ([], tr)"
| "helper_excludes env gw (cidr # cidrs) tr =
     (case runCmdDarwin env (route_add cidr gw) (snd (runCmdDarwin env (route_delete cidr) tr)) of
        (Some e, tr) \<Rightarrow> helper_excludes env gw cidrs (tr @ [h_log (''exclude route '' @ cidr @ '': '' @ e)])
      | (None, tr) \<Rightarrow> (case helper_excludes env gw cidrs tr of (got, tr) \<Rightarrow> (cidr # got, tr)))"

fun helper_tunnels :: "helper_env \<Rightarrow> string \<Rightarrow> string list \<Rightarrow> h_action list \<Rightarrow> h_action list" where
  "helper_tunnels env name [] tr = tr"
| "helper_tunnels env name (cidr # cidrs) tr =
     (case runCmdDarwin env (route_add_tunnel cidr name) tr of
        (Some e, tr) \<Rightarrow> helper_tunnels env name cidrs (tr @ [h_log (''tunnel route '' @ cidr @ '': '' @ e)])
      | (None, tr) \<Rightarrow> helper_tunnels env name cidrs tr)"

fun helper_cleanup :: "helper_env \<Rightarrow> string list \<Rightarrow> h_action list \<Rightarrow> h_action list" where
  "helper_cleanup env [] tr = tr"
| "helper_cleanup env (cidr # cidrs) tr = helper_cleanup env cidrs (snd (runCmdDarwin env (route_delete cidr) tr))"

fun helper_waits :: "string option list \<Rightarrow> bool" where
  "helper_waits [] = True"
| "helper_waits (None # rs) = False"
| "helper_waits (Some b # rs) = (if contains ''down'' b then False else helper_waits rs)"

text \<open>The address, the routes and the handing over, once the interface exists.\<close>

definition helper_routes :: "helper_env \<Rightarrow> helper_args \<Rightarrow> string \<Rightarrow> h_action list \<Rightarrow> string list \<times> h_action list" where
  "helper_routes env args name tr =
     (let gw = defaultGatewayDarwin (heGateway env tr);
          tr = tr @ [h_log (''Default gateway: '' @ gw)];
          (got, tr) =
            (if gw = [] then ([], tr)
             else case helper_excludes env gw (csv (haExclude args)) tr of
               (got, tr) \<Rightarrow> (got, tr @ [h_log (msg_excluded @ digits_nat (length got))]))
      in (got, helper_tunnels env name (csv (haTunnel args)) tr
            @ [HSent \<lparr>mLog = [], mError = [], mName = name\<rparr> True]))"

text \<open>\<open>RunWGHelperDarwin\<close> after the flags; the flag tells whether the process is still waiting.\<close>

definition RunWGHelperDarwin :: "helper_env \<Rightarrow> helper_args \<Rightarrow> h_action list \<times> bool" where
  "RunWGHelperDarwin env args =
     (if \<not> heDial env then ([HExit], False)
      else if heEuid env \<noteq> 0 then (h_fail (msg_not_root @ fmt_int (heUid env) @ '')''), False)
      else if haAddr args = [] then (h_fail msg_no_addr, False)
      else case heTun env of
        Some e \<Rightarrow> (h_fail (''create utun: '' @ e), False)
      | None \<Rightarrow>
          (case heName env of
             Inl e \<Rightarrow> (h_fail (''utun name: '' @ e), False)
           | Inr name \<Rightarrow>
               (let tr = [h_log (msg_created @ name @ '' (mtu='' @ fmt_int (haMtu args) @ '')'')];
                    host = before CHR ''/'' (haAddr args)
                in case runCmdDarwin env [''ifconfig'', name, ''inet'', haAddr args, host, ''alias''] tr of
                     (Some e, tr) \<Rightarrow> (tr @ h_fail (''ifconfig: '' @ e), False)
                   | (None, tr) \<Rightarrow>
                       (let tr = snd (runCmdDarwin env [''ifconfig'', name, ''up''] tr) @
                              [h_log (msg_ip_set @ haAddr args)];
                            (got, tr) = helper_routes env args name tr
                        in if helper_waits (heReads env) then (tr, True)
                           else (helper_cleanup env got tr @ [HClosed], False)))))"

section \<open>Routes of an earlier run\<close>

text \<open>
  \<open>ceRoute\<close> and \<open>ceTable\<close> are the outputs of \<open>route -n get\<close> for an address and of \<open>netstat\<close>, when they ran;
  the result is the command the administrator is asked for, if there is one.
\<close>

record cleanup_env =
  ceDefault :: "string option"
  ceRoute :: "string \<Rightarrow> string option"
  ceTable :: "string option"

text \<open>The last value of a field in the output of \<open>route\<close>.\<close>

definition route_field :: "string \<Rightarrow> string \<Rightarrow> string" where
  "route_field key out =
     foldl (\<lambda>v line. case Prelude.fields line of [a, b] \<Rightarrow> if a = key then b else v | _ \<Rightarrow> v) [] (split_on nl out)"

definition stale_gateway :: "cleanup_env \<Rightarrow> string \<Rightarrow> string \<Rightarrow> string list" where
  "stale_gateway env curGW cidr =
     (case ceRoute env (before CHR ''/'' cidr) of
        None \<Rightarrow> []
      | Some out \<Rightarrow>
          (let dst = route_field ''destination:'' out; gw = route_field ''gateway:'' out
           in if dst \<noteq> [] \<and> dst \<noteq> ''default'' \<and> gw \<noteq> [] \<and> gw \<noteq> curGW \<and> parse_ip gw \<noteq> None then [gw] else []))"

definition stale_deletes :: "string list \<Rightarrow> string \<Rightarrow> string list" where
  "stale_deletes staleGWs table =
     concat (map (\<lambda>line. case Prelude.fields line of
         dst # gw # r \<Rightarrow> if gw \<in> set staleGWs then [''route -q -n delete -net '' @ shellQuote dst] else []
       | _ \<Rightarrow> []) (split_on nl table))"

definition cleanupStaleExcludeRoutesDarwin :: "cleanup_env \<Rightarrow> string option" where
  "cleanupStaleExcludeRoutesDarwin env =
     (let curGW = defaultGatewayDarwin (ceDefault env)
      in if curGW = [] then None
         else let staleGWs = concat (map (stale_gateway env curGW) vkExcludeCIDRs)
              in if staleGWs = [] then None
                 else case ceTable env of
                   None \<Rightarrow> None
                 | Some table \<Rightarrow>
                     (let dels = stale_deletes staleGWs table
                      in if dels = [] then None else Some (join ''; '' dels)))"

section \<open>Properties\<close>

lemma sh_word_quoted:
  "sh_word True (concat (map (\<lambda>c. if c = CHR 0x27 then [CHR 0x27, CHR 0x5C, CHR 0x27, CHR 0x27] else [c]) s)
     @ CHR 0x27 # CHR '' '' # r) = Some (s, r)"
  by (induction s) simp_all

text \<open>What goes into the root command of macOS is one word of it and comes out
  unchanged, whatever characters the configuration of the server has put there: a shell that reads the
  quoted text gets the text back, and nothing of it as syntax.\<close>

theorem quoted_word_is_one_word:
  "sh_word False (shellQuote s @ CHR '' '' # r) = Some (s, r)"
  using sh_word_quoted [of s r] by (simp add: shellQuote_def)

text \<open>The descriptor comes with one of the reads, or was there before.\<close>

lemma recv_lines_fd: "recv_lines decode pending ls = Some (Inr (fd, name)) \<Longrightarrow> pending = Some fd \<and> name \<noteq> []"
  by (induction decode pending ls rule: recv_lines.induct) (auto split: option.splits if_splits)

lemma recvTunFD_fd:
  "recvTunFD decode acc pending reads = Some (Inr (fd, name)) \<Longrightarrow>
     pending = Some fd \<or> (\<exists>b. Inr (b, Some fd) \<in> set reads)"
proof (induction decode acc pending reads rule: recvTunFD.induct)
  case (1 decode acc pending reads)
  show ?case
  proof (cases "recv_lines decode pending (butlast (split_on nl acc))")
    case (Some r)
    then show ?thesis
      using 1(2) recv_lines_fd [of decode pending "butlast (split_on nl acc)" fd name]
      by (simp add: recvTunFD.simps [of decode acc] Let_def)
  next
    case None
    then show ?thesis
      using 1 by (auto simp: recvTunFD.simps [of decode acc] Let_def split: list.splits sum.splits option.splits)
  qed
qed

text \<open>Resources of the application by their actions: opened and not yet closed.\<close>

definition opened :: "d_action \<Rightarrow> d_action \<Rightarrow> darwin_state \<Rightarrow> int" where
  "opened a b s = int (count_list (daDone s) a) - int (count_list (daDone s) b)"

definition all_closed :: "darwin_state \<Rightarrow> bool" where
  "all_closed s \<longleftrightarrow> \<not> daDevice s \<and> \<not> daTun s \<and> \<not> daHelper s \<and> daRoutes s = [] \<and> daExclude s = [] \<and>
     opened MadeDir RemovedDir s = 0 \<and> opened OpenedListener ClosedListener s = 0 \<and>
     opened Accepted ClosedHelper s = 0 \<and> opened NewDevice ClosedDev s = 0"

definition darwin_accounted :: "darwin_state \<Rightarrow> bool" where
  "darwin_accounted s \<longleftrightarrow>
     opened MadeDir RemovedDir s = 0 \<and> opened OpenedListener ClosedListener s = 0 \<and>
     opened Accepted ClosedHelper s = of_bool (daHelper s) \<and> opened NewDevice ClosedDev s = of_bool (daDevice s) \<and>
     daTun s = daDevice s \<and> daHelper s = daDevice s"

lemma opened_doing [simp]:
  "opened a b (doing as s) = opened a b s + int (count_list as a) - int (count_list as b)"
  by (simp add: opened_def doing_def)

lemma opened_update [simp]:
  "opened a b (s\<lparr>daDevice := x\<rparr>) = opened a b s" "opened a b (s\<lparr>daTun := x\<rparr>) = opened a b s"
  "opened a b (s\<lparr>daHelper := x\<rparr>) = opened a b s" "opened a b (s\<lparr>daRoutes := r\<rparr>) = opened a b s"
  "opened a b (s\<lparr>daExclude := r\<rparr>) = opened a b s"
  by (simp_all add: opened_def)

lemma doing_fields [simp]:
  "daDevice (doing as s) = daDevice s" "daTun (doing as s) = daTun s" "daHelper (doing as s) = daHelper s"
  "daRoutes (doing as s) = daRoutes s" "daExclude (doing as s) = daExclude s"
  by (simp_all add: doing_def)

lemma down_darwin: "darwin_accounted s \<Longrightarrow> darwin_accounted (teardownDarwin s) \<and> all_closed (teardownDarwin s)"
  by (auto simp: teardownDarwin_def darwin_accounted_def all_closed_def Let_def)

lemma darwin_device_closed:
  "darwin_device env p fd ex tu s = (r, s') \<Longrightarrow> \<not> daDevice s \<Longrightarrow>
     opened MadeDir RemovedDir s' = opened MadeDir RemovedDir s \<and>
     opened OpenedListener ClosedListener s' = opened OpenedListener ClosedListener s \<and>
     opened Accepted ClosedHelper s' = opened Accepted ClosedHelper s - of_bool (r \<noteq> None) \<and>
     opened NewDevice ClosedDev s' = opened NewDevice ClosedDev s + of_bool (r = None) \<and>
     (r \<noteq> None \<longrightarrow> daDevice s' = daDevice s \<and> daTun s' = daTun s \<and> daHelper s' = daHelper s \<and>
        daRoutes s' = daRoutes s \<and> daExclude s' = daExclude s) \<and>
     (r = None \<longrightarrow> daDevice s' \<and> daTun s' \<and> daHelper s')"
  by (auto simp: darwin_device_def Let_def split: option.splits)

lemma darwin_request_closed:
  "darwin_request env p dir ex tu s = (r, s') \<Longrightarrow> \<not> daDevice s \<Longrightarrow>
     opened MadeDir RemovedDir s' = opened MadeDir RemovedDir s \<and>
     opened OpenedListener ClosedListener s' = opened OpenedListener ClosedListener s \<and>
     opened Accepted ClosedHelper s' = opened Accepted ClosedHelper s + of_bool (r = None) \<and>
     opened NewDevice ClosedDev s' = opened NewDevice ClosedDev s + of_bool (r = None) \<and>
     (r \<noteq> None \<longrightarrow> daDevice s' = daDevice s \<and> daTun s' = daTun s \<and> daHelper s' = daHelper s \<and>
        daRoutes s' = daRoutes s \<and> daExclude s' = daExclude s) \<and>
     (r = None \<longrightarrow> daDevice s' \<and> daTun s' \<and> daHelper s')"
  by (auto simp: darwin_request_def Let_def split: option.splits sum.splits prod.splits
      dest!: darwin_device_closed) metis

lemma apply_darwin:
  assumes "darwin_accounted s" "applyDarwin env conf ips s = (r, s')"
  shows "darwin_accounted s' \<and> (r \<noteq> None \<longrightarrow> all_closed s')"
proof -
  have d: "darwin_accounted (teardownDarwin s)" "all_closed (teardownDarwin s)"
    using down_darwin [OF assms(1)] by blast+
  show ?thesis
    using assms(2) d
    by (auto simp: applyDarwin_def Let_def all_closed_def darwin_accounted_def split: if_splits sum.splits prod.splits
        dest!: darwin_request_closed)
qed

interpretation darwin: tunnel applyDarwin "\<lambda>env. teardownDarwin" darwin_accounted all_closed "\<lambda>ips. True"
  by unfold_locales (use apply_darwin down_darwin in \<open>auto intro: prod.exhaust simp: prod_eq_iff\<close>)

text \<open>Routes past the tunnel that were added, routes into it, and deletions, of a list of actions.\<close>

definition h_pick :: "nat \<Rightarrow> string \<Rightarrow> bool \<Rightarrow> h_action \<Rightarrow> string list" where
  "h_pick n verb any a =
     (case a of
        HRan c ok \<Rightarrow> if (ok \<or> any) \<and> length c = n \<and> take 5 c = [''route'', ''-q'', ''-n'', verb, ''-net''] then [c ! 5] else []
      | _ \<Rightarrow> [])"

definition h_excluded :: "h_action list \<Rightarrow> string list" where
  "h_excluded tr = concat (map (h_pick 7 ''add'' False) tr)"

definition h_tunneled :: "h_action list \<Rightarrow> string list" where
  "h_tunneled tr = concat (map (h_pick 8 ''add'' True) tr)"

definition h_deleted :: "h_action list \<Rightarrow> string list" where
  "h_deleted tr = concat (map (h_pick 6 ''delete'' True) tr)"

lemma h_append [simp]:
  "h_excluded (a @ b) = h_excluded a @ h_excluded b" "h_tunneled (a @ b) = h_tunneled a @ h_tunneled b"
  "h_deleted (a @ b) = h_deleted a @ h_deleted b" "h_excluded [] = []" "h_tunneled [] = []" "h_deleted [] = []"
  by (simp_all add: h_excluded_def h_tunneled_def h_deleted_def)

lemma h_single [simp]:
  "h_excluded [HSent m b] = []" "h_tunneled [HSent m b] = []" "h_deleted [HSent m b] = []"
  "h_excluded [h_log t] = []" "h_tunneled [h_log t] = []" "h_deleted [h_log t] = []"
  "h_excluded [HClosed] = []" "h_deleted [HClosed] = []" "h_excluded [HExit] = []" "h_excluded (h_fail t) = []"
  "h_excluded [HRan (''ifconfig'' # c) ok] = []" "h_tunneled [HRan (''ifconfig'' # c) ok] = []"
  "h_tunneled (h_fail t) = []" "h_tunneled [HExit] = []"
  by (simp_all add: h_excluded_def h_tunneled_def h_deleted_def h_pick_def h_log_def h_fail_def)

lemma h_commands [simp]:
  "h_excluded [HRan (route_add c g) ok] = (if ok then [c] else [])" "h_tunneled [HRan (route_add c g) ok] = []"
  "h_excluded [HRan (route_delete c) ok] = []" "h_tunneled [HRan (route_delete c) ok] = []"
  "h_deleted [HRan (route_delete c) ok] = [c]" "h_excluded [HRan (route_add_tunnel c n) ok] = []"
  by (simp_all add: h_excluded_def h_tunneled_def h_deleted_def h_pick_def route_add_def route_delete_def
      route_add_tunnel_def)

lemma run_darwin: "runCmdDarwin env c tr = (r, tr') \<Longrightarrow> tr' = tr @ [HRan c (r = None)]"
  by (auto simp: runCmdDarwin_def Let_def)

lemma excludes_done:
  "helper_excludes env gw cidrs tr = (got, tr') \<Longrightarrow> \<exists>x. tr' = tr @ x \<and> h_excluded x = got \<and> h_tunneled x = []"
proof (induction cidrs arbitrary: tr got)
  case (Cons c cs)
  obtain r1 tr1 where 1: "runCmdDarwin env (route_delete c) tr = (r1, tr1)" by fastforce
  obtain r2 tr2 where 2: "runCmdDarwin env (route_add c gw) tr1 = (r2, tr2)" by fastforce
  have tr2: "tr2 = tr @ [HRan (route_delete c) (r1 = None)] @ [HRan (route_add c gw) (r2 = None)]"
    using run_darwin [OF 1] run_darwin [OF 2] by simp
  show ?case
  proof (cases r2)
    case None
    obtain got' where g: "helper_excludes env gw cs tr2 = (got', tr')" "got = c # got'"
      using Cons.prems 1 2 None by (auto split: prod.splits)
    obtain x where "tr' = tr2 @ x" "h_excluded x = got'" "h_tunneled x = []"
      using Cons.IH [OF g(1)] by blast
    then show ?thesis
      using g(2) tr2 None
      by (intro exI [of _ "[HRan (route_delete c) (r1 = None)] @ [HRan (route_add c gw) (r2 = None)] @ x"])
         (simp only: h_append h_commands append_assoc, simp)
  next
    case (Some e)
    have "helper_excludes env gw cs (tr2 @ [h_log (''exclude route '' @ c @ '': '' @ e)]) = (got, tr')"
      using Cons.prems 1 2 Some by simp
    from Cons.IH [OF this] obtain x where
      "tr' = (tr2 @ [h_log (''exclude route '' @ c @ '': '' @ e)]) @ x" "h_excluded x = got" "h_tunneled x = []"
      by blast
    then show ?thesis
      using tr2 Some
      by (intro exI [of _ "[HRan (route_delete c) (r1 = None)] @ [HRan (route_add c gw) (r2 = None)] @
            [h_log (''exclude route '' @ c @ '': '' @ e)] @ x"])
         (simp only: h_append h_commands h_single append_assoc, simp)
  qed
qed simp

lemma tunnels_done: "\<exists>x. helper_tunnels env name cidrs tr = tr @ x \<and> h_excluded x = []"
proof (induction cidrs arbitrary: tr)
  case (Cons c cs)
  obtain r tr1 where 1: "runCmdDarwin env (route_add_tunnel c name) tr = (r, tr1)" by fastforce
  have tr1: "tr1 = tr @ [HRan (route_add_tunnel c name) (r = None)]"
    by (rule run_darwin [OF 1])
  obtain l where l: "helper_tunnels env name (c # cs) tr = helper_tunnels env name cs (tr1 @ l)" "h_excluded l = []"
    using 1 by (cases r) (auto intro: that [of "[]"] that [of "[h_log t]" for t])
  obtain x where "helper_tunnels env name cs (tr1 @ l) = (tr1 @ l) @ x" "h_excluded x = []"
    using Cons.IH by blast
  then show ?case
    using l tr1 by (intro exI [of _ "[HRan (route_add_tunnel c name) (r = None)] @ l @ x"])
      (simp only: h_append h_commands append_assoc append_Nil)
qed simp

lemma cleanup_done: "\<exists>x. helper_cleanup env cidrs tr = tr @ x \<and> h_deleted x = cidrs \<and> h_excluded x = []"
proof (induction cidrs arbitrary: tr)
  case (Cons c cs)
  obtain r tr1 where 1: "runCmdDarwin env (route_delete c) tr = (r, tr1)" by fastforce
  have tr1: "tr1 = tr @ [HRan (route_delete c) (r = None)]"
    by (rule run_darwin [OF 1])
  obtain x where "helper_cleanup env cs tr1 = tr1 @ x" "h_deleted x = cs" "h_excluded x = []"
    using Cons.IH by blast
  then show ?case
    using 1 tr1 by (intro exI [of _ "[HRan (route_delete c) (r = None)] @ x"])
      (simp only: helper_cleanup.simps h_append h_commands append_assoc snd_conv, simp)
qed simp

lemma routes_done:
  assumes "helper_routes env args name tr = (got, tr')"
  shows "\<exists>e t. tr' = tr @ e @ t \<and> h_excluded e = got \<and> h_tunneled e = [] \<and> h_excluded t = []"
proof -
  define gw where "gw = defaultGatewayDarwin (heGateway env tr)"
  let ?tr = "tr @ [h_log (''Default gateway: '' @ gw)]"
  obtain g tr1 where g: "(if gw = [] then ([], ?tr)
       else case helper_excludes env gw (csv (haExclude args)) ?tr of
         (got, tr) \<Rightarrow> (got, tr @ [h_log (msg_excluded @ digits_nat (length got))])) = (g, tr1)"
    by fastforce
  have "\<exists>e. tr1 = tr @ e \<and> h_excluded e = g \<and> h_tunneled e = []"
  proof (cases "gw = []")
    case True
    then show ?thesis
      using g by (intro exI [of _ "[h_log (''Default gateway: '' @ gw)]"]) (auto simp only: h_single, auto)
  next
    case False
    obtain g' tr2 where 2: "helper_excludes env gw (csv (haExclude args)) ?tr = (g', tr2)" by fastforce
    obtain x where x: "tr2 = ?tr @ x" "h_excluded x = g'" "h_tunneled x = []"
      using excludes_done [OF 2] by blast
    have "g = g'" "tr1 = tr2 @ [h_log (msg_excluded @ digits_nat (length g'))]"
      using g 2 False by auto
    then show ?thesis
      using x by (intro exI [of _ "[h_log (''Default gateway: '' @ gw)] @ x @ [h_log (msg_excluded @ digits_nat (length g'))]"])
        (simp only: h_append h_single append_assoc, simp)
  qed
  then obtain e where e: "tr1 = tr @ e" "h_excluded e = g" "h_tunneled e = []" by blast
  obtain t where t: "helper_tunnels env name (csv (haTunnel args)) tr1 = tr1 @ t" "h_excluded t = []"
    using tunnels_done by blast
  have "helper_routes env args name tr = (g, (tr1 @ t) @ [HSent \<lparr>mLog = [], mError = [], mName = name\<rparr> True])"
    unfolding helper_routes_def Let_def gw_def [symmetric] g prod.case t(1) ..
  then have "got = g" "tr' = (tr1 @ t) @ [HSent \<lparr>mLog = [], mError = [], mName = name\<rparr> True]"
    using assms by simp_all
  then show ?thesis
    using e t by (intro exI [of _ e] exI [of _ "t @ [HSent \<lparr>mLog = [], mError = [], mName = name\<rparr> True]"]) simp
qed

text \<open>The root helper of macOS adds the routes past the tunnel before any route into it,
  so that no packet to VK or the TURN servers can be caught by the tunnel in between; and when it ends,
  on \<open>down\<close> or because the application is gone or because it failed, it has ordered the deletion of
  exactly the routes it had managed to add, in order.\<close>

theorem helper_undoes_its_routes:
  assumes "RunWGHelperDarwin env args = (tr, waiting)"
  shows "\<exists>e t d. tr = e @ t @ d \<and> h_tunneled e = [] \<and> h_excluded t = [] \<and> h_excluded d = [] \<and>
    (\<not> waiting \<longrightarrow> h_deleted d = h_excluded e)"
proof -
  have early: "h_tunneled tr = [] \<Longrightarrow> h_excluded tr = [] \<Longrightarrow> ?thesis"
    by (intro exI [of _ tr] exI [of _ "[]"]) simp
  show ?thesis
  proof (cases "heDial env \<and> heEuid env = 0 \<and> haAddr args \<noteq> [] \<and> heTun env = None \<and> (\<exists>n. heName env = Inr n)")
    case False
    then have "h_tunneled tr = [] \<and> h_excluded tr = []"
      using assms by (auto simp: RunWGHelperDarwin_def split: if_splits option.splits sum.splits)
    then show ?thesis using early by blast
  next
    case True
    then obtain name where name: "heName env = Inr name" by blast
    define tr0 where "tr0 = [h_log (msg_created @ name @ '' (mtu='' @ fmt_int (haMtu args) @ '')'')]"
    define c0 where "c0 = [''ifconfig'', name, ''inet'', haAddr args, before CHR ''/'' (haAddr args), ''alias'']"
    obtain r tr1 where 1: "runCmdDarwin env c0 tr0 = (r, tr1)" by fastforce
    have tr1: "tr1 = tr0 @ [HRan c0 (r = None)]" by (rule run_darwin [OF 1])
    have q0: "h_tunneled tr0 = []" "h_excluded tr0 = []" "h_tunneled [HRan c0 ok] = []" "h_excluded [HRan c0 ok] = []" for ok
      by (simp_all add: tr0_def c0_def)
    show ?thesis
    proof (cases r)
      case (Some e)
      have "tr = tr1 @ h_fail (''ifconfig: '' @ e)"
        using assms True name 1 Some by (simp add: RunWGHelperDarwin_def tr0_def c0_def Let_def)
      then have "h_tunneled tr = [] \<and> h_excluded tr = []"
        using tr1 q0 by (simp only: h_append h_single append_Nil)
      then show ?thesis using early by blast
    next
      case None
      obtain r2 tr2 where 2: "runCmdDarwin env [''ifconfig'', name, ''up''] tr1 = (r2, tr2)" by fastforce
      have tr2: "tr2 = tr1 @ [HRan [''ifconfig'', name, ''up''] (r2 = None)]" by (rule run_darwin [OF 2])
      let ?tr3 = "tr2 @ [h_log (msg_ip_set @ haAddr args)]"
      obtain got tr4 where 4: "helper_routes env args name ?tr3 = (got, tr4)" by fastforce
      obtain e t where et: "tr4 = ?tr3 @ e @ t" "h_excluded e = got" "h_tunneled e = []" "h_excluded t = []"
        using routes_done [OF 4] by blast
      have res: "(tr, waiting) = (if helper_waits (heReads env) then (tr4, True)
          else (helper_cleanup env got tr4 @ [HClosed], False))"
        using assms True name 1 None 2 4 by (simp add: RunWGHelperDarwin_def tr0_def c0_def Let_def)
      have q3: "h_tunneled ?tr3 = []" "h_excluded ?tr3 = []"
        using tr1 tr2 q0 by (simp_all only: h_append h_single append_Nil)
      obtain d where d: "helper_cleanup env got tr4 = tr4 @ d" "h_deleted d = got" "h_excluded d = []"
        using cleanup_done by blast
      show ?thesis
      proof (cases "helper_waits (heReads env)")
        case True
        then have "tr = (?tr3 @ e) @ t @ []" "waiting"
          using res et by simp_all
        moreover have "h_tunneled (?tr3 @ e) = []" "h_excluded (?tr3 @ e) = h_excluded e"
          using q3 et by (simp_all only: h_append append_Nil)
        ultimately show ?thesis using et h_append(4) by blast
      next
        case False
        then have "tr = (?tr3 @ e) @ t @ (d @ [HClosed])"
          using res et d by simp
        moreover have "h_tunneled (?tr3 @ e) = []" "h_excluded (?tr3 @ e) = h_excluded e"
          using q3 et by (simp_all only: h_append append_Nil)
        moreover have "h_excluded (d @ [HClosed]) = []" "h_deleted (d @ [HClosed]) = got"
          using d by (simp_all only: h_append h_single append_Nil append_Nil2)
        ultimately show ?thesis using et by metis
      qed
    qed
  qed
qed

definition demo_helper :: helper_env where
  "demo_helper = \<lparr>heDial = True, heEuid = 0, heUid = 501, heTun = None, heName = Inr ''utun4'',
     heRun = (\<lambda>tr c. None), heGateway = (\<lambda>tr. Some ''gateway: 192.168.0.1''), heReads = [Some ''down'']\<rparr>"

theorem helper_undoes_its_routes_witness:
  "\<exists>tr e t d. RunWGHelperDarwin demo_helper \<lparr>haAddr = ''10.0.0.2/24'', haMtu = 1300, haExclude = ''8.8.8.0/24'',
       haTunnel = ''0.0.0.0/1''\<rparr> = (tr, False) \<and> tr = e @ t @ d \<and> h_deleted d = h_excluded e"
proof -
  let ?args = "\<lparr>haAddr = ''10.0.0.2/24'', haMtu = 1300, haExclude = ''8.8.8.0/24'', haTunnel = ''0.0.0.0/1''\<rparr>"
  obtain tr w where r: "RunWGHelperDarwin demo_helper ?args = (tr, w)" by fastforce
  have "helper_waits (heReads demo_helper) = False"
    by (simp add: demo_helper_def contains_def has_prefix_def)
  then have "\<not> w"
    using r by (simp add: RunWGHelperDarwin_def demo_helper_def Let_def runCmdDarwin_def split: prod.splits)
  then show ?thesis
  proof -
    obtain e t d where "tr = e @ t @ d" "h_deleted d = h_excluded e"
      using helper_undoes_its_routes [OF r] \<open>\<not> w\<close> by blast
    moreover have "RunWGHelperDarwin demo_helper ?args = (tr, False)"
      using r \<open>\<not> w\<close> by simp
    ultimately show ?thesis by blast
  qed
qed

section \<open>What the clean-up deletes\<close>

lemma stale_gateway_other: "gw \<in> set (stale_gateway env cur cidr) \<Longrightarrow> gw \<noteq> cur \<and> parse_ip gw \<noteq> None"
  by (auto simp: stale_gateway_def Let_def split: option.splits if_splits)

text \<open>The routes through the gateway in use are never among those an administrator is asked to delete.\<close>

lemma stale_deletes_spare:
  assumes "d \<in> set (stale_deletes (concat (map (stale_gateway env cur) cidrs)) table)"
  shows "\<exists>line dst gw r. line \<in> set (split_on nl table) \<and> Prelude.fields line = dst # gw # r \<and> gw \<noteq> cur \<and>
    parse_ip gw \<noteq> None \<and> d = ''route -q -n delete -net '' @ shellQuote dst"
proof -
  obtain line where l: "line \<in> set (split_on nl table)"
    and d: "d \<in> set (case Prelude.fields line of
         dst # gw # r \<Rightarrow> if gw \<in> set (concat (map (stale_gateway env cur) cidrs))
           then [''route -q -n delete -net '' @ shellQuote dst] else [] | _ \<Rightarrow> [])"
    using assms unfolding stale_deletes_def set_concat set_map by blast
  obtain dst gw r where f: "Prelude.fields line = dst # gw # r"
    using d by (cases "Prelude.fields line"; cases "tl (Prelude.fields line)") auto
  have s: "gw \<in> set (concat (map (stale_gateway env cur) cidrs))"
      "d = ''route -q -n delete -net '' @ shellQuote dst"
    using d unfolding f list.case by (simp_all split: if_splits)
  then obtain c where "gw \<in> set (stale_gateway env cur c)" by auto
  then show ?thesis
    using l f s stale_gateway_other by blast
qed

end
