(* ===== verification/WgHelper.thy ===== *)
theory WgHelper
  imports WgRoutes Store
begin

text \<open>
  The privileged helper of Windows (\<open>backend/wg_elevation_windows.go\<close>): the application runs without the
  rights to change the network, so a second process of the program, started through UAC, applies the
  configuration and takes it down again, on requests over a local connection that carry a secret token.
  The system the helper works on is that of \<open>WgRoutes\<close>. The messages go over the connection as JSON, which
  repairs their texts (\<open>wire\<close>). Log lines are part of the answers; what the helper says of its own
  teardown at the end goes to a connection nobody reads and is left out.
\<close>

section \<open>Messages\<close>

record helper_message =
  hmKind :: string
  hmToken :: string
  hmAction :: string
  hmConfig :: string
  hmTurnIPs :: "string list"
  hmOK :: bool
  hmError :: string
  hmMessage :: string
  hmElevated :: bool

definition no_message :: helper_message where
  "no_message = \<lparr>hmKind = [], hmToken = [], hmAction = [], hmConfig = [], hmTurnIPs = [], hmOK = False, hmError = [],
     hmMessage = [], hmElevated = False\<rparr>"

text \<open>
  What arrives of a message that \<open>encoding/json\<close> writes and reads again: every byte of a text that is not
  UTF-8 has become U+FFFD, and nothing else is changed.
\<close>

definition wire :: "helper_message \<Rightarrow> helper_message" where
  "wire m = m\<lparr>hmKind := coerce_utf8 (hmKind m), hmToken := coerce_utf8 (hmToken m),
     hmAction := coerce_utf8 (hmAction m), hmConfig := coerce_utf8 (hmConfig m),
     hmTurnIPs := map coerce_utf8 (hmTurnIPs m), hmError := coerce_utf8 (hmError m),
     hmMessage := coerce_utf8 (hmMessage m)\<rparr>"

definition hello_message :: "string \<Rightarrow> bool \<Rightarrow> helper_message" where
  "hello_message token elevated = no_message\<lparr>hmKind := ''hello'', hmToken := token, hmElevated := elevated\<rparr>"

definition log_message :: "string \<Rightarrow> helper_message" where
  "log_message m = no_message\<lparr>hmKind := ''log'', hmMessage := m\<rparr>"

definition result_message :: "string option \<Rightarrow> helper_message" where
  "result_message err =
     (case err of
        None \<Rightarrow> no_message\<lparr>hmKind := ''result'', hmOK := True\<rparr>
      | Some e \<Rightarrow> no_message\<lparr>hmKind := ''result'', hmOK := False, hmError := e\<rparr>)"

section \<open>The helper\<close>

definition msg_wrong_token :: string where
  "msg_wrong_token = utf8 [208, 190, 209, 130, 208, 186, 208, 187, 208, 190, 208, 189, 208, 181, 208, 189,
     208, 176, 32, 208, 186, 208, 190, 208, 188, 208, 176, 208, 189, 208, 180, 208, 176, 32, 209, 129, 32,
     208, 189, 208, 181, 208, 178, 208, 181, 209, 128, 208, 189, 209, 139, 208, 188, 32, 209, 130, 208, 190,
     208, 186, 208, 181, 208, 189, 208, 190, 208, 188, 32, 112, 114, 105, 118, 105, 108, 101, 103, 101, 100,
     32, 104, 101, 108, 112, 101, 114]"

definition msg_unknown_command :: string where
  "msg_unknown_command = utf8 [208, 189, 208, 181, 208, 184, 208, 183, 208, 178, 208, 181, 209, 129, 209,
     130, 208, 189, 208, 176, 209, 143, 32, 208, 186, 208, 190, 208, 188, 208, 176, 208, 189, 208, 180, 208,
     176, 32, 112, 114, 105, 118, 105, 108, 101, 103, 101, 100, 32, 104, 101, 108, 112, 101, 114]"

definition msg_unknown_error :: string where
  "msg_unknown_error = utf8 [112, 114, 105, 118, 105, 108, 101, 103, 101, 100, 32, 104, 101, 108, 112, 101,
     114, 32, 208, 183, 208, 176, 208, 178, 208, 181, 209, 128, 209, 136, 208, 184, 208, 187, 32, 208, 190,
     208, 191, 208, 181, 209, 128, 208, 176, 209, 134, 208, 184, 209, 142, 32, 209, 129, 32, 208, 189, 208,
     181, 208, 184, 208, 183, 208, 178, 208, 181, 209, 129, 209, 130, 208, 189, 208, 190, 208, 185, 32, 208,
     190, 209, 136, 208, 184, 208, 177, 208, 186, 208, 190, 208, 185]"

definition msg_helper_broken :: string where
  "msg_helper_broken = utf8 [112, 114, 105, 118, 105, 108, 101, 103, 101, 100, 32, 104, 101, 108, 112, 101,
     114, 32, 208, 190, 208, 177, 208, 190, 209, 128, 208, 178, 208, 176, 208, 187, 32, 209, 129, 208, 190,
     208, 181, 208, 180, 208, 184, 208, 189, 208, 181, 208, 189, 208, 184, 208, 181, 58, 32]"

definition msg_not_sent :: string where
  "msg_not_sent = utf8 [208, 189, 208, 181, 32, 209, 131, 208, 180, 208, 176, 208, 187, 208, 190, 209, 129,
     209, 140, 32, 208, 190, 209, 130, 208, 191, 209, 128, 208, 176, 208, 178, 208, 184, 209, 130, 209, 140,
     32, 208, 186, 208, 190, 208, 188, 208, 176, 208, 189, 208, 180, 209, 131, 32, 112, 114, 105, 118, 105,
     108, 101, 103, 101, 100, 32, 104, 101, 108, 112, 101, 114, 58, 32]"

definition msg_uac_cancelled :: string where
  "msg_uac_cancelled = utf8 [208, 191, 209, 128, 208, 176, 208, 178, 208, 176, 32, 208, 176, 208, 180, 208,
     188, 208, 184, 208, 189, 208, 184, 209, 129, 209, 130, 209, 128, 208, 176, 209, 130, 208, 190, 209,
     128, 208, 176, 32, 208, 189, 208, 181, 32, 208, 191, 209, 128, 208, 181, 208, 180, 208, 190, 209, 129,
     209, 130, 208, 176, 208, 178, 208, 187, 208, 181, 208, 189, 209, 139, 58, 32, 208, 183, 208, 176, 208,
     191, 209, 128, 208, 190, 209, 129, 32, 85, 65, 67, 32, 208, 190, 209, 130, 208, 188, 208, 181, 208,
     189, 209, 145, 208, 189, 59, 32, 208, 191, 208, 190, 208, 180, 208, 186, 208, 187, 209, 142, 209, 135,
     208, 181, 208, 189, 208, 184, 208, 181, 32, 208, 189, 208, 181, 32, 208, 189, 208, 176, 209, 135, 208,
     176, 209, 130, 208, 190]"

definition msg_uac_failed :: string where
  "msg_uac_failed = utf8 [208, 189, 208, 181, 32, 209, 131, 208, 180, 208, 176, 208, 187, 208, 190, 209,
     129, 209, 140, 32, 208, 183, 208, 176, 208, 191, 209, 128, 208, 190, 209, 129, 208, 184, 209, 130, 209,
     140, 32, 208, 191, 209, 128, 208, 176, 208, 178, 208, 176, 32, 208, 176, 208, 180, 208, 188, 208, 184,
     208, 189, 208, 184, 209, 129, 209, 130, 209, 128, 208, 176, 209, 130, 208, 190, 209, 128, 208, 176, 32,
     209, 135, 208, 181, 209, 128, 208, 181, 208, 183, 32, 85, 65, 67, 58, 32]"

definition msg_not_connected :: string where
  "msg_not_connected = utf8 [112, 114, 105, 118, 105, 108, 101, 103, 101, 100, 32, 104, 101, 108, 112, 101,
     114, 32, 208, 189, 208, 181, 32, 208, 191, 208, 190, 208, 180, 208, 186, 208, 187, 209, 142, 209, 135,
     208, 184, 208, 187, 209, 129, 209, 143, 32, 208, 191, 208, 190, 209, 129, 208, 187, 208, 181, 32, 208,
     191, 208, 190, 208, 180, 209, 130, 208, 178, 208, 181, 209, 128, 208, 182, 208, 180, 208, 181, 208,
     189, 208, 184, 209, 143, 32, 85, 65, 67, 58, 32]"

definition msg_not_elevated :: string where
  "msg_not_elevated = utf8 [87, 105, 110, 100, 111, 119, 115, 32, 208, 189, 208, 181, 32, 208, 191, 209,
     128, 208, 181, 208, 180, 208, 190, 209, 129, 209, 130, 208, 176, 208, 178, 208, 184, 208, 187, 208,
     176, 32, 112, 114, 105, 118, 105, 108, 101, 103, 101, 100, 32, 104, 101, 108, 112, 101, 114, 32, 208,
     191, 209, 128, 208, 176, 208, 178, 208, 176, 32, 208, 176, 208, 180, 208, 188, 208, 184, 208, 189, 208,
     184, 209, 129, 209, 130, 209, 128, 208, 176, 209, 130, 208, 190, 209, 128, 208, 176, 59, 32, 208, 191,
     208, 190, 208, 180, 208, 186, 208, 187, 209, 142, 209, 135, 208, 181, 208, 189, 208, 184, 208, 181, 32,
     208, 189, 208, 181, 32, 208, 189, 208, 176, 209, 135, 208, 176, 209, 130, 208, 190]"

definition msg_no_channel :: string where
  "msg_no_channel = utf8 [208, 189, 208, 181, 32, 209, 131, 208, 180, 208, 176, 208, 187, 208, 190, 209,
     129, 209, 140, 32, 208, 190, 209, 130, 208, 186, 209, 128, 209, 139, 209, 130, 209, 140, 32, 208, 187,
     208, 190, 208, 186, 208, 176, 208, 187, 209, 140, 208, 189, 209, 139, 208, 185, 32, 208, 186, 208, 176,
     208, 189, 208, 176, 208, 187, 32, 112, 114, 105, 118, 105, 108, 101, 103, 101, 100, 32, 104, 101, 108,
     112, 101, 114, 58, 32]"

definition msg_no_token :: string where
  "msg_no_token = utf8 [208, 189, 208, 181, 32, 209, 131, 208, 180, 208, 176, 208, 187, 208, 190, 209, 129,
     209, 140, 32, 209, 129, 208, 190, 208, 183, 208, 180, 208, 176, 209, 130, 209, 140, 32, 209, 130, 208,
     190, 208, 186, 208, 181, 208, 189, 32, 112, 114, 105, 118, 105, 108, 101, 103, 101, 100, 32, 104, 101,
     108, 112, 101, 114, 58, 32]"

definition msg_no_path :: string where
  "msg_no_path = utf8 [208, 189, 208, 181, 32, 209, 131, 208, 180, 208, 176, 208, 187, 208, 190, 209, 129,
     209, 140, 32, 208, 190, 208, 191, 209, 128, 208, 181, 208, 180, 208, 181, 208, 187, 208, 184, 209, 130,
     209, 140, 32, 208, 191, 209, 131, 209, 130, 209, 140, 32, 80, 87, 68, 84, 84, 32, 208, 180, 208, 187,
     209, 143, 32, 85, 65, 67, 58, 32]"

definition msg_no_deadline :: string where
  "msg_no_deadline = utf8 [208, 189, 208, 181, 32, 209, 131, 208, 180, 208, 176, 208, 187, 208, 190, 209,
     129, 209, 140, 32, 208, 183, 208, 176, 208, 180, 208, 176, 209, 130, 209, 140, 32, 116, 105, 109, 101,
     111, 117, 116, 32, 112, 114, 105, 118, 105, 108, 101, 103, 101, 100, 32, 104, 101, 108, 112, 101, 114,
     58, 32]"

text \<open>
  One request as it was decoded: the system as it answers meanwhile, the lines \<open>applyWindowsLocal\<close> or the teardown logs, and
  the message. The result is the answers, the new state, and whether the helper goes on.
\<close>

definition helper_handle ::
  "string \<Rightarrow> wg_env \<Rightarrow> string list \<Rightarrow> helper_message \<Rightarrow> wg_state \<Rightarrow> helper_message list \<times> wg_state \<times> bool" where
  "helper_handle token env logs r w =
     (if hmToken r \<noteq> token then ([result_message (Some msg_wrong_token)], w, False)
      else if hmAction r = ''apply'' then
        (let (err, w) = applyWindowsLocal env (hmConfig r) (hmTurnIPs r) w
         in (map log_message logs @ [result_message err], w, True))
      else if hmAction r = ''teardown'' then
        (map log_message logs @ [result_message None], teardownWindowsLocalWithLog env w, False)
      else ([result_message (Some msg_unknown_command)], w, True))"

text \<open>The loop over the requests, up to a broken connection; the deferred teardown ends it in any case.\<close>

fun helper_loop ::
  "string \<Rightarrow> wg_env \<Rightarrow> (wg_env \<times> string list \<times> helper_message) list \<Rightarrow> wg_state \<Rightarrow> helper_message list \<times> wg_state" where
  "helper_loop token E [] w = ([], teardownWindowsLocalWithLog E w)"
| "helper_loop token E ((env, logs, r) # rs) w =
     (let (out, w, go) = helper_handle token env logs r w
      in if go then (let (out', w) = helper_loop token E rs w in (out @ out', w))
         else (out, teardownWindowsLocalWithLog E w))"

text \<open>Whether the connection could be made and the greeting sent, and whether the process has the rights.\<close>

definition runWindowsWGHelper ::
  "bool \<Rightarrow> bool \<Rightarrow> bool \<Rightarrow> string \<Rightarrow> wg_env \<Rightarrow> (wg_env \<times> string list \<times> helper_message) list \<Rightarrow>
   helper_message list \<times> wg_state" where
  "runWindowsWGHelper dialed elevated sent token E rs =
     (if \<not> dialed then ([], fresh_wg)
      else if \<not> sent \<or> \<not> elevated then ([hello_message token elevated], fresh_wg)
      else (let (out, w) = helper_loop token E rs fresh_wg in (hello_message token elevated # out, w)))"

section \<open>The application's side\<close>

text \<open>Reading the decoded answer to a request: the error, the lines logged, and what is left on the connection.\<close>

fun read_reply :: "helper_message list \<Rightarrow> string option \<times> string list \<times> helper_message list" where
  "read_reply [] = (Some msg_helper_broken, [], [])"
| "read_reply (m # ms) =
     (if hmKind m = ''result'' then
        (if hmOK m then None else if hmError m = [] then Some msg_unknown_error else Some (hmError m), [], ms)
      else
        (let (err, logs, rest) = read_reply ms
         in (err, if hmKind m = ''log'' \<and> hmMessage m \<noteq> [] then hmMessage m # logs else logs, rest)))"

definition stamp_request :: "string \<Rightarrow> helper_message \<Rightarrow> helper_message" where
  "stamp_request token r = r\<lparr>hmKind := ''request'', hmToken := token\<rparr>"

text \<open>The bytes come from \<open>crypto/rand\<close>, which may fail.\<close>

definition hex_nibble :: "nat \<Rightarrow> char" where
  "hex_nibble n = char_of (if n < 10 then 48 + n else 87 + n)"

definition newWindowsWGHelperToken :: "string + nat list \<Rightarrow> string + string" where
  "newWindowsWGHelperToken raw =
     (case raw of
        Inl e \<Rightarrow> Inl e
      | Inr bs \<Rightarrow> Inr (concat (map (\<lambda>b. [hex_nibble (b div 16 mod 16), hex_nibble (b mod 16)]) (take 32 bs))))"

text \<open>
  Starting the helper: the results of the steps up to the request for elevation, then the connections
  that come in (with the greeting decoded from each) until the deadline. Only the process that was started
  knows the token.
\<close>

record launch =
  laListen :: "string option"
  laRandom :: "string + nat list"
  laExe :: "string option"
  laShell :: "(int \<times> string) option"
  laDeadline :: "string option"
  laConns :: "helper_message option list"
  laAccept :: string

definition friendlyWindowsElevationError :: "int \<times> string \<Rightarrow> string" where
  "friendlyWindowsElevationError e = (if fst e = 5 \<or> fst e = 1223 then msg_uac_cancelled else msg_uac_failed @ snd e)"

fun accept_hello :: "string \<Rightarrow> string \<Rightarrow> helper_message option list \<Rightarrow> string option" where
  "accept_hello token err [] = Some (msg_not_connected @ err)"
| "accept_hello token err (None # cs) = accept_hello token err cs"
| "accept_hello token err (Some h # cs) =
     (if hmKind h \<noteq> ''hello'' \<or> hmToken h \<noteq> token then accept_hello token err cs
      else if \<not> hmElevated h then Some msg_not_elevated
      else None)"

definition startWindowsWGHelper :: "launch \<Rightarrow> string + string" where
  "startWindowsWGHelper l =
     (case laListen l of Some e \<Rightarrow> Inl (msg_no_channel @ e)
      | None \<Rightarrow>
     (case newWindowsWGHelperToken (laRandom l) of Inl e \<Rightarrow> Inl (msg_no_token @ e)
      | Inr token \<Rightarrow>
     (case laExe l of Some e \<Rightarrow> Inl (msg_no_path @ e)
      | None \<Rightarrow>
     (case laShell l of Some e \<Rightarrow> Inl (friendlyWindowsElevationError e)
      | None \<Rightarrow>
     (case laDeadline l of Some e \<Rightarrow> Inl (msg_no_deadline @ e)
      | None \<Rightarrow>
     (case accept_hello token (laAccept l) (laConns l) of Some e \<Rightarrow> Inl e | None \<Rightarrow> Inr token))))))"

section \<open>Both together\<close>

text \<open>
  The helper that is connected, with the token both know and the state it keeps, the states in which
  earlier ones have ended, and how many were started in all. The connection may refuse its deadline, a
  request may not reach the helper, or the helper may do it and the answer does not come (the connection
  broke, or the deadline of 90 seconds has passed).
\<close>

datatype fate = Answered | Unanswered string | Undelivered string | NoDeadline string

definition delivered :: "fate \<Rightarrow> bool" where
  "delivered f = (case f of Answered \<Rightarrow> True | Unanswered e \<Rightarrow> True | _ \<Rightarrow> False)"

record elev_env =
  eeSystem :: wg_env
  eeEnd :: wg_env
  eeLogs :: "string list"
  eeLaunch :: launch
  eeFate :: fate
  eeDown :: fate

record elevated =
  elHelper :: "(string \<times> wg_state) option"
  elEnded :: "wg_state list"
  elStarted :: nat

definition no_helper :: elevated where
  "no_helper = \<lparr>elHelper = None, elEnded = [], elStarted = 0\<rparr>"

definition getOrStartWindowsWGHelper :: "elev_env \<Rightarrow> elevated \<Rightarrow> (string + string \<times> wg_state) \<times> elevated" where
  "getOrStartWindowsWGHelper E s =
     (case elHelper s of
        Some h \<Rightarrow> (Inr h, s)
      | None \<Rightarrow>
          (case startWindowsWGHelper (eeLaunch E) of
             Inl e \<Rightarrow> (Inl e, s)
           | Inr token \<Rightarrow> (Inr (token, fresh_wg), s\<lparr>elHelper := Some (token, fresh_wg), elStarted := Suc (elStarted s)\<rparr>)))"

definition apply_request :: "string \<Rightarrow> string list \<Rightarrow> helper_message" where
  "apply_request conf turnIPs = no_message\<lparr>hmAction := ''apply'', hmConfig := conf, hmTurnIPs := turnIPs\<rparr>"

definition teardown_request :: helper_message where
  "teardown_request = no_message\<lparr>hmAction := ''teardown''\<rparr>"

definition applyWindowsViaPrivilegedHelper ::
  "elev_env \<Rightarrow> string \<Rightarrow> string list \<Rightarrow> elevated \<Rightarrow> string option \<times> elevated" where
  "applyWindowsViaPrivilegedHelper E conf turnIPs s =
     (case getOrStartWindowsWGHelper E s of
        (Inl e, s) \<Rightarrow> (Some e, s)
      | (Inr (token, w), s) \<Rightarrow>
          (case eeFate E of
             NoDeadline e \<Rightarrow> (Some e, s)
           | Undelivered e \<Rightarrow> (Some (msg_not_sent @ e), s)
           | fate \<Rightarrow>
               (let (out, w, go) = helper_handle token (eeSystem E) (eeLogs E)
                      (wire (stamp_request token (apply_request conf turnIPs))) w;
                    s = s\<lparr>elHelper := Some (token, w)\<rparr>
                in case fate of
                     Unanswered e \<Rightarrow> (Some (msg_helper_broken @ e), s)
                   | _ \<Rightarrow> (fst (read_reply (map wire out)), s))))"

text \<open>The application asks and then closes the connection, which ends the helper in either case.\<close>

definition teardownWindowsPrivilegedHelper :: "elev_env \<Rightarrow> elevated \<Rightarrow> elevated" where
  "teardownWindowsPrivilegedHelper E s =
     (case elHelper s of
        None \<Rightarrow> s
      | Some (token, w) \<Rightarrow>
          (let reqs = (if delivered (eeDown E)
                 then [(eeSystem E, eeLogs E, wire (stamp_request token teardown_request))] else [])
           in s\<lparr>elHelper := None, elEnded := elEnded s @ [snd (helper_loop token (eeEnd E) reqs w)]\<rparr>))"

text \<open>\<open>WG.Apply\<close> and \<open>WG.Teardown\<close> of a user who is not an administrator.\<close>

definition ApplyElevated :: "elev_env \<Rightarrow> string \<Rightarrow> string list \<Rightarrow> elevated \<Rightarrow> string option \<times> elevated" where
  "ApplyElevated E conf turnIPs s =
     (case applyWindowsViaPrivilegedHelper E conf turnIPs s of
        (Some e, s) \<Rightarrow> (Some e, teardownWindowsPrivilegedHelper E s)
      | (None, s) \<Rightarrow> (None, s))"

text \<open>Whether the start of the application may clean up itself.\<close>

definition useWindowsPrivilegedHelper :: "bool \<Rightarrow> bool \<Rightarrow> bool" where
  "useWindowsPrivilegedHelper helper_mode elevated \<longleftrightarrow> \<not> helper_mode \<and> \<not> elevated"

definition cleanupStaleWindowsState :: "bool \<Rightarrow> bool \<Rightarrow> wg_env \<Rightarrow> wg_state \<Rightarrow> wg_state" where
  "cleanupStaleWindowsState helper_mode elevated E w =
     (if useWindowsPrivilegedHelper helper_mode elevated then w else cleanupStaleIPv6LeakProtection E w)"

definition platformPrivilegeReport :: "bool \<Rightarrow> bool \<Rightarrow> string" where
  "platformPrivilegeReport helper_mode elevated =
     (if helper_mode then ''Windows privileges: elevated network helper''
      else if elevated then ''Windows privileges: GUI process elevated by user''
      else ''Windows privileges: GUI asInvoker; network setup uses on-demand UAC helper'')"

section \<open>The contract of a tunnel\<close>

lemma wg_after:
  "windows_accounted w \<Longrightarrow> windows_accounted (teardownWindowsLocalWithLog E w)"
  "windows_accounted w \<Longrightarrow> windows_undone (teardownWindowsLocalWithLog E w)"
  by (simp_all add: teardown_windows)

lemma handle_accounted: "windows_accounted w \<Longrightarrow> windows_accounted (fst (snd (helper_handle token env logs r w)))"
  using apply_local_accounted [of w env "hmConfig r" "hmTurnIPs r"]
  by (auto simp: helper_handle_def wg_after split: prod.split)

lemma loop_undone:
  "windows_accounted w \<Longrightarrow> windows_undone (snd (helper_loop token E rs w)) \<and> windows_accounted (snd (helper_loop token E rs w))"
proof (induction token E rs w rule: helper_loop.induct)
  case (2 token E env logs r rs w)
  obtain out w1 go where h: "helper_handle token env logs r w = (out, w1, go)" by (rule prod_cases3)
  then have "windows_accounted w1"
    using handle_accounted [OF 2(2), of token env logs r] by simp
  then show ?case
    using 2(1) h by (simp add: wg_after split: prod.split) (metis snd_conv)
qed (simp add: wg_after)

text \<open>A helper that ended, and one that works, account for all they did, and they are all that were started.\<close>

definition elevated_accounted :: "elevated \<Rightarrow> bool" where
  "elevated_accounted s \<longleftrightarrow> (\<forall>t w. elHelper s = Some (t, w) \<longrightarrow> windows_accounted w) \<and>
     list_all windows_undone (elEnded s) \<and>
     elStarted s = length (elEnded s) + (if elHelper s = None then 0 else 1)"

definition elevated_undone :: "elevated \<Rightarrow> bool" where
  "elevated_undone s \<longleftrightarrow> elHelper s = None \<and> list_all windows_undone (elEnded s) \<and> elStarted s = length (elEnded s)"

lemma started_accounted:
  assumes "elevated_accounted s" "getOrStartWindowsWGHelper E s = (Inr (t, w), s')"
  shows "windows_accounted w" "elevated_accounted (s'\<lparr>elHelper := Some (t, w)\<rparr>)" "elHelper s' = Some (t, w)"
  using assms start_accounted(1)
  by (auto simp: getOrStartWindowsWGHelper_def elevated_accounted_def split: option.splits sum.splits)

lemma refused_same: "getOrStartWindowsWGHelper E s = (Inl e, s') \<Longrightarrow> s' = s"
  by (auto simp: getOrStartWindowsWGHelper_def split: option.splits sum.splits)

lemma helper_moves:
  "elevated_accounted (s\<lparr>elHelper := Some h\<rparr>) \<Longrightarrow> windows_accounted w \<Longrightarrow>
     elevated_accounted (s\<lparr>elHelper := Some (t, w)\<rparr>)"
  by (simp add: elevated_accounted_def)

lemma elevated_via:
  assumes "elevated_accounted s"
  shows "elevated_accounted (snd (applyWindowsViaPrivilegedHelper E conf ips s))"
proof -
  obtain r s1 where g: "getOrStartWindowsWGHelper E s = (r, s1)" by fastforce
  show ?thesis
  proof (cases r)
    case (Inl e)
    then show ?thesis using g refused_same [of E s e s1] assms by (simp add: applyWindowsViaPrivilegedHelper_def)
  next
    case (Inr h)
    obtain t w where h: "h = (t, w)" by (cases h)
    note k = started_accounted [OF assms g [unfolded Inr h]]
    have same: "s1\<lparr>elHelper := Some (t, w)\<rparr> = s1" using k(3) by simp
    obtain out w2 go where hh: "helper_handle t (eeSystem E) (eeLogs E) (wire (stamp_request t (apply_request conf ips))) w =
        (out, w2, go)" by (rule prod_cases3)
    then have "windows_accounted w2"
      using handle_accounted [OF k(1), of t "eeSystem E" "eeLogs E" "wire (stamp_request t (apply_request conf ips))"] by simp
    then have "elevated_accounted (s1\<lparr>elHelper := Some (t, w2)\<rparr>)" by (rule helper_moves [OF k(2)])
    then show ?thesis
      using k(2) hh by (simp add: applyWindowsViaPrivilegedHelper_def g Inr h same Let_def split: fate.split)
  qed
qed

lemma elevated_down:
  assumes "elevated_accounted s"
  shows "elevated_undone (teardownWindowsPrivilegedHelper E s)"
proof (cases "elHelper s")
  case None
  then show ?thesis using assms by (simp add: teardownWindowsPrivilegedHelper_def elevated_accounted_def elevated_undone_def)
next
  case (Some h)
  then have "windows_accounted (snd h)"
    using assms by (cases h) (simp add: elevated_accounted_def)
  then have "windows_undone (snd (helper_loop t E' rs (snd h)))" for t E' rs
    using loop_undone by blast
  then show ?thesis
    using Some assms by (auto simp: teardownWindowsPrivilegedHelper_def elevated_accounted_def elevated_undone_def Let_def
        simp del: helper_loop.simps split: prod.split)
qed

lemma undone_accounted: "elevated_undone s \<Longrightarrow> elevated_accounted s"
  by (simp add: elevated_undone_def elevated_accounted_def)

interpretation elevated: tunnel ApplyElevated teardownWindowsPrivilegedHelper elevated_accounted elevated_undone
    "\<lambda>ips. True"
proof
  fix s :: elevated and ips E conf
  assume a: "elevated_accounted s"
  show "elevated_accounted (snd (ApplyElevated E conf ips s))"
    using elevated_via [OF a, of E conf ips] elevated_down undone_accounted
    by (auto simp: ApplyElevated_def split: prod.split option.split)
  show "elevated_accounted (teardownWindowsPrivilegedHelper E s)"
    using elevated_down [OF a] by (rule undone_accounted)
  show "elevated_undone (teardownWindowsPrivilegedHelper E s)"
    using a by (rule elevated_down)
qed

section \<open>Answers\<close>

lemma message_fields [simp]:
  "hmKind (log_message l) = ''log''" "hmKind (result_message e) = ''result''" "hmMessage (log_message l) = l"
  "hmOK (result_message e) = (e = None)" "hmError (result_message (Some x)) = x"
  by (simp_all add: log_message_def result_message_def no_message_def split: option.split)

lemma request_fields [simp]:
  "hmToken (stamp_request t r) = t" "hmAction (stamp_request t r) = hmAction r" "hmConfig (stamp_request t r) = hmConfig r"
  "hmTurnIPs (stamp_request t r) = hmTurnIPs r" "hmAction (apply_request c ips) = ''apply''"
  "hmConfig (apply_request c ips) = c" "hmTurnIPs (apply_request c ips) = ips"
  "hmAction teardown_request = ''teardown''"
  by (simp_all add: stamp_request_def apply_request_def teardown_request_def no_message_def)

text \<open>The keywords of the protocol and the tokens are ASCII and pass through JSON unchanged.\<close>

lemma coerce_words [simp]:
  "coerce_utf8 ''apply'' = ''apply''" "coerce_utf8 ''teardown'' = ''teardown''" "coerce_utf8 ''log'' = ''log''"
  "coerce_utf8 ''result'' = ''result''"
  by (rule coerce_ascii, code_simp)+

lemma wire_fields [simp]:
  "hmKind (wire m) = coerce_utf8 (hmKind m)" "hmToken (wire m) = coerce_utf8 (hmToken m)"
  "hmAction (wire m) = coerce_utf8 (hmAction m)" "hmConfig (wire m) = coerce_utf8 (hmConfig m)"
  "hmTurnIPs (wire m) = map coerce_utf8 (hmTurnIPs m)" "hmOK (wire m) = hmOK m" "hmError (wire m) = coerce_utf8 (hmError m)"
  "hmMessage (wire m) = coerce_utf8 (hmMessage m)" "hmElevated (wire m) = hmElevated m"
  by (simp_all add: wire_def)

lemma wire_log [simp]: "wire (log_message l) = log_message (coerce_utf8 l)"
  by (simp add: wire_def log_message_def no_message_def)

lemma wire_result [simp]: "wire (result_message e) = result_message (map_option coerce_utf8 e)"
  by (cases e) (simp_all add: wire_def result_message_def no_message_def)

lemma hex_nibble_ascii: "n < 16 \<Longrightarrow> bval (hex_nibble n) < 128"
  by (simp add: hex_nibble_def)

lemma token_valid: "newWindowsWGHelperToken raw = Inr token \<Longrightarrow> coerce_utf8 token = token"
  using hex_nibble_ascii
  by (intro coerce_ascii) (auto simp: newWindowsWGHelperToken_def split: sum.splits)

text \<open>An error with no text gets one on the way.\<close>

definition shown :: "string option \<Rightarrow> string option" where
  "shown err = map_option (\<lambda>e. if e = [] then msg_unknown_error else e) err"

lemma read_result [simp]:
  "read_reply (map log_message logs @ result_message err # rest) = (shown err, filter (\<lambda>l. l \<noteq> []) logs, rest)"
  by (induction logs) (cases err; simp add: shown_def)+

lemma read_answer:
  "fst (read_reply (map wire (map log_message logs @ [result_message err]))) = shown (map_option coerce_utf8 err)"
proof -
  have "map wire (map log_message logs @ [result_message err]) =
      map log_message (map coerce_utf8 logs) @ [result_message (map_option coerce_utf8 err)]"
    by (simp add: comp_def)
  then show ?thesis by (simp only: read_result fst_conv)
qed

lemma via_answered:
  assumes "elHelper s = Some (token, w)" "eeFate E = Answered" "coerce_utf8 token = token"
    and "applyWindowsLocal (eeSystem E) (coerce_utf8 conf) (map coerce_utf8 ips) w = (r1, w1)"
  shows "applyWindowsViaPrivilegedHelper E conf ips s =
    (shown (map_option coerce_utf8 r1), s\<lparr>elHelper := Some (token, w1)\<rparr>)"
  using assms read_answer [of "eeLogs E" r1]
  by (simp add: applyWindowsViaPrivilegedHelper_def getOrStartWindowsWGHelper_def helper_handle_def Let_def)

section \<open>Properties\<close>

text \<open>Property C12 (refinement). To a user without the rights of an administrator the helper is the tunnel
  itself: a configuration it is asked for, on a connection that answers, gives the result of the direct
  call, made with the texts as JSON carries them (a byte that is not UTF-8 becomes U+FFFD; a valid text
  is unchanged) and with its error carried back the same way. After a success the helper is in the state
  of the direct call. After a failure, where the request to take down is delivered, it has ended in the
  state in which the direct call fails, taken down once more as its connection closes.\<close>

theorem helper_is_the_local_tunnel:
  assumes "elHelper s = Some (token, w)" and "newWindowsWGHelperToken raw = Inr token" and "eeFate E = Answered"
    and "ApplyElevated E conf ips s = (r, s')"
    and "ApplyWindows (eeSystem E) (coerce_utf8 conf) (map coerce_utf8 ips) w = (r', w')"
  shows "r = shown (map_option coerce_utf8 r') \<and>
    (r = None \<longrightarrow> elHelper s' = Some (token, w') \<and> elEnded s' = elEnded s) \<and>
    (r \<noteq> None \<longrightarrow> elHelper s' = None \<and> (delivered (eeDown E) \<longrightarrow>
       elEnded s' = elEnded s @ [teardownWindowsLocalWithLog (eeEnd E) w']))"
proof -
  have t: "coerce_utf8 token = token" using assms(2) by (rule token_valid)
  obtain r1 w1 where 1: "applyWindowsLocal (eeSystem E) (coerce_utf8 conf) (map coerce_utf8 ips) w = (r1, w1)"
    by fastforce
  note v = via_answered [OF assms(1,3) t 1]
  show ?thesis
  proof (cases r1)
    case None
    then show ?thesis
      using assms(4,5) by (auto simp: ApplyElevated_def ApplyWindows_def 1 v shown_def)
  next
    case (Some e)
    then show ?thesis
      using assms(4,5) by (auto simp: ApplyElevated_def ApplyWindows_def 1 v shown_def t helper_handle_def
          teardownWindowsPrivilegedHelper_def)
  qed
qed

definition demo_token :: string where
  "demo_token = ''0a1f''"

lemma demo_random: "newWindowsWGHelperToken (Inr [10, 31]) = Inr demo_token"
  by code_simp

definition demo_launch :: launch where
  "demo_launch = \<lparr>laListen = None, laRandom = Inr [10, 31], laExe = None, laShell = None, laDeadline = None,
     laConns = [None, Some (hello_message ''x'' True), Some (hello_message demo_token True)], laAccept = []\<rparr>"

definition demo_elev :: elev_env where
  "demo_elev = \<lparr>eeSystem = demo_wg, eeEnd = demo_wg, eeLogs = [''line''], eeLaunch = demo_launch, eeFate = Answered,
     eeDown = Answered\<rparr>"

lemma demo_started: "getOrStartWindowsWGHelper demo_elev no_helper =
    (Inr (demo_token, fresh_wg), \<lparr>elHelper = Some (demo_token, fresh_wg), elEnded = [], elStarted = 1\<rparr>)"
  by (simp add: getOrStartWindowsWGHelper_def startWindowsWGHelper_def demo_elev_def demo_launch_def demo_random no_helper_def)
     (simp add: hello_message_def no_message_def demo_token_def)

text \<open>The helper that was started, and a configuration without an address.\<close>

theorem helper_is_the_local_tunnel_witness:
  "\<exists>s e s'. getOrStartWindowsWGHelper demo_elev no_helper = (Inr (demo_token, fresh_wg), s) \<and>
     ApplyElevated demo_elev [] [''1.2.3.4''] s = (Some e, s') \<and> e = ''Address not found in wg config'' \<and>
     elHelper s' = None \<and> length (elEnded s') = 1"
proof -
  let ?s = "\<lparr>elHelper = Some (demo_token, fresh_wg), elEnded = [], elStarted = 1\<rparr>"
  let ?ips = "map coerce_utf8 [''1.2.3.4'']"
  obtain r s' where r: "ApplyElevated demo_elev [] [''1.2.3.4''] ?s = (r, s')" by fastforce
  have e: "eeSystem demo_elev = demo_wg" "eeFate demo_elev = Answered" "eeDown demo_elev = Answered"
    by (simp_all add: demo_elev_def)
  have "coerce_utf8 ''Address not found in wg config'' = ''Address not found in wg config''"
    by (rule coerce_ascii, code_simp)
  moreover have "fst (ApplyWindows demo_wg (coerce_utf8 []) ?ips fresh_wg) = Some ''Address not found in wg config''"
  proof -
    have "scan_lines [] = []" by (simp add: scan_lines_def split_on_def)
    moreover have "extractWintun demo_wg = None" by (simp add: extractWintun_def demo_wg_def)
    ultimately show ?thesis by (simp add: ApplyWindows_def applyWindowsLocal_def parseWGConfig_def Let_def)
  qed
  ultimately show ?thesis
    using helper_is_the_local_tunnel [OF _ demo_random e(2) r prod.collapse [symmetric], of fresh_wg] r e demo_started
    by (auto simp: shown_def delivered_def)
qed

text \<open>Property C11 (safety). What the helper does to the network is decided by the requests with its token
  alone, up to the first message without it: that message and all after it have no effect. And however
  the connection ends - a teardown, a message without the token, or a break at any point - the helper,
  on a machine left as it should be or with the firewall rule of a crash, has closed its device and its
  adapter and leaves no route, no raised metric and no firewall rule, except those whose removal it
  ordered afterwards and the system refused.\<close>

theorem helper_obeys_its_token:
  "snd (helper_loop token E rs w) =
     snd (helper_loop token E (takeWhile (\<lambda>(env, logs, r). hmToken r = token) rs) w) \<and>
   windows_undone (snd (helper_loop token E rs fresh_wg)) \<and> windows_undone (snd (helper_loop token E rs stale_wg))"
proof -
  have "snd (helper_loop token E rs w) = snd (helper_loop token E (takeWhile (\<lambda>(env, logs, r). hmToken r = token) rs) w)"
  proof (induction token E rs w rule: helper_loop.induct)
    case (2 token E env logs r rs w)
    obtain out w1 go where h: "helper_handle token env logs r w = (out, w1, go)" by (rule prod_cases3)
    show ?case
    proof (cases "hmToken r = token")
      case True
      then show ?thesis using 2 h by (simp add: Let_def case_prod_unfold)
    next
      case False
      then show ?thesis by (simp add: helper_handle_def)
    qed
  qed simp
  then show ?thesis using loop_undone [OF start_accounted(1)] loop_undone [OF start_accounted(2)] by blast
qed

text \<open>Property C24 (safety). However many configurations are applied and taken down without the rights of an
  administrator, with requests lost before or after the helper did them, answers that never come and
  elevations the user refuses: after a teardown no helper is left. Every helper that was ever started has
  ended, none was dropped for another, and each has closed its device and adapter and removed what it
  set up, but for removals the system refused.\<close>

theorem elevation_leaves_nothing_behind:
  "let s = teardownWindowsPrivilegedHelper E (run_ops ApplyElevated teardownWindowsPrivilegedHelper ops no_helper)
   in elHelper s = None \<and> length (elEnded s) = elStarted s \<and> list_all windows_undone (elEnded s)"
  using elevated.ops_undone [of no_helper ops E]
  by (simp add: elevated_accounted_def elevated_undone_def no_helper_def Let_def)

end
