(* ===== verification/Bridge.thy ===== *)
theory Bridge
  imports CoreMain SessionLog WgRoutes WgDarwin
begin

text \<open>
  The bridge between the application and the core (\<open>backend/bridge.go\<close>): connecting and disconnecting,
  the journal of the session, and the loop that forwards the events of the core, applies the WireGuard
  configuration it brings and publishes the connection once traffic flows both ways. It is written over
  any tunnel that keeps the contract \<open>tunnel\<close> of \<open>WgRoutes\<close>; the lemmas are proved once for the
  contract and hold for Linux, Windows and macOS. Not modelled are the lines \<open>Apply\<close> logs itself and the
  payload of the captcha calls, which only pass through.
\<close>

section \<open>Texts\<close>

definition msg_no_hashes :: string where
  "msg_no_hashes = utf8 [208, 189, 208, 181, 209, 130, 32, 209, 133, 208, 181, 209, 136, 208, 181, 208, 185, 32,
     86, 75]"

definition msg_traffic :: string where
  "msg_traffic = utf8 [91, 87, 71, 93, 32, 208, 148, 208, 178, 209, 131, 209, 129, 209, 130, 208, 190, 209,
     128, 208, 190, 208, 189, 208, 189, 208, 184, 208, 185, 32, 209, 130, 209, 128, 208,
     176, 209, 132, 208, 184, 208, 186, 32, 208, 191, 208, 190, 208, 180, 209, 130, 208,
     178, 208, 181, 209, 128, 208, 182, 208, 180, 209, 145, 208, 189, 44, 32, 209, 130,
     209, 131, 208, 189, 208, 189, 208, 181, 208, 187, 209, 140, 32, 208, 176, 208, 186,
     209, 130, 208, 184, 208, 178, 208, 181, 208, 189]"

definition msg_vpn_active :: string where
  "msg_vpn_active = utf8 [86, 80, 78, 45, 209, 130, 209, 131, 208, 189, 208, 189, 208, 181, 208, 187, 209, 140,
     32, 208, 176, 208, 186, 209, 130, 208, 184, 208, 178, 208, 181, 208, 189]"

definition msg_vpn_setup :: string where
  "msg_vpn_setup = utf8 [208, 157, 208, 176, 209, 129, 209, 130, 209, 128, 208, 190, 208, 185, 208, 186, 208,
     176, 32, 86, 80, 78, 45, 208, 188, 208, 176, 209, 128, 209, 136, 209, 128, 209,
     131, 209, 130, 208, 190, 208, 178]"

definition msg_wg_applying :: string where
  "msg_wg_applying = utf8 [91, 87, 71, 93, 32, 208, 159, 209, 128, 208, 184, 208, 188, 208, 181, 208, 189, 208,
     181, 208, 189, 208, 184, 208, 181, 32, 208, 186, 208, 190, 208, 189, 209, 132, 208,
     184, 208, 179, 208, 176, 46, 46, 46]"

definition msg_vpn_failed :: string where
  "msg_vpn_failed = utf8 [208, 157, 208, 181, 32, 209, 131, 208, 180, 208, 176, 208, 187, 208, 190, 209, 129, 209,
     140, 32, 208, 189, 208, 176, 209, 129, 209, 130, 209, 128, 208, 190, 208, 184, 209,
     130, 209, 140, 32, 86, 80, 78]"

definition msg_wg_error :: string where
  "msg_wg_error = utf8 [91, 87, 71, 93, 32, 208, 158, 209, 136, 208, 184, 208, 177, 208, 186, 208, 176, 58, 32]"

definition msg_wg_applied :: string where
  "msg_wg_applied = utf8 [91, 87, 71, 93, 32, 208, 154, 208, 190, 208, 189, 209, 132, 208, 184, 208, 179, 32, 208,
     191, 209, 128, 208, 184, 208, 188, 208, 181, 208, 189, 209, 145, 208, 189, 44, 32,
     208, 190, 208, 182, 208, 184, 208, 180, 208, 176, 208, 181, 208, 188, 32, 208, 191,
     208, 190, 208, 180, 209, 130, 208, 178, 208, 181, 209, 128, 208, 182, 208, 180,
     208, 181, 208, 189, 208, 184, 209, 143, 32, 208, 180, 208, 178, 209, 131, 209, 129,
     209, 130, 208, 190, 209, 128, 208, 190, 208, 189, 208, 189, 208, 181, 208, 179,
     208, 190, 32, 209, 130, 209, 128, 208, 176, 209, 132, 208, 184, 208, 186, 208, 176]"

definition msg_core_ready :: string where
  "msg_core_ready = utf8 [91, 208, 175, 208, 148, 208, 160, 208, 158, 93, 32, 208, 160, 208, 176, 208, 177, 208,
     190, 209, 135, 208, 176, 209, 143, 32, 68, 84, 76, 83, 45, 209, 129, 208, 181, 209,
     129, 209, 129, 208, 184, 209, 143, 32, 209, 131, 209, 129, 209, 130, 208, 176, 208,
     189, 208, 190, 208, 178, 208, 187, 208, 181, 208, 189, 208, 176]"

section \<open>State\<close>

text \<open>What the frontend is told through \<open>onEvent\<close>.\<close>

datatype ui_event =
    UiState string | UiLog string string | UiStats int int int | UiProgress string string string
  | UiProgressData string | UiError string | UiDiagnostic string | UiCaptcha string string | UiEvent string

record 'w bridge =
  brRunning :: bool
  brApplied :: bool
  brPublished :: bool
  brWarned :: bool
  brCore :: "core option"
  brLog :: "log_file option"
  brWg :: 'w
  brOut :: "ui_event list"

text \<open>
  The tunnel of the platform, and the results of the file system for the journal as they are at the
  moment: clock, write and synchronisation of a line, synchronisation and closing at the end.
\<close>

record 'w bridge_env =
  beApply :: "string \<Rightarrow> string list \<Rightarrow> 'w \<Rightarrow> string option \<times> 'w"
  beDown :: "'w \<Rightarrow> 'w"
  beLog :: log_env
  beWrite :: "log_file \<Rightarrow> string \<times> write_result \<times> bool"
  beClose :: "log_file \<Rightarrow> bool \<times> bool"
  beOpen :: "bool \<times> bool \<times> bool"
  beStart :: start_env
  beDebug :: bool

definition NewBridge :: "'w \<Rightarrow> 'w bridge" where
  "NewBridge w = \<lparr>brRunning = False, brApplied = False, brPublished = False, brWarned = False, brCore = None,
     brLog = None, brWg = w, brOut = []\<rparr>"

definition onEvent :: "ui_event \<Rightarrow> 'w bridge \<Rightarrow> 'w bridge" where
  "onEvent ev b = b\<lparr>brOut := brOut b @ [ev]\<rparr>"

section \<open>The journal\<close>

definition recordLog :: "'w bridge_env \<Rightarrow> string \<Rightarrow> string \<Rightarrow> bool \<Rightarrow> 'w bridge \<Rightarrow> 'w bridge" where
  "recordLog env level message emitUI b =
     (let message = leSan (beLog env) message;
          (warning, b) =
            (case brLog b of
               None \<Rightarrow> ([], b)
             | Some lf \<Rightarrow>
                 (let (clock, wr, sync_ok) = beWrite env lf;
                      (err, lf) = log_Write (beLog env) clock wr sync_ok level message lf;
                      b = b\<lparr>brLog := Some lf\<rparr>
                  in if err \<noteq> None \<and> \<not> brWarned b then (log_Warning lf, b\<lparr>brWarned := True\<rparr>) else ([], b)));
          b = (if emitUI then onEvent (UiLog level message) b else b)
      in if warning \<noteq> [] then onEvent (UiLog ''WARN'' warning) b else b)"

text \<open>Closing the journal; the flag tells whether \<open>Close\<close> had an error.\<close>

definition close_log :: "'w bridge_env \<Rightarrow> log_file \<Rightarrow> bool \<times> log_file" where
  "close_log env lf =
     (let (sync_ok, close_ok) = beClose env lf
      in (\<not> lfClosed lf \<and> lfFile lf \<and> \<not> (sync_ok \<and> close_ok), log_Close sync_ok close_ok lf))"

definition SnapshotSessionLog :: "log_env \<Rightarrow> bool \<Rightarrow> bool \<Rightarrow> 'w bridge \<Rightarrow> snapshot option \<times> 'w bridge" where
  "SnapshotSessionLog env sync_ok read_ok b =
     (case brLog b of
        None \<Rightarrow> (None, b)
      | Some lf \<Rightarrow> (let (s, lf) = Snapshot env sync_ok read_ok lf in (Some s, b\<lparr>brLog := Some lf\<rparr>)))"

section \<open>Connecting and disconnecting\<close>

record connect_params =
  cpPeerAddr :: string
  cpPassword :: string
  cpHashes :: "string list"
  cpDeviceID :: string
  cpWorkers :: int
  cpCaptchaMode :: string
  cpObfsMode :: string
  cpFingerprint :: string
  cpOperationID :: string

definition core_config :: "bool \<Rightarrow> connect_params \<Rightarrow> config" where
  "core_config debug p =
     \<lparr>PeerAddr = cpPeerAddr p, Password = cpPassword p, Hashes = cpHashes p,
      DeviceID = (if cpDeviceID p = [] then ''unknown'' else cpDeviceID p),
      Workers = (if cpWorkers p \<le> 0 then 24 else cpWorkers p), Listen = [], TurnHost = [], TurnPort = [],
      CaptchaMode = cpCaptchaMode p, ObfsMode = cpObfsMode p, Fingerprint = cpFingerprint p,
      OperationID = cpOperationID p, DebugLogging = debug\<rparr>"

definition resetRunning :: "'w bridge_env \<Rightarrow> 'w bridge \<Rightarrow> 'w bridge" where
  "resetRunning env b =
     b\<lparr>brRunning := False, brApplied := False, brPublished := False,
       brLog := map_option (\<lambda>lf. snd (close_log env lf)) (brLog b)\<rparr>"

definition open_journal :: "'w bridge_env \<Rightarrow> 'w bridge \<Rightarrow> 'w bridge" where
  "open_journal env b =
     (let (mkdir_ok, create_ok, prune_ok) = beOpen env;
          session = OpenLogFile mkdir_ok create_ok prune_ok;
          b = b\<lparr>brLog := Some session, brWarned := (log_Warning session \<noteq> [])\<rparr>
      in if log_Warning session \<noteq> [] then onEvent (UiLog ''WARN'' (log_Warning session)) b else b)"

text \<open>\<open>None\<close> is success: the loop that forwards the events runs from then on.\<close>

definition bridge_Connect :: "'w bridge_env \<Rightarrow> connect_params \<Rightarrow> 'w bridge \<Rightarrow> string option \<times> 'w bridge" where
  "bridge_Connect env params b =
     (if brRunning b then (Some ''already running'', b)
      else
        (let b = b\<lparr>brRunning := True, brApplied := False, brPublished := False\<rparr>
         in if cpHashes params = [] then (Some msg_no_hashes, resetRunning env b)
            else
              (let b = open_journal env b
               in case Start (beStart env) (New (core_config (beDebug env) params)) of
                    (Inl err, c) \<Rightarrow> (Some (''core start: '' @ err), resetRunning env b)
                  | (Inr st, c) \<Rightarrow>
                      (None, b\<lparr>brCore := Some c, brRunning := True, brApplied := False, brPublished := False\<rparr>))))"

definition bridge_Disconnect :: "'w bridge_env \<Rightarrow> 'w bridge \<Rightarrow> 'w bridge" where
  "bridge_Disconnect env b =
     (let c = brCore b; b = b\<lparr>brWg := beDown env (brWg b)\<rparr>
      in case c of None \<Rightarrow> b | Some c \<Rightarrow> b\<lparr>brCore := Some (Stop c)\<rparr>)"

definition bridge_SetDebugLogging :: "bool \<Rightarrow> 'w bridge \<Rightarrow> 'w bridge" where
  "bridge_SetDebugLogging enabled b = b\<lparr>brCore := map_option (SetDebugLogging enabled) (brCore b)\<rparr>"

definition tunnelTrafficConfirmed :: "int \<Rightarrow> int \<Rightarrow> int \<Rightarrow> bool" where
  "tunnelTrafficConfirmed active bytesUp bytesDown \<longleftrightarrow> active > 0 \<and> bytesUp > 0 \<and> bytesDown > 0"

section \<open>Forwarding the events\<close>

definition apply_config :: "'w bridge_env \<Rightarrow> string \<Rightarrow> string list \<Rightarrow> 'w bridge \<Rightarrow> 'w bridge" where
  "apply_config env conf turnIPs b =
     (let b = onEvent (UiProgress ''vpn'' ''running'' msg_vpn_setup) b;
          b = recordLog env ''INFO'' msg_wg_applying True b;
          (err, w) = beApply env conf turnIPs (brWg b);
          b = b\<lparr>brWg := w\<rparr>
      in case err of
           Some e \<Rightarrow>
             (let b = onEvent (UiProgress ''vpn'' ''error'' msg_vpn_failed) b;
                  b = onEvent (UiError (msg_wg_error @ e)) b
              in b\<lparr>brCore := map_option Stop (brCore b)\<rparr>)
         | None \<Rightarrow> recordLog env ''INFO'' msg_wg_applied True (b\<lparr>brApplied := True\<rparr>))"

definition publish_stats :: "'w bridge_env \<Rightarrow> event \<Rightarrow> 'w bridge \<Rightarrow> 'w bridge" where
  "publish_stats env ev b =
     (let b = onEvent (UiStats (evActive ev) (evUp ev) (evDown ev)) b
      in if brApplied b \<and> \<not> brPublished b \<and> tunnelTrafficConfirmed (evActive ev) (evUp ev) (evDown ev)
         then onEvent (UiState ''connected'')
                (onEvent (UiProgress ''vpn'' ''success'' msg_vpn_active)
                  (recordLog env ''INFO'' msg_traffic True (b\<lparr>brPublished := True\<rparr>)))
         else b)"

definition forward_event :: "'w bridge_env \<Rightarrow> event \<Rightarrow> 'w bridge \<Rightarrow> 'w bridge" where
  "forward_event env ev b =
     (case evType ev of
        EventState \<Rightarrow> onEvent (UiState (evStatus ev)) b
      | EventLog \<Rightarrow> recordLog env (evLevel ev) (evMessage ev) (evLevel ev \<noteq> ''SKIP'') b
      | EventStats \<Rightarrow> publish_stats env ev b
      | EventError \<Rightarrow> onEvent (UiError (leSan (beLog env) (evMessage ev))) (recordLog env ''ERROR'' (evMessage ev) False b)
      | EventEvent \<Rightarrow>
          (let name = evName ev
           in if name = ''connection_progress'' then onEvent (UiProgressData (evData ev)) b
              else if name = ''diagnostic'' then
                recordLog env ''DEBUG'' (evData ev) False (onEvent (UiDiagnostic (leSan (beLog env) (evData ev))) b)
              else if name = ''wg_config'' then apply_config env (evData ev) (evTurnIPs ev) b
              else if name = ''captcha_required'' \<or> name = ''captcha_closed'' then onEvent (UiCaptcha name (evData ev)) b
              else if name = ''ready'' then recordLog env ''INFO'' msg_core_ready True b
              else onEvent (UiEvent name) b))"

text \<open>After the channel of events was closed.\<close>

definition forward_end :: "'w bridge_env \<Rightarrow> 'w bridge \<Rightarrow> 'w bridge" where
  "forward_end env b =
     (let b = b\<lparr>brWg := beDown env (brWg b), brRunning := False, brApplied := False, brPublished := False, brCore := None\<rparr>;
          (warning, b) =
            (case brLog b of
               None \<Rightarrow> ([], b)
             | Some lf \<Rightarrow>
                 (let (err, lf) = close_log env lf; b = b\<lparr>brLog := Some lf\<rparr>
                  in if err \<and> \<not> brWarned b then (log_Warning lf, b\<lparr>brWarned := True\<rparr>) else ([], b)));
          b = (if warning \<noteq> [] then onEvent (UiLog ''WARN'' warning) b else b)
      in onEvent (UiState ''disconnected'') b)"

text \<open>What can happen while a connection lives, and a life of the bridge as a sequence of it.\<close>

datatype 'w bridge_op = Forward "'w bridge_env" event | UserDisconnect "'w bridge_env" | SetDebug bool

fun bridge_step :: "'w bridge_op \<Rightarrow> 'w bridge \<Rightarrow> 'w bridge" where
  "bridge_step (Forward env ev) b = forward_event env ev b"
| "bridge_step (UserDisconnect env) b = bridge_Disconnect env b"
| "bridge_step (SetDebug d) b = bridge_SetDebugLogging d b"

definition session_of :: "'w bridge_env \<Rightarrow> connect_params \<Rightarrow> 'w bridge_op list \<Rightarrow> 'w bridge \<Rightarrow> 'w bridge" where
  "session_of env params steps b = fold bridge_step steps (snd (bridge_Connect env params b))"

section \<open>The contract of the tunnel, kept by the bridge\<close>

lemma onEvent_fields [simp]:
  "brRunning (onEvent e b) = brRunning b" "brApplied (onEvent e b) = brApplied b"
  "brPublished (onEvent e b) = brPublished b" "brWarned (onEvent e b) = brWarned b" "brCore (onEvent e b) = brCore b"
  "brLog (onEvent e b) = brLog b" "brWg (onEvent e b) = brWg b" "brOut (onEvent e b) = brOut b @ [e]"
  by (simp_all add: onEvent_def)

text \<open>Recording a line touches the journal and the log of the frontend only.\<close>

definition quiet :: "ui_event list \<Rightarrow> bool" where
  "quiet es \<longleftrightarrow> list_all (\<lambda>e. \<exists>l m. e = UiLog l m) es"

lemma quiet_simps [simp]: "quiet []" "quiet (UiLog l m # es) = quiet es" "quiet (es @ fs) = (quiet es \<and> quiet fs)"
  by (simp_all add: quiet_def)

lemma recordLog_frame:
  "brRunning (recordLog env l m ui b) = brRunning b \<and> brApplied (recordLog env l m ui b) = brApplied b \<and>
   brPublished (recordLog env l m ui b) = brPublished b \<and> brCore (recordLog env l m ui b) = brCore b \<and>
   brWg (recordLog env l m ui b) = brWg b \<and> (brLog (recordLog env l m ui b) = None \<longleftrightarrow> brLog b = None) \<and>
   (\<exists>es. quiet es \<and> brOut (recordLog env l m ui b) = brOut b @ es)"
  by (auto simp: recordLog_def Let_def split: option.split prod.split)

lemmas recordLog_simps [simp] = recordLog_frame [THEN conjunct1] recordLog_frame [THEN conjunct2, THEN conjunct1]
  recordLog_frame [THEN conjunct2, THEN conjunct2, THEN conjunct1]
  recordLog_frame [THEN conjunct2, THEN conjunct2, THEN conjunct2, THEN conjunct1]
  recordLog_frame [THEN conjunct2, THEN conjunct2, THEN conjunct2, THEN conjunct2, THEN conjunct1]

lemma forward_wg:
  "brWg (forward_event env ev b) =
     (if evType ev = EventEvent \<and> evName ev = ''wg_config''
      then snd (beApply env (evData ev) (evTurnIPs ev) (brWg b)) else brWg b)"
  by (simp add: forward_event_def apply_config_def publish_stats_def Let_def split: event_type.split prod.split option.split)

lemma resetRunning_wg [simp]: "brWg (resetRunning env b) = brWg b" "brRunning (resetRunning env b) = False"
  by (simp_all add: resetRunning_def)

lemma open_journal_fields [simp]:
  "brWg (open_journal env b) = brWg b" "brRunning (open_journal env b) = brRunning b"
  "brApplied (open_journal env b) = brApplied b" "brPublished (open_journal env b) = brPublished b"
  "brCore (open_journal env b) = brCore b" "brLog (open_journal env b) \<noteq> None"
  by (simp_all add: open_journal_def Let_def split: prod.split)

lemma connect_wg: "brWg (snd (bridge_Connect env params b)) = brWg b"
  by (simp add: bridge_Connect_def Let_def split: prod.split sum.split)

definition ips_of :: "'w bridge_op \<Rightarrow> string list" where
  "ips_of op = (case op of Forward env ev \<Rightarrow> evTurnIPs ev | _ \<Rightarrow> [])"

definition env_of :: "'w bridge_op \<Rightarrow> 'w bridge_env option" where
  "env_of op = (case op of Forward env ev \<Rightarrow> Some env | UserDisconnect env \<Rightarrow> Some env | SetDebug d \<Rightarrow> None)"

text \<open>The steps are those of one platform, with addresses it can handle.\<close>

definition drives ::
  "('e \<Rightarrow> string \<Rightarrow> string list \<Rightarrow> 's \<Rightarrow> string option \<times> 's) \<Rightarrow> ('e \<Rightarrow> 's \<Rightarrow> 's) \<Rightarrow> 's bridge_env \<Rightarrow> bool" where
  "drives ap dn env \<longleftrightarrow> (\<exists>e. beApply env = ap e \<and> beDown env = dn e)"

definition drives_ops ::
  "('e \<Rightarrow> string \<Rightarrow> string list \<Rightarrow> 's \<Rightarrow> string option \<times> 's) \<Rightarrow> ('e \<Rightarrow> 's \<Rightarrow> 's) \<Rightarrow> (string list \<Rightarrow> bool) \<Rightarrow>
   's bridge_op list \<Rightarrow> bool" where
  "drives_ops ap dn good ops \<longleftrightarrow>
     (\<forall>op \<in> set ops. good (ips_of op) \<and> (\<forall>env. env_of op = Some env \<longrightarrow> drives ap dn env))"

lemma forward_end_frame:
  "brWg (forward_end env b) = beDown env (brWg b) \<and> \<not> brRunning (forward_end env b) \<and>
   \<not> brApplied (forward_end env b) \<and> \<not> brPublished (forward_end env b) \<and> brCore (forward_end env b) = None \<and>
   (\<forall>lf. brLog (forward_end env b) = Some lf \<longrightarrow> lfClosed lf)"
  by (auto simp: forward_end_def close_log_def log_Close_def disk_fault_def warnLocked_def Let_def
      split: option.split prod.split)

context tunnel
begin

lemma step_accounted:
  assumes "accounted (brWg b)" "good_ips (ips_of op)" "\<forall>env. env_of op = Some env \<longrightarrow> drives apply_op down env"
  shows "accounted (brWg (bridge_step op b))"
proof (cases op)
  case (Forward env ev)
  then show ?thesis
    using assms apply_accounted by (auto simp: forward_wg ips_of_def env_of_def drives_def)
next
  case (UserDisconnect env)
  then show ?thesis
    using assms down_accounted by (auto simp: bridge_Disconnect_def Let_def env_of_def drives_def split: option.split)
qed (use assms in \<open>simp add: bridge_SetDebugLogging_def\<close>)

lemma steps_accounted: "accounted (brWg b) \<Longrightarrow> drives_ops apply_op down good_ips ops \<Longrightarrow> accounted (brWg (fold bridge_step ops b))"
  by (induction ops arbitrary: b) (simp_all add: drives_ops_def step_accounted)

text \<open>Whatever happened in between, the tunnel is undone when the loop has ended.\<close>

lemma session_undone:
  assumes "accounted (brWg b)" "drives_ops apply_op down good_ips ops" "drives apply_op down env'"
  shows "undone (brWg (forward_end env' (session_of env params ops b)))"
proof -
  have "accounted (brWg (session_of env params ops b))"
    using steps_accounted [OF _ assms(2)] assms(1) by (simp add: session_of_def connect_wg)
  then have "undone (beDown env' (brWg (session_of env params ops b)))"
    using assms(3) down_undone by (auto simp: drives_def)
  then show ?thesis by (simp add: forward_end_frame)
qed

end

section \<open>What the frontend is told\<close>

definition announces :: "ui_event \<Rightarrow> bool" where
  "announces e \<longleftrightarrow> e = UiProgress ''vpn'' ''success'' msg_vpn_active"

definition announced :: "'w bridge \<Rightarrow> nat" where
  "announced b = length (filter announces (brOut b))"

lemma announced_onEvent [simp]: "announced (onEvent e b) = announced b + of_bool (announces e)"
  by (simp add: announced_def)

lemma quiet_announces: "quiet es \<Longrightarrow> filter announces es = []"
  by (induction es) (auto simp: announces_def quiet_def)

lemma announced_recordLog [simp]: "announced (recordLog env l m ui b) = announced b"
proof -
  obtain es where "quiet es" "brOut (recordLog env l m ui b) = brOut b @ es"
    using recordLog_frame [of env l m ui b] by blast
  then show ?thesis by (simp add: announced_def quiet_announces)
qed

lemma announced_update [simp]:
  "announced (b\<lparr>brRunning := x\<rparr>) = announced b" "announced (b\<lparr>brApplied := x\<rparr>) = announced b"
  "announced (b\<lparr>brPublished := x\<rparr>) = announced b" "announced (b\<lparr>brCore := c\<rparr>) = announced b"
  "announced (b\<lparr>brWg := w\<rparr>) = announced b" "announced (b\<lparr>brLog := l\<rparr>) = announced b"
  "announced (b\<lparr>brWarned := x\<rparr>) = announced b"
  by (simp_all add: announced_def)

lemma announces_simps [simp]:
  "announces (UiProgress ''vpn'' ''success'' msg_vpn_active)" "\<not> announces (UiProgress ''vpn'' ''running'' m)"
  "\<not> announces (UiProgress ''vpn'' ''error'' m)" "\<not> announces (UiState s)" "\<not> announces (UiLog l m)"
  "\<not> announces (UiStats x y z)" "\<not> announces (UiProgressData s)" "\<not> announces (UiError s)"
  "\<not> announces (UiDiagnostic s)" "\<not> announces (UiCaptcha n s)" "\<not> announces (UiEvent s)"
  by (simp_all add: announces_def)

text \<open>Statistics of a tunnel that is alive: a session is active and bytes went up and came down.\<close>

definition two_way :: "event \<Rightarrow> bool" where
  "two_way ev \<longleftrightarrow> evType ev = EventStats \<and> 0 < evActive ev \<and> 0 < evUp ev \<and> 0 < evDown ev"

text \<open>The statistics that announce the connection, and the configuration that was applied.\<close>

definition confirming :: "event \<Rightarrow> 'w bridge \<Rightarrow> bool" where
  "confirming ev b \<longleftrightarrow> two_way ev \<and> brApplied b \<and> \<not> brPublished b"

definition applying :: "'w bridge_env \<Rightarrow> event \<Rightarrow> 'w bridge \<Rightarrow> bool" where
  "applying env ev b \<longleftrightarrow> evType ev = EventEvent \<and> evName ev = ''wg_config'' \<and>
     fst (beApply env (evData ev) (evTurnIPs ev) (brWg b)) = None"

lemma forward_flags:
  "announced (forward_event env ev b) = announced b + of_bool (confirming ev b) \<and>
   (brPublished (forward_event env ev b) \<longleftrightarrow> brPublished b \<or> confirming ev b) \<and>
   (brApplied (forward_event env ev b) \<longleftrightarrow> brApplied b \<or> applying env ev b)"
  by (auto simp: forward_event_def apply_config_def publish_stats_def confirming_def two_way_def applying_def
      tunnelTrafficConfirmed_def Let_def split: event_type.split prod.split option.split)

lemma step_flags:
  "announced (bridge_step op b) = announced b + (case op of Forward env ev \<Rightarrow> of_bool (confirming ev b) | _ \<Rightarrow> 0) \<and>
   (brPublished (bridge_step op b) \<longleftrightarrow> brPublished b \<or> (\<exists>env ev. op = Forward env ev \<and> confirming ev b)) \<and>
   (brApplied (bridge_step op b) \<longleftrightarrow> brApplied b \<or> (\<exists>env ev. op = Forward env ev \<and> applying env ev b))"
  by (cases op) (auto simp: forward_flags bridge_Disconnect_def bridge_SetDebugLogging_def Let_def split: option.split)

text \<open>Some step of a sequence was of a kind, in the state before it.\<close>

definition happened :: "('w bridge_env \<Rightarrow> event \<Rightarrow> 'w bridge \<Rightarrow> bool) \<Rightarrow> 'w bridge_op list \<Rightarrow> 'w bridge \<Rightarrow> bool" where
  "happened P ops b \<longleftrightarrow> (\<exists>pre env ev post. ops = pre @ Forward env ev # post \<and> P env ev (fold bridge_step pre b))"

lemma happened_snoc:
  "happened P (ops @ [op]) b \<longleftrightarrow>
     happened P ops b \<or> (\<exists>env ev. op = Forward env ev \<and> P env ev (fold bridge_step ops b))"
proof
  assume "happened P (ops @ [op]) b"
  then obtain pre env ev post where s: "ops @ [op] = pre @ Forward env ev # post" "P env ev (fold bridge_step pre b)"
    by (auto simp: happened_def)
  then show "happened P ops b \<or> (\<exists>env ev. op = Forward env ev \<and> P env ev (fold bridge_step ops b))"
    by (cases post rule: rev_cases) (auto simp: happened_def)
next
  assume "happened P ops b \<or> (\<exists>env ev. op = Forward env ev \<and> P env ev (fold bridge_step ops b))"
  then show "happened P (ops @ [op]) b"
    unfolding happened_def by (metis append_Cons append_assoc append_Nil)
qed

lemma steps_flags:
  assumes "\<not> brApplied b" "\<not> brPublished b"
  shows "announced (fold bridge_step ops b) = announced b + of_bool (brPublished (fold bridge_step ops b)) \<and>
    (brPublished (fold bridge_step ops b) \<longleftrightarrow> happened (\<lambda>env. confirming) ops b) \<and>
    (brApplied (fold bridge_step ops b) \<longleftrightarrow> happened applying ops b)"
proof (induction ops rule: rev_induct)
  case Nil
  then show ?case using assms by (simp add: happened_def)
next
  case (snoc op ops)
  have "confirming ev (fold bridge_step ops b) \<Longrightarrow> \<not> brPublished (fold bridge_step ops b)" for ev
    by (simp add: confirming_def)
  then show ?case
    using snoc step_flags [of op "fold bridge_step ops b"] by (cases op) (auto simp: happened_snoc)
qed

text \<open>Over the events alone: two-way traffic was reported after a configuration had been accepted.\<close>

definition tunnel_confirmed :: "'w bridge_op list \<Rightarrow> 'w bridge \<Rightarrow> bool" where
  "tunnel_confirmed ops b \<longleftrightarrow>
     (\<exists>pre env ev post. ops = pre @ Forward env ev # post \<and> two_way ev \<and> happened applying pre b)"

lemma tunnel_confirmed_snoc:
  "tunnel_confirmed (ops @ [op]) b \<longleftrightarrow>
     tunnel_confirmed ops b \<or> (\<exists>env ev. op = Forward env ev \<and> two_way ev \<and> happened applying ops b)"
proof
  assume "tunnel_confirmed (ops @ [op]) b"
  then obtain pre env ev post where s: "ops @ [op] = pre @ Forward env ev # post" "two_way ev" "happened applying pre b"
    by (auto simp: tunnel_confirmed_def)
  then show "tunnel_confirmed ops b \<or> (\<exists>env ev. op = Forward env ev \<and> two_way ev \<and> happened applying ops b)"
    by (cases post rule: rev_cases) (auto simp: tunnel_confirmed_def)
next
  assume "tunnel_confirmed ops b \<or> (\<exists>env ev. op = Forward env ev \<and> two_way ev \<and> happened applying ops b)"
  then show "tunnel_confirmed (ops @ [op]) b"
    unfolding tunnel_confirmed_def by (metis append_Cons append_assoc append_Nil)
qed

lemma published_confirmed:
  assumes "\<not> brApplied b" "\<not> brPublished b"
  shows "brPublished (fold bridge_step ops b) \<longleftrightarrow> tunnel_confirmed ops b"
proof (induction ops rule: rev_induct)
  case Nil
  then show ?case using assms by (simp add: tunnel_confirmed_def)
next
  case (snoc op ops)
  have "brApplied (fold bridge_step ops b) \<longleftrightarrow> happened applying ops b"
    using steps_flags [OF assms] by blast
  then show ?case
    using snoc step_flags [of op "fold bridge_step ops b"] by (auto simp: tunnel_confirmed_snoc confirming_def)
qed

lemma connected_flags:
  "bridge_Connect env params b = (None, b') \<Longrightarrow> \<not> brApplied b' \<and> \<not> brPublished b' \<and> announced b' = announced b \<and>
     brRunning b' \<and> brCore b' \<noteq> None"
  by (auto simp: bridge_Connect_def open_journal_def Let_def split: if_splits prod.splits sum.splits)

section \<open>Properties\<close>

text \<open>Property C38 (invariant). Within one connection the frontend is told that the tunnel is active once if,
  after a configuration that \<open>Apply\<close> has accepted, statistics came with an active session and bytes in
  both directions, and otherwise not at all.\<close>

theorem connection_is_announced_once:
  assumes "bridge_Connect env params b = (None, b')"
  shows "announced (fold bridge_step ops b') = announced b +
     of_bool (\<exists>pre env ev post. ops = pre @ Forward env ev # post \<and>
       evType ev = EventStats \<and> 0 < evActive ev \<and> 0 < evUp ev \<and> 0 < evDown ev \<and> happened applying pre b')"
proof -
  have f: "\<not> brApplied b'" "\<not> brPublished b'" "announced b' = announced b"
    using connected_flags [OF assms] by blast+
  show ?thesis
    using steps_flags [OF f(1,2), of ops] published_confirmed [OF f(1,2), of ops] f(3)
    by (simp add: tunnel_confirmed_def two_way_def)
qed

definition demo_bridge :: "wg_state bridge_env" where
  "demo_bridge = \<lparr>beApply = applyLinux demo_wg, beDown = teardownLinux demo_wg,
     beLog = \<lparr>leUpper = (\<lambda>s. s), leSan = (\<lambda>s. s)\<rparr>, beWrite = (\<lambda>lf. (''12:00'', Wrote, True)),
     beClose = (\<lambda>lf. (True, True)), beOpen = (True, True, True), beStart = demo_start, beDebug = False\<rparr>"

definition demo_params :: connect_params where
  "demo_params = \<lparr>cpPeerAddr = ''10.0.0.1:5000'', cpPassword = ''pw'', cpHashes = [''h''], cpDeviceID = [],
     cpWorkers = 40, cpCaptchaMode = '' WV '', cpObfsMode = [], cpFingerprint = [], cpOperationID = []\<rparr>"

lemma demo_connect_any:
  "\<exists>b'. bridge_Connect demo_bridge demo_params (NewBridge w) = (None, b')"
proof -
  have c: "New (core_config False demo_params) = small_core"
    by (simp add: core_config_def demo_params_def small_core_def New_def with_defaults_def)
  have l: "\<exists>c'. listen_socket demo_start a c = (Inr ''127.0.0.1:40000'', c')" for a c
    by (simp add: listen_socket_def numeral_eq_Suc demo_start_def Let_def)
  have a: "SplitHostPort ''10.0.0.1:5000'' = Inr (''10.0.0.1'', ''5000'')" "atoi ''5000'' = Some 5000"
    "trim_space ''10.0.0.1:5000'' = ''10.0.0.1:5000''"
    by code_simp+
  have r: "resolvePeerUDPAddr (seResolver demo_start) ''10.0.0.1:5000'' = Inr (''10.0.0.1'', 5000)"
    by (simp add: resolvePeerUDPAddr_def a demo_start_def)
  have k: "deriveWrapKey (seHkdf demo_start) ''pw'' = Inr (replicate wrapKeyLen 7)"
    by (simp add: deriveWrapKey_def demo_start_def)
  have g: "cCfg small_core = \<lparr>PeerAddr = ''10.0.0.1:5000'', Password = ''pw'', Hashes = [''h''],
     DeviceID = ''unknown'', Workers = 40, Listen = ''127.0.0.1:9000'', TurnHost = [], TurnPort = [],
     CaptchaMode = '' WV '', ObfsMode = ''audio'', Fingerprint = [], OperationID = [],
     DebugLogging = False\<rparr>" "cStarted small_core = False"
    by (simp_all add: small_core_def New_def with_defaults_def Let_def)
  have "\<exists>st c'. start demo_start (small_core\<lparr>cStarted := True\<rparr>) = (Inr st, c')"
    unfolding start_def Let_def by (simp add: g r k) (rule case_listen [OF l])
  then obtain st c' where "Start demo_start small_core = (Inr (Some st), c')"
    using g(2) by (auto simp: Start_def)
  then show ?thesis
    by (simp add: bridge_Connect_def NewBridge_def Let_def c demo_bridge_def)
       (simp add: demo_params_def)
qed

lemmas demo_connect = demo_connect_any [of fresh_wg]

definition short_conf :: string where
  "short_conf = ''Address=a''"

lemma demo_applied: "fst (applyLinux demo_wg short_conf ips w) = None"
proof -
  have "split_on nl ''Address=a'' = [''Address=a'']" by code_simp
  then have "scan_lines ''Address=a'' = [''Address=a'']" by (simp add: scan_lines_def scan_limit_def drop_cr_def)
  moreover have "parse_line ''Address=a'' p = p\<lparr>wpAddr := ''a''\<rparr>" for p
  proof -
    have "key_value ''Address=a'' = Some (''address'', ''a'')" by code_simp
    then show ?thesis by (simp add: parse_line_def)
  qed
  ultimately have a: "wpAddr (parseWGConfig short_conf) \<noteq> []" by (simp add: parseWGConfig_def short_conf_def)
  have "runCmdLinux demo_wg c u = (None, did (Ran (''sudo'' # ''-n'' # c) True) u)" for c u
    by (simp add: runCmdLinux_def demo_wg_def)
  then have "fst (setup_link demo_wg n p u) = None" for n p u
    by (simp add: setup_link_def)
  then have s: "\<exists>v. setup_link demo_wg n p u = (None, v)" for n p u
    by (metis prod.collapse)
  show ?thesis
    using a s [of "''/tmp/wg.conf''" "parseWGConfig short_conf"
        "did (WroteFile ''/tmp/wg.conf'' (wpConf (parseWGConfig short_conf))) (teardownLinux demo_wg w)"]
    by (auto simp: applyLinux_def Let_def demo_wg_def split: prod.split)
qed

text \<open>A configuration, then statistics that announce the connection, then the same again.\<close>

definition demo_stats :: event where
  "demo_stats = (blank EventStats)\<lparr>evActive := 1, evUp := 5, evDown := 7\<rparr>"

theorem connection_is_announced_once_witness:
  "\<exists>b'. bridge_Connect demo_bridge demo_params (NewBridge fresh_wg) = (None, b') \<and>
     announced (fold bridge_step [Forward demo_bridge (named_event ''wg_config'' short_conf), Forward demo_bridge demo_stats,
       Forward demo_bridge demo_stats] b') = 1"
proof -
  obtain b' where b': "bridge_Connect demo_bridge demo_params (NewBridge fresh_wg) = (None, b')"
    using demo_connect by blast
  let ?w = "Forward demo_bridge (named_event ''wg_config'' short_conf)"
  let ?s = "Forward demo_bridge demo_stats"
  have "applying demo_bridge (named_event ''wg_config'' short_conf) b'"
    by (simp add: applying_def named_event_def blank_def demo_bridge_def demo_applied)
  then have "happened applying [?w] b'"
    unfolding happened_def by (metis append_Nil fold_simps(1))
  then have "\<exists>pre env ev post. [?w, ?s, ?s] = pre @ Forward env ev # post \<and>
       evType ev = EventStats \<and> 0 < evActive ev \<and> 0 < evUp ev \<and> 0 < evDown ev \<and> happened applying pre b'"
    by (intro exI [of _ "[?w]"] exI [of _ demo_bridge] exI [of _ demo_stats] exI [of _ "[?s]"])
      (simp add: demo_stats_def blank_def)
  moreover have "announced (NewBridge fresh_wg) = 0"
    by (simp add: announced_def NewBridge_def)
  ultimately show ?thesis
    using b' connection_is_announced_once [OF b', of "[?w, ?s, ?s]"]
    by (intro exI [of _ b']) (simp only: of_bool_eq add_0_left simp_thms)
qed

text \<open>Property C22 (safety). However a connection went - configurations applied or refused, several of them,
  disconnects of the user in between - once its events are forwarded to the end a Linux machine has no
  route of it and no interface left, except those whose last deletion was ordered and has failed; the
  bridge is free for the next connection, holds no core and has closed the journal. The TURN addresses
  must not look like a recorded tunnel route.\<close>

theorem disconnected_means_undone:
  assumes "linux_accounted (brWg b)"
    and "drives_ops applyLinux teardownLinux plain_ips ops"
    and "drives applyLinux teardownLinux env'"
  shows "let b' = forward_end env' (session_of env params ops b)
    in (\<forall>e. standing linux_route e (brWg b') \<in> {Absent, Stuck}) \<and> standing linux_link () (brWg b') \<in> {Absent, Stuck} \<and>
       linux_undone (brWg b') \<and> \<not> brRunning b' \<and> brCore b' = None \<and> (\<forall>lf. brLog b' = Some lf \<longrightarrow> lfClosed lf)"
proof -
  have alt: "s \<in> {Absent, Stuck} \<longleftrightarrow> s \<noteq> Present" for s by (cases s) simp_all
  show ?thesis
    using linux.session_undone [OF assms, of env params] forward_end_frame [of env' "session_of env params ops b"]
    unfolding Let_def alt linux_undone_def by blast
qed

theorem disconnected_means_undone_witness:
  "linux_undone (brWg (forward_end demo_bridge (session_of demo_bridge demo_params
     [Forward demo_bridge ((named_event ''wg_config'' demo_conf)\<lparr>evTurnIPs := [''1.2.3.4'']\<rparr>),
      UserDisconnect demo_bridge] (NewBridge fresh_wg))))"
proof -
  let ?ops = "[Forward demo_bridge ((named_event ''wg_config'' demo_conf)\<lparr>evTurnIPs := [''1.2.3.4'']\<rparr>),
      UserDisconnect demo_bridge]"
  have "linux_accounted (brWg (NewBridge fresh_wg))"
    by (simp add: NewBridge_def fresh_linux)
  moreover have d: "drives applyLinux teardownLinux demo_bridge"
    by (auto simp: drives_def demo_bridge_def)
  moreover have "drives_ops applyLinux teardownLinux plain_ips ?ops"
    using d by (auto simp: drives_ops_def ips_of_def env_of_def plain_ips_def has_prefix_def)
  ultimately show ?thesis
    using disconnected_means_undone [of "NewBridge fresh_wg" ?ops demo_bridge] by (simp add: Let_def)
qed

end
