(* ===== verification/AppMain.thy ===== *)
theory AppMain
  imports Bridge HashPrepare HashOps Update CaptchaFlow
begin

text \<open>
  The application object (\<open>backend/app.go\<close>) and the autostart entries it writes (\<open>backend/autostart.go\<close>,
  \<open>backend/autostart_windows.go\<close>). \<open>Connect\<close> is not atomic: it runs beside \<open>Disconnect\<close>, the loop of the
  bridge and further calls of itself. It is split where another goroutine can come in between: entry,
  preflight with the check of the context, and the hand-over to the bridge. Not modelled are the Wails
  runtime, and the diagnostic events of a call, which only report it.
\<close>

section \<open>Connecting and disconnecting\<close>

text \<open>The parameters of one call, in the two views its callees have of them.\<close>

record connect_call =
  ccParams :: ConnectParams
  ccBridge :: connect_params
  ccOperation :: string

datatype phase = NoCall | Preflight connect_call | Checked connect_call "string list"

text \<open>
  \<open>apPhase\<close> is \<open>connectCancel\<close> with the place of the call that holds it, \<open>apCancelled\<close> tells whether its
  context was cancelled, \<open>apVK\<close> is \<open>vkCancel\<close> with the state of its context.
\<close>

record 'w application =
  apPhase :: phase
  apCancelled :: bool
  apVK :: "bool option"
  apInteractive :: interactive
  apHashes :: App
  apBridge :: "'w bridge"

datatype connect_result =
    AlreadyConnecting | PreflightFailed app_error | Cancelled_before_start | BridgeFailed string | Connected

definition release :: "'w application \<Rightarrow> 'w application" where
  "release a = a\<lparr>apPhase := NoCall, apCancelled := False\<rparr>"

definition Connect_begin :: "connect_call \<Rightarrow> 'w application \<Rightarrow> connect_result option \<times> 'w application" where
  "Connect_begin call a =
     (let a = a\<lparr>apInteractive := cancelInteractive (apInteractive a)\<rparr>
      in if apPhase a \<noteq> NoCall then (Some AlreadyConnecting, a)
         else (None, a\<lparr>apPhase := Preflight call, apCancelled := False\<rparr>))"

definition Connect_preflight ::
  "app_env \<Rightarrow> int \<Rightarrow> prepare_input \<Rightarrow> 'w application \<Rightarrow> connect_result option \<times> 'w application" where
  "Connect_preflight E now inp a =
     (case apPhase a of
        Preflight call \<Rightarrow>
          (case prepareVKHashes E now inp (ccParams call) (apHashes a) of
             (Inl e, h, _) \<Rightarrow> (Some (PreflightFailed e), release (a\<lparr>apHashes := h\<rparr>))
           | (Inr hashes, h, _) \<Rightarrow>
               if apCancelled a then (Some Cancelled_before_start, release (a\<lparr>apHashes := h\<rparr>))
               else (None, a\<lparr>apHashes := h, apPhase := Checked call hashes\<rparr>))
      | _ \<Rightarrow> (None, a))"

definition handed_params :: "connect_call \<Rightarrow> string list \<Rightarrow> connect_params" where
  "handed_params call hashes = (ccBridge call)\<lparr>cpHashes := hashes, cpOperationID := ccOperation call\<rparr>"

definition Connect_bridge :: "'w bridge_env \<Rightarrow> 'w application \<Rightarrow> connect_result option \<times> 'w application" where
  "Connect_bridge env a =
     (case apPhase a of
        Checked call hashes \<Rightarrow>
          (case bridge_Connect env (handed_params call hashes) (apBridge a) of
             (None, b) \<Rightarrow> (Some Connected, release (a\<lparr>apBridge := b\<rparr>))
           | (Some e, b) \<Rightarrow> (Some (BridgeFailed e), release (a\<lparr>apBridge := b\<rparr>)))
      | _ \<Rightarrow> (None, a))"

definition app_Disconnect :: "'w bridge_env \<Rightarrow> 'w application \<Rightarrow> 'w application" where
  "app_Disconnect env a =
     (let a = (if apPhase a \<noteq> NoCall then a\<lparr>apCancelled := True\<rparr> else a)
      in a\<lparr>apBridge := bridge_Disconnect env (apBridge a)\<rparr>)"

definition IsRunning :: "'w application \<Rightarrow> bool" where
  "IsRunning a = brRunning (apBridge a)"

text \<open>
  What can happen, one at a time. The steps of the loop of the bridge need a core whose events it reads;
  the second component is what a call of \<open>Connect\<close> that ends with the step returns, or the end of a loop.
\<close>

datatype 'w app_op =
    Begin connect_call | Check app_env int prepare_input | Hand "'w bridge_env" | AppDisconnect "'w bridge_env"
  | Loop "'w bridge_op" | LoopEnd "'w bridge_env"

datatype outcome = Quiet | Returned connect_result | LoopEnded

fun returned :: "connect_result option \<times> 'w application \<Rightarrow> outcome \<times> 'w application" where
  "returned (None, a) = (Quiet, a)"
| "returned (Some r, a) = (Returned r, a)"

fun app_step :: "'w app_op \<Rightarrow> 'w application \<Rightarrow> outcome \<times> 'w application" where
  "app_step (Begin call) a = returned (Connect_begin call a)"
| "app_step (Check E now inp) a = returned (Connect_preflight E now inp a)"
| "app_step (Hand env) a = returned (Connect_bridge env a)"
| "app_step (AppDisconnect env) a = (Quiet, app_Disconnect env a)"
| "app_step (Loop op) a =
     (Quiet, if brCore (apBridge a) = None then a else a\<lparr>apBridge := bridge_step op (apBridge a)\<rparr>)"
| "app_step (LoopEnd env) a =
     (if brCore (apBridge a) = None then (Quiet, a)
      else (LoopEnded, a\<lparr>apBridge := forward_end env (apBridge a)\<rparr>))"

fun app_run :: "'w app_op list \<Rightarrow> 'w application \<Rightarrow> outcome list \<times> 'w application" where
  "app_run [] a = ([], a)"
| "app_run (op # ops) a = (let (r, a) = app_step op a; (rs, a) = app_run ops a in (r # rs, a))"

definition NewApp :: "App \<Rightarrow> 'w \<Rightarrow> 'w application" where
  "NewApp h w = \<lparr>apPhase = NoCall, apCancelled = False, apVK = None,
     apInteractive = \<lparr>bulkOperation = None, manualCancels = [], canceled_ops = []\<rparr>, apHashes = h,
     apBridge = NewBridge w\<rparr>"

section \<open>Operations with VK\<close>

definition beginVKOperation :: "'w application \<Rightarrow> 'w application option" where
  "beginVKOperation a = (if apVK a \<noteq> None then None else Some (a\<lparr>apVK := Some False\<rparr>))"

definition endVKOperation :: "'w application \<Rightarrow> 'w application" where
  "endVKOperation a = a\<lparr>apVK := None\<rparr>"

definition CancelVKOperation :: "'w application \<Rightarrow> 'w application" where
  "CancelVKOperation a = a\<lparr>apVK := map_option (\<lambda>_. True) (apVK a)\<rparr>"

text \<open>
  \<open>OpenCaptcha\<close> over the coordinator of the core that is connected, if one is. The browser works on the
  address of the challenge and gives a token or an error; while it does the coordinator goes on
  (\<open>meanwhile\<close>), and \<open>ended\<close> tells whether the context of the challenge is over when the browser fails.
\<close>

datatype open_result = NotStarted | Outdated | WaitEnded | BrowserFailed string | AnsweredLate | Opened

definition OpenCaptcha ::
  "(string \<Rightarrow> string + string) \<Rightarrow> (coordinator \<Rightarrow> coordinator) \<Rightarrow> bool \<Rightarrow> string \<Rightarrow> coordinator option \<Rightarrow>
   open_result \<times> coordinator option" where
  "OpenCaptcha browser meanwhile ended i c =
     (case c of
        None \<Rightarrow> (Outdated, None)
      | Some c \<Rightarrow>
          (case CaptchaFlow.active c i of
             (c, None) \<Rightarrow> (Outdated, Some c)
           | (c, Some url) \<Rightarrow>
               (case browser url of
                  Inl err \<Rightarrow>
                    (if ended then WaitEnded else BrowserFailed err, Some (launchFailed (meanwhile c) i))
                | Inr token \<Rightarrow>
                    (let (c, ok) = submit (meanwhile c) i token
                     in (if ok then Opened else AnsweredLate, Some c)))))"

section \<open>Settings\<close>

definition GetAutoStart :: "os_env \<Rightarrow> Store \<Rightarrow> bool \<times> Store" where
  "GetAutoStart E s = map_prod AutoStart id (LoadSettings E s)"

definition GetObfsMode :: "os_env \<Rightarrow> Store \<Rightarrow> string \<times> Store" where
  "GetObfsMode E s = map_prod ObfsMode id (LoadSettings E s)"

definition GetObfsAccepted :: "os_env \<Rightarrow> Store \<Rightarrow> bool \<times> Store" where
  "GetObfsAccepted E s = map_prod ObfsAccepted id (LoadSettings E s)"

definition GetDebugLogging :: "os_env \<Rightarrow> Store \<Rightarrow> bool \<times> Store" where
  "GetDebugLogging E s = map_prod Store.DebugLogging id (LoadSettings E s)"

definition change_settings ::
  "os_env \<Rightarrow> (AppSettings \<Rightarrow> AppSettings) \<Rightarrow> Store \<Rightarrow> (store_error + unit) \<times> Store" where
  "change_settings E f s = (let (settings, s) = LoadSettings E s in SaveSettings E (f settings) s)"

definition SetObfsMode :: "os_env \<Rightarrow> string \<Rightarrow> Store \<Rightarrow> (store_error + unit) \<times> Store" where
  "SetObfsMode E mode = change_settings E (\<lambda>st. st\<lparr>ObfsMode := mode\<rparr>)"

definition SetObfsAccepted :: "os_env \<Rightarrow> bool \<Rightarrow> Store \<Rightarrow> (store_error + unit) \<times> Store" where
  "SetObfsAccepted E v = change_settings E (\<lambda>st. st\<lparr>ObfsAccepted := v\<rparr>)"

text \<open>\<open>SetDebugLogging\<close> of the application: the setting first, the running core only if it could be saved.\<close>

definition app_SetDebugLogging ::
  "os_env \<Rightarrow> bool \<Rightarrow> Store \<times> 'w bridge \<Rightarrow> (store_error + unit) \<times> Store \<times> 'w bridge" where
  "app_SetDebugLogging E v sb =
     (case change_settings E (\<lambda>st. st\<lparr>Store.DebugLogging := v\<rparr>) (fst sb) of
        (Inl e, s) \<Rightarrow> (Inl e, s, snd sb)
      | (Inr u, s) \<Rightarrow> (Inr u, s, onEvent (UiEvent ''diagnostic-mode-changed'') (bridge_SetDebugLogging v (snd sb))))"

section \<open>Autostart\<close>

datatype entry = File string string | RunKey string

text \<open>
  The platform: its system, home directory and the path of the program (\<open>None\<close> if the system does not
  tell), and which of the steps fail. The result is the error, if any, and the entry that starts the
  program afterwards.
\<close>

record auto_env =
  auGoos :: string
  auHome :: string
  auExe :: "string option"
  auMkdirFails :: bool
  auWriteFails :: bool
  auKeyFails :: bool
  auDeleteFails :: bool

definition launchAgentLabel :: string where "launchAgentLabel = ''com.pwdtt.autostart''"

definition desktop_entry :: "string \<Rightarrow> string" where
  "desktop_entry exe = ''[Desktop Entry]'' @ [CHR 10] @ ''Type=Application'' @ [CHR 10] @ ''Name=PWDTT'' @ [CHR 10] @
     ''Exec='' @ exe @ [CHR 10] @ ''X-GNOME-Autostart-enabled=true'' @ [CHR 10]"

definition app_bundle :: "string \<Rightarrow> string" where
  "app_bundle exe = (case str_index ''.app/Contents/MacOS/'' exe of
     None \<Rightarrow> exe | Some i \<Rightarrow> take (i + 4) exe)"

definition launch_agent :: "string \<Rightarrow> string" where
  "launch_agent app =
     (let nl = [CHR 10]; tab = [CHR 9]; q = [CHR 34] in
      ''<?xml version='' @ q @ ''1.0'' @ q @ '' encoding='' @ q @ ''UTF-8'' @ q @ ''?>'' @ nl @
      ''<!DOCTYPE plist PUBLIC '' @ q @ ''-//Apple//DTD PLIST 1.0//EN'' @ q @ '' '' @ q @
        ''http://www.apple.com/DTDs/PropertyList-1.0.dtd'' @ q @ ''>'' @ nl @
      ''<plist version='' @ q @ ''1.0'' @ q @ ''>'' @ nl @ ''<dict>'' @ nl @
      tab @ ''<key>Label</key>'' @ nl @ tab @ ''<string>'' @ launchAgentLabel @ ''</string>'' @ nl @
      tab @ ''<key>ProgramArguments</key>'' @ nl @ tab @ ''<array>'' @ nl @
      tab @ tab @ ''<string>/usr/bin/open</string>'' @ nl @ tab @ tab @ ''<string>'' @ app @ ''</string>'' @ nl @
      tab @ ''</array>'' @ nl @ tab @ ''<key>RunAtLoad</key>'' @ nl @ tab @ ''<true/>'' @ nl @
      ''</dict>'' @ nl @ ''</plist>'' @ nl)"

definition setAutoStartLinux :: "auto_env \<Rightarrow> bool \<Rightarrow> entry option \<Rightarrow> string option \<times> entry option" where
  "setAutoStartLinux E v old =
     (case auExe E of
        None \<Rightarrow> (Some ''executable'', old)
      | Some exe \<Rightarrow>
          if \<not> v then (None, if auDeleteFails E then old else None)
          else if auWriteFails E then (Some ''write'', old)
          else (None, Some (File (auHome E @ ''/.config/autostart/pwdtt.desktop'') (desktop_entry exe))))"

definition setAutoStartDarwin :: "auto_env \<Rightarrow> bool \<Rightarrow> entry option \<Rightarrow> string option \<times> entry option" where
  "setAutoStartDarwin E v old =
     (if \<not> v then (None, if auDeleteFails E then old else None)
      else (case auExe E of
          None \<Rightarrow> (Some ''executable'', old)
        | Some exe \<Rightarrow>
            if auMkdirFails E then (Some ''mkdir'', old)
            else if auWriteFails E then (Some ''write'', old)
            else (None, Some (File (auHome E @ ''/Library/LaunchAgents/'' @ launchAgentLabel @ ''.plist'')
                   (launch_agent (app_bundle exe))))))"

definition setAutoStartWindows :: "auto_env \<Rightarrow> bool \<Rightarrow> entry option \<Rightarrow> string option \<times> entry option" where
  "setAutoStartWindows E v old =
     (if \<not> v then
        (if auKeyFails E then (Some ''open Windows Run key'', old)
         else if auDeleteFails E \<and> old \<noteq> None then (Some ''delete Windows autostart value'', old)
         else (None, None))
      else (case auExe E of
          None \<Rightarrow> (Some ''executable'', old)
        | Some exe \<Rightarrow>
            if auKeyFails E then (Some ''open Windows Run key'', old)
            else if auWriteFails E then (Some ''set Windows autostart value'', old)
            else (None, Some (RunKey ([CHR 34] @ exe @ [CHR 34])))))"

definition setAutoStart :: "auto_env \<Rightarrow> bool \<Rightarrow> entry option \<Rightarrow> string option \<times> entry option" where
  "setAutoStart E v old =
     (if auGoos E = ''linux'' then setAutoStartLinux E v old
      else if auGoos E = ''windows'' then setAutoStartWindows E v old
      else if auGoos E = ''darwin'' then setAutoStartDarwin E v old
      else (Some (''unsupported: '' @ auGoos E), old))"

definition SetAutoStart ::
  "os_env \<Rightarrow> auto_env \<Rightarrow> bool \<Rightarrow> Store \<times> entry option \<Rightarrow> (store_error + string option) \<times> Store \<times> entry option" where
  "SetAutoStart E A v se =
     (case change_settings E (\<lambda>st. st\<lparr>AutoStart := v\<rparr>) (fst se) of
        (Inl e, s) \<Rightarrow> (Inl e, s, snd se)
      | (Inr _, s) \<Rightarrow> (let (err, e) = setAutoStart A v (snd se) in (Inr err, s, e)))"

text \<open>The start of the application, without the cleaning of routes, which \<open>WgDarwin\<close> has.\<close>

definition Startup :: "os_env \<Rightarrow> auto_env \<Rightarrow> Store \<times> entry option \<Rightarrow> Store \<times> entry option" where
  "Startup E A se =
     (let (settings, s) = LoadSettings E (fst se); (_, s) = ListProfiles E s
      in if AutoStart settings then snd (SetAutoStart E A True (s, snd se)) else (s, snd se))"

section \<open>Latency\<close>

definition latencyHost :: "string \<Rightarrow> string" where
  "latencyHost peerAddr =
     (let v = trim_space peerAddr
      in if v = [] then []
         else (case SplitHostPort v of
             Inr (host, _) \<Rightarrow> trim_set ''[]'' host
           | Inl _ \<Rightarrow> if has_prefix ''['' v \<and> has_suffix '']'' v then trim_set ''[]'' v else v))"

definition latencyPingArgs :: "string \<Rightarrow> string \<Rightarrow> string list" where
  "latencyPingArgs goos host =
     (if goos = ''windows'' then [''-n'', ''1'', ''-w'', ''1200'', host]
      else if goos = ''darwin'' then [''-c'', ''1'', ''-W'', ''1200'', host]
      else [''-c'', ''1'', ''-W'', ''1'', host])"

text \<open>The run of \<open>ping\<close> with the arguments gives the time it took, or none if it failed or ran into the limit.\<close>

definition MeasureLatency :: "string \<Rightarrow> (string list \<Rightarrow> int option) \<Rightarrow> string \<Rightarrow> int" where
  "MeasureLatency goos ping peerAddr =
     (let host = latencyHost peerAddr
      in if host = [] then -1
         else (case ping (latencyPingArgs goos host) of
             None \<Rightarrow> -1 | Some ms \<Rightarrow> if ms < 1 then 1 else ms))"

text \<open>A build without a version is never told of an update.\<close>

definition app_CheckUpdate ::
  "string \<Rightarrow> update_error + UpdateInfo \<Rightarrow> update_error + UpdateInfo \<Rightarrow> update_error + UpdateInfo" where
  "app_CheckUpdate version viaAPI viaWeb =
     (if \<not> isComparableVersion version then Inr (no_update []) else CheckUpdate version viaAPI viaWeb)"

section \<open>One core at a time\<close>

text \<open>A running bridge is one that holds a core.\<close>

definition bridge_ok :: "'w bridge \<Rightarrow> bool" where
  "bridge_ok b \<longleftrightarrow> (brRunning b \<longleftrightarrow> brCore b \<noteq> None)"

lemma resetRunning_core [simp]: "brCore (resetRunning env b) = brCore b"
  by (simp add: resetRunning_def)

lemma connect_ok:
  assumes "bridge_ok b" "bridge_Connect env params b = (r, b')"
  shows "bridge_ok b' \<and> (r = None \<longrightarrow> brCore b = None \<and> brCore b' \<noteq> None) \<and> (r \<noteq> None \<longrightarrow> brCore b' = brCore b)"
  using assms by (auto simp: bridge_Connect_def bridge_ok_def Let_def split: if_splits prod.splits sum.splits)

lemma forward_core:
  "brRunning (forward_event env ev b) = brRunning b" "(brCore (forward_event env ev b) = None) = (brCore b = None)"
  by (simp_all add: forward_event_def apply_config_def publish_stats_def Let_def split: event_type.split prod.split option.split)

lemma disconnect_core:
  "brRunning (bridge_Disconnect env b) = brRunning b" "(brCore (bridge_Disconnect env b) = None) = (brCore b = None)"
  by (simp_all add: bridge_Disconnect_def Let_def split: option.split)

lemma step_core: "brRunning (bridge_step op b) = brRunning b" "(brCore (bridge_step op b) = None) = (brCore b = None)"
  by (cases op; simp add: forward_core disconnect_core bridge_SetDebugLogging_def)+

lemma release_fields [simp]: "apBridge (release a) = apBridge a" "apPhase (release a) = NoCall"
  by (simp_all add: release_def)

definition connections :: "outcome list \<Rightarrow> nat" where
  "connections rs = length (filter (\<lambda>r. r = Returned Connected) rs)"

definition loops_ended :: "outcome list \<Rightarrow> nat" where
  "loops_ended rs = length (filter (\<lambda>r. r = LoopEnded) rs)"

definition has_core :: "'w application \<Rightarrow> nat" where
  "has_core a = of_bool (brCore (apBridge a) \<noteq> None)"

lemma app_step_counts:
  assumes "bridge_ok (apBridge a)" "app_step op a = (r, a')"
  shows "bridge_ok (apBridge a') \<and> connections [r] + has_core a = loops_ended [r] + has_core a'"
proof (cases op)
  case (Begin call)
  then show ?thesis
    using assms by (auto simp: Connect_begin_def Let_def connections_def loops_ended_def has_core_def split: if_splits)
next
  case (Check E now inp)
  then show ?thesis
    using assms by (auto simp: Connect_preflight_def connections_def loops_ended_def has_core_def
        split: phase.splits prod.splits sum.splits if_splits)
next
  case (Hand env)
  then show ?thesis
    using assms by (auto simp: Connect_bridge_def connections_def loops_ended_def has_core_def
        split: phase.splits prod.splits option.splits dest: connect_ok)
next
  case (AppDisconnect env)
  then show ?thesis
    using assms by (auto simp: app_Disconnect_def Let_def connections_def loops_ended_def has_core_def bridge_ok_def disconnect_core
        split: if_splits)
next
  case (Loop op)
  then show ?thesis
    using assms by (auto simp: connections_def loops_ended_def has_core_def bridge_ok_def step_core)
next
  case (LoopEnd env)
  then show ?thesis
    using assms by (auto simp: connections_def loops_ended_def has_core_def bridge_ok_def forward_end_frame split: if_splits)
qed

lemma counts_Cons: "connections (r # rs) = connections [r] + connections rs" "loops_ended (r # rs) = loops_ended [r] + loops_ended rs"
  by (simp_all add: connections_def loops_ended_def)

lemma app_run_counts:
  assumes "bridge_ok (apBridge a)" "app_run ops a = (rs, a')"
  shows "bridge_ok (apBridge a') \<and> connections rs + has_core a = loops_ended rs + has_core a'"
  using assms
proof (induction ops arbitrary: a rs a')
  case Nil
  then show ?case by (auto simp: connections_def loops_ended_def)
next
  case (Cons op ops)
  obtain r a1 where s: "app_step op a = (r, a1)" by fastforce
  obtain rs1 where t: "app_run ops a1 = (rs1, a')" "rs = r # rs1"
    using Cons.prems(2) s by (auto simp: Let_def split: prod.splits)
  show ?case
    using app_step_counts [OF Cons.prems(1) s] Cons.IH [OF _ t(1)] t(2) counts_Cons [of r rs1] by auto
qed

section \<open>Cancelling\<close>

lemma emit_stop [simp]: "cStopped (emit ev c) = cStopped c"
  by (auto simp: emit_def Let_def split: option.splits)

lemma log_write_stop [simp]: "cStopped (log_write p c) = cStopped c"
  by (simp add: log_write_def Let_def)

lemma listen_loop_stop: "listen_loop env a i n c = (r, c') \<Longrightarrow> cStopped c' = cStopped c"
proof (induction env a i n c arbitrary: r c' rule: listen_loop.induct)
  case (2 env a i n c)
  show ?case
    using 2(2) by (auto simp: Let_def split: sum.splits if_splits dest: 2(1) [OF _ refl])
qed simp

lemma listen_socket_stop:
  assumes "listen_socket env a c = (r, c')"
  shows "cStopped c' = cStopped c"
proof -
  obtain x c1 where l: "listen_loop env a 0 5 c = (x, c1)" by fastforce
  then have "c' = c1"
    using assms by (cases x) (auto simp: listen_socket_def split: sum.splits)
  then show ?thesis using listen_loop_stop [OF l] by simp
qed

lemma start_stop: "start env c = (r, c') \<Longrightarrow> cStopped c' = cStopped c"
  by (auto simp: start_def Let_def emitConnectionProgress_def emitDiagnostic_def
      split: if_splits sum.splits prod.splits dest!: listen_socket_stop)

lemma new_core_runs:
  assumes "bridge_Connect env params b = (None, b')"
  shows "\<exists>c. brCore b' = Some c \<and> \<not> cStopped c \<and> brRunning b'"
proof -
  obtain st c where c: "CoreMain.Start (beStart env) (New (core_config (beDebug env) params)) = (Inr st, c)" "brCore b' = Some c"
    "brRunning b'"
    using assms by (auto simp: bridge_Connect_def Let_def split: if_splits prod.splits sum.splits)
  have "\<not> cStopped (New (core_config (beDebug env) params))"
    by (simp add: New_def Let_def)
  then show ?thesis
    using c start_stop by (auto simp: Start_def split: if_splits prod.splits sum.splits)
qed

text \<open>Connecting does not look at the tunnel.\<close>

lemma connect_without_tunnel:
  "bridge_Connect env params b = (None, b') \<Longrightarrow> \<exists>b''. bridge_Connect env params (b\<lparr>brWg := w\<rparr>) = (None, b'')"
  by (auto simp: bridge_Connect_def Let_def split: if_splits prod.splits sum.splits)

text \<open>While a call is in its preflight only the end of the preflight moves it.\<close>

fun is_check :: "'w app_op \<Rightarrow> bool" where
  "is_check (Check E now inp) = True" | "is_check op = False"

fun is_disconnect :: "'w app_op \<Rightarrow> bool" where
  "is_disconnect (AppDisconnect env) = True" | "is_disconnect op = False"

lemma preflight_step:
  assumes "apPhase a = Preflight call" "\<not> is_check op"
  shows "apPhase (snd (app_step op a)) = Preflight call \<and>
    (apCancelled (snd (app_step op a)) \<longleftrightarrow> apCancelled a \<or> is_disconnect op)"
  using assms by (cases op) (auto simp: Connect_begin_def Connect_bridge_def app_Disconnect_def Let_def)

lemma preflight_run:
  "apPhase a = Preflight call \<Longrightarrow> list_all (\<lambda>op. \<not> is_check op) ops \<Longrightarrow>
   apPhase (snd (app_run ops a)) = Preflight call \<and>
   (apCancelled (snd (app_run ops a)) \<longleftrightarrow> apCancelled a \<or> list_ex is_disconnect ops)"
proof (induction ops arbitrary: a)
  case (Cons op ops)
  then show ?case
    using preflight_step [of a call op] Cons.IH [of "snd (app_step op a)"] by (auto simp: Let_def case_prod_unfold)
qed simp

section \<open>Settings are remembered\<close>

lemma settings_field_simps [simp]:
  "settings_field s (''autoStart'', j) = map_option (\<lambda>v. s\<lparr>AutoStart := v\<rparr>) (into_bool j (AutoStart s))"
  "settings_field s (''obfsMode'', j) = map_option (\<lambda>v. s\<lparr>ObfsMode := v\<rparr>) (into_string j (ObfsMode s))"
  "settings_field s (''obfsAccepted'', j) = map_option (\<lambda>v. s\<lparr>ObfsAccepted := v\<rparr>) (into_bool j (ObfsAccepted s))"
  "settings_field s (''debugLogging'', j) = map_option (\<lambda>v. s\<lparr>Store.DebugLogging := v\<rparr>) (into_bool j (Store.DebugLogging s))"
  by (simp_all add: equal_fold_def ascii_lower_def)

declare settings_field.simps [simp del]

lemma unmarshal_marshal_settings:
  assumes "valid_utf8 (ObfsMode st)"
  obtains m where "marshal_settings st = JObj m" "unmarshal_settings m = Some st"
  using assms that by (cases "Store.DebugLogging st") (auto simp: marshal_settings_def unmarshal_settings_def)

lemma saved_settings_are_loaded:
  assumes "SaveSettings E st s = (Inr (), s')" "valid_utf8 (ObfsMode st)"
  shows "LoadSettings E s' = (if ObfsAccepted st then st else st\<lparr>ObfsMode := ''audio''\<rparr>, s')"
proof -
  obtain m where m: "marshal_settings st = JObj m" "unmarshal_settings m = Some st"
    using unmarshal_marshal_settings [OF assms(2)] .
  obtain s1 where "atomicWrite E settings_path (marshal_settings st) s1 = (Inr (), s')"
    using assms(1) by (auto simp: SaveSettings_def Let_def split: prod.splits sum.splits if_splits)
  then have "map_of (disk s') settings_path = Some (Doc (JObj m))"
    by (auto simp: atomicWrite_def update_conv' m split: if_splits)
  then have "readJSON E settings_path SettingsKind validateSettingsJSON s' = (Inr m, s')"
    by (simp add: readJSON_def validateSettingsJSON_def m)
  then show ?thesis
    by (simp add: LoadSettings_def m)
qed

lemma settings_field_valid:
  "settings_field st kj = Some st' \<Longrightarrow> valid_utf8 (ObfsMode st) \<Longrightarrow> valid_utf8 (ObfsMode st')"
  by (cases kj) (auto simp: settings_field.simps split: if_splits dest: into_string_valid)

lemma loaded_mode_valid: "valid_utf8 (ObfsMode (fst (LoadSettings E s)))"
proof -
  have f: "into_fields settings_field m st = Some st' \<Longrightarrow> valid_utf8 (ObfsMode st) \<Longrightarrow> valid_utf8 (ObfsMode st')" for m st st'
    by (induction m arbitrary: st) (auto split: option.splits dest: settings_field_valid)
  have a: "valid_utf8 ''audio''" "valid_utf8 []"
    by (rule valid_ascii, simp)+
  have "unmarshal_settings m = Some st \<Longrightarrow> valid_utf8 (ObfsMode st)" for m st
    using f a(2) by (fastforce simp: unmarshal_settings_def)
  then show ?thesis
    using a(1) by (auto simp: LoadSettings_def default_settings_def split: prod.split sum.split option.split)
qed

lemma loaded_mode_audio: "\<not> ObfsAccepted (fst (LoadSettings E s)) \<Longrightarrow> ObfsMode (fst (LoadSettings E s)) = ''audio''"
  by (auto simp: LoadSettings_def default_settings_def split: prod.splits sum.splits option.splits if_splits)

lemma changed_settings:
  assumes "change_settings E f s = (Inr (), s')" "valid_utf8 (ObfsMode (f (fst (LoadSettings E s))))"
  shows "LoadSettings E s' = (let st = f (fst (LoadSettings E s))
    in if ObfsAccepted st then st else st\<lparr>ObfsMode := ''audio''\<rparr>, s')"
  using saved_settings_are_loaded [OF _ assms(2)] assms(1)
  by (cases "LoadSettings E s") (simp add: change_settings_def Let_def)

section \<open>Latency\<close>

lemma trim_set_plain: "set cs \<inter> set s = {} \<Longrightarrow> trim_set cs s = s"
proof -
  assume a: "set cs \<inter> set s = {}"
  have d: "set cs \<inter> set x = {} \<Longrightarrow> dropWhile (\<lambda>c. c \<in> set cs) x = x" for x
    by (cases x) auto
  show ?thesis using d [OF a] d [of "rev s"] a by (simp add: trim_set_def)
qed

lemma latencyHost_joined:
  assumes "plain_host h" "plain_port p" "trim_space (JoinHostPort h p) = JoinHostPort h p"
  shows "latencyHost (JoinHostPort h p) = h"
proof -
  have "JoinHostPort h p \<noteq> []" by (simp add: JoinHostPort_def)
  then show ?thesis
    using assms SplitHostPort_JoinHostPort [OF assms(1,2)]
    by (simp add: latencyHost_def Let_def) (rule trim_set_plain, auto simp: plain_host_def)
qed

section \<open>An example\<close>

definition demo_call :: connect_call where
  "demo_call = \<lparr>ccParams = \<lparr>connect_peer = ''10.0.0.1:5000'', connect_password = ''pw'', connect_hashes = [''h''],
     ProfileName = [], HashMode = [], HashAutoCheck = False, HashAutoReplace = False\<rparr>,
     ccBridge = demo_params, ccOperation = []\<rparr>"

definition demo_checked :: "wg_state application" where
  "demo_checked = (NewApp \<lparr>store = \<lparr>disk = [], recoveryNotices = [], drawn = 0\<rparr>, registry_file = NoRegistry\<rparr> fresh_wg)
     \<lparr>apPhase := Checked demo_call [''h'']\<rparr>"

section \<open>Properties\<close>


text \<open>Property C18 (safety). A disconnect while a call is in its preflight stops that call: whatever else
  happens until the preflight is done, the call then returns an error, the bridge is not touched by it, and
  the next call is free to begin.\<close>

theorem disconnect_stops_the_preflight:
  assumes "apPhase a = Preflight call" and "list_all (\<lambda>op. \<not> is_check op) ops" and "list_ex is_disconnect ops"
    and "app_run ops a = (rs, a1)" and "app_step (Check E now inp) a1 = (r, a2)"
  shows "(r = Returned Cancelled_before_start \<or> (\<exists>e. r = Returned (PreflightFailed e))) \<and>
    apBridge a2 = apBridge a1 \<and> apPhase a2 = NoCall"
proof -
  have "apPhase a1 = Preflight call" "apCancelled a1"
    using preflight_run [OF assms(1,2)] assms(3,4) by simp_all
  then show ?thesis
    using assms(5) by (auto simp: Connect_preflight_def split: prod.splits sum.splits)
qed

definition demo_preflight :: "wg_state application" where
  "demo_preflight = demo_checked\<lparr>apPhase := Preflight demo_call\<rparr>"

theorem disconnect_stops_the_preflight_witness:
  "\<exists>r a2. app_step (Check example_app_env 0 example_input) (snd (app_run [AppDisconnect demo_bridge] demo_preflight)) = (r, a2) \<and>
     apPhase a2 = NoCall"
proof -
  obtain r a2 where s: "app_step (Check example_app_env 0 example_input) (snd (app_run [AppDisconnect demo_bridge] demo_preflight)) = (r, a2)"
    by fastforce
  show ?thesis
    using disconnect_stops_the_preflight [OF _ _ _ prod.collapse [symmetric] s, of demo_call] s
    by (auto simp: demo_preflight_def)
qed

text \<open>Property C20 (error). After the preflight the cancelled context is not looked at any more. Take a call
  that has passed the check and whose bridge comes up: a disconnect after it stops the core, but the same
  disconnect between the check and the moment the bridge stores its core cancels the context and has no
  other effect on the call, which is reported as connected all the same, with a core that runs and was
  never told to stop.\<close>

theorem late_disconnect_is_lost:
  assumes "apPhase a = Checked call hashes" and "brCore (apBridge a) = None"
    and "fst (app_step (Hand env') a) = Returned Connected"
  shows "apCancelled (snd (app_step (AppDisconnect env) a)) \<and>
    (\<exists>a' c. app_run [AppDisconnect env, Hand env'] a = ([Quiet, Returned Connected], a') \<and>
       brCore (apBridge a') = Some c \<and> \<not> cStopped c \<and> brRunning (apBridge a')) \<and>
    (\<exists>a' c. app_run [Hand env', AppDisconnect env] a = ([Returned Connected, Quiet], a') \<and>
       brCore (apBridge a') = Some c \<and> cStopped c)"
proof -
  let ?p = "handed_params call hashes"
  have "fst (bridge_Connect env' ?p (apBridge a)) = None"
    using assms(1,3) by (auto simp: Connect_bridge_def split: prod.splits option.splits)
  then obtain b1 where b1: "bridge_Connect env' ?p (apBridge a) = (None, b1)"
    by (metis prod.collapse)
  obtain b2 where b2: "bridge_Connect env' ?p (bridge_Disconnect env (apBridge a)) = (None, b2)"
    using connect_without_tunnel [OF b1] assms(2) by (auto simp: bridge_Disconnect_def)
  have "app_run [AppDisconnect env, Hand env'] a = ([Quiet, Returned Connected],
      release ((app_Disconnect env a)\<lparr>apBridge := b2\<rparr>))"
    using assms(1) b2 by (simp add: app_Disconnect_def Connect_bridge_def Let_def)
  moreover obtain c where "brCore b1 = Some c" using new_core_runs [OF b1] by blast
  then have "app_run [Hand env', AppDisconnect env] a = ([Returned Connected, Quiet],
      app_Disconnect env (release (a\<lparr>apBridge := b1\<rparr>)))"
    "brCore (apBridge (app_Disconnect env (release (a\<lparr>apBridge := b1\<rparr>)))) = Some (Stop c)"
    using assms(1) b1 by (simp_all add: app_Disconnect_def Connect_bridge_def bridge_Disconnect_def Let_def)
  ultimately show ?thesis
    using new_core_runs [OF b2] assms(1) by (auto simp: app_Disconnect_def Let_def Stop_def)
qed

theorem late_disconnect_is_lost_witness:
  "\<exists>a' c. app_run [AppDisconnect demo_bridge, Hand demo_bridge] demo_checked = ([Quiet, Returned Connected], a') \<and>
     brCore (apBridge a') = Some c \<and> \<not> cStopped c"
proof -
  have p: "handed_params demo_call [''h''] = demo_params"
    by (simp add: handed_params_def demo_call_def demo_params_def)
  obtain b' where c: "bridge_Connect demo_bridge demo_params (NewBridge fresh_wg) = (None, b')"
    using demo_connect_any by blast
  have "fst (app_step (Hand demo_bridge) demo_checked) = Returned Connected"
    by (simp add: demo_checked_def NewApp_def Connect_bridge_def c p)
  then show ?thesis
    using late_disconnect_is_lost [of demo_checked demo_call "[''h'']" demo_bridge demo_bridge]
    by (auto simp: demo_checked_def NewApp_def NewBridge_def)
qed

text \<open>Property C29 (functional). A setting that was saved is what is read back, and the others stay as they
  were; the mode of obfuscation counts only once its terms are accepted, before that it is reported as
  audio, and withdrawing the acceptance goes back to audio.\<close>

theorem settings_are_remembered:
  assumes "SetObfsMode E mode s = (Inr (), s1)" and "valid_utf8 mode" and "SetObfsAccepted E v s = (Inr (), s2)"
  shows "let st = fst (LoadSettings E s)
    in LoadSettings E s1 = (st\<lparr>ObfsMode := if ObfsAccepted st then mode else ''audio''\<rparr>, s1) \<and>
       LoadSettings E s2 = (st\<lparr>ObfsAccepted := v, ObfsMode := if v then ObfsMode st else ''audio''\<rparr>, s2)"
  using changed_settings [of E _ s s1] changed_settings [of E _ s s2] assms loaded_mode_valid [of E s]
    loaded_mode_audio [of E s]
  by (auto simp: SetObfsMode_def SetObfsAccepted_def Let_def)

definition empty_store :: Store where
  "empty_store = \<lparr>disk = [], recoveryNotices = [], drawn = 0\<rparr>"

theorem settings_are_remembered_witness:
  "\<exists>s1 s2. SetObfsMode example_env ''video'' empty_store = (Inr (), s1) \<and>
     SetObfsAccepted example_env True empty_store = (Inr (), s2) \<and>
     fst (GetObfsMode example_env s1) = ''audio'' \<and> fst (GetObfsAccepted example_env s2)"
proof -
  have l: "LoadSettings example_env empty_store = (default_settings, empty_store)"
    by (simp add: LoadSettings_def readJSON_def empty_store_def)
  have d: "map_of (disk empty_store) settings_path = None" by (simp add: empty_store_def)
  have "\<exists>s'. change_settings example_env f empty_store = (Inr (), s')" for f
    by (simp add: change_settings_def l SaveSettings_def readJSON_def d) (simp add: atomicWrite_def example_env_def d)
  then obtain s1 s2 where s: "SetObfsMode example_env ''video'' empty_store = (Inr (), s1)"
    "SetObfsAccepted example_env True empty_store = (Inr (), s2)"
    unfolding SetObfsMode_def SetObfsAccepted_def by blast
  have "valid_utf8 ''video''" by (rule valid_ascii) simp
  then show ?thesis
    using settings_are_remembered [OF s(1) _ s(2)] s l
    by (auto simp: Let_def GetObfsMode_def GetObfsAccepted_def default_settings_def)
qed

end
