(* ===== verification/VkToken.thy ===== *)
theory VkToken
  imports ErrorPolicy Url
begin

text \<open>
  Getting the token of the VK API from a signed-in browser session: reading tokens out of redirect URLs
  (\<open>backend/vk_legacy_oauth.go\<close>), the chain of redirects that is followed without a browser, and the poll
  of the browser window when that fails (\<open>backend/vk_calls_oauth_windows.go\<close>). Of \<open>net/url\<close> and \<open>html\<close>
  the parse of a URL, the resolution of a reference and the unescaping of entities are arguments; queries
  are read as in \<open>Url\<close>, and the regular expressions are written out as matchers.
\<close>

section \<open>URLs\<close>

record link =
  lkQuery :: string
  lkFragment :: string
  lkAbs :: bool
  lkText :: string
  lkHost :: string
  lkPath :: string

text \<open>\<open>webResolve base next\<close> is the text of \<open>ResolveReference\<close>, given that both parse.\<close>

record web =
  webParse :: "string \<Rightarrow> link option"
  webResolve :: "string \<Rightarrow> string \<Rightarrow> string"
  webUnescape :: "string \<Rightarrow> string"

definition legacyVKLoginStartURL :: "nat \<Rightarrow> string" where
  "legacyVKLoginStartURL attempt =
     (if attempt = 0 then ''https://m.vk.ru/login'' else if attempt = 1 then ''https://m.vk.ru/''
      else ''https://vk.ru/login'')"

definition isLegacyVKIDLoginFlow :: "string \<Rightarrow> bool" where
  "isLegacyVKIDLoginFlow raw =
     (let v = to_lower (trim_space raw)
      in (contains ''id.vk.com'' v \<or> contains ''id.vk.ru'' v) \<and>
         (contains ''authorize'' v \<or> contains ''login'' v \<or> contains ''auth'' v))"

definition txt_too_many :: string where
  "txt_too_many = utf8 [209, 129, 208, 187, 208, 184, 209, 136, 208, 186, 208, 190, 208, 188, 32, 208, 188,
     208, 189, 208, 190, 208, 179, 208, 190, 32, 208, 191, 208, 190, 208, 191, 209, 139, 209, 130, 208, 190,
     208, 186]"

definition txt_later :: string where
  "txt_later = utf8 [208, 191, 208, 190, 208, 191, 209, 128, 208, 190, 208, 177, 209, 131, 208, 185, 209,
     130, 208, 181, 32, 208, 191, 208, 190, 208, 183, 208, 182, 208, 181]"

definition msg_refused :: string where
  "msg_refused = utf8 [208, 176, 208, 178, 209, 130, 208, 190, 209, 128, 208, 184, 208, 183, 208, 176, 209,
     134, 208, 184, 209, 143, 32, 86, 75, 32, 208, 190, 209, 130, 208, 186, 208, 187, 208, 190, 208, 189,
     208, 181, 208, 189, 208, 176, 58, 32]"

definition msg_scrape_limit :: string where
  "msg_scrape_limit = utf8 [86, 75, 32, 67, 97, 108, 108, 115, 32, 79, 65, 117, 116, 104, 32, 72, 84, 84,
     80, 32, 115, 99, 114, 97, 112, 101, 114, 32, 208, 191, 209, 128, 208, 181, 208, 178, 209, 139, 209,
     129, 208, 184, 208, 187, 32, 208, 187, 208, 184, 208, 188, 208, 184, 209, 130, 32, 114, 101, 100, 105,
     114, 101, 99, 116]"

definition msg_scrape_stopped :: string where
  "msg_scrape_stopped = utf8 [86, 75, 32, 67, 97, 108, 108, 115, 32, 79, 65, 117, 116, 104, 32, 72, 84, 84,
     80, 32, 115, 99, 114, 97, 112, 101, 114, 32, 208, 190, 209, 129, 209, 130, 208, 176, 208, 189, 208,
     190, 208, 178, 208, 184, 208, 187, 209, 129, 209, 143, 32, 208, 189, 208, 176, 32, 209, 136, 208, 176,
     208, 179, 208, 181, 32]"

definition msg_no_browser_token :: string where
  "msg_no_browser_token = utf8 [86, 75, 32, 67, 97, 108, 108, 115, 32, 79, 65, 117, 116, 104, 32, 208, 189,
     208, 181, 32, 208, 178, 208, 181, 209, 128, 208, 189, 209, 131, 208, 187, 32, 97, 99, 99, 101, 115,
     115, 32, 116, 111, 107, 101, 110, 32, 40]"

definition msg_window_closed :: string where
  "msg_window_closed = utf8 [208, 190, 208, 186, 208, 189, 208, 190, 32, 86, 75, 32, 67, 97, 108, 108, 115,
     32, 79, 65, 117, 116, 104, 32, 208, 183, 208, 176, 208, 186, 209, 128, 209, 139, 209, 130, 208, 190]"

definition msg_rate_limited :: string where
  "msg_rate_limited = utf8 [86, 75, 32, 208, 178, 209, 128, 208, 181, 208, 188, 208, 181, 208, 189, 208,
     189, 208, 190, 32, 208, 190, 208, 179, 209, 128, 208, 176, 208, 189, 208, 184, 209, 135, 208, 184, 208,
     187, 32, 208, 176, 208, 178, 209, 130, 208, 190, 209, 128, 208, 184, 208, 183, 208, 176, 209, 134, 208,
     184, 209, 142, 58, 32, 209, 129, 208, 187, 208, 184, 209, 136, 208, 186, 208, 190, 208, 188, 32, 208,
     188, 208, 189, 208, 190, 208, 179, 208, 190, 32, 208, 191, 208, 190, 208, 191, 209, 139, 209, 130, 208,
     190, 208, 186, 59, 32, 208, 191, 208, 190, 208, 178, 209, 130, 208, 190, 209, 128, 208, 184, 209, 130,
     208, 181, 32, 208, 191, 208, 190, 208, 183, 208, 182, 208, 181]"

definition msg_no_oauth_page :: string where
  "msg_no_oauth_page = utf8 [208, 189, 208, 181, 32, 209, 131, 208, 180, 208, 176, 208, 187, 208, 190, 209,
     129, 209, 140, 32, 208, 190, 209, 130, 208, 186, 209, 128, 209, 139, 209, 130, 209, 140, 32, 86, 75,
     32, 67, 97, 108, 108, 115, 32, 79, 65, 117, 116, 104, 58, 32]"

definition msg_page_not_read :: string where
  "msg_page_not_read = utf8 [209, 129, 209, 130, 209, 128, 208, 176, 208, 189, 208, 184, 209, 134, 208, 176,
     32, 208, 189, 208, 181, 32, 208, 191, 209, 128, 208, 190, 209, 135, 208, 184, 209, 130, 208, 176, 208,
     189, 208, 176]"

definition msg_no_session_check :: string where
  "msg_no_session_check = utf8 [208, 189, 208, 181, 32, 209, 131, 208, 180, 208, 176, 208, 187, 208, 190,
     209, 129, 209, 140, 32, 208, 191, 209, 128, 208, 190, 208, 178, 208, 181, 209, 128, 208, 184, 209, 130,
     209, 140, 32, 86, 75, 45, 209, 129, 208, 181, 209, 129, 209, 129, 208, 184, 209, 142, 58, 32]"

definition msg_no_session :: string where
  "msg_no_session = utf8 [209, 129, 208, 190, 209, 133, 209, 128, 208, 176, 208, 189, 209, 145, 208, 189,
     208, 189, 208, 176, 209, 143, 32, 86, 75, 45, 209, 129, 208, 181, 209, 129, 209, 129, 208, 184, 209,
     143, 32, 208, 190, 209, 130, 209, 129, 209, 131, 209, 130, 209, 129, 209, 130, 208, 178, 209, 131, 208,
     181, 209, 130, 59, 32, 208, 178, 208, 190, 208, 185, 208, 180, 208, 184, 209, 130, 208, 181, 32, 208,
     178, 32, 86, 75, 32, 209, 129, 208, 189, 208, 190, 208, 178, 208, 176]"

definition msg_no_cookies :: string where
  "msg_no_cookies = utf8 [208, 189, 208, 181, 32, 209, 131, 208, 180, 208, 176, 208, 187, 208, 190, 209,
     129, 209, 140, 32, 208, 191, 208, 190, 208, 187, 209, 131, 209, 135, 208, 184, 209, 130, 209, 140, 32,
     99, 111, 111, 107, 105, 101, 115, 32, 86, 75, 32, 67, 97, 108, 108, 115, 32, 79, 65, 117, 116, 104, 58,
     32]"

definition msg_empty_cookies :: string where
  "msg_empty_cookies = utf8 [86, 75, 45, 209, 129, 208, 181, 209, 129, 209, 129, 208, 184, 209, 143, 32,
     208, 189, 208, 181, 32, 209, 129, 208, 190, 208, 180, 208, 181, 209, 128, 208, 182, 208, 184, 209, 130,
     32, 99, 111, 111, 107, 105, 101, 115, 32, 208, 180, 208, 187, 209, 143, 32, 86, 75, 32, 67, 97, 108,
     108, 115, 32, 79, 65, 117, 116, 104]"

definition isVKLoginRateLimitedText :: "string \<Rightarrow> bool" where
  "isVKLoginRateLimitedText raw =
     (let v = to_lower (join '' '' (Prelude.fields raw))
      in v \<noteq> [] \<and> contains_any [txt_too_many, txt_later, ''too many attempts'', ''too many tries'', ''try again later''] v)"

text \<open>An ASCII text has no Cyrillic part.\<close>

lemma ascii_not_limited:
  assumes "list_all (\<lambda>c. \<not> digit7 c) (to_lower (join '' '' (Prelude.fields raw)))"
    and "\<not> contains_any [''too many attempts'', ''too many tries'', ''try again later''] (to_lower (join '' '' (Prelude.fields raw)))"
  shows "\<not> isVKLoginRateLimitedText raw"
proof -
  have "char_of (209 :: nat) \<in> set txt_too_many" "char_of (209 :: nat) \<in> set txt_later"
    by (simp_all add: txt_too_many_def txt_later_def utf8_def del: char_of_eq_iff)
  moreover have "digit7 (char_of (209 :: nat))"
    using bval_digit7 [of "char_of (209 :: nat)"] by simp
  moreover have "contains sub s \<Longrightarrow> set sub \<subseteq> set s" for sub s
    by (auto simp: contains_iff)
  ultimately have "\<not> contains txt_too_many (to_lower (join '' '' (Prelude.fields raw)))"
    "\<not> contains txt_later (to_lower (join '' '' (Prelude.fields raw)))"
    using assms(1) by (auto simp: list_all_iff)
  then show ?thesis
    using assms(2) by (simp add: isVKLoginRateLimitedText_def contains_any_def Let_def)
qed

section \<open>Tokens in URLs\<close>

text \<open>The time to live in nanoseconds, 0 if the answer has none.\<close>

record vk_token =
  AccessToken :: string
  ExpiresIn :: int

text \<open>\<open>url.ParseQuery\<close> reports an error as soon as one part is bad.\<close>

definition query_ok :: "string \<Rightarrow> bool" where
  "query_ok q \<longleftrightarrow> list_all (\<lambda>part. part \<noteq> [] \<longrightarrow> parse_pair part \<noteq> None) (split_on CHR ''&'' q)"

definition link_values :: "link \<Rightarrow> (string \<times> string) list" where
  "link_values l = parse_query (lkQuery l) @
     (if lkFragment l \<noteq> [] \<and> query_ok (lkFragment l) then parse_query (lkFragment l) else [])"

definition value_of :: "(string \<times> string) list \<Rightarrow> string \<Rightarrow> string" where
  "value_of vs k = (case map_of vs k of Some v \<Rightarrow> v | None \<Rightarrow> [])"

definition expires_in :: "string \<Rightarrow> int" where
  "expires_in raw =
     (let raw = trim_space raw
      in if raw = [] then 0
         else (case atoi raw of Some n \<Rightarrow> if n > 0 then wrap64 (n * 10 ^ 9) else 0 | None \<Rightarrow> 0))"

text \<open>\<open>None\<close>: the URL does not end the authorization; otherwise the refusal or the token.\<close>

definition parseLegacyVKTokenURL :: "web \<Rightarrow> string \<Rightarrow> (string + vk_token) option" where
  "parseLegacyVKTokenURL W raw =
     (let raw = trim_space raw
      in if raw = [] then None
         else case webParse W raw of
           None \<Rightarrow> None
         | Some l \<Rightarrow>
             (let vs = link_values l; e = trim_space (value_of vs ''error'');
                  d = trim_space (value_of vs ''error_description''); t = trim_space (value_of vs ''access_token'')
              in if e \<noteq> [] then Some (Inl (msg_refused @ (if d \<noteq> [] then d else e)))
                 else if t = [] then None
                 else Some (Inr \<lparr>AccessToken = t, ExpiresIn = expires_in (value_of vs ''expires_in'')\<rparr>)))"

definition resolveLegacyVKRedirect :: "web \<Rightarrow> string \<Rightarrow> string \<Rightarrow> string" where
  "resolveLegacyVKRedirect W current next =
     (let next = trim_space next
      in if next = [] then []
         else case webParse W next of
           None \<Rightarrow> next
         | Some l \<Rightarrow>
             if lkAbs l then lkText l
             else (case webParse W (trim_space current) of None \<Rightarrow> next | Some b \<Rightarrow> webResolve W (trim_space current) next))"

section \<open>The regular expressions\<close>

definition re_space :: "char \<Rightarrow> bool" where
  "re_space c \<longleftrightarrow> c = CHR 9 \<or> c = CHR 10 \<or> c = CHR 12 \<or> c = CHR 13 \<or> c = CHR 32"

definition re_quote :: "char \<Rightarrow> bool" where
  "re_quote c \<longleftrightarrow> c = CHR 34 \<or> c = CHR 39"

text \<open>A lower-case literal at the start, in either case; \<open>(?i)\<close> also takes the long s and the Kelvin sign.\<close>

fun drop_fold :: "string \<Rightarrow> string \<Rightarrow> string option" where
  "drop_fold [] s = Some s"
| "drop_fold (l # ls) s =
     (case s of
        [] \<Rightarrow> None
      | a # t \<Rightarrow>
          if ascii_lower a = l then drop_fold ls t
          else if l = CHR ''s'' \<and> has_prefix [CHR 0xC5, CHR 0xBF] s then drop_fold ls (drop 2 s)
          else if l = CHR ''k'' \<and> has_prefix [CHR 0xE2, CHR 0x84, CHR 0xAA] s then drop_fold ls (drop 3 s)
          else None)"

text \<open>\<open>location\.href\s*=\s*["']([^"']+)["']\<close>: the group of the leftmost match.\<close>

definition href_at :: "string \<Rightarrow> string option" where
  "href_at s =
     (case drop_fold ''location.href'' s of
        None \<Rightarrow> None
      | Some r \<Rightarrow>
          (case dropWhile re_space r of
             c # r \<Rightarrow>
               if c = CHR ''='' then
                 (case dropWhile re_space r of
                    q # r \<Rightarrow>
                      (let b = takeWhile (\<lambda>c. \<not> re_quote c) r
                       in if re_quote q \<and> b \<noteq> [] \<and> length b < length r then Some b else None)
                  | [] \<Rightarrow> None)
               else None
           | [] \<Rightarrow> None))"

text \<open>\<open>(https://login\.vk\.(?:com|ru)/\?act=grant_access[^"'\s<]+)\<close>.\<close>

definition grant_at :: "string \<Rightarrow> string option" where
  "grant_at s =
     (case drop_fold ''https://login.vk.'' s of
        None \<Rightarrow> None
      | Some r \<Rightarrow>
          (case (case drop_fold ''com/?act=grant_access'' r of
                   Some r \<Rightarrow> Some r | None \<Rightarrow> drop_fold ''ru/?act=grant_access'' r) of
             None \<Rightarrow> None
           | Some r \<Rightarrow>
               (let b = takeWhile (\<lambda>c. \<not> re_quote c \<and> \<not> re_space c \<and> c \<noteq> CHR ''<'') r
                in if b = [] then None else Some (take (length s - length r) s @ b))))"

fun leftmost :: "(string \<Rightarrow> string option) \<Rightarrow> string \<Rightarrow> string option" where
  "leftmost at [] = at []"
| "leftmost at (c # s) = (case at (c # s) of Some m \<Rightarrow> Some m | None \<Rightarrow> leftmost at s)"

section \<open>Following the redirects\<close>

datatype authorize_hop = HopToken vk_token | HopError string | HopNext string | HopNone

definition hop_end :: "(string + vk_token) \<Rightarrow> authorize_hop" where
  "hop_end r = (case r of Inl e \<Rightarrow> HopError e | Inr t \<Rightarrow> HopToken t)"

definition parseLegacyVKAuthorizeHop :: "web \<Rightarrow> string \<Rightarrow> int \<Rightarrow> string \<Rightarrow> string \<Rightarrow> authorize_hop" where
  "parseLegacyVKAuthorizeHop W current status location body =
     (let location = trim_space (webUnescape W location)
      in if location \<noteq> [] then
           (let resolved = resolveLegacyVKRedirect W current location
            in case parseLegacyVKTokenURL W resolved of Some r \<Rightarrow> hop_end r | None \<Rightarrow> HopNext resolved)
         else if status < 200 \<or> status \<ge> 300 then HopNone
         else
           (let grant = (case leftmost grant_at body of Some m \<Rightarrow> HopNext (webUnescape W m) | None \<Rightarrow> HopNone)
            in case leftmost href_at body of
                 None \<Rightarrow> grant
               | Some m \<Rightarrow>
                   (case parseLegacyVKTokenURL W (resolveLegacyVKRedirect W current (webUnescape W m)) of
                      Some r \<Rightarrow> hop_end r | None \<Rightarrow> grant)))"

definition vkCallsOAuthRedirectURI :: string where "vkCallsOAuthRedirectURI = ''https://oauth.vk.ru/blank.html''"

text \<open>The values in the order of their keys, as \<open>Values.Encode\<close> has them.\<close>

definition authorize_values :: "string \<Rightarrow> (string \<times> string) list" where
  "authorize_values display =
     [(''client_id'', ''7793118''), (''display'', display), (''redirect_uri'', vkCallsOAuthRedirectURI),
      (''response_type'', ''token''), (''revoke'', ''1''), (''scope'', ''1073737727''), (''v'', ''5.199'')]"

definition buildVKCallsHTTPAuthorizeURL :: string where
  "buildVKCallsHTTPAuthorizeURL = ''https://oauth.vk.com/authorize?'' @ captchaV2EncodeForm (authorize_values ''mobile'')"

definition buildVKCallsBrowserAuthorizeURL :: string where
  "buildVKCallsBrowserAuthorizeURL = ''https://oauth.vk.ru/authorize?'' @ captchaV2EncodeForm (authorize_values ''page'')"

definition vkCallsOAuthMaxHops :: nat where "vkCallsOAuthMaxHops = 15"

text \<open>An answer: the error of a request that fails, or the status, the location and the (limited) body.\<close>

type_synonym answer = "goerr + int \<times> string \<times> string"

fun scrape_hops :: "web \<Rightarrow> (nat \<Rightarrow> string \<Rightarrow> answer) \<Rightarrow> nat \<Rightarrow> nat \<Rightarrow> string \<Rightarrow> (goerr + vk_token) \<times> string list" where
  "scrape_hops W net hop 0 url = (Inl (Plain msg_scrape_limit), [])"
| "scrape_hops W net hop (Suc n) url =
     (case net hop url of
        Inl e \<Rightarrow> (Inl e, [url])
      | Inr (status, location, body) \<Rightarrow>
          (case parseLegacyVKAuthorizeHop W url status location body of
             HopError e \<Rightarrow> (Inl (Plain e), [url])
           | HopToken t \<Rightarrow> (Inr t, [url])
           | HopNone \<Rightarrow> (Inl (Plain (msg_scrape_stopped @ digits_nat (hop + 1) @ '': HTTP '' @ fmt_int status)), [url])
           | HopNext u \<Rightarrow>
               if trim_space u = [] then
                 (Inl (Plain (msg_scrape_stopped @ digits_nat (hop + 1) @ '': HTTP '' @ fmt_int status)), [url])
               else (let (r, urls) = scrape_hops W net (hop + 1) n u in (r, url # urls))))"

definition scrapeVKCallsTokenHTTP :: "web \<Rightarrow> (nat \<Rightarrow> string \<Rightarrow> answer) \<Rightarrow> (goerr + vk_token) \<times> string list" where
  "scrapeVKCallsTokenHTTP W net = scrape_hops W net 0 vkCallsOAuthMaxHops buildVKCallsHTTPAuthorizeURL"

section \<open>Tokens inside an authorize_url\<close>

fun unescape_twice :: "nat \<Rightarrow> string \<Rightarrow> string" where
  "unescape_twice 0 s = s"
| "unescape_twice (Suc n) s =
     (case QueryUnescape s of None \<Rightarrow> s | Some d \<Rightarrow> if d = s then s else unescape_twice n d)"

definition good_token :: "(string + vk_token) option \<Rightarrow> vk_token option" where
  "good_token r = (case r of Some (Inr t) \<Rightarrow> if AccessToken t \<noteq> [] then Some t else None | _ \<Rightarrow> None)"

definition parseModernRUAccessTokenURL :: "web \<Rightarrow> string \<Rightarrow> vk_token option" where
  "parseModernRUAccessTokenURL W raw =
     (let raw = trim_space raw
      in if raw = [] then None
         else case webParse W raw of
           None \<Rightarrow> None
         | Some l \<Rightarrow>
             (let u = trim_space (query_get (lkQuery l) ''authorize_url'');
                  nested = (if u = [] then None else good_token (parseLegacyVKTokenURL W (unescape_twice 2 u)))
              in case nested of Some t \<Rightarrow> Some t | None \<Rightarrow> good_token (parseLegacyVKTokenURL W raw)))"

section \<open>The browser window\<close>

text \<open>
  One poll of the window: it cannot be read (and whether it is gone), or its address and text, with what
  comes of a navigation should the poll ask for one.
\<close>

datatype navigation = NavOk | NavEnded goerr | NavFailed goerr
datatype poll = NoState bool | PageState string string navigation

datatype browser_result = BrowserToken vk_token | BrowserError string | BrowserGoErr goerr | BrowserPanic

text \<open>
  The polls until the time is up, whether the silent retry was made, and the last diagnosis; the number
  counts the retries. The address is parsed again for the diagnosis with the error ignored: the parsed
  URL is nil then, and reading its host panics.
\<close>

fun browser_polls :: "web \<Rightarrow> bool \<Rightarrow> string \<Rightarrow> poll list \<Rightarrow> browser_result \<times> nat" where
  "browser_polls W silent diag [] = (BrowserError (msg_no_browser_token @ diag @ '')''), 0)"
| "browser_polls W silent diag (NoState gone # ps) =
     (if gone then (BrowserError msg_window_closed, 0) else browser_polls W silent diag ps)"
| "browser_polls W silent diag (PageState url body nav # ps) =
     (case parseLegacyVKTokenURL W url of
        Some (Inl e) \<Rightarrow> (BrowserError e, 0)
      | Some (Inr t) \<Rightarrow> (BrowserToken t, 0)
      | None \<Rightarrow>
          (case parseModernRUAccessTokenURL W url of
             Some t \<Rightarrow> (BrowserToken t, 0)
           | None \<Rightarrow>
               (case webParse W (trim_space url) of
                  None \<Rightarrow> (BrowserPanic, 0)
                | Some l \<Rightarrow>
                    (let diag = ''host='' @ lkHost l @ '' path='' @ (if lkPath l = [] then ''/'' else lkPath l)
                     in if query_get (lkFragment l) ''payload'' \<noteq> [] \<and> \<not> silent then
                          (case nav of
                             NavEnded e \<Rightarrow> (BrowserGoErr e, 0)
                           | NavFailed e \<Rightarrow> (BrowserGoErr e, 1)
                           | NavOk \<Rightarrow> (let (r, n) = browser_polls W True diag ps in (r, n + 1)))
                        else if isVKLoginRateLimitedText body then (BrowserError msg_rate_limited, 0)
                        else browser_polls W silent diag ps))))"

definition obtainVKCallsTokenViaBrowser :: "web \<Rightarrow> goerr option \<Rightarrow> poll list \<Rightarrow> browser_result \<times> nat" where
  "obtainVKCallsTokenViaBrowser W nav polls =
     (case nav of Some e \<Rightarrow> (BrowserGoErr (Wrapf msg_no_oauth_page e []), 0)
      | None \<Rightarrow> browser_polls W False msg_page_not_read polls)"

section \<open>Cookies\<close>

record vk_cookie =
  ckName :: string
  ckValue :: string
  ckDomain :: string

definition cookie_pair :: "vk_cookie \<Rightarrow> string option" where
  "cookie_pair c =
     (let n = trim_space (ckName c); v = trim_space (ckValue c)
      in if n = [] \<or> v = [] then None else Some (n @ ''='' @ v))"

text \<open>The pairs of the cookies a filter lets through, each once, in the order of their first occurrence.\<close>

fun cookie_pairs :: "(vk_cookie \<Rightarrow> bool) \<Rightarrow> string list \<Rightarrow> vk_cookie list \<Rightarrow> string list" where
  "cookie_pairs ok seen [] = []"
| "cookie_pairs ok seen (c # cs) =
     (case cookie_pair c of
        None \<Rightarrow> cookie_pairs ok seen cs
      | Some p \<Rightarrow>
          if \<not> ok c \<or> p \<in> set seen then cookie_pairs ok seen cs else p # cookie_pairs ok (p # seen) cs)"

definition vkCallsOAuthCookieHeader :: "goerr + vk_cookie list \<Rightarrow> goerr + string" where
  "vkCallsOAuthCookieHeader cookies =
     (case cookies of Inl e \<Rightarrow> Inl e | Inr cs \<Rightarrow> Inr (join ''; '' (cookie_pairs (\<lambda>c. True) [] cs)))"

text \<open>
  The whole: the start of the window, the check for a session, the cookies, the redirects with them, and
  the window when they give no token.
\<close>

definition obtainVKCallsTokenPrimary ::
  "web \<Rightarrow> goerr option \<Rightarrow> goerr + bool \<Rightarrow> goerr + vk_cookie list \<Rightarrow> (string \<Rightarrow> nat \<Rightarrow> string \<Rightarrow> answer) \<Rightarrow>
   goerr option \<Rightarrow> poll list \<Rightarrow> browser_result" where
  "obtainVKCallsTokenPrimary W started session cookies net nav polls =
     (case started of Some e \<Rightarrow> BrowserGoErr e
      | None \<Rightarrow>
     (case session of Inl e \<Rightarrow> BrowserGoErr (Wrapf msg_no_session_check e [])
      | Inr has \<Rightarrow>
          if \<not> has then BrowserError msg_no_session
          else (case vkCallsOAuthCookieHeader cookies of
             Inl e \<Rightarrow> BrowserGoErr (Wrapf msg_no_cookies e [])
           | Inr header \<Rightarrow>
               if trim_space header = [] then BrowserError msg_empty_cookies
               else (case fst (scrapeVKCallsTokenHTTP W (net header)) of
                  Inr t \<Rightarrow> if AccessToken t \<noteq> [] then BrowserToken t else fst (obtainVKCallsTokenViaBrowser W nav polls)
                | Inl e \<Rightarrow> fst (obtainVKCallsTokenViaBrowser W nav polls)))))"

section \<open>Lemmas\<close>

lemma cookie_pairs_distinct: "distinct (cookie_pairs ok seen cs) \<and> set (cookie_pairs ok seen cs) \<inter> set seen = {}"
proof (induction cs arbitrary: seen)
  case (Cons c cs)
  then show ?case using Cons [of seen] Cons [of "the (cookie_pair c) # seen"] by (auto split: option.split)
qed simp

lemma token_url_token: "parseLegacyVKTokenURL W u = Some (Inr t) \<Longrightarrow> AccessToken t \<noteq> []"
  by (auto simp: parseLegacyVKTokenURL_def Let_def split: if_splits option.splits)

lemma hop_token: "parseLegacyVKAuthorizeHop W u st loc body = HopToken t \<Longrightarrow> AccessToken t \<noteq> []"
  by (auto simp: parseLegacyVKAuthorizeHop_def hop_end_def Let_def token_url_token
      split: if_splits option.splits sum.splits)

definition hop_of :: "web \<Rightarrow> (nat \<Rightarrow> string \<Rightarrow> answer) \<Rightarrow> nat \<Rightarrow> string \<Rightarrow> authorize_hop" where
  "hop_of W net i u =
     (case net i u of Inl e \<Rightarrow> HopNone | Inr (status, location, body) \<Rightarrow> parseLegacyVKAuthorizeHop W u status location body)"

lemma scrape_hops_chain:
  assumes "scrape_hops W net hop n url = (r, urls)"
  shows "length urls \<le> n \<and> (0 < n \<longrightarrow> urls \<noteq> [] \<and> hd urls = url) \<and>
    (\<forall>i. Suc i < length urls \<longrightarrow> hop_of W net (hop + i) (urls ! i) = HopNext (urls ! Suc i)) \<and>
    (\<forall>t. r = Inr t \<longrightarrow> urls \<noteq> [] \<and> hop_of W net (hop + length urls - 1) (last urls) = HopToken t)"
  using assms
proof (induction n arbitrary: hop url r urls)
  case (Suc n)
  show ?case
  proof (cases "\<exists>u. hop_of W net hop url = HopNext u \<and> trim_space u \<noteq> []")
    case True
    then obtain u st loc body where u: "net hop url = Inr (st, loc, body)"
      "parseLegacyVKAuthorizeHop W url st loc body = HopNext u" "trim_space u \<noteq> []"
      by (auto simp: hop_of_def split: sum.splits prod.splits)
    obtain r' us where s: "scrape_hops W net (hop + 1) n u = (r', us)" by fastforce
    have e: "r = r'" "urls = url # us"
      using Suc.prems u s by (simp_all split: prod.splits)
    note ih = Suc.IH [OF s]
    have h: "hop_of W net hop url = HopNext u" using u by (simp add: hop_of_def)
    have "hop_of W net (hop + i) (urls ! i) = HopNext (urls ! Suc i)" if "Suc i < length urls" for i
    proof (cases i)
      case 0
      then have "us ! 0 = u" using that ih e by (cases us; cases n) auto
      then show ?thesis using 0 e h by simp
    next
      case (Suc j)
      then show ?thesis using that ih e by auto
    qed
    moreover have "us \<noteq> [] \<Longrightarrow> hop + length urls - 1 = hop + 1 + length us - 1" using e by simp
    ultimately show ?thesis using ih e by auto
  next
    case False
    then show ?thesis
      using Suc.prems by (auto simp: hop_of_def split: sum.splits prod.splits authorize_hop.splits if_splits)
  qed
qed simp

text \<open>The address of the window gave the token in some poll.\<close>

definition token_shown :: "web \<Rightarrow> poll list \<Rightarrow> vk_token \<Rightarrow> bool" where
  "token_shown W ps t \<longleftrightarrow> (\<exists>url body nav. PageState url body nav \<in> set ps \<and>
      (parseLegacyVKTokenURL W url = Some (Inr t) \<or> parseModernRUAccessTokenURL W url = Some t))"

lemma token_shown_Cons: "token_shown W ps t \<Longrightarrow> token_shown W (p # ps) t"
  by (auto simp: token_shown_def)

lemma token_shown_head:
  "parseLegacyVKTokenURL W url = Some (Inr t) \<Longrightarrow> token_shown W (PageState url body nav # ps) t"
  "parseModernRUAccessTokenURL W url = Some t \<Longrightarrow> token_shown W (PageState url body nav # ps) t"
  unfolding token_shown_def by (meson list.set_intros(1))+

lemma browser_polls_sound:
  "browser_polls W silent diag ps = (r, n) \<Longrightarrow>
   n \<le> (if silent then 0 else 1) \<and>
   (\<forall>t. r = BrowserToken t \<longrightarrow> token_shown W ps t)"
proof (induction W silent diag ps arbitrary: r n rule: browser_polls.induct)
  case (3 W silent diag url body nav ps)
  show ?case
  proof (cases "parseLegacyVKTokenURL W url \<noteq> None \<or> parseModernRUAccessTokenURL W url \<noteq> None \<or>
      webParse W (trim_space url) = None")
    case True
    then show ?thesis using 3(3) token_shown_head by (auto split: option.splits sum.splits)
  next
    case False
    then obtain l where l: "parseLegacyVKTokenURL W url = None" "parseModernRUAccessTokenURL W url = None"
      "webParse W (trim_space url) = Some l" by auto
    define d where "d = ''host='' @ lkHost l @ '' path='' @ (if lkPath l = [] then ''/'' else lkPath l)"
    note ih = 3(1) [OF l d_def] 3(2) [OF l d_def]
    show ?thesis
      using 3(3) l ih d_def [symmetric] token_shown_Cons
      by (auto simp: Let_def split: if_splits navigation.splits prod.splits)
  qed
qed (auto split: if_splits intro: token_shown_Cons)

lemma unreserved_graph: "unreserved c \<Longrightarrow> is_graph c"
  by (auto simp: unreserved_def is_graph_def)

lemma unreserved_trim: "list_all unreserved s \<Longrightarrow> trim_space s = s"
  using unreserved_graph by (intro trim_space_graph) (auto simp: list_all_iff)

lemma query_ok_form:
  assumes "values \<noteq> []"
  shows "query_ok (captchaV2EncodeForm values)"
proof -
  have "CHR ''&'' \<notin> set (encode_pair kv)" for kv
    using escape_no_sep(1) by (auto simp: encode_pair_def)
  then have "split_on CHR ''&'' (captchaV2EncodeForm values) = map encode_pair values"
    unfolding captchaV2EncodeForm_def split_on_def using assms
    by (intro split_by_join) auto
  then show ?thesis
    by (simp add: query_ok_def list_all_iff encode_pair_parse)
qed

lemma expires_in_digits:
  assumes "0 < n" "int n * 10 ^ 9 < 2 ^ 63"
  shows "expires_in (digits_nat n) = int n * 10 ^ 9"
proof -
  have d: "digits_nat n = fmt_int (int n)"
    by (simp add: fmt_int_def)
  have "\<forall>c \<in> set (digits_nat n). is_graph c"
    using digits_nat_digits [of n] by (auto simp: list_all_iff is_digit_def is_graph_def)
  then have t: "trim_space (digits_nat n) = digits_nat n"
    by (intro trim_space_graph) simp
  have "int64_ok (int n)"
    using assms by (simp add: int64_ok_def)
  then have "atoi (digits_nat n) = Some (int n)"
    unfolding d by (rule atoi_fmt_int)
  then show ?thesis
    using assms by (simp add: expires_in_def t Let_def wrap64_id)
qed

text \<open>The fragment of a parsed URL is unescaped once already: a plus in a token would become a space.\<close>

lemma fragment_is_unescaped_twice:
  assumes "webParse W ''u'' = Some l" "lkQuery l = []" "lkFragment l = ''access_token=a+b''"
  shows "parseLegacyVKTokenURL W ''u'' = Some (Inr \<lparr>AccessToken = ''a b'', ExpiresIn = 0\<rparr>)"
proof -
  have u: "trim_space ''u'' = ''u''" "trim_space ''a b'' = ''a b''" by code_simp+
  have "parse_query ''access_token=a+b'' = [(''access_token'', ''a b'')]" "query_ok ''access_token=a+b''"
    "parse_query [] = []" by code_simp+
  then have "link_values l = [(''access_token'', ''a b'')]"
    using assms(2,3) by (simp add: link_values_def)
  then show ?thesis
    using assms(1) u by (simp add: parseLegacyVKTokenURL_def value_of_def expires_in_def)
qed

text \<open>An address the URL parser refuses ends the poll in a nil dereference.\<close>

lemma unparsable_address_panics:
  "webParse W (trim_space url) = None \<Longrightarrow> browser_polls W silent diag (PageState url body nav # ps) = (BrowserPanic, 0)"
  by (cases "trim_space url = []") (simp_all add: parseLegacyVKTokenURL_def parseModernRUAccessTokenURL_def Let_def)

section \<open>Properties\<close>

text \<open>Property C34 (safety). Following the redirects makes at most fifteen requests, the first to the
  authorize address and every other to the address that the answer before it has named; a token comes
  only from the last answer, and is not empty.\<close>

theorem redirects_are_followed_to_the_token:
  assumes "scrapeVKCallsTokenHTTP W net = (r, urls)"
  shows "length urls \<le> 15 \<and> hd urls = buildVKCallsHTTPAuthorizeURL \<and>
    (\<forall>i. Suc i < length urls \<longrightarrow> hop_of W net i (urls ! i) = HopNext (urls ! Suc i)) \<and>
    (\<forall>t. r = Inr t \<longrightarrow> hop_of W net (length urls - 1) (last urls) = HopToken t \<and> AccessToken t \<noteq> [])"
proof -
  have "hop_of W net i u = HopToken t \<Longrightarrow> AccessToken t \<noteq> []" for i u t
    by (auto simp: hop_of_def hop_token split: sum.splits prod.splits)
  then show ?thesis
    using scrape_hops_chain [OF assms [unfolded scrapeVKCallsTokenHTTP_def]] by (simp add: vkCallsOAuthMaxHops_def) blast
qed

definition demo_link :: "string \<Rightarrow> link" where
  "demo_link fragment = \<lparr>lkQuery = [], lkFragment = fragment, lkAbs = True, lkText = ''t'', lkHost = [], lkPath = []\<rparr>"

definition demo_web :: web where
  "demo_web = \<lparr>webParse = (\<lambda>u. Some (demo_link (if u = ''t'' then ''access_token=abc'' else []))),
     webResolve = (\<lambda>b n. n), webUnescape = (\<lambda>s. s)\<rparr>"

theorem redirects_are_followed_to_the_token_witness:
  "\<exists>r urls. scrapeVKCallsTokenHTTP demo_web (\<lambda>hop u. Inr (302, ''x'', [])) = (r, urls) \<and> length urls \<le> 15 \<and>
     hd urls = buildVKCallsHTTPAuthorizeURL"
proof -
  obtain r urls where s: "scrapeVKCallsTokenHTTP demo_web (\<lambda>hop u. Inr (302, ''x'', [])) = (r, urls)" by fastforce
  show ?thesis
    using redirects_are_followed_to_the_token [OF s] s by blast
qed

text \<open>Property C32 (round trip). A token of the characters that need no escaping, and a time to live that
  fits into a duration, are read back from the fragment of the redirect a server builds of them.\<close>

theorem token_is_read_back:
  assumes "list_all unreserved tok" and "tok \<noteq> []" and "0 < n" and "int n * 10 ^ 9 < 2 ^ 63"
    and "webParse W (trim_space u) = Some l" and "trim_space u \<noteq> []" and "lkQuery l = []"
    and "lkFragment l = captchaV2EncodeForm [(''access_token'', tok), (''expires_in'', digits_nat n)]"
  shows "parseLegacyVKTokenURL W u = Some (Inr \<lparr>AccessToken = tok, ExpiresIn = int n * 10 ^ 9\<rparr>)"
proof -
  let ?vs = "[(''access_token'', tok), (''expires_in'', digits_nat n)]"
  have "captchaV2EncodeForm ?vs \<noteq> []"
    by (simp add: captchaV2EncodeForm_def encode_pair_def)
  moreover have "parse_query [] = []" by code_simp
  ultimately have "link_values l = ?vs"
    using parse_query_form [of ?vs] query_ok_form [of ?vs] assms(7,8) by (simp add: link_values_def)
  then show ?thesis
    using assms(2,5,6) unreserved_trim [OF assms(1)] expires_in_digits [OF assms(3,4)]
    by (simp add: parseLegacyVKTokenURL_def value_of_def)
qed

theorem token_is_read_back_witness:
  "parseLegacyVKTokenURL (demo_web\<lparr>webParse := \<lambda>u. Some (demo_link ''access_token=vk1.a_b-c&expires_in=86400'')\<rparr>) ''x'' =
     Some (Inr \<lparr>AccessToken = ''vk1.a_b-c'', ExpiresIn = 86400 * 10 ^ 9\<rparr>)"
proof -
  have d: "digits_nat 86400 = ''86400''"
    by (simp add: digits_nat.simps) (simp add: digit_char_def char_of_def bit_numeral_rec bit_0)
  have f: "''access_token=vk1.a_b-c&expires_in=86400'' =
    captchaV2EncodeForm [(''access_token'', ''vk1.a_b-c''), (''expires_in'', ''86400'')]" by code_simp
  have t: "trim_space ''x'' = ''x''" by code_simp
  have u: "list_all unreserved ''vk1.a_b-c''" by (simp add: unreserved_def)
  show ?thesis
    using token_is_read_back [OF u, of 86400 "demo_web\<lparr>webParse := \<lambda>u. Some (demo_link
        ''access_token=vk1.a_b-c&expires_in=86400'')\<rparr>" "''x''"] f
    by (simp add: d t demo_link_def)
qed

text \<open>The poll of the window asks for the address a second time at most once, and a
  token it returns was in the address the window showed in one of the polls.\<close>

theorem window_gives_the_token:
  assumes "obtainVKCallsTokenViaBrowser W nav polls = (r, n)"
  shows "n \<le> 1 \<and> (\<forall>t. r = BrowserToken t \<longrightarrow> token_shown W polls t)"
  using assms browser_polls_sound [of W False msg_page_not_read polls]
  by (auto simp: obtainVKCallsTokenViaBrowser_def split: option.splits)

theorem window_gives_the_token_witness:
  "token_shown demo_web [NoState False, PageState ''t'' [] NavOk] \<lparr>AccessToken = ''abc'', ExpiresIn = 0\<rparr>"
proof -
  have t: "trim_space ''t'' = ''t''" "trim_space ''abc'' = ''abc''" "query_ok ''access_token=abc''"
    "parse_query ''access_token=abc'' = [(''access_token'', ''abc'')]" "parse_query [] = []"
    by code_simp+
  have "obtainVKCallsTokenViaBrowser demo_web None [NoState False, PageState ''t'' [] NavOk] =
      (BrowserToken \<lparr>AccessToken = ''abc'', ExpiresIn = 0\<rparr>, 0)"
    by (simp add: obtainVKCallsTokenViaBrowser_def parseLegacyVKTokenURL_def demo_web_def demo_link_def t
        link_values_def value_of_def expires_in_def)
  then show ?thesis
    using window_gives_the_token by blast
qed

end
