(* ===== verification/VkWindow.thy ===== *)
theory VkWindow
  imports VkToken Store Base64
begin

text \<open>
  The window of Microsoft Edge for VK: the DevTools connection with its calls and events, the state of
  the page and the cookies (\<open>backend/vk_webview_windows.go\<close>), the captcha that the user solves in it
  (\<open>backend/vk_captcha_windows.go\<close>) and the interactive login (\<open>backend/vk_login_session_windows.go\<close>). A
  connection is the list of messages that come on it until it is closed; the process and the sockets
  are seen through the results of their calls. The parse of a JSON text and of a URL are arguments.
\<close>

section \<open>JSON into structures of texts\<close>

text \<open>Fields by their names, in any case; a repeated field is set again.\<close>

fun set_text :: "string list \<Rightarrow> string list \<Rightarrow> string \<times> json \<Rightarrow> string list option" where
  "set_text (n # ns) (v # vs) (k, j) =
     (if equal_fold n k then map_option (\<lambda>x. x # vs) (into_string j v)
      else map_option (Cons v) (set_text ns vs (k, j)))"
| "set_text ns vs kj = Some vs"

definition struct_texts :: "string list \<Rightarrow> json \<Rightarrow> string list option" where
  "struct_texts names j =
     (case j of JObj m \<Rightarrow> into_fields (set_text names) m (map (\<lambda>_. []) names)
      | JNull \<Rightarrow> Some (map (\<lambda>_. []) names) | _ \<Rightarrow> None)"

definition nested_texts :: "string \<Rightarrow> string list \<Rightarrow> json \<Rightarrow> string list option" where
  "nested_texts outer names j =
     (let zero = map (\<lambda>_. []) names;
          f = (\<lambda>old (k, j). if equal_fold outer k
                 then (case j of JObj m \<Rightarrow> into_fields (set_text names) m old | JNull \<Rightarrow> Some old | _ \<Rightarrow> None)
                 else Some old)
      in case j of JObj m \<Rightarrow> into_fields f m zero | JNull \<Rightarrow> Some zero | _ \<Rightarrow> None)"

section \<open>Calls\<close>

text \<open>
  A message on the connection as it decodes to a response (identifier, error, result) and to an event
  (method, request, address); \<open>None\<close> if it does not. An event has no identifier, which decodes to 0.
\<close>

record cdp_message =
  cmResponse :: "(int \<times> string option \<times> json) option"
  cmEvent :: "(string \<times> string \<times> string) option"

datatype cdp_error = CdpNotConnected | CdpClosed | CdpError string

fun read_response :: "int \<Rightarrow> cdp_message list \<Rightarrow> (cdp_error + json) \<times> cdp_message list" where
  "read_response i [] = (Inl CdpClosed, [])"
| "read_response i (m # ms) =
     (case cmResponse m of
        None \<Rightarrow> read_response i ms
      | Some (j, err, result) \<Rightarrow>
          if j \<noteq> i then read_response i ms
          else (case err of Some e \<Rightarrow> (Inl (CdpError e), ms) | None \<Rightarrow> (Inr result, ms)))"

text \<open>The session: the messages to come (\<open>None\<close> without a connection), the last identifier, and whether the
  connection was seen closed.\<close>

record edge_session =
  esConn :: "cdp_message list option"
  esNextID :: int
  esCdpClosed :: bool
  esClosed :: bool

definition cdp_call :: "bool \<Rightarrow> edge_session \<Rightarrow> (cdp_error + json) \<times> edge_session" where
  "cdp_call written s =
     (case esConn s of
        None \<Rightarrow> (Inl CdpNotConnected, s)
      | Some ms \<Rightarrow>
          (let i = esNextID s + 1; s = s\<lparr>esNextID := i\<rparr>
           in if \<not> written then (Inl CdpClosed, s\<lparr>esCdpClosed := True\<rparr>)
              else (let (r, rest) = read_response i ms; s = s\<lparr>esConn := Some rest\<rparr>
                    in (r, if r = Inl CdpClosed then s\<lparr>esCdpClosed := True\<rparr> else s))))"

definition exited :: "edge_session \<Rightarrow> bool" where
  "exited s = (if esConn s \<noteq> None then esCdpClosed s else esClosed s)"

section \<open>The page and the cookies\<close>

text \<open>The page runs a script that returns its address and text as a JSON text.\<close>

definition pageState :: "(string \<Rightarrow> json option) \<Rightarrow> cdp_error + json \<Rightarrow> (string \<times> string) option" where
  "pageState parse result =
     (case result of Inl e \<Rightarrow> None
      | Inr j \<Rightarrow>
          (case nested_texts ''result'' [''type'', ''value''] j of
             Some [type, value] \<Rightarrow>
               if value = [] then None
               else (case parse value of None \<Rightarrow> None
                 | Some j \<Rightarrow>
                     (case struct_texts [''url'', ''body''] j of Some [url, body] \<Rightarrow> Some (url, body) | _ \<Rightarrow> None))
           | _ \<Rightarrow> None))"

fun cookie_of :: "json \<Rightarrow> vk_cookie option" where
  "cookie_of j =
     (case struct_texts [''name'', ''value'', ''domain''] j of
        Some [n, v, d] \<Rightarrow> Some \<lparr>ckName = n, ckValue = v, ckDomain = d\<rparr> | _ \<Rightarrow> None)"

definition cookies_field :: "vk_cookie list \<Rightarrow> string \<times> json \<Rightarrow> vk_cookie list option" where
  "cookies_field old kj =
     (if equal_fold ''cookies'' (fst kj) then
        (case snd kj of JArr js \<Rightarrow> all_some (map cookie_of js) | JNull \<Rightarrow> Some [] | _ \<Rightarrow> None)
      else Some old)"

definition getAllCookies :: "cdp_error + json \<Rightarrow> vk_cookie list option" where
  "getAllCookies result =
     (case result of
        Inr (JObj m) \<Rightarrow> into_fields cookies_field m [] | Inr JNull \<Rightarrow> Some [] | _ \<Rightarrow> None)"

definition isVKCookieDomain :: "string \<Rightarrow> bool" where
  "isVKCookieDomain raw =
     (let d = to_lower (trim_prefix ''.'' (trim_space raw))
      in d = ''vk.ru'' \<or> has_suffix ''.vk.ru'' d \<or> d = ''vk.com'' \<or> has_suffix ''.vk.com'' d)"

definition session_cookie :: "vk_cookie \<Rightarrow> bool" where
  "session_cookie c \<longleftrightarrow> equal_fold ''remixsid'' (ckName c) \<and> \<not> length (trim_space (ckValue c)) < 8 \<and>
     isVKCookieDomain (ckDomain c)"

definition hasVKSessionCookie :: "cdp_error + json \<Rightarrow> bool option" where
  "hasVKSessionCookie result = map_option (list_ex session_cookie) (getAllCookies result)"

definition vkCookieHeader :: "cdp_error + json \<Rightarrow> string option" where
  "vkCookieHeader result =
     map_option (\<lambda>cs. join ''; '' (cookie_pairs (\<lambda>c. isVKCookieDomain (ckDomain c)) [] cs)) (getAllCookies result)"

section \<open>Opening and closing\<close>

definition msg_no_window :: string where
  "msg_no_window = utf8 [77, 105, 99, 114, 111, 115, 111, 102, 116, 32, 69, 100, 103, 101, 32, 208, 189,
     208, 181, 32, 208, 191, 209, 128, 208, 181, 208, 180, 208, 190, 209, 129, 209, 130, 208, 176, 208, 178,
     208, 184, 208, 187, 32, 209, 131, 208, 191, 209, 128, 208, 176, 208, 178, 208, 187, 209, 143, 208, 181,
     208, 188, 208, 190, 208, 181, 32, 208, 190, 208, 186, 208, 189, 208, 190, 32, 86, 75, 32, 208, 191,
     208, 190, 209, 129, 208, 187, 208, 181, 32, 208, 183, 208, 176, 208, 191, 209, 131, 209, 129, 208, 186,
     208, 176]"

definition msg_window_late :: string where
  "msg_window_late = utf8 [77, 105, 99, 114, 111, 115, 111, 102, 116, 32, 69, 100, 103, 101, 32, 208, 189,
     208, 181, 32, 208, 190, 209, 130, 208, 186, 209, 128, 209, 139, 208, 187, 32, 208, 190, 208, 186, 208,
     189, 208, 190, 32, 86, 75, 32, 208, 178, 208, 190, 208, 178, 209, 128, 208, 181, 208, 188, 209, 143]"

definition msg_no_edge :: string where
  "msg_no_edge = utf8 [77, 105, 99, 114, 111, 115, 111, 102, 116, 32, 69, 100, 103, 101, 32, 208, 189, 208,
     181, 32, 208, 189, 208, 176, 208, 185, 208, 180, 208, 181, 208, 189, 59, 32, 208, 190, 208, 189, 32,
     208, 189, 209, 131, 208, 182, 208, 181, 208, 189, 32, 208, 180, 208, 187, 209, 143, 32, 208, 178, 209,
     133, 208, 190, 208, 180, 208, 176, 32, 86, 75]"

definition msg_no_port :: string where
  "msg_no_port = utf8 [208, 189, 208, 181, 32, 209, 131, 208, 180, 208, 176, 208, 187, 208, 190, 209, 129,
     209, 140, 32, 208, 191, 208, 190, 208, 180, 208, 179, 208, 190, 209, 130, 208, 190, 208, 178, 208, 184,
     209, 130, 209, 140, 32, 208, 187, 208, 190, 208, 186, 208, 176, 208, 187, 209, 140, 208, 189, 209, 139,
     208, 185, 32, 208, 186, 208, 176, 208, 189, 208, 176, 208, 187, 32, 209, 131, 208, 191, 209, 128, 208,
     176, 208, 178, 208, 187, 208, 181, 208, 189, 208, 184, 209, 143, 32, 69, 100, 103, 101, 58, 32]"

definition msg_no_profile :: string where
  "msg_no_profile = utf8 [208, 189, 208, 181, 32, 209, 131, 208, 180, 208, 176, 208, 187, 208, 190, 209,
     129, 209, 140, 32, 209, 129, 208, 190, 208, 183, 208, 180, 208, 176, 209, 130, 209, 140, 32, 208, 191,
     209, 128, 208, 190, 209, 132, 208, 184, 208, 187, 209, 140, 32, 86, 75, 32, 208, 180, 208, 187, 209,
     143, 32, 69, 100, 103, 101, 58, 32]"

definition msg_no_start :: string where
  "msg_no_start = utf8 [208, 189, 208, 181, 32, 209, 131, 208, 180, 208, 176, 208, 187, 208, 190, 209, 129,
     209, 140, 32, 208, 183, 208, 176, 208, 191, 209, 131, 209, 129, 209, 130, 208, 184, 209, 130, 209, 140,
     32, 77, 105, 99, 114, 111, 115, 111, 102, 116, 32, 69, 100, 103, 101, 32, 208, 180, 208, 187, 209, 143,
     32, 86, 75, 58, 32]"

definition msg_no_dial :: string where
  "msg_no_dial = utf8 [208, 189, 208, 181, 32, 209, 131, 208, 180, 208, 176, 208, 187, 208, 190, 209, 129,
     209, 140, 32, 208, 191, 208, 190, 208, 180, 208, 186, 208, 187, 209, 142, 209, 135, 208, 184, 209, 130,
     209, 140, 209, 129, 209, 143, 32, 208, 186, 32, 208, 190, 208, 186, 208, 189, 209, 131, 32, 86, 75, 32,
     208, 178, 32, 69, 100, 103, 101, 58, 32]"

definition msg_no_page :: string where
  "msg_no_page = utf8 [208, 189, 208, 181, 32, 209, 131, 208, 180, 208, 176, 208, 187, 208, 190, 209, 129,
     209, 140, 32, 208, 178, 208, 186, 208, 187, 209, 142, 209, 135, 208, 184, 209, 130, 209, 140, 32, 209,
     131, 208, 191, 209, 128, 208, 176, 208, 178, 208, 187, 208, 181, 208, 189, 208, 184, 208, 181, 32, 209,
     129, 209, 130, 209, 128, 208, 176, 208, 189, 208, 184, 209, 134, 208, 181, 208, 185, 32, 86, 75, 58,
     32]"

definition msg_no_network :: string where
  "msg_no_network = utf8 [208, 189, 208, 181, 32, 209, 131, 208, 180, 208, 176, 208, 187, 208, 190, 209,
     129, 209, 140, 32, 208, 178, 208, 186, 208, 187, 209, 142, 209, 135, 208, 184, 209, 130, 209, 140, 32,
     208, 191, 209, 128, 208, 190, 208, 178, 208, 181, 209, 128, 208, 186, 209, 131, 32, 86, 75, 45, 209,
     129, 208, 181, 209, 129, 209, 129, 208, 184, 208, 184, 58, 32]"

text \<open>What is on the machine: the path in \<open>PATH\<close>, the three roots of programs, and which files are there.\<close>

record machine =
  mcLookPath :: "string option"
  mcRoots :: "string list"
  mcIsFile :: "string \<Rightarrow> bool"
  mcLocalAppData :: string
  mcTemp :: string

definition findMicrosoftEdge :: "machine \<Rightarrow> string option" where
  "findMicrosoftEdge M =
     (let candidates = (case mcLookPath M of Some p \<Rightarrow> [p] | None \<Rightarrow> []) @
            map (\<lambda>r. r @ [CHR 92] @ ''Microsoft'' @ [CHR 92] @ ''Edge'' @ [CHR 92] @ ''Application'' @ [CHR 92] @
               ''msedge.exe'') (filter (\<lambda>r. trim_space r \<noteq> []) (mcRoots M))
      in find (mcIsFile M) candidates)"

definition vkEdgeDataPath :: "machine \<Rightarrow> string" where
  "vkEdgeDataPath M =
     (if mcLocalAppData M = [] then mcTemp M else mcLocalAppData M) @ [CHR 92] @ ''PWDTT'' @ [CHR 92] @ ''vk-edge''"

definition edge_args :: "machine \<Rightarrow> string \<Rightarrow> int \<Rightarrow> string \<Rightarrow> string list" where
  "edge_args M startURL port userAgent =
     [''--app='' @ startURL, ''--user-data-dir='' @ vkEdgeDataPath M, ''--remote-debugging-address=127.0.0.1'',
      ''--remote-debugging-port='' @ fmt_int port, ''--no-first-run'', ''--no-default-browser-check'',
      ''--disable-features=msEdgeFirstRunExperience'', ''--lang=ru-RU'', ''--user-agent='' @ userAgent]"

record edge_target =
  tgType :: string
  tgURL :: string
  tgSocket :: string

text \<open>The answers of the debugging port until the time is up, and whether the process has ended by then.\<close>

fun waitForPageTarget :: "bool \<Rightarrow> edge_target list option list \<Rightarrow> string + edge_target" where
  "waitForPageTarget gone [] = Inl (if gone then msg_no_window else msg_window_late)"
| "waitForPageTarget gone (None # polls) = waitForPageTarget gone polls"
| "waitForPageTarget gone (Some ts # polls) =
     (case find (\<lambda>t. tgType t = ''page'' \<and> tgSocket t \<noteq> []) ts of
        Some t \<Rightarrow> Inr t | None \<Rightarrow> waitForPageTarget gone polls)"

record edge_start =
  egPort :: "string + int"
  egMkdir :: "string option"
  egStart :: "string option"
  egPolls :: "edge_target list option list"
  egEnded :: bool
  egDial :: "string option"
  egPage :: "string option"
  egNetwork :: "string option"

text \<open>The error, if any, and whether a window was started that is closed again.\<close>

definition startVKEdgeSession :: "machine \<Rightarrow> edge_start \<Rightarrow> string option \<times> bool" where
  "startVKEdgeSession M g =
     (case findMicrosoftEdge M of None \<Rightarrow> (Some msg_no_edge, False)
      | Some path \<Rightarrow>
     (case egPort g of Inl e \<Rightarrow> (Some (msg_no_port @ e), False)
      | Inr port \<Rightarrow>
     (case egMkdir g of Some e \<Rightarrow> (Some (msg_no_profile @ e), False)
      | None \<Rightarrow>
     (case egStart g of Some e \<Rightarrow> (Some (msg_no_start @ e), False)
      | None \<Rightarrow>
     (case waitForPageTarget (egEnded g) (egPolls g) of Inl e \<Rightarrow> (Some e, True)
      | Inr t \<Rightarrow>
     (case egDial g of Some e \<Rightarrow> (Some (msg_no_dial @ e), True)
      | None \<Rightarrow>
     (case egPage g of Some e \<Rightarrow> (Some (msg_no_page @ e), True)
      | None \<Rightarrow>
     (case egNetwork g of Some e \<Rightarrow> (Some (msg_no_network @ e), True)
      | None \<Rightarrow> (None, False)))))))))"

section \<open>The captcha in the window\<close>

definition msg_bad_captcha :: string where
  "msg_bad_captcha = utf8 [86, 75, 32, 208, 191, 209, 128, 208, 181, 208, 180, 208, 190, 209, 129, 209, 130,
     208, 176, 208, 178, 208, 184, 208, 187, 32, 208, 189, 208, 181, 208, 191, 208, 190, 208, 180, 208, 180,
     208, 181, 209, 128, 208, 182, 208, 184, 208, 178, 208, 176, 208, 181, 208, 188, 209, 131, 209, 142, 32,
     209, 129, 209, 129, 209, 139, 208, 187, 208, 186, 209, 131, 32, 67, 65, 80, 84, 67, 72, 65]"

definition msg_edge_gone :: string where
  "msg_edge_gone = utf8 [209, 129, 208, 190, 208, 181, 208, 180, 208, 184, 208, 189, 208, 181, 208, 189,
     208, 184, 208, 181, 32, 209, 129, 32, 208, 190, 208, 186, 208, 189, 208, 190, 208, 188, 32, 69, 100,
     103, 101, 32, 208, 183, 208, 176, 208, 186, 209, 128, 209, 139, 209, 130, 208, 190]"

definition isOfficialVKHost :: "string \<Rightarrow> bool" where
  "isOfficialVKHost host =
     (let h = to_lower host
      in list_ex (\<lambda>d. h = d \<or> has_suffix (''.'' @ d) h) [''vk.com'', ''vk.ru''])"

record captcha_world =
  cwURL :: "string \<Rightarrow> parsed_url option"
  cwJson :: "string \<Rightarrow> json option"

definition isCaptchaCheckEndpoint :: "captcha_world \<Rightarrow> string \<Rightarrow> bool" where
  "isCaptchaCheckEndpoint C raw =
     (case cwURL C raw of
        None \<Rightarrow> False
      | Some u \<Rightarrow> Scheme u = ''https'' \<and> isOfficialVKHost (Hostname u) \<and> has_suffix ''/captchaNotRobot.check'' (Path u))"

definition captchaTokenFromVKResponse :: "captcha_world \<Rightarrow> string \<Rightarrow> string" where
  "captchaTokenFromVKResponse C payload =
     (case cwJson C payload of
        None \<Rightarrow> []
      | Some j \<Rightarrow>
          (case nested_texts ''response'' [''status'', ''success_token''] j of
             Some [status, token] \<Rightarrow> if status \<noteq> ''ok'' then [] else trim_space token
           | _ \<Rightarrow> []))"

definition flag_field :: "string \<Rightarrow> bool \<Rightarrow> string \<times> json \<Rightarrow> bool option" where
  "flag_field n old kj = (if equal_fold n (fst kj) then into_bool (snd kj) old else Some old)"

text \<open>The body of the check as the connection gives it.\<close>

definition body_token :: "captcha_world \<Rightarrow> json \<Rightarrow> string" where
  "body_token C result =
     (case (struct_texts [''body''] result,
            case result of JObj m \<Rightarrow> into_fields (flag_field ''base64Encoded'') m False | _ \<Rightarrow> Some False) of
        (Some [body], Some encoded) \<Rightarrow>
          (case (if encoded then b64_decode body else Some body) of
             None \<Rightarrow> [] | Some payload \<Rightarrow> captchaTokenFromVKResponse C payload)
      | _ \<Rightarrow> [])"

lemma read_response_shorter: "read_response i ms = (r, rest) \<Longrightarrow> length rest \<le> length ms"
  by (induction ms) (auto split: option.splits prod.splits if_splits intro: le_SucI)

text \<open>
  The watch over the events: \<open>pending\<close> are the checks whose bodies are not there yet. Reading a body is a
  call of its own on the same connection; the calls are recorded, with their identifiers and the requests
  they ask for (\<open>Network.getResponseBody\<close> with \<open>requestId\<close>). \<open>None\<close> is the end of the connection or of
  the wait.
\<close>

function watch ::
  "captcha_world \<Rightarrow> int \<Rightarrow> string list \<Rightarrow> cdp_message list \<Rightarrow> string option \<times> (int \<times> string) list" where
  "watch C i pending ms =
     (case ms of
        [] \<Rightarrow> (None, [])
      | m # ms \<Rightarrow>
          (case cmEvent m of
             None \<Rightarrow> watch C i pending ms
           | Some (method, request, url) \<Rightarrow>
               if request = [] then watch C i pending ms
               else if method = ''Network.responseReceived'' then
                 watch C i (if isCaptchaCheckEndpoint C url then request # pending else pending) ms
               else if method = ''Network.loadingFailed'' then watch C i (removeAll request pending) ms
               else if method = ''Network.loadingFinished'' \<and> request \<in> set pending then
                 (let answer = read_response (i + 1) ms; t = (case fst answer of Inl e \<Rightarrow> [] | Inr j \<Rightarrow> body_token C j)
                  in if t \<noteq> [] then (Some t, [(i + 1, request)])
                     else (let (res, calls) = watch C (i + 1) (removeAll request pending) (snd answer)
                           in (res, (i + 1, request) # calls)))
               else watch C i pending ms))"
  by pat_completeness auto
termination
proof (relation "measure (\<lambda>(C, i, pending, ms). length ms)", goal_cases)
  case (6 C i pending ms x21 x22 x2 a b aa ba answer t)
  then show ?case
    using read_response_shorter [of "i + 1" x22 "fst answer" "snd answer"] by simp
qed simp_all

declare watch.simps [simp del]

definition solveVKCaptchaInBrowser ::
  "captcha_world \<Rightarrow> string \<Rightarrow> string option \<Rightarrow> int \<Rightarrow> cdp_message list \<Rightarrow>
     (string + string) \<times> (int \<times> string) list" where
  "solveVKCaptchaInBrowser C url started i ms =
     (case cwURL C url of
        None \<Rightarrow> (Inl msg_bad_captcha, [])
      | Some u \<Rightarrow>
          if Scheme u \<noteq> ''https'' \<or> \<not> isOfficialVKHost (Hostname u) then (Inl msg_bad_captcha, [])
          else (case started of Some e \<Rightarrow> (Inl e, [])
            | None \<Rightarrow>
                (case watch C i [] ms of
                   (Some t, calls) \<Rightarrow> (Inr t, calls) | (None, calls) \<Rightarrow> (Inl msg_edge_gone, calls))))"

section \<open>The login\<close>

definition msg_login_closed :: string where
  "msg_login_closed = utf8 [208, 190, 208, 186, 208, 189, 208, 190, 32, 208, 176, 208, 178, 209, 130, 208,
     190, 209, 128, 208, 184, 208, 183, 208, 176, 209, 134, 208, 184, 208, 184, 32, 86, 75, 32, 208, 183,
     208, 176, 208, 186, 209, 128, 209, 139, 209, 130, 208, 190]"

definition msg_login_limited :: string where
  "msg_login_limited = utf8 [86, 75, 32, 208, 178, 209, 128, 208, 181, 208, 188, 208, 181, 208, 189, 208,
     189, 208, 190, 32, 208, 190, 208, 179, 209, 128, 208, 176, 208, 189, 208, 184, 209, 135, 208, 184, 208,
     187, 32, 208, 178, 209, 133, 208, 190, 208, 180, 58, 32, 209, 129, 208, 187, 208, 184, 209, 136, 208,
     186, 208, 190, 208, 188, 32, 208, 188, 208, 189, 208, 190, 208, 179, 208, 190, 32, 208, 191, 208, 190,
     208, 191, 209, 139, 209, 130, 208, 190, 208, 186, 46, 32, 208, 159, 208, 190, 208, 191, 209, 128, 208,
     190, 208, 177, 209, 131, 208, 185, 209, 130, 208, 181, 32, 208, 191, 208, 190, 208, 183, 208, 182, 208,
     181, 59, 32, 80, 87, 68, 84, 84, 32, 208, 189, 208, 181, 32, 208, 177, 209, 131, 208, 180, 208, 181,
     209, 130, 32, 208, 191, 208, 190, 208, 178, 209, 130, 208, 190, 209, 128, 209, 143, 209, 130, 209, 140,
     32, 208, 178, 209, 133, 208, 190, 208, 180, 32, 208, 176, 208, 178, 209, 130, 208, 190, 208, 188, 208,
     176, 209, 130, 208, 184, 209, 135, 208, 181, 209, 129, 208, 186, 208, 184]"

definition msg_unknown_method :: string where
  "msg_unknown_method = utf8 [86, 75, 32, 73, 68, 32, 208, 178, 208, 181, 209, 128, 208, 189, 209, 131, 208,
     187, 32, 85, 110, 107, 110, 111, 119, 110, 32, 109, 101, 116, 104, 111, 100, 32, 112, 97, 115, 115,
     101, 100]"

definition msg_three_refused :: string where
  "msg_three_refused = utf8 [86, 75, 32, 73, 68, 32, 208, 190, 209, 130, 208, 186, 208, 187, 208, 190, 208,
     189, 208, 184, 208, 187, 32, 208, 178, 209, 129, 208, 181, 32, 209, 130, 209, 128, 208, 184, 32, 208,
     178, 208, 176, 209, 128, 208, 184, 208, 176, 208, 189, 209, 130, 208, 176, 32, 208, 178, 209, 133, 208,
     190, 208, 180, 208, 176, 58, 32, 85, 110, 107, 110, 111, 119, 110, 32, 109, 101, 116, 104, 111, 100,
     32, 112, 97, 115, 115, 101, 100]"

definition msg_no_clear :: string where
  "msg_no_clear = utf8 [208, 189, 208, 181, 32, 209, 131, 208, 180, 208, 176, 208, 187, 208, 190, 209, 129,
     209, 140, 32, 208, 190, 209, 135, 208, 184, 209, 129, 209, 130, 208, 184, 209, 130, 209, 140, 32, 86,
     75, 45, 209, 129, 208, 181, 209, 129, 209, 129, 208, 184, 209, 142, 32, 208, 191, 208, 181, 209, 128,
     208, 181, 208, 180, 32, 208, 191, 208, 190, 208, 178, 209, 130, 208, 190, 209, 128, 208, 190, 208, 188,
     58, 32]"

text \<open>One poll of the window: no state (and whether the window is gone), or its address, its text and what
  the cookies say.\<close>

datatype login_poll = LoginNoState bool | LoginState string string "bool option"

text \<open>Whether to try again, and the error; the polls end with the context.\<close>

fun waitForLegacyVKSession :: "login_poll list \<Rightarrow> bool \<times> goerr option" where
  "waitForLegacyVKSession [] = (False, Some Canceled)"
| "waitForLegacyVKSession (LoginNoState gone # ps) =
     (if gone then (False, Some (Plain msg_login_closed)) else waitForLegacyVKSession ps)"
| "waitForLegacyVKSession (LoginState url body has # ps) =
     (if isVKLoginRateLimitedText body then (False, Some (Plain msg_login_limited))
      else if contains ''unknown method'' (to_lower body) then (True, Some (Plain msg_unknown_method))
      else if has \<noteq> Some True then waitForLegacyVKSession ps
      else if isLegacyVKIDLoginFlow url then waitForLegacyVKSession ps
      else (False, None))"

definition vkLegacyMobileUserAgent :: string where
  "vkLegacyMobileUserAgent = ''Mozilla/5.0 (Linux; Android 14; K; wv) AppleWebKit/537.36 (KHTML, like Gecko) '' @
     ''Version/4.0 Chrome/131.0.0.0 Mobile Safari/537.36''"

definition vkLegacyDesktopUserAgent :: string where
  "vkLegacyDesktopUserAgent = ''Mozilla/5.0 (Windows NT 10.0; Win64; x64) AppleWebKit/537.36 '' @
     ''(KHTML, like Gecko) Chrome/131.0.0.0 Safari/537.36''"

text \<open>
  The attempts: what the machine does in each (an error of the clearing, of the start of the window, and
  the polls), and what was done, in order.
\<close>

datatype login_act = ClearedProfile | OpenedWindow string string | ClosedWindow

definition login_agent :: "nat \<Rightarrow> string" where
  "login_agent attempt = (if attempt \<ge> 2 then vkLegacyDesktopUserAgent else vkLegacyMobileUserAgent)"

fun login_attempts ::
  "(nat \<Rightarrow> goerr option \<times> goerr option \<times> login_poll list) \<Rightarrow> nat \<Rightarrow> nat \<Rightarrow> goerr option \<times> login_act list" where
  "login_attempts W attempt 0 = (Some (Plain msg_three_refused), [])"
| "login_attempts W attempt (Suc n) =
     (let (clear, start, polls) = W attempt; cleared = (if attempt > 0 then [ClearedProfile] else [])
      in if attempt > 0 \<and> clear \<noteq> None then (Some (Wrapf msg_no_clear (the clear) []), [])
         else (case start of
             Some e \<Rightarrow> (Some e, cleared)
           | None \<Rightarrow>
               (let (retry, err) = waitForLegacyVKSession polls;
                    done = cleared @ [OpenedWindow (legacyVKLoginStartURL attempt) (login_agent attempt), ClosedWindow]
                in if err = None then (None, done)
                   else if \<not> retry then (err, done)
                   else (let (r, acts) = login_attempts W (attempt + 1) n in (r, done @ acts)))))"

definition loginLegacyVKSessionInWebView ::
  "(nat \<Rightarrow> goerr option \<times> goerr option \<times> login_poll list) \<Rightarrow> goerr option \<times> login_act list" where
  "loginLegacyVKSessionInWebView W = login_attempts W 0 3"

section \<open>Lemmas\<close>

text \<open>A request was announced as a check at an official address of VK.\<close>

definition announced_check :: "captcha_world \<Rightarrow> cdp_message list \<Rightarrow> string \<Rightarrow> bool" where
  "announced_check C ms rid \<longleftrightarrow>
     (\<exists>m \<in> set ms. \<exists>url. cmEvent m = Some (''Network.responseReceived'', rid, url) \<and> isCaptchaCheckEndpoint C url)"

text \<open>
  Where a token comes from, in the order of the messages: a check \<open>rid\<close>, announced before (or already
  among \<open>pending\<close>), finishes; then comes the first response to call \<open>j\<close>, without an error, and its body is
  that of an accepted check with the token.
\<close>

definition token_comes_from ::
  "captcha_world \<Rightarrow> string list \<Rightarrow> cdp_message list \<Rightarrow> string \<Rightarrow> int \<Rightarrow> string \<Rightarrow> bool" where
  "token_comes_from C pending ms rid j t \<longleftrightarrow>
     (\<exists>before finish between response after url res.
        ms = before @ finish # between @ response # after \<and>
        (rid \<in> set pending \<or> announced_check C before rid) \<and>
        cmEvent finish = Some (''Network.loadingFinished'', rid, url) \<and>
        (\<forall>m \<in> set between. \<forall>x. cmResponse m \<noteq> Some (j, x)) \<and>
        cmResponse response = Some (j, None, res) \<and> body_token C res = t)"

lemma token_later:
  assumes "token_comes_from C pending rest rid j t" "ms = skipped @ rest"
    and "\<And>x. x \<in> set pending \<Longrightarrow> x \<in> set pending' \<or> announced_check C skipped x"
  shows "token_comes_from C pending' ms rid j t"
proof -
  obtain before finish between response after url res where
    "rest = before @ finish # between @ response # after" "rid \<in> set pending \<or> announced_check C before rid"
    "cmEvent finish = Some (''Network.loadingFinished'', rid, url)" "\<forall>m \<in> set between. \<forall>x. cmResponse m \<noteq> Some (j, x)"
    "cmResponse response = Some (j, None, res)" "body_token C res = t"
    using assms(1) unfolding token_comes_from_def by blast
  moreover from this(2) have "rid \<in> set pending' \<or> announced_check C (skipped @ before) rid"
    using assms(3) by (auto simp: announced_check_def)
  ultimately show ?thesis
    unfolding token_comes_from_def assms(2)
    by (intro exI [of _ "skipped @ before"] exI [of _ finish] exI [of _ between] exI [of _ response] exI [of _ after]
        exI [of _ url] exI [of _ res]) simp
qed

text \<open>What a call reads is the first response with its identifier.\<close>

lemma read_response_first:
  "read_response i ms = (r, rest) \<Longrightarrow>
     (\<exists>read. ms = read @ rest) \<and>
     (\<forall>res. r = Inr res \<longrightarrow> (\<exists>between m. ms = between @ m # rest \<and> cmResponse m = Some (i, None, res) \<and>
        (\<forall>m \<in> set between. \<forall>x. cmResponse m \<noteq> Some (i, x))))"
proof (induction ms)
  case (Cons m ms)
  show ?case
  proof (cases "\<exists>x. cmResponse m = Some (i, x)")
    case True
    then obtain err res where m: "cmResponse m = Some (i, err, res)" by auto
    then have "rest = ms" "r = (case err of Some e \<Rightarrow> Inl (CdpError e) | None \<Rightarrow> Inr res)"
      using Cons.prems by (auto split: option.splits)
    then show ?thesis
      using m by (auto split: option.splits intro!: exI [of _ "[]"] exI [of _ "[m]"])
  next
    case False
    then have "read_response i ms = (r, rest)"
      using Cons.prems by (auto split: option.splits prod.splits if_splits)
    then obtain rd where s: "ms = rd @ rest"
      and f: "\<And>res. r = Inr res \<Longrightarrow> \<exists>between m'. ms = between @ m' # rest \<and> cmResponse m' = Some (i, None, res) \<and>
        (\<forall>m \<in> set between. \<forall>x. cmResponse m \<noteq> Some (i, x))"
      using Cons.IH by blast
    have "\<exists>between m'. m # ms = between @ m' # rest \<and> cmResponse m' = Some (i, None, res) \<and>
        (\<forall>m \<in> set between. \<forall>x. cmResponse m \<noteq> Some (i, x))" if res: "r = Inr res" for res
    proof -
      obtain between m' where "ms = between @ m' # rest" "cmResponse m' = Some (i, None, res)"
        "\<forall>m \<in> set between. \<forall>x. cmResponse m \<noteq> Some (i, x)"
        using f [OF res] by blast
      then show ?thesis
        using False by (intro exI [of _ "m # between"] exI [of _ m']) auto
    qed
    moreover have "\<exists>read. m # ms = read @ rest"
      using s by (intro exI [of _ "m # rd"]) simp
    ultimately show ?thesis by blast
  qed
qed auto

lemma watch_token:
  "watch C i pending ms = (Some t, calls) \<Longrightarrow>
   \<exists>rid j. t \<noteq> [] \<and> calls \<noteq> [] \<and> last calls = (j, rid) \<and> token_comes_from C pending ms rid j t"
proof (induction ms arbitrary: i pending calls rule: length_induct)
  case (1 ms)
  note ih = 1(1) [rule_format]
  show ?case
  proof (cases ms)
    case Nil
    then show ?thesis using 1(2) by (simp add: watch.simps)
  next
    case (Cons m rest)
    have later: ?thesis
      if "watch C i' p' rest' = (Some t, calls')" "calls = cs @ calls'" "m # rest = skipped @ rest'" "skipped \<noteq> []"
        "\<And>x. x \<in> set p' \<Longrightarrow> x \<in> set pending \<or> announced_check C skipped x" for i' p' rest' calls' cs skipped
    proof -
      have "length rest' < length ms"
        using that(3,4) Cons by (metis length_append length_greater_0_conv less_add_same_cancel2)
      from ih [OF this that(1)] obtain rid j where "t \<noteq> []" "calls' \<noteq> []" "last calls' = (j, rid)"
        "token_comes_from C p' rest' rid j t"
        by blast
      then show ?thesis
        using token_later [of C p' rest' rid j t ms skipped pending] that Cons by auto
    qed
    note next_step = later [where cs = "[]" and skipped = "[m]", simplified]
    show ?thesis
    proof (cases "cmEvent m")
      case None
      then show ?thesis using next_step 1(2) Cons by (auto simp: watch.simps [of C i pending "m # rest"])
    next
      case (Some e)
      obtain name request url where e: "e = (name, request, url)" by (rule prod_cases3)
      have ann: "announced_check C [m] request" if "name = ''Network.responseReceived''" "isCaptchaCheckEndpoint C url"
        using Some e that unfolding announced_check_def by auto
      show ?thesis
      proof (cases "request \<noteq> [] \<and> name = ''Network.loadingFinished'' \<and> request \<in> set pending")
        case False
        then have "\<exists>p'. watch C i p' rest = (Some t, calls) \<and>
            (\<forall>x. x \<in> set p' \<longrightarrow> x \<in> set pending \<or> announced_check C [m] x)"
          using 1(2) Cons Some e ann by (auto simp: watch.simps [of C i pending "m # rest"] split: if_splits)
        then show ?thesis using next_step by blast
      next
        case True
        obtain r rest' where a: "read_response (i + 1) rest = (r, rest')" by fastforce
        define tok where "tok = (case r of Inl e \<Rightarrow> [] | Inr j \<Rightarrow> body_token C j)"
        note first = read_response_first [OF a]
        show ?thesis
        proof (cases "tok = []")
          case False
          then have t: "t = tok" "calls = [(i + 1, request)]"
            using 1(2) Cons Some e True a by (simp_all add: watch.simps [of C i pending "m # rest"] tok_def)
          obtain res where r: "r = Inr res" using False by (auto simp: tok_def split: sum.splits)
          then obtain between m' where "rest = between @ m' # rest'" "cmResponse m' = Some (i + 1, None, res)"
            "\<forall>m \<in> set between. \<forall>x. cmResponse m \<noteq> Some (i + 1, x)"
            using first by blast
          then have "token_comes_from C pending ms request (i + 1) t"
            unfolding token_comes_from_def using Cons Some e True t r
            by (intro exI [of _ "[]"] exI [of _ m] exI [of _ between] exI [of _ m'] exI [of _ rest'] exI [of _ url]
                exI [of _ res]) (simp add: tok_def)
          then show ?thesis using t False by auto
        next
          case t: True
          obtain calls' where w: "watch C (i + 1) (removeAll request pending) rest' = (Some t, calls')"
            "calls = [(i + 1, request)] @ calls'"
            using 1(2) Cons Some e True a t
            by (auto simp: watch.simps [of C i pending "m # rest"] tok_def split: prod.splits)
          obtain rd where "rest = rd @ rest'" using first by blast
          then show ?thesis
            using later [OF w, of "m # rd"] by auto
        qed
      qed
    qed
  qed
qed

text \<open>What a call reads over on the way to its response is lost, events included.\<close>

lemma calls_drop_events:
  assumes "\<And>m. m \<in> set evs \<Longrightarrow> cmResponse m = None \<or> (\<exists>j x. cmResponse m = Some (j, x) \<and> j \<noteq> i)"
  shows "read_response i (evs @ ms) = read_response i ms"
  using assms by (induction evs) (fastforce split: option.split)+

lemma wait_success:
  "waitForLegacyVKSession ps = (b, None) \<Longrightarrow>
   \<exists>url body. LoginState url body (Some True) \<in> set ps \<and> \<not> isVKLoginRateLimitedText body \<and> \<not> isLegacyVKIDLoginFlow url"
  by (induction ps rule: waitForLegacyVKSession.induct) (auto split: if_splits)

lemma wait_retry:
  "waitForLegacyVKSession ps = (True, e) \<Longrightarrow>
   \<exists>url body has. LoginState url body has \<in> set ps \<and> contains ''unknown method'' (to_lower body)"
  by (induction ps rule: waitForLegacyVKSession.induct) (auto split: if_splits)

text \<open>What one attempt does.\<close>

definition attempt_acts :: "nat \<Rightarrow> login_act list" where
  "attempt_acts k = (if k > 0 then [ClearedProfile] else []) @
     [OpenedWindow (legacyVKLoginStartURL k) (login_agent k), ClosedWindow]"

definition login_seen :: "login_poll list \<Rightarrow> bool" where
  "login_seen ps \<longleftrightarrow> (\<exists>url body. LoginState url body (Some True) \<in> set ps \<and> \<not> isVKLoginRateLimitedText body \<and>
     \<not> isLegacyVKIDLoginFlow url)"

definition refused_method :: "login_poll list \<Rightarrow> bool" where
  "refused_method ps \<longleftrightarrow> (\<exists>url body has. LoginState url body has \<in> set ps \<and> contains ''unknown method'' (to_lower body))"

lemma login_attempts_acts:
  "login_attempts W a n = (r, acts) \<Longrightarrow>
   \<exists>k tail. a \<le> k \<and> k \<le> a + n \<and> acts = concat (map attempt_acts [a..<k]) @ tail \<and> tail \<in> {[], [ClearedProfile]} \<and>
     (\<forall>j. a \<le> j \<and> Suc j < k \<longrightarrow> refused_method (snd (snd (W j)))) \<and>
     (r = None \<longrightarrow> a < k \<and> tail = [] \<and> login_seen (snd (snd (W (k - 1)))))"
proof (induction n arbitrary: a acts)
  case 0
  then show ?case by (intro exI [of _ a] exI [of _ "[]"]) auto
next
  case (Suc n)
  obtain clear start polls where w: "W a = (clear, start, polls)" by (rule prod_cases3)
  obtain retry err where r: "waitForLegacyVKSession polls = (retry, err)" by fastforce
  let ?cleared = "if a > 0 then [ClearedProfile] else []"
  consider (no_window) "r \<noteq> None" "acts = [] \<or> acts = ?cleared"
    | (last) "acts = attempt_acts a" "r = None \<longrightarrow> err = None"
    | (retry) acts' where "retry" "login_attempts W (Suc a) n = (r, acts')" "acts = attempt_acts a @ acts'"
    using Suc.prems w r by (auto simp: attempt_acts_def Let_def split: if_splits option.splits prod.splits)
  then show ?case
  proof cases
    case no_window
    then show ?thesis by (intro exI [of _ a] exI [of _ acts]) (auto split: if_splits)
  next
    case last
    have "r = None \<longrightarrow> login_seen polls"
      using wait_success r last(2) by (auto simp: login_seen_def)
    then show ?thesis
      using last w by (intro exI [of _ "Suc a"] exI [of _ "[]"]) auto
  next
    case retry
    obtain k tail where k: "Suc a \<le> k" "k \<le> Suc a + n" "acts' = concat (map attempt_acts [Suc a..<k]) @ tail"
      "tail \<in> {[], [ClearedProfile]}" "\<And>j. Suc a \<le> j \<and> Suc j < k \<Longrightarrow> refused_method (snd (snd (W j)))"
      "r = None \<longrightarrow> Suc a < k \<and> tail = [] \<and> login_seen (snd (snd (W (k - 1))))"
      using Suc.IH [OF retry(2)] by blast
    have "refused_method polls"
      using wait_retry r retry(1) by (simp add: refused_method_def)
    then have "refused_method (snd (snd (W j)))" if "a \<le> j" "Suc j < k" for j
      using that w k(5) [of j] by (cases "j = a") auto
    moreover have "[a..<k] = a # [Suc a..<k]"
      using k(1) by (simp add: upt_conv_Cons)
    ultimately show ?thesis
      using k retry(3) by (intro exI [of _ k] exI [of _ tail]) auto
  qed
qed

section \<open>Properties\<close>

text \<open>Property C10 (safety). A token that the captcha window gives comes from VK: the challenge was on an
  https address of VK; a request of the page to the check endpoint of VK was announced and has finished
  after that; then its body, and that of no other request, was asked for with the last call; and the first
  response to this call after the request had finished carries the token, which is not empty, with status
  ok. No other page, request or message of the window can put one in.\<close>

theorem captcha_token_is_of_vk:
  assumes "solveVKCaptchaInBrowser C url started i ms = (Inr t, calls)"
  shows "(\<exists>u. cwURL C url = Some u \<and> Scheme u = ''https'' \<and> isOfficialVKHost (Hostname u)) \<and>
    (\<exists>rid j before finish between response after furl res.
       t \<noteq> [] \<and> calls \<noteq> [] \<and> last calls = (j, rid) \<and>
       ms = before @ finish # between @ response # after \<and>
       announced_check C before rid \<and>
       cmEvent finish = Some (''Network.loadingFinished'', rid, furl) \<and>
       (\<forall>m \<in> set between. \<forall>x. cmResponse m \<noteq> Some (j, x)) \<and>
       cmResponse response = Some (j, None, res) \<and> body_token C res = t)"
proof -
  have w: "watch C i [] ms = (Some t, calls)"
    and u: "\<exists>u. cwURL C url = Some u \<and> Scheme u = ''https'' \<and> isOfficialVKHost (Hostname u)"
    using assms by (auto simp: solveVKCaptchaInBrowser_def split: option.splits if_splits prod.splits)
  obtain rid j where "t \<noteq> []" "calls \<noteq> []" "last calls = (j, rid)" "token_comes_from C [] ms rid j t"
    using watch_token [OF w] by blast
  then show ?thesis
    using u unfolding token_comes_from_def by auto
qed

definition demo_event :: "string \<Rightarrow> string \<Rightarrow> cdp_message" where
  "demo_event method request = \<lparr>cmResponse = None, cmEvent = Some (method, request, ''c'')\<rparr>"

definition demo_answer :: "int \<Rightarrow> string \<Rightarrow> cdp_message" where
  "demo_answer i body = \<lparr>cmResponse = Some (i, None, JObj [(''body'', JStr body)]), cmEvent = None\<rparr>"

definition demo_captcha :: captcha_world where
  "demo_captcha = \<lparr>cwURL = (\<lambda>u. Some \<lparr>Scheme = ''https'', Host = ''id.vk.ru'', Hostname = ''id.vk.ru'', EscapedPath = [],
       Path = ''/method/captchaNotRobot.check''\<rparr>),
     cwJson = (\<lambda>s. Some (JObj [(''response'', JObj [(''status'', JStr s), (''success_token'', JStr ''tok'')])]))\<rparr>"

lemma demo_texts:
  "isCaptchaCheckEndpoint demo_captcha u" "body_token demo_captcha (JObj [(''body'', JStr ''ok'')]) = ''tok''"
  "body_token demo_captcha (JObj [(''body'', JStr ''no'')]) = []" "isOfficialVKHost ''id.vk.ru''"
proof -
  show h: "isOfficialVKHost ''id.vk.ru''" by code_simp
  have "has_suffix ''/captchaNotRobot.check'' ''/method/captchaNotRobot.check''" by code_simp
  then show "isCaptchaCheckEndpoint demo_captcha u"
    by (simp add: isCaptchaCheckEndpoint_def demo_captcha_def h)
  show "body_token demo_captcha (JObj [(''body'', JStr ''ok'')]) = ''tok''" by code_simp
  show "body_token demo_captcha (JObj [(''body'', JStr ''no'')]) = []" by code_simp
qed

text \<open>A rejected check \<open>a\<close>, then an accepted one, \<open>b\<close>.\<close>

theorem captcha_token_is_of_vk_witness:
  "\<exists>rid j. last [(1 :: int, ''a''), (2, ''b'')] = (j, rid) \<and>
     solveVKCaptchaInBrowser demo_captcha ''c'' None 0
       [demo_event ''Network.responseReceived'' ''a'', demo_event ''Network.loadingFinished'' ''a'', demo_answer 1 ''no'',
        demo_event ''Network.responseReceived'' ''b'', demo_event ''Network.loadingFinished'' ''b'', demo_answer 2 ''ok'']
       = (Inr ''tok'', [(1, ''a''), (j, rid)]) \<and> (\<exists>res. body_token demo_captcha res = ''tok'')"
proof -
  let ?ms = "[demo_event ''Network.responseReceived'' ''a'', demo_event ''Network.loadingFinished'' ''a'', demo_answer 1 ''no'',
        demo_event ''Network.responseReceived'' ''b'', demo_event ''Network.loadingFinished'' ''b'', demo_answer 2 ''ok'']"
  have "watch demo_captcha 0 [] ?ms = (Some ''tok'', [(1, ''a''), (2, ''b'')])"
    by (simp add: watch.simps demo_event_def demo_answer_def demo_texts)
  then have s: "solveVKCaptchaInBrowser demo_captcha ''c'' None 0 ?ms = (Inr ''tok'', [(1, ''a''), (2, ''b'')])"
    using demo_texts(4) by (simp add: solveVKCaptchaInBrowser_def demo_captcha_def)
  then show ?thesis
    using captcha_token_is_of_vk [OF s] by auto
qed

text \<open>A check that finishes while the body of an earlier one is being read is never looked at.\<close>

lemma second_check_is_lost:
  "watch demo_captcha 0 [] [demo_event ''Network.responseReceived'' ''a'', demo_event ''Network.responseReceived'' ''b'',
     demo_event ''Network.loadingFinished'' ''a'', demo_event ''Network.loadingFinished'' ''b'',
     demo_answer 1 ''no'', demo_answer 2 ''ok''] = (None, [(1, ''a'')])"
  by (simp add: watch.simps demo_event_def demo_answer_def demo_texts)

text \<open>Property C36 (safety). However a login ends, it has opened at most three windows, at the addresses and
  with the user agents of the attempts in their order, each closed before anything else is done, with
  the profile cleared before every one but the first; every window but the last was refused with an
  unknown method. A login that succeeds has seen, in its last window, cookies that hold a session while
  the page was neither a form of the VK ID login nor a refusal for too many attempts.\<close>

theorem login_needs_a_session:
  assumes "loginLegacyVKSessionInWebView W = (r, acts)"
  shows "\<exists>k \<le> 3. \<exists>tail \<in> {[], [ClearedProfile]}.
    acts = concat (map (\<lambda>a. (if a > 0 then [ClearedProfile] else []) @
      [OpenedWindow (legacyVKLoginStartURL a) (login_agent a), ClosedWindow]) [0..<k]) @ tail \<and>
    (\<forall>j. Suc j < k \<longrightarrow> refused_method (snd (snd (W j)))) \<and>
    (r = None \<longrightarrow> 0 < k \<and> tail = [] \<and> login_seen (snd (snd (W (k - 1)))))"
  using login_attempts_acts [OF assms [unfolded loginLegacyVKSessionInWebView_def]]
  unfolding attempt_acts_def [abs_def] by auto

definition demo_login :: "nat \<Rightarrow> goerr option \<times> goerr option \<times> login_poll list" where
  "demo_login k = (None, None, if k = 0 then [LoginState [] ''Unknown method'' None] else [LoginState ''x'' ''y'' (Some True)])"

theorem login_needs_a_session_witness:
  "(\<exists>acts k. loginLegacyVKSessionInWebView demo_login = (None, acts) \<and> 0 < k \<and> k \<le> 3 \<and>
     login_seen (snd (snd (demo_login (k - 1))))) \<and>
   (\<exists>k \<le> 3. \<exists>tail \<in> {[], [ClearedProfile]}. [OpenedWindow (legacyVKLoginStartURL 0) (login_agent 0), ClosedWindow] =
     concat (map (\<lambda>a. (if a > 0 then [ClearedProfile] else []) @
      [OpenedWindow (legacyVKLoginStartURL a) (login_agent a), ClosedWindow]) [0..<k]) @ tail)"
proof -
  have l: "\<not> isVKLoginRateLimitedText ''Unknown method''" "\<not> isVKLoginRateLimitedText ''y''"
    by (rule ascii_not_limited; code_simp)+
  have e: "contains ''unknown method'' (to_lower ''Unknown method'')"
    "\<not> contains ''unknown method'' (to_lower ''y'')" "\<not> isLegacyVKIDLoginFlow ''x''"
    by code_simp+
  obtain acts where s: "loginLegacyVKSessionInWebView demo_login = (None, acts)"
    by (simp add: loginLegacyVKSessionInWebView_def numeral_3_eq_3 demo_login_def l e Let_def del: to_lower_ascii)
  have f: "loginLegacyVKSessionInWebView (\<lambda>k. (None, None, [LoginNoState True])) =
      (Some (Plain msg_login_closed), [OpenedWindow (legacyVKLoginStartURL 0) (login_agent 0), ClosedWindow])"
    by (simp add: loginLegacyVKSessionInWebView_def numeral_3_eq_3)
  show ?thesis
    using login_needs_a_session [OF s] login_needs_a_session [OF f] s by blast
qed

end
