(* ===== verification/VkAccount.thy ===== *)
theory VkAccount
  imports VkWindow HashRegistry
begin

text \<open>
  The VK account of the application on Windows: the helper process that runs the browser and hands its
  result over on the standard output (\<open>backend/vk_helper_windows.go\<close>), and the saved session with login,
  logout and the token for new hashes (\<open>backend/vk_app_windows.go\<close>). The JSON of an answer and the
  protection of the saved file (DPAPI) are arguments or results of their calls.
\<close>

section \<open>Lines\<close>

text \<open>\<open>bufio.Scanner\<close>: the lines up to one that does not fit into its buffer of 64 KiB.\<close>

definition scan_limit :: nat where "scan_limit = 64 * 1024"

definition strip_cr :: "string \<Rightarrow> string" where
  "strip_cr l = (if l \<noteq> [] \<and> last l = CHR 13 then butlast l else l)"

fun upto_long :: "string list \<Rightarrow> string list \<times> bool" where
  "upto_long [] = ([], True)"
| "upto_long (l # ls) =
     (if scan_limit \<le> length l then ([], False) else (let (r, ok) = upto_long ls in (strip_cr l # r, ok)))"

definition helper_lines :: "string \<Rightarrow> string list \<times> bool" where
  "helper_lines s =
     (let ls = split_on CHR 10 s in upto_long (if last ls = [] then butlast ls else ls))"

section \<open>The answer of the helper\<close>

record helper_response =
  hrAccessToken :: string
  hrExpiresIn :: int
  hrError :: string

definition no_response :: helper_response where
  "no_response = \<lparr>hrAccessToken = [], hrExpiresIn = 0, hrError = []\<rparr>"

definition result_prefix :: string where "result_prefix = ''PWDTT_VK_AUTH_RESULT:''"
definition error_prefix :: string where "error_prefix = ''PWDTT_VK_AUTH_ERROR:''"

text \<open>\<open>base64.RawStdEncoding\<close>: without padding.\<close>

definition raw_encode :: "string \<Rightarrow> string" where
  "raw_encode s = takeWhile (\<lambda>c. c \<noteq> CHR ''='') (b64_encode s)"

definition raw_decode :: "string \<Rightarrow> string option" where
  "raw_decode s =
     (let s = filter (\<lambda>c. c \<noteq> CHR 13 \<and> c \<noteq> CHR 10) s
      in if CHR ''='' \<in> set s then None
         else b64_quanta (s @ replicate ((4 - length s mod 4) mod 4) CHR ''=''))"

record codec =
  cdEncode :: "helper_response \<Rightarrow> string"
  cdDecode :: "string \<Rightarrow> helper_response option"

definition helper_output :: "codec \<Rightarrow> helper_response \<Rightarrow> string" where
  "helper_output J r = result_prefix @ raw_encode (cdEncode J r) @ [CHR 10]"

definition prefixed_line :: "string \<Rightarrow> string \<Rightarrow> string \<Rightarrow> string" where
  "prefixed_line p found l =
     (let l = trim_space l in if has_prefix p l then trim_space (trim_prefix p l) else found)"

definition msg_not_read :: string where
  "msg_not_read = utf8 [208, 189, 208, 181, 32, 209, 131, 208, 180, 208, 176, 208, 187, 208, 190, 209, 129,
     209, 140, 32, 208, 191, 209, 128, 208, 190, 209, 135, 208, 184, 209, 130, 208, 176, 209, 130, 209, 140,
     32, 208, 190, 209, 130, 208, 178, 208, 181, 209, 130, 32, 208, 190, 208, 186, 208, 189, 208, 176, 32,
     208, 176, 208, 178, 209, 130, 208, 190, 209, 128, 208, 184, 208, 183, 208, 176, 209, 134, 208, 184,
     208, 184, 32, 86, 75]"

definition msg_no_result :: string where
  "msg_no_result = utf8 [208, 190, 208, 186, 208, 189, 208, 190, 32, 208, 176, 208, 178, 209, 130, 208, 190,
     209, 128, 208, 184, 208, 183, 208, 176, 209, 134, 208, 184, 208, 184, 32, 86, 75, 32, 208, 189, 208,
     181, 32, 208, 178, 208, 181, 209, 128, 208, 189, 209, 131, 208, 187, 208, 190, 32, 209, 128, 208, 181,
     208, 183, 209, 131, 208, 187, 209, 140, 209, 130, 208, 176, 209, 130]"

definition msg_damaged :: string where
  "msg_damaged = utf8 [208, 190, 208, 186, 208, 189, 208, 190, 32, 208, 176, 208, 178, 209, 130, 208, 190,
     209, 128, 208, 184, 208, 183, 208, 176, 209, 134, 208, 184, 208, 184, 32, 86, 75, 32, 208, 178, 208,
     181, 209, 128, 208, 189, 209, 131, 208, 187, 208, 190, 32, 208, 191, 208, 190, 208, 178, 209, 128, 208,
     181, 208, 182, 208, 180, 209, 145, 208, 189, 208, 189, 209, 139, 208, 185, 32, 209, 128, 208, 181, 208,
     183, 209, 131, 208, 187, 209, 140, 209, 130, 208, 176, 209, 130]"

definition msg_incorrect :: string where
  "msg_incorrect = utf8 [208, 190, 208, 186, 208, 189, 208, 190, 32, 208, 176, 208, 178, 209, 130, 208, 190,
     209, 128, 208, 184, 208, 183, 208, 176, 209, 134, 208, 184, 208, 184, 32, 86, 75, 32, 208, 178, 208,
     181, 209, 128, 208, 189, 209, 131, 208, 187, 208, 190, 32, 208, 189, 208, 181, 208, 186, 208, 190, 209,
     128, 209, 128, 208, 181, 208, 186, 209, 130, 208, 189, 209, 139, 208, 185, 32, 209, 128, 208, 181, 208,
     183, 209, 131, 208, 187, 209, 140, 209, 130, 208, 176, 209, 130]"

definition msg_crashed :: string where
  "msg_crashed = utf8 [208, 190, 208, 186, 208, 189, 208, 190, 32, 208, 176, 208, 178, 209, 130, 208, 190,
     209, 128, 208, 184, 208, 183, 208, 176, 209, 134, 208, 184, 208, 184, 32, 86, 75, 32, 208, 176, 208,
     178, 208, 176, 209, 128, 208, 184, 208, 185, 208, 189, 208, 190, 32, 208, 183, 208, 176, 208, 178, 208,
     181, 209, 128, 209, 136, 208, 184, 208, 187, 208, 190, 209, 129, 209, 140, 58, 32]"

definition msg_crashed_with :: string where
  "msg_crashed_with = utf8 [208, 190, 208, 186, 208, 189, 208, 190, 32, 208, 176, 208, 178, 209, 130, 208,
     190, 209, 128, 208, 184, 208, 183, 208, 176, 209, 134, 208, 184, 208, 184, 32, 86, 75, 32, 208, 176,
     208, 178, 208, 176, 209, 128, 208, 184, 208, 185, 208, 189, 208, 190, 32, 208, 183, 208, 176, 208, 178,
     208, 181, 209, 128, 209, 136, 208, 184, 208, 187, 208, 190, 209, 129, 209, 140, 32, 40]"

definition msg_not_started :: string where
  "msg_not_started = utf8 [208, 189, 208, 181, 32, 209, 131, 208, 180, 208, 176, 208, 187, 208, 190, 209,
     129, 209, 140, 32, 208, 183, 208, 176, 208, 191, 209, 131, 209, 129, 209, 130, 208, 184, 209, 130, 209,
     140, 32, 208, 190, 208, 186, 208, 189, 208, 190, 32, 208, 176, 208, 178, 209, 130, 208, 190, 209, 128,
     208, 184, 208, 183, 208, 176, 209, 134, 208, 184, 208, 184, 32, 86, 75, 58, 32]"

definition msg_no_token_given :: string where
  "msg_no_token_given = utf8 [208, 190, 208, 186, 208, 189, 208, 190, 32, 208, 176, 208, 178, 209, 130, 208,
     190, 209, 128, 208, 184, 208, 183, 208, 176, 209, 134, 208, 184, 208, 184, 32, 86, 75, 32, 208, 183,
     208, 176, 208, 178, 208, 181, 209, 128, 209, 136, 208, 184, 208, 187, 208, 190, 209, 129, 209, 140, 32,
     208, 177, 208, 181, 208, 183, 32, 97, 99, 99, 101, 115, 115, 32, 116, 111, 107, 101, 110]"

definition msg_internal :: string where
  "msg_internal = utf8 [208, 178, 208, 189, 209, 131, 209, 130, 209, 128, 208, 181, 208, 189, 208, 189, 209,
     143, 209, 143, 32, 208, 190, 209, 136, 208, 184, 208, 177, 208, 186, 208, 176, 32, 208, 190, 208, 186,
     208, 189, 208, 176, 32, 208, 176, 208, 178, 209, 130, 208, 190, 209, 128, 208, 184, 208, 183, 208, 176,
     209, 134, 208, 184, 208, 184, 32, 86, 75, 58, 32]"

definition msg_unknown_action :: string where
  "msg_unknown_action = utf8 [208, 189, 208, 181, 208, 184, 208, 183, 208, 178, 208, 181, 209, 129, 209,
     130, 208, 189, 208, 176, 209, 143, 32, 208, 190, 208, 191, 208, 181, 209, 128, 208, 176, 209, 134, 208,
     184, 209, 143, 32, 86, 75, 32, 104, 101, 108, 112, 101, 114]"

definition msg_vk_timeout :: string where
  "msg_vk_timeout = utf8 [208, 178, 209, 128, 208, 181, 208, 188, 209, 143, 32, 208, 190, 208, 182, 208,
     184, 208, 180, 208, 176, 208, 189, 208, 184, 209, 143, 32, 208, 176, 208, 178, 209, 130, 208, 190, 209,
     128, 208, 184, 208, 183, 208, 176, 209, 134, 208, 184, 208, 184, 32, 86, 75, 32, 208, 184, 209, 129,
     209, 130, 208, 181, 208, 186, 208, 187, 208, 190]"

definition msg_vk_canceled :: string where
  "msg_vk_canceled = utf8 [208, 190, 208, 191, 208, 181, 209, 128, 208, 176, 209, 134, 208, 184, 209, 143,
     32, 86, 75, 32, 208, 190, 209, 130, 208, 188, 208, 181, 208, 189, 208, 181, 208, 189, 208, 176]"

definition msg_vk_busy :: string where
  "msg_vk_busy = utf8 [208, 190, 208, 191, 208, 181, 209, 128, 208, 176, 209, 134, 208, 184, 209, 143, 32,
     86, 75, 32, 209, 131, 208, 182, 208, 181, 32, 208, 178, 209, 139, 208, 191, 208, 190, 208, 187, 208,
     189, 209, 143, 208, 181, 209, 130, 209, 129, 209, 143]"

definition msg_not_saved :: string where
  "msg_not_saved = utf8 [208, 189, 208, 181, 32, 209, 131, 208, 180, 208, 176, 208, 187, 208, 190, 209, 129,
     209, 140, 32, 209, 129, 208, 190, 209, 133, 209, 128, 208, 176, 208, 189, 208, 184, 209, 130, 209, 140,
     32, 209, 129, 208, 190, 209, 129, 209, 130, 208, 190, 209, 143, 208, 189, 208, 184, 208, 181, 32, 208,
     178, 209, 133, 208, 190, 208, 180, 208, 176, 32, 86, 75, 58, 32]"

definition msg_not_deleted :: string where
  "msg_not_deleted = utf8 [208, 189, 208, 181, 32, 209, 131, 208, 180, 208, 176, 208, 187, 208, 190, 209,
     129, 209, 140, 32, 209, 131, 208, 180, 208, 176, 208, 187, 208, 184, 209, 130, 209, 140, 32, 208, 187,
     208, 190, 208, 186, 208, 176, 208, 187, 209, 140, 208, 189, 209, 131, 209, 142, 32, 208, 176, 208, 178,
     209, 130, 208, 190, 209, 128, 208, 184, 208, 183, 208, 176, 209, 134, 208, 184, 209, 142, 32, 86, 75,
     58, 32]"

definition msg_cookies_left :: string where
  "msg_cookies_left = utf8 [208, 187, 208, 190, 208, 186, 208, 176, 208, 187, 209, 140, 208, 189, 208, 190,
     208, 181, 32, 209, 129, 208, 190, 209, 129, 209, 130, 208, 190, 209, 143, 208, 189, 208, 184, 208, 181,
     32, 209, 131, 208, 180, 208, 176, 208, 187, 208, 181, 208, 189, 208, 190, 44, 32, 208, 189, 208, 190,
     32, 208, 189, 208, 181, 32, 209, 131, 208, 180, 208, 176, 208, 187, 208, 190, 209, 129, 209, 140, 32,
     208, 190, 209, 135, 208, 184, 209, 129, 209, 130, 208, 184, 209, 130, 209, 140, 32, 99, 111, 111, 107,
     105, 101, 115, 32, 86, 75]"

definition msg_cookies_not_cleared :: string where
  "msg_cookies_not_cleared = utf8 [208, 187, 208, 190, 208, 186, 208, 176, 208, 187, 209, 140, 208, 189,
     208, 190, 208, 181, 32, 209, 129, 208, 190, 209, 129, 209, 130, 208, 190, 209, 143, 208, 189, 208, 184,
     208, 181, 32, 209, 131, 208, 180, 208, 176, 208, 187, 208, 181, 208, 189, 208, 190, 44, 32, 208, 189,
     208, 190, 32, 99, 111, 111, 107, 105, 101, 115, 32, 86, 75, 32, 208, 189, 208, 181, 32, 208, 190, 209,
     135, 208, 184, 209, 137, 208, 181, 208, 189, 209, 139, 58, 32]"

definition msg_login_first :: string where
  "msg_login_first = utf8 [209, 129, 208, 189, 208, 176, 209, 135, 208, 176, 208, 187, 208, 176, 32, 208,
     178, 208, 190, 208, 185, 208, 180, 208, 184, 209, 130, 208, 181, 32, 208, 178, 32, 86, 75]"

definition msg_token_timeout :: string where
  "msg_token_timeout = utf8 [208, 178, 209, 128, 208, 181, 208, 188, 209, 143, 32, 208, 190, 208, 182, 208,
     184, 208, 180, 208, 176, 208, 189, 208, 184, 209, 143, 32, 209, 130, 208, 190, 208, 186, 208, 181, 208,
     189, 208, 176, 32, 86, 75, 32, 208, 184, 209, 129, 209, 130, 208, 181, 208, 186, 208, 187, 208, 190]"

definition msg_no_vk_token :: string where
  "msg_no_vk_token = utf8 [208, 189, 208, 181, 32, 209, 131, 208, 180, 208, 176, 208, 187, 208, 190, 209,
     129, 209, 140, 32, 208, 191, 208, 190, 208, 187, 209, 131, 209, 135, 208, 184, 209, 130, 209, 140, 32,
     209, 130, 208, 190, 208, 186, 208, 181, 208, 189, 32, 86, 75, 58, 32]"

definition msg_oauth_no_token :: string where
  "msg_oauth_no_token = utf8 [86, 75, 32, 79, 65, 117, 116, 104, 32, 208, 189, 208, 181, 32, 208, 178, 208,
     181, 209, 128, 208, 189, 209, 131, 208, 187, 32, 97, 99, 99, 101, 115, 115, 32, 116, 111, 107, 101,
     110]"

definition msg_token_not_saved :: string where
  "msg_token_not_saved = utf8 [208, 189, 208, 181, 32, 209, 131, 208, 180, 208, 176, 208, 187, 208, 190,
     209, 129, 209, 140, 32, 209, 129, 208, 190, 209, 133, 209, 128, 208, 176, 208, 189, 208, 184, 209, 130,
     209, 140, 32, 209, 130, 208, 190, 208, 186, 208, 181, 208, 189, 32, 86, 75, 58, 32]"

definition msg_token_refused :: string where
  "msg_token_refused = utf8 [86, 75, 32, 65, 80, 73, 32, 208, 190, 209, 130, 208, 186, 208, 187, 208, 190,
     208, 189, 208, 184, 208, 187, 32, 97, 99, 99, 101, 115, 115, 32, 116, 111, 107, 101, 110, 59, 32, 208,
     191, 208, 190, 208, 178, 209, 130, 208, 190, 209, 128, 208, 184, 209, 130, 208, 181, 32, 209, 129, 208,
     190, 208, 183, 208, 180, 208, 176, 208, 189, 208, 184, 208, 181, 32, 209, 133, 208, 181, 209, 136, 208,
     176, 44, 32, 209, 135, 209, 130, 208, 190, 208, 177, 209, 139, 32, 208, 191, 208, 190, 208, 187, 209,
     131, 209, 135, 208, 184, 209, 130, 209, 140, 32, 208, 189, 208, 190, 208, 178, 209, 139, 208, 185, 32,
     209, 130, 208, 190, 208, 186, 208, 181, 208, 189]"

definition parseVKHelperResponse :: "codec \<Rightarrow> string \<Rightarrow> string + helper_response" where
  "parseVKHelperResponse J output =
     (let (ls, ok) = helper_lines output; encoded = foldl (prefixed_line result_prefix) [] ls
      in if \<not> ok then Inl msg_not_read
         else if encoded = [] then Inl msg_no_result
         else (case raw_decode encoded of
             None \<Rightarrow> Inl msg_damaged
           | Some payload \<Rightarrow> (case cdDecode J payload of None \<Rightarrow> Inl msg_incorrect | Some r \<Rightarrow> Inr r)))"

definition extractVKHelperError :: "string \<Rightarrow> string" where
  "extractVKHelperError output =
     (let detail = foldl (prefixed_line error_prefix) [] (fst (helper_lines output))
      in if detail = [] then [] else msg_crashed @ detail)"

function replace_all :: "string \<Rightarrow> string \<Rightarrow> string \<Rightarrow> string" where
  "replace_all old new s =
     (case s of
        [] \<Rightarrow> []
      | c # r \<Rightarrow>
          if old \<noteq> [] \<and> has_prefix old s then new @ replace_all old new (drop (length old) s)
          else c # replace_all old new r)"
  by pat_completeness auto
termination
  by (relation "measure (\<lambda>(old, new, s). length s)") auto

declare replace_all.simps [simp del]

definition ellipsis :: string where "ellipsis = utf8 [226, 128, 166]"

definition secret_line :: "string \<Rightarrow> bool" where
  "secret_line line =
     contains_any [''access_token='', ''#access_token'', ''authorization: bearer'', ''cookie:''] (to_lower line)"

definition cut_text :: "nat \<Rightarrow> string \<Rightarrow> string" where
  "cut_text n s = (if length s > n then take n s @ ellipsis else s)"

definition shown_line :: "string \<Rightarrow> string \<Rightarrow> string list" where
  "shown_line home line =
     (let line = trim_space line
      in if line = [] \<or> secret_line line then []
         else [cut_text 320 (if home \<noteq> [] then replace_all home ''%USERPROFILE%'' line else line)])"

definition compactVKHelperStderr :: "string \<Rightarrow> string \<Rightarrow> string" where
  "compactVKHelperStderr home output =
     (let ls = concat (map (shown_line home) (fst (helper_lines output)))
      in if ls = [] then []
         else (let ls = (if length ls > 10 then take 3 ls @ [ellipsis] @ drop (length ls - 6) ls else ls)
           in cut_text 1600 (join '' | '' ls)))"

text \<open>An error for the user: the deadline of the operation, its cancellation, or the text.\<close>

definition helperFriendlyVKError :: "goerr \<Rightarrow> goerr option \<Rightarrow> string" where
  "helperFriendlyVKError err ctx =
     (if err = DeadlineExceeded \<or> ctx = Some DeadlineExceeded then msg_vk_timeout
      else if err = goerr.Canceled then msg_vk_canceled
      else error_text err)"

text \<open>The three actions of the helper process; a panic in them becomes an error.\<close>

datatype action_result = ActionPanic string | ActionDone "goerr + vk_token" "goerr option"

definition runVKAuthHelperProcess :: "(string \<Rightarrow> action_result) \<Rightarrow> string \<Rightarrow> helper_response" where
  "runVKAuthHelperProcess run action =
     (if action = ''login'' \<or> action = ''token'' \<or> action = ''clear'' then
        (case run action of
           ActionPanic p \<Rightarrow> no_response\<lparr>hrError := msg_internal @ p\<rparr>
         | ActionDone (Inl e) ctx \<Rightarrow> no_response\<lparr>hrError := helperFriendlyVKError e ctx\<rparr>
         | ActionDone (Inr t) ctx \<Rightarrow>
             (if action = ''token''
              then no_response\<lparr>hrAccessToken := AccessToken t,
                hrExpiresIn := (if ExpiresIn t > 0 then ExpiresIn t div 10 ^ 9 else 0)\<rparr>
              else no_response))
      else no_response\<lparr>hrError := msg_unknown_action\<rparr>)"

text \<open>One run of the helper from the application: its path, the context, how the process ended, and what it wrote.\<close>

record helper_run =
  hnExe :: "string option"
  hnCtx :: "goerr option"
  hnExit :: "string option"
  hnStdout :: string
  hnStderr :: string
  hnHome :: string

definition runLegacyVKAuthHelper :: "codec \<Rightarrow> helper_run \<Rightarrow> string \<Rightarrow> goerr + vk_token" where
  "runLegacyVKAuthHelper J h action =
     (case hnExe h of Some e \<Rightarrow> Inl (Plain (msg_not_started @ e))
      | None \<Rightarrow>
     (case hnCtx h of Some e \<Rightarrow> Inl e
      | None \<Rightarrow>
     (case hnExit h of
        Some e \<Rightarrow>
          (let detail = extractVKHelperError (hnStderr h); summary = compactVKHelperStderr (hnHome h) (hnStderr h)
           in if detail \<noteq> [] then Inl (Plain detail)
              else if summary \<noteq> [] then Inl (Plain (msg_crashed_with @ e @ ''): '' @ summary))
              else Inl (Plain (msg_crashed @ e)))
      | None \<Rightarrow>
          (case parseVKHelperResponse J (hnStdout h) of
             Inl e \<Rightarrow> Inl (Plain e)
           | Inr r \<Rightarrow>
               if hrError r \<noteq> [] then Inl (Plain (hrError r))
               else if action = ''clear'' \<or> action = ''login'' then Inr \<lparr>AccessToken = [], ExpiresIn = 0\<rparr>
               else if hrAccessToken r = [] then Inl (Plain msg_no_token_given)
               else Inr \<lparr>AccessToken = hrAccessToken r,
                 ExpiresIn = (if hrExpiresIn r > 0 then wrap64 (hrExpiresIn r * 10 ^ 9) else 0)\<rparr>))))"

section \<open>The saved session\<close>

text \<open>\<open>vsExpiresAt\<close> is \<open>None\<close> for the zero time. A text that is not UTF-8 is coerced by the JSON it is saved as.\<close>

record vk_session =
  vsLoggedIn :: bool
  vsToken :: string
  vsExpiresAt :: "int option"

definition zero_session :: vk_session where
  "zero_session = \<lparr>vsLoggedIn = False, vsToken = [], vsExpiresAt = None\<rparr>"

datatype session_file = NoSession | BrokenSession | SessionOf vk_session

definition loadVKSession :: "session_file \<Rightarrow> vk_session option" where
  "loadVKSession f = (case f of SessionOf s \<Rightarrow> Some s | _ \<Rightarrow> None)"

text \<open>The error of one of the steps (DPAPI, directory, file, rename), if any.\<close>

definition saveVKSession :: "goerr option \<Rightarrow> vk_session \<Rightarrow> session_file \<Rightarrow> goerr option \<times> session_file" where
  "saveVKSession fails s f =
     (case fails of Some e \<Rightarrow> (Some e, f) | None \<Rightarrow> (None, SessionOf (s\<lparr>vsToken := coerce_utf8 (vsToken s)\<rparr>)))"

definition deleteVKSession :: "goerr option \<Rightarrow> session_file \<Rightarrow> goerr option \<times> session_file" where
  "deleteVKSession fails f =
     (if f = NoSession then (None, f)
      else case fails of Some e \<Rightarrow> (Some e, f) | None \<Rightarrow> (None, NoSession))"

definition IsVKLoggedIn :: "int \<Rightarrow> session_file \<Rightarrow> bool" where
  "IsVKLoggedIn now f =
     (case loadVKSession f of
        None \<Rightarrow> False
      | Some s \<Rightarrow>
          vsLoggedIn s \<or> (vsToken s \<noteq> [] \<and> (case vsExpiresAt s of None \<Rightarrow> True | Some t \<Rightarrow> t > now)))"

definition clearSavedVKAccessToken :: "goerr option \<Rightarrow> session_file \<Rightarrow> session_file" where
  "clearSavedVKAccessToken fails f =
     (case loadVKSession f of
        None \<Rightarrow> f | Some s \<Rightarrow> snd (saveVKSession fails (s\<lparr>vsToken := [], vsExpiresAt := None\<rparr>) f))"

section \<open>Operations\<close>

text \<open>
  Another VK operation runs; the run of the helper with the error of the operation's own context at its
  end; the errors of the file; the clock before and after the helper.
\<close>

record vk_env =
  veBusy :: bool
  veRun :: "goerr + vk_token"
  veCtx :: "goerr option"
  veSave :: "goerr option"
  veDelete :: "goerr option"
  veNow :: int
  veLater :: int

text \<open>Login and logout give the error and whether the frontend was told of a change.\<close>

definition VKLogin :: "vk_env \<Rightarrow> session_file \<Rightarrow> string option \<times> bool option \<times> session_file" where
  "VKLogin E f =
     (if veBusy E then (Some msg_vk_busy, None, f)
      else case veRun E of
        Inl e \<Rightarrow>
          (Some (if e = DeadlineExceeded \<or> veCtx E = Some DeadlineExceeded then msg_vk_timeout
             else if e = goerr.Canceled then msg_vk_canceled else error_text e), None, f)
      | Inr t \<Rightarrow>
          (let s = (case loadVKSession f of Some s \<Rightarrow> s | None \<Rightarrow> zero_session)
           in case saveVKSession (veSave E) (s\<lparr>vsLoggedIn := True\<rparr>) f of
                (Some e, f) \<Rightarrow> (Some (msg_not_saved @ error_text e), None, f)
              | (None, f) \<Rightarrow> (None, Some True, f)))"

definition VKLogout :: "vk_env \<Rightarrow> session_file \<Rightarrow> string option \<times> bool option \<times> session_file" where
  "VKLogout E f =
     (if veBusy E then (Some msg_vk_busy, None, f)
      else case deleteVKSession (veDelete E) f of
        (Some e, f) \<Rightarrow> (Some (msg_not_deleted @ error_text e), None, f)
      | (None, f) \<Rightarrow>
          (case veRun E of
             Inl e \<Rightarrow>
               (Some (if e = goerr.Canceled \<or> veCtx E = Some DeadlineExceeded then msg_cookies_left
                  else msg_cookies_not_cleared @ error_text e), Some False, f)
           | Inr t \<Rightarrow> (None, Some False, f)))"

definition ensureVKAccessToken :: "vk_env \<Rightarrow> session_file \<Rightarrow> (string + string) \<times> session_file" where
  "ensureVKAccessToken E f =
     (case loadVKSession f of
        None \<Rightarrow> (Inl msg_login_first, f)
      | Some s \<Rightarrow>
          if \<not> vsLoggedIn s \<and> vsToken s = [] then (Inl msg_login_first, f)
          else if vsToken s \<noteq> [] \<and>
            (case vsExpiresAt s of None \<Rightarrow> True | Some t \<Rightarrow> t > veNow E + 30 * 10 ^ 9) then (Inr (vsToken s), f)
          else (case veRun E of
              Inl e \<Rightarrow>
                (Inl (if e = DeadlineExceeded \<or> veCtx E = Some DeadlineExceeded then msg_token_timeout
                   else if e = goerr.Canceled then msg_vk_canceled else msg_no_vk_token @ error_text e), f)
            | Inr t \<Rightarrow>
                if AccessToken t = [] then (Inl msg_oauth_no_token, f)
                else
                  (let s = s\<lparr>vsLoggedIn := True, vsToken := AccessToken t,
                         vsExpiresAt := (if ExpiresIn t > 0 then Some (veLater E + ExpiresIn t) else None)\<rparr>
                   in case saveVKSession (veSave E) s f of
                        (Some e, f) \<Rightarrow> (Inl (msg_token_not_saved @ error_text e), f)
                      | (None, f) \<Rightarrow> (Inr (vsToken s), f))))"

text \<open>The API refuses the token with code 5; the hashes that were made are kept in every case.\<close>

definition generateVKHashesWithContext ::
  "(string \<Rightarrow> parsed_url option) \<Rightarrow> vk_env \<Rightarrow> int \<Rightarrow> string list \<Rightarrow> generate_input \<Rightarrow> session_file \<Rightarrow>
   (string + generate_error) option \<times> string list \<times> session_file" where
  "generateVKHashesWithContext up E count existing inp f =
     (case ensureVKAccessToken E f of
        (Inl e, f) \<Rightarrow> (Some (Inl e), [], f)
      | (Inr token, f) \<Rightarrow>
          (case generateVKHashes up token count existing inp of
             (hashes, None, n) \<Rightarrow> (None, hashes, f)
           | (hashes, Some e, n) \<Rightarrow>
               (if \<exists>m. e = VkAPI 5 m then (Some (Inl msg_token_refused), hashes, clearSavedVKAccessToken (veSave E) f)
                else (Some (Inr e), hashes, f))))"

section \<open>The output of the helper\<close>

lemma b64_padding: "\<exists>k < 3. dropWhile (\<lambda>c. c \<noteq> CHR ''='') (b64_encode s) = replicate k CHR ''=''"
proof (induction s rule: b64_encode.induct)
  case (2 a)
  have "dropWhile (\<lambda>c. c \<noteq> CHR ''='') (b64_encode [a]) = replicate 2 CHR ''=''"
    using byte_bounds(1) [of a] by (simp add: Let_def numeral_2_eq_2)
  then show ?case by (intro exI [of _ 2]) simp
next
  case (3 a b)
  have "dropWhile (\<lambda>c. c \<noteq> CHR ''='') (b64_encode [a, b]) = replicate 1 CHR ''=''"
    using byte_bounds(2) [of a b] by (simp add: Let_def del: add_mult_distrib)
  then show ?case by (intro exI [of _ 1]) simp
next
  case (4 a b c r)
  have "dropWhile (\<lambda>c. c \<noteq> CHR ''='') (b64_encode (a # b # c # r)) = dropWhile (\<lambda>c. c \<noteq> CHR ''='') (b64_encode r)"
    using byte_bounds(3) [of a b c] by (simp add: Let_def)
  then show ?case using 4 by simp
qed (intro exI [of _ 0], simp)

lemma pad_to_four:
  assumes "(n + k) mod 4 = 0" "k < 3"
  shows "(4 - n mod 4) mod 4 = (k :: nat)"
proof -
  have "n mod 4 = 0 \<or> n mod 4 = 1 \<or> n mod 4 = 2 \<or> n mod 4 = 3"
    using mod_less_divisor [of 4 n] by linarith
  moreover have "k = 0 \<or> k = 1 \<or> k = 2" using assms(2) by linarith
  moreover have "(n mod 4 + k) mod 4 = 0" using assms(1) by (simp add: mod_add_left_eq)
  ultimately show ?thesis by (elim disjE) simp_all
qed

lemma raw_decode_encode: "raw_decode (raw_encode s) = Some s"
proof -
  define r where "r = raw_encode s"
  obtain k where k: "k < 3" "dropWhile (\<lambda>c. c \<noteq> CHR ''='') (b64_encode s) = replicate k CHR ''=''"
    using b64_padding by blast
  then have e: "b64_encode s = r @ replicate k CHR ''=''"
    using takeWhile_dropWhile_id [of "\<lambda>c. c \<noteq> CHR ''=''" "b64_encode s"] by (simp add: r_def raw_encode_def)
  have "(length r + k) mod 4 = 0"
    using arg_cong [OF e, of length] mod_mult_self2_is_0 [of "(length s + 2) div 3" 4]
    unfolding length_b64_encode by (simp del: mod_mult_self2_is_0)
  then have "(4 - length r mod 4) mod 4 = k"
    using k(1) by (rule pad_to_four)
  moreover have "\<forall>c \<in> set r. is_graph c"
    using b64_encode_graph [of s] by (simp add: e list_all_iff)
  then have "filter (\<lambda>c. c \<noteq> CHR 13 \<and> c \<noteq> CHR 10) r = r"
    by (auto simp: filter_id_conv is_graph_def)
  moreover have "CHR ''='' \<notin> set r"
    by (auto simp: r_def raw_encode_def dest: set_takeWhileD)
  ultimately show ?thesis
    using e b64_quanta_encode [of s] by (simp add: raw_decode_def r_def [symmetric] Let_def)
qed

lemma raw_encode_graph: "c \<in> set (raw_encode s) \<Longrightarrow> is_graph c"
  using b64_encode_graph [of s] by (auto simp: raw_encode_def list_all_iff dest: set_takeWhileD)

lemma raw_encode_nonempty: "s \<noteq> [] \<Longrightarrow> raw_encode s \<noteq> []"
  using raw_decode_encode [of s] by (auto simp: raw_decode_def)

text \<open>Complete lines before a text: nothing, or a text that ends a line.\<close>

definition complete_lines :: "string \<Rightarrow> bool" where
  "complete_lines s \<longleftrightarrow> s = [] \<or> last s = CHR 10"

lemma complete_split:
  assumes "complete_lines a"
  shows "\<exists>xs. \<forall>b. split_on CHR 10 (a @ b) = xs @ split_on CHR 10 b"
proof (cases "a = []")
  case False
  then obtain a' where "a = a' @ [CHR 10]"
    using assms by (metis append_butlast_last_id complete_lines_def)
  then show ?thesis
    by (intro exI [of _ "split_on CHR 10 a'"]) (simp add: split_on_def split_by_append2)
qed auto

lemma scan_complete:
  assumes "\<And>b. split_on CHR 10 (a @ b) = xs @ split_on CHR 10 b"
  shows "helper_lines (a @ b) = upto_long (xs @ (let ls = split_on CHR 10 b in if last ls = [] then butlast ls else ls))"
proof -
  have "split_on CHR 10 b \<noteq> []" by (simp add: split_on_def)
  then show ?thesis by (simp add: helper_lines_def assms butlast_append Let_def)
qed

lemma upto_long_ok:
  "list_all (\<lambda>l. length l < scan_limit) ls \<Longrightarrow> upto_long ls = (map strip_cr ls, True)"
  by (induction ls) auto

lemma short_line_prefix: "list_all is_graph l \<Longrightarrow> l \<noteq> [] \<Longrightarrow> trim_space l = l \<and> strip_cr l = l"
proof -
  assume "list_all is_graph l" "l \<noteq> []"
  then have "is_graph (hd l)" "is_graph (last l)"
    by (simp_all add: list_all_iff)
  moreover have "\<not> is_graph (CHR 13)" by (simp add: is_graph_def)
  ultimately show ?thesis by (auto simp: strip_cr_def intro!: trim_space_graph)
qed

text \<open>A line that shows nothing may be left out.\<close>

lemma upto_long_hidden:
  assumes "g (strip_cr l) = []" "length l < scan_limit"
  shows "concat (map g (fst (upto_long (xs @ l # ys)))) = concat (map g (fst (upto_long (xs @ ys))))"
  using assms by (induction xs) (auto simp: case_prod_unfold Let_def)

section \<open>Properties\<close>

text \<open>Property C14 (round trip). The answer the helper prints is what the application reads, whatever other
  lines the process has printed before it (of less than 64 KiB each).\<close>

theorem helper_answer_is_read_back:
  assumes "cdDecode J (cdEncode J r) = Some r" and "cdEncode J r \<noteq> []"
    and "length (raw_encode (cdEncode J r)) + 21 < scan_limit"
    and "complete_lines noise" and "list_all (\<lambda>l. length l < scan_limit) (split_on CHR 10 noise)"
  shows "parseVKHelperResponse J (noise @ helper_output J r) = Inr r"
proof -
  define e where "e = raw_encode (cdEncode J r)"
  define l where "l = result_prefix @ e"
  have g: "list_all is_graph l" "l \<noteq> []" "list_all is_graph e" "e \<noteq> []"
    using raw_encode_graph raw_encode_nonempty [OF assms(2)]
    by (auto simp: l_def e_def list_all_iff result_prefix_def is_graph_def)
  obtain xs where xs: "\<And>b. split_on CHR 10 (noise @ b) = xs @ split_on CHR 10 b"
    using complete_split [OF assms(4)] by blast
  have "split_on CHR 10 noise = xs @ [[]]"
    using xs [of "[]"] by (simp add: split_on_def)
  then have short: "list_all (\<lambda>l. length l < scan_limit) xs"
    using assms(5) by simp
  have "\<forall>c \<in> set l. c \<noteq> CHR 10"
    using g(1) by (auto simp: list_all_iff is_graph_def)
  then have "split_on CHR 10 (l @ [CHR 10]) = [l, []]"
    by (simp add: split_on_def split_by_append)
  then have "helper_lines (noise @ helper_output J r) = upto_long (xs @ [l])"
    using scan_complete [OF xs, of "helper_output J r"] by (simp add: helper_output_def l_def e_def Let_def)
  moreover have "length l < scan_limit"
    using assms(3) by (simp add: l_def e_def result_prefix_def)
  ultimately have "helper_lines (noise @ helper_output J r) = (map strip_cr xs @ [l], True)"
    using upto_long_ok [of "xs @ [l]"] short short_line_prefix [OF g(1,2)] by simp
  moreover have "prefixed_line result_prefix found l = e" for found
    using short_line_prefix [OF g(1,2)] short_line_prefix [OF g(3,4)]
    unfolding prefixed_line_def Let_def by (simp add: l_def trim_prefix_def has_prefix_def)
  ultimately show ?thesis
    using g(4) raw_decode_encode [of "cdEncode J r"] assms(1) by (simp add: parseVKHelperResponse_def e_def)
qed

definition demo_codec :: codec where
  "demo_codec = \<lparr>cdEncode = (\<lambda>r. hrAccessToken r @ ''!''), cdDecode = (\<lambda>s. Some \<lparr>hrAccessToken = butlast s, hrExpiresIn = 0, hrError = []\<rparr>)\<rparr>"

theorem helper_answer_is_read_back_witness:
  "parseVKHelperResponse demo_codec (''noise'' @ [CHR 10] @ helper_output demo_codec (no_response\<lparr>hrAccessToken := ''abc''\<rparr>)) =
     Inr (no_response\<lparr>hrAccessToken := ''abc''\<rparr>)"
proof -
  let ?r = "no_response\<lparr>hrAccessToken := ''abc''\<rparr>"
  have "length (raw_encode (cdEncode demo_codec ?r)) \<le> length (b64_encode (cdEncode demo_codec ?r))"
    unfolding raw_encode_def by (rule length_takeWhile_le)
  then have "length (raw_encode (cdEncode demo_codec ?r)) \<le> 8"
    by (simp add: length_b64_encode demo_codec_def)
  then show ?thesis
    using helper_answer_is_read_back [of demo_codec ?r "''noise'' @ [CHR 10]"]
    by (simp add: complete_lines_def split_on_def scan_limit_def) (simp add: demo_codec_def no_response_def)
qed

text \<open>The summary of a crash has at most 1603 bytes, and a line of the output with a
  token, a bearer or a cookie in it has no influence on it: the summary is that of the output without
  the line.\<close>

theorem secrets_do_not_reach_the_summary:
  assumes "complete_lines a" and "CHR 10 \<notin> set l" and "length l < scan_limit" and "secret_line (trim_space (strip_cr l))"
  shows "compactVKHelperStderr home (a @ l @ [CHR 10] @ b) = compactVKHelperStderr home (a @ b) \<and>
    length (compactVKHelperStderr home (a @ b)) \<le> 1603"
proof -
  obtain xs where xs: "\<And>b. split_on CHR 10 (a @ b) = xs @ split_on CHR 10 b"
    using complete_split [OF assms(1)] by blast
  define ys where "ys = (let ls = split_on CHR 10 b in if last ls = [] then butlast ls else ls)"
  have s: "split_on CHR 10 (l @ [CHR 10] @ b) = l # split_on CHR 10 b"
    using assms(2) by (auto simp: split_on_def intro!: split_by_append)
  have ne: "split_on CHR 10 b \<noteq> []" by (simp add: split_on_def)
  have "helper_lines (a @ l @ [CHR 10] @ b) = upto_long (xs @ l # ys)" "helper_lines (a @ b) = upto_long (xs @ ys)"
    using scan_complete [OF xs, of "l @ [CHR 10] @ b"] scan_complete [OF xs, of b] ne
    unfolding s by (simp_all add: ys_def Let_def)
  moreover have "shown_line home (strip_cr l) = []"
    using assms(4) by (simp add: shown_line_def Let_def)
  ultimately have "compactVKHelperStderr home (a @ l @ [CHR 10] @ b) = compactVKHelperStderr home (a @ b)"
    using upto_long_hidden [where g = "shown_line home", OF _ assms(3)] by (simp add: compactVKHelperStderr_def)
  moreover have "length (cut_text 1600 x) \<le> 1603" for x
    by (simp add: cut_text_def ellipsis_def utf8_def)
  then have "length (compactVKHelperStderr home (a @ b)) \<le> 1603"
    by (simp add: compactVKHelperStderr_def Let_def)
  ultimately show ?thesis by blast
qed

theorem secrets_do_not_reach_the_summary_witness:
  "compactVKHelperStderr [] (''goto #access_token=abc'' @ [CHR 10] @ ''panic'') = compactVKHelperStderr [] ''panic''"
proof -
  have "secret_line (trim_space (strip_cr ''goto #access_token=abc''))" by code_simp
  then show ?thesis
    using secrets_do_not_reach_the_summary [of "[]" "''goto #access_token=abc''" "[]" "''panic''"]
    by (simp add: complete_lines_def scan_limit_def)
qed

text \<open>Only the form of a URL is recognised: a token as JSON prints it goes through.\<close>

lemma json_token_is_not_hidden:
  "\<not> secret_line (CHR 34 # ''access_token'' @ [CHR 34] @ '': '' @ [CHR 34] @ ''vk1.a'' @ [CHR 34])"
  by code_simp

text \<open>A token handed out for new hashes is never empty. Either it is the saved one,
  which has no end or more than thirty seconds left, and the file stays as it is; or the helper has just
  given it, and it is saved with its end, in a session that counts as logged in.\<close>

theorem ensured_token_is_usable:
  assumes "ensureVKAccessToken E f = (Inr t, f')"
  shows "t \<noteq> [] \<and>
    ((f' = f \<and> (\<exists>s. f = SessionOf s \<and> vsToken s = t \<and> (\<forall>x. vsExpiresAt s = Some x \<longrightarrow> x > veNow E + 30 * 10 ^ 9))) \<or>
     (\<exists>tok s. veRun E = Inr tok \<and> AccessToken tok = t \<and> f' = SessionOf s \<and> vsToken s = coerce_utf8 t \<and> vsLoggedIn s \<and>
        vsExpiresAt s = (if ExpiresIn tok > 0 then Some (veLater E + ExpiresIn tok) else None)))"
  using assms
  by (auto simp: ensureVKAccessToken_def loadVKSession_def saveVKSession_def Let_def
      split: session_file.splits option.splits if_splits sum.splits)

definition demo_vk :: vk_env where
  "demo_vk = \<lparr>veBusy = False, veRun = Inr \<lparr>AccessToken = ''abc'', ExpiresIn = 5\<rparr>, veCtx = None, veSave = None,
     veDelete = None, veNow = 0, veLater = 7\<rparr>"

theorem ensured_token_is_usable_witness:
  "\<exists>f'. ensureVKAccessToken demo_vk (SessionOf (zero_session\<lparr>vsLoggedIn := True\<rparr>)) = (Inr ''abc'', f') \<and> (''abc'' :: string) \<noteq> []"
proof -
  have "\<exists>f'. ensureVKAccessToken demo_vk (SessionOf (zero_session\<lparr>vsLoggedIn := True\<rparr>)) = (Inr ''abc'', f')"
    by (simp add: ensureVKAccessToken_def loadVKSession_def saveVKSession_def zero_session_def demo_vk_def)
  then show ?thesis using ensured_token_is_usable by blast
qed

text \<open>The operations on the session other than a login.\<close>

datatype vk_op = OpLogout vk_env | OpGenerate "string \<Rightarrow> parsed_url option" vk_env int "string list" generate_input

fun vk_step :: "vk_op \<Rightarrow> session_file \<Rightarrow> session_file" where
  "vk_step (OpLogout E) f = snd (snd (VKLogout E f))"
| "vk_step (OpGenerate up E count existing inp) f = snd (snd (generateVKHashesWithContext up E count existing inp f))"

lemma logged_out_steps: "fold vk_step ops NoSession = NoSession"
proof (induction ops)
  case (Cons op ops)
  have "vk_step op NoSession = NoSession"
    by (cases op) (auto simp: VKLogout_def deleteVKSession_def generateVKHashesWithContext_def ensureVKAccessToken_def
        loadVKSession_def split: sum.split)
  then show ?case using Cons by simp
qed simp

text \<open>Property C15 (invariant). Once a logout has told the frontend that the account is gone, it is: whether or
  not the cookies could be cleared too, and whatever is tried after it, the application counts as logged
  out and no token is handed out, until the next login.\<close>

theorem logged_out_stays_out:
  assumes "VKLogout E f = (err, Some False, f')"
  shows "\<not> IsVKLoggedIn now (fold vk_step ops f') \<and>
    ensureVKAccessToken E' (fold vk_step ops f') = (Inl msg_login_first, fold vk_step ops f')"
proof -
  have "f' = NoSession"
    using assms by (auto simp: VKLogout_def deleteVKSession_def split: if_splits option.splits sum.splits)
  then show ?thesis
    by (simp add: logged_out_steps IsVKLoggedIn_def ensureVKAccessToken_def loadVKSession_def)
qed

theorem logged_out_stays_out_witness:
  "VKLogout (demo_vk\<lparr>veRun := Inl DeadlineExceeded, veCtx := Some DeadlineExceeded\<rparr>) (SessionOf zero_session) =
     (Some msg_cookies_left, Some False, NoSession) \<and> \<not> IsVKLoggedIn 0 (fold vk_step [OpLogout demo_vk] NoSession)"
proof -
  have l: "VKLogout (demo_vk\<lparr>veRun := Inl DeadlineExceeded, veCtx := Some DeadlineExceeded\<rparr>) (SessionOf zero_session) =
     (Some msg_cookies_left, Some False, NoSession)"
    by (simp add: VKLogout_def deleteVKSession_def demo_vk_def)
  show ?thesis
    using logged_out_stays_out [OF l, of 0 "[OpLogout demo_vk]" demo_vk] l by blast
qed

end
