(* ===== verification/Profiles.thy ===== *)
theory Profiles
  imports Store
begin

text \<open>
  The browser the core pretends to be (\<open>core/profiles.go\<close>) and the names it signs in under
  (\<open>core/namegen.go\<close>): tables, and a choice by random numbers, which are arguments.
\<close>

section \<open>Browser profiles\<close>

record Profile =
  UserAgent :: string
  SecChUa :: string
  SecChUaMobile :: string
  SecChUaPlatform :: string

record SavedProfile =
  spProfile :: Profile
  DeviceJSON :: string
  BrowserFp :: string

definition quoted :: "string \<Rightarrow> string" where
  "quoted s = [CHR 34] @ s @ [CHR 34]"

text \<open>The header with its brands and their versions.\<close>

definition sec_ch_ua :: "(string \<times> string) list \<Rightarrow> string" where
  "sec_ch_ua bs = join '', '' (map (\<lambda>(n, v). quoted n @ '';v='' @ quoted v) bs)"

definition profileList :: "Profile list" where
  "profileList =
     [\<lparr>UserAgent = ''Mozilla/5.0 (Windows NT 10.0; Win64; x64) '' @
          ''AppleWebKit/537.36 (KHTML, like Gecko) Chrome/146.0.0.0 Safari/537.36'',
        SecChUa = sec_ch_ua [(''Chromium'', ''146''), (''Not-A.Brand'', ''24''), (''Google Chrome'', ''146'')],
        SecChUaMobile = ''?0'', SecChUaPlatform = quoted ''Windows''\<rparr>,
      \<lparr>UserAgent = ''Mozilla/5.0 (Windows NT 10.0; Win64; x64) '' @
          ''AppleWebKit/537.36 (KHTML, like Gecko) Chrome/145.0.0.0 Safari/537.36'',
        SecChUa = sec_ch_ua [(''Chromium'', ''145''), (''Not-A.Brand'', ''99''), (''Google Chrome'', ''145'')],
        SecChUaMobile = ''?0'', SecChUaPlatform = quoted ''Windows''\<rparr>,
      \<lparr>UserAgent = ''Mozilla/5.0 (Windows NT 10.0; Win64; x64) '' @
          ''AppleWebKit/537.36 (KHTML, like Gecko) Chrome/144.0.0.0 Safari/537.36'',
        SecChUa = sec_ch_ua [(''Chromium'', ''144''), (''Not-A.Brand'', ''8''), (''Google Chrome'', ''144'')],
        SecChUaMobile = ''?0'', SecChUaPlatform = quoted ''Windows''\<rparr>,
      \<lparr>UserAgent = ''Mozilla/5.0 (Windows NT 10.0; Win64; x64) '' @
          ''AppleWebKit/537.36 (KHTML, like Gecko) Chrome/146.0.0.0 Safari/537.36 Edg/146.0.0.0'',
        SecChUa = sec_ch_ua [(''Chromium'', ''146''), (''Not-A.Brand'', ''24''), (''Microsoft Edge'', ''146'')],
        SecChUaMobile = ''?0'', SecChUaPlatform = quoted ''Windows''\<rparr>,
      \<lparr>UserAgent = ''Mozilla/5.0 (Windows NT 10.0; Win64; x64) '' @
          ''AppleWebKit/537.36 (KHTML, like Gecko) Chrome/145.0.0.0 Safari/537.36 Edg/145.0.0.0'',
        SecChUa = sec_ch_ua [(''Chromium'', ''145''), (''Not-A.Brand'', ''99''), (''Microsoft Edge'', ''145'')],
        SecChUaMobile = ''?0'', SecChUaPlatform = quoted ''Windows''\<rparr>,
      \<lparr>UserAgent = ''Mozilla/5.0 (Macintosh; Intel Mac OS X 10_15_7) '' @
          ''AppleWebKit/537.36 (KHTML, like Gecko) Chrome/146.0.0.0 Safari/537.36'',
        SecChUa = sec_ch_ua [(''Chromium'', ''146''), (''Not-A.Brand'', ''24''), (''Google Chrome'', ''146'')],
        SecChUaMobile = ''?0'', SecChUaPlatform = quoted ''macOS''\<rparr>,
      \<lparr>UserAgent = ''Mozilla/5.0 (Macintosh; Intel Mac OS X 10_15_7) '' @
          ''AppleWebKit/537.36 (KHTML, like Gecko) Chrome/145.0.0.0 Safari/537.36'',
        SecChUa = sec_ch_ua [(''Chromium'', ''145''), (''Not-A.Brand'', ''99''), (''Google Chrome'', ''145'')],
        SecChUaMobile = ''?0'', SecChUaPlatform = quoted ''macOS''\<rparr>,
      \<lparr>UserAgent = ''Mozilla/5.0 (X11; Linux x86_64) '' @
          ''AppleWebKit/537.36 (KHTML, like Gecko) Chrome/146.0.0.0 Safari/537.36'',
        SecChUa = sec_ch_ua [(''Chromium'', ''146''), (''Not-A.Brand'', ''24''), (''Google Chrome'', ''146'')],
        SecChUaMobile = ''?0'', SecChUaPlatform = quoted ''Linux''\<rparr>,
      \<lparr>UserAgent = ''Mozilla/5.0 (X11; Ubuntu; Linux x86_64) '' @
          ''AppleWebKit/537.36 (KHTML, like Gecko) Chrome/144.0.0.0 Safari/537.36'',
        SecChUa = sec_ch_ua [(''Chromium'', ''144''), (''Not-A.Brand'', ''8''), (''Google Chrome'', ''144'')],
        SecChUaMobile = ''?0'', SecChUaPlatform = quoted ''Linux''\<rparr>,
      \<lparr>UserAgent = ''Mozilla/5.0 (Windows NT 10.0; Win64; x64; rv:132.0) Gecko/20100101 Firefox/132.0'',
        SecChUa = sec_ch_ua [(''Firefox'', ''132''), (''Not-A.Brand'', ''8''), (''Mozilla Firefox'', ''132'')],
        SecChUaMobile = ''?0'', SecChUaPlatform = quoted ''Windows''\<rparr>]"

definition androidProfiles :: "Profile list" where
  "androidProfiles =
     [\<lparr>UserAgent = ''Mozilla/5.0 (Linux; Android 14; Pixel 8 Pro) '' @
          ''AppleWebKit/537.36 (KHTML, like Gecko) Chrome/129.0.0.0 Mobile Safari/537.36'',
        SecChUa = sec_ch_ua [(''Chromium'', ''129''), (''Not-A.Brand'', ''24''), (''Google Chrome'', ''129'')],
        SecChUaMobile = ''?1'', SecChUaPlatform = quoted ''Android''\<rparr>]"

definition iosProfiles :: "Profile list" where
  "iosProfiles =
     [\<lparr>UserAgent = ''Mozilla/5.0 (iPhone; CPU iPhone OS 17_6_1 like Mac OS X) '' @
          ''AppleWebKit/605.1.15 (KHTML, like Gecko) Version/17.6 Mobile/15E148 Safari/604.1'',
        SecChUa = sec_ch_ua [(''Safari'', ''17''), (''Not-A.Brand'', ''24''), (''Apple Safari'', ''17'')],
        SecChUaMobile = ''?1'', SecChUaPlatform = quoted ''iOS''\<rparr>]"

text \<open>\<open>rand.Intn\<close>.\<close>

definition Intn :: "nat \<Rightarrow> nat \<Rightarrow> nat" where
  "Intn r n = r mod n"

definition getRandomProfile :: "string \<Rightarrow> nat \<Rightarrow> Profile" where
  "getRandomProfile activeFingerprint r =
     (if activeFingerprint = ''android'' then androidProfiles ! Intn r (length androidProfiles)
      else if activeFingerprint = ''ios'' then iosProfiles ! Intn r (length iosProfiles)
      else if activeFingerprint = ''safari'' then profileList ! 4
      else if activeFingerprint = ''firefox'' then profileList ! (length profileList - 1)
      else profileList ! Intn r 3)"

text \<open>The saved profile, with the fields of the embedded one at the top level of the object.\<close>

definition saved_field :: "SavedProfile \<Rightarrow> string \<times> json \<Rightarrow> SavedProfile option" where
  "saved_field s kj =
     (case kj of (k, j) \<Rightarrow>
      let p = spProfile s; put = (\<lambda>p. s\<lparr>spProfile := p\<rparr>) in
      if equal_fold ''user_agent'' k then map_option (\<lambda>v. put (p\<lparr>UserAgent := v\<rparr>)) (into_string j (UserAgent p))
      else if equal_fold ''sec_ch_ua'' k then map_option (\<lambda>v. put (p\<lparr>SecChUa := v\<rparr>)) (into_string j (SecChUa p))
      else if equal_fold ''sec_ch_ua_mobile'' k
        then map_option (\<lambda>v. put (p\<lparr>SecChUaMobile := v\<rparr>)) (into_string j (SecChUaMobile p))
      else if equal_fold ''sec_ch_ua_platform'' k
        then map_option (\<lambda>v. put (p\<lparr>SecChUaPlatform := v\<rparr>)) (into_string j (SecChUaPlatform p))
      else if equal_fold ''device_json'' k then map_option (\<lambda>v. s\<lparr>DeviceJSON := v\<rparr>) (into_string j (DeviceJSON s))
      else if equal_fold ''browser_fp'' k then map_option (\<lambda>v. s\<lparr>BrowserFp := v\<rparr>) (into_string j (BrowserFp s))
      else Some s)"

definition LoadProfileFromDisk :: "(string \<Rightarrow> json option) \<Rightarrow> string option \<Rightarrow> SavedProfile option" where
  "LoadProfileFromDisk parse content =
     (let zero = \<lparr>spProfile = \<lparr>UserAgent = [], SecChUa = [], SecChUaMobile = [], SecChUaPlatform = []\<rparr>,
            DeviceJSON = [], BrowserFp = []\<rparr>
      in case content of None \<Rightarrow> None
       | Some data \<Rightarrow>
           (case parse data of
              Some (JObj m) \<Rightarrow> into_fields saved_field m zero | Some JNull \<Rightarrow> Some zero | _ \<Rightarrow> None))"

section \<open>Names\<close>

definition maleFirstNames :: "string list" where
  "maleFirstNames = map utf8 [[208, 144, 208, 187, 208, 181, 208, 186, 209, 129, 208, 176, 208, 189, 208, 180,
     209, 128], [208, 144, 208, 187, 208, 181, 208, 186, 209, 129, 208, 181, 208, 185], [208, 144, 208, 189,
     208, 180, 209, 128, 208, 181, 208, 185], [208, 144, 208, 189, 209, 130, 208, 190, 208, 189], [208, 144,
     209, 128, 209, 129, 208, 181, 208, 189, 208, 184, 208, 185], [208, 144, 209, 128, 209, 130, 209, 131,
     209, 128], [208, 144, 209, 128, 209, 130, 209, 145, 208, 188], [208, 145, 208, 190, 208, 179, 208, 180,
     208, 176, 208, 189], [208, 146, 208, 176, 208, 187, 208, 181, 209, 128, 208, 184, 208, 185], [208, 146,
     208, 176, 209, 129, 208, 184, 208, 187, 208, 184, 208, 185], [208, 146, 208, 184, 208, 186, 209, 130,
     208, 190, 209, 128], [208, 146, 208, 187, 208, 176, 208, 180, 208, 184, 209, 129, 208, 187, 208, 176,
     208, 178], [208, 147, 208, 187, 208, 181, 208, 177], [208, 147, 209, 128, 208, 184, 208, 179, 208, 190,
     209, 128, 208, 184, 208, 185], [208, 148, 208, 176, 208, 189, 208, 184, 208, 184, 208, 187], [208, 148,
     208, 181, 208, 189, 208, 184, 209, 129], [208, 148, 208, 188, 208, 184, 209, 130, 209, 128, 208, 184,
     208, 185], [208, 149, 208, 178, 208, 179, 208, 181, 208, 189, 208, 184, 208, 185], [208, 149, 208, 179,
     208, 190, 209, 128], [208, 152, 208, 178, 208, 176, 208, 189], [208, 152, 208, 179, 208, 190, 209, 128,
     209, 140], [208, 152, 208, 187, 209, 140, 209, 143], [208, 154, 208, 184, 209, 128, 208, 184, 208, 187,
     208, 187], [208, 155, 208, 181, 208, 190, 208, 189, 208, 184, 208, 180], [208, 156, 208, 176, 208, 186,
     209, 129, 208, 184, 208, 188], [208, 156, 208, 176, 209, 128, 208, 186], [208, 156, 208, 176, 209, 130,
     208, 178, 208, 181, 208, 185], [208, 156, 208, 184, 209, 133, 208, 176, 208, 184, 208, 187], [208, 157,
     208, 184, 208, 186, 208, 184, 209, 130, 208, 176], [208, 157, 208, 184, 208, 186, 208, 190, 208, 187,
     208, 176, 208, 185], [208, 158, 208, 187, 208, 181, 208, 179], [208, 159, 208, 176, 208, 178, 208, 181,
     208, 187], [208, 159, 209, 145, 209, 130, 209, 128], [208, 160, 208, 190, 208, 188, 208, 176, 208, 189],
     [208, 160, 209, 131, 209, 129, 208, 187, 208, 176, 208, 189], [208, 161, 208, 181, 209, 128, 208, 179,
     208, 181, 208, 185], [208, 161, 209, 130, 208, 176, 208, 189, 208, 184, 209, 129, 208, 187, 208, 176,
     208, 178], [208, 162, 208, 184, 208, 188, 208, 190, 209, 132, 208, 181, 208, 185], [208, 164, 209, 145,
     208, 180, 208, 190, 209, 128]]"

definition femaleFirstNames :: "string list" where
  "femaleFirstNames = map utf8 [[208, 144, 208, 187, 208, 184, 208, 189, 208, 176], [208, 144, 208, 187, 209,
     145, 208, 189, 208, 176], [208, 144, 208, 189, 208, 176, 209, 129, 209, 130, 208, 176, 209, 129, 208,
     184, 209, 143], [208, 144, 208, 189, 208, 179, 208, 181, 208, 187, 208, 184, 208, 189, 208, 176], [208,
     144, 208, 189, 208, 189, 208, 176], [208, 146, 208, 181, 209, 128, 208, 176], [208, 146, 208, 181, 209,
     128, 208, 190, 208, 189, 208, 184, 208, 186, 208, 176], [208, 146, 208, 184, 208, 186, 209, 130, 208,
     190, 209, 128, 208, 184, 209, 143], [208, 148, 208, 176, 209, 128, 209, 140, 209, 143], [208, 149, 208,
     178, 208, 176], [208, 149, 208, 186, 208, 176, 209, 130, 208, 181, 209, 128, 208, 184, 208, 189, 208,
     176], [208, 149, 208, 187, 208, 181, 208, 189, 208, 176], [208, 149, 208, 187, 208, 184, 208, 183, 208,
     176, 208, 178, 208, 181, 209, 130, 208, 176], [208, 152, 209, 128, 208, 184, 208, 189, 208, 176], [208,
     154, 208, 184, 209, 128, 208, 176], [208, 154, 209, 128, 208, 184, 209, 129, 209, 130, 208, 184, 208,
     189, 208, 176], [208, 154, 209, 129, 208, 181, 208, 189, 208, 184, 209, 143], [208, 155, 209, 142, 208,
     177, 208, 190, 208, 178, 209, 140], [208, 156, 208, 176, 209, 128, 208, 179, 208, 176, 209, 128, 208,
     184, 209, 130, 208, 176], [208, 156, 208, 176, 209, 128, 208, 184, 208, 189, 208, 176], [208, 156, 208,
     176, 209, 128, 208, 184, 209, 143], [208, 156, 208, 184, 208, 187, 208, 176, 208, 189, 208, 176], [208,
     157, 208, 176, 208, 180, 208, 181, 208, 182, 208, 180, 208, 176], [208, 157, 208, 176, 209, 130, 208,
     176, 208, 187, 209, 140, 209, 143], [208, 158, 208, 187, 209, 140, 208, 179, 208, 176], [208, 159, 208,
     190, 208, 187, 208, 184, 208, 189, 208, 176], [208, 161, 208, 178, 208, 181, 209, 130, 208, 187, 208,
     176, 208, 189, 208, 176], [208, 161, 208, 190, 209, 132, 208, 184, 209, 143], [208, 162, 208, 176, 209,
     130, 209, 140, 209, 143, 208, 189, 208, 176], [208, 174, 208, 187, 208, 184, 209, 143], [208, 175, 208,
     189, 208, 176]]"

definition lastNames :: "string list" where
  "lastNames = map utf8 [[208, 144, 208, 187, 208, 181, 208, 186, 209, 129, 208, 181, 208, 181, 208, 178],
     [208, 144, 208, 189, 208, 180, 209, 128, 208, 181, 208, 181, 208, 178], [208, 144, 208, 189, 209, 130,
     208, 190, 208, 189, 208, 190, 208, 178], [208, 145, 208, 176, 209, 128, 208, 176, 208, 189, 208, 190,
     208, 178], [208, 145, 208, 181, 208, 187, 208, 190, 208, 178], [208, 145, 208, 181, 208, 187, 209, 139,
     208, 185], [208, 145, 208, 181, 208, 187, 209, 140, 209, 129, 208, 186, 208, 184, 208, 185], [208, 145,
     208, 181, 208, 187, 209, 143, 208, 181, 208, 178], [208, 145, 208, 190, 209, 128, 208, 184, 209, 129,
     208, 190, 208, 178], [208, 146, 208, 176, 209, 129, 208, 184, 208, 187, 209, 140, 208, 181, 208, 178],
     [208, 146, 208, 181, 208, 187, 208, 184, 208, 186, 208, 184, 208, 185], [208, 146, 208, 190, 208, 187,
     208, 186, 208, 190, 208, 178], [208, 146, 208, 190, 209, 128, 208, 190, 208, 177, 209, 140, 209, 145,
     208, 178], [208, 147, 209, 128, 208, 184, 208, 179, 208, 190, 209, 128, 209, 140, 208, 181, 208, 178],
     [208, 148, 208, 176, 208, 178, 209, 139, 208, 180, 208, 190, 208, 178], [208, 149, 208, 179, 208, 190,
     209, 128, 208, 190, 208, 178], [208, 150, 209, 131, 208, 186, 208, 190, 208, 178], [208, 151, 208, 176,
     208, 185, 209, 134, 208, 181, 208, 178], [208, 151, 208, 176, 209, 133, 208, 176, 209, 128, 208, 190,
     208, 178], [208, 152, 208, 178, 208, 176, 208, 189, 208, 190, 208, 178], [208, 154, 208, 176, 208, 187,
     208, 184, 208, 189, 208, 184, 208, 189], [208, 154, 208, 190, 208, 178, 208, 176, 208, 187, 209, 145,
     208, 178], [208, 154, 208, 190, 208, 183, 208, 187, 208, 190, 208, 178], [208, 154, 208, 190, 208, 188,
     208, 176, 209, 128, 208, 190, 208, 178], [208, 154, 209, 128, 208, 176, 208, 188, 209, 129, 208, 186,
     208, 190, 208, 185], [208, 154, 209, 131, 208, 183, 208, 189, 208, 181, 209, 134, 208, 190, 208, 178],
     [208, 154, 209, 131, 208, 183, 209, 140, 208, 188, 208, 184, 208, 189], [208, 155, 208, 181, 208, 177,
     208, 181, 208, 180, 208, 181, 208, 178], [208, 156, 208, 176, 208, 186, 208, 176, 209, 128, 208, 190,
     208, 178], [208, 156, 208, 181, 208, 180, 208, 178, 208, 181, 208, 180, 208, 181, 208, 178], [208, 156,
     208, 184, 209, 133, 208, 176, 208, 185, 208, 187, 208, 190, 208, 178], [208, 156, 208, 190, 209, 128,
     208, 190, 208, 183, 208, 190, 208, 178], [208, 157, 208, 184, 208, 186, 208, 184, 209, 130, 208, 184,
     208, 189], [208, 157, 208, 184, 208, 186, 208, 190, 208, 187, 208, 176, 208, 181, 208, 178], [208, 157,
     208, 190, 208, 178, 208, 184, 208, 186, 208, 190, 208, 178], [208, 158, 209, 128, 208, 187, 208, 190,
     208, 178], [208, 158, 209, 129, 209, 130, 209, 128, 208, 190, 208, 178, 209, 129, 208, 186, 208, 184,
     208, 185], [208, 159, 208, 176, 208, 178, 208, 187, 208, 190, 208, 178], [208, 159, 208, 181, 209, 130,
     209, 128, 208, 190, 208, 178], [208, 159, 208, 190, 208, 186, 209, 128, 208, 190, 208, 178, 209, 129,
     208, 186, 208, 184, 208, 185], [208, 159, 208, 190, 208, 191, 208, 190, 208, 178], [208, 160, 208, 176,
     208, 181, 208, 178, 209, 129, 208, 186, 208, 184, 208, 185], [208, 160, 208, 190, 208, 188, 208, 176,
     208, 189, 208, 190, 208, 178], [208, 161, 208, 181, 208, 188, 209, 145, 208, 189, 208, 190, 208, 178],
     [208, 161, 208, 181, 209, 128, 208, 179, 208, 181, 208, 181, 208, 178], [208, 161, 208, 188, 208, 184,
     209, 128, 208, 189, 208, 190, 208, 178], [208, 161, 208, 190, 208, 186, 208, 190, 208, 187, 208, 190,
     208, 178], [208, 161, 208, 190, 208, 187, 208, 190, 208, 178, 209, 140, 209, 145, 208, 178], [208, 161,
     209, 130, 208, 181, 208, 191, 208, 176, 208, 189, 208, 190, 208, 178], [208, 162, 208, 176, 209, 128,
     208, 176, 209, 129, 208, 190, 208, 178], [208, 162, 208, 184, 209, 130, 208, 190, 208, 178], [208, 162,
     208, 190, 208, 187, 209, 129, 209, 130, 208, 190, 208, 185], [208, 162, 209, 128, 209, 131, 208, 177,
     208, 181, 209, 134, 208, 186, 208, 190, 208, 185], [208, 164, 208, 184, 208, 187, 208, 184, 208, 191,
     208, 191, 208, 190, 208, 178], [208, 164, 209, 128, 208, 190, 208, 187, 208, 190, 208, 178], [208, 164,
     209, 145, 208, 180, 208, 190, 209, 128, 208, 190, 208, 178], [208, 167, 208, 176, 208, 185, 208, 186,
     208, 190, 208, 178, 209, 129, 208, 186, 208, 184, 208, 185], [208, 167, 208, 181, 209, 128, 208, 189,
     209, 139, 208, 185], [208, 175, 208, 186, 208, 190, 208, 178, 208, 187, 208, 181, 208, 178]]"

definition ends_any :: "nat list list \<Rightarrow> string \<Rightarrow> bool" where
  "ends_any es s = list_ex (\<lambda>e. has_suffix (utf8 e) s) es"

text \<open>The adjectives in -ij, -yj and -oj, and the names in -ov, -ev, -in, -yn and -jov.\<close>

definition convertToFemaleSurname :: "string \<Rightarrow> string" where
  "convertToFemaleSurname surname =
     (if ends_any [[208, 184, 208, 185], [209, 139, 208, 185], [208, 190, 208, 185]] surname
      then take (length surname - 4) surname @ utf8 [208, 176, 209, 143]
      else if ends_any [[208, 190, 208, 178], [208, 181, 208, 178], [208, 184, 208, 189], [209, 139, 208, 189],
          [209, 145, 208, 178]] surname
      then surname @ utf8 [208, 176]
      else surname)"

text \<open>The random numbers: the sex, the first name, whether there is no surname, and the surname.\<close>

record name_draws =
  ndSex :: nat
  ndFirst :: nat
  ndShort :: bool
  ndLast :: nat

definition generateName :: "name_draws \<Rightarrow> string" where
  "generateName d =
     (let isFemale = (Intn (ndSex d) 2 = 0);
          fn = (if isFemale then femaleFirstNames ! Intn (ndFirst d) (length femaleFirstNames)
                else maleFirstNames ! Intn (ndFirst d) (length maleFirstNames))
      in if ndShort d then fn
         else (let ln = lastNames ! Intn (ndLast d) (length lastNames);
                   ln = (if isFemale then convertToFemaleSurname ln else ln)
               in fn @ '' '' @ ln))"

section \<open>The tables are consistent\<close>

text \<open>The version the first brand claims, and the mark of a platform in the user agent.\<close>

definition claimed_version :: "Profile \<Rightarrow> string" where
  "claimed_version p = (case str_index ('';v='' @ [CHR 34]) (SecChUa p) of
     None \<Rightarrow> [] | Some i \<Rightarrow> takeWhile (\<lambda>c. c \<noteq> CHR 34) (drop (i + 4) (SecChUa p)))"

definition platform_mark :: "string \<Rightarrow> string" where
  "platform_mark p = (if p = quoted ''Windows'' then ''Windows NT'' else if p = quoted ''macOS'' then ''Macintosh''
     else if p = quoted ''Linux'' then ''X11'' else if p = quoted ''Android'' then ''Android'' else ''iPhone'')"

definition coherent :: "Profile \<Rightarrow> bool" where
  "coherent p \<longleftrightarrow> claimed_version p \<noteq> [] \<and> contains (''/'' @ claimed_version p @ ''.'') (UserAgent p) \<and>
     contains (platform_mark (SecChUaPlatform p)) (UserAgent p) \<and>
     (SecChUaMobile p = ''?1'' \<longleftrightarrow> contains ''Mobile'' (UserAgent p))"

lemma tables_coherent:
  "list_all coherent profileList" "list_all coherent androidProfiles" "list_all coherent iosProfiles"
  by code_simp+

lemma table_sizes: "length profileList = 10" "length androidProfiles = 1" "length iosProfiles = 1"
  by (simp_all add: profileList_def androidProfiles_def iosProfiles_def)

lemma Intn_less: "0 < n \<Longrightarrow> Intn r n < n"
  by (simp add: Intn_def)

lemma table_marks:
  "contains ''Edg/'' (UserAgent (profileList ! 4))" "contains ''Firefox/'' (UserAgent (profileList ! 9))"
  "contains ''Android'' (UserAgent (androidProfiles ! 0))" "contains ''iPhone'' (UserAgent (iosProfiles ! 0))"
  by code_simp+

lemma chrome_marks: "list_all (\<lambda>p. contains ''Windows NT'' (UserAgent p) \<and> \<not> contains ''Edg/'' (UserAgent p)) (take 3 profileList)"
  by code_simp

lemma profileList_last: "profileList ! (length profileList - 1) = profileList ! 9"
  by (simp add: table_sizes)

text \<open>Whatever the random number, the profile chosen is consistent: the
  version in its first brand, its platform and its mobile flag are those of its user agent. A
  phone's fingerprint gives that phone, firefox gives Firefox, and any name unknown to the
  function gives a Chrome on Windows. The fingerprint safari gives an Edge.\<close>

theorem profile_fits_its_fingerprint:
  "coherent (getRandomProfile fp r) \<and>
   contains ''Android'' (UserAgent (getRandomProfile ''android'' r)) \<and>
   contains ''iPhone'' (UserAgent (getRandomProfile ''ios'' r)) \<and>
   contains ''Firefox/'' (UserAgent (getRandomProfile ''firefox'' r)) \<and>
   contains ''Edg/'' (UserAgent (getRandomProfile ''safari'' r)) \<and>
   (fp \<in> {''android'', ''ios'', ''safari'', ''firefox''} \<or>
    contains ''Windows NT'' (UserAgent (getRandomProfile fp r)) \<and> \<not> contains ''Edg/'' (UserAgent (getRandomProfile fp r)))"
proof -
  have r3: "Intn r 3 < 3" by (rule Intn_less) simp
  have one: "Intn r 1 = 0" by (simp add: Intn_def)
  have "androidProfiles ! 0 \<in> set androidProfiles" "iosProfiles ! 0 \<in> set iosProfiles"
    "profileList ! 4 \<in> set profileList" "profileList ! 9 \<in> set profileList"
    "profileList ! Intn r 3 \<in> set profileList"
    using r3 by (simp_all add: nth_mem table_sizes)
  then have chosen: "getRandomProfile fp r \<in> set profileList \<union> set androidProfiles \<union> set iosProfiles"
    using one by (simp add: getRandomProfile_def table_sizes)
  then have "coherent (getRandomProfile fp r)"
    using tables_coherent by (auto simp: list_all_iff)
  moreover have "profileList ! Intn r 3 \<in> set (take 3 profileList)"
    using r3 by (auto simp: in_set_conv_nth table_sizes intro!: exI [of _ "Intn r 3"])
  then have "contains ''Windows NT'' (UserAgent (profileList ! Intn r 3)) \<and>
      \<not> contains ''Edg/'' (UserAgent (profileList ! Intn r 3))"
    using chrome_marks by (simp add: list_all_iff)
  ultimately show ?thesis
    using table_marks one by (auto simp: getRandomProfile_def table_sizes)
qed

section \<open>Names\<close>

text \<open>The endings of the surnames of the table, and what the conversion makes of them.\<close>

definition masculine_endings :: "nat list list" where
  "masculine_endings = [[208, 184, 208, 185], [209, 139, 208, 185], [208, 190, 208, 185], [208, 190, 208, 178],
     [208, 181, 208, 178], [208, 184, 208, 189], [209, 139, 208, 189], [209, 145, 208, 178]]"

lemma surnames_are_masculine: "list_all (ends_any masculine_endings) lastNames"
  by (simp add: lastNames_def ends_any_def masculine_endings_def has_suffix_def utf8_def)

lemma converted_is_feminine:
  assumes "ends_any masculine_endings s"
  shows "ends_any [[208, 176], [209, 143]] (convertToFemaleSurname s)"
  using assms
  by (auto simp: convertToFemaleSurname_def ends_any_def masculine_endings_def has_suffix_def utf8_def)

lemma ends_any_append: "ends_any es s \<Longrightarrow> ends_any es (p @ s)"
  by (auto simp: ends_any_def has_suffix_iff list_ex_iff) (metis append.assoc)

text \<open>A woman's name with a surname ends in one of the two feminine
  endings, and a man's ends in one of the masculine ones: the conversion knows the ending of every
  surname of the table.\<close>

theorem surname_agrees_with_the_sex:
  assumes "\<not> ndShort d"
  shows "if even (ndSex d) then ends_any [[208, 176], [209, 143]] (generateName d)
    else ends_any masculine_endings (generateName d)"
proof -
  have "0 < length lastNames" by (simp add: lastNames_def)
  then have "lastNames ! Intn (ndLast d) (length lastNames) \<in> set lastNames"
    by (simp add: Intn_less)
  then have "ends_any masculine_endings (lastNames ! Intn (ndLast d) (length lastNames))"
    using surnames_are_masculine by (simp add: list_all_iff)
  then show ?thesis
    using assms converted_is_feminine ends_any_append [of _ _ "_ @ '' ''"]
    by (auto simp: generateName_def Let_def Intn_def even_iff_mod_2_eq_zero)
qed

theorem surname_agrees_with_the_sex_witness:
  "ends_any [[208, 176], [209, 143]] (generateName \<lparr>ndSex = 4, ndFirst = 7, ndShort = False, ndLast = 61\<rparr>) \<and>
   ends_any masculine_endings (generateName \<lparr>ndSex = 3, ndFirst = 7, ndShort = False, ndLast = 61\<rparr>)"
  using surname_agrees_with_the_sex [of "\<lparr>ndSex = 4, ndFirst = 7, ndShort = False, ndLast = 61\<rparr>"]
    surname_agrees_with_the_sex [of "\<lparr>ndSex = 3, ndFirst = 7, ndShort = False, ndLast = 61\<rparr>"]
  by simp

end
